(* ===== verification/Prelude.thy ===== *)
theory Prelude
  imports Main "HOL-Library.Word"
begin

text \<open>
  Shared vocabulary of the development.

  \<^item> \<open>status_code\<close>: the codes of \<^verbatim>\<open>absl::Status\<close> that the runtime returns. Messages
    are not modelled: no code under \<^verbatim>\<open>src/runtime\<close> branches on one.
  \<^item> \<open>'a status_or\<close>: \<^verbatim>\<open>absl::StatusOr<T>\<close> (\<open>Inl\<close> the error code, \<open>Inr\<close> the value) and
    \<open>status\<close>, \<^verbatim>\<open>absl::Status\<close>.
  \<^item> \<open>('s, 'a) op\<close>: a method that reads and writes a state \<open>'s\<close> and may return early with
    an error; the state reached at the early return is part of the result.
    \<open>assign_or_return\<close> is \<^verbatim>\<open>ASSIGN_OR_RETURN\<close> / \<^verbatim>\<open>RETURN_IF_ERROR\<close> on such methods,
    \<open>try_or_return\<close> the same on functions without state.
  \<^item> undefined behaviour of C++ (a null dereference, an index past the end) is the value
    \<open>None\<close> of an \<open>option\<close> around the result, so that its absence is a theorem.
  \<^item> the locale \<open>op_system\<close>: an invariant that every legal operation keeps is kept by every run of
    legal operations, and none of them is undefined.
\<close>

section \<open>Status\<close>

datatype status_code =
    Cancelled | Unknown | InvalidArgument | DeadlineExceeded | NotFound | AlreadyExists
  | FailedPrecondition | OutOfRange | Unimplemented | Internal | DataLoss

type_synonym 'a status_or = "status_code + 'a"
type_synonym status = "unit status_or"

abbreviation Ok :: status where
  "Ok \<equiv> Inr ()"

definition ok :: "'a status_or \<Rightarrow> bool" where
  "ok r = (case r of Inl _ \<Rightarrow> False | Inr _ \<Rightarrow> True)"

lemma ok_simps [simp]: "ok (Inl e) = False" "ok (Inr v) = True"
  by (simp_all add: ok_def)

lemma ok_iff: "ok r \<longleftrightarrow> (\<exists>v. r = Inr v)"
  by (cases r) simp_all

section \<open>Methods that may return early\<close>

type_synonym ('s, 'a) op = "'s \<Rightarrow> 'a status_or \<times> 's"

definition assign_or_return :: "('s, 'a) op \<Rightarrow> ('a \<Rightarrow> ('s, 'b) op) \<Rightarrow> ('s, 'b) op" where
  "assign_or_return m k s =
     (case m s of (Inl e, s') \<Rightarrow> (Inl e, s') | (Inr v, s') \<Rightarrow> k v s')"

definition try_or_return :: "'a status_or \<Rightarrow> ('a \<Rightarrow> 'b status_or) \<Rightarrow> 'b status_or" where
  "try_or_return r k = (case r of Inl e \<Rightarrow> Inl e | Inr v \<Rightarrow> k v)"

lemma try_or_return_simps [simp]:
  "try_or_return (Inl e) k = Inl e"
  "try_or_return (Inr v) k = k v"
  by (simp_all add: try_or_return_def)

lemma try_or_return_Inr_iff:
  "try_or_return r k = Inr w \<longleftrightarrow> (\<exists>v. r = Inr v \<and> k v = Inr w)"
  by (cases r) simp_all

lemma assign_or_return_Inr:
  "m s = (Inr v, s') \<Longrightarrow> assign_or_return m k s = k v s'"
  by (simp add: assign_or_return_def)

lemma assign_or_return_Inl:
  "m s = (Inl e, s') \<Longrightarrow> assign_or_return m k s = (Inl e, s')"
  by (simp add: assign_or_return_def)

section \<open>Invariants of operation runs\<close>

text \<open>
  A run of operations, each of which may have undefined behaviour (\<open>None\<close>). What a component
  promises is that legal operations (those whose arguments its callers may pass) keep an
  invariant and are defined wherever it holds.
\<close>

fun run_ops :: "('o \<Rightarrow> 's \<Rightarrow> 's option) \<Rightarrow> 'o list \<Rightarrow> 's \<Rightarrow> 's option" where
  "run_ops step [] s = Some s"
| "run_ops step (a # as) s = (case step a s of None \<Rightarrow> None | Some s' \<Rightarrow> run_ops step as s')"

lemma run_ops_append:
  "run_ops step (as @ bs) s =
     (case run_ops step as s of None \<Rightarrow> None | Some s' \<Rightarrow> run_ops step bs s')"
  by (induction as arbitrary: s) (auto split: option.split)

locale op_system =
  fixes step :: "'o \<Rightarrow> 's \<Rightarrow> 's option"
    and legal :: "'o \<Rightarrow> bool"
    and inv :: "'s \<Rightarrow> bool"
  assumes step_inv: "inv s \<Longrightarrow> legal a \<Longrightarrow> \<exists>s'. step a s = Some s' \<and> inv s'"
begin

lemma run_inv: "inv s \<Longrightarrow> list_all legal as \<Longrightarrow> \<exists>s'. run_ops step as s = Some s' \<and> inv s'"
proof (induction as arbitrary: s)
  case (Cons a as)
  then obtain s' where "step a s = Some s'" "inv s'" using step_inv [of s a] by auto
  with Cons show ?case by simp
qed simp

end

section \<open>Lists\<close>

lemma those_map_Some [simp]: "those (map (\<lambda>x. Some (f x)) xs) = Some (map f xs)"
  by (induction xs) simp_all

lemma those_map_eq_Some:
  "(\<And>x. x \<in> set xs \<Longrightarrow> f x = Some (g x)) \<Longrightarrow> those (map f xs) = Some (map g xs)"
  by (induction xs) simp_all

lemma those_None_iff: "those xs = None \<longleftrightarrow> None \<in> set xs"
  by (induction xs) (auto split: option.splits)

lemma map_fst_upd_idem: "i < length xs \<Longrightarrow> xs[i := xs ! i] = xs"
  by simp

lemma count_list_distinct: "distinct xs \<Longrightarrow> x \<in> set xs \<Longrightarrow> count_list xs x = 1"
  by (induction xs) (auto simp: count_notin)

section \<open>Decimal numbers\<close>

text \<open>What \<^verbatim>\<open>absl::StrCat\<close> prints for a non-negative integer.\<close>

fun decimal :: "nat \<Rightarrow> string" where
  "decimal n = (if n < 10 then [char_of (48 + n)]
                else decimal (n div 10) @ [char_of (48 + n mod 10)])"

declare decimal.simps [simp del]

definition digit_value :: "char \<Rightarrow> nat" where
  "digit_value c = of_char c - 48"

lemma digit_value_char: "n < 10 \<Longrightarrow> digit_value (char_of (48 + n)) = n"
  by (simp add: digit_value_def)

lemma decimal_value: "foldl (\<lambda>a c. 10 * a + digit_value c) 0 (decimal n) = n"
proof (induction n rule: decimal.induct)
  case (1 n)
  show ?case
  proof (cases "n < 10")
    case True
    then show ?thesis by (subst decimal.simps) (simp add: digit_value_char del: char_of_nat)
  next
    case False
    then show ?thesis using 1
      by (subst decimal.simps) (simp add: digit_value_char)
  qed
qed

lemma decimal_inject [simp]: "decimal m = decimal n \<longleftrightarrow> m = n"
  by (metis decimal_value)

lemma decimal_digits: "set (decimal n) \<subseteq> set ''0123456789''"
proof (induction n rule: decimal.induct)
  case (1 n)
  have d: "char_of (48 + k) \<in> set ''0123456789''" if "k < 10" for k :: nat
  proof -
    have "k \<in> {0, 1, 2, 3, 4, 5, 6, 7, 8, 9}" using that by auto
    then show ?thesis by (elim insertE) (simp_all add: char_of_def bit_0)
  qed
  show ?case
  proof (cases "n < 10")
    case True
    then show ?thesis using d [of n] by (subst decimal.simps) simp
  next
    case False
    then show ?thesis using 1 d [of "n mod 10"] by (subst decimal.simps) simp
  qed
qed

definition decimal_int :: "int \<Rightarrow> string" where
  "decimal_int i = (if i < 0 then ''-'' @ decimal (nat (- i)) else decimal (nat i))"

lemma decimal_no_minus: "decimal n \<noteq> ''-'' @ xs"
  using decimal_digits [of n] by auto

lemma decimal_int_inject [simp]: "decimal_int i = decimal_int j \<longleftrightarrow> i = j"
proof (cases "i < 0"; cases "j < 0")
  assume "i < 0" "j < 0"
  then show ?thesis by (simp add: decimal_int_def nat_eq_iff)
next
  assume "\<not> i < 0" "\<not> j < 0"
  then show ?thesis by (simp add: decimal_int_def nat_eq_iff)
next
  assume "i < 0" "\<not> j < 0"
  then show ?thesis using decimal_no_minus [of "nat j" "decimal (nat (- i))"]
    by (simp add: decimal_int_def del: append.simps)
next
  assume "\<not> i < 0" "j < 0"
  then show ?thesis using decimal_no_minus [of "nat i" "decimal (nat (- j))"]
    by (simp add: decimal_int_def del: append.simps)
qed

section \<open>Methods with undefined behaviour\<close>

text \<open>
  A method that may also have undefined behaviour or not return, the value \<open>None\<close>; \<open>bind_op\<close> is
  \<open>assign_or_return\<close> on such methods.
\<close>

type_synonym ('s, 'a) uop = "'s \<Rightarrow> ('a status_or \<times> 's) option"

definition bind_op :: "('s, 'a) uop \<Rightarrow> ('a \<Rightarrow> ('s, 'b) uop) \<Rightarrow> ('s, 'b) uop" where
  "bind_op m k s =
     (case m s of None \<Rightarrow> None
      | Some (Inl e, s') \<Rightarrow> Some (Inl e, s')
      | Some (Inr v, s') \<Rightarrow> k v s')"

definition defined :: "('s, 'a) op \<Rightarrow> ('s, 'a) uop" where
  "defined m s = Some (m s)"

lemma bind_op_Inr_iff:
  "bind_op m k s = Some (Inr w, s'') \<longleftrightarrow>
     (\<exists>v s'. m s = Some (Inr v, s') \<and> k v s' = Some (Inr w, s''))"
  by (auto simp: bind_op_def split: option.splits sum.splits prod.splits)

lemma bind_op_Some: "m s = Some (Inr v, s') \<Longrightarrow> bind_op m k s = k v s'"
  by (simp add: bind_op_def)

lemma bind_op_not_None:
  "m s \<noteq> None \<Longrightarrow> (\<And>v s'. m s = Some (Inr v, s') \<Longrightarrow> k v s' \<noteq> None) \<Longrightarrow> bind_op m k s \<noteq> None"
  by (auto simp: bind_op_def split: option.splits sum.splits prod.splits)

lemma defined_not_None [simp]: "defined m s \<noteq> None"
  by (simp add: defined_def)

end
