(* ===== verification/IoTypes.thy ===== *)
theory IoTypes
  imports Prelude
begin

text \<open>
  The data exchanged with a session: \<^verbatim>\<open>runtime/engine/io_types.{h,cc}\<close>. Tensor buffers are
  values of an arbitrary type \<open>'tb\<close>, scores of an arbitrary type \<open>'f\<close>; duplicating a tensor
  buffer (LiteRT) is an argument. Task states are ordered as the enumerators are declared, which
  is the order in which a task passes through them.
\<close>

section \<open>Input data\<close>

datatype 'tb payload = Raw string | Tensor 'tb

datatype 'tb input_data =
    InputText "'tb payload"
  | InputImage "'tb payload"
  | InputAudio "'tb payload"

fun IsTensorBuffer :: "'tb payload \<Rightarrow> bool" where
  "IsTensorBuffer (Raw _) = False"
| "IsTensorBuffer (Tensor _) = True"

fun GetRawTextString :: "'tb payload \<Rightarrow> string status_or" where
  "GetRawTextString (Raw s) = Inr s"
| "GetRawTextString (Tensor _) = Inl FailedPrecondition"

fun GetPreprocessedTextTensor :: "'tb payload \<Rightarrow> 'tb status_or" where
  "GetPreprocessedTextTensor (Tensor b) = Inr b"
| "GetPreprocessedTextTensor (Raw _) = Inl FailedPrecondition"

fun CreateCopy :: "('tb \<Rightarrow> 'tb status_or) \<Rightarrow> 'tb payload \<Rightarrow> 'tb payload status_or" where
  "CreateCopy duplicate (Raw s) = Inr (Raw s)"
| "CreateCopy duplicate (Tensor b) = try_or_return (duplicate b) (\<lambda>c. Inr (Tensor c))"

text \<open>The classes for images and audio repeat the three methods.\<close>

definition GetRawImageBytes :: "'tb payload \<Rightarrow> string status_or" where
  "GetRawImageBytes p = (case p of Raw s \<Rightarrow> Inr s | Tensor _ \<Rightarrow> Inl FailedPrecondition)"

definition GetPreprocessedImageTensor :: "'tb payload \<Rightarrow> 'tb status_or" where
  "GetPreprocessedImageTensor p = (case p of Tensor b \<Rightarrow> Inr b | Raw _ \<Rightarrow> Inl FailedPrecondition)"

definition CreateImageCopy :: "('tb \<Rightarrow> 'tb status_or) \<Rightarrow> 'tb payload \<Rightarrow> 'tb payload status_or" where
  "CreateImageCopy dup p =
     (case p of Raw s \<Rightarrow> Inr (Raw s) | Tensor b \<Rightarrow> try_or_return (dup b) (\<lambda>c. Inr (Tensor c)))"

definition GetRawAudioBytes :: "'tb payload \<Rightarrow> string status_or" where
  "GetRawAudioBytes p = (case p of Raw s \<Rightarrow> Inr s | Tensor _ \<Rightarrow> Inl FailedPrecondition)"

definition GetPreprocessedAudioTensor :: "'tb payload \<Rightarrow> 'tb status_or" where
  "GetPreprocessedAudioTensor p = (case p of Tensor b \<Rightarrow> Inr b | Raw _ \<Rightarrow> Inl FailedPrecondition)"

definition CreateAudioCopy :: "('tb \<Rightarrow> 'tb status_or) \<Rightarrow> 'tb payload \<Rightarrow> 'tb payload status_or" where
  "CreateAudioCopy dup p =
     (case p of Raw s \<Rightarrow> Inr (Raw s) | Tensor b \<Rightarrow> try_or_return (dup b) (\<lambda>c. Inr (Tensor c)))"

fun CreateInputDataCopy ::
  "('tb \<Rightarrow> 'tb status_or) \<Rightarrow> 'tb input_data \<Rightarrow> 'tb input_data status_or" where
  "CreateInputDataCopy dup (InputText p) = try_or_return (CreateCopy dup p) (\<lambda>q. Inr (InputText q))"
| "CreateInputDataCopy dup (InputImage p) = try_or_return (CreateImageCopy dup p) (\<lambda>q. Inr (InputImage q))"
| "CreateInputDataCopy dup (InputAudio p) = try_or_return (CreateAudioCopy dup p) (\<lambda>q. Inr (InputAudio q))"

section \<open>Task states and responses\<close>

datatype task_state =
    kUnknown | kCreated | kQueued | kProcessing | kDone | kMaxNumTokensReached
  | kFailed | kDependentTaskFailed

fun enumerator :: "task_state \<Rightarrow> nat" where
  "enumerator kUnknown = 0"
| "enumerator kCreated = 1"
| "enumerator kQueued = 2"
| "enumerator kProcessing = 3"
| "enumerator kDone = 4"
| "enumerator kMaxNumTokensReached = 5"
| "enumerator kFailed = 6"
| "enumerator kDependentTaskFailed = 7"

lemma enumerator_inject: "enumerator a = enumerator b \<Longrightarrow> a = b"
  by (cases a; cases b) simp_all

instantiation task_state :: linorder
begin

definition less_eq_task_state :: "task_state \<Rightarrow> task_state \<Rightarrow> bool" where
  "a \<le> b \<longleftrightarrow> enumerator a \<le> enumerator b"

definition less_task_state :: "task_state \<Rightarrow> task_state \<Rightarrow> bool" where
  "a < b \<longleftrightarrow> enumerator a < enumerator b"

instance
  by standard (auto simp: less_eq_task_state_def less_task_state_def intro: enumerator_inject)

end

definition IsTaskEndState :: "task_state \<Rightarrow> bool" where
  "IsTaskEndState s \<longleftrightarrow> s = kDone \<or> s = kMaxNumTokensReached \<or> s = kFailed \<or>
     s = kDependentTaskFailed"

text \<open>The name that \<^verbatim>\<open>operator<<\<close> prints.\<close>

fun task_state_name :: "task_state \<Rightarrow> string" where
  "task_state_name kCreated = ''Created''"
| "task_state_name kQueued = ''Queued''"
| "task_state_name kProcessing = ''Processing''"
| "task_state_name kDone = ''Done''"
| "task_state_name kMaxNumTokensReached = ''MaxNumTokensReached''"
| "task_state_name kFailed = ''Failed''"
| "task_state_name kDependentTaskFailed = ''DependentTaskFailed''"
| "task_state_name kUnknown = ''Unknown''"

record 'f responses =
  GetTaskState :: task_state
  GetTexts :: "string list"
  GetScores :: "'f list"
  GetTokenLengths :: "int list option"

definition Responses ::
  "task_state \<Rightarrow> string list \<Rightarrow> 'f list \<Rightarrow> int list \<Rightarrow> 'f responses" where
  "Responses st texts scores lengths =
     \<lparr>GetTaskState = st, GetTexts = texts, GetScores = scores,
      GetTokenLengths = (if lengths = [] then None else Some lengths)\<rparr>"

abbreviation StateResponse :: "task_state \<Rightarrow> 'f responses" where
  "StateResponse st \<equiv> Responses st [] [] []"

lemma IsTaskEndState_le: "IsTaskEndState s \<longleftrightarrow> kDone \<le> s"
  by (cases s) (simp_all add: IsTaskEndState_def less_eq_task_state_def)

lemma Responses_sel [simp]:
  "GetTaskState (Responses st texts scores lengths) = st"
  "GetTexts (Responses st texts scores lengths) = texts"
  "GetScores (Responses st texts scores lengths) = scores"
  by (simp_all add: Responses_def)

end
