(* ===== verification/ProcessedTokens.thy ===== *)
theory ProcessedTokens
  imports Prelude
begin

text \<open>
  The token bookkeeping of an executor: class \<^verbatim>\<open>ProcessedTokens\<close> of
  \<^verbatim>\<open>runtime/executor/llm_executor_processed_tokens.{h,cc}\<close>. The state is one record per
  output candidate (processed ids, and the pending input token if any). The abstraction of a
  candidate is its context: the processed ids followed by the id of the pending token.
  Embeddings are values of an arbitrary type \<open>'f\<close> (the code stores floats it never reads here).
  The locale \<open>token_log\<close> is the interface the executors rely on.
\<close>

section \<open>State\<close>

record 'f token_data =
  tok_id :: int
  embedding :: "'f list"
  per_layer_embedding :: "'f list"

definition TokenData :: "int \<Rightarrow> 'f token_data" where
  "TokenData token_id = \<lparr>tok_id = token_id, embedding = [], per_layer_embedding = []\<rparr>"

record 'f tokens =
  token_ids :: "int list"
  pending_input_token :: "'f token_data option"

record 'f processed_tokens =
  toks :: "'f tokens list"

section \<open>Operations\<close>

definition ProcessedTokens :: "'f processed_tokens" where
  "ProcessedTokens = \<lparr>toks = [\<lparr>token_ids = [], pending_input_token = None\<rparr>]\<rparr>"

definition GetStep :: "'f processed_tokens \<Rightarrow> int" where
  "GetStep pt = int (length (token_ids (toks pt ! 0)))"

definition HasPendingInputToken :: "'f processed_tokens \<Rightarrow> bool" where
  "HasPendingInputToken pt = (pending_input_token (toks pt ! 0) \<noteq> None)"

definition TokenCount :: "'f processed_tokens \<Rightarrow> int" where
  "TokenCount pt = GetStep pt + (if HasPendingInputToken pt then 1 else 0)"

definition ReduceTokenCandidates :: "nat \<Rightarrow> ('f processed_tokens, unit) op" where
  "ReduceTokenCandidates index pt =
     (let ts = toks pt in
      if index \<ge> length ts then (Inl OutOfRange, pt)
      else let ts' = (if index > 0 then ts[0 := ts ! index, index := ts ! 0] else ts)
           in (Ok, pt\<lparr>toks := take 1 ts'\<rparr>))"

definition BroadcastTokenCandidates :: "nat \<Rightarrow> ('f processed_tokens, unit) op" where
  "BroadcastTokenCandidates sz pt =
     (let ts = toks pt in
      if length ts \<noteq> 1 then (Inl FailedPrecondition, pt)
      else if sz < length ts then (Inl InvalidArgument, pt)
      else (Ok, pt\<lparr>toks := ts @ replicate (sz - 1) (ts ! 0)\<rparr>))"

definition GetPendingInputToken :: "'f processed_tokens \<Rightarrow> 'f token_data option list" where
  "GetPendingInputToken pt =
     (if HasPendingInputToken pt then map pending_input_token (toks pt) else [])"

definition GetNextUnprocessedToken ::
  "'f processed_tokens \<Rightarrow> int \<times> 'f token_data option list" where
  "GetNextUnprocessedToken pt = (GetStep pt, GetPendingInputToken pt)"

definition AddProcessedTokens :: "int list \<Rightarrow> 'f processed_tokens \<Rightarrow> 'f processed_tokens" where
  "AddProcessedTokens ids pt =
     pt\<lparr>toks := map (\<lambda>t. t\<lparr>token_ids := token_ids t @ ids\<rparr>) (toks pt)\<rparr>"

definition AddPendingInputToken ::
  "'f token_data option list \<Rightarrow> ('f processed_tokens, unit) op" where
  "AddPendingInputToken token pt =
     (if length token \<noteq> length (toks pt) then (Inl InvalidArgument, pt)
      else if HasPendingInputToken pt then (Inl AlreadyExists, pt)
      else (Ok, pt\<lparr>toks :=
              map2 (\<lambda>t p. t\<lparr>pending_input_token := p\<rparr>) (toks pt) token\<rparr>))"

text \<open>\<^verbatim>\<open>std::vector<int>::resize\<close>: truncates, or pads with zeroes.\<close>

definition resize_ids :: "nat \<Rightarrow> int list \<Rightarrow> int list" where
  "resize_ids n xs = take n xs @ replicate (n - length xs) 0"

definition RollBackToStep :: "int \<Rightarrow> ('f processed_tokens, unit) op" where
  "RollBackToStep new_step pt =
     (if new_step < 0 then (Inl Internal, pt)
      else if new_step > TokenCount pt then (Inl Internal, pt)
      else if new_step = TokenCount pt then (Ok, pt)
      else (Ok, pt\<lparr>toks :=
              map (\<lambda>t. t\<lparr>token_ids := resize_ids (nat new_step) (token_ids t),
                        pending_input_token := None\<rparr>) (toks pt)\<rparr>))"

text \<open>\<open>None\<close> is a null dereference or an index past the end of a candidate's ids.\<close>

definition pending_id :: "'f tokens \<Rightarrow> int option" where
  "pending_id t = map_option tok_id (pending_input_token t)"

definition id_at :: "nat \<Rightarrow> 'f tokens \<Rightarrow> int option" where
  "id_at n t = (if n < length (token_ids t) then Some (token_ids t ! n) else None)"

definition GetTokenAtStep :: "int \<Rightarrow> 'f processed_tokens \<Rightarrow> int list option" where
  "GetTokenAtStep step pt =
     (if step < 0 \<or> step \<ge> TokenCount pt then Some []
      else if step = GetStep pt \<and> HasPendingInputToken pt
      then those (map pending_id (toks pt))
      else those (map (id_at (nat step)) (toks pt)))"

definition MarkPendingInputTokenAsProcessed ::
  "'f processed_tokens \<Rightarrow> (status \<times> 'f processed_tokens) option" where
  "MarkPendingInputTokenAsProcessed pt =
     (if \<not> HasPendingInputToken pt then Some (Inl NotFound, pt)
      else case those (map pending_id (toks pt)) of
             None \<Rightarrow> None
           | Some ids \<Rightarrow> Some (Ok, pt\<lparr>toks :=
               map2 (\<lambda>t i. t\<lparr>token_ids := token_ids t @ [i], pending_input_token := None\<rparr>)
                    (toks pt) ids\<rparr>))"

definition GetCopyOfTokens :: "'f processed_tokens \<Rightarrow> int list list" where
  "GetCopyOfTokens pt =
     map (\<lambda>t. token_ids t @
            (case pending_input_token t of None \<Rightarrow> [] | Some d \<Rightarrow> [tok_id d])) (toks pt)"

text \<open>\<open>None\<close> is the failed \<^verbatim>\<open>ABSL_CHECK_EQ\<close>.\<close>

definition GetTokensUnsafe :: "'f processed_tokens \<Rightarrow> int list option" where
  "GetTokensUnsafe pt =
     (if pending_input_token (toks pt ! 0) = None
      then Some (token_ids (toks pt ! 0)) else None)"

definition InvalidatePendingInputToken :: "'f processed_tokens \<Rightarrow> 'f processed_tokens" where
  "InvalidatePendingInputToken pt =
     pt\<lparr>toks := map (\<lambda>t. t\<lparr>pending_input_token := None\<rparr>) (toks pt)\<rparr>"

section \<open>Well-formed states\<close>

text \<open>
  What the class keeps true: there is at least one candidate, all candidates have processed
  the same number of tokens, and either all or none of them has a pending token.
\<close>

definition wf_tokens :: "'f processed_tokens \<Rightarrow> bool" where
  "wf_tokens pt \<longleftrightarrow> toks pt \<noteq> [] \<and>
     (\<forall>t \<in> set (toks pt). int (length (token_ids t)) = GetStep pt \<and>
        (pending_input_token t = None) = (\<not> HasPendingInputToken pt))"

definition context_of :: "'f tokens \<Rightarrow> int list" where
  "context_of t = token_ids t @
     (case pending_input_token t of None \<Rightarrow> [] | Some d \<Rightarrow> [tok_id d])"

lemma GetCopyOfTokens_alt: "GetCopyOfTokens pt = map context_of (toks pt)"
  by (simp add: GetCopyOfTokens_def context_of_def)

lemma wf_tokensI:
  assumes "toks pt \<noteq> []"
    and "\<And>t. t \<in> set (toks pt) \<Longrightarrow> length (token_ids t) = n"
    and "\<And>t. t \<in> set (toks pt) \<Longrightarrow> (pending_input_token t = None) = b"
  shows "wf_tokens pt"
proof -
  have "toks pt ! 0 \<in> set (toks pt)" using assms(1) by simp
  then have "GetStep pt = int n" and "HasPendingInputToken pt = (\<not> b)"
    using assms(2,3) by (simp_all add: GetStep_def HasPendingInputToken_def)
  then show ?thesis using assms by (simp add: wf_tokens_def)
qed

lemma wf_tokens_nonempty: "wf_tokens pt \<Longrightarrow> toks pt \<noteq> []"
  by (simp add: wf_tokens_def)

lemma wf_tokens_ids: "wf_tokens pt \<Longrightarrow> t \<in> set (toks pt) \<Longrightarrow>
    length (token_ids t) = nat (GetStep pt)"
  unfolding wf_tokens_def by (metis nat_int)

lemma wf_tokens_pending: "wf_tokens pt \<Longrightarrow> t \<in> set (toks pt) \<Longrightarrow>
    (pending_input_token t = None) = (\<not> HasPendingInputToken pt)"
  by (simp add: wf_tokens_def)

lemma GetStep_nonneg [simp]: "0 \<le> GetStep pt"
  by (simp add: GetStep_def)

lemma GetStep_not_neg [simp]: "\<not> GetStep pt < 0"
  by (simp add: GetStep_def)

lemma TokenCount_nonneg [simp]: "0 \<le> TokenCount pt"
  by (simp add: TokenCount_def)

lemma length_context_of:
  assumes "wf_tokens pt" "t \<in> set (toks pt)"
  shows "int (length (context_of t)) = TokenCount pt"
  using wf_tokens_ids [OF assms] wf_tokens_pending [OF assms]
  by (auto simp: context_of_def TokenCount_def split: option.splits)

lemma wf_ProcessedTokens: "wf_tokens ProcessedTokens"
  by (rule wf_tokensI [of _ 0 True]) (auto simp: ProcessedTokens_def)

section \<open>Every operation keeps the state well formed\<close>

lemma ReduceTokenCandidates_ok:
  assumes "index < length (toks pt)"
  shows "ReduceTokenCandidates index pt = (Ok, pt\<lparr>toks := [toks pt ! index]\<rparr>)"
  using assms by (cases "toks pt"; cases index) (auto simp: ReduceTokenCandidates_def Let_def)

lemma wf_Reduce:
  assumes "wf_tokens pt" shows "wf_tokens (snd (ReduceTokenCandidates index pt))"
proof (cases "index < length (toks pt)")
  case True
  with assms show ?thesis
    by (auto simp: ReduceTokenCandidates_ok simp: wf_tokens_ids wf_tokens_pending
        intro!: wf_tokensI [of _ "nat (GetStep pt)" "\<not> HasPendingInputToken pt"])
next
  case False
  with assms show ?thesis by (simp add: ReduceTokenCandidates_def Let_def)
qed

lemma wf_Broadcast:
  assumes "wf_tokens pt" shows "wf_tokens (snd (BroadcastTokenCandidates n pt))"
  using assms
  by (auto simp: BroadcastTokenCandidates_def Let_def length_Suc_conv
                wf_tokens_ids wf_tokens_pending
           intro!: wf_tokensI [of _ "nat (GetStep pt)" "\<not> HasPendingInputToken pt"])

lemma wf_AddProcessed:
  assumes "wf_tokens pt" shows "wf_tokens (AddProcessedTokens ids pt)"
  using wf_tokens_nonempty [OF assms]
  by (auto simp: AddProcessedTokens_def wf_tokens_ids [OF assms] wf_tokens_pending [OF assms]
           intro!: wf_tokensI [of _ "nat (GetStep pt) + length ids" "\<not> HasPendingInputToken pt"])

lemma wf_AddPending:
  assumes "wf_tokens pt" and "None \<notin> set token"
  shows "wf_tokens (snd (AddPendingInputToken token pt))"
proof (cases "length token = length (toks pt) \<and> \<not> HasPendingInputToken pt")
  case True
  let ?ts = "map2 (\<lambda>t p. t\<lparr>pending_input_token := p\<rparr>) (toks pt) token"
  have "wf_tokens (pt\<lparr>toks := ?ts\<rparr>)"
  proof (rule wf_tokensI [of _ "nat (GetStep pt)" False])
    show "toks (pt\<lparr>toks := ?ts\<rparr>) \<noteq> []"
      using True wf_tokens_nonempty [OF assms(1)] by (auto simp: zip_eq_Nil_iff)
  next
    fix t assume "t \<in> set (toks (pt\<lparr>toks := ?ts\<rparr>))"
    then obtain i where "i < length token"
      and "t = (toks pt ! i)\<lparr>pending_input_token := token ! i\<rparr>"
      by (auto simp: set_zip)
    with assms True show "length (token_ids t) = nat (GetStep pt)"
      and "(pending_input_token t = None) = False"
      by (auto simp: wf_tokens_ids) (metis nth_mem option.exhaust)
  qed
  with True show ?thesis by (simp add: AddPendingInputToken_def)
next
  case False
  with assms show ?thesis by (auto simp: AddPendingInputToken_def)
qed

lemma RollBackToStep_cases:
  "RollBackToStep n pt =
     (if 0 \<le> n \<and> n \<le> TokenCount pt
      then (Ok, if n = TokenCount pt then pt
                else pt\<lparr>toks := map (\<lambda>t. t\<lparr>token_ids := resize_ids (nat n) (token_ids t),
                                           pending_input_token := None\<rparr>) (toks pt)\<rparr>)
      else (Inl Internal, pt))"
  by (simp add: RollBackToStep_def)

lemma wf_RollBack:
  assumes "wf_tokens pt" shows "wf_tokens (snd (RollBackToStep n pt))"
proof -
  have "wf_tokens (pt\<lparr>toks := map (\<lambda>t. t\<lparr>token_ids := resize_ids (nat n) (token_ids t),
                                           pending_input_token := None\<rparr>) (toks pt)\<rparr>)"
    using wf_tokens_nonempty [OF assms]
    by (auto intro!: wf_tokensI [of _ "nat n" True] simp: resize_ids_def)
  with assms show ?thesis by (simp add: RollBackToStep_cases)
qed

lemma MarkPending_Some:
  assumes "wf_tokens pt" and "HasPendingInputToken pt"
  shows "MarkPendingInputTokenAsProcessed pt =
    Some (Ok, pt\<lparr>toks := map (\<lambda>t. t\<lparr>token_ids := token_ids t @ [tok_id (the (pending_input_token t))],
                                    pending_input_token := None\<rparr>) (toks pt)\<rparr>)"
proof -
  have "those (map pending_id (toks pt)) =
      Some (map (\<lambda>t. tok_id (the (pending_input_token t))) (toks pt))"
  proof (rule those_map_eq_Some)
    fix t assume "t \<in> set (toks pt)"
    with assms have "\<not> pending_input_token t = None" by (simp only: wf_tokens_pending) simp
    then show "pending_id t = Some (tok_id (the (pending_input_token t)))"
      by (auto simp: pending_id_def)
  qed
  then show ?thesis
    using assms(2) by (simp add: MarkPendingInputTokenAsProcessed_def map2_map_map
        [of _ id, simplified])
qed

lemma wf_Mark:
  assumes "wf_tokens pt" and "MarkPendingInputTokenAsProcessed pt = Some (r, pt')"
  shows "wf_tokens pt'"
proof (cases "HasPendingInputToken pt")
  case True
  from assms(2) have "pt' = pt\<lparr>toks := map (\<lambda>t. t\<lparr>token_ids :=
      token_ids t @ [tok_id (the (pending_input_token t))], pending_input_token := None\<rparr>) (toks pt)\<rparr>"
    by (simp add: MarkPending_Some [OF assms(1) True])
  then show ?thesis
    using wf_tokens_ids [OF assms(1)] wf_tokens_nonempty [OF assms(1)]
    by (auto intro!: wf_tokensI [of _ "Suc (nat (GetStep pt))" True])
next
  case False
  with assms show ?thesis by (simp add: MarkPendingInputTokenAsProcessed_def)
qed

lemma wf_Invalidate:
  assumes "wf_tokens pt" shows "wf_tokens (InvalidatePendingInputToken pt)"
  using wf_tokens_ids [OF assms] wf_tokens_nonempty [OF assms]
  by (auto simp: InvalidatePendingInputToken_def intro!: wf_tokensI [of _ "nat (GetStep pt)" True])

section \<open>Effect of the operations on the contexts\<close>

lemma RollBack_ok:
  assumes "0 \<le> n" "n \<le> TokenCount pt"
  shows "fst (RollBackToStep n pt) = Ok"
  using assms by (simp add: RollBackToStep_cases)

lemma RollBack_error:
  assumes "\<not> (0 \<le> n \<and> n \<le> TokenCount pt)"
  shows "RollBackToStep n pt = (Inl Internal, pt)"
  using assms by (simp add: RollBackToStep_cases)

lemma take_context_of:
  assumes "wf_tokens pt" "t \<in> set (toks pt)" "0 \<le> n" "n < TokenCount pt"
  shows "resize_ids (nat n) (token_ids t) = take (nat n) (context_of t)"
proof -
  have "n \<le> GetStep pt" using assms(4) by (simp add: TokenCount_def split: if_splits)
  then have "nat n \<le> length (token_ids t)"
    using wf_tokens_ids [OF assms(1,2)] by simp
  then show ?thesis by (simp add: resize_ids_def context_of_def)
qed

lemma GetCopyOfTokens_RollBack:
  assumes "wf_tokens pt" "0 \<le> n" "n \<le> TokenCount pt"
  shows "GetCopyOfTokens (snd (RollBackToStep n pt)) = map (take (nat n)) (GetCopyOfTokens pt)"
proof (cases "n = TokenCount pt")
  case True
  have "take (nat n) (context_of t) = context_of t" if "t \<in> set (toks pt)" for t
    using length_context_of [OF assms(1) that] True by simp
  with assms True show ?thesis
    by (simp add: RollBackToStep_cases GetCopyOfTokens_alt)
next
  case False
  with assms have "n < TokenCount pt" by simp
  have "context_of (t\<lparr>token_ids := resize_ids (nat n) (token_ids t), pending_input_token := None\<rparr>)
      = take (nat n) (context_of t)" if "t \<in> set (toks pt)" for t
    using take_context_of [OF assms(1) that assms(2) \<open>n < TokenCount pt\<close>]
    by (simp add: context_of_def)
  with assms False show ?thesis
    by (simp add: RollBackToStep_cases GetCopyOfTokens_alt)
qed

lemma TokenCount_eq_length:
  "wf_tokens pt \<Longrightarrow> TokenCount pt = int (length (GetCopyOfTokens pt ! 0))"
  using length_context_of [of pt "toks pt ! 0"] wf_tokens_nonempty [of pt]
  by (simp add: GetCopyOfTokens_alt)

lemma GetCopyOfTokens_nonempty: "wf_tokens pt \<Longrightarrow> GetCopyOfTokens pt \<noteq> []"
  by (simp add: GetCopyOfTokens_alt wf_tokens_nonempty)

lemma length_GetCopyOfTokens:
  "wf_tokens pt \<Longrightarrow> c \<in> set (GetCopyOfTokens pt) \<Longrightarrow> int (length c) = TokenCount pt"
  by (auto simp: GetCopyOfTokens_alt length_context_of)

lemma TokenCount_RollBack:
  assumes "wf_tokens pt" "0 \<le> n" "n \<le> TokenCount pt"
  shows "TokenCount (snd (RollBackToStep n pt)) = n"
proof -
  have "GetCopyOfTokens (snd (RollBackToStep n pt)) ! 0 = take (nat n) (GetCopyOfTokens pt ! 0)"
    using GetCopyOfTokens_nonempty [OF assms(1)] by (simp add: GetCopyOfTokens_RollBack [OF assms])
  with assms show ?thesis
    by (simp add: TokenCount_eq_length wf_RollBack)
qed

lemma GetCopyOfTokens_Mark:
  assumes "wf_tokens pt" "MarkPendingInputTokenAsProcessed pt = Some (r, pt')"
  shows "GetCopyOfTokens pt' = GetCopyOfTokens pt"
proof (cases "HasPendingInputToken pt")
  case True
  then have "[tok_id (the (pending_input_token t))] =
      (case pending_input_token t of None \<Rightarrow> [] | Some d \<Rightarrow> [tok_id d])"
    if "t \<in> set (toks pt)" for t
    using wf_tokens_pending [OF assms(1) that] by (auto split: option.split)
  with assms(2) show ?thesis
    by (auto simp: MarkPending_Some [OF assms(1) True] GetCopyOfTokens_def)
next
  case False
  with assms(2) show ?thesis by (simp add: MarkPendingInputTokenAsProcessed_def)
qed

lemma no_pending_context:
  assumes "wf_tokens pt" "\<not> HasPendingInputToken pt" "t \<in> set (toks pt)"
  shows "context_of t = token_ids t"
  using wf_tokens_pending [OF assms(1,3)] assms(2) by (simp add: context_of_def)

lemma HasPending_AddProcessed [simp]:
  assumes "toks pt \<noteq> []"
  shows "HasPendingInputToken (AddProcessedTokens ids pt) = HasPendingInputToken pt"
  using assms by (simp add: HasPendingInputToken_def AddProcessedTokens_def)

lemma GetCopyOfTokens_AddProcessed:
  assumes "wf_tokens pt" "\<not> HasPendingInputToken pt"
  shows "GetCopyOfTokens (AddProcessedTokens ids pt) = map (\<lambda>c. c @ ids) (GetCopyOfTokens pt)"
proof -
  have "pending_input_token t = None" if "t \<in> set (toks pt)" for t
    using wf_tokens_pending [OF assms(1) that] assms(2) by simp
  then show ?thesis by (simp add: GetCopyOfTokens_def AddProcessedTokens_def)
qed

lemma HasPending_RollBack:
  assumes "wf_tokens pt" "0 \<le> n" "n < TokenCount pt"
  shows "\<not> HasPendingInputToken (snd (RollBackToStep n pt))"
  using assms wf_tokens_nonempty [OF assms(1)]
  by (simp add: RollBackToStep_cases HasPendingInputToken_def)

lemma GetTokenAtStep_cases:
  assumes "wf_tokens pt"
  shows "GetTokenAtStep n pt =
    Some (if 0 \<le> n \<and> n < TokenCount pt then map (\<lambda>c. c ! nat n) (GetCopyOfTokens pt) else [])"
proof (cases "0 \<le> n \<and> n < TokenCount pt")
  case inside: True
  show ?thesis
  proof (cases "n = GetStep pt \<and> HasPendingInputToken pt")
    case True
    have "pending_id t = Some (context_of t ! nat n)" if "t \<in> set (toks pt)" for t
      using wf_tokens_ids [OF assms that] wf_tokens_pending [OF assms that] True
      by (auto simp: pending_id_def context_of_def nth_append)
    then have "those (map pending_id (toks pt)) = Some (map (\<lambda>t. context_of t ! nat n) (toks pt))"
      by (rule those_map_eq_Some)
    with True inside show ?thesis
      by (simp add: GetTokenAtStep_def GetCopyOfTokens_alt comp_def)
  next
    case False
    with inside have "n < GetStep pt" by (auto simp: TokenCount_def split: if_splits)
    then have "id_at (nat n) t = Some (context_of t ! nat n)" if "t \<in> set (toks pt)" for t
      using wf_tokens_ids [OF assms that] inside by (simp add: id_at_def context_of_def nth_append)
    then have "those (map (id_at (nat n)) (toks pt)) = Some (map (\<lambda>t. context_of t ! nat n) (toks pt))"
      by (rule those_map_eq_Some)
    with False inside show ?thesis
      by (auto simp: GetTokenAtStep_def GetCopyOfTokens_alt comp_def)
  qed
next
  case False
  then show ?thesis by (auto simp: GetTokenAtStep_def)
qed

section \<open>The interface of a token log\<close>

text \<open>
  What the executors and the resource manager rely on: the log of a state (one context per
  candidate), how long it is, rolling it back, and appending to it once nothing is pending.
\<close>

locale token_log =
  fixes wf :: "'s \<Rightarrow> bool"
    and log :: "'s \<Rightarrow> int list list"
    and count :: "'s \<Rightarrow> int"
    and idle :: "'s \<Rightarrow> bool"
    and rollback :: "int \<Rightarrow> 's \<Rightarrow> status \<times> 's"
    and append :: "int list \<Rightarrow> 's \<Rightarrow> 's"
  assumes log_nonempty: "wf s \<Longrightarrow> log s \<noteq> []"
    and log_length: "wf s \<Longrightarrow> c \<in> set (log s) \<Longrightarrow> int (length c) = count s"
    and rollback_ok: "wf s \<Longrightarrow> 0 \<le> n \<Longrightarrow> n \<le> count s \<Longrightarrow> fst (rollback n s) = Ok"
    and rollback_wf: "wf s \<Longrightarrow> wf (snd (rollback n s))"
    and rollback_log: "wf s \<Longrightarrow> 0 \<le> n \<Longrightarrow> n \<le> count s \<Longrightarrow>
          log (snd (rollback n s)) = map (take (nat n)) (log s)"
    and rollback_idle: "wf s \<Longrightarrow> 0 \<le> n \<Longrightarrow> n \<le> count s \<Longrightarrow>
          n < count s \<or> idle s \<Longrightarrow> idle (snd (rollback n s))"
    and append_wf: "wf s \<Longrightarrow> wf (append ids s)"
    and append_log: "wf s \<Longrightarrow> idle s \<Longrightarrow> log (append ids s) = map (\<lambda>c. c @ ids) (log s)"
begin

lemma count_nonneg: "wf s \<Longrightarrow> 0 \<le> count s"
  using log_length [of s "hd (log s)"] log_nonempty [of s] by simp

text \<open>Rewinding and processing new tokens replaces the tail of every candidate's context.\<close>

definition rewind_append :: "int \<Rightarrow> int list \<Rightarrow> 's \<Rightarrow> 's" where
  "rewind_append n ids s = append ids (snd (rollback n s))"

lemma rewind_append_wf: "wf s \<Longrightarrow> wf (rewind_append n ids s)"
  by (simp add: rewind_append_def append_wf rollback_wf)

lemma rewind_append_log:
  assumes "wf s" "0 \<le> n" "n \<le> count s" "n < count s \<or> idle s"
  shows "log (rewind_append n ids s) = map (\<lambda>c. take (nat n) c @ ids) (log s)"
  using assms by (simp add: rewind_append_def append_log rollback_wf rollback_idle rollback_log comp_def)

lemma rewind_append_count:
  assumes "wf s" "0 \<le> n" "n \<le> count s" "n < count s \<or> idle s"
  shows "count (rewind_append n ids s) = n + int (length ids)"
proof -
  obtain c where c: "c \<in> set (log s)" using log_nonempty [OF assms(1)] by (cases "log s") auto
  then have "take (nat n) c @ ids \<in> set (log (rewind_append n ids s))"
    using rewind_append_log [OF assms] by simp
  from log_length [OF rewind_append_wf [OF assms(1)] this] log_length [OF assms(1) c] assms(2,3)
  show ?thesis by simp
qed

end

interpretation pt: token_log wf_tokens GetCopyOfTokens TokenCount
    "\<lambda>s. \<not> HasPendingInputToken s" RollBackToStep AddProcessedTokens
proof unfold_locales
  fix s :: "'a processed_tokens" and n :: int
  assume "wf_tokens s" "0 \<le> n" "n \<le> TokenCount s"
    "n < TokenCount s \<or> \<not> HasPendingInputToken s"
  then show "\<not> HasPendingInputToken (snd (RollBackToStep n s))"
    using HasPending_RollBack [of s n] by (cases "n < TokenCount s") (auto simp: RollBackToStep_def)
qed (simp_all add: GetCopyOfTokens_nonempty length_GetCopyOfTokens RollBack_ok wf_RollBack
    GetCopyOfTokens_RollBack wf_AddProcessed GetCopyOfTokens_AddProcessed)

section \<open>Runs of operations\<close>

text \<open>
  The mutating operations as a datatype; \<open>None\<close> in the argument of \<open>Op_AddPending\<close> is a null
  pointer, which \<^verbatim>\<open>AddPendingInputToken\<close> stores without a check. A step is \<open>None\<close> when the
  operation dereferences a null token.
\<close>

datatype 'f pt_op =
    Op_Reduce nat
  | Op_Broadcast nat
  | Op_AddProcessed "int list"
  | Op_AddPending "'f token_data option list"
  | Op_RollBack int
  | Op_MarkPending
  | Op_Invalidate

fun pt_step :: "'f pt_op \<Rightarrow> 'f processed_tokens \<Rightarrow> 'f processed_tokens option" where
  "pt_step (Op_Reduce i) pt = Some (snd (ReduceTokenCandidates i pt))"
| "pt_step (Op_Broadcast n) pt = Some (snd (BroadcastTokenCandidates n pt))"
| "pt_step (Op_AddProcessed ids) pt = Some (AddProcessedTokens ids pt)"
| "pt_step (Op_AddPending ds) pt = Some (snd (AddPendingInputToken ds pt))"
| "pt_step (Op_RollBack n) pt = Some (snd (RollBackToStep n pt))"
| "pt_step Op_MarkPending pt = map_option snd (MarkPendingInputTokenAsProcessed pt)"
| "pt_step Op_Invalidate pt = Some (InvalidatePendingInputToken pt)"

text \<open>The calls that hand over no null token: all those of the executors, which pass freshly made
  ones.\<close>

fun adds_no_null :: "'f pt_op \<Rightarrow> bool" where
  "adds_no_null (Op_AddPending ds) = (None \<notin> set ds)"
| "adds_no_null _ = True"

lemma Mark_not_None: "wf_tokens pt \<Longrightarrow> MarkPendingInputTokenAsProcessed pt \<noteq> None"
  by (cases "HasPendingInputToken pt")
     (simp_all add: MarkPending_Some, simp add: MarkPendingInputTokenAsProcessed_def)

lemma pt_step_wf:
  assumes "wf_tokens pt" and "adds_no_null a"
  shows "\<exists>pt'. pt_step a pt = Some pt' \<and> wf_tokens pt'"
proof (cases "a = Op_MarkPending")
  case True
  obtain r pt' where "MarkPendingInputTokenAsProcessed pt = Some (r, pt')"
    using Mark_not_None [OF assms(1)] by (auto simp: prod_eq_iff)
  with True wf_Mark [OF assms(1)] show ?thesis by simp
next
  case False
  with assms show ?thesis
    by (cases a) (simp_all add: wf_Reduce wf_Broadcast wf_AddProcessed wf_AddPending wf_RollBack
        wf_Invalidate)
qed

interpretation pt_run: op_system pt_step adds_no_null wf_tokens
  by unfold_locales (rule pt_step_wf)

text \<open>
  A null token behind the first candidate goes unnoticed: the call succeeds, and the next
  \<^verbatim>\<open>MarkPendingInputTokenAsProcessed\<close> or \<^verbatim>\<open>GetTokenAtStep\<close> dereferences it.
\<close>

lemma null_token_is_dereferenced:
  "\<exists>pt :: int processed_tokens.
     run_ops pt_step [Op_Broadcast 2, Op_AddPending [Some (TokenData 7), None]] ProcessedTokens =
       Some pt \<and>
     pt_step Op_MarkPending pt = None \<and> GetTokenAtStep 0 pt = None"
  by (simp add: ProcessedTokens_def BroadcastTokenCandidates_def AddPendingInputToken_def
      MarkPendingInputTokenAsProcessed_def GetTokenAtStep_def TokenCount_def GetStep_def
      HasPendingInputToken_def pending_id_def numeral_2_eq_2)

section \<open>Properties\<close>

text \<open>C24. Whatever sequence of operations is applied to a freshly constructed
  \<^verbatim>\<open>ProcessedTokens\<close>, provided no null pointer is handed to \<^verbatim>\<open>AddPendingInputToken\<close> (the class does
  not check it): no operation of the sequence dereferences a null token, all candidates keep the
  same number of processed tokens, a pending token is held by all candidates or by none, and
  \<^verbatim>\<open>GetTokenAtStep\<close> at any step neither dereferences a null token nor indexes past the end of a
  candidate.\<close>

theorem processed_tokens_never_undefined:
  assumes "list_all adds_no_null ops"
  shows "\<exists>pt. run_ops pt_step ops ProcessedTokens = Some pt \<and> wf_tokens pt \<and>
     GetTokenAtStep n pt \<noteq> None"
  using pt_run.run_inv [OF wf_ProcessedTokens assms] by (auto simp: GetTokenAtStep_cases)

definition example_ops :: "int pt_op list" where
  "example_ops = [Op_AddProcessed [5, 6], Op_Broadcast 2,
     Op_AddPending [Some (TokenData 7), Some (TokenData 8)], Op_MarkPending,
     Op_AddPending [Some (TokenData 9), Some (TokenData 1)], Op_RollBack 3]"

theorem processed_tokens_never_undefined_witness:
  "\<exists>pt. run_ops pt_step example_ops ProcessedTokens = Some pt \<and>
     GetTokenAtStep 2 pt = Some [7, 8]"
proof -
  have "list_all adds_no_null example_ops" by (simp add: example_ops_def)
  from processed_tokens_never_undefined [OF this, of 2]
  show ?thesis
    by (auto simp: example_ops_def ProcessedTokens_def AddProcessedTokens_def
        BroadcastTokenCandidates_def AddPendingInputToken_def MarkPendingInputTokenAsProcessed_def
        RollBackToStep_def GetTokenAtStep_def TokenCount_def GetStep_def id_at_def resize_ids_def
        HasPendingInputToken_def pending_id_def numeral_2_eq_2 TokenData_def)
qed

text \<open>C25. \<^verbatim>\<open>RollBackToStep\<close> keeps exactly the first \<open>n\<close> tokens of every candidate's context, the
  pending token included when it is within them, sets the token count to \<open>n\<close>, and rejects every
  other step without touching the state. The steps it accepts are those from 0 up to the token
  count; the count itself is accepted too, although the header asks for a smaller step.\<close>

theorem rollback_truncates_contexts:
  assumes "wf_tokens pt"
  shows "(case RollBackToStep n pt of
            (Inr _, pt') \<Rightarrow> 0 \<le> n \<and> n \<le> TokenCount pt \<and> wf_tokens pt' \<and> TokenCount pt' = n \<and>
                            GetCopyOfTokens pt' = map (take (nat n)) (GetCopyOfTokens pt)
          | (Inl e, pt') \<Rightarrow> \<not> (0 \<le> n \<and> n \<le> TokenCount pt) \<and> e = Internal \<and> pt' = pt)"
proof (cases "0 \<le> n \<and> n \<le> TokenCount pt")
  case True
  then show ?thesis
    using RollBack_ok [of n pt] wf_RollBack [OF assms, of n] TokenCount_RollBack [OF assms, of n]
      GetCopyOfTokens_RollBack [OF assms, of n]
    by (auto split: prod.split)
next
  case False
  then show ?thesis by (simp add: RollBack_error)
qed

definition example_tokens :: "int processed_tokens" where
  "example_tokens = \<lparr>toks = [\<lparr>token_ids = [5, 6, 7], pending_input_token = Some (TokenData 8)\<rparr>,
                             \<lparr>token_ids = [5, 6, 9], pending_input_token = Some (TokenData 4)\<rparr>]\<rparr>"

lemma example_tokens_wf: "wf_tokens example_tokens"
  by (rule wf_tokensI [of _ 3 False]) (auto simp: example_tokens_def)

theorem rollback_truncates_contexts_witness:
  "wf_tokens example_tokens \<and>
   GetCopyOfTokens (snd (RollBackToStep 2 example_tokens)) = [[5, 6], [5, 6]]"
  using rollback_truncates_contexts [OF example_tokens_wf, of 2] example_tokens_wf
  by (simp add: RollBackToStep_def TokenCount_def GetStep_def HasPendingInputToken_def
      GetCopyOfTokens_def example_tokens_def TokenData_def)

text \<open>\<^verbatim>\<open>GetTokenAtStep\<close> returns, for every step of the context (the pending one included), the
  token of each candidate at that step, and the empty vector for every other step.\<close>

theorem token_at_step_reads_context:
  assumes "wf_tokens pt"
  shows "GetTokenAtStep n pt =
    Some (if 0 \<le> n \<and> n < TokenCount pt then map (\<lambda>c. c ! nat n) (GetCopyOfTokens pt) else [])"
  using assms by (rule GetTokenAtStep_cases)

theorem token_at_step_reads_context_witness:
  "wf_tokens example_tokens \<and> GetTokenAtStep 3 example_tokens = Some [8, 4]"
  using token_at_step_reads_context [OF example_tokens_wf, of 3] example_tokens_wf
  by (simp add: TokenCount_def GetStep_def HasPendingInputToken_def
      GetCopyOfTokens_def example_tokens_def TokenData_def numeral_nat)

text \<open>C40. Switching to decode and back is lossless: broadcasting the only candidate to \<open>n\<close>
  candidates and reducing to any one of them gives the state back.\<close>

theorem broadcast_reduce_roundtrip:
  assumes "length (toks pt) = 1" and "i < n"
  shows "assign_or_return (BroadcastTokenCandidates n) (\<lambda>_. ReduceTokenCandidates i) pt = (Ok, pt)"
proof -
  obtain t where t: "toks pt = [t]" using assms(1) by (auto simp: length_Suc_conv)
  have "([t] @ replicate (n - 1) t) ! i = t"
    using assms(2) by (cases i) simp_all
  with t assms show ?thesis
    by (simp add: assign_or_return_def BroadcastTokenCandidates_def Let_def ReduceTokenCandidates_ok)
qed

theorem broadcast_reduce_roundtrip_witness:
  "assign_or_return (BroadcastTokenCandidates 4) (\<lambda>_. ReduceTokenCandidates 2)
     (AddProcessedTokens [1, 2] (ProcessedTokens :: int processed_tokens)) =
     (Ok, AddProcessedTokens [1, 2] ProcessedTokens)"
  by (rule broadcast_reduce_roundtrip) (simp_all add: AddProcessedTokens_def ProcessedTokens_def)

end
