(* ===== verification/StopTokens.thy ===== *)
theory StopTokens
  imports Prelude "HOL-Library.Sublist"
begin

text \<open>
  Stop token detection: class \<^verbatim>\<open>StopTokenDetector\<close>
  (\<^verbatim>\<open>runtime/components/stop_token_detector.{h,cc}\<close>) and \<^verbatim>\<open>StopTokenFound\<close>
  (\<^verbatim>\<open>runtime/components/token_id_util.cc\<close>). The detector keeps, per batch item and stop
  sequence, how much of the sequence has been matched. The reference is a plain question about
  the item's token history: does some prefix of it end with a stop sequence?
\<close>

section \<open>State\<close>

record stop_detector =
  stop_sequences_storage :: "int list list"
  stop_token_found :: "bool list"
  max_batch_item_match_progress :: "nat list"
  batch_item_match_progress :: "nat list list"
  matched_stop_sequence_length :: "nat list"

section \<open>Operations\<close>

definition ResetBatch :: "nat \<Rightarrow> stop_detector \<Rightarrow> stop_detector" where
  "ResetBatch batch_size d =
     (let n = (if batch_size = 0 then length (stop_token_found d) else batch_size) in
      d\<lparr>stop_token_found := replicate n False,
        max_batch_item_match_progress := replicate n 0,
        batch_item_match_progress := replicate n (replicate (length (stop_sequences_storage d)) 0),
        matched_stop_sequence_length := replicate n 0\<rparr>)"

text \<open>The constructor; \<open>None\<close> is the failed \<^verbatim>\<open>ABSL_CHECK_GT\<close>.\<close>

definition StopTokenDetector :: "nat \<Rightarrow> stop_detector option" where
  "StopTokenDetector batch_size =
     (if batch_size > 0
      then Some (ResetBatch batch_size
             \<lparr>stop_sequences_storage = [], stop_token_found = [],
              max_batch_item_match_progress = [], batch_item_match_progress = [],
              matched_stop_sequence_length = []\<rparr>)
      else None)"

definition AddStopTokenSequence :: "int list \<Rightarrow> (stop_detector, unit) op" where
  "AddStopTokenSequence s d =
     (if s = [] then (Inl InvalidArgument, d)
      else if s \<in> set (stop_sequences_storage d) then (Ok, d)
      else (Ok, d\<lparr>stop_sequences_storage := stop_sequences_storage d @ [s],
                  batch_item_match_progress := map (\<lambda>p. p @ [0]) (batch_item_match_progress d)\<rparr>))"

text \<open>The new match length of one stop sequence: the branches inside the inner loop.\<close>

definition advance :: "int list \<Rightarrow> int \<Rightarrow> nat \<Rightarrow> nat" where
  "advance s tok m =
     (if m < length s \<and> s ! m = tok then m + 1
      else if s ! 0 = tok then 1 else 0)"

text \<open>
  The inner loop over the stop sequences. The accumulator is the item's found flag, its
  largest partial match, and the length of the matched sequence.
\<close>

fun scan_sequences ::
  "int \<Rightarrow> int list list \<Rightarrow> nat list \<Rightarrow> bool \<times> nat \<times> nat \<Rightarrow> nat list \<times> bool \<times> nat \<times> nat" where
  "scan_sequences tok (s # ss) (m # ms) (found, mx, len) =
     (let m' = advance s tok m;
          hit = (m' > 0 \<and> m' = length s);
          (ms', acc) = scan_sequences tok ss ms
             (found \<or> hit, max mx m', if hit then length s else len)
      in (m' # ms', acc))"
| "scan_sequences tok ss ms acc = (ms, acc)"

type_synonym item = "bool \<times> nat \<times> nat list \<times> nat"

definition process_item :: "int list list \<Rightarrow> int \<Rightarrow> item \<Rightarrow> item" where
  "process_item ss tok it =
     (case it of (found, mx, ms, len) \<Rightarrow>
        if found then (found, mx, ms, len + 1)
        else (case scan_sequences tok ss ms (found, 0, len) of
                (ms', found', mx', len') \<Rightarrow> (found', mx', ms', len')))"

definition item_of :: "stop_detector \<Rightarrow> nat \<Rightarrow> item" where
  "item_of d i = (stop_token_found d ! i, max_batch_item_match_progress d ! i,
                  batch_item_match_progress d ! i, matched_stop_sequence_length d ! i)"

definition ProcessTokens :: "int list \<Rightarrow> (stop_detector, unit) op" where
  "ProcessTokens latest d =
     (if length latest \<noteq> length (stop_token_found d) then (Inl InvalidArgument, d)
      else if stop_sequences_storage d = [] then (Inl InvalidArgument, d)
      else let items = map (\<lambda>i. process_item (stop_sequences_storage d) (latest ! i) (item_of d i))
                           [0..<length latest]
           in (Ok, d\<lparr>stop_token_found := map fst items,
                     max_batch_item_match_progress := map (fst \<circ> snd) items,
                     batch_item_match_progress := map (fst \<circ> snd \<circ> snd) items,
                     matched_stop_sequence_length := map (snd \<circ> snd \<circ> snd) items\<rparr>))"

definition MaxPartialStopTokenLength :: "stop_detector \<Rightarrow> nat \<Rightarrow> nat" where
  "MaxPartialStopTokenLength d index = max_batch_item_match_progress d ! index"

definition GetStepsBeforeStopTokens :: "stop_detector \<Rightarrow> nat list" where
  "GetStepsBeforeStopTokens d = matched_stop_sequence_length d"

definition AllDone :: "stop_detector \<Rightarrow> bool status_or" where
  "AllDone d = (if stop_token_found d = [] then Inl FailedPrecondition
                else Inr (list_all id (stop_token_found d)))"

text \<open>\<^verbatim>\<open>StopTokenFound\<close> of \<^verbatim>\<open>token_id_util.cc\<close>: flags of a batch against single stop ids.\<close>

definition StopTokenFound :: "int list \<Rightarrow> int list \<Rightarrow> (bool list, bool) op" where
  "StopTokenFound decoded stop_ids found =
     (if length decoded \<noteq> length found then (Inl InvalidArgument, found)
      else let found' = map2 (\<lambda>t f. f \<or> t \<in> set stop_ids) decoded found
           in (Inr (list_all id found'), found'))"

section \<open>One stop sequence\<close>

definition progress :: "int list \<Rightarrow> int list \<Rightarrow> nat" where
  "progress s h = fold (advance s) h 0"

lemma progress_Nil [simp]: "progress s [] = 0"
  by (simp add: progress_def)

lemma progress_snoc [simp]: "progress s (h @ [t]) = advance s t (progress s h)"
  by (simp add: progress_def)

lemma advance_le: "s \<noteq> [] \<Longrightarrow> advance s t m \<le> length s"
  by (cases s) (auto simp: advance_def)

lemma progress_le: "s \<noteq> [] \<Longrightarrow> progress s h \<le> length s"
  by (induction h rule: rev_induct) (simp_all add: advance_le)

text \<open>The matched part of the sequence is what the history ends with.\<close>

lemma progress_suffix:
  assumes "s \<noteq> []" shows "suffix (take (progress s h) s) h"
proof (induction h rule: rev_induct)
  case Nil
  show ?case by simp
next
  case (snoc t h)
  show ?case
  proof (cases "progress s h < length s \<and> s ! progress s h = t")
    case True
    then have "take (progress s (h @ [t])) s = take (progress s h) s @ [t]"
      by (simp add: advance_def take_Suc_conv_app_nth)
    with snoc show ?thesis by simp
  next
    case False
    then have "progress s (h @ [t]) = (if s ! 0 = t then 1 else 0)"
      by (auto simp: advance_def)
    moreover have "take 1 s = [s ! 0]" using assms by (cases s) simp_all
    ultimately show ?thesis by (cases "s ! 0 = t") (auto simp: suffix_def)
  qed
qed

lemma progress_complete_suffix:
  "s \<noteq> [] \<Longrightarrow> progress s h = length s \<Longrightarrow> suffix s h"
  using progress_suffix [of s h] by simp

text \<open>
  The converse needs a sequence whose first token does not occur again in it: the tracker
  restarts at the current token only, it does not fall back to a shorter overlap.
\<close>

definition no_restart :: "int list \<Rightarrow> bool" where
  "no_restart s \<longleftrightarrow> (case s of [] \<Rightarrow> False | t # r \<Rightarrow> t \<notin> set r)"

lemma advance_first:
  assumes "no_restart s" shows "advance s (s ! 0) m = 1"
  using assms by (cases s; cases m) (auto simp: no_restart_def advance_def)

lemma progress_append_take:
  assumes "no_restart s" "0 < n" "n \<le> length s"
  shows "progress s (h @ take n s) = n"
  using assms(2,3)
proof (induction n)
  case 0
  then show ?case by simp
next
  case (Suc n)
  then have snoc: "h @ take (Suc n) s = (h @ take n s) @ [s ! n]"
    by (simp add: take_Suc_conv_app_nth)
  show ?case
  proof (cases "n = 0")
    case True
    then show ?thesis
      using snoc advance_first [OF assms(1)] by simp
  next
    case False
    with Suc have "progress s (h @ take n s) = n" by simp
    then show ?thesis using Suc.prems by (simp only: snoc progress_snoc) (simp add: advance_def)
  qed
qed

lemma suffix_progress_complete:
  assumes "no_restart s" "suffix s h" shows "progress s h = length s"
proof -
  have "s \<noteq> []" using assms(1) by (auto simp: no_restart_def)
  then show ?thesis
    using assms(2) progress_append_take [OF assms(1), of "length s"] by (auto simp: suffix_def)
qed

section \<open>One batch item\<close>

lemma scan_sequences_Cons:
  defines "m' \<equiv> \<lambda>s tok m. advance s tok m"
    and "hit \<equiv> \<lambda>s tok m. advance s tok m > 0 \<and> advance s tok m = length s"
  shows "fst (scan_sequences tok (s # ss) (m # ms) (f, mx, len)) = m' s tok m #
           fst (scan_sequences tok ss ms
                 (f \<or> hit s tok m, max mx (m' s tok m), if hit s tok m then length s else len))"
    and "snd (scan_sequences tok (s # ss) (m # ms) (f, mx, len)) =
           snd (scan_sequences tok ss ms
                 (f \<or> hit s tok m, max mx (m' s tok m), if hit s tok m then length s else len))"
  by (simp_all add: Let_def m'_def hit_def split: prod.split)

declare scan_sequences.simps(1) [simp del] scan_sequences_Cons [simp]

lemma scan_sequences_progress:
  "length ms = length ss \<Longrightarrow>
   fst (scan_sequences tok ss ms (f, mx, len)) = map2 (\<lambda>s m. advance s tok m) ss ms"
proof (induction ss arbitrary: ms f mx len)
  case (Cons s ss)
  then obtain m ms' where "ms = m # ms'" by (cases ms) auto
  with Cons show ?case by simp
qed simp

lemma scan_sequences_found:
  "length ms = length ss \<Longrightarrow> [] \<notin> set ss \<Longrightarrow>
   fst (snd (scan_sequences tok ss ms (f, mx, len))) \<longleftrightarrow>
     f \<or> (\<exists>(s, m) \<in> set (zip ss ms). advance s tok m = length s)"
proof (induction ss arbitrary: ms f mx len)
  case (Cons s ss)
  then obtain m ms' where "ms = m # ms'" by (cases ms) auto
  with Cons show ?case by auto
qed simp

lemma scan_sequences_len:
  "length ms = length ss \<Longrightarrow> [] \<notin> set ss \<Longrightarrow>
   (let len' = snd (snd (snd (scan_sequences tok ss ms (f, mx, len)))) in
     (\<exists>(s, m) \<in> set (zip ss ms). advance s tok m = length s \<and> len' = length s) \<or>
     ((\<forall>(s, m) \<in> set (zip ss ms). advance s tok m \<noteq> length s) \<and> len' = len))"
proof (induction ss arbitrary: ms f mx len)
  case (Cons s ss)
  then obtain m ms' where ms: "ms = m # ms'" by (cases ms) auto
  let ?hit = "0 < advance s tok m \<and> advance s tok m = length s"
  have "length ms' = length ss" "[] \<notin> set ss" "s \<noteq> []" using Cons.prems ms by auto
  from Cons.IH [OF this(1,2), of "f \<or> ?hit" "max mx (advance s tok m)" "if ?hit then length s else len"]
  show ?case using ms \<open>s \<noteq> []\<close>
    by (auto simp: Let_def split: if_splits)
qed simp

lemma scan_sequences_max:
  "length ms = length ss \<Longrightarrow>
   fst (snd (snd (scan_sequences tok ss ms (f, mx, len)))) =
     fold max (map2 (\<lambda>s m. advance s tok m) ss ms) mx"
proof (induction ss arbitrary: ms f mx len)
  case (Cons s ss)
  then obtain m ms' where "ms = m # ms'" by (cases ms) auto
  with Cons show ?case by (simp add: max.commute)
qed simp

definition completes :: "int list list \<Rightarrow> int list \<Rightarrow> bool" where
  "completes ss p \<longleftrightarrow> (\<exists>s \<in> set ss. progress s p = length s)"

definition initial_item :: "int list list \<Rightarrow> item" where
  "initial_item ss = (False, 0, replicate (length ss) 0, 0)"

definition run_item :: "int list list \<Rightarrow> int list \<Rightarrow> item" where
  "run_item ss h = fold (process_item ss) h (initial_item ss)"

lemma run_item_snoc: "run_item ss (h @ [t]) = process_item ss t (run_item ss h)"
  by (simp add: run_item_def)

text \<open>
  The item after a history \<open>h\<close>: until a stop sequence completes, the trackers hold each
  sequence's progress and the largest of them; afterwards, the matched length plus one for
  every later token.
\<close>

definition item_spec :: "int list list \<Rightarrow> int list \<Rightarrow> item \<Rightarrow> bool" where
  "item_spec ss h it \<longleftrightarrow> (case it of (found, mx, ms, len) \<Rightarrow>
     length ms = length ss \<and>
     (found \<longleftrightarrow> (\<exists>p. prefix p h \<and> completes ss p)) \<and>
     (\<not> found \<longrightarrow> ms = map (\<lambda>s. progress s h) ss \<and> mx = fold max (map (\<lambda>s. progress s h) ss) 0 \<and> len = 0) \<and>
     (found \<longrightarrow> (\<exists>p s. prefix p h \<and> s \<in> set ss \<and> progress s p = length s \<and>
                  (\<forall>p'. strict_prefix p' p \<longrightarrow> \<not> completes ss p') \<and>
                  len = length s + (length h - length p))))"

lemma fold_max_zero: "(max (0::nat) ^^ n) 0 = 0"
  by (induction n) simp_all

lemma item_spec_initial:
  assumes "[] \<notin> set ss" shows "item_spec ss [] (initial_item ss)"
  using assms by (auto simp: item_spec_def initial_item_def completes_def map_replicate_const fold_max_zero)

lemma item_spec_step:
  assumes "[] \<notin> set ss" and spec: "item_spec ss h it"
  shows "item_spec ss (h @ [t]) (process_item ss t it)"
proof -
  obtain found mx ms len where it: "it = (found, mx, ms, len)" by (cases it)
  show ?thesis
  proof (cases found)
    case True
    then obtain p s where p: "prefix p h" "s \<in> set ss" "progress s p = length s"
        "\<forall>p'. strict_prefix p' p \<longrightarrow> \<not> completes ss p'" "len = length s + (length h - length p)"
      and ms: "length ms = length ss"
      using spec by (auto simp: item_spec_def it)
    have ext: "prefix p (h @ [t])" using p(1) by simp
    have len: "len + 1 = length s + (length (h @ [t]) - length p)"
      using p(5) prefix_length_le [OF p(1)] by simp
    have "completes ss p" using p(2,3) by (auto simp: completes_def)
    with ext have "\<exists>p. prefix p (h @ [t]) \<and> completes ss p" by blast
    moreover have "\<exists>p s. prefix p (h @ [t]) \<and> s \<in> set ss \<and> progress s p = length s \<and>
        (\<forall>p'. strict_prefix p' p \<longrightarrow> \<not> completes ss p') \<and>
        len + 1 = length s + (length (h @ [t]) - length p)"
      using ext p(2-4) len by blast
    moreover have "process_item ss t it = (True, mx, ms, len + 1)"
      using True by (simp add: it process_item_def)
    ultimately show ?thesis using ms by (simp add: item_spec_def)
  next
    case False
    then have ms: "ms = map (\<lambda>s. progress s h) ss" and len: "len = 0"
      and none: "\<And>p. prefix p h \<Longrightarrow> \<not> completes ss p"
      using spec by (auto simp: item_spec_def it)
    obtain ms' found' mx' len' where
      scan: "scan_sequences t ss ms (False, 0, 0) = (ms', found', mx', len')"
      by (cases "scan_sequences t ss ms (False, 0, 0)") auto
    have zip: "set (zip ss ms) = (\<lambda>s. (s, progress s h)) ` set ss"
      by (simp add: ms zip_map2 zip_same_conv_map)
    have ms': "ms' = map (\<lambda>s. progress s (h @ [t])) ss"
      using scan_sequences_progress [of ms ss t False 0 0]
      by (simp add: scan [unfolded ms] ms map2_map_map [of _ id, simplified])
    have found': "found' \<longleftrightarrow> completes ss (h @ [t])"
      using scan_sequences_found [of ms ss t False 0 0] assms(1)
      by (auto simp: scan [unfolded ms] zip [unfolded ms] completes_def ms)
    have mx': "mx' = fold max (map (\<lambda>s. progress s (h @ [t])) ss) 0"
      using scan_sequences_max [of ms ss t False 0 0]
      by (simp add: scan [unfolded ms] ms map2_map_map [of _ id, simplified])
    have len': "(\<exists>s \<in> set ss. progress s (h @ [t]) = length s \<and> len' = length s) \<or>
        (\<not> completes ss (h @ [t]) \<and> len' = 0)"
      using scan_sequences_len [of ms ss t False 0 0] assms(1)
      by (auto simp: scan [unfolded ms] zip [unfolded ms] completes_def ms Let_def)
    have "process_item ss t it = (found', mx', ms', len')"
      using False by (simp add: it process_item_def len scan)
    moreover have "(\<exists>p. prefix p (h @ [t]) \<and> completes ss p) \<longleftrightarrow> completes ss (h @ [t])"
      using none by (auto simp: prefix_append prefix_Cons)
    moreover have "\<forall>p'. strict_prefix p' (h @ [t]) \<longrightarrow> \<not> completes ss p'"
      using none by (auto simp: strict_prefix_def prefix_append prefix_Cons)
    moreover have "\<exists>p s. prefix p (h @ [t]) \<and> s \<in> set ss \<and> progress s p = length s \<and>
        (\<forall>p'. strict_prefix p' p \<longrightarrow> \<not> completes ss p') \<and>
        len' = length s + (length (h @ [t]) - length p)" if fnd: found'
    proof -
      obtain s where "s \<in> set ss" "progress s (h @ [t]) = length s" "len' = length s"
        using len' found' fnd by blast
      with calculation(3) show ?thesis by (intro exI [of _ "h @ [t]"] exI [of _ s]) simp
    qed
    moreover have "len' = 0" if "\<not> found'" using len' found' that by (auto simp: completes_def)
    ultimately show ?thesis
      unfolding item_spec_def using found' ms' mx' by (simp del: progress_snoc)
  qed
qed

lemma run_item_spec: "[] \<notin> set ss \<Longrightarrow> item_spec ss h (run_item ss h)"
proof (induction h rule: rev_induct)
  case Nil
  then show ?case by (simp add: run_item_def item_spec_initial)
next
  case (snoc t h)
  then show ?case by (simp add: run_item_snoc item_spec_step)
qed

section \<open>The batch\<close>

definition wf_detector :: "stop_detector \<Rightarrow> bool" where
  "wf_detector d \<longleftrightarrow> [] \<notin> set (stop_sequences_storage d) \<and>
     length (max_batch_item_match_progress d) = length (stop_token_found d) \<and>
     length (batch_item_match_progress d) = length (stop_token_found d) \<and>
     length (matched_stop_sequence_length d) = length (stop_token_found d) \<and>
     (\<forall>p \<in> set (batch_item_match_progress d). length p = length (stop_sequences_storage d))"

lemma wf_ResetBatch: "[] \<notin> set (stop_sequences_storage d) \<Longrightarrow> wf_detector (ResetBatch n d)"
  by (simp add: wf_detector_def ResetBatch_def Let_def)

lemma wf_AddStop: "wf_detector d \<Longrightarrow> wf_detector (snd (AddStopTokenSequence s d))"
  by (auto simp: wf_detector_def AddStopTokenSequence_def)

lemma process_item_length:
  assumes "process_item ss t (f, mx, ms, len) = (f', mx', ms', len')" "length ms = length ss"
  shows "length ms' = length ss"
  using assms scan_sequences_progress [OF assms(2), of t f 0 len]
  by (auto simp: process_item_def split: if_splits prod.splits)

lemma item_of_ProcessTokens:
  assumes "length v = length (stop_token_found d)" "stop_sequences_storage d \<noteq> []"
    "i < length v"
  shows "item_of (snd (ProcessTokens v d)) i =
         process_item (stop_sequences_storage d) (v ! i) (item_of d i)"
  using assms by (simp add: ProcessTokens_def Let_def item_of_def)

lemma ProcessTokens_frame [simp]:
  "stop_sequences_storage (snd (ProcessTokens v d)) = stop_sequences_storage d"
  "length (stop_token_found (snd (ProcessTokens v d))) = length (stop_token_found d)"
  by (simp_all add: ProcessTokens_def Let_def)

lemma wf_ProcessTokens:
  assumes "wf_detector d" shows "wf_detector (snd (ProcessTokens v d))"
proof -
  have "length (fst (snd (snd (process_item (stop_sequences_storage d) (v ! i) (item_of d i))))) =
      length (stop_sequences_storage d)" if "i < length (stop_token_found d)" for i
  proof -
    have "length (batch_item_match_progress d ! i) = length (stop_sequences_storage d)"
      using assms that by (simp add: wf_detector_def)
    then show ?thesis
      by (cases "process_item (stop_sequences_storage d) (v ! i) (item_of d i)")
         (simp add: item_of_def process_item_length)
  qed
  with assms show ?thesis by (auto simp: wf_detector_def ProcessTokens_def Let_def)
qed

text \<open>A detector that has not seen a token since its last reset.\<close>

definition fresh :: "stop_detector \<Rightarrow> bool" where
  "fresh d \<longleftrightarrow> wf_detector d \<and> stop_sequences_storage d \<noteq> [] \<and>
     (\<forall>i < length (stop_token_found d). item_of d i = initial_item (stop_sequences_storage d))"

lemma fresh_ResetBatch:
  "[] \<notin> set (stop_sequences_storage d) \<Longrightarrow> stop_sequences_storage d \<noteq> [] \<Longrightarrow> fresh (ResetBatch n d)"
  by (simp add: fresh_def wf_ResetBatch) (simp add: ResetBatch_def item_of_def initial_item_def Let_def)

definition process_all :: "int list list \<Rightarrow> stop_detector \<Rightarrow> stop_detector" where
  "process_all vs d = fold (\<lambda>v d. snd (ProcessTokens v d)) vs d"

lemma process_all_frame [simp]:
  "stop_sequences_storage (process_all vs d) = stop_sequences_storage d"
  "length (stop_token_found (process_all vs d)) = length (stop_token_found d)"
  by (induction vs arbitrary: d) (simp_all add: process_all_def)

definition history :: "int list list \<Rightarrow> nat \<Rightarrow> int list" where
  "history vs i = map (\<lambda>v. v ! i) vs"

lemma item_of_process_all:
  assumes "\<forall>v \<in> set vs. length v = length (stop_token_found d)" "stop_sequences_storage d \<noteq> []"
    "i < length (stop_token_found d)"
  shows "item_of (process_all vs d) i =
         fold (process_item (stop_sequences_storage d)) (history vs i) (item_of d i)"
  using assms
  by (induction vs arbitrary: d) (simp_all add: process_all_def history_def item_of_ProcessTokens)

lemma process_all_spec:
  assumes "fresh d" "\<forall>v \<in> set vs. length v = length (stop_token_found d)"
    "i < length (stop_token_found d)"
  shows "item_spec (stop_sequences_storage d) (history vs i) (item_of (process_all vs d) i)"
  using assms run_item_spec [of "stop_sequences_storage d" "history vs i"]
  by (simp add: item_of_process_all fresh_def run_item_def wf_detector_def)

section \<open>The interface the decoding loop uses\<close>

locale stop_detection =
  fixes wf :: "'d \<Rightarrow> bool"
    and flags :: "'d \<Rightarrow> bool list"
    and feed :: "int list \<Rightarrow> 'd \<Rightarrow> status \<times> 'd"
    and all_done :: "'d \<Rightarrow> bool status_or"
  assumes feed_wf: "wf d \<Longrightarrow> wf (snd (feed v d))"
    and feed_length: "wf d \<Longrightarrow> length (flags (snd (feed v d))) = length (flags d)"
    and feed_keeps: "wf d \<Longrightarrow> i < length (flags d) \<Longrightarrow> flags d ! i \<Longrightarrow> flags (snd (feed v d)) ! i"
    and all_done_iff: "wf d \<Longrightarrow> flags d \<noteq> [] \<Longrightarrow> all_done d = Inr (\<forall>i < length (flags d). flags d ! i)"
begin

definition feed_all :: "int list list \<Rightarrow> 'd \<Rightarrow> 'd" where
  "feed_all vs d = fold (\<lambda>v d. snd (feed v d)) vs d"

lemma feed_all_invariant:
  "wf d \<Longrightarrow> wf (feed_all vs d) \<and> length (flags (feed_all vs d)) = length (flags d) \<and>
     (\<forall>i < length (flags d). flags d ! i \<longrightarrow> flags (feed_all vs d) ! i)"
  unfolding feed_all_def
  by (induction vs arbitrary: d) (simp_all add: feed_wf feed_length feed_keeps)

text \<open>Once every item has stopped, no later token undoes it.\<close>

lemma all_done_stable:
  assumes "wf d" "flags d \<noteq> []" "all_done d = Inr True"
  shows "all_done (feed_all vs d) = Inr True"
proof -
  have "flags (feed_all vs d) \<noteq> []"
    using feed_all_invariant [OF assms(1), of vs] assms(2) by (metis length_0_conv)
  then show ?thesis
    using feed_all_invariant [OF assms(1), of vs] assms by (simp add: all_done_iff)
qed

end

interpretation sd: stop_detection wf_detector stop_token_found ProcessTokens AllDone
proof unfold_locales
  fix d v i
  assume "wf_detector d" "i < length (stop_token_found d)" "stop_token_found d ! i"
  then show "stop_token_found (snd (ProcessTokens v d)) ! i"
    by (simp add: ProcessTokens_def Let_def item_of_def process_item_def)
qed (simp_all add: wf_ProcessTokens AllDone_def list_all_length)

section \<open>Properties\<close>

text \<open>A reported stop is real: if, after any number of decode steps on a freshly reset detector,
  item \<open>i\<close> is reported as stopped, then some prefix of that item's token history ends with one of
  the stop sequences, and \<^verbatim>\<open>GetStepsBeforeStopTokens\<close> is the length of that sequence plus the number of
  tokens produced after the first detection.\<close>

theorem stop_detection_sound:
  assumes "fresh d" and "\<forall>v \<in> set vs. length v = length (stop_token_found d)"
    and "i < length (stop_token_found d)" and "stop_token_found (process_all vs d) ! i"
  shows "\<exists>p s. prefix p (history vs i) \<and> s \<in> set (stop_sequences_storage d) \<and> suffix s p \<and>
     GetStepsBeforeStopTokens (process_all vs d) ! i = length s + (length vs - length p)"
proof -
  have "[] \<notin> set (stop_sequences_storage d)" using assms(1) by (simp add: fresh_def wf_detector_def)
  with process_all_spec [OF assms(1-3)] assms(4) show ?thesis
    unfolding item_spec_def item_of_def GetStepsBeforeStopTokens_def
    by (auto simp: history_def) (metis progress_complete_suffix)
qed

definition demo_detector :: "int list list \<Rightarrow> nat \<Rightarrow> stop_detector" where
  "demo_detector ss n = ResetBatch n
     \<lparr>stop_sequences_storage = ss, stop_token_found = [], max_batch_item_match_progress = [],
      batch_item_match_progress = [], matched_stop_sequence_length = []\<rparr>"

theorem stop_detection_sound_witness:
  "\<exists>p s. prefix p (history [[7, 1], [2, 2], [3, 3], [9, 9]] 1) \<and> s \<in> set [[1, 2], [5]] \<and> suffix s p \<and>
     GetStepsBeforeStopTokens (process_all [[7, 1], [2, 2], [3, 3], [9, 9]] (demo_detector [[1, 2], [5]] 2)) ! 1
       = length s + (4 - length p)"
proof -
  let ?d = "demo_detector [[1, 2], [5]] 2" and ?vs = "[[7, 1], [2, 2], [3, 3], [9, 9]] :: int list list"
  have "fresh ?d" by (simp add: demo_detector_def fresh_ResetBatch)
  moreover have "stop_token_found (process_all ?vs ?d) ! 1" by code_simp
  moreover have "length (stop_token_found ?d) = 2" "stop_sequences_storage ?d = [[1, 2], [5]]"
    by (simp_all add: demo_detector_def ResetBatch_def)
  ultimately show ?thesis using stop_detection_sound [of ?d ?vs 1] by (simp add: numeral_eq_Suc)
qed

text \<open>C12. For stop sequences whose first token does not occur again inside the sequence, detection is
  exact: item \<open>i\<close> is reported as stopped if and only if some prefix of its token history ends with a
  stop sequence.\<close>

theorem stop_detection_exact:
  assumes "fresh d" and "\<forall>v \<in> set vs. length v = length (stop_token_found d)"
    and "i < length (stop_token_found d)" and "\<forall>s \<in> set (stop_sequences_storage d). no_restart s"
  shows "stop_token_found (process_all vs d) ! i \<longleftrightarrow>
     (\<exists>p s. prefix p (history vs i) \<and> s \<in> set (stop_sequences_storage d) \<and> suffix s p)"
proof -
  have ne: "[] \<notin> set (stop_sequences_storage d)" using assms(1) by (simp add: fresh_def wf_detector_def)
  have "stop_token_found (process_all vs d) ! i \<longleftrightarrow>
      (\<exists>p. prefix p (history vs i) \<and> completes (stop_sequences_storage d) p)"
    using process_all_spec [OF assms(1-3)] by (simp add: item_spec_def item_of_def)
  moreover have "completes (stop_sequences_storage d) p \<longleftrightarrow>
      (\<exists>s \<in> set (stop_sequences_storage d). suffix s p)" for p
    using assms(4) ne unfolding completes_def
    by (metis progress_complete_suffix suffix_progress_complete)
  ultimately show ?thesis by blast
qed

theorem stop_detection_exact_witness:
  "stop_token_found (process_all [[4], [1], [2]] (demo_detector [[1, 2], [5]] 1)) ! 0 \<longleftrightarrow>
     (\<exists>p s. prefix p (history [[4], [1], [2]] 0) \<and> s \<in> set [[1, 2], [5]] \<and> suffix s p)"
proof -
  let ?d = "demo_detector [[1, 2], [5]] 1" and ?vs = "[[4], [1], [2]] :: int list list"
  have "fresh ?d" by (simp add: demo_detector_def fresh_ResetBatch)
  moreover have "length (stop_token_found ?d) = 1" "stop_sequences_storage ?d = [[1, 2], [5]]"
    by (simp_all add: demo_detector_def ResetBatch_def)
  ultimately show ?thesis using stop_detection_exact [of ?d ?vs 0] by (simp add: no_restart_def)
qed

text \<open>A self-overlapping stop sequence can be missed: with the stop sequence 1 1 2, the
  output 1 1 1 2 ends with it and the item is not reported as stopped, because a mismatch restarts the
  tracker at the current token instead of falling back to the overlap.\<close>

theorem stop_detection_misses_overlap:
  "suffix [1, 1, 2] (history [[1], [1], [1], [2]] 0) \<and>
   AllDone (process_all [[1], [1], [1], [2]] (demo_detector [[1, 1, 2]] 1)) = Inr False"
  by (rule conjI) (simp add: history_def suffix_def, code_simp)

text \<open>\<^verbatim>\<open>StopTokenFound\<close> sets the flag of exactly those items that had it or whose decoded token
  is a stop token, returns whether all flags are set, and reports vectors of different sizes without
  changing a flag.\<close>

theorem stop_token_found_flags:
  "StopTokenFound decoded stop_ids found =
     (if length decoded = length found
      then (Inr (list_all id (map (\<lambda>i. found ! i \<or> decoded ! i \<in> set stop_ids) [0..<length found])),
            map (\<lambda>i. found ! i \<or> decoded ! i \<in> set stop_ids) [0..<length found])
      else (Inl InvalidArgument, found))"
  by (auto simp: StopTokenFound_def Let_def list_all_length intro!: nth_equalityI)

end
