(* ===== verification/ThreadPool.thy ===== *)
theory ThreadPool
  imports Prelude "HOL-Library.Multiset"
begin

text \<open>
  \<^verbatim>\<open>runtime/framework/threadpool.{h,cc}\<close>: a queue of callbacks served by up to
  \<^verbatim>\<open>max_num_threads\<close> worker threads. Every critical section (a region under \<^verbatim>\<open>mutex_\<close>) is one
  atomic operation; the callback itself runs outside the lock, between \<open>worker_dequeue\<close> and
  \<open>worker_finish\<close>. The scheduler's choice of worker, and whether the operating system can create
  a thread, are arguments of the steps. The fields \<open>accepted\<close>, \<open>started\<close> and \<open>finished\<close> are
  a history kept for the statements; no guard reads them.
\<close>

section \<open>State\<close>

text \<open>Where a worker is in \<^verbatim>\<open>RunWorker\<close>: at the wait, running a callback, or returned.\<close>

datatype 't worker_pc = Waiting | Running 't | Exited

record 't thread_pool =
  max_num_threads :: nat
  threads :: "nat list"
  stopped :: bool
  tasks :: "'t list"
  num_active_tasks :: nat
  workers :: "'t worker_pc list"
  accepted :: "'t list"
  started :: "'t list"
  finished :: "'t list"

section \<open>Operations\<close>

definition ThreadPool :: "nat \<Rightarrow> 't thread_pool" where
  "ThreadPool n = \<lparr>max_num_threads = (if n = 0 then 1 else n), threads = [], stopped = False,
     tasks = [], num_active_tasks = 0, workers = [], accepted = [], started = [], finished = []\<rparr>"

text \<open>
  \<open>created\<close> is the result of \<^verbatim>\<open>WorkerThread::Create\<close>. A new worker starts at the wait of
  \<^verbatim>\<open>RunWorker\<close>.
\<close>

definition add_worker :: "'t thread_pool \<Rightarrow> 't thread_pool" where
  "add_worker p = p\<lparr>threads := threads p @ [length (workers p)], workers := workers p @ [Waiting]\<rparr>"

definition push_task :: "'t \<Rightarrow> 't thread_pool \<Rightarrow> 't thread_pool" where
  "push_task t p = p\<lparr>tasks := tasks p @ [t], accepted := accepted p @ [t]\<rparr>"

definition Schedule :: "status \<Rightarrow> 't \<Rightarrow> ('t thread_pool, unit) op" where
  "Schedule created t p =
     (if stopped p then (Inl FailedPrecondition, p)
      else if length (threads p) < max_num_threads p \<and>
              length (threads p) \<le> num_active_tasks p + length (tasks p)
      then (case created of
              Inr _ \<Rightarrow> (Ok, push_task t (add_worker p))
            | Inl e \<Rightarrow> if length (threads p) = 0 then (Inl e, p) else (Ok, push_task t p))
      else (Ok, push_task t p))"

definition worker_dequeue :: "nat \<Rightarrow> 't thread_pool \<Rightarrow> 't thread_pool option" where
  "worker_dequeue w p =
     (if w < length (workers p) \<and> workers p ! w = Waiting then
        (case tasks p of [] \<Rightarrow> None
         | t # ts \<Rightarrow> Some (p\<lparr>tasks := ts, num_active_tasks := num_active_tasks p + 1,
                             workers := (workers p)[w := Running t], started := started p @ [t]\<rparr>))
      else None)"

definition worker_finish :: "nat \<Rightarrow> 't thread_pool \<Rightarrow> 't thread_pool option" where
  "worker_finish w p =
     (if w < length (workers p) then
        (case workers p ! w of
           Running t \<Rightarrow> Some (p\<lparr>num_active_tasks := num_active_tasks p - 1,
                               workers := (workers p)[w := Waiting], finished := finished p @ [t]\<rparr>)
         | _ \<Rightarrow> None)
      else None)"

definition worker_exit :: "nat \<Rightarrow> 't thread_pool \<Rightarrow> 't thread_pool option" where
  "worker_exit w p =
     (if w < length (workers p) \<and> workers p ! w = Waiting \<and> tasks p = [] \<and> stopped p
      then Some (p\<lparr>workers := (workers p)[w := Exited]\<rparr>) else None)"

text \<open>The first block of the destructor. The joins then wait until all workers have exited.\<close>

definition shutdown :: "'t thread_pool \<Rightarrow> 't thread_pool" where
  "shutdown p = p\<lparr>stopped := True, threads := []\<rparr>"

definition all_joined :: "'t thread_pool \<Rightarrow> bool" where
  "all_joined p \<longleftrightarrow> stopped p \<and> list_all (\<lambda>pc. pc = Exited) (workers p)"

definition is_idle :: "'t thread_pool \<Rightarrow> bool" where
  "is_idle p \<longleftrightarrow> tasks p = []"

definition is_done :: "'t thread_pool \<Rightarrow> bool" where
  "is_done p \<longleftrightarrow> tasks p = [] \<and> num_active_tasks p = 0"

text \<open>
  \<^verbatim>\<open>WaitUntilIdle\<close> and \<^verbatim>\<open>WaitUntilDone\<close> return when the awaited condition holds or the
  deadline passes; the argument is the pool as it is when the wait ends.
\<close>

definition WaitUntilIdle :: "'t thread_pool \<Rightarrow> status" where
  "WaitUntilIdle p = (if is_idle p then Ok else Inl DeadlineExceeded)"

definition WaitUntilDone :: "'t thread_pool \<Rightarrow> status" where
  "WaitUntilDone p = (if is_done p then Ok else Inl DeadlineExceeded)"

section \<open>Executions\<close>

inductive pool_step :: "'t thread_pool \<Rightarrow> 't thread_pool \<Rightarrow> bool" where
  schedule: "pool_step p (snd (Schedule created t p))"
| dequeue: "worker_dequeue w p = Some p' \<Longrightarrow> pool_step p p'"
| finish: "worker_finish w p = Some p' \<Longrightarrow> pool_step p p'"
| exit: "worker_exit w p = Some p' \<Longrightarrow> pool_step p p'"
| stop: "\<not> stopped p \<Longrightarrow> pool_step p (shutdown p)"

inductive pool_reachable :: "nat \<Rightarrow> 't thread_pool \<Rightarrow> bool" for n where
  init: "pool_reachable n (ThreadPool n)"
| step: "pool_reachable n p \<Longrightarrow> pool_step p q \<Longrightarrow> pool_reachable n q"

section \<open>Invariant\<close>

fun running_tasks :: "'t worker_pc list \<Rightarrow> 't list" where
  "running_tasks [] = []"
| "running_tasks (Running t # ws) = t # running_tasks ws"
| "running_tasks (_ # ws) = running_tasks ws"

definition pool_inv :: "'t thread_pool \<Rightarrow> bool" where
  "pool_inv p \<longleftrightarrow>
     0 < max_num_threads p \<and> length (workers p) \<le> max_num_threads p \<and>
     (\<not> stopped p \<longrightarrow> length (threads p) = length (workers p)) \<and>
     (stopped p \<longrightarrow> threads p = []) \<and>
     num_active_tasks p = length (running_tasks (workers p)) \<and>
     accepted p = started p @ tasks p \<and>
     mset (started p) = mset (finished p) + mset (running_tasks (workers p)) \<and>
     (accepted p \<noteq> [] \<longrightarrow> workers p \<noteq> []) \<and>
     (Exited \<in> set (workers p) \<longrightarrow> stopped p \<and> tasks p = [])"

lemma running_tasks_append [simp]: "running_tasks (xs @ ys) = running_tasks xs @ running_tasks ys"
  by (induction xs rule: running_tasks.induct) simp_all

lemma running_tasks_le: "length (running_tasks ws) \<le> length ws"
  by (induction ws rule: running_tasks.induct) simp_all

lemma mset_running_update:
  assumes "w < length ws"
  shows "mset (running_tasks (ws[w := pc])) =
    mset (running_tasks ws) - mset (running_tasks [ws ! w]) + mset (running_tasks [pc])"
proof -
  have "ws = take w ws @ [ws ! w] @ drop (Suc w) ws" using assms by (simp add: id_take_nth_drop)
  then have old: "mset (running_tasks ws) = mset (running_tasks (take w ws)) +
      mset (running_tasks [ws ! w]) + mset (running_tasks (drop (Suc w) ws))"
    by (metis running_tasks_append mset_append add.assoc)
  have "ws[w := pc] = take w ws @ [pc] @ drop (Suc w) ws" using assms by (simp add: upd_conv_take_nth_drop)
  then have "mset (running_tasks (ws[w := pc])) = mset (running_tasks (take w ws)) +
      mset (running_tasks [pc]) + mset (running_tasks (drop (Suc w) ws))"
    by (metis running_tasks_append mset_append add.assoc)
  with old show ?thesis by simp
qed

lemma pool_inv_init: "pool_inv (ThreadPool n)"
  by (simp add: pool_inv_def ThreadPool_def)

lemma pool_inv_schedule: "pool_inv p \<Longrightarrow> pool_inv (snd (Schedule created t p))"
  by (cases created)
     (auto simp: pool_inv_def Schedule_def push_task_def add_worker_def)

lemma pool_inv_dequeue:
  assumes "pool_inv p" "worker_dequeue w p = Some p'" shows "pool_inv p'"
proof -
  obtain t ts where w: "w < length (workers p)" "workers p ! w = Waiting" "tasks p = t # ts"
    and p': "p' = p\<lparr>tasks := ts, num_active_tasks := num_active_tasks p + 1,
                     workers := (workers p)[w := Running t], started := started p @ [t]\<rparr>"
    using assms(2) by (auto simp: worker_dequeue_def split: if_splits list.splits)
  have m: "mset (running_tasks ((workers p)[w := Running t])) = mset (running_tasks (workers p)) + {#t#}"
    using mset_running_update [OF w(1), of "Running t"] w(2) by simp
  then have "length (running_tasks ((workers p)[w := Running t])) = Suc (length (running_tasks (workers p)))"
    by (metis size_mset size_add_mset add_mset_add_single)
  with assms(1) w m show ?thesis
    by (auto simp: pool_inv_def p' dest: subsetD [OF set_update_subset_insert])
qed

lemma pool_inv_finish:
  assumes "pool_inv p" "worker_finish w p = Some p'" shows "pool_inv p'"
proof -
  obtain t where w: "w < length (workers p)" "workers p ! w = Running t"
    and p': "p' = p\<lparr>num_active_tasks := num_active_tasks p - 1,
                     workers := (workers p)[w := Waiting], finished := finished p @ [t]\<rparr>"
    using assms(2) by (auto simp: worker_finish_def split: if_splits worker_pc.splits)
  have "mset (running_tasks ((workers p)[w := Waiting])) = mset (running_tasks (workers p)) - {#t#}"
    using mset_running_update [OF w(1), of Waiting] w(2) by simp
  moreover have "t \<in># mset (running_tasks (workers p))"
    using w by (metis running_tasks.simps(2) append_Cons in_set_conv_decomp in_multiset_in_set
        running_tasks_append list.set_intros(1) nth_mem Un_iff set_append)
  ultimately have m: "mset (running_tasks (workers p)) = mset (running_tasks ((workers p)[w := Waiting])) + {#t#}"
    by simp
  then have "length (running_tasks (workers p)) = Suc (length (running_tasks ((workers p)[w := Waiting])))"
    by (metis size_mset size_add_mset add_mset_add_single)
  with assms(1) w m show ?thesis
    by (auto simp: pool_inv_def p' dest: subsetD [OF set_update_subset_insert])
qed

lemma pool_inv_exit:
  assumes "pool_inv p" "worker_exit w p = Some p'" shows "pool_inv p'"
proof -
  have w: "w < length (workers p)" "workers p ! w = Waiting" "tasks p = []" "stopped p"
    and p': "p' = p\<lparr>workers := (workers p)[w := Exited]\<rparr>"
    using assms(2) by (auto simp: worker_exit_def split: if_splits)
  have m: "mset (running_tasks ((workers p)[w := Exited])) = mset (running_tasks (workers p))"
    using mset_running_update [OF w(1), of Exited] w(2) by simp
  then have "length (running_tasks ((workers p)[w := Exited])) = length (running_tasks (workers p))"
    by (metis size_mset)
  with assms(1) w m show ?thesis by (auto simp: pool_inv_def p')
qed

lemma pool_inv_step: "pool_step p q \<Longrightarrow> pool_inv p \<Longrightarrow> pool_inv q"
proof (induction rule: pool_step.induct)
  case (stop p)
  then show ?case by (auto simp: pool_inv_def shutdown_def)
qed (auto intro: pool_inv_schedule pool_inv_dequeue pool_inv_finish pool_inv_exit)

lemma pool_reachable_inv: "pool_reachable n p \<Longrightarrow> pool_inv p"
  by (induction rule: pool_reachable.induct) (auto intro: pool_inv_init pool_inv_step)

section \<open>The interface the execution manager uses\<close>

text \<open>
  A queue of callbacks: what is pending and what is active, and how the three operations move
  a callback from one to the other. \<open>job\<close> is the callback a worker is running.
\<close>

locale callback_queue =
  fixes inv :: "'p \<Rightarrow> bool"
    and pending :: "'p \<Rightarrow> 't list"
    and active :: "'p \<Rightarrow> 't list"
    and job :: "nat \<Rightarrow> 'p \<Rightarrow> 't option"
    and submit :: "status \<Rightarrow> 't \<Rightarrow> 'p \<Rightarrow> status \<times> 'p"
    and fetch :: "nat \<Rightarrow> 'p \<Rightarrow> 'p option"
    and release :: "nat \<Rightarrow> 'p \<Rightarrow> 'p option"
  assumes submit_inv: "inv p \<Longrightarrow> inv (snd (submit c t p))"
    and submit_ok: "fst (submit c t p) = Ok \<Longrightarrow>
          pending (snd (submit c t p)) = pending p @ [t] \<and> active (snd (submit c t p)) = active p"
    and submit_error: "fst (submit c t p) = Inl e \<Longrightarrow> snd (submit c t p) = p"
    and fetch_inv: "inv p \<Longrightarrow> fetch w p = Some p' \<Longrightarrow> inv p'"
    and fetch_moves: "inv p \<Longrightarrow> fetch w p = Some p' \<Longrightarrow>
          \<exists>t. pending p = t # pending p' \<and> mset (active p') = add_mset t (mset (active p)) \<and>
              job w p' = Some t"
    and release_inv: "inv p \<Longrightarrow> release w p = Some p' \<Longrightarrow> inv p'"
    and release_moves: "inv p \<Longrightarrow> release w p = Some p' \<Longrightarrow>
          \<exists>t. job w p = Some t \<and> pending p' = pending p \<and>
              mset (active p) = add_mset t (mset (active p'))"
    and job_active: "inv p \<Longrightarrow> job w p = Some t \<Longrightarrow> t \<in> set (active p)"
begin

definition once :: "'p \<Rightarrow> bool" where
  "once p \<longleftrightarrow> distinct (pending p @ active p)"

text \<open>No callback is in the pool twice, as long as none is submitted while it is there.\<close>

lemma once_submit:
  assumes "once p" "t \<notin> set (pending p) \<union> set (active p)"
  shows "once (snd (submit c t p))"
proof (cases "fst (submit c t p)")
  case (Inl e)
  with assms show ?thesis by (simp add: submit_error)
next
  case (Inr u)
  then have "fst (submit c t p) = Ok" by simp
  from submit_ok [OF this] assms show ?thesis by (auto simp: once_def)
qed

lemma once_fetch:
  assumes "once p" "inv p" "fetch w p = Some p'" shows "once p'"
proof -
  obtain t where "pending p = t # pending p'" "mset (active p') = add_mset t (mset (active p))"
    using fetch_moves [OF assms(2,3)] by blast
  then have "mset (pending p' @ active p') = mset (pending p @ active p)" by simp
  from mset_eq_imp_distinct_iff [OF this] assms(1) show ?thesis by (simp add: once_def)
qed

lemma once_release:
  assumes "once p" "inv p" "release w p = Some p'"
  shows "once p' \<and> (\<exists>t. job w p = Some t \<and> t \<notin> set (pending p') \<union> set (active p') \<and>
           set (active p) = insert t (set (active p')) \<and> pending p' = pending p)"
proof -
  obtain t where t: "job w p = Some t" "pending p' = pending p"
    "mset (active p) = add_mset t (mset (active p'))"
    using release_moves [OF assms(2,3)] by blast
  have "mset (pending p @ active p) = mset (t # pending p' @ active p')" using t by simp
  from mset_eq_imp_distinct_iff [OF this] assms(1)
  have "distinct (t # pending p' @ active p')" by (simp add: once_def)
  moreover have "set (active p) = insert t (set (active p'))"
    using t(3) by (metis set_mset_add_mset_insert set_mset_mset)
  ultimately show ?thesis using t(1,2) by (auto simp: once_def)
qed

end

definition worker_job :: "nat \<Rightarrow> 't thread_pool \<Rightarrow> 't option" where
  "worker_job w p =
     (if w < length (workers p) then
        (case workers p ! w of Running t \<Rightarrow> Some t | _ \<Rightarrow> None) else None)"

lemma running_in_tasks: "w < length ws \<Longrightarrow> ws ! w = Running t \<Longrightarrow> t \<in> set (running_tasks ws)"
  by (induction ws arbitrary: w rule: running_tasks.induct) (auto simp: nth_Cons split: nat.splits)

lemma dequeue_moves:
  assumes "worker_dequeue w p = Some p'"
  shows "\<exists>t. tasks p = t # tasks p' \<and>
    mset (running_tasks (workers p')) = add_mset t (mset (running_tasks (workers p))) \<and>
    worker_job w p' = Some t"
proof -
  obtain t ts where w: "w < length (workers p)" "workers p ! w = Waiting" "tasks p = t # ts"
    and "p' = p\<lparr>tasks := ts, num_active_tasks := num_active_tasks p + 1,
                     workers := (workers p)[w := Running t], started := started p @ [t]\<rparr>"
    using assms by (auto simp: worker_dequeue_def split: if_splits list.splits)
  then show ?thesis
    using mset_running_update [OF w(1), of "Running t"] by (simp add: worker_job_def)
qed

lemma finish_moves:
  assumes "worker_finish w p = Some p'"
  shows "\<exists>t. worker_job w p = Some t \<and> tasks p' = tasks p \<and>
    mset (running_tasks (workers p)) = add_mset t (mset (running_tasks (workers p')))"
proof -
  obtain t where w: "w < length (workers p)" "workers p ! w = Running t"
    and p': "p' = p\<lparr>num_active_tasks := num_active_tasks p - 1,
                     workers := (workers p)[w := Waiting], finished := finished p @ [t]\<rparr>"
    using assms by (auto simp: worker_finish_def split: if_splits worker_pc.splits)
  have "mset (running_tasks ((workers p)[w := Waiting])) = mset (running_tasks (workers p)) - {#t#}"
    using mset_running_update [OF w(1), of Waiting] w(2) by simp
  moreover have "t \<in># mset (running_tasks (workers p))" using running_in_tasks [OF w] by simp
  ultimately show ?thesis using w p' by (simp add: worker_job_def)
qed

interpretation tp: callback_queue pool_inv tasks "\<lambda>p. running_tasks (workers p)" worker_job
    Schedule worker_dequeue worker_finish
proof unfold_locales
  fix c t and p :: "'a thread_pool"
  assume "fst (Schedule c t p) = Ok"
  then show "tasks (snd (Schedule c t p)) = tasks p @ [t] \<and>
      running_tasks (workers (snd (Schedule c t p))) = running_tasks (workers p)"
    by (cases c) (auto simp: Schedule_def push_task_def add_worker_def split: if_splits)
next
  fix c t e and p :: "'a thread_pool"
  assume "fst (Schedule c t p) = Inl e"
  then show "snd (Schedule c t p) = p"
    by (cases c) (auto simp: Schedule_def split: if_splits)
next
  fix w t and p :: "'a thread_pool"
  assume "worker_job w p = Some t"
  then show "t \<in> set (running_tasks (workers p))"
    by (auto simp: worker_job_def intro: running_in_tasks split: if_splits worker_pc.splits)
qed (auto intro: pool_inv_schedule pool_inv_dequeue pool_inv_finish dequeue_moves finish_moves)

lemma worker_job_add_worker [simp]: "worker_job w (add_worker p) = worker_job w p"
  by (simp add: worker_job_def add_worker_def nth_append)

lemma worker_job_push_task [simp]: "worker_job w (push_task t p) = worker_job w p"
  by (simp add: worker_job_def push_task_def)

lemma Schedule_effect:
  assumes "Schedule c t p = (r, p')"
  shows "stopped p' = stopped p \<and> max_num_threads p' = max_num_threads p \<and>
    started p' = started p \<and> finished p' = finished p \<and>
    worker_job w p' = worker_job w p \<and>
    (if ok r then tasks p' = tasks p @ [t] \<and> accepted p' = accepted p @ [t]
     else p' = p)"
proof -
  have "p' = p \<and> \<not> ok r \<or> (p' = push_task t p \<or> p' = push_task t (add_worker p)) \<and> ok r"
    using assms by (cases c) (auto simp: Schedule_def split: if_splits)
  moreover from this have "worker_job w p' = worker_job w p" by auto
  ultimately show ?thesis by (auto simp: push_task_def add_worker_def)
qed

lemma one_worker:
  "pool_inv p \<Longrightarrow> max_num_threads p = 1 \<Longrightarrow> worker_job w p = Some t \<Longrightarrow> w = 0"
  by (auto simp: pool_inv_def worker_job_def split: if_splits)

section \<open>Progress and shutdown\<close>

definition worker_step :: "'t thread_pool \<Rightarrow> 't thread_pool \<Rightarrow> bool" where
  "worker_step p q \<longleftrightarrow>
     (\<exists>w. worker_dequeue w p = Some q \<or> worker_finish w p = Some q \<or> worker_exit w p = Some q)"

fun pc_weight :: "'t worker_pc \<Rightarrow> nat" where
  "pc_weight Exited = 0"
| "pc_weight Waiting = 1"
| "pc_weight (Running t) = 2"

definition drain :: "'t thread_pool \<Rightarrow> nat" where
  "drain p = 3 * length (tasks p) + sum_list (map pc_weight (workers p))"

lemma sum_list_update_map:
  "w < length ws \<Longrightarrow>
     sum_list (map f (ws[w := pc])) + f (ws ! w) = sum_list (map f ws) + (f pc :: nat)"
  by (induction ws arbitrary: w) (auto split: nat.splits)

lemma worker_step_drains:
  assumes "worker_step p q" shows "drain q < drain p"
proof -
  obtain w where w: "worker_dequeue w p = Some q \<or> worker_finish w p = Some q \<or> worker_exit w p = Some q"
    using assms by (auto simp: worker_step_def)
  have "w < length (workers p)"
    using w by (auto simp: worker_dequeue_def worker_finish_def worker_exit_def split: if_splits)
  note upd = sum_list_update_map [OF this, of pc_weight]
  show ?thesis using w upd [of Waiting] upd [of Exited] upd [of "Running (hd (tasks p))"]
    by (cases "workers p ! w"; cases "tasks p")
       (auto simp: worker_dequeue_def worker_finish_def worker_exit_def drain_def
         simp del: map_update split: if_splits)
qed

lemma worker_can_step:
  assumes "w < length (workers p)" "workers p ! w \<noteq> Exited" "tasks p \<noteq> [] \<or> stopped p"
  shows "\<exists>q. worker_step p q"
proof (cases "workers p ! w")
  case Waiting
  with assms have "worker_dequeue w p \<noteq> None \<or> worker_exit w p \<noteq> None"
    by (auto simp: worker_dequeue_def worker_exit_def split: list.splits)
  then show ?thesis by (auto simp: worker_step_def)
next
  case (Running t)
  with assms have "worker_finish w p \<noteq> None" by (auto simp: worker_finish_def)
  then show ?thesis by (auto simp: worker_step_def)
qed (use assms in simp)

lemma no_running_exited: "list_all (\<lambda>pc. pc = Exited) ws \<Longrightarrow> running_tasks ws = []"
  by (induction ws rule: running_tasks.induct) simp_all

text \<open>C20.
  In every reachable state of a thread pool no callback is lost or duplicated: the accepted
  callbacks are, in the order of acceptance, the started ones followed by the queued ones; each
  started one is finished or held by exactly one worker; num_active_tasks_ counts those workers
  and never exceeds the configured number of threads (one if zero was asked for); and when
  WaitUntilDone returns Ok, every accepted callback has finished.\<close>

theorem pool_keeps_every_task:
  assumes "pool_reachable n p"
  shows "accepted p = started p @ tasks p \<and>
    mset (started p) = mset (finished p) + mset (running_tasks (workers p)) \<and>
    num_active_tasks p = length (running_tasks (workers p)) \<and>
    num_active_tasks p \<le> max n 1 \<and>
    (WaitUntilDone p = Ok \<longrightarrow> mset (finished p) = mset (accepted p))"
proof -
  have max: "max_num_threads p = max n 1" using assms
  proof (induction rule: pool_reachable.induct)
    case init
    then show ?case by (simp add: ThreadPool_def)
  next
    case (step p q)
    have "max_num_threads q = max_num_threads p" using step(2)
      by (cases rule: pool_step.cases) (auto simp: Schedule_def push_task_def add_worker_def
          worker_dequeue_def worker_finish_def worker_exit_def shutdown_def
          split: if_splits list.splits worker_pc.splits sum.splits)
    with step(3) show ?case by simp
  qed
  have inv: "pool_inv p" by (rule pool_reachable_inv [OF assms])
  show ?thesis using inv max running_tasks_le [of "workers p"]
    by (auto simp: pool_inv_def WaitUntilDone_def is_done_def split: if_splits)
qed

definition pool_run_example :: "nat thread_pool" where
  "pool_run_example =
     the (worker_finish 0 (the (worker_dequeue 0
       (snd (Schedule Ok 8 (snd (Schedule Ok 7 (ThreadPool 0))))))))"

lemma pool_run_example_reachable: "pool_reachable 0 pool_run_example"
proof -
  let ?q = "snd (Schedule Ok 8 (snd (Schedule Ok 7 (ThreadPool 0)))) :: nat thread_pool"
  have q: "pool_reachable 0 ?q"
    by (intro pool_reachable.step [OF _ pool_step.schedule] pool_reachable.init)
  have d: "pool_reachable 0 (the (worker_dequeue 0 ?q))"
    by (rule pool_reachable.step [OF q pool_step.dequeue [of 0]])
       (simp add: Schedule_def ThreadPool_def push_task_def add_worker_def worker_dequeue_def)
  show ?thesis unfolding pool_run_example_def
    by (rule pool_reachable.step [OF d pool_step.finish [of 0]])
       (simp add: Schedule_def ThreadPool_def push_task_def add_worker_def worker_dequeue_def
         worker_finish_def)
qed

lemma pool_keeps_every_task_witness:
  "accepted pool_run_example = [7, 8] \<and> accepted pool_run_example = [7] @ tasks pool_run_example"
  using pool_keeps_every_task [OF pool_run_example_reachable]
  by (simp add: pool_run_example_def Schedule_def ThreadPool_def push_task_def add_worker_def
      worker_dequeue_def worker_finish_def)

text \<open>C21.
  A pool never gets stuck: while a callback is queued, or the pool is stopped and a worker has
  not returned, some worker can take a step. The steps of the workers always decrease a measure,
  so after the destructor has set stopped_ the joins return; when they have, both checks of the
  destructor hold (no thread left, no active task) and every accepted callback has run. A stopped
  pool refuses new callbacks and is left unchanged by the attempt.\<close>

theorem pool_progress_and_shutdown:
  assumes "pool_reachable n p"
  shows "(tasks p \<noteq> [] \<or> (stopped p \<and> \<not> all_joined p) \<longrightarrow> (\<exists>q. worker_step p q)) \<and>
    (\<forall>q. worker_step p q \<longrightarrow> drain q < drain p) \<and>
    (all_joined p \<longrightarrow> threads p = [] \<and> num_active_tasks p = 0 \<and> tasks p = [] \<and> mset (finished p) = mset (accepted p)) \<and>
    (stopped p \<longrightarrow> Schedule created t p = (Inl FailedPrecondition, p))"
proof -
  have inv: "pool_inv p" by (rule pool_reachable_inv [OF assms])
  have progress: "\<exists>q. worker_step p q" if h: "tasks p \<noteq> [] \<or> (stopped p \<and> \<not> all_joined p)"
  proof -
    have "\<exists>w < length (workers p). workers p ! w \<noteq> Exited"
      using h inv by (auto simp: pool_inv_def all_joined_def list_all_length in_set_conv_nth)
    then show ?thesis using worker_can_step h by blast
  qed
  have joined: "threads p = [] \<and> num_active_tasks p = 0 \<and> tasks p = [] \<and>
      mset (finished p) = mset (accepted p)" if j: "all_joined p"
  proof -
    have none: "running_tasks (workers p) = []" "stopped p"
      using j by (auto simp: all_joined_def no_running_exited)
    have "tasks p = []"
      using inv j by (cases "workers p") (auto simp: pool_inv_def all_joined_def)
    with none inv show ?thesis by (auto simp: pool_inv_def)
  qed
  show ?thesis using progress joined worker_step_drains by (auto simp: Schedule_def)
qed

lemma pool_progress_and_shutdown_witness:
  "(\<exists>q. worker_step pool_run_example q) \<and> tasks pool_run_example = [8]"
proof -
  have "tasks pool_run_example = [8]"
    by (simp add: pool_run_example_def Schedule_def ThreadPool_def push_task_def add_worker_def
      worker_dequeue_def worker_finish_def)
  then show ?thesis
    using pool_progress_and_shutdown [OF pool_run_example_reachable] by simp
qed

end
