(* ===== verification/ExecutionManager.thy ===== *)
theory ExecutionManager
  imports IoTypes ThreadPool
begin

text \<open>
  The task scheduler: \<^verbatim>\<open>runtime/framework/resource_management/execution_manager.{h,cc}\<close>. Every
  method that holds \<^verbatim>\<open>task_lookup_mutex_\<close> is one atomic operation on the manager's state; the
  lambda that the thread pool runs is split at the points where it holds no lock
  (\<open>lambda_pc\<close>). Task functions are values of an arbitrary type \<open>'b\<close>, and what such a function
  returns is an argument of the step that finishes it.

  Two orders the C++ leaves open are parameters: \<open>iter\<close>, the iteration order of a
  \<^verbatim>\<open>flat_hash_set\<close>, and \<open>left\<close>, whether an \<^verbatim>\<open>AnyInvocable\<close> that was moved from still
  compares unequal to null. The fields \<open>birth\<close>, \<open>num_created\<close>, \<open>orig_deps\<close> and
  \<open>returned_ok\<close> are a history for the statements; no guard reads them.
\<close>

section \<open>State\<close>

type_synonym task_id = "32 word"

record 'b task_info =
  task :: "'b option"
  task_state :: task_state
  dependent_tasks :: "task_id set"
  following_tasks :: "task_id set"
  callback :: bool

text \<open>Where the lambda that \<open>QueueTask\<close> schedules is, for each worker of the pool.\<close>

datatype lambda_pc = NoTask | Fetched task_id | Executing task_id | Returning

record ('b, 'f) execution_manager =
  next_task_id :: task_id
  task_lookup :: "task_id \<rightharpoonup> 'b task_info"
  execution_thread_pool :: "task_id thread_pool"
  callbacks :: "(task_id \<times> 'f responses status_or) list"
  pc :: "nat \<Rightarrow> lambda_pc"
  birth :: "task_id \<Rightarrow> nat"
  num_created :: nat
  orig_deps :: "task_id \<Rightarrow> task_id set"
  returned_ok :: "task_id set"

definition ExecutionManager :: "('b, 'f) execution_manager" where
  "ExecutionManager = \<lparr>next_task_id = 0, task_lookup = (\<lambda>_. None),
     execution_thread_pool = ThreadPool 1, callbacks = [], pc = (\<lambda>_. NoTask),
     birth = (\<lambda>_. 0), num_created = 0, orig_deps = (\<lambda>_. {}), returned_ok = {}\<rparr>"

abbreviation info_at :: "('b, 'f) execution_manager \<Rightarrow> task_id \<Rightarrow> 'b task_info" where
  "info_at s t \<equiv> the (task_lookup s t)"

definition update_info ::
  "task_id \<Rightarrow> ('b task_info \<Rightarrow> 'b task_info) \<Rightarrow> ('b, 'f) execution_manager \<Rightarrow> ('b, 'f) execution_manager"
where
  "update_info t g s = s\<lparr>task_lookup := (task_lookup s)(t := map_option g (task_lookup s t))\<rparr>"

definition notify ::
  "task_id \<Rightarrow> 'f responses status_or \<Rightarrow> ('b, 'f) execution_manager \<Rightarrow> ('b, 'f) execution_manager"
where
  "notify t r s = s\<lparr>callbacks := callbacks s @ [(t, r)]\<rparr>"

abbreviation set_state ::
  "task_id \<Rightarrow> task_state \<Rightarrow> ('b, 'f) execution_manager \<Rightarrow> ('b, 'f) execution_manager"
where
  "set_state t st \<equiv> update_info t (\<lambda>i. i\<lparr>task_state := st\<rparr>)"

section \<open>Operations\<close>

definition GetNewTaskId :: "(('b, 'f) execution_manager, task_id) op" where
  "GetNewTaskId s = (Inr (next_task_id s), s\<lparr>next_task_id := next_task_id s + 1\<rparr>)"

definition ConfirmTaskState ::
  "task_id \<Rightarrow> task_state \<Rightarrow> bool \<Rightarrow> (('b, 'f) execution_manager, unit) op"
where
  "ConfirmTaskState t expected trigger_callback s =
     (case task_lookup s t of
        None \<Rightarrow> (Inl InvalidArgument, s)
      | Some i \<Rightarrow>
          if trigger_callback \<and> \<not> callback i then (Inl InvalidArgument, s)
          else if task_state i \<noteq> expected
          then (Inl InvalidArgument,
                if trigger_callback then notify t (Inl InvalidArgument) s else s)
          else (Ok, s))"

definition QueueTask :: "status \<Rightarrow> task_id \<Rightarrow> (('b, 'f) execution_manager, unit) op" where
  "QueueTask created t =
     assign_or_return (ConfirmTaskState t kCreated True) (\<lambda>_ s.
       if dependent_tasks (info_at s t) \<noteq> {} then (Inl InvalidArgument, s)
       else case Schedule created t (execution_thread_pool s) of
              (Inl e, p) \<Rightarrow> (Inl e, s\<lparr>execution_thread_pool := p\<rparr>)
            | (Inr _, p) \<Rightarrow>
                (Ok, notify t (Inr (StateResponse kQueued))
                       (set_state t kQueued (s\<lparr>execution_thread_pool := p\<rparr>))))"

text \<open>The loop of \<open>CreateTask\<close> over the dependencies; links made before an error stay.\<close>

fun link_dependencies ::
  "task_id \<Rightarrow> task_id list \<Rightarrow> task_state \<Rightarrow> (('b, 'f) execution_manager, task_state) op"
where
  "link_dependencies t [] st s = (Inr st, s)"
| "link_dependencies t (d # ds) st s =
     (if task_lookup s d = None then (Inl InvalidArgument, s)
      else if task_state (info_at s d) \<in> {kFailed, kDependentTaskFailed}
      then link_dependencies t ds kDependentTaskFailed s
      else if task_state (info_at s d) \<noteq> kDone
      then link_dependencies t ds st
             (update_info d (\<lambda>i. i\<lparr>following_tasks := insert t (following_tasks i)\<rparr>) s)
      else link_dependencies t ds st s)"

definition insert_task ::
  "task_id \<Rightarrow> 'b task_info \<Rightarrow> ('b, 'f) execution_manager \<Rightarrow> ('b, 'f) execution_manager"
where
  "insert_task t i s =
     s\<lparr>task_lookup := (task_lookup s)(t \<mapsto> i), birth := (birth s)(t := num_created s),
       num_created := num_created s + 1, orig_deps := (orig_deps s)(t := dependent_tasks i)\<rparr>"

text \<open>\<open>deps\<close> lists the set \<^verbatim>\<open>dependent_tasks\<close> in its iteration order.\<close>

definition CreateTask ::
  "status \<Rightarrow> task_id \<Rightarrow> 'b \<Rightarrow> task_id list \<Rightarrow> (('b, 'f) execution_manager, unit) op"
where
  "CreateTask created t b deps s =
     (if task_lookup s t \<noteq> None then (Inl InvalidArgument, s)
      else assign_or_return (link_dependencies t deps kCreated) (\<lambda>st s.
             let s = insert_task t \<lparr>task = Some b, task_state = st, dependent_tasks = set deps,
                                    following_tasks = {}, callback = True\<rparr> s;
                 s = notify t (Inr (StateResponse st)) s
             in if dependent_tasks (info_at s t) = {} then QueueTask created t s
                else (Ok, s)) s)"

definition StartTask :: "bool \<Rightarrow> task_id \<Rightarrow> (('b, 'f) execution_manager, 'b) op" where
  "StartTask left t =
     assign_or_return (ConfirmTaskState t kQueued True) (\<lambda>_ s.
       case task (info_at s t) of
         None \<Rightarrow> (Inl InvalidArgument, notify t (Inl InvalidArgument) s)
       | Some b \<Rightarrow>
           let s = notify t (Inr (StateResponse kProcessing)) (set_state t kProcessing s)
           in (Inr b, update_info t (\<lambda>i. i\<lparr>task := (if left then Some b else None),
                                             callback := left\<rparr>) s))"

text \<open>
  The recursion of \<open>FollowingWaitingTasks\<close>, with fuel (\<open>None\<close> when it runs out) and the loop over
  the followers with the recursive call as an argument.
\<close>

fun waiting_loop ::
  "(task_id \<Rightarrow> task_id set status_or option) \<Rightarrow> ('b, 'f) execution_manager \<Rightarrow> task_id \<Rightarrow>
     task_id list \<Rightarrow> task_id set \<Rightarrow> task_id set status_or option"
where
  "waiting_loop rec s t [] acc = Some (Inr acc)"
| "waiting_loop rec s t (f # fs) acc =
     (if task_lookup s f = None then Some (Inl InvalidArgument)
      else if t \<notin> dependent_tasks (info_at s f) then Some (Inl InvalidArgument)
      else if task_state (info_at s f) = kCreated
      then (case rec f of
              None \<Rightarrow> None
            | Some (Inl e) \<Rightarrow> Some (Inl e)
            | Some (Inr S) \<Rightarrow> waiting_loop rec s t fs (insert f acc \<union> S))
      else waiting_loop rec s t fs acc)"

fun FollowingWaitingTasks ::
  "(task_id set \<Rightarrow> task_id list) \<Rightarrow> nat \<Rightarrow> ('b, 'f) execution_manager \<Rightarrow> task_id \<Rightarrow>
     task_id set status_or option"
where
  "FollowingWaitingTasks iter 0 s t = None"
| "FollowingWaitingTasks iter (Suc n) s t =
     waiting_loop (FollowingWaitingTasks iter n s) s t (iter (following_tasks (info_at s t))) {}"

text \<open>The two loops of \<open>FinishTask\<close>.\<close>

definition fail_follower ::
  "task_id \<Rightarrow> ('b, 'f) execution_manager \<Rightarrow> ('b, 'f) execution_manager"
where
  "fail_follower f s =
     (let s = update_info f (\<lambda>i. i\<lparr>dependent_tasks := {}\<rparr>) s;
          s = (if callback (info_at s f) then notify f (Inr (StateResponse kDependentTaskFailed)) s
               else s)
      in set_state f kDependentTaskFailed s)"

text \<open>How the loop over the followers ends: through, or with a status that is first given to the
  callback of the finished task, or with a bare \<^verbatim>\<open>RETURN_IF_ERROR\<close>.\<close>

datatype loop_exit = Completed | CallbackAndReturn status_code | ReturnOnly status_code

fun release_followers ::
  "status \<Rightarrow> task_id \<Rightarrow> task_id list \<Rightarrow> ('b, 'f) execution_manager \<Rightarrow>
     loop_exit \<times> ('b, 'f) execution_manager"
where
  "release_followers created t [] s = (Completed, s)"
| "release_followers created t (f # fs) s =
     (case ConfirmTaskState f kCreated True s of
        (Inl e, s) \<Rightarrow> (CallbackAndReturn e, s)
      | (Inr _, s) \<Rightarrow>
          if t \<notin> dependent_tasks (info_at s f) then (CallbackAndReturn InvalidArgument, s)
          else let s = update_info f (\<lambda>i. i\<lparr>dependent_tasks := dependent_tasks i - {t}\<rparr>) s
               in if dependent_tasks (info_at s f) = {}
                  then (case QueueTask created f s of
                          (Inl e, s) \<Rightarrow> (ReturnOnly e, s)
                        | (Inr _, s) \<Rightarrow> release_followers created t fs s)
                  else release_followers created t fs s)"

definition record_result ::
  "task_id \<Rightarrow> 'f responses status_or \<Rightarrow> ('b, 'f) execution_manager \<Rightarrow> ('b, 'f) execution_manager"
where
  "record_result t r s = (if ok r then s\<lparr>returned_ok := insert t (returned_ok s)\<rparr> else s)"

definition FinishTask ::
  "(task_id set \<Rightarrow> task_id list) \<Rightarrow> status \<Rightarrow> bool \<Rightarrow> task_id \<Rightarrow> 'f responses status_or \<Rightarrow>
     ('b, 'f) execution_manager \<Rightarrow> (status \<times> ('b, 'f) execution_manager) option"
where
  "FinishTask iter created has_callback t r s0 =
     (let s = record_result t r s0;
          return_error = (\<lambda>e s. Some (Inl e, notify t (Inl e) s))
      in if \<not> has_callback then Some (Inl InvalidArgument, s)
         else case ConfirmTaskState t kProcessing False s of
           (Inl e, s) \<Rightarrow> return_error e s
         | (Inr _, s) \<Rightarrow>
             (case r of
                Inl e \<Rightarrow>
                  (case FollowingWaitingTasks iter (Suc (num_created s)) s t of
                     None \<Rightarrow> None
                   | Some (Inl e') \<Rightarrow> return_error e' s
                   | Some (Inr fs) \<Rightarrow>
                       let s = fold fail_follower (iter fs) s
                       in Some (Ok, set_state t kFailed (notify t (Inl e) s)))
              | Inr v \<Rightarrow>
                  (case release_followers created t (iter (following_tasks (info_at s t))) s of
                     (CallbackAndReturn e', s) \<Rightarrow> return_error e' s
                   | (ReturnOnly e', s) \<Rightarrow> Some (Inl e', s)
                   | (Completed, s) \<Rightarrow>
                       Some (Ok, set_state t (GetTaskState v) (notify t (Inr v) s)))))"

text \<open>The condition \<^verbatim>\<open>WaitUntilDone\<close> awaits, and its result when the wait ends in \<open>s\<close>.\<close>

definition task_done :: "task_id \<Rightarrow> ('b, 'f) execution_manager \<Rightarrow> bool" where
  "task_done t s \<longleftrightarrow>
     (case task_lookup s t of
        None \<Rightarrow> False
      | Some i \<Rightarrow> task_state i = kDone \<or> task_state i = kFailed \<or> task_state i = kDependentTaskFailed)"

definition WaitUntilTaskDone :: "task_id \<Rightarrow> ('b, 'f) execution_manager \<Rightarrow> status" where
  "WaitUntilTaskDone t s = (if task_done t s then Ok else Inl DeadlineExceeded)"

definition WaitUntilAllDone :: "('b, 'f) execution_manager \<Rightarrow> status" where
  "WaitUntilAllDone s = WaitUntilDone (execution_thread_pool s)"

section \<open>Executions\<close>

text \<open>
  What the task functions of the repository return: an error, or responses whose state is done or
  reached-the-maximum (\<open>Tasks::Prefill\<close> and \<open>Tasks::Decode\<close>).
\<close>

definition legal_result :: "'f responses status_or \<Rightarrow> bool" where
  "legal_result r =
     (case r of Inl _ \<Rightarrow> True
      | Inr v \<Rightarrow> GetTaskState v = kDone \<or> GetTaskState v = kMaxNumTokensReached)"

definition iter_ok :: "(task_id set \<Rightarrow> task_id list) \<Rightarrow> bool" where
  "iter_ok iter \<longleftrightarrow> (\<forall>S. finite S \<longrightarrow> set (iter S) = S \<and> distinct (iter S))"

inductive em_step ::
  "(task_id set \<Rightarrow> task_id list) \<Rightarrow> ('b, 'f) execution_manager \<Rightarrow> ('b, 'f) execution_manager \<Rightarrow> bool"
  for iter
where
  new_id: "em_step iter s (snd (GetNewTaskId s))"
| create: "em_step iter s (snd (CreateTask created t b deps s))"
| fetch: "worker_dequeue w (execution_thread_pool s) = Some p \<Longrightarrow> worker_job w p = Some t \<Longrightarrow>
    em_step iter s (s\<lparr>execution_thread_pool := p, pc := (pc s)(w := Fetched t)\<rparr>)"
| start: "pc s w = Fetched t \<Longrightarrow> StartTask left t s = (r, s') \<Longrightarrow>
    em_step iter s (s'\<lparr>pc := (pc s')(w := (if ok r then Executing t else Returning))\<rparr>)"
| finish: "pc s w = Executing t \<Longrightarrow> legal_result r \<Longrightarrow>
    FinishTask iter created True t r s = Some (st, s') \<Longrightarrow>
    em_step iter s (s'\<lparr>pc := (pc s')(w := Returning)\<rparr>)"
| return: "pc s w = Returning \<Longrightarrow> worker_finish w (execution_thread_pool s) = Some p \<Longrightarrow>
    em_step iter s (s\<lparr>execution_thread_pool := p, pc := (pc s)(w := NoTask)\<rparr>)"

inductive em_reachable ::
  "(task_id set \<Rightarrow> task_id list) \<Rightarrow> ('b, 'f) execution_manager \<Rightarrow> bool" for iter
where
  init: "em_reachable iter ExecutionManager"
| step: "em_reachable iter s \<Longrightarrow> em_step iter s s' \<Longrightarrow> em_reachable iter s'"

section \<open>Invariant\<close>

definition scheduled :: "task_state \<Rightarrow> bool" where
  "scheduled st \<longleftrightarrow> st \<in> {kQueued, kProcessing, kDone, kMaxNumTokensReached, kFailed}"

definition info_ok :: "('b, 'f) execution_manager \<Rightarrow> task_id \<Rightarrow> 'b task_info \<Rightarrow> bool" where
  "info_ok s t i \<longleftrightarrow>
     finite (dependent_tasks i) \<and> finite (following_tasks i) \<and> birth s t < num_created s \<and>
     task_state i \<noteq> kUnknown \<and>
     (task_state i = kCreated \<or> task_state i = kQueued \<longrightarrow> callback i \<and> task i \<noteq> None) \<and>
     (task_state i = kCreated \<longrightarrow> orig_deps s t \<subseteq> dependent_tasks i \<union> returned_ok s) \<and>
     (scheduled (task_state i) \<longrightarrow> orig_deps s t \<subseteq> returned_ok s) \<and>
     (\<forall>f \<in> following_tasks i. task_lookup s f \<noteq> None \<longrightarrow> birth s t < birth s f)"

definition st :: "('b, 'f) execution_manager \<Rightarrow> task_id \<Rightarrow> task_state option" where
  "st s t = map_option task_state (task_lookup s t)"

definition em_core :: "('b, 'f) execution_manager \<Rightarrow> bool" where
  "em_core s \<longleftrightarrow>
     pool_inv (execution_thread_pool s) \<and> \<not> stopped (execution_thread_pool s) \<and>
     max_num_threads (execution_thread_pool s) = 1 \<and>
     distinct (accepted (execution_thread_pool s)) \<and>
     (\<forall>t. t \<in> set (accepted (execution_thread_pool s)) \<longleftrightarrow> (\<exists>x. st s t = Some x \<and> scheduled x)) \<and>
     (\<forall>t i. task_lookup s t = Some i \<longrightarrow> info_ok s t i)"

definition job_ok :: "('b, 'f) execution_manager \<Rightarrow> nat \<Rightarrow> bool" where
  "job_ok s w \<longleftrightarrow>
     (case pc s w of
        NoTask \<Rightarrow> worker_job w (execution_thread_pool s) = None
      | Fetched t \<Rightarrow> worker_job w (execution_thread_pool s) = Some t \<and> st s t = Some kQueued
      | Executing t \<Rightarrow> worker_job w (execution_thread_pool s) = Some t \<and> st s t = Some kProcessing
      | Returning \<Rightarrow> worker_job w (execution_thread_pool s) \<noteq> None)"

definition pc_ok :: "('b, 'f) execution_manager \<Rightarrow> bool" where
  "pc_ok s \<longleftrightarrow> (\<forall>w. job_ok s w) \<and>
     (\<forall>t. st s t = Some kQueued \<longleftrightarrow>
            t \<in> set (tasks (execution_thread_pool s)) \<or> (\<exists>w. pc s w = Fetched t))"

text \<open>What the operations do to tasks that no worker holds.\<close>

definition may_become :: "task_state option \<Rightarrow> task_state option \<Rightarrow> bool" where
  "may_become a b \<longleftrightarrow> b = a \<or>
     (a = Some kCreated \<and> b \<in> {Some kQueued, Some kDependentTaskFailed}) \<or>
     (a = None \<and> b \<in> {Some kCreated, Some kQueued, Some kDependentTaskFailed})"

lemma may_become_refl [simp]: "may_become a a"
  by (simp add: may_become_def)

lemma may_become_trans: "may_become a b \<Longrightarrow> may_become b c \<Longrightarrow> may_become a c"
  by (auto simp: may_become_def)

lemma may_become_keeps: "may_become a b \<Longrightarrow> a = Some kQueued \<or> a = Some kProcessing \<Longrightarrow> b = a"
  by (auto simp: may_become_def)

lemma may_become_processing: "may_become a b \<Longrightarrow> b = Some kProcessing \<Longrightarrow> a = Some kProcessing"
  by (auto simp: may_become_def)

definition quiet :: "('b, 'f) execution_manager \<Rightarrow> ('b, 'f) execution_manager \<Rightarrow> bool" where
  "quiet s s' \<longleftrightarrow>
     pc s' = pc s \<and> returned_ok s' = returned_ok s \<and>
     (\<forall>w. worker_job w (execution_thread_pool s') = worker_job w (execution_thread_pool s)) \<and>
     (\<forall>t. may_become (st s t) (st s' t)) \<and>
     (\<forall>t. t \<in> set (tasks (execution_thread_pool s')) \<longleftrightarrow>
          t \<in> set (tasks (execution_thread_pool s)) \<or>
          (st s t \<noteq> Some kQueued \<and> st s' t = Some kQueued))"

lemma quiet_refl [simp]: "quiet s s"
  by (simp add: quiet_def)

lemma quiet_trans:
  assumes "quiet s s'" "quiet s' s''" shows "quiet s s''"
proof -
  have "may_become (st s t) (st s'' t)" for t
    using assms unfolding quiet_def by (meson may_become_trans)
  moreover have "t \<in> set (tasks (execution_thread_pool s'')) \<longleftrightarrow>
      t \<in> set (tasks (execution_thread_pool s)) \<or> (st s t \<noteq> Some kQueued \<and> st s'' t = Some kQueued)" for t
    using assms may_become_keeps [of "st s t" "st s' t"] may_become_keeps [of "st s' t" "st s'' t"]
    unfolding quiet_def by metis
  ultimately show ?thesis using assms by (simp add: quiet_def)
qed

lemma quiet_pc_ok:
  assumes "quiet s s'" "pc_ok s" shows "pc_ok s'"
proof -
  have keep: "st s' t = st s t" if "st s t = Some kQueued \<or> st s t = Some kProcessing" for t
    using assms(1) that may_become_keeps unfolding quiet_def by blast
  have "job_ok s w \<Longrightarrow> job_ok s' w" for w
    using assms(1) keep by (auto simp: quiet_def job_ok_def split: lambda_pc.splits)
  moreover have "st s' t = Some kQueued \<longleftrightarrow>
      t \<in> set (tasks (execution_thread_pool s')) \<or> (\<exists>w. pc s' w = Fetched t)" for t
    using assms keep [of t] unfolding pc_ok_def quiet_def by metis
  ultimately show ?thesis using assms by (simp add: pc_ok_def)
qed

lemma update_info_sel [simp]:
  "task_lookup (update_info t g s) x = (if x = t then map_option g (task_lookup s t) else task_lookup s x)"
  "next_task_id (update_info t g s) = next_task_id s"
  "execution_thread_pool (update_info t g s) = execution_thread_pool s"
  "callbacks (update_info t g s) = callbacks s"
  "pc (update_info t g s) = pc s"
  "birth (update_info t g s) = birth s"
  "num_created (update_info t g s) = num_created s"
  "orig_deps (update_info t g s) = orig_deps s"
  "returned_ok (update_info t g s) = returned_ok s"
  by (simp_all add: update_info_def)

lemma notify_sel [simp]:
  "task_lookup (notify t r s) = task_lookup s"
  "next_task_id (notify t r s) = next_task_id s"
  "execution_thread_pool (notify t r s) = execution_thread_pool s"
  "callbacks (notify t r s) = callbacks s @ [(t, r)]"
  "pc (notify t r s) = pc s"
  "birth (notify t r s) = birth s"
  "num_created (notify t r s) = num_created s"
  "orig_deps (notify t r s) = orig_deps s"
  "returned_ok (notify t r s) = returned_ok s"
  by (simp_all add: notify_def)

lemma st_notify [simp]: "st (notify t r s) = st s"
  by (simp add: st_def fun_eq_iff)

lemma st_update [simp]:
  "st (update_info t g s) x = (if x = t then map_option (\<lambda>i. task_state (g i)) (task_lookup s t) else st s x)"
  by (simp add: st_def option.map_comp comp_def)

lemma info_ok_notify [simp]: "info_ok (notify t r s) x i = info_ok s x i"
  by (simp add: info_ok_def)

lemma em_core_notify [simp]: "em_core (notify t r s) = em_core s"
  by (simp add: em_core_def)

lemma quiet_notify [simp]: "quiet s (notify t r s')  = quiet s s'"
  by (simp add: quiet_def)

lemma em_core_pc [simp]: "em_core (s\<lparr>pc := f\<rparr>) = em_core s"
  by (simp add: em_core_def info_ok_def st_def)

lemma quiet_eq_st:
  "(\<And>x. st s' x = st s x) \<Longrightarrow> execution_thread_pool s' = execution_thread_pool s \<Longrightarrow> pc s' = pc s \<Longrightarrow>
     returned_ok s' = returned_ok s \<Longrightarrow> quiet s s'"
  by (simp add: quiet_def)

lemma info_ok_update [simp]: "info_ok (update_info d g s) x i = info_ok s x i"
  by (auto simp: info_ok_def)

lemma info_ok_pool [simp]: "info_ok (s\<lparr>execution_thread_pool := p\<rparr>) x i = info_ok s x i"
  by (simp add: info_ok_def)

lemma em_core_info: "em_core s \<Longrightarrow> task_lookup s t = Some i \<Longrightarrow> info_ok s t i"
  by (simp add: em_core_def)

lemma em_core_update:
  assumes "em_core s" "task_lookup s d = Some i" "info_ok s d (g i)"
    "scheduled (task_state (g i)) = scheduled (task_state i)"
  shows "em_core (update_info d g s)"
proof -
  have "t \<in> set (accepted (execution_thread_pool s)) =
      (\<exists>x. st (update_info d g s) t = Some x \<and> scheduled x)" for t
    using assms(1,2,4) by (auto simp: em_core_def st_def)
  with assms(1-3) show ?thesis by (auto simp: em_core_def split: if_splits)
qed

lemma ConfirmTaskState_cases:
  assumes "ConfirmTaskState t x trig s = (r, s')"
  shows "em_core s' = em_core s \<and> quiet s s' \<and> task_lookup s' = task_lookup s \<and>
    (ok r \<longrightarrow> s' = s \<and> (\<exists>i. task_lookup s t = Some i \<and> task_state i = x \<and> (trig \<longrightarrow> callback i))) \<and>
    (\<not> trig \<longrightarrow> s' = s)"
  using assms by (auto simp: ConfirmTaskState_def split: option.splits if_splits)

section \<open>The operations keep the invariant\<close>

lemma QueueTask_keeps:
  assumes core: "em_core s" and q: "QueueTask c t s = (r, s')"
  shows "em_core s' \<and> quiet s s' \<and> (\<forall>x. x \<noteq> t \<longrightarrow> st s' x = st s x) \<and>
    (ok r \<longrightarrow> st s t = Some kCreated \<and> st s' t = Some kQueued)"
proof (cases "ConfirmTaskState t kCreated True s")
  case (Pair r1 s1)
  note c1 = ConfirmTaskState_cases [OF Pair]
  show ?thesis
  proof (cases "\<exists>u p. r1 = Inr u \<and> dependent_tasks (info_at s1 t) = {} \<and>
      Schedule c t (execution_thread_pool s1) = (Ok, p)")
    case False
    then have "(s' = s1 \<or> (\<exists>e p. Schedule c t (execution_thread_pool s1) = (Inl e, p) \<and>
        s' = s1\<lparr>execution_thread_pool := p\<rparr>)) \<and> \<not> ok r"
      using q Pair by (auto simp: QueueTask_def assign_or_return_def split: sum.splits prod.splits if_splits)
    then have "s' = s1 \<and> \<not> ok r" by (auto dest: Schedule_effect)
    with c1 core show ?thesis by (auto simp: st_def)
  next
    case True
    then obtain p where p: "ok r1" "dependent_tasks (info_at s1 t) = {}"
      "Schedule c t (execution_thread_pool s1) = (Ok, p)" by auto
    with c1 obtain i where s1: "s1 = s" and i: "task_lookup s t = Some i" "task_state i = kCreated"
      by auto
    have s': "s' = notify t (Inr (StateResponse kQueued)) (set_state t kQueued (s\<lparr>execution_thread_pool := p\<rparr>))"
      and r: "r = Ok"
      using q Pair p True s1 by (auto simp: QueueTask_def assign_or_return_def)
    note eff = Schedule_effect [OF p(3)]
    have inv: "pool_inv p" using tp.submit_inv [of "execution_thread_pool s" c t] p(3) core s1
      by (simp add: em_core_def)
    have ti: "info_ok s t i" using core i by (simp add: em_core_def)
    have st': "st s' x = (if x = t then Some kQueued else st s x)" for x
      using i by (simp add: s') (simp add: st_def)
    have new: "t \<notin> set (accepted (execution_thread_pool s))"
      using core i by (auto simp: em_core_def st_def scheduled_def)
    have queued: "info_ok s t (i\<lparr>task_state := kQueued\<rparr>)"
      using ti i p(2) s1 by (auto simp: info_ok_def scheduled_def)
    have info: "info_ok s' x j" if "task_lookup s' x = Some j" for x j
      using that queued em_core_info [OF core] i by (auto simp: s' split: if_splits)
    have "t \<in> set (accepted (execution_thread_pool s')) = (\<exists>x. st s' t = Some x \<and> scheduled x)" for t
      using core eff s1 unfolding st' by (auto simp: s' em_core_def scheduled_def)
    then have "em_core s'"
      using core eff s1 inv info new by (simp add: em_core_def s')
    moreover have "quiet s s'"
      using eff s1 i unfolding quiet_def st' by (auto simp: s' may_become_def st_def)
    ultimately show ?thesis using st' r i by (auto simp: st_def)
  qed
qed

lemma link_dependencies_keeps:
  assumes "em_core s" "task_lookup s t = None" "link_dependencies t ds x s = (r, s')"
  shows "em_core s' \<and> quiet s s' \<and> st s' = st s \<and> num_created s' = num_created s \<and>
    (\<forall>y. r = Inr y \<longrightarrow> y = x \<or> y = kDependentTaskFailed)"
  using assms
proof (induction t ds x s rule: link_dependencies.induct)
  case (2 t d ds x s)
  let ?s = "update_info d (\<lambda>i. i\<lparr>following_tasks := insert t (following_tasks i)\<rparr>) s"
  have st: "st ?s = st s" by (auto simp: fun_eq_iff) (simp add: st_def)
  have "em_core ?s" if "task_lookup s d \<noteq> None"
  proof -
    from that obtain i where i: "task_lookup s d = Some i" by blast
    from em_core_info [OF 2(4) i] have "info_ok s d (i\<lparr>following_tasks := insert t (following_tasks i)\<rparr>)"
      using 2(5) by (simp add: info_ok_def)
    from em_core_update [OF 2(4) i, of "\<lambda>i. i\<lparr>following_tasks := insert t (following_tasks i)\<rparr>", OF this]
    show ?thesis by simp
  qed
  moreover have "quiet s ?s" by (rule quiet_eq_st) (simp_all add: st)
  moreover have "task_lookup ?s t = None" using 2(5) by auto
  ultimately have linked: ?case
    if l: "link_dependencies t ds x ?s = (r, s')"
      "task_lookup s d \<noteq> None" "task_state (info_at s d) \<notin> {kFailed, kDependentTaskFailed}"
      "task_state (info_at s d) \<noteq> kDone"
  proof -
    have "em_core s' \<and> quiet ?s s' \<and> st s' = st ?s \<and> num_created s' = num_created ?s \<and>
        (\<forall>y. r = Inr y \<longrightarrow> y = x \<or> y = kDependentTaskFailed)"
      by (rule 2(2)) (use l \<open>task_lookup ?s t = None\<close> \<open>task_lookup s d \<noteq> None \<Longrightarrow> em_core ?s\<close> in auto)
    then show ?thesis using \<open>quiet s ?s\<close> quiet_trans st by auto
  qed
  consider "task_lookup s d = None"
    | "task_lookup s d \<noteq> None" "task_state (info_at s d) \<in> {kFailed, kDependentTaskFailed}"
    | "task_lookup s d \<noteq> None" "task_state (info_at s d) \<notin> {kFailed, kDependentTaskFailed}"
      "task_state (info_at s d) \<noteq> kDone"
    | "task_lookup s d \<noteq> None" "task_state (info_at s d) = kDone"
    by blast
  then show ?case
  proof cases
    case 1
    then show ?thesis using 2(4-6) by auto
  next
    case c: 2
    then have "link_dependencies t ds kDependentTaskFailed s = (r, s')" using 2(6) by auto
    from 2(1) [OF c 2(4,5) this] show ?thesis by auto
  next
    case c: 3
    then have "link_dependencies t ds x ?s = (r, s')" using 2(6) by auto
    from linked [OF this c] show ?thesis .
  next
    case c: 4
    then have "link_dependencies t ds x s = (r, s')" using 2(6) by auto
    with 2(3) c 2(4,5) show ?thesis by auto
  qed
qed auto

lemma insert_task_keeps:
  fixes b :: "'b" and s :: "('b, 'f) execution_manager"
  assumes core: "em_core s" and t: "task_lookup s t = None"
    and x: "x = kCreated \<or> x = kDependentTaskFailed" and D: "finite D"
  defines "s' \<equiv> insert_task t \<lparr>task = Some b, task_state = x, dependent_tasks = D,
                               following_tasks = {}, callback = True\<rparr> s"
  shows "em_core s' \<and> quiet s s' \<and> st s' t = Some x"
proof -
  have st': "st s' y = (if y = t then Some x else st s y)" for y
    by (simp add: s'_def insert_task_def st_def)
  have "info_ok s' y j" if "task_lookup s' y = Some j" for y j
    using core that x D
    by (auto simp: s'_def insert_task_def em_core_def info_ok_def scheduled_def less_Suc_eq split: if_splits)
  moreover have "y \<in> set (accepted (execution_thread_pool s')) = (\<exists>x. st s' y = Some x \<and> scheduled x)" for y
    using core x t unfolding st' by (auto simp: s'_def insert_task_def em_core_def scheduled_def st_def)
  ultimately have "em_core s'" using core by (simp add: em_core_def s'_def insert_task_def)
  moreover have "quiet s s'" using x t unfolding quiet_def st'
    by (auto simp: may_become_def s'_def insert_task_def st_def)
  ultimately show ?thesis using st' by simp
qed

lemma CreateTask_keeps:
  assumes core: "em_core s" and c: "CreateTask created t b deps s = (r, s')"
  shows "em_core s' \<and> quiet s s'"
proof (cases "task_lookup s t = None")
  case False
  then show ?thesis using core c by (auto simp: CreateTask_def)
next
  case None: True
  obtain r1 s1 where l: "link_dependencies t deps kCreated s = (r1, s1)" by fastforce
  note k = link_dependencies_keeps [OF core None l]
  show ?thesis
  proof (cases r1)
    case (Inl e)
    then show ?thesis using c l None k by (simp add: CreateTask_def assign_or_return_def)
  next
    case (Inr x)
    let ?s2 = "notify t (Inr (StateResponse x)) (insert_task t \<lparr>task = Some b, task_state = x,
        dependent_tasks = set deps, following_tasks = {}, callback = True\<rparr> s1)"
    have n1: "task_lookup s1 t = None" using k None by (metis st_def option.map_disc_iff)
    have k2: "em_core ?s2 \<and> quiet s1 ?s2"
      using insert_task_keeps [of s1 t x "set deps"] k Inr n1 by auto
    have "(r, s') = QueueTask created t ?s2 \<or> s' = ?s2"
      using c l Inr None by (auto simp: CreateTask_def assign_or_return_def Let_def split: if_splits)
    then have "em_core s' \<and> quiet ?s2 s'"
      using QueueTask_keeps [of ?s2 created t r s'] k2 by auto
    then show ?thesis using k k2 quiet_trans by blast
  qed
qed

section \<open>The tasks waiting behind a task\<close>

definition waits :: "('b, 'f) execution_manager \<Rightarrow> (task_id \<times> task_id) set" where
  "waits s = {(t, f). task_lookup s t \<noteq> None \<and> f \<in> following_tasks (info_at s t) \<and> st s f = Some kCreated}"

lemma st_Some: "st s t = Some x \<longleftrightarrow> task_lookup s t \<noteq> None \<and> task_state (info_at s t) = x"
  by (auto simp: st_def)

lemma waits_trancl:
  "{g. (t, g) \<in> (waits s)\<^sup>+} = (\<Union>f \<in> {f. (t, f) \<in> waits s}. insert f {g. (f, g) \<in> (waits s)\<^sup>+})"
  by (auto intro: trancl_into_trancl2 dest: tranclD) (metis rtranclD tranclD)

lemma waiting_loop_Some:
  "(\<And>f. f \<in> set fs \<Longrightarrow> st s f = Some kCreated \<Longrightarrow> rec f \<noteq> None) \<Longrightarrow> waiting_loop rec s t fs acc \<noteq> None"
proof (induction fs arbitrary: acc)
  case (Cons f fs)
  have "rec f \<noteq> None" if "st s f = Some kCreated" using Cons.prems [of f] that by simp
  moreover have "waiting_loop rec s t fs acc \<noteq> None" for acc using Cons.IH Cons.prems by simp
  ultimately show ?case
    by (cases "task_lookup s f") (auto simp: st_Some split: option.splits sum.splits)
qed simp

lemma waiting_loop_result:
  "waiting_loop rec s t fs acc = Some (Inr S) \<Longrightarrow>
     (\<And>f R. f \<in> set fs \<Longrightarrow> st s f = Some kCreated \<Longrightarrow> rec f = Some (Inr R) \<Longrightarrow> R = reach f) \<Longrightarrow>
     S = acc \<union> (\<Union>f \<in> {f \<in> set fs. st s f = Some kCreated}. insert f (reach f))"
proof (induction fs arbitrary: acc)
  case (Cons f fs)
  show ?case
  proof (cases "st s f = Some kCreated")
    case True
    then obtain R where R: "rec f = Some (Inr R)"
      and w: "waiting_loop rec s t fs (insert f acc \<union> R) = Some (Inr S)"
      using Cons.prems(1) by (auto simp: st_Some split: if_splits option.splits sum.splits)
    have "R = reach f" using Cons.prems(2) True R by simp
    with Cons.IH [OF w] Cons.prems(2) True show ?thesis by auto
  next
    case False
    then have w: "waiting_loop rec s t fs acc = Some (Inr S)"
      using Cons.prems(1) by (auto simp: st_Some split: if_splits)
    have "{g \<in> set (f # fs). st s g = Some kCreated} = {g \<in> set fs. st s g = Some kCreated}"
      using False by auto
    with Cons.IH [OF w] Cons.prems(2) show ?thesis by simp
  qed
qed simp

lemma following_finite: "em_core s \<Longrightarrow> task_lookup s t \<noteq> None \<Longrightarrow> finite (following_tasks (info_at s t))"
  by (auto simp: em_core_def info_ok_def)

lemma following_later:
  "em_core s \<Longrightarrow> task_lookup s t \<noteq> None \<Longrightarrow> f \<in> following_tasks (info_at s t) \<Longrightarrow>
     task_lookup s f \<noteq> None \<Longrightarrow> birth s t < birth s f \<and> birth s f < num_created s"
  by (auto simp: em_core_def info_ok_def)

lemma FollowingWaitingTasks_Some:
  "em_core s \<Longrightarrow> iter_ok iter \<Longrightarrow> task_lookup s t \<noteq> None \<Longrightarrow> num_created s < n + birth s t \<Longrightarrow>
     FollowingWaitingTasks iter n s t \<noteq> None"
proof (induction n arbitrary: t)
  case 0
  then obtain i where "task_lookup s t = Some i" by blast
  from em_core_info [OF 0(1) this] 0(4) show ?case by (simp add: info_ok_def)
next
  case (Suc n)
  have "FollowingWaitingTasks iter n s f \<noteq> None"
    if f: "f \<in> set (iter (following_tasks (info_at s t)))" "st s f = Some kCreated" for f
  proof (rule Suc.IH [OF Suc.prems(1,2)])
    show found: "task_lookup s f \<noteq> None" using f by (simp add: st_Some)
    have "f \<in> following_tasks (info_at s t)"
      using f(1) Suc.prems(2) following_finite [OF Suc.prems(1,3)] by (simp add: iter_ok_def)
    from following_later [OF Suc.prems(1,3) this found]
    show "num_created s < n + birth s f" using Suc.prems(4) by simp
  qed
  then show ?case by (simp add: waiting_loop_Some)
qed

lemma FollowingWaitingTasks_result:
  "em_core s \<Longrightarrow> iter_ok iter \<Longrightarrow> task_lookup s t \<noteq> None \<Longrightarrow>
     FollowingWaitingTasks iter n s t = Some (Inr S) \<Longrightarrow> S = {f. (t, f) \<in> (waits s)\<^sup>+}"
proof (induction n arbitrary: t S)
  case (Suc n)
  have set: "set (iter (following_tasks (info_at s t))) = following_tasks (info_at s t)"
    using Suc.prems(2) following_finite [OF Suc.prems(1,3)] by (simp add: iter_ok_def)
  from Suc.prems(4) have "waiting_loop (FollowingWaitingTasks iter n s) s t
      (iter (following_tasks (info_at s t))) {} = Some (Inr S)" by simp
  from waiting_loop_result [OF this, of "\<lambda>f. {g. (f, g) \<in> (waits s)\<^sup>+}"]
  have "S = (\<Union>f \<in> {f \<in> following_tasks (info_at s t). st s f = Some kCreated}.
      insert f {g. (f, g) \<in> (waits s)\<^sup>+})"
    using Suc.IH [OF Suc.prems(1,2)] by (auto simp: set st_Some)
  also have "{f \<in> following_tasks (info_at s t). st s f = Some kCreated} = {f. (t, f) \<in> waits s}"
    using Suc.prems(3) by (auto simp: waits_def)
  finally show ?case using waits_trancl [of t s] by simp
qed simp

lemma waits_created: "(t, f) \<in> (waits s)\<^sup>+ \<Longrightarrow> st s f = Some kCreated"
  by (erule tranclE) (auto simp: waits_def)

lemma waits_finite:
  assumes "em_core s" shows "finite {f. (t, f) \<in> (waits s)\<^sup>+}"
  by (rule finite_subset [of _ "UNIV :: task_id set"]) simp_all

section \<open>Finishing a task\<close>

lemma fail_follower_keeps:
  assumes core: "em_core s" and f: "st s f = Some kCreated"
  shows "em_core (fail_follower f s) \<and> quiet s (fail_follower f s) \<and>
    st (fail_follower f s) = (st s)(f \<mapsto> kDependentTaskFailed)"
proof -
  obtain i where i: "task_lookup s f = Some i" "task_state i = kCreated"
    using f by (auto simp: st_def)
  let ?g = "\<lambda>i. i\<lparr>dependent_tasks := {}, task_state := kDependentTaskFailed\<rparr>"
  obtain e where e: "fail_follower f s = update_info f ?g s \<or>
      fail_follower f s = notify f e (update_info f ?g s)"
  proof
    show "fail_follower f s = update_info f ?g s \<or>
        fail_follower f s = notify f (Inr (StateResponse kDependentTaskFailed)) (update_info f ?g s)"
      using i by (auto simp: fail_follower_def Let_def update_info_def notify_def)
  qed
  have "info_ok s f (?g i)" using em_core_info [OF core i(1)] by (simp add: info_ok_def scheduled_def)
  moreover have "scheduled (task_state (?g i)) = scheduled (task_state i)" using i by (simp add: scheduled_def)
  ultimately have "em_core (update_info f ?g s)" using em_core_update [OF core i(1), of ?g] by simp
  moreover have st: "st (update_info f ?g s) = (st s)(f \<mapsto> kDependentTaskFailed)"
    using i by (auto simp: fun_eq_iff)
  moreover have "quiet s (update_info f ?g s)"
    using f by (simp add: quiet_def st may_become_def)
  ultimately show ?thesis using e by auto
qed

lemma fail_followers_keep:
  assumes "em_core s" "distinct fs" "\<forall>f \<in> set fs. st s f = Some kCreated"
  shows "em_core (fold fail_follower fs s) \<and> quiet s (fold fail_follower fs s) \<and>
    st (fold fail_follower fs s) = (\<lambda>x. if x \<in> set fs then Some kDependentTaskFailed else st s x)"
  using assms
proof (induction fs arbitrary: s)
  case (Cons f fs)
  have k: "em_core (fail_follower f s)" "quiet s (fail_follower f s)"
    "st (fail_follower f s) = (st s)(f \<mapsto> kDependentTaskFailed)"
    using fail_follower_keeps [OF Cons.prems(1), of f] Cons.prems(3) by simp_all
  have "\<forall>g \<in> set fs. st (fail_follower f s) g = Some kCreated"
    using Cons.prems(2,3) k(3) by auto
  from Cons.IH [OF k(1) _ this] Cons.prems(2) k show ?case
    by (auto simp: fun_eq_iff intro: quiet_trans)
qed auto

lemma release_followers_keep:
  "em_core s \<Longrightarrow> t \<in> returned_ok s \<Longrightarrow> release_followers c t fs s = (x, s') \<Longrightarrow>
     em_core s' \<and> quiet s s'"
proof (induction fs arbitrary: s)
  case (Cons f fs)
  obtain r1 s1 where c: "ConfirmTaskState f kCreated True s = (r1, s1)" by fastforce
  note k = ConfirmTaskState_cases [OF c]
  show ?case
  proof (cases "ok r1 \<and> t \<in> dependent_tasks (info_at s1 f)")
    case False
    then have "s' = s1" using Cons.prems(3) c by (auto split: sum.splits simp: ok_def)
    then show ?thesis using k Cons.prems(1) by simp
  next
    case True
    with k obtain i where s1: "s1 = s" and i: "task_lookup s f = Some i" by blast
    let ?s = "update_info f (\<lambda>i. i\<lparr>dependent_tasks := dependent_tasks i - {t}\<rparr>) s"
    have "info_ok s f (i\<lparr>dependent_tasks := dependent_tasks i - {t}\<rparr>)"
      using em_core_info [OF Cons.prems(1) i] Cons.prems(2) by (auto simp: info_ok_def)
    then have core: "em_core ?s"
      using em_core_update [OF Cons.prems(1) i, of "\<lambda>i. i\<lparr>dependent_tasks := dependent_tasks i - {t}\<rparr>"]
      by simp
    have q: "quiet s ?s" by (rule quiet_eq_st) (auto simp: st_def option.map_comp comp_def)
    have rel: "t \<in> returned_ok ?s" using Cons.prems(2) by simp
    show ?thesis
    proof (cases "dependent_tasks (info_at ?s f) = {}")
      case False
      then have "release_followers c t fs ?s = (x, s')"
        using Cons.prems(3) c True s1 by (auto simp: Let_def split: sum.splits)
      from Cons.IH [OF core rel this] q quiet_trans show ?thesis by blast
    next
      case empty: True
      obtain r2 s2 where q2: "QueueTask c f ?s = (r2, s2)" by fastforce
      note k2 = QueueTask_keeps [OF core q2]
      have "s' = s2 \<or> release_followers c t fs s2 = (x, s')"
        using Cons.prems(3) c True s1 empty q2 by (auto simp: Let_def split: sum.splits)
      moreover have "t \<in> returned_ok s2" using k2 rel by (simp add: quiet_def)
      ultimately show ?thesis using Cons.IH [of s2] k2 q quiet_trans by blast
    qed
  qed
qed simp

lemma record_result_sel [simp]:
  "task_lookup (record_result t r s) = task_lookup s"
  "execution_thread_pool (record_result t r s) = execution_thread_pool s"
  "pc (record_result t r s) = pc s"
  "num_created (record_result t r s) = num_created s"
  "birth (record_result t r s) = birth s"
  "orig_deps (record_result t r s) = orig_deps s"
  "st (record_result t r s) = st s"
  "returned_ok (record_result t r s) = (if ok r then insert t (returned_ok s) else returned_ok s)"
  by (simp_all add: record_result_def st_def fun_eq_iff)

lemma record_result_info: "info_ok s x i \<Longrightarrow> info_ok (record_result t r s) x i"
  by (auto simp: info_ok_def)

lemma record_result_core: "em_core s \<Longrightarrow> em_core (record_result t r s)"
  by (simp add: em_core_def record_result_info)

lemma FinishTask_keeps:
  assumes core: "em_core s" and t: "st s t = Some kProcessing" and r: "legal_result r"
    and iter: "iter_ok iter" and f: "FinishTask iter c True t r s = Some (x, s')"
  shows "em_core s' \<and> pc s' = pc s \<and>
    (\<exists>s1. quiet (record_result t r s) s1 \<and> execution_thread_pool s' = execution_thread_pool s1 \<and>
       (st s' = st s1 \<or> (\<exists>e \<in> {kDone, kMaxNumTokensReached, kFailed}. st s' = (st s1)(t \<mapsto> e))))"
proof -
  let ?s = "record_result t r s"
  have core0: "em_core ?s" by (rule record_result_core [OF core])
  have t0: "st ?s t = Some kProcessing" "task_lookup s t \<noteq> None" using t by (auto simp: st_def)
  have confirm: "ConfirmTaskState t kProcessing False ?s = (Ok, ?s)"
    using t by (auto simp: ConfirmTaskState_def st_def)
  have final: "em_core s1 \<Longrightarrow> st s1 t = Some kProcessing \<Longrightarrow> e \<in> {kDone, kMaxNumTokensReached, kFailed} \<Longrightarrow>
      em_core (set_state t e s1) \<and> st (set_state t e s1) = (st s1)(t \<mapsto> e)" for s1 :: "('a, 'b) execution_manager" and e
  proof -
    assume a: "em_core s1" "st s1 t = Some kProcessing" "e \<in> {kDone, kMaxNumTokensReached, kFailed}"
    then obtain i where i: "task_lookup s1 t = Some i" "task_state i = kProcessing" by (auto simp: st_def)
    from a em_core_info [OF a(1) i(1)] i(2) have "info_ok s1 t (i\<lparr>task_state := e\<rparr>)"
      by (auto simp: info_ok_def scheduled_def)
    with a i show ?thesis
      using em_core_update [OF a(1) i(1), of "\<lambda>i. i\<lparr>task_state := e\<rparr>"]
      by (auto simp: scheduled_def fun_eq_iff)
  qed
  show ?thesis
  proof (cases r)
    case (Inl e)
    then have s0: "?s = s" by (simp add: record_result_def)
    consider "\<exists>e'. s' = notify t (Inl e') s"
      | fs where "FollowingWaitingTasks iter (Suc (num_created s)) s t = Some (Inr fs)"
        "s' = set_state t kFailed (notify t (Inl e) (fold fail_follower (iter fs) s))"
      using f Inl confirm s0
      by (auto simp: FinishTask_def Let_def split: option.splits sum.splits)
    then show ?thesis
    proof cases
      case 1
      then show ?thesis using core s0 by (auto intro!: exI [of _ s])
    next
      case 2
      have fs: "fs = {f. (t, f) \<in> (waits s)\<^sup>+}"
        by (rule FollowingWaitingTasks_result [OF core iter t0(2) 2(1)])
      then have "finite fs" using waits_finite [OF core] by simp
      then have "set (iter fs) = fs" "distinct (iter fs)" using iter by (simp_all add: iter_ok_def)
      moreover have "\<forall>f \<in> fs. st s f = Some kCreated" using fs waits_created by auto
      ultimately have k: "em_core (fold fail_follower (iter fs) s)" "quiet s (fold fail_follower (iter fs) s)"
        using fail_followers_keep [OF core, of "iter fs"] by auto
      have "st (fold fail_follower (iter fs) s) t = Some kProcessing"
        using k(2) t may_become_keeps unfolding quiet_def by metis
      then show ?thesis using final [of "notify t (Inl e) (fold fail_follower (iter fs) s)" kFailed] k 2(2) s0
        by (auto simp: quiet_def)
    qed
  next
    case (Inr v)
    have v: "GetTaskState v \<in> {kDone, kMaxNumTokensReached, kFailed}"
      using r Inr by (auto simp: legal_result_def)
    obtain y s1 where rel: "release_followers c t (iter (following_tasks (info_at ?s t))) ?s = (y, s1)"
      by fastforce
    have k: "em_core s1 \<and> quiet ?s s1"
      by (rule release_followers_keep [OF core0 _ rel]) (simp add: Inr)
    have t1: "st s1 t = Some kProcessing" using k t0(1) may_become_keeps unfolding quiet_def by metis
    have "(\<exists>e'. s' = notify t (Inl e') s1) \<or> s' = s1 \<or> s' = set_state t (GetTaskState v) (notify t (Inr v) s1)"
      using f Inr confirm rel by (auto simp: FinishTask_def Let_def split: loop_exit.splits)
    then show ?thesis
      using k final [of "notify t (Inr v) s1" "GetTaskState v"] t1 v by (auto simp: quiet_def)
  qed
qed

lemma FinishTask_returns:
  assumes "em_core s" "iter_ok iter" shows "FinishTask iter c cb t r s \<noteq> None"
proof -
  have "FollowingWaitingTasks iter (Suc (num_created s)) s t \<noteq> None" if "task_lookup s t \<noteq> None"
    by (rule FollowingWaitingTasks_Some [OF assms that]) simp
  then show ?thesis
    by (cases "task_lookup s t")
       (auto simp: FinishTask_def ConfirmTaskState_def Let_def record_result_def
         split: option.splits sum.splits prod.splits loop_exit.splits)
qed

section \<open>Reachable states\<close>

definition em_inv :: "('b, 'f) execution_manager \<Rightarrow> bool" where
  "em_inv s \<longleftrightarrow> em_core s \<and> pc_ok s"

lemma em_core_one_worker:
  "em_core s \<Longrightarrow> worker_job w (execution_thread_pool s) \<noteq> None \<Longrightarrow> w = 0"
  by (auto simp: em_core_def dest: one_worker)

lemma update_info_twice: "update_info t g (update_info t h s) = update_info t (\<lambda>i. g (h i)) s"
  by (simp add: update_info_def option.map_comp comp_def)

lemma update_info_notify: "update_info t g (notify x r s) = notify x r (update_info t g s)"
  by (simp add: update_info_def notify_def)

lemma StartTask_keeps:
  assumes core: "em_core s" and q: "st s t = Some kQueued" and c: "StartTask left t s = (r, s')"
  shows "em_core s' \<and> (\<exists>b. r = Inr b) \<and> pc s' = pc s \<and> st s' = (st s)(t \<mapsto> kProcessing) \<and>
    execution_thread_pool s' = execution_thread_pool s"
proof -
  obtain i where i: "task_lookup s t = Some i" "task_state i = kQueued" using q by (auto simp: st_def)
  from em_core_info [OF core i(1)] i(2) obtain b where b: "task i = Some b" "callback i"
    by (auto simp: info_ok_def)
  let ?g = "\<lambda>i. i\<lparr>task_state := kProcessing, task := (if left then Some b else None), callback := left\<rparr>"
  have "s' = notify t (Inr (StateResponse kProcessing)) (update_info t ?g s)" "r = Inr b"
    using c i b by (auto simp: StartTask_def assign_or_return_def ConfirmTaskState_def Let_def
        update_info_notify update_info_twice)
  moreover have "info_ok s t (?g i)"
    using em_core_info [OF core i(1)] i(2) by (simp add: info_ok_def scheduled_def)
  ultimately show ?thesis using em_core_update [OF core i(1), of ?g] i
    by (auto simp: scheduled_def fun_eq_iff)
qed

definition life_step :: "task_state option \<Rightarrow> task_state option \<Rightarrow> bool" where
  "life_step a b \<longleftrightarrow> b = a \<or>
     (a = None \<and> b \<in> {Some kCreated, Some kQueued, Some kDependentTaskFailed}) \<or>
     (a = Some kCreated \<and> b \<in> {Some kQueued, Some kDependentTaskFailed}) \<or>
     (a = Some kQueued \<and> b = Some kProcessing) \<or>
     (a = Some kProcessing \<and> b \<in> {Some kDone, Some kMaxNumTokensReached, Some kFailed})"

lemma life_step_refl [simp]: "life_step a a"
  by (simp add: life_step_def)

lemma may_become_life: "may_become a b \<Longrightarrow> life_step a b"
  by (auto simp: may_become_def life_step_def)

lemma st_fields [simp]:
  "st (s\<lparr>pc := f\<rparr>) = st s" "st (s\<lparr>execution_thread_pool := p\<rparr>) = st s"
  "st (s\<lparr>execution_thread_pool := p, pc := f\<rparr>) = st s" "st (s\<lparr>next_task_id := n\<rparr>) = st s"
  by (simp_all add: st_def fun_eq_iff)

lemma em_core_fields [simp]: "em_core (s\<lparr>next_task_id := n\<rparr>) = em_core s"
  by (simp add: em_core_def info_ok_def)

text \<open>Only worker 0 exists, so a change of its place in the lambda leaves no other worker's.\<close>

lemma pc_ok_alone:
  assumes "em_core s" "pc_ok s" "w \<noteq> 0" shows "pc s w = NoTask"
proof -
  have "worker_job w (execution_thread_pool s) = None" using em_core_one_worker assms by blast
  moreover have "job_ok s w"
    using assms(2) unfolding pc_ok_def by blast
  ultimately show ?thesis by (simp add: job_ok_def split: lambda_pc.splits)
qed

lemma pc_ok_at:
  "pc_ok s \<Longrightarrow> job_ok s w"
  by (simp add: pc_ok_def)

lemma pc_ok_0:
  assumes "em_core s" "\<And>w. w \<noteq> 0 \<Longrightarrow> pc s w = NoTask"
    and "job_ok s 0"
    and "\<And>t. st s t = Some kQueued \<longleftrightarrow>
            t \<in> set (tasks (execution_thread_pool s)) \<or> pc s 0 = Fetched t"
  shows "pc_ok s"
proof -
  have "job_ok s w" for w
  proof (cases "w = 0")
    case True
    then show ?thesis using assms(3) by simp
  next
    case False
    then have "worker_job w (execution_thread_pool s) = None"
      using em_core_one_worker [OF assms(1)] by blast
    then show ?thesis using assms(2) [OF False] by (simp add: job_ok_def)
  qed
  moreover have "(\<exists>w. pc s w = Fetched t) \<longleftrightarrow> pc s 0 = Fetched t" for t
    using assms(2) by (metis lambda_pc.distinct(1))
  ultimately show ?thesis using assms(4) by (simp add: pc_ok_def)
qed

lemma pc_ok_queued:
  assumes "em_core s" "pc_ok s"
  shows "st s t = Some kQueued \<longleftrightarrow> t \<in> set (tasks (execution_thread_pool s)) \<or> pc s 0 = Fetched t"
  using assms pc_ok_alone [OF assms] unfolding pc_ok_def by (metis lambda_pc.distinct(1))

lemma em_core_pool:
  assumes "em_core s" "pool_inv p" "stopped p = stopped (execution_thread_pool s)"
    "max_num_threads p = max_num_threads (execution_thread_pool s)"
    "accepted p = accepted (execution_thread_pool s)"
  shows "em_core (s\<lparr>execution_thread_pool := p\<rparr>)"
  using assms by (simp add: em_core_def)

lemma worker_step_fields:
  assumes "worker_dequeue w p = Some q \<or> worker_finish w p = Some q"
  shows "stopped q = stopped p \<and> max_num_threads q = max_num_threads p \<and> accepted q = accepted p"
  using assms by (auto simp: worker_dequeue_def worker_finish_def split: if_splits list.splits worker_pc.splits)

lemma job_not_pending:
  assumes "em_core s" "worker_job w (execution_thread_pool s) = Some t"
  shows "t \<notin> set (tasks (execution_thread_pool s))"
proof -
  let ?p = "execution_thread_pool s"
  have inv: "pool_inv ?p" "distinct (accepted ?p)" using assms(1) by (simp_all add: em_core_def)
  have "t \<in> set (running_tasks (workers ?p))" using tp.job_active [OF inv(1) assms(2)] .
  then have "t \<in># mset (started ?p)" using inv(1) by (simp add: pool_inv_def)
  then have "t \<in> set (started ?p)" by simp
  with inv show ?thesis by (auto simp: pool_inv_def)
qed

lemma worker_job_moves:
  "worker_dequeue w p = Some q \<Longrightarrow> worker_job w p = None"
  "worker_finish w p = Some q \<Longrightarrow> worker_job w q = None \<and> tasks q = tasks p \<and> worker_job w p \<noteq> None"
  by (auto simp: worker_dequeue_def worker_finish_def worker_job_def split: if_splits list.splits worker_pc.splits)

lemma em_step_keeps:
  assumes step: "em_step iter s s'" and inv: "em_inv s" and iter: "iter_ok iter"
  shows "em_inv s' \<and> (\<forall>t. life_step (st s t) (st s' t))"
proof -
  have core: "em_core s" and pcs: "pc_ok s" using inv by (simp_all add: em_inv_def)
  note alone = pc_ok_alone [OF core pcs]
  note queued = pc_ok_queued [OF core pcs]
  from step show ?thesis
  proof cases
    case new_id
    have "quiet s s'" unfolding new_id by (rule quiet_eq_st) (simp_all add: GetNewTaskId_def)
    then show ?thesis using core quiet_pc_ok [OF _ pcs] new_id
      by (auto simp: em_inv_def GetNewTaskId_def quiet_def may_become_life)
  next
    case (create c t b deps)
    obtain r where "CreateTask c t b deps s = (r, s')" using create by (metis prod.collapse)
    from CreateTask_keeps [OF core this] quiet_pc_ok [OF _ pcs] show ?thesis
      by (auto simp: em_inv_def quiet_def may_become_life)
  next
    case (fetch w p t)
    have w: "pool_inv p" using fetch(2) core by (auto intro: tp.fetch_inv simp: em_core_def)
    have core': "em_core (s\<lparr>execution_thread_pool := p\<rparr>)"
      using em_core_pool [OF core w] worker_step_fields [of w _ p] fetch(2) by blast
    then have w0: "w = 0" using em_core_one_worker [of _ w] fetch(3) by fastforce
    obtain u where "tasks (execution_thread_pool s) = u # tasks p" "worker_job w p = Some u"
      using tp.fetch_moves [OF _ fetch(2)] core by (auto simp: em_core_def)
    then have t: "tasks (execution_thread_pool s) = t # tasks p" using fetch(3) by simp
    have none: "pc s 0 \<noteq> Fetched x" for x
      using worker_job_moves(1) [OF fetch(2)] pc_ok_at [OF pcs, of 0] w0 by (auto simp: job_ok_def)
    have "pc_ok s'"
      by (rule pc_ok_0) (use core' fetch alone w0 t queued none in \<open>auto simp: job_ok_def\<close>)
    then show ?thesis
      using em_core_pc [where s = "s\<lparr>execution_thread_pool := p\<rparr>" and f = "pc s'"] core' fetch
      by (auto simp: em_inv_def)
  next
    case (start w t left r s1)
    have t: "st s t = Some kQueued" "worker_job w (execution_thread_pool s) = Some t"
      using pc_ok_at [OF pcs, of w] start(2) by (simp_all add: job_ok_def)
    note k = StartTask_keeps [OF core t(1) start(3)]
    have w0: "w = 0" using alone start(2) by fastforce
    have "pc_ok s'"
      by (rule pc_ok_0)
         (use k start alone w0 t queued job_not_pending [OF core t(2)] in \<open>auto simp: job_ok_def\<close>)
    then show ?thesis using k start(1) t(1) by (auto simp: em_inv_def life_step_def)
  next
    case (finish w t r c x s1)
    have t: "st s t = Some kProcessing" "worker_job w (execution_thread_pool s) = Some t"
      using pc_ok_at [OF pcs, of w] finish(2) by (simp_all add: job_ok_def)
    obtain s2 where k: "em_core s1" "pc s1 = pc s" "quiet (record_result t r s) s2"
      "execution_thread_pool s1 = execution_thread_pool s2"
      "st s1 = st s2 \<or> (\<exists>e \<in> {kDone, kMaxNumTokensReached, kFailed}. st s1 = (st s2)(t \<mapsto> e))"
      using FinishTask_keeps [OF core t(1) finish(3) iter finish(4)] by blast
    have "job_ok (record_result t r s) v = job_ok s v" for v by (cases "pc s v") (simp_all add: job_ok_def)
    then have pcs0: "pc_ok (record_result t r s)" using pcs by (simp add: pc_ok_def)
    have pcs2: "pc_ok s2" by (rule quiet_pc_ok [OF k(3) pcs0])
    have w0: "w = 0" using alone finish(2) by fastforce
    have st2: "may_become (st s u) (st s2 u)" "pc s2 = pc s" for u using k(3) by (simp_all add: quiet_def)
    have tP: "st s2 t = Some kProcessing" using st2(1) [of t] t(1) may_become_keeps by metis
    have job2: "worker_job w (execution_thread_pool s2) = Some t" using k(3) t(2) by (simp add: quiet_def)
    have nF: "pc s2 v \<noteq> Fetched u" for u v
      using finish(2) w0 alone [of v] st2(2) by (cases "v = 0") auto
    have q2: "st s2 u = Some kQueued \<longleftrightarrow> u \<in> set (tasks (execution_thread_pool s2))" for u
      using pcs2 nF by (simp add: pc_ok_def)
    have q1: "st s1 u = Some kQueued \<longleftrightarrow> u \<in> set (tasks (execution_thread_pool s2))" for u
      using q2 [of u] q2 [of t] tP k(5) by (cases "u = t") auto
    have s': "pc s' v = (if v = 0 then Returning else NoTask)"
      "execution_thread_pool s' = execution_thread_pool s2" "st s' = st s1" "em_core s'" for v
      using k(1,2,4) finish(1) w0 alone [of v] by auto
    have "pc_ok s'"
    proof (rule pc_ok_0)
      show "job_ok s' 0" using job2 w0 by (simp add: job_ok_def s')
    qed (simp_all add: s' q1)
    moreover have "life_step (st s u) (st s' u)" for u
    proof (cases "u = t")
      case True
      then show ?thesis using k(5) tP t(1) by (auto simp: s'(3) life_step_def)
    next
      case False
      then have "st s' u = st s2 u" using k(5) by (auto simp: s'(3))
      then show ?thesis using may_become_life [OF st2(1), of u] by simp
    qed
    ultimately show ?thesis using s'(4) by (simp add: em_inv_def)
  next
    case (return w p)
    have w0: "w = 0" using alone return(2) by fastforce
    have "pool_inv p" using return(3) core by (auto intro: tp.release_inv simp: em_core_def)
    then have core': "em_core (s\<lparr>execution_thread_pool := p\<rparr>)"
      using em_core_pool [OF core] worker_step_fields [of w _ p] return(3) by blast
    have "pc_ok s'"
      by (rule pc_ok_0)
         (use core' return alone w0 queued worker_job_moves(2) [OF return(3)] in \<open>auto simp: job_ok_def\<close>)
    then show ?thesis
      using em_core_pc [where s = "s\<lparr>execution_thread_pool := p\<rparr>" and f = "pc s'"] core' return(1)
      by (auto simp: em_inv_def)
  qed
qed

lemma em_inv_init: "em_inv ExecutionManager"
proof -
  have "pool_inv (ThreadPool 1)" by (rule pool_inv_init)
  then show ?thesis
    by (auto simp: em_inv_def em_core_def ExecutionManager_def pc_ok_def job_ok_def
      worker_job_def st_def ThreadPool_def)
qed

lemma em_reachable_inv: "em_reachable iter s \<Longrightarrow> iter_ok iter \<Longrightarrow> em_inv s"
  by (induction rule: em_reachable.induct) (auto intro: em_inv_init dest: em_step_keeps)

section \<open>Concrete runs\<close>

datatype ('b, 'f) action =
    Create status task_id 'b "task_id list"
  | Fetch nat
  | Start bool nat
  | Finish status nat "'f responses status_or"
  | Return nat

fun em_exec ::
  "(task_id set \<Rightarrow> task_id list) \<Rightarrow> ('b, 'f) action \<Rightarrow> ('b, 'f) execution_manager \<Rightarrow>
     ('b, 'f) execution_manager option"
where
  "em_exec iter (Create c t b deps) s = Some (snd (CreateTask c t b deps s))"
| "em_exec iter (Fetch w) s =
     (case worker_dequeue w (execution_thread_pool s) of
        None \<Rightarrow> None
      | Some p \<Rightarrow> (case worker_job w p of
          None \<Rightarrow> None
        | Some t \<Rightarrow> Some (s\<lparr>execution_thread_pool := p, pc := (pc s)(w := Fetched t)\<rparr>)))"
| "em_exec iter (Start left w) s =
     (case pc s w of
        Fetched t \<Rightarrow> Some ((snd (StartTask left t s))\<lparr>pc := (pc (snd (StartTask left t s)))
          (w := (if ok (fst (StartTask left t s)) then Executing t else Returning))\<rparr>)
      | _ \<Rightarrow> None)"
| "em_exec iter (Finish c w r) s =
     (case pc s w of
        Executing t \<Rightarrow> if legal_result r
          then map_option (\<lambda>x. (snd x)\<lparr>pc := (pc (snd x))(w := Returning)\<rparr>) (FinishTask iter c True t r s)
          else None
      | _ \<Rightarrow> None)"
| "em_exec iter (Return w) s =
     (if pc s w = Returning
      then map_option (\<lambda>p. s\<lparr>execution_thread_pool := p, pc := (pc s)(w := NoTask)\<rparr>)
             (worker_finish w (execution_thread_pool s))
      else None)"

fun em_run ::
  "(task_id set \<Rightarrow> task_id list) \<Rightarrow> ('b, 'f) action list \<Rightarrow> ('b, 'f) execution_manager \<Rightarrow>
     ('b, 'f) execution_manager option"
where
  "em_run iter [] s = Some s"
| "em_run iter (a # as) s = (case em_exec iter a s of None \<Rightarrow> None | Some s' \<Rightarrow> em_run iter as s')"

lemma em_exec_step: "em_exec iter a s = Some s' \<Longrightarrow> em_step iter s s'"
proof (induction iter a s rule: em_exec.induct)
  case (3 iter left w s)
  then obtain t where "pc s w = Fetched t" by (auto split: lambda_pc.splits)
  with 3 show ?case using em_step.start [of s w t left "fst (StartTask left t s)" "snd (StartTask left t s)"]
    by auto
qed (auto split: option.splits lambda_pc.splits if_splits intro: em_step.intros)

lemma em_run_reachable: "em_run iter as s = Some s' \<Longrightarrow> em_reachable iter s \<Longrightarrow> em_reachable iter s'"
proof (induction as arbitrary: s)
  case (Cons a as)
  then obtain s1 where "em_exec iter a s = Some s1" "em_run iter as s1 = Some s'"
    by (auto split: option.splits)
  then show ?case using Cons em_reachable.step em_exec_step by blast
qed simp

definition set_order :: "task_id set \<Rightarrow> task_id list" where
  "set_order S = sorted_list_of_set S"

lemma set_order_ok: "iter_ok set_order"
  by (simp add: iter_ok_def set_order_def)

abbreviation done_result :: "'f responses status_or" where
  "done_result \<equiv> Inr (StateResponse kDone)"

definition chain_run :: "(string, unit) action list" where
  "chain_run = [Create Ok 0 ''prefill'' [], Create Ok 1 ''decode'' [0], Fetch 0, Start False 0,
     Finish Ok 0 done_result, Return 0, Fetch 0, Start False 0]"

definition chain_state :: "(string, unit) execution_manager" where
  "chain_state = the (em_run set_order chain_run ExecutionManager)"

lemmas em_eval = em_exec.simps em_run.simps CreateTask_def QueueTask_def StartTask_def FinishTask_def
  ConfirmTaskState_def assign_or_return_def Let_def insert_task_def update_info_def notify_def
  record_result_def Schedule_def push_task_def add_worker_def worker_dequeue_def worker_finish_def
  worker_job_def ExecutionManager_def ThreadPool_def legal_result_def set_order_def fail_follower_def

lemma chain_state_run: "em_run set_order chain_run ExecutionManager = Some chain_state"
  by (simp add: chain_state_def chain_run_def em_eval)

section \<open>Properties\<close>

text \<open>C13.
  The life of a task. Along every step of a reachable execution manager, the state of a task
  changes only from absent to created, queued or dependent-task-failed, from created to queued or
  dependent-task-failed, from queued to processing, and from processing to done,
  maximum-reached or failed; so no end state is ever left and no task is lost from the table.\<close>

theorem task_life_cycle:
  assumes "em_reachable iter s" "iter_ok iter" "em_step iter s s'"
  shows "life_step (st s t) (st s' t)"
  using em_step_keeps [OF assms(3) em_reachable_inv [OF assms(1,2)] assms(2)] by blast

lemma chain_reachable: "em_reachable set_order chain_state"
  by (rule em_run_reachable [OF chain_state_run em_reachable.init])

lemma chain_executing: "pc chain_state 0 = Executing 1"
  by (simp add: chain_state_def chain_run_def em_eval)

lemma task_life_cycle_witness:
  "st chain_state 1 = Some kProcessing \<and>
   life_step (st chain_state 1) (st (snd (CreateTask Ok 2 ''next'' [1] chain_state)) 1)"
proof
  show "st chain_state 1 = Some kProcessing"
    by (simp add: st_def chain_state_def chain_run_def em_eval)
  show "life_step (st chain_state 1) (st (snd (CreateTask Ok 2 ''next'' [1] chain_state)) 1)"
    by (rule task_life_cycle [OF chain_reachable set_order_ok em_step.create])
qed

text \<open>C11.
  Dependencies come first: in every reachable state, a task that has been queued (and so every
  task that is running or has ended by itself) has all the dependencies it was created with among
  the tasks whose function has returned responses, and no task is ever handed to the thread pool
  twice.\<close>

theorem dependencies_first:
  assumes "em_reachable iter s" "iter_ok iter" "st s t = Some x"
    "x \<in> {kQueued, kProcessing, kDone, kMaxNumTokensReached, kFailed}"
  shows "orig_deps s t \<subseteq> returned_ok s \<and> count_list (accepted (execution_thread_pool s)) t = 1"
proof -
  have core: "em_core s" using em_reachable_inv [OF assms(1,2)] by (simp add: em_inv_def)
  have x: "scheduled x" using assms(4) by (simp add: scheduled_def)
  obtain i where i: "task_lookup s t = Some i" "task_state i = x" using assms(3) by (auto simp: st_def)
  have "t \<in> set (accepted (execution_thread_pool s))" "distinct (accepted (execution_thread_pool s))"
    using core assms(3) x by (auto simp: em_core_def)
  then have "count_list (accepted (execution_thread_pool s)) t = 1"
    by (simp add: count_list_distinct)
  with em_core_info [OF core i(1)] i(2) x show ?thesis by (simp add: info_ok_def)
qed

lemma dependencies_first_witness:
  "orig_deps chain_state 1 = {0} \<and> 0 \<in> returned_ok chain_state"
proof -
  have d: "orig_deps chain_state 1 = {0}"
    by (simp add: chain_state_def chain_run_def em_eval)
  have "st chain_state 1 = Some kProcessing"
    by (simp add: st_def chain_state_def chain_run_def em_eval)
  from dependencies_first [OF chain_reachable set_order_ok this] d show ?thesis by simp
qed

text \<open>The worker is never stuck inside the manager: in every reachable state, the task it has fetched
  can be started (StartTask finds it queued, with its function and its callback); FinishTask
  returns for every result, its recursion through the followers included; and when FinishTask
  succeeds with an error result, exactly the tasks waiting behind the task, transitively, become
  dependent-task-failed, the task itself becomes failed, and no other task changes state.\<close>

theorem worker_never_stuck:
  assumes "em_reachable iter s" "iter_ok iter"
  shows "(pc s w = Fetched t \<longrightarrow> (\<exists>b. fst (StartTask left t s) = Inr b)) \<and>
    (pc s w = Executing t \<longrightarrow>
       FinishTask iter c True t r s \<noteq> None \<and>
       (\<forall>e s'. FinishTask iter c True t (Inl e) s = Some (Ok, s') \<longrightarrow>
          st s' = (\<lambda>x. if x = t then Some kFailed
                       else if (t, x) \<in> (waits s)\<^sup>+ then Some kDependentTaskFailed else st s x)))"
proof -
  have core: "em_core s" and pcs: "pc_ok s"
    using em_reachable_inv [OF assms] by (simp_all add: em_inv_def)
  have "\<exists>b. fst (StartTask left t s) = Inr b" if "pc s w = Fetched t"
  proof -
    have "st s t = Some kQueued" using pc_ok_at [OF pcs, of w] that by (simp add: job_ok_def)
    from StartTask_keeps [OF core this, of left] show ?thesis by (metis prod.collapse)
  qed
  moreover have "st s' = (\<lambda>x. if x = t then Some kFailed
      else if (t, x) \<in> (waits s)\<^sup>+ then Some kDependentTaskFailed else st s x)"
    if h: "pc s w = Executing t" "FinishTask iter c True t (Inl e) s = Some (Ok, s')" for e s'
  proof -
    have t: "st s t = Some kProcessing" using pc_ok_at [OF pcs, of w] h(1) by (simp add: job_ok_def)
    then have found: "task_lookup s t \<noteq> None" by (auto simp: st_def)
    have "ConfirmTaskState t kProcessing False s = (Ok, s)"
      using t by (auto simp: ConfirmTaskState_def st_def)
    with h(2) obtain fs where fs: "FollowingWaitingTasks iter (Suc (num_created s)) s t = Some (Inr fs)"
      "s' = set_state t kFailed (notify t (Inl e) (fold fail_follower (iter fs) s))"
      by (auto simp: FinishTask_def Let_def record_result_def split: option.splits sum.splits)
    have S: "fs = {f. (t, f) \<in> (waits s)\<^sup>+}"
      by (rule FollowingWaitingTasks_result [OF core assms(2) found fs(1)])
    have it: "set (iter fs) = fs" "distinct (iter fs)"
      using S waits_finite [OF core] assms(2) by (auto simp: iter_ok_def)
    have "\<forall>f \<in> set (iter fs). st s f = Some kCreated" using S it(1) waits_created by auto
    from fail_followers_keep [OF core it(2) this]
    have k: "st (fold fail_follower (iter fs) s) = (\<lambda>x. if x \<in> fs then Some kDependentTaskFailed else st s x)"
      by (simp add: it(1))
    have "(t, t) \<notin> (waits s)\<^sup>+" using waits_created t by fastforce
    then have "st (fold fail_follower (iter fs) s) t = Some kProcessing" using k S t by simp
    then show ?thesis using k S by (auto simp: fs(2) fun_eq_iff st_def)
  qed
  ultimately show ?thesis using FinishTask_returns [OF core assms(2)] by blast
qed

lemma worker_never_stuck_witness:
  "pc chain_state 0 = Executing 1 \<and> FinishTask set_order Ok True 1 (Inl Internal) chain_state \<noteq> None"
  using worker_never_stuck [OF chain_reachable set_order_ok] chain_executing by blast

text \<open>The identifiers given out by GetNewTaskId are distinct until the 32-bit counter has gone all
  the way around.\<close>

theorem new_task_ids_unique:
  assumes "i < j" "j < 2 ^ 32"
  shows "fst (GetNewTaskId (((\<lambda>s. snd (GetNewTaskId s)) ^^ i) s)) \<noteq>
         fst (GetNewTaskId (((\<lambda>s. snd (GetNewTaskId s)) ^^ j) s))"
proof -
  have n: "next_task_id (((\<lambda>s. snd (GetNewTaskId s)) ^^ k) s) = next_task_id s + of_nat k" for k
    by (induction k) (simp_all add: GetNewTaskId_def)
  have "(of_nat i :: task_id) \<noteq> of_nat j"
  proof
    assume "(of_nat i :: task_id) = of_nat j"
    then have "unat (of_nat i :: task_id) = unat (of_nat j :: task_id)" by simp
    moreover have "take_bit 32 i = i" "take_bit 32 j = j"
      using assms by (simp_all add: take_bit_nat_eq_self)
    ultimately show False using assms(1) by (simp add: unsigned_of_nat)
  qed
  then show ?thesis using n by (simp add: GetNewTaskId_def)
qed

lemma new_task_ids_unique_witness:
  "fst (GetNewTaskId ((\<lambda>s. snd (GetNewTaskId s)) (ExecutionManager :: (string, unit) execution_manager))) \<noteq>
   Inr 0"
  using new_task_ids_unique [of 0 1 "ExecutionManager :: (string, unit) execution_manager"]
  by (simp add: GetNewTaskId_def ExecutionManager_def)

section \<open>Tasks that never end\<close>

definition late_run :: "(string, unit) action list" where
  "late_run = [Create Ok 0 ''prefill'' [], Fetch 0, Start False 0, Finish Ok 0 done_result, Return 0,
     Create Ok 1 ''decode'' [0]]"

definition late_state :: "(string, unit) execution_manager" where
  "late_state = the (em_run set_order late_run ExecutionManager)"

lemma late_reachable: "em_reachable set_order late_state"
proof -
  have "em_run set_order late_run ExecutionManager = Some late_state"
    by (simp add: late_state_def late_run_def em_eval)
  from em_run_reachable [OF this em_reachable.init] show ?thesis .
qed

text \<open>A task that is created after its dependency is already done is never queued: CreateTask keeps
  the finished dependency in dependent_tasks but registers the task with no one, so it stays
  created with nothing left to run; WaitUntilAllDone reports Ok while WaitUntilDone on the task
  can only time out.\<close>

theorem dependency_already_done_is_never_queued:
  "em_reachable set_order late_state \<and>
   st late_state 0 = Some kDone \<and> st late_state 1 = Some kCreated \<and>
   following_tasks (info_at late_state 0) = {} \<and> following_tasks (info_at late_state 1) = {} \<and>
   dependent_tasks (info_at late_state 1) = {0} \<and>
   tasks (execution_thread_pool late_state) = [] \<and> (\<forall>w. pc late_state w = NoTask) \<and>
   WaitUntilAllDone late_state = Ok \<and> WaitUntilTaskDone 1 late_state = Inl DeadlineExceeded"
  using late_reachable
  by (auto simp: late_state_def late_run_def em_eval st_def WaitUntilAllDone_def WaitUntilDone_def
      is_done_def WaitUntilTaskDone_def task_done_def)

definition diamond_run :: "(string, unit) action list" where
  "diamond_run = [Create Ok 0 ''prefill A'' [], Create Ok 1 ''prefill B'' [],
     Create Ok 2 ''decode'' [0, 1], Fetch 0, Start False 0, Finish Ok 0 (Inl Internal), Return 0,
     Fetch 0, Start False 0, Finish Ok 0 done_result, Return 0]"

definition diamond_state :: "(string, unit) execution_manager" where
  "diamond_state = the (em_run set_order diamond_run ExecutionManager)"

text \<open>A task whose follower has been cancelled by another dependency never ends: with decode waiting
  for two prefills of which the first fails, the second one, although it returns its responses,
  stops in the loop of FinishTask at the follower that is no longer created, gets an error on its
  callback, and stays processing for ever with the pool idle.\<close>

theorem sibling_of_failed_dependency_never_ends:
  "em_run set_order diamond_run ExecutionManager = Some diamond_state \<and>
   st diamond_state 0 = Some kFailed \<and> st diamond_state 2 = Some kDependentTaskFailed \<and>
   1 \<in> returned_ok diamond_state \<and> st diamond_state 1 = Some kProcessing \<and>
   last (callbacks diamond_state) = (1, Inl InvalidArgument) \<and>
   (\<forall>w. pc diamond_state w = NoTask) \<and>
   WaitUntilAllDone diamond_state = Ok \<and> WaitUntilTaskDone 1 diamond_state = Inl DeadlineExceeded"
  by (simp add: diamond_state_def diamond_run_def em_eval st_def WaitUntilAllDone_def WaitUntilDone_def
      is_done_def WaitUntilTaskDone_def task_done_def)

definition maxed_run :: "(string, unit) action list" where
  "maxed_run = [Create Ok 0 ''decode'' [], Fetch 0, Start False 0,
     Finish Ok 0 (Inr (StateResponse kMaxNumTokensReached)), Return 0,
     Create Ok 1 ''next'' [0]]"

definition maxed_state :: "(string, unit) execution_manager" where
  "maxed_state = the (em_run set_order maxed_run ExecutionManager)"

text \<open>A decode that reached the maximum number of tokens has ended (IsTaskEndState), but
  WaitUntilDone on it can only time out, since its condition leaves that state out; and a task
  created with it as a dependency waits for a finish that has already happened.\<close>

theorem max_tokens_is_never_waited_for:
  "em_run set_order maxed_run ExecutionManager = Some maxed_state \<and>
   (\<exists>x. st maxed_state 0 = Some x \<and> IsTaskEndState x) \<and>
   WaitUntilTaskDone 0 maxed_state = Inl DeadlineExceeded \<and>
   WaitUntilAllDone maxed_state = Ok \<and>
   st maxed_state 1 = Some kCreated \<and> (\<forall>w. pc maxed_state w = NoTask)"
  by (simp add: maxed_state_def maxed_run_def em_eval st_def WaitUntilAllDone_def WaitUntilDone_def
      is_done_def WaitUntilTaskDone_def task_done_def IsTaskEndState_def)

end
