(* ===== verification/Benchmark.thy ===== *)
theory Benchmark
  imports Prelude Complex_Main
begin

text \<open>
  The benchmark clock of a session: class \<^verbatim>\<open>BenchmarkInfo\<close> of
  \<^verbatim>\<open>runtime/engine/io_types.{h,cc}\<close>. The time read by \<^verbatim>\<open>absl::Now\<close> is an argument (in ticks);
  the conversion of a duration to seconds (abseil) is a parameter, and the rates are exact
  quotients. Turn indices are naturals: the 32-bit counter cannot be exhausted by turns.
\<close>

section \<open>State\<close>

type_synonym turn_data = "nat \<times> int"

record benchmark_info =
  num_prefill_tokens :: int
  num_decode_tokens :: int
  start_time_map :: "string \<rightharpoonup> int"
  mark_time_map :: "string \<rightharpoonup> int"
  prefill_turn_index :: nat
  decode_turn_index :: nat
  init_phases :: "string \<rightharpoonup> int"
  mark_durations :: "string \<rightharpoonup> int"
  prefill_turns :: "turn_data list"
  decode_turns :: "turn_data list"

definition BenchmarkInfo :: "int \<Rightarrow> int \<Rightarrow> benchmark_info" where
  "BenchmarkInfo np nd = \<lparr>num_prefill_tokens = np, num_decode_tokens = nd,
     start_time_map = (\<lambda>_. None), mark_time_map = (\<lambda>_. None),
     prefill_turn_index = 0, decode_turn_index = 0, init_phases = (\<lambda>_. None),
     mark_durations = (\<lambda>_. None), prefill_turns = [], decode_turns = []\<rparr>"

section \<open>Recording\<close>

definition TimeInitPhaseStart :: "string \<Rightarrow> int \<Rightarrow> (benchmark_info, unit) op" where
  "TimeInitPhaseStart name now b =
     (if start_time_map b name \<noteq> None then (Inl Internal, b)
      else (Ok, b\<lparr>start_time_map := (start_time_map b)(name \<mapsto> now)\<rparr>))"

definition TimeInitPhaseEnd :: "string \<Rightarrow> int \<Rightarrow> (benchmark_info, unit) op" where
  "TimeInitPhaseEnd name now b =
     (case start_time_map b name of
        None \<Rightarrow> (Inl Internal, b)
      | Some t \<Rightarrow> (Ok, b\<lparr>init_phases := (init_phases b)(name \<mapsto> now - t)\<rparr>))"

definition TimeMarkDelta :: "string \<Rightarrow> int \<Rightarrow> (benchmark_info, unit) op" where
  "TimeMarkDelta name now b =
     (let b = (case mark_time_map b name of
                 None \<Rightarrow> b
               | Some t \<Rightarrow> b\<lparr>mark_durations := (mark_durations b)(name \<mapsto> now - t)\<rparr>)
      in (Ok, b\<lparr>mark_time_map := (mark_time_map b)(name \<mapsto> now)\<rparr>))"

definition prefill_phase :: "benchmark_info \<Rightarrow> string" where
  "prefill_phase b = ''prefill:'' @ decimal (prefill_turn_index b)"

definition decode_phase :: "benchmark_info \<Rightarrow> string" where
  "decode_phase b = ''decode:'' @ decimal (decode_turn_index b)"

definition TimePrefillTurnStart :: "int \<Rightarrow> (benchmark_info, unit) op" where
  "TimePrefillTurnStart now b =
     (if start_time_map b (prefill_phase b) \<noteq> None then (Inl Internal, b)
      else (Ok, b\<lparr>start_time_map := (start_time_map b)(prefill_phase b \<mapsto> now)\<rparr>))"

definition TimePrefillTurnEnd :: "nat \<Rightarrow> int \<Rightarrow> (benchmark_info, unit) op" where
  "TimePrefillTurnEnd n now b =
     (case start_time_map b (prefill_phase b) of
        None \<Rightarrow> (Inl Internal, b)
      | Some t \<Rightarrow> (Ok, b\<lparr>prefill_turns := prefill_turns b @ [(n, now - t)],
                        prefill_turn_index := prefill_turn_index b + 1\<rparr>))"

definition TimeDecodeTurnStart :: "int \<Rightarrow> (benchmark_info, unit) op" where
  "TimeDecodeTurnStart now b =
     (if start_time_map b (decode_phase b) \<noteq> None then (Inl Internal, b)
      else (Ok, b\<lparr>start_time_map := (start_time_map b)(decode_phase b \<mapsto> now)\<rparr>))"

definition TimeDecodeTurnEnd :: "nat \<Rightarrow> int \<Rightarrow> (benchmark_info, unit) op" where
  "TimeDecodeTurnEnd n now b =
     (case start_time_map b (decode_phase b) of
        None \<Rightarrow> (Inl Internal, b)
      | Some t \<Rightarrow> (Ok, b\<lparr>decode_turns := decode_turns b @ [(n, now - t)],
                        decode_turn_index := decode_turn_index b + 1\<rparr>))"

section \<open>Metrics\<close>

text \<open>An index past the end of \<^verbatim>\<open>GetPrefillTurn\<close> is undefined: \<open>None\<close>.\<close>

definition GetPrefillTurn :: "int \<Rightarrow> benchmark_info \<Rightarrow> turn_data option" where
  "GetPrefillTurn i b =
     (if 0 \<le> i \<and> nat i < length (prefill_turns b) then Some (prefill_turns b ! nat i) else None)"

definition GetDecodeTurn :: "int \<Rightarrow> benchmark_info \<Rightarrow> turn_data option" where
  "GetDecodeTurn i b =
     (if 0 \<le> i \<and> nat i < length (decode_turns b) then Some (decode_turns b ! nat i) else None)"

definition GetTotalPrefillTurns :: "benchmark_info \<Rightarrow> nat" where
  "GetTotalPrefillTurns b = length (prefill_turns b)"

definition GetTotalDecodeTurns :: "benchmark_info \<Rightarrow> nat" where
  "GetTotalDecodeTurns b = length (decode_turns b)"

definition GetPrefillTokensPerSec :: "(int \<Rightarrow> real) \<Rightarrow> int \<Rightarrow> benchmark_info \<Rightarrow> real" where
  "GetPrefillTokensPerSec seconds i b =
     (if i < 0 \<or> nat i \<ge> length (prefill_turns b) then 0
      else let turn = prefill_turns b ! nat i
           in if snd turn \<le> 0 then 0
              else if seconds (snd turn) \<le> 0 then 0
              else real (fst turn) / seconds (snd turn))"

definition GetDecodeTokensPerSec :: "(int \<Rightarrow> real) \<Rightarrow> int \<Rightarrow> benchmark_info \<Rightarrow> real" where
  "GetDecodeTokensPerSec seconds i b =
     (if i < 0 \<or> nat i \<ge> length (decode_turns b) then 0
      else let turn = decode_turns b ! nat i
           in if snd turn \<le> 0 then 0
              else if seconds (snd turn) \<le> 0 then 0
              else real (fst turn) / seconds (snd turn))"

text \<open>\<open>per_token\<close> is abseil's division of a duration by an integer.\<close>

definition GetTimeToFirstToken ::
  "(int \<Rightarrow> real) \<Rightarrow> (int \<Rightarrow> nat \<Rightarrow> int) \<Rightarrow> benchmark_info \<Rightarrow> real"
where
  "GetTimeToFirstToken seconds per_token b =
     (if prefill_turns b = [] \<or> decode_turns b = [] \<or> fst (hd (prefill_turns b)) = 0 \<or>
         fst (hd (decode_turns b)) = 0 then 0
      else seconds (per_token (snd (hd (decode_turns b))) (fst (hd (decode_turns b)))) +
           seconds (snd (hd (prefill_turns b))))"

section \<open>A clock of turns\<close>

text \<open>
  What the tasks rely on: a turn can be started when none is open, and closing it records its
  size and duration. Prefill and decode turns are the two instances.
\<close>

locale turn_clock =
  fixes inv :: "'s \<Rightarrow> bool"
    and open_since :: "'s \<Rightarrow> int option"
    and turns :: "'s \<Rightarrow> turn_data list"
    and start :: "int \<Rightarrow> 's \<Rightarrow> status \<times> 's"
    and stop :: "nat \<Rightarrow> int \<Rightarrow> 's \<Rightarrow> status \<times> 's"
  assumes start_ok: "inv s \<Longrightarrow> open_since s = None \<Longrightarrow>
          fst (start now s) = Ok \<and> inv (snd (start now s)) \<and>
          open_since (snd (start now s)) = Some now \<and> turns (snd (start now s)) = turns s"
    and start_twice: "open_since s = Some t \<Longrightarrow> start now s = (Inl Internal, s)"
    and stop_ok: "inv s \<Longrightarrow> open_since s = Some t \<Longrightarrow>
          fst (stop n now s) = Ok \<and> inv (snd (stop n now s)) \<and>
          open_since (snd (stop n now s)) = None \<and> turns (snd (stop n now s)) = turns s @ [(n, now - t)]"
    and stop_unstarted: "open_since s = None \<Longrightarrow> stop n now s = (Inl Internal, s)"
begin

definition turn :: "int \<times> nat \<times> int \<Rightarrow> 's \<Rightarrow> 's" where
  "turn x s = snd (stop (fst (snd x)) (snd (snd x)) (snd (start (fst x) s)))"

lemma turn_records:
  assumes "inv s" "open_since s = None"
  shows "inv (turn x s) \<and> open_since (turn x s) = None \<and>
    turns (turn x s) = turns s @ [(fst (snd x), snd (snd x) - fst x)]"
  using start_ok [OF assms, of "fst x"] stop_ok [of "snd (start (fst x) s)" "fst x"]
  by (simp add: turn_def)

lemma turns_record:
  "inv s \<Longrightarrow> open_since s = None \<Longrightarrow>
     inv (fold turn xs s) \<and> open_since (fold turn xs s) = None \<and>
     turns (fold turn xs s) = turns s @ map (\<lambda>x. (fst (snd x), snd (snd x) - fst x)) xs"
  by (induction xs arbitrary: s) (simp_all add: turn_records)

end

text \<open>The keys of future turns are free: the map of start times is never cleared.\<close>

definition bench_ok :: "benchmark_info \<Rightarrow> bool" where
  "bench_ok b \<longleftrightarrow>
     (\<forall>k > prefill_turn_index b. start_time_map b (''prefill:'' @ decimal k) = None) \<and>
     (\<forall>k > decode_turn_index b. start_time_map b (''decode:'' @ decimal k) = None) \<and>
     length (prefill_turns b) = prefill_turn_index b \<and> length (decode_turns b) = decode_turn_index b"

lemma bench_ok_init: "bench_ok (BenchmarkInfo np nd)"
  by (simp add: bench_ok_def BenchmarkInfo_def)

interpretation prefill_clock: turn_clock bench_ok "\<lambda>b. start_time_map b (prefill_phase b)"
    prefill_turns TimePrefillTurnStart TimePrefillTurnEnd
  by unfold_locales
     (auto simp: bench_ok_def TimePrefillTurnStart_def TimePrefillTurnEnd_def prefill_phase_def)

interpretation decode_clock: turn_clock bench_ok "\<lambda>b. start_time_map b (decode_phase b)"
    decode_turns TimeDecodeTurnStart TimeDecodeTurnEnd
  by unfold_locales
     (auto simp: bench_ok_def TimeDecodeTurnStart_def TimeDecodeTurnEnd_def decode_phase_def)

text \<open>A benchmark records every prefill turn: after any sequence of turns, each started and ended in
  that order, the list of turns holds the number of tokens and the elapsed time of each, in order;
  starting twice without an end, or ending without a start, is an Internal error that changes
  nothing.\<close>

theorem benchmark_records_turns:
  assumes "bench_ok b" "start_time_map b (prefill_phase b) = None"
  shows "prefill_turns (fold (\<lambda>(t1, n, t2) b. snd (TimePrefillTurnEnd n t2 (snd (TimePrefillTurnStart t1 b)))) xs b)
       = prefill_turns b @ map (\<lambda>(t1, n, t2). (n, t2 - t1)) xs \<and>
    TimePrefillTurnEnd n now b = (Inl Internal, b) \<and>
    TimePrefillTurnStart now (snd (TimePrefillTurnStart t b)) = (Inl Internal, snd (TimePrefillTurnStart t b))"
proof (intro conjI)
  have "(\<lambda>(t1, n, t2) b. snd (TimePrefillTurnEnd n t2 (snd (TimePrefillTurnStart t1 b)))) = prefill_clock.turn"
    by (auto simp: prefill_clock.turn_def fun_eq_iff)
  then show "prefill_turns (fold (\<lambda>(t1, n, t2) b. snd (TimePrefillTurnEnd n t2 (snd (TimePrefillTurnStart t1 b)))) xs b)
       = prefill_turns b @ map (\<lambda>(t1, n, t2). (n, t2 - t1)) xs"
    using prefill_clock.turns_record [OF assms, of xs] by (simp add: case_prod_beta')
  show "TimePrefillTurnEnd n now b = (Inl Internal, b)"
    by (rule prefill_clock.stop_unstarted [OF assms(2)])
  show "TimePrefillTurnStart now (snd (TimePrefillTurnStart t b)) = (Inl Internal, snd (TimePrefillTurnStart t b))"
    using prefill_clock.start_ok [OF assms, of t] by (intro prefill_clock.start_twice) simp
qed

lemma benchmark_records_turns_witness:
  "TimePrefillTurnEnd 4 10 (BenchmarkInfo 0 0) = (Inl Internal, BenchmarkInfo 0 0) \<and>
   prefill_turns (snd (TimePrefillTurnEnd 4 10 (snd (TimePrefillTurnStart 3 (BenchmarkInfo 0 0))))) = [(4, 7)]"
  using benchmark_records_turns [OF bench_ok_init [of 0 0], where xs = "[(3, 4, 10)]" and n = 4 and now = 10]
  by (simp add: BenchmarkInfo_def)

end
