(* ===== verification/ConstrainedDecoding.thy ===== *)
theory ConstrainedDecoding
  imports Prelude
begin

text \<open>
  Constrained decoding: \<^verbatim>\<open>runtime/components/constrained_decoding\<close>. A constraint is the
  abstract class \<^verbatim>\<open>Constraint\<close> as a record of its methods, over states \<open>'c\<close>; the decoder
  keeps one state per batch item. Logits are a list of values with the dimensions of their
  tensor; \<open>lowest\<close> is the least float.
\<close>

section \<open>Constraints\<close>

record 'c constraint =
  Start :: 'c
  IsEnded :: "'c \<Rightarrow> bool"
  GetVocabularySize :: int
  ComputeNext :: "'c \<Rightarrow> int \<Rightarrow> 'c status_or"
  ComputeBitmap :: "'c \<Rightarrow> (int \<Rightarrow> bool) status_or"

text \<open>\<^verbatim>\<open>FakeConstraint\<close>: the constraint that allows exactly one sequence of tokens. Its states
  are indices; reading the token at the end index is undefined in the code and never happens in
  a decoder, which restarts ended states; the model reads the empty bitmap there.\<close>

definition FakeConstraint :: "int list \<Rightarrow> int \<Rightarrow> nat constraint" where
  "FakeConstraint toks vocab = \<lparr>Start = 0, IsEnded = (\<lambda>i. i = length toks),
     GetVocabularySize = vocab,
     ComputeNext = (\<lambda>i _. if i \<ge> length toks then Inl InvalidArgument else Inr (i + 1)),
     ComputeBitmap = (\<lambda>i. Inr (\<lambda>t. i < length toks \<and> t = toks ! i))\<rparr>"

section \<open>The decoder\<close>

type_synonym 'c decoder_states = "'c list"

definition ConstrainedDecoder :: "'c constraint \<Rightarrow> nat \<Rightarrow> 'c decoder_states" where
  "ConstrainedDecoder c batch_size = replicate batch_size (Start c)"

text \<open>The loop of \<^verbatim>\<open>UpdateConstraintState\<close>: states before an error are already advanced.\<close>

fun update_states :: "'c constraint \<Rightarrow> int list \<Rightarrow> ('c decoder_states, unit) op" where
  "update_states c (t # ts) (s # ss) =
     (case ComputeNext c s t of
        Inl e \<Rightarrow> (Inl e, s # ss)
      | Inr s' \<Rightarrow>
          let s'' = (if IsEnded c s' then Start c else s');
              rest = update_states c ts ss
          in (fst rest, s'' # snd rest))"
| "update_states c ts ss = (Ok, ss)"

definition UpdateConstraintState :: "'c constraint \<Rightarrow> int list \<Rightarrow> ('c decoder_states, unit) op" where
  "UpdateConstraintState c next_token_ids ss =
     (if length next_token_ids \<noteq> length ss then (Inl Internal, ss)
      else update_states c next_token_ids ss)"

text \<open>One row of the logits, and the loop over the rows.\<close>

definition mask_row :: "'f \<Rightarrow> (int \<Rightarrow> bool) \<Rightarrow> nat \<Rightarrow> nat \<Rightarrow> 'f list \<Rightarrow> 'f list" where
  "mask_row lowest allowed b vocab_size logits =
     map (\<lambda>(k, x). if b * vocab_size \<le> k \<and> k < b * vocab_size + vocab_size \<and>
                      \<not> allowed (int (k - b * vocab_size)) then lowest else x)
         (enumerate 0 logits)"

fun mask_rows ::
  "'c constraint \<Rightarrow> 'f \<Rightarrow> nat \<Rightarrow> nat \<Rightarrow> 'c decoder_states \<Rightarrow> ('f list, unit) op"
where
  "mask_rows c lowest b vocab_size [] logits = (Ok, logits)"
| "mask_rows c lowest b vocab_size (s # ss) logits =
     (case ComputeBitmap c s of
        Inl e \<Rightarrow> (Inl e, logits)
      | Inr allowed \<Rightarrow>
          mask_rows c lowest (b + 1) vocab_size ss (mask_row lowest allowed b vocab_size logits))"

definition MaskLogits ::
  "'c constraint \<Rightarrow> 'f \<Rightarrow> int list \<Rightarrow> 'c decoder_states \<Rightarrow> ('f list, unit) op"
where
  "MaskLogits c lowest dims ss logits =
     (case dims of
        [batch_size, sequence_length, vocab_size] \<Rightarrow>
          if sequence_length \<noteq> 1 then (Inl Internal, logits)
          else if vocab_size > GetVocabularySize c then (Inl Internal, logits)
          else if batch_size \<noteq> int (length ss) then (Inl Internal, logits)
          else mask_rows c lowest 0 (nat vocab_size) ss logits
      | _ \<Rightarrow> (Inl Internal, logits))"

section \<open>What the decoder guarantees\<close>

text \<open>
  The interface a decode step uses: the masked logits only offer tokens the current states
  allow, and no state is ended when the logits are masked.
\<close>

lemma length_mask_row [simp]: "length (mask_row lowest a b v xs) = length xs"
  by (simp add: mask_row_def)

lemma nth_mask_row:
  "k < length xs \<Longrightarrow> mask_row lowest a b v xs ! k =
     (if b * v \<le> k \<and> k < b * v + v \<and> \<not> a (int (k - b * v)) then lowest else xs ! k)"
  by (simp add: mask_row_def nth_enumerate_eq)

lemma mask_rows_ok:
  assumes "mask_rows c lowest b v ss xs = (Ok, ys)"
  shows "length ys = length xs \<and>
    (\<forall>j < length ss. \<exists>a. ComputeBitmap c (ss ! j) = Inr a \<and>
       (\<forall>i < v. (b + j) * v + i < length xs \<longrightarrow>
          ys ! ((b + j) * v + i) = (if a (int i) then xs ! ((b + j) * v + i) else lowest))) \<and>
    (\<forall>k < length xs. k < b * v \<longrightarrow> ys ! k = xs ! k)"
  using assms
proof (induction ss arbitrary: b xs)
  case (Cons s ss)
  then obtain a where a: "ComputeBitmap c s = Inr a"
    and r: "mask_rows c lowest (b + 1) v ss (mask_row lowest a b v xs) = (Ok, ys)"
    by (auto split: sum.splits)
  let ?xs = "mask_row lowest a b v xs"
  note ih = Cons.IH [OF r, simplified]
  have later: "?xs ! ((b + 1 + j) * v + i) = xs ! ((b + 1 + j) * v + i)"
    if "(b + 1 + j) * v + i < length xs" for i j
    using that by (subst nth_mask_row) (simp_all add: algebra_simps)
  have first: "ys ! (b * v + i) = (if a (int i) then xs ! (b * v + i) else lowest)"
    if "i < v" "b * v + i < length xs" for i
    using ih that by (simp add: nth_mask_row algebra_simps)
  show ?case
  proof (intro conjI allI impI)
    show "length ys = length xs" using ih by simp
  next
    fix j assume j: "j < length (s # ss)"
    show "\<exists>a. ComputeBitmap c ((s # ss) ! j) = Inr a \<and>
       (\<forall>i < v. (b + j) * v + i < length xs \<longrightarrow>
          ys ! ((b + j) * v + i) = (if a (int i) then xs ! ((b + j) * v + i) else lowest))"
    proof (cases j)
      case 0
      then show ?thesis using a first by auto
    next
      case (Suc k)
      then have "k < length ss" using j by simp
      obtain a' where a': "ComputeBitmap c (ss ! k) = Inr a'" "\<forall>i < v. (b + 1 + k) * v + i < length xs \<longrightarrow>
          ys ! ((b + 1 + k) * v + i) = (if a' (int i) then ?xs ! ((b + 1 + k) * v + i) else lowest)"
        using conjunct1 [OF conjunct2 [OF Cons.IH [OF r]]] \<open>k < length ss\<close> by (metis length_mask_row)
      show ?thesis
      proof (intro exI [of _ a'] conjI allI impI)
        show "ComputeBitmap c ((s # ss) ! j) = Inr a'" using a'(1) Suc by simp
        fix i assume i: "i < v" "(b + j) * v + i < length xs"
        have jk: "b + j = b + 1 + k" using Suc by simp
        show "ys ! ((b + j) * v + i) = (if a' (int i) then xs ! ((b + j) * v + i) else lowest)"
          using a'(2) i later [of k i] unfolding jk by simp
      qed
    qed
  next
    fix k assume "k < length xs" "k < b * v"
    then show "ys ! k = xs ! k" using ih by (simp add: nth_mask_row)
  qed
qed simp

lemma update_states_length: "length (snd (update_states c ts ss)) = length ss"
  by (induction c ts ss rule: update_states.induct) (auto simp: Let_def split: sum.splits)

lemma update_states_not_ended:
  "\<not> IsEnded c (Start c) \<Longrightarrow> \<forall>s \<in> set ss. \<not> IsEnded c s \<Longrightarrow>
     \<forall>s \<in> set (snd (update_states c ts ss)). \<not> IsEnded c s"
  by (induction c ts ss rule: update_states.induct) (auto simp: Let_def split: sum.splits)

text \<open>C28.
  When MaskLogits succeeds, every logit of a token that the constraint does not allow in the
  item's current state has become the lowest finite float (not -inf, which the header names), and
  every other logit of the batch is untouched.\<close>

theorem mask_logits_forbids_exactly:
  assumes "MaskLogits c lowest [B, L, V] ss logits = (Ok, masked)"
    "b < length ss" "i < nat V" "length logits = length ss * nat V"
  shows "\<exists>allowed. ComputeBitmap c (ss ! b) = Inr allowed \<and> length masked = length logits \<and>
    masked ! (b * nat V + i) = (if allowed (int i) then logits ! (b * nat V + i) else lowest)"
proof -
  have "mask_rows c lowest 0 (nat V) ss logits = (Ok, masked)"
    using assms(1) by (auto simp: MaskLogits_def split: if_splits)
  note m = mask_rows_ok [OF this]
  have "b * nat V + i < Suc b * nat V" using assms(3) by simp
  also have "\<dots> \<le> length ss * nat V" using assms(2) by (intro mult_le_mono1) simp
  finally have "b * nat V + i < length logits" using assms(4) by simp
  then show ?thesis using conjunct1 [OF conjunct2 [OF m]] conjunct1 [OF m] assms(2,3)
    by (metis add_0)
qed

lemma mask_logits_forbids_exactly_witness:
  "MaskLogits (FakeConstraint [2] 3) (0::int) [1, 1, 3] [0] [7, 8, 9] = (Ok, [0, 0, 9]) \<and>
   (\<exists>allowed. ComputeBitmap (FakeConstraint [2] 3) 0 = Inr allowed \<and> \<not> allowed 1)"
proof
  show m: "MaskLogits (FakeConstraint [2] 3) (0::int) [1, 1, 3] [0] [7, 8, 9] = (Ok, [0, 0, 9])"
    by (simp add: MaskLogits_def FakeConstraint_def mask_row_def)
  obtain allowed where a: "ComputeBitmap (FakeConstraint [2] 3) 0 = Inr allowed"
    "([0, 0, 9::int]) ! (0 * nat 3 + 1) = (if allowed (int 1) then [7, 8, 9] ! (0 * nat 3 + 1) else 0)"
    using mask_logits_forbids_exactly [OF m, of 0 1] by auto
  then have "\<not> allowed 1" by (auto split: if_splits)
  then show "\<exists>allowed. ComputeBitmap (FakeConstraint [2] 3) 0 = Inr allowed \<and> \<not> allowed 1"
    using a(1) by blast
qed

text \<open>UpdateConstraintState keeps one state per batch item and never leaves an item in an ended
  state, so the next mask is always computed from a state that can go on; a batch of another
  size is refused without a change.\<close>

theorem constraint_states_never_ended:
  assumes "\<not> IsEnded c (Start c)" "\<forall>s \<in> set ss. \<not> IsEnded c s"
  shows "length (snd (UpdateConstraintState c ts ss)) = length ss \<and>
    (\<forall>s \<in> set (snd (UpdateConstraintState c ts ss)). \<not> IsEnded c s) \<and>
    (length ts \<noteq> length ss \<longrightarrow> UpdateConstraintState c ts ss = (Inl Internal, ss))"
  using update_states_not_ended [OF assms, of ts] update_states_length [of c ts ss] assms(2)
  by (auto simp: UpdateConstraintState_def)

lemma constraint_states_never_ended_witness:
  "snd (UpdateConstraintState (FakeConstraint [5, 6] 9) [6, 5] [1, 0]) = [0, 1] \<and>
   list_all (\<lambda>s. \<not> IsEnded (FakeConstraint [5, 6] 9) s)
     (snd (UpdateConstraintState (FakeConstraint [5, 6] 9) [6, 5] [1, 0]))"
  using constraint_states_never_ended [of "FakeConstraint [5, 6] 9" "[1, 0]" "[6, 5]"]
  by (simp add: UpdateConstraintState_def FakeConstraint_def)

end
