(* ===== verification/Tasks.thy ===== *)
theory Tasks
  imports StopTokens IoTypes Benchmark ConstrainedDecoding
begin

text \<open>
  The tasks a session runs on an executor: \<^verbatim>\<open>runtime/core/tasks.cc\<close> (prefill, the decode loop,
  one decode step) and the helpers of \<^verbatim>\<open>runtime/components/tokenizer.h\<close> it uses. The executor,
  the sampler and the tokenizer are abstract classes; each is a record of its methods, over
  states \<open>'e\<close> and \<open>'s\<close>. Buffers of token ids are lists of integers and buffer operations of
  LiteRT succeed. A tensor handle and its duplicates share one buffer, so the ids the sampler
  writes are a field of the state. \<open>clock\<close> gives the successive readings of \<^verbatim>\<open>absl::Now\<close>.
  Scores are values of a type \<open>'f\<close> with the arithmetic of \<open>float_ops\<close>.
\<close>

section \<open>Interfaces\<close>

text \<open>A buffer of token ids: its dimensions and its elements.\<close>

type_synonym int_tensor = "int list \<times> int list"

record ('e, 'c, 'f) llm_executor =
  GetMaxNumTokens :: "'e \<Rightarrow> int status_or"
  ExecutorPrefill :: "int_tensor \<Rightarrow> bool \<Rightarrow> ('e, unit) op"
  ExecutorDecode :: "'c constraint option \<Rightarrow> ('e \<times> 'c decoder_states, int list) op"
  ExecutorDecodeLogits :: "int list \<Rightarrow> ('e, int list \<times> 'f list) op"
  GetCurrentStep :: "'e \<Rightarrow> int status_or"

record tokenizer =
  TokenIdsToText :: "int list \<Rightarrow> string status_or"
  TextToTokenIds :: "string \<Rightarrow> int list status_or"

record 'f float_ops =
  fzero :: 'f
  fadd :: "'f \<Rightarrow> 'f \<Rightarrow> 'f"
  fdiv :: "'f \<Rightarrow> nat \<Rightarrow> 'f"
  fneg_infinity :: 'f
  flowest :: 'f

type_synonym ('s, 'f) sampler_fun = "int list \<times> 'f list \<Rightarrow> ('s, int list \<times> 'f list) op"

record ('e, 'c, 'f, 's) decode_env =
  executor :: "('e, 'c, 'f) llm_executor"
  tokenizer_of :: tokenizer
  num_output_candidates :: nat
  sampler :: "('s, 'f) sampler_fun option"
  constraint_of :: "'c constraint option"
  float_ops_of :: "'f float_ops"
  clock :: "nat \<Rightarrow> int"

section \<open>Tokenizer helpers\<close>

definition TensorBufferToTokenIds :: "int list \<Rightarrow> int list list" where
  "TensorBufferToTokenIds column = map (\<lambda>t. [t]) column"

definition MergeTokenIds :: "int list list \<Rightarrow> int list list \<Rightarrow> int list list status_or" where
  "MergeTokenIds previous next_ids =
     (if length previous \<noteq> length next_ids then Inl InvalidArgument
      else Inr (map2 (@) previous next_ids))"

definition TokenIdsToTexts ::
  "tokenizer \<Rightarrow> nat \<Rightarrow> int list list \<Rightarrow> string status_or list status_or"
where
  "TokenIdsToTexts tk batch_size ids =
     (if length ids \<noteq> batch_size then Inl InvalidArgument
      else Inr (map (TokenIdsToText tk) ids))"

definition IsIncompleteBpeSequence :: "'a status_or \<Rightarrow> bool" where
  "IsIncompleteBpeSequence r \<longleftrightarrow> (case r of Inl DataLoss \<Rightarrow> True | _ \<Rightarrow> False)"

section \<open>Stopping\<close>

definition kDefaultMaxNumTokens :: int where
  "kDefaultMaxNumTokens = 4096"

definition TryGetMaxNumTokens :: "('e, 'c, 'f) llm_executor \<Rightarrow> 'e \<Rightarrow> int" where
  "TryGetMaxNumTokens x e = (case GetMaxNumTokens x e of Inl _ \<Rightarrow> kDefaultMaxNumTokens | Inr n \<Rightarrow> n)"

definition ShouldStop :: "bool \<Rightarrow> int \<Rightarrow> int \<Rightarrow> int \<Rightarrow> int \<Rightarrow> bool" where
  "ShouldStop hit_stop_tokens benchmark_decode_token_count num_decoded_steps current_step max_num_tokens =
     (if hit_stop_tokens \<and> benchmark_decode_token_count = 0 then True
      else if benchmark_decode_token_count > 0 \<and> num_decoded_steps \<ge> benchmark_decode_token_count
      then True
      else if current_step \<ge> max_num_tokens then True
      else False)"

section \<open>One decode step\<close>

record ('e, 'c, 'f, 's) decode_state =
  exec :: 'e
  sampler_state :: 's
  decoder_states :: "'c decoder_states"
  benchmark_copy :: "benchmark_info option"
  ticks :: nat
  detector :: stop_detector
  decoded_ids :: "int list option"
  bpe_partial_token_ids :: "int list list"
  pending_stop_tokens :: "string list list"
  result_text :: "string list"
  scores_span :: "'f list"
  is_first_step :: bool

text \<open>The constructor. \<^verbatim>\<open>benchmark_info_\<close> and \<^verbatim>\<open>stop_token_detector_\<close> are copies.\<close>

definition DecodeOneStep ::
  "('e, 'c, 'f, 's) decode_env \<Rightarrow> 'e \<Rightarrow> 's \<Rightarrow> stop_detector \<Rightarrow> benchmark_info option \<Rightarrow> nat \<Rightarrow>
     int list option \<Rightarrow> ('e, 'c, 'f, 's) decode_state"
where
  "DecodeOneStep env e ss d b now ids =
     \<lparr>exec = e, sampler_state = ss,
      decoder_states = (case constraint_of env of
          None \<Rightarrow> [] | Some c \<Rightarrow> ConstrainedDecoder c (num_output_candidates env)),
      benchmark_copy = b, ticks = now, detector = d, decoded_ids = ids,
      bpe_partial_token_ids = replicate (num_output_candidates env) [],
      pending_stop_tokens = replicate (num_output_candidates env) [],
      result_text = replicate (num_output_candidates env) '''',
      scores_span = [], is_first_step = True\<rparr>"

definition mark ::
  "('e, 'c, 'f, 's) decode_env \<Rightarrow> string \<Rightarrow> ('e, 'c, 'f, 's) decode_state \<Rightarrow> ('e, 'c, 'f, 's) decode_state"
where
  "mark env name s =
     (case benchmark_copy s of
        None \<Rightarrow> s
      | Some b \<Rightarrow> s\<lparr>benchmark_copy := Some (snd (TimeMarkDelta name (clock env (ticks s)) b)),
                   ticks := ticks s + 1\<rparr>)"

definition update_constraint ::
  "('e, 'c, 'f, 's) decode_env \<Rightarrow> int list \<Rightarrow> (('e, 'c, 'f, 's) decode_state, unit) op"
where
  "update_constraint env ids s =
     (case constraint_of env of
        Some c \<Rightarrow>
          if is_first_step s then (Ok, s)
          else let r = UpdateConstraintState c ids (decoder_states s)
               in (fst r, s\<lparr>decoder_states := snd r\<rparr>)
      | None \<Rightarrow> (Ok, s))"

definition mask_logits ::
  "('e, 'c, 'f, 's) decode_env \<Rightarrow> int list \<times> 'f list \<Rightarrow>
     (('e, 'c, 'f, 's) decode_state, int list \<times> 'f list) op"
where
  "mask_logits env logits s =
     (case constraint_of env of
        None \<Rightarrow> (Inr logits, s)
      | Some c \<Rightarrow>
          let r = MaskLogits c (flowest (float_ops_of env)) (fst logits) (decoder_states s) (snd logits)
          in (try_or_return (fst r) (\<lambda>_. Inr (fst logits, snd r)), s))"

definition run_logits ::
  "('e, 'c, 'f, 's) decode_env \<Rightarrow> int list \<Rightarrow>
     (('e, 'c, 'f, 's) decode_state, int list \<times> 'f list) op"
where
  "run_logits env ids s =
     (let r = ExecutorDecodeLogits (executor env) ids (exec s) in (fst r, s\<lparr>exec := snd r\<rparr>))"

definition run_sampler ::
  "('e, 'c, 'f, 's) decode_env \<Rightarrow> ('s, 'f) sampler_fun \<Rightarrow> int list \<times> 'f list \<Rightarrow>
     (('e, 'c, 'f, 's) decode_state, int list) op"
where
  "run_sampler env smp logits s =
     (let r = smp logits (sampler_state s); s' = s\<lparr>sampler_state := snd r\<rparr>
      in case fst r of
           Inl e \<Rightarrow> (Inl e, s')
         | Inr (ids, scores) \<Rightarrow> (Inr ids, s'\<lparr>decoded_ids := Some ids, scores_span := scores\<rparr>))"

definition DecodeAndSample ::
  "('e, 'c, 'f, 's) decode_env \<Rightarrow> (('e, 'c, 'f, 's) decode_state, int list) op"
where
  "DecodeAndSample env s =
     (case sampler env of
        Some smp \<Rightarrow>
          (case decoded_ids s of
             None \<Rightarrow> (Inl Internal, s)
           | Some ids \<Rightarrow>
               assign_or_return (update_constraint env ids) (\<lambda>_ s.
               assign_or_return (run_logits env ids) (\<lambda>logits s.
               assign_or_return (mask_logits env logits) (\<lambda>logits s.
               assign_or_return (run_sampler env smp logits) (\<lambda>ids s.
                 (Inr ids, mark env ''sampling'' s))
                 (mark env ''sampling'' s))
                 (mark env ''executor_decode'' s))
                 (mark env ''executor_decode'' s)) s)
      | None \<Rightarrow>
          let s = mark env ''executor_decode_and_sample'' s;
              r = ExecutorDecode (executor env) (constraint_of env) (exec s, decoder_states s);
              s = s\<lparr>exec := fst (snd r), decoder_states := snd (snd r)\<rparr>
          in case fst r of
               Inl e \<Rightarrow> (Inl e, s)
             | Inr ids \<Rightarrow> (Inr ids, mark env ''executor_decode_and_sample'' s))"

text \<open>The inner while loop: texts beyond the longest partial match leave the queue.\<close>

fun flush :: "nat \<Rightarrow> string list \<Rightarrow> string \<Rightarrow> string \<times> string list" where
  "flush m [] acc = (acc, [])"
| "flush m (x # q) acc = (if length (x # q) > m then flush m q (acc @ x) else (acc, x # q))"

text \<open>
  The body of the loop over the candidates: the text to emit, the ids of an unfinished BPE
  sequence and the queue of texts held back; \<open>None\<close> is \<^verbatim>\<open>value()\<close> of an error (an abort).
\<close>

definition process_candidate ::
  "string status_or \<Rightarrow> int list \<Rightarrow> bool \<Rightarrow> nat \<Rightarrow> int list \<Rightarrow> string list \<Rightarrow>
     (string \<times> int list \<times> string list) option"
where
  "process_candidate decoded ids found max_length bpe pending =
     (if IsIncompleteBpeSequence decoded then Some ('''', ids, pending)
      else if found then Some ('''', bpe, pending)
      else case decoded of
        Inl e \<Rightarrow> None
      | Inr t \<Rightarrow>
          let pending = (if max_length > 0 then pending @ [t] else pending);
              r = flush max_length pending '''';
              text = (if max_length = 0 then fst r @ t else fst r)
          in Some (text, [], snd r))"

definition process_candidates ::
  "('e, 'c, 'f, 's) decode_env \<Rightarrow> string status_or list \<Rightarrow> int list list \<Rightarrow>
     ('e, 'c, 'f, 's) decode_state \<Rightarrow> ('e, 'c, 'f, 's) decode_state option"
where
  "process_candidates env decoded ids s =
     map_option (\<lambda>rs. s\<lparr>result_text := map fst rs, bpe_partial_token_ids := map (fst \<circ> snd) rs,
                        pending_stop_tokens := map (snd \<circ> snd) rs\<rparr>)
       (those (map (\<lambda>i. process_candidate (decoded ! i) (ids ! i) (stop_token_found (detector s) ! i)
                          (MaxPartialStopTokenLength (detector s) i)
                          (bpe_partial_token_ids s ! i) (pending_stop_tokens s ! i))
                 [0..<num_output_candidates env]))"

definition Run ::
  "('e, 'c, 'f, 's) decode_env \<Rightarrow> ('e, 'c, 'f, 's) decode_state \<Rightarrow>
     (bool status_or \<times> ('e, 'c, 'f, 's) decode_state) option"
where
  "Run env s =
     (case DecodeAndSample env s of
        (Inl e, s) \<Rightarrow> Some (Inl e, s)
      | (Inr column, s) \<Rightarrow>
          (case MergeTokenIds (bpe_partial_token_ids s) (TensorBufferToTokenIds column) of
             Inl e \<Rightarrow> Some (Inl e, s)
           | Inr ids \<Rightarrow>
               (case ProcessTokens column (detector s) of
                  (Inl e, d) \<Rightarrow> Some (Inl e, s\<lparr>detector := d\<rparr>)
                | (Inr _, d) \<Rightarrow>
                    (case TokenIdsToTexts (tokenizer_of env) (num_output_candidates env) ids of
                       Inl e \<Rightarrow> None
                     | Inr decoded \<Rightarrow>
                         map_option (\<lambda>s. (AllDone (detector s), s\<lparr>is_first_step := False\<rparr>))
                           (process_candidates env decoded ids (s\<lparr>detector := d\<rparr>))))))"

section \<open>Prefill\<close>

text \<open>\<open>inputs\<close> is the text data of the executor inputs, with its tensor type's dimensions.\<close>

definition Prefill ::
  "('e, 'c, 'f) llm_executor \<Rightarrow> (nat \<Rightarrow> int) \<Rightarrow> int_tensor option \<Rightarrow> bool \<Rightarrow>
     ('e \<times> benchmark_info option \<times> nat, 'f responses) op"
where
  "Prefill x clk inputs wait_for_completion st =
     (let (e, b, now) = st; max_num_tokens = TryGetMaxNumTokens x e in
      case inputs of
        None \<Rightarrow> (Inl NotFound, st)
      | Some (dims, ids) \<Rightarrow>
          if last dims \<ge> max_num_tokens then (Inl InvalidArgument, st)
          else if ids = [] then (Inl Internal, st)
          else
            assign_or_return
              (\<lambda>(e, b, now). case b of
                 None \<Rightarrow> (Ok, (e, b, now))
               | Some i \<Rightarrow> let r = TimePrefillTurnStart (clk now) i in (fst r, (e, Some (snd r), now + 1)))
            (\<lambda>_. assign_or_return
              (\<lambda>(e, b, now). let r = ExecutorPrefill x (dims, ids) (wait_for_completion \<or> b \<noteq> None) e
                              in (fst r, (snd r, b, now)))
            (\<lambda>_. assign_or_return
              (\<lambda>(e, b, now). case b of
                 None \<Rightarrow> (Ok, (e, b, now))
               | Some i \<Rightarrow> let r = TimePrefillTurnEnd (length ids) (clk now) i in (fst r, (e, Some (snd r), now + 1)))
            (\<lambda>_ s. (Inr (StateResponse kDone), s)))) st)"

section \<open>The decode loop\<close>

text \<open>
  A call returns, aborts (\<^verbatim>\<open>value()\<close> of an error), or is cut off: the loop has fuel.
\<close>

datatype 'a outcome = Returned 'a | Aborted | OutOfFuel

datatype loop_exit = Continue | Break | CancelledExit | ErrorExit status_code

record ('e, 'c, 'f, 's) loop_state =
  step :: "('e, 'c, 'f, 's) decode_state"
  final_texts :: "string list"
  accumulated_scores :: "'f list"
  num_decoded_tokens :: "nat list"
  num_decode_steps :: nat
  sent :: "'f responses status_or list"

text \<open>\<^verbatim>\<open>absl::StrReplaceAll\<close> with one pattern; the marker is the UTF-8 encoding of U+2581.\<close>

function replace_all :: "string \<Rightarrow> string \<Rightarrow> string \<Rightarrow> string" where
  "replace_all p r [] = []"
| "replace_all p r (c # cs) =
     (if p \<noteq> [] \<and> take (length p) (c # cs) = p then r @ replace_all p r (drop (length p) (c # cs))
      else c # replace_all p r cs)"
  by pat_completeness auto
termination
  by (relation "measure (\<lambda>(p, r, s). length s)") (auto simp: length_greater_0_conv [symmetric] simp del: length_greater_0_conv)

definition detokenize_marker :: "string \<Rightarrow> string" where
  "detokenize_marker = replace_all [CHR 0xE2, CHR 0x96, CHR 0x81] '' ''"

text \<open>The loop over the candidates in one iteration: the texts and scores of the step.\<close>

definition step_texts :: "('e, 'c, 'f, 's) decode_env \<Rightarrow> ('e, 'c, 'f, 's) decode_state \<Rightarrow> string list" where
  "step_texts env s = map (\<lambda>j. detokenize_marker (result_text s ! j)) [0..<num_output_candidates env]"

definition step_scores :: "('e, 'c, 'f, 's) decode_env \<Rightarrow> ('e, 'c, 'f, 's) decode_state \<Rightarrow> 'f list" where
  "step_scores env s =
     map (\<lambda>j. if result_text s ! j \<noteq> [] \<and> sampler env \<noteq> None then scores_span s ! j
              else fzero (float_ops_of env))
       [0..<num_output_candidates env]"

definition any_updates :: "('e, 'c, 'f, 's) decode_env \<Rightarrow> ('e, 'c, 'f, 's) decode_state \<Rightarrow> bool" where
  "any_updates env s \<longleftrightarrow> list_ex (\<lambda>j. result_text s ! j \<noteq> []) [0..<num_output_candidates env]"

definition accumulate ::
  "('e, 'c, 'f, 's) decode_env \<Rightarrow> ('e, 'c, 'f, 's) loop_state \<Rightarrow> ('e, 'c, 'f, 's) loop_state"
where
  "accumulate env l =
     (let s = step l; n = num_output_candidates env;
          updated = (\<lambda>j. result_text s ! j \<noteq> [])
      in l\<lparr>final_texts := map (\<lambda>j. if updated j
                   then final_texts l ! j @ detokenize_marker (result_text s ! j)
                   else final_texts l ! j) [0..<n],
           accumulated_scores := map (\<lambda>j. if updated j \<and> sampler env \<noteq> None
                   then fadd (float_ops_of env) (accumulated_scores l ! j) (scores_span s ! j)
                   else accumulated_scores l ! j) [0..<n],
           num_decoded_tokens := map (\<lambda>j. if updated j \<and> sampler env \<noteq> None
                   then num_decoded_tokens l ! j + 1 else num_decoded_tokens l ! j) [0..<n]\<rparr>)"

definition decode_iteration ::
  "('e, 'c, 'f, 's) decode_env \<Rightarrow> bool \<Rightarrow> (nat \<Rightarrow> bool) \<Rightarrow> int \<Rightarrow> int \<Rightarrow>
     ('e, 'c, 'f, 's) loop_state \<Rightarrow> (loop_exit \<times> ('e, 'c, 'f, 's) loop_state) outcome"
where
  "decode_iteration env is_streaming cancelled benchmark_count max_num_tokens l =
     (if cancelled (num_decode_steps l) then Returned (CancelledExit, l)
      else case Run env (step l) of
        None \<Rightarrow> Aborted
      | Some (Inl e, s) \<Rightarrow> Returned (ErrorExit e, l\<lparr>step := s\<rparr>)
      | Some (Inr all_done, s) \<Rightarrow>
          let l = l\<lparr>step := s, num_decode_steps := num_decode_steps l + 1\<rparr>;
              l = (if is_streaming
                   then if any_updates env s \<and> \<not> all_done
                        then l\<lparr>sent := sent l @ [Inr (Responses kProcessing (step_texts env s) (step_scores env s) [])]\<rparr>
                        else l
                   else accumulate env l)
          in case GetCurrentStep (executor env) (exec s) of
               Inl _ \<Rightarrow> Aborted
             | Inr current \<Rightarrow>
                 Returned (if ShouldStop all_done benchmark_count (int (num_decode_steps l)) current max_num_tokens
                           then Break else Continue, l))"

fun decode_loop ::
  "('e, 'c, 'f, 's) decode_env \<Rightarrow> bool \<Rightarrow> (nat \<Rightarrow> bool) \<Rightarrow> int \<Rightarrow> int \<Rightarrow> nat \<Rightarrow>
     ('e, 'c, 'f, 's) loop_state \<Rightarrow> (loop_exit \<times> ('e, 'c, 'f, 's) loop_state) outcome"
where
  "decode_loop env str cancelled count max_tokens 0 l = OutOfFuel"
| "decode_loop env str cancelled count max_tokens (Suc fuel) l =
     (case decode_iteration env str cancelled count max_tokens l of
        Returned (Continue, l) \<Rightarrow> decode_loop env str cancelled count max_tokens fuel l
      | r \<Rightarrow> r)"

definition end_turn ::
  "('e, 'c, 'f, 's) decode_env \<Rightarrow> ('e, 'c, 'f, 's) loop_state \<Rightarrow> benchmark_info option \<Rightarrow>
     status \<times> benchmark_info option"
where
  "end_turn env l b =
     (case b of
        None \<Rightarrow> (Ok, None)
      | Some i \<Rightarrow> let r = TimeDecodeTurnEnd (num_decode_steps l * num_output_candidates env)
                           (clock env (ticks (step l))) i in (fst r, Some (snd r)))"

text \<open>The end of \<open>Decode\<close>: prefill of the last ids with external sampling, and the responses.\<close>

definition append_last_ids ::
  "('e, 'c, 'f, 's) decode_env \<Rightarrow> (('e, 'c, 'f, 's) decode_state, unit) op"
where
  "append_last_ids env s =
     (case sampler env of
        None \<Rightarrow> (Ok, s)
      | Some _ \<Rightarrow>
          let r = Prefill (executor env) (clock env)
                    (Some ([int (num_output_candidates env), 1], the (decoded_ids s))) True (exec s, None, 0)
          in (try_or_return (fst r) (\<lambda>_. Ok), s\<lparr>exec := fst (snd r)\<rparr>))"

definition final_scores ::
  "('e, 'c, 'f, 's) decode_env \<Rightarrow> ('e, 'c, 'f, 's) loop_state \<Rightarrow> 'f list"
where
  "final_scores env l =
     map (\<lambda>j. if sampler env = None then fzero (float_ops_of env)
              else if num_decoded_tokens l ! j > 0
              then fdiv (float_ops_of env) (accumulated_scores l ! j) (num_decoded_tokens l ! j)
              else fneg_infinity (float_ops_of env))
       [0..<num_output_candidates env]"

definition decode_result ::
  "('e, 'c, 'f, 's) decode_env \<Rightarrow> bool \<Rightarrow> int \<Rightarrow> ('e, 'c, 'f, 's) loop_state \<Rightarrow> 'f responses outcome"
where
  "decode_result env is_streaming max_num_tokens l =
     (case GetCurrentStep (executor env) (exec (step l)) of
        Inl _ \<Rightarrow> Aborted
      | Inr current \<Rightarrow>
          let state = (if current \<ge> max_num_tokens then kMaxNumTokensReached else kDone)
          in Returned (if is_streaming then StateResponse state
                       else Responses state (final_texts l) (final_scores env l) []))"

definition init_loop ::
  "('e, 'c, 'f, 's) decode_env \<Rightarrow> ('e, 'c, 'f, 's) decode_state \<Rightarrow> ('e, 'c, 'f, 's) loop_state"
where
  "init_loop env s =
     (let n = num_output_candidates env in
      \<lparr>step = s, final_texts = replicate n '''', accumulated_scores = replicate n (fzero (float_ops_of env)),
       num_decoded_tokens = replicate n 0, num_decode_steps = 0, sent = []\<rparr>)"

definition Decode ::
  "('e, 'c, 'f, 's) decode_env \<Rightarrow> bool \<Rightarrow> (nat \<Rightarrow> bool) \<Rightarrow> nat \<Rightarrow> 'e \<Rightarrow> 's \<Rightarrow> stop_detector \<Rightarrow>
     int list option \<Rightarrow> benchmark_info option \<Rightarrow>
     ('f responses status_or \<times> ('e, 'c, 'f, 's) loop_state \<times> benchmark_info option) outcome"
where
  "Decode env is_streaming cancelled fuel e ss d ids b0 =
     (let started = (case b0 of
            None \<Rightarrow> (Ok, None)
          | Some i \<Rightarrow> let r = TimeDecodeTurnStart (clock env 0) i in (fst r, Some (snd r)));
          b = snd started;
          count = (case b0 of None \<Rightarrow> 0 | Some i \<Rightarrow> num_decode_tokens i);
          max_num_tokens = TryGetMaxNumTokens (executor env) e;
          l0 = init_loop env (DecodeOneStep env e ss d b 1 ids)
      in case fst started of
           Inl err \<Rightarrow> Returned (Inl err, l0, b)
         | Inr _ \<Rightarrow>
             (case decode_loop env is_streaming cancelled count max_num_tokens fuel l0 of
                OutOfFuel \<Rightarrow> OutOfFuel
              | Aborted \<Rightarrow> Aborted
              | Returned (ErrorExit err, l) \<Rightarrow> Returned (Inl err, l, b)
              | Returned (CancelledExit, l) \<Rightarrow>
                  let r = end_turn env l b
                  in Returned (try_or_return (fst r) (\<lambda>_. Inl Cancelled), l, snd r)
              | Returned (_, l) \<Rightarrow>
                  let r = end_turn env l b in
                  (case fst r of
                     Inl err \<Rightarrow> Returned (Inl err, l, snd r)
                   | Inr _ \<Rightarrow>
                       let a = append_last_ids env (step l); l = l\<lparr>step := snd a\<rparr> in
                       (case fst a of
                          Inl err \<Rightarrow> Returned (Inl err, l, snd r)
                        | Inr _ \<Rightarrow>
                            (case decode_result env is_streaming max_num_tokens l of
                               Returned v \<Rightarrow> Returned (Inr v, l, snd r)
                             | Aborted \<Rightarrow> Aborted
                             | OutOfFuel \<Rightarrow> OutOfFuel)))))"

section \<open>What a decode step does to the texts\<close>

lemma mark_frame [simp]:
  "detector (mark env n s) = detector s" "bpe_partial_token_ids (mark env n s) = bpe_partial_token_ids s"
  "pending_stop_tokens (mark env n s) = pending_stop_tokens s" "result_text (mark env n s) = result_text s"
  "exec (mark env n s) = exec s" "decoded_ids (mark env n s) = decoded_ids s"
  "sampler_state (mark env n s) = sampler_state s" "decoder_states (mark env n s) = decoder_states s"
  "is_first_step (mark env n s) = is_first_step s"
  by (auto simp: mark_def split: option.splits)

definition text_frame :: "('e, 'c, 'f, 's) decode_state \<Rightarrow> ('e, 'c, 'f, 's) decode_state \<Rightarrow> bool" where
  "text_frame s s' \<longleftrightarrow> detector s' = detector s \<and> bpe_partial_token_ids s' = bpe_partial_token_ids s \<and>
     pending_stop_tokens s' = pending_stop_tokens s \<and> result_text s' = result_text s"

lemma text_frame_mark [simp]:
  "text_frame (mark env n s) s' = text_frame s s'" "text_frame s (mark env n s') = text_frame s s'"
  by (simp_all add: text_frame_def)

lemma text_frame_bind:
  assumes "assign_or_return m k s = (r, s')"
    and "\<And>r s'. m s = (r, s') \<Longrightarrow> text_frame s s'"
    and "\<And>v s1 r s'. k v s1 = (r, s') \<Longrightarrow> text_frame s s1 \<Longrightarrow> text_frame s s'"
  shows "text_frame s s'"
  using assms by (auto simp: assign_or_return_def split: prod.splits sum.splits)

lemma sampling_frames:
  "update_constraint env ids s = (r1, s1) \<Longrightarrow> text_frame s s1"
  "run_logits env ids s = (r2, s2) \<Longrightarrow> text_frame s s2"
  "mask_logits env lg s = (r3, s3) \<Longrightarrow> text_frame s s3"
  "run_sampler env smp lg s = (r4, s4) \<Longrightarrow> text_frame s s4"
  by (auto simp: text_frame_def update_constraint_def run_logits_def mask_logits_def run_sampler_def Let_def
      split: option.splits if_splits sum.splits)

lemma text_frame_trans: "text_frame a b \<Longrightarrow> text_frame b c \<Longrightarrow> text_frame a c"
  by (simp add: text_frame_def)

lemma bind_frame:
  assumes "\<And>s r s'. m s = (r, s') \<Longrightarrow> text_frame s s'" "\<And>v s r s'. k v s = (r, s') \<Longrightarrow> text_frame s s'"
    "assign_or_return m k s = (r, s')"
  shows "text_frame s s'"
  using assms text_frame_trans by (fastforce simp: assign_or_return_def split: prod.splits sum.splits)

lemma DecodeAndSample_frame:
  assumes "DecodeAndSample env s = (r, s')" shows "text_frame s s'"
proof (cases "sampler env")
  case None
  then show ?thesis using assms
    by (auto simp: DecodeAndSample_def Let_def text_frame_def split: sum.splits)
next
  case (Some smp)
  define k4 where "k4 = (\<lambda>logits s. assign_or_return (run_sampler env smp logits)
      (\<lambda>ids s. (Inr ids, mark env ''sampling'' s)) (mark env ''sampling'' s))"
  have k4: "k4 lg s = (r, s') \<Longrightarrow> text_frame s s'" for lg s r s'
  proof -
    assume h: "k4 lg s = (r, s')"
    have "text_frame (mark env ''sampling'' s) s'"
      by (rule bind_frame [OF sampling_frames(4) _ h [unfolded k4_def]]) (auto simp: text_frame_def)
    then show ?thesis by simp
  qed
  define k3 where "k3 = (\<lambda>logits s. assign_or_return (mask_logits env logits) k4 (mark env ''executor_decode'' s))"
  have k3: "k3 lg s = (r, s') \<Longrightarrow> text_frame s s'" for lg s r s'
  proof -
    assume h: "k3 lg s = (r, s')"
    have "text_frame (mark env ''executor_decode'' s) s'"
      by (rule bind_frame [OF sampling_frames(3) k4 h [unfolded k3_def]])
    then show ?thesis by simp
  qed
  define k2 where "k2 = (\<lambda>ids (_::unit) s. assign_or_return (run_logits env ids) k3 (mark env ''executor_decode'' s))"
  have k2: "k2 ids u s = (r, s') \<Longrightarrow> text_frame s s'" for ids u s r s'
  proof -
    assume h: "k2 ids u s = (r, s')"
    have "text_frame (mark env ''executor_decode'' s) s'"
      by (rule bind_frame [OF sampling_frames(2) k3 h [unfolded k2_def]])
    then show ?thesis by simp
  qed
  show ?thesis
  proof (cases "decoded_ids s")
    case None
    then show ?thesis using assms Some by (simp add: DecodeAndSample_def text_frame_def)
  next
    case (Some ids)
    then have "assign_or_return (update_constraint env ids) (k2 ids) s = (r, s')"
      using assms \<open>sampler env = _\<close> by (simp add: DecodeAndSample_def k2_def k3_def k4_def)
    from bind_frame [OF _ _ this] show ?thesis using sampling_frames(1) k2 by blast
  qed
qed

lemma flush_spec: "flush m q acc = (acc @ concat (take (length q - m) q), drop (length q - m) q)"
  by (induction m q acc rule: flush.induct) (auto simp: Suc_diff_le)

lemma those_nth:
  "those xs = Some ys \<Longrightarrow> length ys = length xs \<and> (\<forall>i < length xs. xs ! i = Some (ys ! i))"
proof (induction xs arbitrary: ys)
  case (Cons x xs)
  then obtain y zs where "x = Some y" "those xs = Some zs" "ys = y # zs"
    by (auto split: option.splits)
  with Cons.IH [of zs] show ?case by (auto simp: nth_Cons split: nat.splits)
qed simp

lemma Run_step:
  assumes run: "Run env s = Some (Inr d, s')" and col: "DecodeAndSample env s = (Inr column, s1)"
  shows "length column = length (bpe_partial_token_ids s) \<and>
    length (bpe_partial_token_ids s) = num_output_candidates env \<and>
    ProcessTokens column (detector s) = (Ok, detector s') \<and> AllDone (detector s') = Inr d \<and>
    length (result_text s') = num_output_candidates env \<and>
    length (bpe_partial_token_ids s') = num_output_candidates env \<and>
    length (pending_stop_tokens s') = num_output_candidates env \<and>
    (\<forall>i < num_output_candidates env.
       process_candidate (TokenIdsToText (tokenizer_of env) (bpe_partial_token_ids s ! i @ [column ! i]))
         (bpe_partial_token_ids s ! i @ [column ! i]) (stop_token_found (detector s') ! i)
         (MaxPartialStopTokenLength (detector s') i) (bpe_partial_token_ids s ! i) (pending_stop_tokens s ! i)
       = Some (result_text s' ! i, bpe_partial_token_ids s' ! i, pending_stop_tokens s' ! i))"
proof -
  have fr: "bpe_partial_token_ids s1 = bpe_partial_token_ids s" "detector s1 = detector s"
    "pending_stop_tokens s1 = pending_stop_tokens s"
    using DecodeAndSample_frame [OF col] by (simp_all add: text_frame_def)
  let ?n = "num_output_candidates env" and ?b = "bpe_partial_token_ids s"
  let ?ids = "map2 (@) ?b (map (\<lambda>t. [t]) column)"
  have len: "length column = length ?b" using run col
    by (auto simp: Run_def fr MergeTokenIds_def TensorBufferToTokenIds_def split: if_splits)
  obtain dd where dd: "ProcessTokens column (detector s) = (Ok, dd)"
    using run col len
    by (auto simp: Run_def fr MergeTokenIds_def TensorBufferToTokenIds_def split: sum.splits prod.splits)
  have n: "length ?b = ?n"
    using run col len dd
    by (auto simp: Run_def fr MergeTokenIds_def TensorBufferToTokenIds_def TokenIdsToTexts_def
        split: sum.splits prod.splits if_splits)
  have "\<exists>rs. those (map (\<lambda>i. process_candidate (map (TokenIdsToText (tokenizer_of env)) ?ids ! i) (?ids ! i)
        (stop_token_found dd ! i) (MaxPartialStopTokenLength dd i) (?b ! i) (pending_stop_tokens s ! i)) [0..<?n]) = Some rs \<and>
      detector s' = dd \<and> AllDone dd = Inr d \<and> result_text s' = map fst rs \<and>
      bpe_partial_token_ids s' = map (fst \<circ> snd) rs \<and> pending_stop_tokens s' = map (snd \<circ> snd) rs"
    using run col len dd n
    by (auto simp: Run_def fr MergeTokenIds_def TensorBufferToTokenIds_def TokenIdsToTexts_def
        process_candidates_def)
  then obtain rs where rs: "those (map (\<lambda>i. process_candidate (map (TokenIdsToText (tokenizer_of env)) ?ids ! i) (?ids ! i)
        (stop_token_found dd ! i) (MaxPartialStopTokenLength dd i) (?b ! i) (pending_stop_tokens s ! i)) [0..<?n]) = Some rs"
    and s': "detector s' = dd" "AllDone dd = Inr d" "result_text s' = map fst rs"
      "bpe_partial_token_ids s' = map (fst \<circ> snd) rs" "pending_stop_tokens s' = map (snd \<circ> snd) rs"
    by blast
  from those_nth [OF rs] have r: "length rs = ?n" "\<forall>i < ?n. process_candidate
      (map (TokenIdsToText (tokenizer_of env)) ?ids ! i) (?ids ! i) (stop_token_found dd ! i)
      (MaxPartialStopTokenLength dd i) (?b ! i) (pending_stop_tokens s ! i) = Some (rs ! i)"
    by simp_all
  have ids: "?ids ! i = ?b ! i @ [column ! i]" "i < length ?ids" if "i < ?n" for i
    using that len n by simp_all
  show ?thesis using len n dd s' r ids by simp
qed

section \<open>The text of a whole decode\<close>

text \<open>The largest number of tokens at the end of a history that some stop sequence has matched.\<close>

definition longest :: "int list list \<Rightarrow> int list \<Rightarrow> nat" where
  "longest ss h = fold max (map (\<lambda>s. progress s h) ss) 0"

lemma fold_max_le: "\<forall>x \<in> set xs. x \<le> k \<Longrightarrow> a \<le> k \<Longrightarrow> fold max xs a \<le> (k::nat)"
  by (induction xs arbitrary: a) simp_all

lemma fold_max_ge: "a \<le> fold max xs (a::nat)"
proof (induction xs arbitrary: a)
  case (Cons x xs)
  from Cons [of "max x a"] show ?case by simp
qed simp

lemma fold_max_member: "x \<in> set xs \<Longrightarrow> x \<le> fold max xs (a::nat)"
proof (induction xs arbitrary: a)
  case (Cons y xs)
  then show ?case using fold_max_ge [of "max y a" xs] by auto
qed simp

lemma longest_snoc: "longest ss (h @ [t]) \<le> Suc (longest ss h)"
  unfolding longest_def
proof (rule fold_max_le)
  show "\<forall>x \<in> set (map (\<lambda>s. progress s (h @ [t])) ss). x \<le> Suc (fold max (map (\<lambda>s. progress s h) ss) 0)"
  proof
    fix x assume "x \<in> set (map (\<lambda>s. progress s (h @ [t])) ss)"
    then obtain s where s: "s \<in> set ss" "x = advance s t (progress s h)" by auto
    then have "x \<le> Suc (progress s h)" by (simp add: advance_def)
    also have "progress s h \<le> fold max (map (\<lambda>s. progress s h) ss) 0"
      using s(1) by (intro fold_max_member) simp
    finally show "x \<le> Suc (fold max (map (\<lambda>s. progress s h) ss) 0)" by simp
  qed
qed simp

lemma longest_length: "longest ss h \<le> length h"
proof (induction h rule: rev_induct)
  case Nil
  show ?case by (simp add: longest_def map_replicate_const fold_max_zero)
next
  case (snoc t h)
  have "longest ss (h @ [t]) \<le> Suc (longest ss h)" by (rule longest_snoc)
  with snoc show ?case by simp
qed

text \<open>
  The reference: tokens collect until they decode to a text (a byte of a longer UTF-8 sequence
  does not on its own); the texts so far and the ids of the unfinished rest.
\<close>

definition detok_step :: "tokenizer \<Rightarrow> int \<Rightarrow> string list \<times> int list \<Rightarrow> string list \<times> int list" where
  "detok_step tk t c =
     (case TokenIdsToText tk (snd c @ [t]) of
        Inl _ \<Rightarrow> (fst c, snd c @ [t]) | Inr x \<Rightarrow> (fst c @ [x], []))"

definition detok :: "tokenizer \<Rightarrow> int list \<Rightarrow> string list \<times> int list" where
  "detok tk h = fold (detok_step tk) h ([], [])"

definition texts_of :: "tokenizer \<Rightarrow> int list \<Rightarrow> string list" where
  "texts_of tk h = fst (detok tk h)"

definition unfinished_ids :: "tokenizer \<Rightarrow> int list \<Rightarrow> int list" where
  "unfinished_ids tk h = snd (detok tk h)"

definition decodes_alone :: "tokenizer \<Rightarrow> int \<Rightarrow> bool" where
  "decodes_alone tk t \<longleftrightarrow> (case TokenIdsToText tk [t] of Inl _ \<Rightarrow> False | Inr _ \<Rightarrow> True)"

lemma detok_Nil [simp]: "texts_of tk [] = []" "unfinished_ids tk [] = []"
  by (simp_all add: texts_of_def unfinished_ids_def detok_def)

lemma detok_snoc:
  "TokenIdsToText tk (unfinished_ids tk h @ [t]) = Inl e \<Longrightarrow>
     texts_of tk (h @ [t]) = texts_of tk h \<and> unfinished_ids tk (h @ [t]) = unfinished_ids tk h @ [t]"
  "TokenIdsToText tk (unfinished_ids tk h @ [t]) = Inr x \<Longrightarrow>
     texts_of tk (h @ [t]) = texts_of tk h @ [x] \<and> unfinished_ids tk (h @ [t]) = []"
  by (simp_all add: texts_of_def unfinished_ids_def detok_def detok_step_def)

lemma texts_of_snoc: "\<exists>xs. texts_of tk (h @ [t]) = texts_of tk h @ xs \<and> length xs \<le> 1"
  by (cases "TokenIdsToText tk (unfinished_ids tk h @ [t])") (simp_all add: detok_snoc)

lemma texts_of_append:
  "\<exists>xs. texts_of tk (h @ h') = texts_of tk h @ xs \<and> length xs \<le> length h'"
proof (induction h' rule: rev_induct)
  case (snoc t h')
  then obtain xs where "texts_of tk (h @ h') = texts_of tk h @ xs" "length xs \<le> length h'" by blast
  with texts_of_snoc [of tk "h @ h'" t] show ?case by fastforce
qed simp

lemma texts_of_take_mono:
  assumes "k \<le> k'" shows "length (texts_of tk (take k h)) \<le> length (texts_of tk (take k' h))"
proof -
  have "take k' h = take k h @ drop k (take k' h)" using assms
    by (metis append_take_drop_id min.absorb1 take_take)
  then show ?thesis using texts_of_append [of tk "take k h" "drop k (take k' h)"] by auto
qed

lemma texts_of_take_prefix: "\<exists>xs. texts_of tk h = texts_of tk (take k h) @ xs \<and> length xs \<le> length h - k"
  using texts_of_append [of tk "take k h" "drop k h"] by simp

lemma detok_whole_both:
  "list_all (decodes_alone tk) h \<Longrightarrow> unfinished_ids tk h = [] \<and> length (texts_of tk h) = length h"
proof (induction h rule: rev_induct)
  case (snoc t h)
  then have u: "unfinished_ids tk h = []" and l: "length (texts_of tk h) = length h" by simp_all
  obtain x where "TokenIdsToText tk (unfinished_ids tk h @ [t]) = Inr x"
    using snoc.prems u by (auto simp: decodes_alone_def split: sum.splits)
  from detok_snoc(2) [OF this] l show ?case by simp
qed simp

lemmas detok_whole = detok_whole_both [THEN conjunct1] detok_whole_both [THEN conjunct2]

text \<open>
  A candidate that has not stopped, after the tokens \<open>h\<close>: \<open>e\<close> of the texts are emitted, the others are
  held back, and none of the emitted ones reaches into the longest partial match.
\<close>

definition streaming ::
  "tokenizer \<Rightarrow> int list list \<Rightarrow> int list \<Rightarrow> string \<Rightarrow> string list \<Rightarrow> int list \<Rightarrow> bool"
where
  "streaming tk ss h out pending bpe \<longleftrightarrow>
     (\<exists>e \<le> length (texts_of tk (take (length h - longest ss h) h)).
        out = concat (take e (texts_of tk h)) \<and> pending = drop e (texts_of tk h)) \<and>
     bpe = unfinished_ids tk h \<and>
     (bpe = [] \<longrightarrow> length pending \<le> longest ss h) \<and>
     (list_all (decodes_alone tk) h \<longrightarrow> length pending = longest ss h) \<and>
     ((\<forall>p. prefix p h \<longrightarrow> longest ss p = 0) \<longrightarrow> pending = [])"

definition text_inv ::
  "tokenizer \<Rightarrow> int list list \<Rightarrow> int list \<Rightarrow> string \<Rightarrow> string list \<Rightarrow> int list \<Rightarrow> bool"
where
  "text_inv tk ss h out pending bpe \<longleftrightarrow>
     ((\<forall>p. prefix p h \<longrightarrow> \<not> completes ss p) \<longrightarrow> streaming tk ss h out pending bpe) \<and>
     (\<forall>p t. prefix (p @ [t]) h \<and> completes ss (p @ [t]) \<and> (\<forall>q. prefix q p \<longrightarrow> \<not> completes ss q) \<longrightarrow>
        (\<exists>pending bpe. streaming tk ss p out pending bpe))"

lemma streaming_incomplete:
  assumes inv: "streaming tk ss h out pending bpe" and "TokenIdsToText tk (bpe @ [t]) = Inl e"
  shows "streaming tk ss (h @ [t]) out pending (bpe @ [t])"
proof -
  have bpe: "bpe = unfinished_ids tk h" using inv by (simp add: streaming_def)
  note d = detok_snoc(1) [OF assms(2) [unfolded bpe]]
  obtain e where e: "e \<le> length (texts_of tk (take (length h - longest ss h) h))"
    "out = concat (take e (texts_of tk h))" "pending = drop e (texts_of tk h)"
    using inv by (auto simp: streaming_def)
  have l: "length h - longest ss h \<le> length (h @ [t]) - longest ss (h @ [t])"
    using longest_snoc [of ss h t] by simp
  have "e \<le> length (texts_of tk (take (length (h @ [t]) - longest ss (h @ [t])) (h @ [t])))"
    using e(1) texts_of_take_mono [OF l, of tk "h @ [t]"] by simp
  moreover have "\<not> list_all (decodes_alone tk) (h @ [t])"
  proof
    assume w: "list_all (decodes_alone tk) (h @ [t])"
    then have "unfinished_ids tk h = []" using detok_whole(1) by simp
    then show False using w assms(2) bpe by (simp add: decodes_alone_def)
  qed
  ultimately show ?thesis using inv d e by (auto simp: streaming_def)
qed

lemma streaming_text:
  assumes inv: "streaming tk ss h out pending bpe" and x: "TokenIdsToText tk (bpe @ [t]) = Inr x"
  defines "m \<equiv> longest ss (h @ [t])"
  defines "q \<equiv> if m > 0 then pending @ [x] else pending"
  shows "streaming tk ss (h @ [t])
    (out @ (if m = 0 then fst (flush m q []) @ x else fst (flush m q []))) (snd (flush m q [])) []"
proof -
  let ?T = "texts_of tk h" and ?h = "h @ [t]"
  have bpe: "bpe = unfinished_ids tk h" using inv by (simp add: streaming_def)
  note d = detok_snoc(2) [OF x [unfolded bpe]]
  obtain e where e: "e \<le> length (texts_of tk (take (length h - longest ss h) h))"
    "out = concat (take e ?T)" "pending = drop e ?T"
    using inv by (auto simp: streaming_def)
  have eT: "e \<le> length ?T" using e(1) texts_of_take_prefix [of tk h "length h - longest ss h"] by auto
  show ?thesis
  proof (cases "m = 0")
    case True
    have "out @ concat pending = concat ?T" using e by (metis append_take_drop_id concat_append)
    then show ?thesis using True d
      by (auto simp: streaming_def flush_spec q_def m_def intro!: exI [of _ "Suc (length ?T)"])
  next
    case False
    define e' where "e' = e + (length q - m)"
    have q: "q = drop e (texts_of tk ?h)" using False e(3) eT d by (simp add: q_def)
    have lq: "length q = Suc (length ?T) - e" using q d eT by simp
    have l: "length h - longest ss h \<le> length ?h - m"
      using longest_snoc [of ss h t] by (simp add: m_def)
    have "e' \<le> length (texts_of tk (take (length ?h - m) ?h))"
    proof (cases "length q \<le> m")
      case True
      then show ?thesis using e(1) texts_of_take_mono [OF l, of tk ?h] by (simp add: e'_def)
    next
      case False
      then have e'': "e' = Suc (length ?T) - m" using lq eT by (simp add: e'_def)
      obtain xs where xs: "texts_of tk ?h = texts_of tk (take (length ?h - m) ?h) @ xs"
        "length xs \<le> length ?h - (length ?h - m)"
        using texts_of_take_prefix [of tk ?h "length ?h - m"] by blast
      have "length ?T + 1 = length (texts_of tk (take (length ?h - m) ?h)) + length xs"
        using arg_cong [OF xs(1), of length] d by simp
      moreover have "m \<le> length ?h" using longest_length [of ss ?h] by (simp add: m_def)
      ultimately show ?thesis using xs(2) e'' by linarith
    qed
    moreover have "out @ concat (take (length q - m) q) = concat (take e' (texts_of tk ?h))"
    proof -
      have "take e' (texts_of tk ?h) = take e (texts_of tk ?h) @ take (length q - m) q"
        by (simp only: e'_def take_add q)
      then show ?thesis using e(2) eT d by simp
    qed
    moreover have "drop (length q - m) q = drop e' (texts_of tk ?h)" by (simp add: q e'_def add.commute)
    moreover have "length (drop (length q - m) q) = m" if "list_all (decodes_alone tk) ?h"
    proof -
      have "length pending = longest ss h" using inv that by (simp add: streaming_def)
      then show ?thesis using longest_snoc [of ss h t] False by (simp add: q_def m_def)
    qed
    moreover have "length (drop (length q - m) q) \<le> m" by simp
    moreover have "\<not> (\<forall>p. prefix p ?h \<longrightarrow> longest ss p = 0)" using False by (auto simp: m_def)
    ultimately show ?thesis using False d(1) [THEN conjunct2]
      unfolding streaming_def flush_spec m_def [symmetric] by (auto simp del: length_drop take_append drop_append)
  qed
qed

lemma streaming_emitted:
  assumes "streaming tk ss h out pending bpe"
  shows "out @ concat pending = concat (texts_of tk h)"
    and "prefix out (concat (texts_of tk (take (length h - longest ss h) h)))"
proof -
  let ?k = "take (length h - longest ss h) h"
  obtain e where e: "e \<le> length (texts_of tk ?k)" "out = concat (take e (texts_of tk h))"
    "pending = drop e (texts_of tk h)"
    using assms by (auto simp: streaming_def)
  then show "out @ concat pending = concat (texts_of tk h)"
    by (metis append_take_drop_id concat_append)
  obtain xs where "texts_of tk h = texts_of tk ?k @ xs"
    using texts_of_take_prefix [of tk h "length h - longest ss h"] by blast
  then have "out = concat (take e (texts_of tk ?k))" using e by simp
  then show "prefix out (concat (texts_of tk ?k))"
    by (metis append_take_drop_id concat_append prefixI)
qed

lemma streaming_all:
  assumes "streaming tk ss h out pending bpe"
    and "length (texts_of tk (take (length h - longest ss h) h)) = length (texts_of tk h) - length pending"
  shows "out = concat (texts_of tk (take (length h - longest ss h) h))"
proof -
  let ?k = "take (length h - longest ss h) h"
  obtain e where e: "e \<le> length (texts_of tk ?k)" "out = concat (take e (texts_of tk h))"
    "pending = drop e (texts_of tk h)"
    using assms(1) unfolding streaming_def by blast
  obtain xs where x: "texts_of tk h = texts_of tk ?k @ xs"
    using texts_of_take_prefix [of tk h "length h - longest ss h"] by blast
  have n: "length (texts_of tk ?k) \<le> length (texts_of tk h)"
    using arg_cong [OF x, of length] by simp
  have "length pending = length (texts_of tk h) - e" by (simp add: e(3))
  then have "e = length (texts_of tk ?k)" using e(1) assms(2) n by linarith
  moreover have "take (length (texts_of tk ?k)) (texts_of tk h) = texts_of tk ?k"
    by (subst x) simp
  ultimately show ?thesis by (simp only: e(2))
qed

lemma length_history: "length (history cols i) = length cols"
  by (simp add: history_def)

lemma text_inv_step:
  assumes inv: "text_inv tk ss h out pending bpe"
    and step: "process_candidate (TokenIdsToText tk (bpe @ [t])) (bpe @ [t]) found m bpe pending =
      Some (res, bpe', pending')"
    and found: "found \<longleftrightarrow> (\<exists>p. prefix p (h @ [t]) \<and> completes ss p)"
    and m: "\<not> found \<Longrightarrow> m = longest ss (h @ [t])"
  shows "text_inv tk ss (h @ [t]) (out @ res) pending' bpe'"
proof (cases found)
  case True
  then have r: "res = []" using step by (auto simp: process_candidate_def split: if_splits)
  have "\<exists>pending bpe. streaming tk ss p out pending bpe"
    if p: "prefix (p @ [t']) (h @ [t])" "completes ss (p @ [t'])" "\<forall>q. prefix q p \<longrightarrow> \<not> completes ss q" for p t'
  proof (cases "prefix (p @ [t']) h")
    case True
    then show ?thesis using inv p by (auto simp: text_inv_def)
  next
    case False
    then have "p = h" using p(1) by (auto simp: prefix_append prefix_Cons)
    then show ?thesis using inv p(3) by (auto simp: text_inv_def)
  qed
  then show ?thesis using found True r by (auto simp: text_inv_def)
next
  case False
  then have none: "\<forall>p. prefix p (h @ [t]) \<longrightarrow> \<not> completes ss p" using found by blast
  then have s: "streaming tk ss h out pending bpe" using inv by (simp add: text_inv_def)
  have "streaming tk ss (h @ [t]) (out @ res) pending' bpe'"
  proof (cases "TokenIdsToText tk (bpe @ [t])")
    case (Inl e)
    then have "res = []" "bpe' = bpe @ [t]" "pending' = pending"
      using step False by (auto simp: process_candidate_def split: if_splits)
    then show ?thesis using streaming_incomplete [OF s Inl] by simp
  next
    case (Inr x)
    have "res = (if m = 0 then fst (flush m (if m > 0 then pending @ [x] else pending) []) @ x
        else fst (flush m (if m > 0 then pending @ [x] else pending) []))"
      "bpe' = []" "pending' = snd (flush m (if m > 0 then pending @ [x] else pending) [])"
      using step False Inr by (auto simp: process_candidate_def IsIncompleteBpeSequence_def Let_def)
    then show ?thesis using streaming_text [OF s Inr] unfolding m [OF False] by simp
  qed
  then show ?thesis using none by (auto simp: text_inv_def)
qed

inductive decode_history ::
  "('e, 'c, 'f, 's) decode_env \<Rightarrow> ('e, 'c, 'f, 's) decode_state \<Rightarrow> int list list \<Rightarrow> string list list \<Rightarrow>
     ('e, 'c, 'f, 's) decode_state \<Rightarrow> bool" for env s0
where
  start: "decode_history env s0 [] [] s0"
| step: "decode_history env s0 cols outs s \<Longrightarrow> fst (DecodeAndSample env s) = Inr col \<Longrightarrow>
     Run env s = Some (Inr d, s') \<Longrightarrow> decode_history env s0 (cols @ [col]) (outs @ [result_text s']) s'"

definition emitted :: "string list list \<Rightarrow> nat \<Rightarrow> string" where
  "emitted outs i = concat (map (\<lambda>r. r ! i) outs)"

lemma process_all_snoc: "process_all (cols @ [c]) d = snd (ProcessTokens c (process_all cols d))"
  by (simp add: process_all_def)

lemma history_snoc: "history (cols @ [c]) i = history cols i @ [c ! i]"
  by (simp add: history_def)

lemma decode_history_inv:
  assumes d: "fresh d" "length (stop_token_found d) = num_output_candidates env"
    and hist: "decode_history env (DecodeOneStep env e ss d b now ids) cols outs s"
  shows "(\<forall>c \<in> set cols. length c = num_output_candidates env) \<and> detector s = process_all cols d \<and>
    length (bpe_partial_token_ids s) = num_output_candidates env \<and>
    (\<forall>i < num_output_candidates env.
       text_inv (tokenizer_of env) (stop_sequences_storage d) (history cols i) (emitted outs i)
         (pending_stop_tokens s ! i) (bpe_partial_token_ids s ! i))"
  using hist
proof (induction rule: decode_history.induct)
  case start
  have "[] \<notin> set (stop_sequences_storage d)" using d(1) by (simp add: fresh_def wf_detector_def)
  then show ?case
    by (auto simp: DecodeOneStep_def process_all_def text_inv_def streaming_def history_def emitted_def
        longest_def map_replicate_const fold_max_zero)
next
  case (step cols outs s col dn s')
  let ?n = "num_output_candidates env" and ?ss = "stop_sequences_storage d" and ?tk = "tokenizer_of env"
  obtain s1 where "DecodeAndSample env s = (Inr col, s1)" using step.hyps(2) by (metis prod.collapse)
  note r = Run_step [OF step.hyps(3) this]
  have cols: "\<forall>c \<in> set (cols @ [col]). length c = ?n" using r step.IH by auto
  have det: "detector s' = process_all (cols @ [col]) d"
    using r step.IH by (simp add: process_all_snoc)
  have each: "text_inv ?tk ?ss (history (cols @ [col]) i) (emitted (outs @ [result_text s']) i)
      (pending_stop_tokens s' ! i) (bpe_partial_token_ids s' ! i)"
    if i: "i < ?n" for i
  proof -
    have "item_spec ?ss (history (cols @ [col]) i) (item_of (detector s') i)"
      unfolding det using process_all_spec [OF d(1), of "cols @ [col]" i] cols i d(2) by simp
    then have sp: "stop_token_found (detector s') ! i \<longleftrightarrow>
        (\<exists>p. prefix p (history cols i @ [col ! i]) \<and> completes ?ss p)"
      "\<not> stop_token_found (detector s') ! i \<Longrightarrow>
        MaxPartialStopTokenLength (detector s') i = longest ?ss (history cols i @ [col ! i])"
      by (simp_all add: item_spec_def item_of_def history_snoc MaxPartialStopTokenLength_def longest_def)
    have "process_candidate (TokenIdsToText ?tk (bpe_partial_token_ids s ! i @ [col ! i]))
        (bpe_partial_token_ids s ! i @ [col ! i]) (stop_token_found (detector s') ! i)
        (MaxPartialStopTokenLength (detector s') i) (bpe_partial_token_ids s ! i) (pending_stop_tokens s ! i) =
        Some (result_text s' ! i, bpe_partial_token_ids s' ! i, pending_stop_tokens s' ! i)"
      using r i by simp
    moreover have "text_inv ?tk ?ss (history cols i) (emitted outs i) (pending_stop_tokens s ! i)
        (bpe_partial_token_ids s ! i)"
      using step.IH i by simp
    ultimately have "text_inv ?tk ?ss (history cols i @ [col ! i]) (emitted outs i @ result_text s' ! i)
        (pending_stop_tokens s' ! i) (bpe_partial_token_ids s' ! i)"
      using text_inv_step [OF _ _ sp] by blast
    then show ?thesis by (simp add: history_snoc emitted_def)
  qed
  show ?case using cols det each r by simp
qed


lemma progress_before_completion:
  assumes "progress q (p @ [t]) = length q" "progress q p \<noteq> length q" "q \<noteq> []"
  shows "progress q p = length q - 1"
  using assms progress_le [of q p] by (cases q) (auto simp: advance_def split: if_splits)

text \<open>C18.
  With one stop sequence, a stopped candidate has emitted only text of the tokens before the stop
  sequence (all sampled tokens but the last GetStepsBeforeStopTokens ones), from the beginning on, for
  any tokenizer and however long the other candidates went on. It has emitted all of that text when
  the stop sequence is a single token, or when every token decodes on its own; otherwise texts that were
  held back while a character was unfinished may be lost.\<close>

theorem decode_stops_before_stop_sequence:
  assumes "fresh d" "length (stop_token_found d) = num_output_candidates env"
    "stop_sequences_storage d = [q]"
    "decode_history env (DecodeOneStep env e ss d b now ids) cols outs s"
    "i < num_output_candidates env" "stop_token_found (detector s) ! i"
  shows "let before = concat (texts_of (tokenizer_of env)
      (take (length cols - GetStepsBeforeStopTokens (detector s) ! i) (history cols i))) in
    prefix (emitted outs i) before \<and>
    (length q = 1 \<or> list_all (decodes_alone (tokenizer_of env)) (history cols i) \<longrightarrow> emitted outs i = before)"
proof -
  define before where "before = concat (texts_of (tokenizer_of env)
      (take (length cols - GetStepsBeforeStopTokens (detector s) ! i) (history cols i)))"
  note inv = decode_history_inv [OF assms(1,2,4)]
  let ?h = "history cols i" and ?tk = "tokenizer_of env"
  have "item_spec [q] ?h (item_of (detector s) i)"
    using inv process_all_spec [OF assms(1), of cols i] assms(2,3,5) by simp
  then obtain p where p: "prefix p ?h" "progress q p = length q"
      "\<forall>p'. strict_prefix p' p \<longrightarrow> \<not> completes [q] p'"
    and len: "matched_stop_sequence_length (detector s) ! i = length q + (length ?h - length p)"
    using assms(6) by (auto simp: item_spec_def item_of_def)
  have q: "q \<noteq> []" using assms(1,3) by (auto simp: fresh_def wf_detector_def)
  obtain p0 t where pp: "p = p0 @ [t]" using p(2) q by (cases p rule: rev_exhaust) auto
  have none: "\<forall>p'. prefix p' p0 \<longrightarrow> \<not> completes [q] p'"
    using p(3) pp by (auto simp: strict_prefix_def prefix_def)
  have "completes [q] (p0 @ [t])" using p(2) pp by (simp add: completes_def)
  then obtain pend bpe where st: "streaming ?tk [q] p0 (emitted outs i) pend bpe"
    using inv assms(3,5) p(1) pp none unfolding text_inv_def by metis
  have "progress q p0 \<noteq> length q" using none by (auto simp: completes_def)
  then have l: "longest [q] p0 = length q - 1"
    using progress_before_completion [of q p0 t] p(2) pp q by (simp add: longest_def)
  obtain r where r: "?h = p @ r" using p(1) by (auto simp: prefix_def)
  have k: "take (length cols - GetStepsBeforeStopTokens (detector s) ! i) ?h =
      take (length p0 - longest [q] p0) p0"
  proof -
    have "length cols - GetStepsBeforeStopTokens (detector s) ! i = length p - length q"
      using len r length_history [of cols i] by (simp add: GetStepsBeforeStopTokens_def)
    also have "\<dots> = length p0 - longest [q] p0" using l pp q by (cases q) simp_all
    finally show ?thesis using r pp by simp
  qed
  have pre: "prefix (emitted outs i) before"
    using streaming_emitted [OF st] by (simp add: before_def k)
  have all: "emitted outs i = before" if "pend = [] \<and> longest [q] p0 = 0"
    using streaming_emitted [OF st] that by (simp add: before_def k)
  have zero: "longest [q] p' = 0" if "length q = 1" "prefix p' p0" for p'
    using progress_le [OF q, of p'] none that by (force simp: longest_def completes_def)
  have whole: "emitted outs i = before" if w: "list_all (decodes_alone ?tk) ?h"
  proof -
    have w0: "list_all (decodes_alone ?tk) p0" using w r pp by simp
    then have "list_all (decodes_alone ?tk) (take (length p0 - longest [q] p0) p0)"
      by (auto simp: list_all_iff dest: in_set_takeD)
    from detok_whole(2) [OF this] detok_whole(2) [OF w0] w0 st
    have "length pend = longest [q] p0" "length (texts_of ?tk (take (length p0 - longest [q] p0) p0)) =
        length (texts_of ?tk p0) - length pend"
      by (simp_all add: streaming_def)
    with streaming_all [OF st] show ?thesis by (simp add: before_def k)
  qed
  have "emitted outs i = before" if "length q = 1"
    using all zero [OF that] st by (auto simp: streaming_def)
  with pre whole show ?thesis unfolding before_def [symmetric] Let_def by blast
qed

section \<open>Concrete decodes\<close>

fun run_steps ::
  "('e, 'c, 'f, 's) decode_env \<Rightarrow> nat \<Rightarrow> ('e, 'c, 'f, 's) decode_state \<Rightarrow>
     (int list list \<times> string list list \<times> ('e, 'c, 'f, 's) decode_state) option"
where
  "run_steps env 0 s = Some ([], [], s)"
| "run_steps env (Suc k) s =
     (case run_steps env k s of
        None \<Rightarrow> None
      | Some (cols, outs, s1) \<Rightarrow>
          (case (fst (DecodeAndSample env s1), Run env s1) of
             (Inr col, Some (Inr d, s2)) \<Rightarrow> Some (cols @ [col], outs @ [result_text s2], s2)
           | _ \<Rightarrow> None))"

lemma run_steps_history: "run_steps env k s0 = Some (cols, outs, s) \<Longrightarrow> decode_history env s0 cols outs s"
proof (induction k arbitrary: cols outs s)
  case 0
  then show ?case by (simp add: decode_history.start)
next
  case (Suc k)
  then obtain cols1 outs1 s1 col d where k: "run_steps env k s0 = Some (cols1, outs1, s1)"
    and c: "fst (DecodeAndSample env s1) = Inr col" "Run env s1 = Some (Inr d, s)"
      "cols = cols1 @ [col]" "outs = outs1 @ [result_text s]"
    by (auto split: option.splits sum.splits)
  then show ?case using decode_history.step [OF Suc.IH [OF k] c(1,2)] by simp
qed

text \<open>An executor that yields prescribed columns of tokens and counts its steps.\<close>

definition script_executor :: "int \<Rightarrow> (int list list \<times> int, unit, int) llm_executor" where
  "script_executor mx = \<lparr>GetMaxNumTokens = (\<lambda>_. Inr mx),
     ExecutorPrefill = (\<lambda>_ _ e. (Ok, e)),
     ExecutorDecode = (\<lambda>_ ec. (case fst (fst ec) of
         [] \<Rightarrow> (Inr [0], (([], snd (fst ec) + 1), snd ec))
       | c # cs \<Rightarrow> (Inr c, ((cs, snd (fst ec) + 1), snd ec)))),
     ExecutorDecodeLogits = (\<lambda>_ e. (Inl Unimplemented, e)),
     GetCurrentStep = (\<lambda>e. Inr (snd e))\<rparr>"

definition letter_tokenizer :: tokenizer where
  "letter_tokenizer = \<lparr>TokenIdsToText = (\<lambda>ids. Inr (map (\<lambda>t. char_of (nat t + 96)) ids)),
     TextToTokenIds = (\<lambda>s. Inr (map (\<lambda>c. int (of_char c) - 96) s))\<rparr>"

definition int_floats :: "int float_ops" where
  "int_floats = \<lparr>fzero = 0, fadd = (+), fdiv = (\<lambda>x n. x div int n), fneg_infinity = -1000, flowest = -1000\<rparr>"

definition script_env :: "int \<Rightarrow> (int list list \<times> int, unit, int, unit) decode_env" where
  "script_env mx = \<lparr>executor = script_executor mx, tokenizer_of = letter_tokenizer,
     num_output_candidates = 1, sampler = None, constraint_of = None, float_ops_of = int_floats,
     clock = int\<rparr>"

definition script_start :: "int \<Rightarrow> int list list \<Rightarrow> int list list \<Rightarrow>
  (int list list \<times> int, unit, int, unit) decode_state" where
  "script_start mx stops toks =
     DecodeOneStep (script_env mx) (toks, 0) () (demo_detector stops 1) None 1 None"

text \<open>A tokenizer whose token 9 is the first of the three bytes of a character.\<close>

definition bpe_tokenizer :: tokenizer where
  "bpe_tokenizer = letter_tokenizer\<lparr>TokenIdsToText :=
     (\<lambda>ids. if hd ids = 9 \<and> length ids < 3 then Inl DataLoss else TokenIdsToText letter_tokenizer ids)\<rparr>"

definition bpe_env :: "(int list list \<times> int, unit, int, unit) decode_env" where
  "bpe_env = (script_env 100)\<lparr>tokenizer_of := bpe_tokenizer\<rparr>"

definition bpe_start :: "int list list \<Rightarrow> int list list \<Rightarrow>
  (int list list \<times> int, unit, int, unit) decode_state" where
  "bpe_start stops toks = DecodeOneStep bpe_env (toks, 0) () (demo_detector stops 1) None 1 None"

definition summary ::
  "(int list list \<times> string list list \<times> ('e, 'c, 'f, 's) decode_state) option \<Rightarrow>
     (int list list \<times> string list list \<times> bool list \<times> nat list \<times> string list list) option"
where
  "summary r = map_option (\<lambda>(cols, outs, s). (cols, outs, stop_token_found (detector s),
     GetStepsBeforeStopTokens (detector s), pending_stop_tokens s)) r"

lemma stop_run:
  "summary (run_steps bpe_env 5 (bpe_start [[2]] [[5], [9], [1], [3], [2]])) =
     Some ([[5], [9], [1], [3], [2]], [[''e''], [''''], [''''], [''iac''], ['''']], [True], [1], [[]])"
  by code_simp

lemma summary_Some:
  "summary r = Some (cols, outs, f, g, p) \<Longrightarrow> \<exists>s. r = Some (cols, outs, s) \<and>
     stop_token_found (detector s) = f \<and> GetStepsBeforeStopTokens (detector s) = g \<and> pending_stop_tokens s = p"
  by (auto simp: summary_def)

lemma demo_fresh: "[] \<notin> set ss \<Longrightarrow> ss \<noteq> [] \<Longrightarrow> fresh (demo_detector ss 1)"
  by (simp add: demo_detector_def fresh_ResetBatch)

lemma demo_length: "length (stop_token_found (demo_detector ss 1)) = num_output_candidates (script_env m)"
  by (simp add: demo_detector_def ResetBatch_def script_env_def Let_def)

lemma bpe_length: "length (stop_token_found (demo_detector ss 1)) = num_output_candidates bpe_env"
  by (simp add: demo_detector_def ResetBatch_def bpe_env_def script_env_def Let_def)



lemma decode_stops_before_stop_sequence_witness:
  "emitted [[''e''], [''''], [''''], [''iac''], ['''']] 0 =
     concat (texts_of bpe_tokenizer (take (5 - 1) (history [[5], [9], [1], [3], [2]] 0)))"
proof -
  obtain s where s: "run_steps bpe_env 5 (bpe_start [[2]] [[5], [9], [1], [3], [2]]) =
      Some ([[5], [9], [1], [3], [2]], [[''e''], [''''], [''''], [''iac''], ['''']], s)" "stop_token_found (detector s) = [True]"
    "GetStepsBeforeStopTokens (detector s) = [1]"
    using summary_Some [OF stop_run] by blast
  have h: "decode_history bpe_env (DecodeOneStep bpe_env ([[5], [9], [1], [3], [2]], 0) ()
      (demo_detector [[2]] 1) None 1 None) [[5], [9], [1], [3], [2]] [[''e''], [''''], [''''], [''iac''], ['''']] s"
    using run_steps_history [OF s(1)] by (simp add: bpe_start_def)
  have q: "stop_sequences_storage (demo_detector [[2]] 1) = [[2]]"
    by (simp add: demo_detector_def ResetBatch_def)
  from decode_stops_before_stop_sequence [OF demo_fresh bpe_length q h, of 0] s
  show ?thesis by (simp add: bpe_env_def script_env_def Let_def numeral_eq_Suc)
qed

text \<open>Text that is held back is lost when the stop sequence completes before a character does: with the
  stop sequence 1 2 and the sampled tokens 1 9 1 2, the text of the first token is never emitted,
  although it stands before the stop sequence.\<close>

lemma decode_loses_text_before_unfinished_character:
  "\<exists>s. decode_history bpe_env (bpe_start [[1, 2]] [[1], [9], [1], [2]])
         [[1], [9], [1], [2]] [[''''], [''''], [''''], ['''']] s \<and>
       stop_token_found (detector s) = [True] \<and> GetStepsBeforeStopTokens (detector s) = [2] \<and>
       emitted [[''''], [''''], [''''], ['''']] 0 = '''' \<and>
       concat (texts_of bpe_tokenizer (take (4 - 2) (history [[1], [9], [1], [2]] 0))) = ''a''"
proof -
  have r: "summary (run_steps bpe_env 4 (bpe_start [[1, 2]] [[1], [9], [1], [2]])) =
     Some ([[1], [9], [1], [2]], [[''''], [''''], [''''], ['''']], [True], [2], [[''a'']])"
    by code_simp
  have e: "emitted [[''''], [''''], [''''], ['''']] 0 = ''''" by (simp add: emitted_def)
  have t: "concat (texts_of bpe_tokenizer (take (4 - 2) (history [[1], [9], [1], [2]] 0))) = ''a''"
    by code_simp
  from summary_Some [OF r] e t show ?thesis using run_steps_history by blast
qed

text \<open>With several stop sequences, text that belongs to no stop sequence can be lost: with the stop
  sequences 1 2 3 4 and 3 and the sampled tokens 1 2 3, the second one completes with a matched
  length of one token, but the texts of 1 and 2, held back for the first one, are never emitted.\<close>

theorem decode_loses_text_of_other_partial_match:
  "\<exists>s. decode_history (script_env 100) (script_start 100 [[1, 2, 3, 4], [3]] [[1], [2], [3]])
         [[1], [2], [3]] [[''''], [''''], ['''']] s \<and>
       stop_token_found (detector s) = [True] \<and> GetStepsBeforeStopTokens (detector s) = [1] \<and>
       emitted [[''''], [''''], ['''']] 0 = '''' \<and>
       concat (map (\<lambda>t. [char_of (nat t + 96)]) (take (3 - 1) (history [[1], [2], [3]] 0))) = ''ab''"
proof -
  have r: "summary (run_steps (script_env 100) 3 (script_start 100 [[1, 2, 3, 4], [3]] [[1], [2], [3]])) =
     Some ([[1], [2], [3]], [[''''], [''''], ['''']], [True], [1], [[''a'', ''b'']])"
    by code_simp
  have e: "emitted [[''''], [''''], ['''']] 0 = ''''" by (simp add: emitted_def)
  have t: "concat (map (\<lambda>t. [char_of (nat t + 96)]) (take (3 - 1) (history [[1], [2], [3]] 0))) = ''ab''"
    by code_simp
  from summary_Some [OF r] e t show ?thesis using run_steps_history by blast
qed

section \<open>The decode loop ends\<close>

lemma exec_frames:
  "update_constraint env ids s = (r1, s1) \<Longrightarrow> exec s1 = exec s"
  "mask_logits env lg s = (r3, s3) \<Longrightarrow> exec s3 = exec s"
  "run_sampler env smp lg s = (r4, s4) \<Longrightarrow> exec s4 = exec s"
  by (auto simp: update_constraint_def mask_logits_def run_sampler_def Let_def
      split: option.splits if_splits sum.splits)

lemma bind_Inr:
  "assign_or_return m k s = (Inr v, s') \<Longrightarrow> \<exists>u s1. m s = (Inr u, s1) \<and> k u s1 = (Inr v, s')"
  by (auto simp: assign_or_return_def split: prod.splits sum.splits)

lemma Run_Inr:
  assumes "Run env s = Some (Inr d, s')"
  shows "\<exists>col s1. DecodeAndSample env s = (Inr col, s1) \<and> exec s' = exec s1"
  using assms by (auto simp: Run_def process_candidates_def split: prod.splits sum.splits)

lemma accumulate_step [simp]: "step (accumulate env l) = step l"
  by (simp add: accumulate_def Let_def)

lemma decode_result_fuel [simp]: "decode_result env str mx l \<noteq> OutOfFuel"
  by (auto simp: decode_result_def Let_def split: sum.splits)

lemma decode_result_state:
  "decode_result env str mx l = Returned r \<Longrightarrow> GetTaskState r = kDone \<or> GetTaskState r = kMaxNumTokensReached"
  by (auto simp: decode_result_def Let_def split: sum.splits if_splits)

text \<open>
  What the loop needs of an executor: some count \<open>pos\<close> of the tokens it has processed grows with every
  decode that succeeds, and the current step, which is then known, is not behind that count. (The
  current step itself need not grow: the first \<^verbatim>\<open>DecodeLogits\<close> of the compiled executors only replaces and
  processes a token that was counted already.) \<open>good\<close> is what holds of the executor between its calls.
\<close>

locale advancing_executor =
  fixes x :: "('e, 'c, 'f) llm_executor"
    and pos :: "'e \<Rightarrow> int"
    and good :: "'e \<Rightarrow> bool"
  assumes decode_advances: "good e \<Longrightarrow> ExecutorDecode x c (e, cs) = (Inr ids, (e', cs')) \<Longrightarrow>
      good e' \<and> pos e < pos e' \<and> (\<exists>k \<ge> pos e'. GetCurrentStep x e' = Inr k)"
    and logits_advance: "good e \<Longrightarrow> ExecutorDecodeLogits x step_ids e = (Inr lg, e') \<Longrightarrow>
      good e' \<and> pos e < pos e' \<and> (\<exists>k \<ge> pos e'. GetCurrentStep x e' = Inr k)"
begin

lemma DecodeAndSample_advances:
  assumes "executor env = x" "good (exec s)" "DecodeAndSample env s = (Inr col, s')"
  shows "good (exec s') \<and> pos (exec s) < pos (exec s') \<and> (\<exists>k \<ge> pos (exec s'). GetCurrentStep x (exec s') = Inr k)"
proof (cases "sampler env")
  case None
  then have "\<exists>cs' e'. ExecutorDecode x (constraint_of env) (exec s, decoder_states s) =
      (Inr col, e', cs') \<and> exec s' = e'"
    using assms(1,3) by (auto simp: DecodeAndSample_def Let_def split: sum.splits)
       (metis prod.collapse)
  then show ?thesis using decode_advances [OF assms(2)] by blast
next
  case (Some smp)
  then obtain ids where "decoded_ids s = Some ids"
    using assms(3) by (auto simp: DecodeAndSample_def split: option.splits)
  then obtain s1 lg s2 lg' s3 where
    u: "update_constraint env ids s = (Inr (), s1)" and
    l: "run_logits env ids (mark env ''executor_decode'' s1) = (Inr lg, s2)" and
    m: "mask_logits env lg (mark env ''executor_decode'' s2) = (Inr lg', s3)" and
    p: "\<exists>s4. run_sampler env smp lg' (mark env ''sampling'' s3) = (Inr col, s4) \<and> s' = mark env ''sampling'' s4"
    using assms(3) Some by (auto simp: DecodeAndSample_def dest!: bind_Inr)
  have "exec s1 = exec s" by (rule exec_frames(1) [OF u])
  moreover have "exec s3 = exec s2" using exec_frames(2) [OF m] by simp
  moreover have "exec s' = exec s3" using p exec_frames(3) by fastforce
  moreover have "ExecutorDecodeLogits x ids (exec s1) = (Inr lg, exec s2)"
    using l assms(1) by (cases "ExecutorDecodeLogits x ids (exec s1)") (auto simp: run_logits_def Let_def)
  ultimately show ?thesis using logits_advance assms(2) by metis
qed

lemma decode_iteration_Continue:
  assumes "executor env = x" "good (exec (step l))"
    "decode_iteration env str cancelled count mx l = Returned (Continue, l')"
  shows "good (exec (step l')) \<and> pos (exec (step l)) < pos (exec (step l')) \<and> pos (exec (step l')) < mx"
proof -
  obtain d s where r: "Run env (step l) = Some (Inr d, s)" and s: "step l' = s"
    and c: "\<exists>k'. GetCurrentStep x (exec s) = Inr k' \<and> k' < mx"
    using assms(1,3)
    by (auto simp: decode_iteration_def Let_def ShouldStop_def split: if_splits option.splits sum.splits)
  obtain col s1 where "DecodeAndSample env (step l) = (Inr col, s1)" "exec s = exec s1"
    using Run_Inr [OF r] by blast
  from DecodeAndSample_advances [OF assms(1,2) this(1)] this(2) s c show ?thesis by auto
qed

lemma decode_loop_ends:
  "executor env = x \<Longrightarrow> good (exec (step l)) \<Longrightarrow> nat (mx - pos (exec (step l))) < fuel \<Longrightarrow>
     decode_loop env str cancelled count mx fuel l \<noteq> OutOfFuel"
proof (induction fuel arbitrary: l)
  case (Suc fuel)
  show ?case
  proof (cases "\<exists>l'. decode_iteration env str cancelled count mx l = Returned (Continue, l')")
    case True
    then obtain l' where l': "decode_iteration env str cancelled count mx l = Returned (Continue, l')" ..
    note k' = decode_iteration_Continue [OF Suc.prems(1,2) l']
    then have "nat (mx - pos (exec (step l'))) < fuel" using Suc.prems(3) by linarith
    with Suc.IH [OF Suc.prems(1)] k' show ?thesis by (simp add: l')
  next
    case False
    have "decode_iteration env str cancelled count mx l \<noteq> OutOfFuel"
      by (auto simp: decode_iteration_def Let_def split: option.splits sum.splits)
    with False show ?thesis by (auto split: outcome.splits loop_exit.splits)
  qed
qed simp

lemma Decode_ends:
  assumes "executor env = x" "good e" "nat (TryGetMaxNumTokens x e - pos e) < fuel"
  shows "Decode env str cancelled fuel e ss d ids b \<noteq> OutOfFuel \<and>
    (\<forall>r l b'. Decode env str cancelled fuel e ss d ids b = Returned (Inr r, l, b') \<longrightarrow>
       GetTaskState r = kDone \<or> GetTaskState r = kMaxNumTokensReached)"
proof -
  let ?l = "\<lambda>b. init_loop env (DecodeOneStep env e ss d b 1 ids)"
  have "exec (step (?l b)) = e" for b
    by (simp add: init_loop_def DecodeOneStep_def Let_def)
  with decode_loop_ends [OF assms(1)] assms
  have loop: "decode_loop env str cancelled count (TryGetMaxNumTokens (executor env) e) fuel (?l b) \<noteq> OutOfFuel"
    for count b by simp
  then show ?thesis
    by (auto simp: Decode_def Let_def try_or_return_def dest: decode_result_state
        split: sum.splits outcome.splits loop_exit.splits option.splits prod.splits)
qed

end

section \<open>Benchmarks around a task\<close>

text \<open>The time marks of a decode are lost: DecodeOneStep keeps a copy of the benchmark, so whatever
  Decode does, the caller's benchmark has the mark durations it had before ("executor_decode",
  "sampling" and "executor_decode_and_sample" never reach GetMarkDurations).\<close>

theorem decode_marks_are_lost:
  "case Decode env str cancelled fuel e ss d ids b of
     Returned (r, l, b') \<Rightarrow> map_option mark_durations b' = map_option mark_durations b
   | _ \<Rightarrow> True"
  by (auto simp: Decode_def Let_def end_turn_def TimeDecodeTurnStart_def TimeDecodeTurnEnd_def try_or_return_def
      split: sum.splits outcome.splits loop_exit.splits option.splits prod.splits if_splits)

text \<open>Prefill only reaches the executor with a token tensor that is not empty and shorter than the
  maximum number of tokens: otherwise it is refused and nothing changes, the benchmark included.\<close>

theorem prefill_refuses_bad_inputs:
  "(if last dims \<ge> TryGetMaxNumTokens x e
    then Prefill x clk (Some (dims, toks)) w (e, b, now) = (Inl InvalidArgument, (e, b, now))
    else if toks = [] then Prefill x clk (Some (dims, toks)) w (e, b, now) = (Inl Internal, (e, b, now))
    else case fst (Prefill x clk (Some (dims, toks)) w (e, b, now)) of
           Inr r \<Rightarrow> r = StateResponse kDone \<and> fst (ExecutorPrefill x (dims, toks) (case b of None \<Rightarrow> w | Some _ \<Rightarrow> True) e) = Ok
         | Inl _ \<Rightarrow> True) \<and>
   Prefill x clk None w (e, b, now) = (Inl NotFound, (e, b, now))"
  by (auto simp: Prefill_def Let_def assign_or_return_def split: sum.splits prod.splits option.splits)

text \<open>A prefill that fails on the executor leaves its benchmark turn open, and nothing closes it:
  every later prefill with that benchmark is refused with an Internal error before it reaches the
  executor.\<close>

theorem failed_prefill_blocks_benchmark:
  assumes "start_time_map i (prefill_phase i) = None" "last dims < TryGetMaxNumTokens x e" "toks \<noteq> []"
    "ExecutorPrefill x (dims, toks) True e = (Inl err, e')"
    "last dims2 < TryGetMaxNumTokens x e'" "toks2 \<noteq> []"
  shows "\<exists>i'. Prefill x clk (Some (dims, toks)) w (e, Some i, now) = (Inl err, (e', Some i', now + 1)) \<and>
    Prefill x clk (Some (dims2, toks2)) w2 (e', Some i', now') = (Inl Internal, (e', Some i', now' + 1))"
proof -
  obtain i' where s: "TimePrefillTurnStart (clk now) i = (Ok, i')"
    and "start_time_map i' (prefill_phase i') = Some (clk now)"
    using assms(1) by (simp add: TimePrefillTurnStart_def prefill_phase_def)
  from prefill_clock.start_twice [OF this(2)]
  have t: "TimePrefillTurnStart t i' = (Inl Internal, i')" for t .
  show ?thesis
    by (intro exI [of _ i'])
       (use assms s t in \<open>simp add: Prefill_def Let_def assign_or_return_def\<close>)
qed

definition failing_executor :: "(unit, unit, int) llm_executor" where
  "failing_executor = \<lparr>GetMaxNumTokens = (\<lambda>_. Inr 8), ExecutorPrefill = (\<lambda>_ _ e. (Inl Internal, e)),
     ExecutorDecode = (\<lambda>_ ec. (Inl Internal, ec)), ExecutorDecodeLogits = (\<lambda>_ e. (Inl Internal, e)),
     GetCurrentStep = (\<lambda>_. Inr 0)\<rparr>"

lemma failed_prefill_blocks_benchmark_witness:
  "\<exists>i'. Prefill failing_executor int (Some ([1, 2], [5, 6])) False ((), Some (BenchmarkInfo 0 0), 0) =
          (Inl Internal, ((), Some i', 1)) \<and>
        Prefill failing_executor int (Some ([1, 1], [7])) False ((), Some i', 1) = (Inl Internal, ((), Some i', 2))"
  using failed_prefill_blocks_benchmark [of "BenchmarkInfo 0 0" "[1, 2]" failing_executor "()" "[5, 6]" Internal "()"
      "[1, 1]" "[7]" int False 0 False 1]
  by (simp add: BenchmarkInfo_def failing_executor_def TryGetMaxNumTokens_def numeral_2_eq_2)

end
