(* ===== verification/Scoring.thy ===== *)
theory Scoring
  imports Tasks
begin

text \<open>
  Scoring of target texts: \<^verbatim>\<open>Score\<close> and \<^verbatim>\<open>DecodeOneStep::RunScoreStep\<close> of
  \<^verbatim>\<open>runtime/core/tasks.cc\<close>. \<open>loglik\<close> is \<^verbatim>\<open>ComputeLogLikelihood\<close>
  (\<^verbatim>\<open>runtime/components/scoring_cpu_util.cc\<close>, floating point): from the logits, the ids of the step and
  the temperature it computes one value per target.
\<close>

type_synonym 'f likelihood = "int list \<times> 'f list \<Rightarrow> int list \<Rightarrow> 'f \<Rightarrow> 'f list status_or"

fun encode_targets :: "tokenizer \<Rightarrow> string list \<Rightarrow> int list list status_or" where
  "encode_targets tk [] = Inr []"
| "encode_targets tk (t # ts) =
     try_or_return (TextToTokenIds tk t) (\<lambda>ids. try_or_return (encode_targets tk ts) (\<lambda>r. Inr (ids # r)))"

definition max_target_length :: "int list list \<Rightarrow> nat" where
  "max_target_length ids = fold (\<lambda>i m. max m (length i)) ids 0"

text \<open>The ids of step \<open>i\<close>, padded with the null token.\<close>

definition step_ids :: "int list list \<Rightarrow> nat \<Rightarrow> int list" where
  "step_ids ids i = map (\<lambda>t. if i < length t then t ! i else 0) ids"

text \<open>The state: the executor and the shared buffer of decoded ids.\<close>

definition RunScoreStep ::
  "('e, 'c, 'f) llm_executor \<Rightarrow> 'f likelihood \<Rightarrow> 'f \<Rightarrow> int list \<Rightarrow> ('e \<times> int list, 'f list) op"
where
  "RunScoreStep x loglik temperature ids s =
     (case ExecutorDecodeLogits x (snd s) (fst s) of
        (Inl err, e) \<Rightarrow> (Inl err, (e, snd s))
      | (Inr logits, e) \<Rightarrow> (loglik logits ids temperature, (e, ids)))"

definition add_scores :: "'f float_ops \<Rightarrow> int list list \<Rightarrow> nat \<Rightarrow> 'f list \<Rightarrow> 'f list \<Rightarrow> 'f list" where
  "add_scores fops ids i ll scores =
     map (\<lambda>j. if i < length (ids ! j) then fadd fops (scores ! j) (ll ! j) else scores ! j) [0..<length ids]"

fun score_loop ::
  "('e, 'c, 'f) llm_executor \<Rightarrow> 'f float_ops \<Rightarrow> 'f likelihood \<Rightarrow> 'f \<Rightarrow> int list list \<Rightarrow> nat list \<Rightarrow>
     'f list \<Rightarrow> ('e \<times> int list, 'f list) op"
where
  "score_loop x fops loglik temperature ids [] scores s = (Inr scores, s)"
| "score_loop x fops loglik temperature ids (i # is) scores s =
     assign_or_return (RunScoreStep x loglik temperature (step_ids ids i))
       (\<lambda>ll. score_loop x fops loglik temperature ids is (add_scores fops ids i ll scores)) s"

text \<open>\<open>None\<close>: the dummy detector's check fails on an empty list of targets.\<close>

definition Score ::
  "('e, 'c, 'f) llm_executor \<Rightarrow> tokenizer \<Rightarrow> 'f float_ops \<Rightarrow> 'f likelihood \<Rightarrow> string list \<Rightarrow> 'f \<Rightarrow>
     int list \<Rightarrow> bool \<Rightarrow> 'e \<Rightarrow> ('f responses status_or \<times> 'e) option"
where
  "Score x tk fops loglik targets temperature ids0 store_token_lengths e =
     (case StopTokenDetector (length targets) of
        None \<Rightarrow> None
      | Some _ \<Rightarrow> Some (
          case encode_targets tk targets of
            Inl err \<Rightarrow> (Inl err, e)
          | Inr ids \<Rightarrow>
              if int (max_target_length ids) \<ge> TryGetMaxNumTokens x e then (Inl InvalidArgument, e)
              else case score_loop x fops loglik temperature ids [0..<max_target_length ids]
                          (replicate (length targets) (fzero fops)) (e, ids0) of
                     (Inl err, s) \<Rightarrow> (Inl err, fst s)
                   | (Inr scores, s) \<Rightarrow>
                       (Inr (Responses kDone [] scores
                          (if store_token_lengths then map (\<lambda>i. int (length i)) ids else [])), fst s)))"

section \<open>What a score is\<close>

text \<open>The decode calls of a scoring: one per column of the padded targets, each on the ids of the
  step before.\<close>

fun decode_calls ::
  "('e, 'c, 'f) llm_executor \<Rightarrow> int list list \<Rightarrow> ('e, (int list \<times> 'f list) list) op"
where
  "decode_calls x [] e = (Inr [], e)"
| "decode_calls x (ids # rest) e =
     assign_or_return (ExecutorDecodeLogits x ids)
       (\<lambda>lg. assign_or_return (decode_calls x rest) (\<lambda>lgs e. (Inr (lg # lgs), e))) e"

definition sum_of :: "'f float_ops \<Rightarrow> 'f \<Rightarrow> 'f list \<Rightarrow> 'f" where
  "sum_of fops a xs = foldl (fadd fops) a xs"

lemma score_loop_spec:
  assumes "score_loop x fops loglik tp ids is scores (e, d) = (Inr result, e', d')"
    "length scores = length ids"
  shows "\<exists>lgs lls. decode_calls x (take (length is) (d # map (step_ids ids) is)) e = (Inr lgs, e') \<and>
    length lgs = length is \<and> length lls = length is \<and>
    (\<forall>k < length is. loglik (lgs ! k) (step_ids ids (is ! k)) tp = Inr (lls ! k)) \<and>
    length result = length ids \<and>
    (\<forall>j < length ids. result ! j =
       sum_of fops (scores ! j) (map (\<lambda>k. lls ! k ! j) (filter (\<lambda>k. is ! k < length (ids ! j)) [0..<length is])))"
  using assms
proof (induction "is" arbitrary: scores e d)
  case Nil
  then show ?case by (auto simp: sum_of_def)
next
  case (Cons i "is")
  obtain lg e1 ll where call: "ExecutorDecodeLogits x d e = (Inr lg, e1)"
    and ll: "loglik lg (step_ids ids i) tp = Inr ll"
    and rest: "score_loop x fops loglik tp ids is (add_scores fops ids i ll scores) (e1, step_ids ids i) = (Inr result, e', d')"
    using Cons.prems(1) by (auto simp: assign_or_return_def RunScoreStep_def split: prod.splits sum.splits)
  have "length (add_scores fops ids i ll scores) = length ids" by (simp add: add_scores_def)
  from Cons.IH [OF rest this] obtain lgs lls where
    ih: "decode_calls x (take (length is) (step_ids ids i # map (step_ids ids) is)) e1 = (Inr lgs, e')"
    "length lgs = length is" "length lls = length is"
    "\<forall>k < length is. loglik (lgs ! k) (step_ids ids (is ! k)) tp = Inr (lls ! k)"
    "length result = length ids"
    "\<forall>j < length ids. result ! j = sum_of fops (add_scores fops ids i ll scores ! j)
       (map (\<lambda>k. lls ! k ! j) (filter (\<lambda>k. is ! k < length (ids ! j)) [0..<length is]))"
    by blast
  have upt: "[0..<length (i # is)] = 0 # map Suc [0..<length is]"
    by (simp add: upt_conv_Cons map_Suc_upt del: upt_Suc)
  have "result ! j = sum_of fops (scores ! j) (map (\<lambda>k. (ll # lls) ! k ! j)
      (filter (\<lambda>k. (i # is) ! k < length (ids ! j)) [0..<length (i # is)]))" if j: "j < length ids" for j
  proof -
    have f: "filter (\<lambda>k. (i # is) ! k < length (ids ! j)) [0..<length (i # is)] =
        (if i < length (ids ! j) then [0] else []) @
        map Suc (filter (\<lambda>k. is ! k < length (ids ! j)) [0..<length is])"
      unfolding upt by (simp add: filter_map comp_def)
    have a: "add_scores fops ids i ll scores ! j =
        (if i < length (ids ! j) then fadd fops (scores ! j) (ll ! j) else scores ! j)"
      using j by (simp add: add_scores_def)
    show ?thesis unfolding f using ih(6) j a by (simp add: sum_of_def comp_def)
  qed
  moreover have "decode_calls x (take (length (i # is)) (d # map (step_ids ids) (i # is))) e = (Inr (lg # lgs), e')"
    using call ih(1) by (simp add: assign_or_return_def)
  moreover have "\<forall>k < length (i # is). loglik ((lg # lgs) ! k) (step_ids ids ((i # is) ! k)) tp = Inr ((ll # lls) ! k)"
    using ll ih(4) by (auto simp: nth_Cons split: nat.splits)
  ultimately show ?case using ih(2,3,5) by (intro exI [of _ "lg # lgs"] exI [of _ "ll # lls"]) simp
qed

text \<open>The score of a target is the sum of the log likelihoods of exactly its own tokens: when Score
  returns responses, it has made one decode call per token of the longest target (each on the ids of
  the step before, the first on the ids given), and the j-th score adds, in order, the j-th
  likelihood of the steps below the j-th target's length; padding adds nothing. The token lengths
  are those of the targets.\<close>

theorem score_sums_own_tokens:
  assumes "Score x tk fops loglik targets tp d True e = Some (Inr r, e')"
  shows "\<exists>ids lgs lls. encode_targets tk targets = Inr ids \<and>
    decode_calls x (take (max_target_length ids) (d # map (step_ids ids) [0..<max_target_length ids])) e = (Inr lgs, e') \<and>
    length lls = max_target_length ids \<and>
    (\<forall>k < max_target_length ids. loglik (lgs ! k) (step_ids ids k) tp = Inr (lls ! k)) \<and>
    length (GetScores r) = length targets \<and>
    (\<forall>j < length targets. GetScores r ! j =
       sum_of fops (fzero fops) (map (\<lambda>k. lls ! k ! j) [0..<length (ids ! j)])) \<and>
    GetTokenLengths r = Some (map (\<lambda>i. int (length i)) ids)"
proof -
  obtain ids scores s where ids: "encode_targets tk targets = Inr ids"
    and loop: "score_loop x fops loglik tp ids [0..<max_target_length ids]
        (replicate (length targets) (fzero fops)) (e, d) = (Inr scores, e', s)"
    and r: "r = Responses kDone [] scores (map (\<lambda>i. int (length i)) ids)" and ne: "targets \<noteq> []"
    using assms
    by (auto simp: Score_def StopTokenDetector_def split: sum.splits if_splits option.splits prod.splits)
  have len: "length ids = length targets"
  proof -
    have "encode_targets tk ts = Inr is \<Longrightarrow> length is = length ts" for ts "is"
      by (induction ts arbitrary: "is") (auto simp: try_or_return_Inr_iff)
    then show ?thesis using ids by blast
  qed
  have longest: "length (ids ! j) \<le> max_target_length ids" if "j < length ids" for j
  proof -
    have "a \<le> fold (\<lambda>i m. max m (length i)) is a \<and>
        (\<forall>i \<in> set is. length i \<le> fold (\<lambda>i m. max m (length i)) is a)" for "is" :: "int list list" and a
    proof (induction "is" arbitrary: a)
      case (Cons i "is")
      from Cons [of "max a (length i)"] show ?case by auto
    qed simp
    with that show ?thesis unfolding max_target_length_def by simp
  qed
  have upto: "filter (\<lambda>k. k < n) [0..<m] = [0..<n]" if "n \<le> m" for n m :: nat
    using that by (induction m) (auto simp: le_Suc_eq)
  have fk: "filter (\<lambda>k. [0..<m] ! k < n) [0..<m] = filter (\<lambda>k. k < n) [0..<m]" for n m :: nat
    by (rule filter_cong) simp_all
  from score_loop_spec [OF loop] len obtain lgs lls where
    k: "decode_calls x (take (max_target_length ids) (d # map (step_ids ids) [0..<max_target_length ids])) e = (Inr lgs, e')"
      "length lls = max_target_length ids"
      "\<forall>k < max_target_length ids. loglik (lgs ! k) (step_ids ids k) tp = Inr (lls ! k)"
      "length scores = length ids"
      "\<forall>j < length ids. scores ! j = sum_of fops (fzero fops) (map (\<lambda>k. lls ! k ! j)
         (filter (\<lambda>k. [0..<max_target_length ids] ! k < length (ids ! j)) [0..<max_target_length ids]))"
    by auto
  then show ?thesis using r ids len longest ne
    by (intro exI [of _ ids] exI [of _ lgs] exI [of _ lls]) (auto simp: fk upto Responses_def)
qed

definition logits_executor :: "(nat, unit, int) llm_executor" where
  "logits_executor = \<lparr>GetMaxNumTokens = (\<lambda>_. Inr 8), ExecutorPrefill = (\<lambda>_ _ e. (Ok, e)),
     ExecutorDecode = (\<lambda>_ ec. (Inl Internal, ec)),
     ExecutorDecodeLogits = (\<lambda>ids e. (Inr ([], map (\<lambda>i. i + int e) ids), e + 1)),
     GetCurrentStep = (\<lambda>_. Inr 0)\<rparr>"

definition sample_loglik :: "int likelihood" where
  "sample_loglik lg ids tp = Inr (map2 (\<lambda>a b. a * 10 + b) (snd lg) ids)"

lemma sample_score:
  "Score logits_executor letter_tokenizer int_floats sample_loglik [''ab'', ''c''] 1 [9, 9] True 0 =
     Some (Inr (Responses kDone [] [113, 93] [2, 1]), 2)"
  by code_simp

lemma score_sums_own_tokens_witness:
  "\<exists>lls. length lls = 2 \<and> (113::int) = sum_of int_floats 0 (map (\<lambda>k. lls ! k ! 0) [0..<2]) \<and>
     93 = sum_of int_floats 0 (map (\<lambda>k. lls ! k ! 1) [0..<1])"
proof -
  have ids: "encode_targets letter_tokenizer [''ab'', ''c''] = Inr [[1, 2], [3]]" by code_simp
  from score_sums_own_tokens [OF sample_score] obtain lls where
    l: "length lls = max_target_length [[1, 2], [3::int]]"
    "\<forall>j < length [''ab'', ''c'']. [113, 93] ! j =
       sum_of int_floats (fzero int_floats) (map (\<lambda>k. lls ! k ! j) [0..<length ([[1, 2], [3::int]] ! j)])"
    unfolding ids by auto
  have m: "max_target_length [[1, 2], [3::int]] = 2" "fzero int_floats = 0"
    by (simp_all add: max_target_length_def int_floats_def)
  have "sum_of int_floats 0 (map (\<lambda>k. lls ! k ! 0) [0..<2]) = 113"
    "sum_of int_floats 0 (map (\<lambda>k. lls ! k ! 1) [0..<1]) = 93"
    using l(2) [rule_format, of 0] l(2) [rule_format, of 1] m(2) by (simp_all add: numeral_2_eq_2 del: upt_Suc)
  with l(1) m(1) show ?thesis by (intro exI [of _ lls]) simp
qed

end
