(* ===== verification/FakeExecutor.thy ===== *)
theory FakeExecutor
  imports Tasks
begin

text \<open>
  The scripted executor \<^verbatim>\<open>runtime/executor/fake_llm_executor.{h,cc}\<close>, an implementation of the
  executor interface that the repository carries: it expects prescribed prefill tokens, yields
  prescribed decode tokens and applies a constraint as the real executors do. Delays are left
  out. Floats are a linear order \<open>'f\<close> with a largest and a lowest value.
\<close>

section \<open>State\<close>

datatype last_op = OpNone | OpPrefill | OpDecode

record 'f fake_executor =
  vocab_size :: nat
  prefill_tokens_set :: "int list list"
  decode_tokens_set :: "int list list"
  audio_embedding_set :: "'f list option"
  batch_size :: nat
  prefill_times :: nat
  decode_times :: nat
  settings_max_num_tokens :: int
  current_step :: nat
  prefill_status :: status
  decode_status :: status
  last_op_of :: last_op

definition FakeLlmExecutor ::
  "nat \<Rightarrow> int list list \<Rightarrow> int list list \<Rightarrow> nat \<Rightarrow> 'f list option \<Rightarrow> 'f fake_executor"
where
  "FakeLlmExecutor vocab prefills decodes batch audio =
     \<lparr>vocab_size = vocab, prefill_tokens_set = prefills, decode_tokens_set = decodes,
      audio_embedding_set = audio, batch_size = batch, prefill_times = 0, decode_times = 0,
      settings_max_num_tokens = 1024, current_step = 0, prefill_status = Ok, decode_status = Ok,
      last_op_of = OpNone\<rparr>"

section \<open>Helpers\<close>

definition DecodeIdsToLogits :: "'f \<Rightarrow> 'f \<Rightarrow> int list \<Rightarrow> nat \<Rightarrow> 'f list" where
  "DecodeIdsToLogits largest lowest ids vocab =
     concat (map (\<lambda>id. map (\<lambda>j. if id = int j then largest else lowest) [0..<vocab]) ids)"

text \<open>\<^verbatim>\<open>std::max_element\<close>: the index of the first largest element (the length if there is none).\<close>

fun max_element_from :: "nat \<Rightarrow> nat \<Rightarrow> 'f::linorder \<Rightarrow> 'f list \<Rightarrow> nat" where
  "max_element_from best k v [] = best"
| "max_element_from best k v (x # xs) =
     (if v < x then max_element_from k (k + 1) x xs else max_element_from best (k + 1) v xs)"

fun max_element :: "'f::linorder list \<Rightarrow> nat" where
  "max_element [] = 0"
| "max_element (x # xs) = max_element_from 0 1 x xs"

definition DecodeLogitsToIds ::
  "'f::linorder \<Rightarrow> nat \<Rightarrow> nat \<Rightarrow> 'f list \<Rightarrow> int list list \<Rightarrow> int list"
where
  "DecodeLogitsToIds lowest batch vocab logits decode_tokens =
     map (\<lambda>i. let row = take vocab (drop (i * vocab) logits); m = max_element row
              in if m \<noteq> length row \<and> row ! m > lowest then int m else last (last decode_tokens))
       [0..<batch]"

definition CheckEquivalent :: "'a list \<Rightarrow> 'a list \<Rightarrow> status" where
  "CheckEquivalent expected actual =
     (if length expected \<noteq> length actual then Inl InvalidArgument
      else if list_ex (\<lambda>i. expected ! i \<noteq> actual ! i) [0..<length expected] then Inl InvalidArgument
      else Ok)"

lemma CheckEquivalent_iff: "CheckEquivalent a b = (if a = b then Ok else Inl InvalidArgument)"
  by (auto simp: CheckEquivalent_def list_ex_iff intro: nth_equalityI)

section \<open>Prefill and decode\<close>

text \<open>\<open>audio\<close>: the audio data of the inputs, if set, with its embeddings.\<close>

definition FakePrefill ::
  "'f list status_or option \<Rightarrow> int list option \<Rightarrow> ('f fake_executor, unit) op"
where
  "FakePrefill audio text s =
     (case prefill_status s of
        Inl e \<Rightarrow> (Inl e, s)
      | Inr _ \<Rightarrow>
          if prefill_times s \<ge> length (prefill_tokens_set s) then (Inl InvalidArgument, s)
          else
            (case (case audio of
                     None \<Rightarrow> Ok
                   | Some emb \<Rightarrow>
                       (case audio_embedding_set s of
                          None \<Rightarrow> Inl InvalidArgument
                        | Some expected \<Rightarrow> try_or_return emb (\<lambda>e. CheckEquivalent expected e))) of
               Inl e \<Rightarrow> (Inl e, s)
             | Inr _ \<Rightarrow>
                 (case text of
                    None \<Rightarrow> (Inl NotFound, s)
                  | Some ids \<Rightarrow>
                      (case CheckEquivalent (prefill_tokens_set s ! prefill_times s) ids of
                         Inl e \<Rightarrow> (Inl e, s)
                       | Inr _ \<Rightarrow> (Ok, s\<lparr>last_op_of := OpPrefill, prefill_times := prefill_times s + 1,
                                         current_step := current_step s + length ids\<rparr>)))))"

text \<open>The checks that all three decode methods begin with, and the bookkeeping they end with.\<close>

definition decode_guard :: "'f fake_executor \<Rightarrow> status" where
  "decode_guard s =
     try_or_return (decode_status s) (\<lambda>_.
       if last_op_of s = OpNone then Inl FailedPrecondition
       else if decode_times s \<ge> length (decode_tokens_set s) then Inl InvalidArgument
       else Ok)"

definition decode_done :: "'f fake_executor \<Rightarrow> 'f fake_executor" where
  "decode_done s = s\<lparr>last_op_of := OpDecode, decode_times := decode_times s + 1,
                     current_step := current_step s + 1\<rparr>"

definition fake_constrained ::
  "'f::linorder \<Rightarrow> 'f \<Rightarrow> 'c constraint \<Rightarrow> 'f fake_executor \<Rightarrow> ('c decoder_states, int list) op"
where
  "fake_constrained largest lowest c s =
     assign_or_return
       (\<lambda>cs. if last_op_of s = OpDecode
             then if decode_times s = 0 then (Inl Internal, cs)
                  else UpdateConstraintState c
                         (map (\<lambda>i. decode_tokens_set s ! (decode_times s - 1) ! i) [0..<batch_size s]) cs
             else (Ok, cs))
     (\<lambda>_ cs.
        let logits = DecodeIdsToLogits largest lowest (decode_tokens_set s ! decode_times s) (vocab_size s);
            r = MaskLogits c lowest [int (batch_size s), 1, int (vocab_size s)] cs logits
        in (try_or_return (fst r) (\<lambda>_. Inr (DecodeLogitsToIds lowest (batch_size s) (vocab_size s)
                                              (snd r) (decode_tokens_set s))), cs))"

definition FakeDecode ::
  "'f::linorder \<Rightarrow> 'f \<Rightarrow> 'c constraint option \<Rightarrow> ('f fake_executor \<times> 'c decoder_states, int list) op"
where
  "FakeDecode largest lowest c sc =
     (let s = fst sc; cs = snd sc in
      case decode_guard s of
        Inl e \<Rightarrow> (Inl e, sc)
      | Inr _ \<Rightarrow>
          (case c of
             None \<Rightarrow> (Inr (decode_tokens_set s ! decode_times s), (decode_done s, cs))
           | Some k \<Rightarrow>
               let r = fake_constrained largest lowest k s cs
               in (fst r, (if ok (fst r) then decode_done s else s, snd r))))"

definition FakeDecodeLogits ::
  "'f \<Rightarrow> 'f \<Rightarrow> int list \<Rightarrow> ('f fake_executor, int list \<times> 'f list) op"
where
  "FakeDecodeLogits largest lowest ids s =
     (case decode_guard s of
        Inl e \<Rightarrow> (Inl e, s)
      | Inr _ \<Rightarrow>
          (case (if decode_times s > 0
                 then CheckEquivalent (decode_tokens_set s ! (decode_times s - 1)) ids else Ok) of
             Inl e \<Rightarrow> (Inl e, s)
           | Inr _ \<Rightarrow>
               (Inr ([int (batch_size s), 1, int (vocab_size s)],
                     DecodeIdsToLogits largest lowest (decode_tokens_set s ! decode_times s) (vocab_size s)),
                decode_done s)))"

definition FakeReset :: "'f fake_executor \<Rightarrow> 'f fake_executor" where
  "FakeReset s = s\<lparr>prefill_times := 0, decode_times := 0, current_step := 0, last_op_of := OpNone\<rparr>"

text \<open>The class as an executor of the tasks.\<close>

definition fake_llm_executor ::
  "'f::linorder \<Rightarrow> 'f \<Rightarrow> ('f fake_executor, 'c, 'f) llm_executor"
where
  "fake_llm_executor largest lowest = \<lparr>GetMaxNumTokens = (\<lambda>s. Inr (settings_max_num_tokens s)),
     ExecutorPrefill = (\<lambda>text wait. FakePrefill None (Some (snd text))),
     ExecutorDecode = FakeDecode largest lowest,
     ExecutorDecodeLogits = FakeDecodeLogits largest lowest,
     GetCurrentStep = (\<lambda>s. Inr (int (current_step s)))\<rparr>"

section \<open>Correctness\<close>

lemma max_element_from_stays: "\<forall>x \<in> set xs. x \<le> v \<Longrightarrow> max_element_from best k v xs = best"
  by (induction xs arbitrary: k) auto

lemma first_is_largest:
  fixes x :: "'a::linorder"
  assumes "\<forall>i < length (x # xs). i \<noteq> 0 \<longrightarrow> (x # xs) ! i < (x # xs) ! 0"
  shows "\<forall>y \<in> set xs. y \<le> x"
proof
  fix y assume "y \<in> set xs"
  then obtain i where "i < length xs" "xs ! i = y" by (auto simp: in_set_conv_nth)
  then show "y \<le> x" using assms [rule_format, of "Suc i"] by simp
qed

lemma larger_than_rest:
  fixes x :: "'a::linorder"
  assumes "\<forall>i < length (x # xs). i \<noteq> Suc n \<longrightarrow> (x # xs) ! i < (x # xs) ! Suc n"
  shows "\<forall>i < length xs. i \<noteq> n \<longrightarrow> xs ! i < xs ! n" "x < xs ! n"
proof -
  show "\<forall>i < length xs. i \<noteq> n \<longrightarrow> xs ! i < xs ! n"
  proof (intro allI impI)
    fix i assume "i < length xs" "i \<noteq> n"
    then show "xs ! i < xs ! n" using assms [rule_format, of "Suc i"] by simp
  qed
  show "x < xs ! n" using assms [rule_format, of 0] by simp
qed

lemma max_element_from_moves:
  "m < length xs \<Longrightarrow> v < xs ! m \<Longrightarrow> \<forall>i < length xs. i \<noteq> m \<longrightarrow> xs ! i < xs ! m \<Longrightarrow>
     max_element_from best k v xs = k + m"
proof (induction xs arbitrary: m best k v)
  case (Cons x xs)
  show ?case
  proof (cases m)
    case 0
    have "\<forall>y \<in> set xs. y \<le> x" using Cons.prems(3) 0 by (intro first_is_largest) auto
    then show ?thesis using Cons.prems 0 by (simp add: max_element_from_stays)
  next
    case (Suc n)
    have n: "n < length xs" "\<forall>i < length xs. i \<noteq> n \<longrightarrow> xs ! i < xs ! n" "x < xs ! n"
      using larger_than_rest [OF Cons.prems(3) [unfolded Suc]] Cons.prems(1) Suc by auto
    then show ?thesis using Cons.IH [OF n(1) _ n(2)] Cons.prems(2) Suc by simp
  qed
qed simp

lemma max_element_unique:
  assumes "m < length xs" "\<forall>i < length xs. i \<noteq> m \<longrightarrow> xs ! i < xs ! m" shows "max_element xs = m"
proof (cases xs)
  case (Cons x ys)
  show ?thesis
  proof (cases m)
    case 0
    have "\<forall>y \<in> set ys. y \<le> x" using assms(2) Cons 0 by (intro first_is_largest) auto
    then show ?thesis using Cons 0 by (simp add: max_element_from_stays)
  next
    case (Suc n)
    have "x < ys ! n" "n < length ys" "\<forall>i < length ys. i \<noteq> n \<longrightarrow> ys ! i < ys ! n"
      using larger_than_rest [OF assms(2) [unfolded Cons Suc]] assms(1) Cons Suc by auto
    then show ?thesis using max_element_from_moves [of n ys x 0 1] Cons Suc by simp
  qed
qed (use assms in simp)

lemma max_element_from_bound:
  "max_element_from best k v ys = best \<or> max_element_from best k v ys < k + length ys"
  by (induction best k v ys rule: max_element_from.induct) auto

lemma max_element_le: "xs \<noteq> [] \<Longrightarrow> max_element xs < length xs"
  using max_element_from_bound [of 0 1 "hd xs" "tl xs"] by (cases xs) auto

lemma nth_concat_rows:
  assumes "\<forall>r \<in> set rows. length r = V" "i < length rows" "j < V"
  shows "concat rows ! (i * V + j) = rows ! i ! j"
  using assms
proof (induction rows arbitrary: i)
  case (Cons r rows)
  show ?case
  proof (cases i)
    case 0
    then show ?thesis using Cons.prems by (simp add: nth_append)
  next
    case (Suc n)
    have "concat (r # rows) ! (i * V + j) = concat rows ! (n * V + j)"
      using Cons.prems(1) Suc by (simp add: nth_append)
    then show ?thesis using Cons Suc by simp
  qed
qed simp

lemma length_ids_logits [simp]: "length (DecodeIdsToLogits largest lowest ids V) = length ids * V"
  by (induction ids) (simp_all add: DecodeIdsToLogits_def)

lemma nth_ids_logits:
  "i < length ids \<Longrightarrow> j < V \<Longrightarrow>
     DecodeIdsToLogits largest lowest ids V ! (i * V + j) = (if ids ! i = int j then largest else lowest)"
  unfolding DecodeIdsToLogits_def by (subst nth_concat_rows [of _ V]) auto

text \<open>Constrained decoding on the scripted executor: each token it yields is the scripted one if the
  constraint allows it in the item's state, and the end token of the script otherwise; the constraint
  is asked about the state reached by the tokens of the previous decode.\<close>

theorem fake_decode_obeys_constraint:
  assumes "FakeDecode largest lowest (Some c) (s, cs) = (Inr column, s', cs')"
    "decode_tokens_set s ! decode_times s = ids" "length ids = batch_size s"
    "list_all (\<lambda>t. 0 \<le> t \<and> t < int (vocab_size s)) ids" "lowest < largest" "i < batch_size s"
  shows "s' = decode_done s \<and> length column = batch_size s \<and>
    (\<exists>allowed. ComputeBitmap c (cs' ! i) = Inr allowed \<and>
       column ! i = (if allowed (ids ! i) then ids ! i else last (last (decode_tokens_set s))))"
proof -
  let ?V = "vocab_size s" and ?logits = "DecodeIdsToLogits largest lowest ids (vocab_size s)"
  have fc: "fake_constrained largest lowest c s cs = (Inr column, cs')" "s' = decode_done s"
    using assms(1) by (cases "fake_constrained largest lowest c s cs";
        auto simp: FakeDecode_def Let_def split: sum.splits if_splits)+
  obtain r masked where r: "MaskLogits c lowest [int (batch_size s), 1, int ?V] cs' ?logits = (r, masked)"
    by fastforce
  have m: "MaskLogits c lowest [int (batch_size s), 1, int ?V] cs' ?logits = (Ok, masked)"
    and col: "column = DecodeLogitsToIds lowest (batch_size s) ?V masked (decode_tokens_set s)"
    using fc(1) assms(2) r
    by (auto simp: fake_constrained_def Let_def assign_or_return_def try_or_return_def
        split: sum.splits prod.splits if_splits)
  have cs: "length cs' = batch_size s" and rows: "mask_rows c lowest 0 ?V cs' ?logits = (Ok, masked)"
    using m by (auto simp: MaskLogits_def split: if_splits)
  note ok = mask_rows_ok [OF rows]
  have bound: "i * ?V + j < batch_size s * ?V" if "j < ?V" for j
  proof -
    have "i * ?V + j < Suc i * ?V" using that by simp
    also have "\<dots> \<le> batch_size s * ?V" using assms(6) by (intro mult_le_mono1) simp
    finally show ?thesis .
  qed
  obtain allowed where a: "ComputeBitmap c (cs' ! i) = Inr allowed"
    "\<forall>j < ?V. masked ! (i * ?V + j) = (if allowed (int j) then ?logits ! (i * ?V + j) else lowest)"
  proof -
    have "\<exists>a. ComputeBitmap c (cs' ! i) = Inr a \<and> (\<forall>j < ?V. (0 + i) * ?V + j < length ?logits \<longrightarrow>
        masked ! ((0 + i) * ?V + j) = (if a (int j) then ?logits ! ((0 + i) * ?V + j) else lowest))"
      using conjunct1 [OF conjunct2 [OF ok], rule_format, of i] assms(6) cs by simp
    then obtain a where a: "ComputeBitmap c (cs' ! i) = Inr a"
      "\<And>j. j < ?V \<Longrightarrow> i * ?V + j < length ?logits \<Longrightarrow>
        masked ! (i * ?V + j) = (if a (int j) then ?logits ! (i * ?V + j) else lowest)"
      unfolding add_0 by blast
    have "masked ! (i * ?V + j) = (if a (int j) then ?logits ! (i * ?V + j) else lowest)" if "j < ?V" for j
      using a(2) [OF that] bound [OF that] assms(3) by (simp only: length_ids_logits)
    then show ?thesis using a(1) that by blast
  qed
  let ?row = "take ?V (drop (i * ?V) masked)"
  have lm: "length masked = batch_size s * ?V" using ok assms(3) by simp
  have len: "length ?row = ?V"
    using lm bound [of "?V - 1"] by (cases "?V") auto
  have row: "?row ! j = (if allowed (int j) \<and> ids ! i = int j then largest else lowest)" if "j < ?V" for j
    using a(2) that nth_ids_logits [of i ids j ?V largest lowest] assms(3,6) lm bound [OF that] by auto
  have id: "0 \<le> ids ! i" "ids ! i < int ?V" using assms(3,4,6) by (auto simp: list_all_length)
  let ?t = "nat (ids ! i)"
  have t: "?t < ?V" "int ?t = ids ! i" using id by auto
  have "column ! i = (if allowed (ids ! i) then ids ! i else last (last (decode_tokens_set s)))"
  proof (cases "allowed (ids ! i)")
    case True
    have "\<forall>j < length ?row. j \<noteq> ?t \<longrightarrow> ?row ! j < ?row ! ?t"
      using row len t True assms(5) by auto
    then have "max_element ?row = ?t" using max_element_unique [of ?t ?row] len t by simp
    moreover have "?row ! ?t = largest" using row [OF t(1)] t(2) True by simp
    ultimately show ?thesis using True assms(5,6) t len by (simp add: col DecodeLogitsToIds_def Let_def)
  next
    case False
    have "max_element ?row < ?V" using max_element_le [of ?row] len t(1) by fastforce
    then have "?row ! max_element ?row = lowest" using row [of "max_element ?row"] False by auto
    then show ?thesis using False assms(6) by (simp add: col DecodeLogitsToIds_def Let_def)
  qed
  moreover have "length column = batch_size s" by (simp add: col DecodeLogitsToIds_def)
  ultimately show ?thesis using fc(2) a(1) by blast
qed

definition fake_example :: "int fake_executor" where
  "fake_example = snd (FakePrefill None (Some [1]) (FakeLlmExecutor 4 [[1]] [[2], [0]] 1 None))"

lemma fake_decode_obeys_constraint_witness:
  "\<exists>allowed. ComputeBitmap (FakeConstraint [3, 2] 4) 0 = Inr allowed \<and>
     FakeDecode 9 (-9) (Some (FakeConstraint [3, 2] 4)) (fake_example, [0]) =
       (Inr [if allowed 2 then 2 else 0], decode_done fake_example, [0])"
proof -
  have d: "FakeDecode 9 (-9) (Some (FakeConstraint [3, 2] 4)) (fake_example, [0]) =
      (Inr [0], decode_done fake_example, [0])"
    by code_simp
  have e: "decode_tokens_set fake_example ! decode_times fake_example = [2]" "batch_size fake_example = 1"
    "vocab_size fake_example = 4" "last (last (decode_tokens_set fake_example)) = 0"
    by code_simp+
  obtain allowed where "ComputeBitmap (FakeConstraint [3, 2] 4) ([0] ! 0) = Inr allowed"
      "[0] ! 0 = (if allowed ([2] ! 0) then [2] ! 0 else last (last (decode_tokens_set fake_example)))"
    using fake_decode_obeys_constraint [OF d e(1), of 0] e(2,3) by auto
  then have "ComputeBitmap (FakeConstraint [3, 2] 4) 0 = Inr allowed" "\<not> allowed 2"
    by (auto split: if_splits)
  then show ?thesis using d by (intro exI [of _ allowed]) simp
qed

end
