(* ===== verification/ExecutorUtils.thy ===== *)
theory ExecutorUtils
  imports Prelude
begin

text \<open>
  The pure parts of the compiled model executors: the choice of prefill runners and the attention
  mask of \<^verbatim>\<open>runtime/executor/litert_compiled_model_executor_utils.cc\<close>, dropping tokens from a cache
  (\<^verbatim>\<open>llm_litert_compiled_model_cache_utils.cc\<close>, \<^verbatim>\<open>runtime/util/convert_tensor_buffer.h\<close>). A tensor is
  its dimensions, its element type and its elements in row-major order; locking a buffer (LiteRT)
  succeeds. \<open>None\<close> is undefined behaviour (an access outside a buffer, a division by zero, the first
  element of an empty map) or a loop that does not end.
\<close>

section \<open>Signatures\<close>

record model_signatures =
  input_tokens :: string
  input_positions :: string
  input_attn_mask :: "string option"
  input_embeddings :: "string option"
  input_per_layer_embeddings :: "string option"
  output_logits :: string

definition no_signatures :: model_signatures where
  "no_signatures = \<lparr>input_tokens = '''', input_positions = '''', input_attn_mask = None,
     input_embeddings = None, input_per_layer_embeddings = None, output_logits = ''''\<rparr>"

definition note_input :: "string \<Rightarrow> model_signatures \<Rightarrow> model_signatures" where
  "note_input name s =
     (if name \<in> set [''token_ids'', ''tokens''] then s\<lparr>input_tokens := name\<rparr>
      else if name \<in> set [''positions'', ''input_pos''] then s\<lparr>input_positions := name\<rparr>
      else if name \<in> set [''attn_mask'', ''mask''] then s\<lparr>input_attn_mask := Some name\<rparr>
      else if name \<in> set [''embeddings''] then s\<lparr>input_embeddings := Some name\<rparr>
      else if name \<in> set [''per_layer_embeddings''] then s\<lparr>input_per_layer_embeddings := Some name\<rparr>
      else s)"

definition note_output :: "string \<Rightarrow> model_signatures \<Rightarrow> model_signatures" where
  "note_output name s = (if name \<in> set [''logits''] then s\<lparr>output_logits := name\<rparr> else s)"

definition GetModelSignaturesFromInputOutputNames ::
  "string list \<Rightarrow> string list \<Rightarrow> bool \<Rightarrow> model_signatures status_or"
where
  "GetModelSignaturesFromInputOutputNames inputs outputs strict =
     (let s = fold note_output outputs (fold note_input inputs no_signatures) in
      if strict \<and> input_tokens s = '''' \<and> input_embeddings s = None then Inl FailedPrecondition
      else if strict \<and> input_positions s = '''' then Inl FailedPrecondition
      else if strict \<and> output_logits s = '''' then Inl FailedPrecondition
      else Inr s)"

text \<open>The root names of the key and the value caches.\<close>

fun GetKVCacheRootNames :: "string list \<Rightarrow> (string \<times> string) status_or" where
  "GetKVCacheRootNames [] = Inl FailedPrecondition"
| "GetKVCacheRootNames (name # names) =
     (if name = ''kv_cache_k_0'' then Inr (''kv_cache_k_'', ''kv_cache_v_'')
      else if name = ''k_cache_0'' then Inr (''k_cache_'', ''v_cache_'')
      else GetKVCacheRootNames names)"

text \<open>
  The runners of a model, ordered by decreasing sequence length as in the \<^verbatim>\<open>btree_map\<close> with
  \<^verbatim>\<open>std::greater\<close>. A signature is its key and the dimensions of its positions tensor, or the error of
  looking that tensor up (LiteRT).
\<close>

type_synonym prefill_runners = "(int \<times> string) list"

fun put_runner :: "int \<Rightarrow> string \<Rightarrow> prefill_runners \<Rightarrow> prefill_runners" where
  "put_runner l s [] = [(l, s)]"
| "put_runner l s ((l', s') # rs) =
     (if l > l' then (l, s) # (l', s') # rs
      else if l = l' then (l, s) # rs
      else (l', s') # put_runner l s rs)"

definition starts_with :: "string \<Rightarrow> string \<Rightarrow> bool" where
  "starts_with s p \<longleftrightarrow> take (length p) s = p"

fun GetPrefillRunnerSetFromModel ::
  "string \<Rightarrow> (string \<times> int list status_or) list \<Rightarrow> prefill_runners \<Rightarrow> prefill_runners status_or"
where
  "GetPrefillRunnerSetFromModel base [] rs = Inr rs"
| "GetPrefillRunnerSetFromModel base ((key, dims) # sigs) rs =
     (if \<not> starts_with key base then GetPrefillRunnerSetFromModel base sigs rs
      else (case dims of
              Inl e \<Rightarrow> Inl e
            | Inr [_, n] \<Rightarrow> GetPrefillRunnerSetFromModel base sigs (put_runner n key rs)
            | Inr [n] \<Rightarrow> GetPrefillRunnerSetFromModel base sigs (put_runner n key rs)
            | Inr _ \<Rightarrow> Inl FailedPrecondition))"

section \<open>Work groups of a prefill\<close>

text \<open>The groups that use the longest runner, and the length that is left.\<close>

partial_function (option) full_groups ::
  "string \<Rightarrow> int \<Rightarrow> int \<Rightarrow> ((string \<times> int) list \<times> int) option"
where
  "full_groups name m n =
     (if n \<ge> m
      then Option.bind (full_groups name m (n - m)) (\<lambda>r. Some ((name, m) # fst r, snd r))
      else Some ([], n))"

declare full_groups.simps [code]

fun last_group :: "prefill_runners \<Rightarrow> int \<Rightarrow> (string \<times> int) list" where
  "last_group [] n = []"
| "last_group [(l, s)] n = [(s, n)]"
| "last_group ((l, s) # (l', s') # rs) n =
     (if l' \<ge> n then last_group ((l', s') # rs) n else [(s, n)])"

definition GetOptimizedPrefillWorkGroups ::
  "prefill_runners \<Rightarrow> int \<Rightarrow> (string \<times> int) list option"
where
  "GetOptimizedPrefillWorkGroups rs n =
     (case rs of
        [] \<Rightarrow> None
      | (m, s) # _ \<Rightarrow>
          Option.bind (full_groups s m n)
            (\<lambda>r. Some (fst r @ (if snd r > 0 then last_group rs (snd r) else []))))"

section \<open>Attention mask\<close>

datatype element_type = ElBool | ElInt8 | ElInt16 | ElInt32 | ElFloat32 | ElOther

text \<open>The values the code writes into a mask.\<close>

datatype mask_cell = BoolFalse | BoolTrue | FloatMin16 | FloatMin32 | FloatZero

record mask_tensor =
  mask_type :: element_type
  mask_dims :: "int list"
  mask_cells :: "mask_cell list"

definition mask_off :: "element_type \<Rightarrow> bool \<Rightarrow> mask_cell" where
  "mask_off ty is_f16 = (if ty = ElBool then BoolFalse else if is_f16 then FloatMin16 else FloatMin32)"

definition mask_on :: "element_type \<Rightarrow> mask_cell" where
  "mask_on ty = (if ty = ElBool then BoolTrue else FloatZero)"

definition InitializeAttentionMask :: "bool \<Rightarrow> (mask_tensor, unit) op" where
  "InitializeAttentionMask is_f16 m =
     (if mask_type m \<in> set [ElBool, ElFloat32]
      then (Ok, m\<lparr>mask_cells := replicate (length (mask_cells m)) (mask_off (mask_type m) is_f16)\<rparr>)
      else (Inl InvalidArgument, m))"

text \<open>\<^verbatim>\<open>std::fill(p + a, p + b, v)\<close>.\<close>

definition std_fill :: "int \<Rightarrow> int \<Rightarrow> 'a \<Rightarrow> 'a list \<Rightarrow> 'a list option" where
  "std_fill a b v xs =
     (if 0 \<le> a \<and> a \<le> b \<and> b \<le> int (length xs)
      then Some (take (nat a) xs @ replicate (nat (b - a)) v @ drop (nat b) xs) else None)"

fun fill_rows :: "int \<Rightarrow> int \<Rightarrow> int \<Rightarrow> 'a \<Rightarrow> (int \<times> int) list \<Rightarrow> 'a list \<Rightarrow> 'a list option" where
  "fill_rows batch_offset channel start v [] xs = Some xs"
| "fill_rows batch_offset channel start v ((b, i) # ps) xs =
     (let off = b * batch_offset + i * channel in
      Option.bind (std_fill off (off + (start + i) + 1) v xs)
        (fill_rows batch_offset channel start v ps))"

definition row_indices :: "int \<Rightarrow> int \<Rightarrow> (int \<times> int) list" where
  "row_indices batch steps = List.product (map int [0..<nat batch]) (map int [0..<nat steps])"

definition FillAttentionMask :: "int \<Rightarrow> int \<Rightarrow> mask_tensor \<Rightarrow> (status \<times> mask_tensor) option" where
  "FillAttentionMask start steps m =
     (if length (mask_dims m) \<noteq> 4 then Some (Inl InvalidArgument, m)
      else let batch = mask_dims m ! 0; channel = mask_dims m ! 3 in
           if batch = 0 then None
           else if mask_type m \<notin> set [ElBool, ElFloat32] then Some (Inl InvalidArgument, m)
           else map_option (\<lambda>cells. (Ok, m\<lparr>mask_cells := cells\<rparr>))
                  (fill_rows (int (length (mask_cells m)) div batch) channel start
                     (mask_on (mask_type m)) (row_indices batch steps) (mask_cells m)))"

section \<open>Dropping tokens from the caches\<close>

text \<open>
  The comparison with the context size is on \<^verbatim>\<open>size_t\<close> (64 bits), the difference being converted.
\<close>

definition ShouldDeleteKVCacheTokens :: "int \<Rightarrow> int \<Rightarrow> 64 word \<Rightarrow> bool status_or" where
  "ShouldDeleteKVCacheTokens current_step start_position context_size =
     (if current_step - start_position < 0 then Inl InvalidArgument
      else if current_step < 0 then Inl InvalidArgument
      else if start_position < 0 then Inl InvalidArgument
      else Inr (of_int (current_step - start_position) \<ge> context_size - 1))"

record 'v tensor =
  elem_type :: element_type
  dims :: "int list"
  elems :: "'v list"

text \<open>\<open>memcpy(p + dst, p + src, n)\<close> and \<open>memset(p + dst, 0, n)\<close> on elements.\<close>

definition copy_block :: "nat \<Rightarrow> nat \<Rightarrow> nat \<Rightarrow> 'v list \<Rightarrow> 'v list" where
  "copy_block dst src n xs = take dst xs @ take n (drop src xs) @ drop (dst + n) xs"

definition zero_block :: "'v \<Rightarrow> nat \<Rightarrow> nat \<Rightarrow> 'v list \<Rightarrow> 'v list" where
  "zero_block z dst n xs = take dst xs @ replicate n z @ drop (dst + n) xs"

definition drop_in_slice ::
  "'v \<Rightarrow> bool \<Rightarrow> nat \<Rightarrow> nat \<Rightarrow> nat \<Rightarrow> nat \<Rightarrow> nat \<Rightarrow> 'v list \<Rightarrow> 'v list"
where
  "drop_in_slice z reset target next n retain i xs =
     (let moved = fold (\<lambda>j. copy_block (i * next * target + j * next)
                              (i * next * target + (j + n) * next) next) [retain..<target - n] xs
      in if reset then zero_block z (i * target * next + (target - n) * next) (next * n) moved
         else moved)"

definition DropTokensfromTensorBuffer ::
  "element_type \<Rightarrow> 'v \<Rightarrow> int \<Rightarrow> nat \<Rightarrow> int \<Rightarrow> bool \<Rightarrow> ('v tensor, unit) op"
where
  "DropTokensfromTensorBuffer ty z n axis retain reset t =
     (if elem_type t \<noteq> ty then (Inl InvalidArgument, t)
      else if length (dims t) \<le> axis then (Inl InvalidArgument, t)
      else if n < 0 then (Inl InvalidArgument, t)
      else let prev = prod_list (take axis (dims t)); target = dims t ! axis;
               next = prod_list (drop (axis + 1) (dims t)) in
           if n > target then (Inl InvalidArgument, t)
           else if retain > target then (Inl InvalidArgument, t)
           else if retain < 0 then (Inl InvalidArgument, t)
           else if retain + n > target then (Inl InvalidArgument, t)
           else (Ok, t\<lparr>elems := fold (drop_in_slice z reset (nat target) (nat next) (nat n) (nat retain))
                                  [0..<nat prev] (elems t)\<rparr>))"

definition str_contains :: "string \<Rightarrow> string \<Rightarrow> bool" where
  "str_contains s p \<longleftrightarrow> (\<exists>k \<in> set [0..<length s + 1]. starts_with (drop k s) p)"

text \<open>
  The buffers of a cache by name; the loop stops at the first error, with the buffers before it
  already changed.
\<close>

definition cache_axis :: "string \<Rightarrow> nat option" where
  "cache_axis name =
     (if str_contains name ''cache_k_'' then Some 2
      else if str_contains name ''cache_v_'' then Some 3 else None)"

fun DeleteTokensFromKvCache :: "'v \<Rightarrow> int \<Rightarrow> int \<Rightarrow> ((string \<times> 'v tensor) list, unit) op" where
  "DeleteTokensFromKvCache z n retain [] = (Ok, [])"
| "DeleteTokensFromKvCache z n retain ((name, t) # bs) =
     (case cache_axis name of
        None \<Rightarrow> (Inl InvalidArgument, (name, t) # bs)
      | Some axis \<Rightarrow>
          if elem_type t \<in> set [ElInt8, ElInt16, ElInt32, ElFloat32]
          then (case DropTokensfromTensorBuffer (elem_type t) z n axis retain True t of
                  (Inl e, t') \<Rightarrow> (Inl e, (name, t') # bs)
                | (Inr _, t') \<Rightarrow>
                    (case DeleteTokensFromKvCache z n retain bs of
                       (r, bs') \<Rightarrow> (r, (name, t') # bs')))
          else (Inl InvalidArgument, (name, t) # bs))"

text \<open>The state is the cache and the start position.\<close>

definition DeleteTokensIfNeeded ::
  "'v \<Rightarrow> int \<Rightarrow> int \<Rightarrow> int \<Rightarrow> 64 word \<Rightarrow> ((string \<times> 'v tensor) list \<times> int, bool) op"
where
  "DeleteTokensIfNeeded z n retain current_step context_size s =
     (case s of (bufs, start) \<Rightarrow>
        (case ShouldDeleteKVCacheTokens current_step start context_size of
           Inl e \<Rightarrow> (Inl e, s)
         | Inr False \<Rightarrow> (Inr False, s)
         | Inr True \<Rightarrow>
             (case DeleteTokensFromKvCache z n retain bufs of
                (Inl e, bufs') \<Rightarrow> (Inl e, (bufs', start))
              | (Inr _, bufs') \<Rightarrow> (Inr True, (bufs', start + n)))))"

section \<open>Work groups cover the input\<close>

lemma full_groups_result:
  assumes "0 < m"
  shows "\<exists>k r. full_groups name m n = Some (replicate k (name, m), r) \<and> int k * m + r = n \<and> r < m \<and>
    (0 \<le> n \<longrightarrow> 0 \<le> r)"
proof (induction "nat n" arbitrary: n rule: less_induct)
  case less
  show ?case
  proof (cases "n \<ge> m")
    case True
    then have "nat (n - m) < nat n" using assms by simp
    from less [OF this] obtain k r where "full_groups name m (n - m) = Some (replicate k (name, m), r)"
      "int k * m + r = n - m" "r < m" "0 \<le> n - m \<longrightarrow> 0 \<le> r" by blast
    with True show ?thesis
      by (intro exI [of _ "Suc k"] exI [of _ r]) (subst full_groups.simps, simp add: algebra_simps)
  next
    case False
    then show ?thesis by (intro exI [of _ 0] exI [of _ n]) (subst full_groups.simps, simp)
  qed
qed

text \<open>The runner used for the rest is the shortest one that is long enough.\<close>

lemma last_group_result:
  assumes "rs \<noteq> []" "sorted_wrt (>) (map fst rs)" "n \<le> fst (hd rs)"
  shows "\<exists>l s. last_group rs n = [(s, n)] \<and> (l, s) \<in> set rs \<and> n \<le> l \<and> (\<forall>(l', s') \<in> set rs. n \<le> l' \<longrightarrow> l \<le> l')"
  using assms
proof (induction rs n rule: last_group.induct)
  case (3 l s l' s' rs n)
  show ?case
  proof (cases "l' \<ge> n")
    case True
    then obtain k t where "last_group ((l', s') # rs) n = [(t, n)]" "(k, t) \<in> set ((l', s') # rs)" "n \<le> k"
      "\<forall>(l'', s'') \<in> set ((l', s') # rs). n \<le> l'' \<longrightarrow> k \<le> l''"
      using 3 by auto
    moreover have "k \<le> l" using calculation(2) 3(3) by force
    ultimately show ?thesis using True by (intro exI [of _ k] exI [of _ t]) auto
  next
    case False
    then show ?thesis using 3 by (intro exI [of _ l] exI [of _ s]) force
  qed
qed auto

lemma work_groups_result:
  assumes "rs \<noteq> []" "sorted_wrt (>) (map fst rs)" "\<forall>l \<in> set (map fst rs). 0 < l" "0 \<le> n"
  shows "\<exists>groups. GetOptimizedPrefillWorkGroups rs n = Some groups \<and> sum_list (map snd groups) = n \<and>
    (\<forall>(s, k) \<in> set groups. 0 < k \<and> (\<exists>l. (l, s) \<in> set rs \<and> k \<le> l \<and>
       (\<forall>(l', s') \<in> set rs. k \<le> l' \<longrightarrow> l \<le> l'))) \<and>
    (0 < n \<longrightarrow> groups \<noteq> [] \<and> snd (hd groups) = min n (fst (hd rs)))"
proof -
  obtain m s rest where rs: "rs = (m, s) # rest" using assms(1) by (cases rs) auto
  have m: "0 < m" "\<forall>(l', s') \<in> set rs. l' \<le> m" using assms(2,3) by (auto simp: rs)
  obtain k r where f: "full_groups s m n = Some (replicate k (s, m), r)" "int k * m + r = n" "r < m" "0 \<le> r"
    using full_groups_result [OF m(1), of s n] assms(4) by blast
  have full: "\<forall>(l', s') \<in> set rs. m \<le> l' \<longrightarrow> m \<le> l'" by auto
  have head: "snd (hd (replicate k (s, m) @ [(t, r)])) = min n m" for t
  proof (cases k)
    case (Suc j)
    then have "n = int j * m + m + r" using f(2) by (simp add: algebra_simps)
    moreover have "0 \<le> int j * m" using m(1) by simp
    ultimately show ?thesis using f(4) Suc by simp
  qed (use f in simp)
  show ?thesis
  proof (cases "r > 0")
    case True
    obtain l t where l: "last_group rs r = [(t, r)]" "(l, t) \<in> set rs" "r \<le> l"
      "\<forall>(l', s') \<in> set rs. r \<le> l' \<longrightarrow> l \<le> l'"
      using last_group_result [OF assms(1,2), of r] f(3) rs by auto
    have "GetOptimizedPrefillWorkGroups rs n = Some (replicate k (s, m) @ [(t, r)])"
      using f(1) l(1) True by (simp add: GetOptimizedPrefillWorkGroups_def rs)
    then show ?thesis using f(2) l(2-) True m(1) full head [of t]
      by (intro exI conjI) (auto simp: sum_list_replicate rs split: if_splits)
  next
    case False
    then have "GetOptimizedPrefillWorkGroups rs n = Some (replicate k (s, m))"
      using f(1) by (simp add: GetOptimizedPrefillWorkGroups_def rs)
    moreover have "0 < n \<longrightarrow> k \<noteq> 0" using f(2,4) False by (cases k) auto
    moreover have "k \<noteq> 0 \<longrightarrow> snd (hd (replicate k (s, m))) = min n m" using head [of s] by (cases k) simp_all
    ultimately show ?thesis using f(2,4) False m(1) full
      by (intro exI conjI) (auto simp: sum_list_replicate rs split: if_splits)
  qed
qed

text \<open>C39.
  GetOptimizedPrefillWorkGroups always ends on runners of positive length, ordered as in the map, and
  splits a prefill completely: the group lengths add up to the input length, every group is non-empty
  and handed to a runner that is long enough for it, the shortest such runner of the model.\<close>

theorem work_groups_cover_input:
  assumes "rs \<noteq> []" "sorted_wrt (>) (map fst rs)" "\<forall>l \<in> set (map fst rs). 0 < l" "0 \<le> n"
  shows "\<exists>groups. GetOptimizedPrefillWorkGroups rs n = Some groups \<and> sum_list (map snd groups) = n \<and>
    (\<forall>(s, k) \<in> set groups. 0 < k \<and> (\<exists>l. (l, s) \<in> set rs \<and> k \<le> l \<and>
       (\<forall>(l', s') \<in> set rs. k \<le> l' \<longrightarrow> l \<le> l')))"
  using work_groups_result [OF assms] by blast

lemma work_groups_cover_input_witness:
  "\<exists>groups. GetOptimizedPrefillWorkGroups [(8, ''p8''), (4, ''p4''), (2, ''p2'')] 19 = Some groups \<and>
     sum_list (map snd groups) = 19"
  using work_groups_cover_input [of "[(8, ''p8''), (4, ''p4''), (2, ''p2'')]" 19] by auto

section \<open>The attention mask is causal\<close>

lemma std_fill_Some:
  "0 \<le> a \<Longrightarrow> a \<le> b \<Longrightarrow> b \<le> int (length xs) \<Longrightarrow>
     \<exists>ys. std_fill a b v xs = Some ys \<and> length ys = length xs \<and>
       (\<forall>k < length xs. ys ! k = (if a \<le> int k \<and> int k < b then v else xs ! k))"
proof -
  assume ab: "0 \<le> a" "a \<le> b" "b \<le> int (length xs)"
  then have "nat b = nat a + nat (b - a)" by simp
  with ab show ?thesis by (auto simp: std_fill_def nth_append)
qed

lemma fill_rows_Some:
  assumes "list_all (\<lambda>(b, i). 0 \<le> b * bo + i * ch \<and> 0 \<le> start + i \<and>
      b * bo + i * ch + (start + i) + 1 \<le> int (length xs)) ps"
  shows "\<exists>ys. fill_rows bo ch start v ps xs = Some ys \<and> length ys = length xs \<and>
    (\<forall>k < length xs. ys ! k =
       (if list_ex (\<lambda>(b, i). b * bo + i * ch \<le> int k \<and> int k < b * bo + i * ch + (start + i) + 1) ps
        then v else xs ! k))"
  using assms
proof (induction ps arbitrary: xs)
  case (Cons p ps)
  obtain b i where p: "p = (b, i)" by fastforce
  let ?off = "b * bo + i * ch"
  obtain ys where ys: "std_fill ?off (?off + (start + i) + 1) v xs = Some ys" "length ys = length xs"
    "\<forall>k < length xs. ys ! k = (if ?off \<le> int k \<and> int k < ?off + (start + i) + 1 then v else xs ! k)"
    using std_fill_Some [of ?off "?off + (start + i) + 1" xs v] Cons.prems p by auto
  obtain zs where "fill_rows bo ch start v ps ys = Some zs" "length zs = length ys"
    "\<forall>k < length ys. zs ! k =
       (if list_ex (\<lambda>(b, i). b * bo + i * ch \<le> int k \<and> int k < b * bo + i * ch + (start + i) + 1) ps
        then v else ys ! k)"
    using Cons.IH [of ys] Cons.prems ys(2) by auto
  then show ?case using ys p by (intro exI [of _ zs]) (simp add: Let_def)
qed simp

lemma block_unique:
  fixes r r' C j :: int
  assumes "r' * C \<le> r * C + j" "r * C + j < r' * C + w" "w \<le> C" "0 \<le> j" "j < C"
  shows "r' = r"
proof -
  have "(r * C + j) div C = r" using assms(4,5) by (simp add: div_add1_eq)
  moreover have "(r' * C + (r * C + j - r' * C)) div C = r'"
    using assms by (subst div_mult_self3) (simp_all add: div_pos_pos_trivial)
  ultimately show ?thesis by simp
qed

lemma mixed_radix_unique:
  fixes b b' i i' S :: int
  assumes "b' * S + i' = b * S + i" "0 \<le> i" "i < S" "0 \<le> i'" "i' < S"
  shows "b' = b \<and> i' = i"
proof -
  have "b' = b" using block_unique [of b' S b i S] assms by linarith
  then show ?thesis using assms(1) by simp
qed

lemma row_indices_iff: "(b, i) \<in> set (row_indices B n) \<longleftrightarrow> 0 \<le> b \<and> b < B \<and> 0 \<le> i \<and> i < n"
  by (auto simp: row_indices_def image_iff intro: bexI [of _ "nat _"])

text \<open>C29.
  After InitializeAttentionMask and FillAttentionMask every query row that is filled, i < steps, attends
  to exactly the positions up to its own time step start + i, and the other rows to nothing, in every
  batch element; no write leaves the buffer while start + steps fits the row.\<close>

theorem attention_mask_is_causal:
  assumes "mask_dims m = [B, S, 1, C]" "int (length (mask_cells m)) = B * S * C" "0 < B"
    "0 \<le> start" "0 \<le> steps" "steps \<le> S" "start + steps \<le> C" "mask_type m \<in> set [ElBool, ElFloat32]"
  shows "\<exists>m'. FillAttentionMask start steps (snd (InitializeAttentionMask f16 m)) = Some (Ok, m') \<and>
    length (mask_cells m') = length (mask_cells m) \<and>
    (\<forall>b i j. 0 \<le> b \<and> b < B \<and> 0 \<le> i \<and> i < S \<and> 0 \<le> j \<and> j < C \<longrightarrow>
       mask_cells m' ! nat ((b * S + i) * C + j) =
         (if i < steps \<and> j \<le> start + i then mask_on (mask_type m) else mask_off (mask_type m) f16))"
proof -
  let ?n = "length (mask_cells m)" and ?off = "mask_off (mask_type m) f16" and ?on = "mask_on (mask_type m)"
  let ?ps = "row_indices B steps"
  have bo: "int ?n div B = S * C" using assms(2,3) by (simp add: mult.assoc)
  have off: "b * (S * C) + i * C = (b * S + i) * C" for b i by (simp add: algebra_simps)
  have inside: "0 \<le> (b * S + i) * C \<and> (b * S + i) * C + C \<le> int ?n"
    if "0 \<le> b" "b < B" "0 \<le> i" "i < S" for b i
  proof -
    have "b * S + i + 1 \<le> B * S" using that mult_right_mono [of "b + 1" B S] by (simp add: algebra_simps)
    then have "(b * S + i + 1) * C \<le> B * S * C" using assms(4,5,7) by (intro mult_right_mono) auto
    then show ?thesis using assms(2,4,5,7) that by (simp add: algebra_simps)
  qed
  have "list_all (\<lambda>(b, i). 0 \<le> b * (S * C) + i * C \<and> 0 \<le> start + i \<and>
      b * (S * C) + i * C + (start + i) + 1 \<le> int (length (replicate ?n ?off))) ?ps"
    unfolding list_all_iff off
  proof (intro ballI, clarify)
    fix b i assume "(b, i) \<in> set ?ps"
    then have "0 \<le> b" "b < B" "0 \<le> i" "i < steps" by (simp_all add: row_indices_iff)
    with inside [of b i] assms(4,6,7)
    show "0 \<le> (b * S + i) * C \<and> 0 \<le> start + i \<and>
        (b * S + i) * C + (start + i) + 1 \<le> int (length (replicate ?n ?off))"
      by auto
  qed
  from fill_rows_Some [OF this, of ?on] obtain ys where ys:
    "fill_rows (S * C) C start ?on ?ps (replicate ?n ?off) = Some ys" "length ys = ?n"
    "\<And>k. k < ?n \<Longrightarrow> ys ! k = (if list_ex (\<lambda>(b, i). (b * S + i) * C \<le> int k \<and>
        int k < (b * S + i) * C + (start + i) + 1) ?ps then ?on else ?off)"
    unfolding off by auto
  have cell: "ys ! nat ((b * S + i) * C + j) = (if i < steps \<and> j \<le> start + i then ?on else ?off)"
    if r: "0 \<le> b" "b < B" "0 \<le> i" "i < S" "0 \<le> j" "j < C" for b i j
  proof -
    let ?k = "(b * S + i) * C + j"
    have "0 \<le> ?k" "?k < int ?n" using inside [OF r(1-4)] r(5,6) by linarith+
    then have k: "0 \<le> ?k" "nat ?k < ?n" "int (nat ?k) = ?k" by (simp_all add: nat_less_iff)
    have "list_ex (\<lambda>(b', i'). (b' * S + i') * C \<le> ?k \<and> ?k < (b' * S + i') * C + (start + i') + 1) ?ps
      \<longleftrightarrow> i < steps \<and> j \<le> start + i" (is "?L \<longleftrightarrow> ?R")
    proof
      assume ?L
      then obtain b' i' where bi: "(b', i') \<in> set ?ps" "(b' * S + i') * C \<le> ?k"
        "?k < (b' * S + i') * C + (start + i' + 1)" by (auto simp: list_ex_iff)
      then have i': "0 \<le> i'" "i' < steps" by (simp_all add: row_indices_iff)
      have "b' * S + i' = b * S + i"
        by (rule block_unique [OF bi(2,3)]) (use i' assms(7) r in linarith)+
      then have "b' = b \<and> i' = i"
        by (rule mixed_radix_unique) (use i' assms(6) r in linarith)+
      then show ?R using bi(3) i' by simp
    next
      assume ?R
      then show ?L using r by (auto simp: list_ex_iff row_indices_iff intro!: bexI [of _ "(b, i)"])
    qed
    then show ?thesis using ys(3) [OF k(2)] k(3) by simp
  qed
  let ?m = "snd (InitializeAttentionMask f16 m)"
  have "?m = m\<lparr>mask_cells := replicate ?n ?off\<rparr>" using assms(8) by (simp add: InitializeAttentionMask_def)
  then have "FillAttentionMask start steps ?m = Some (Ok, m\<lparr>mask_cells := ys\<rparr>)"
    using ys(1) bo assms(1,3,8) by (auto simp: FillAttentionMask_def Let_def)
  then show ?thesis using ys(2) cell by (intro exI [of _ "m\<lparr>mask_cells := ys\<rparr>"]) simp
qed

definition example_mask :: mask_tensor where
  "example_mask = \<lparr>mask_type = ElBool, mask_dims = [1, 2, 1, 4], mask_cells = replicate 8 BoolTrue\<rparr>"

lemma attention_mask_is_causal_witness:
  "\<exists>m'. FillAttentionMask 1 2 (snd (InitializeAttentionMask False example_mask)) = Some (Ok, m') \<and>
     mask_cells m' ! 1 = BoolTrue \<and> mask_cells m' ! 2 = BoolFalse \<and> mask_cells m' ! 6 = BoolTrue"
proof -
  obtain m' where m': "FillAttentionMask 1 2 (snd (InitializeAttentionMask False example_mask)) = Some (Ok, m')"
    "\<forall>b i j. 0 \<le> b \<and> b < 1 \<and> 0 \<le> i \<and> i < 2 \<and> 0 \<le> j \<and> j < 4 \<longrightarrow>
       mask_cells m' ! nat ((b * 2 + i) * 4 + j) =
         (if i < 2 \<and> j \<le> 1 + i then mask_on (mask_type example_mask) else mask_off (mask_type example_mask) False)"
    using attention_mask_is_causal [of example_mask 1 2 4 1 2 False] by (auto simp: example_mask_def)
  from m'(2) [rule_format, of 0 0 1] m'(2) [rule_format, of 0 0 2] m'(2) [rule_format, of 0 1 2]
  show ?thesis using m'(1) by (simp add: example_mask_def mask_on_def mask_off_def)
qed

end
