(* ===== verification/CompiledExecutor.thy ===== *)
theory CompiledExecutor
  imports ProcessedTokens ExecutorUtils ConstrainedDecoding
begin

text \<open>
  The token bookkeeping of the compiled model executors,
  \<^verbatim>\<open>runtime/executor/llm_litert_compiled_model_executor.cc\<close> (CPU and GPU) and
  \<^verbatim>\<open>llm_litert_npu_compiled_model_executor.cc\<close> (NPU): which tokens are handed to the model, at which
  positions, and what the executor remembers of them. The KV cache of a candidate is the map from
  positions to the token last written there; running the model (LiteRT) writes the tokens at the
  positions of its input buffers, and its logits are a function of the caches. Buffer operations,
  embedding lookups and model runs succeed; embeddings are not modelled.
\<close>

section \<open>State\<close>

type_synonym cache = "int \<Rightarrow> int option"

record 'f compiled_executor =
  ce_tokens :: "'f processed_tokens"
  ce_step :: int
  ran_decode :: bool
  kv :: "cache list"

definition fresh_executor :: "'f compiled_executor" where
  "fresh_executor = \<lparr>ce_tokens = ProcessedTokens, ce_step = 0, ran_decode = False, kv = [\<lambda>p. None]\<rparr>"

definition write_cache :: "(int \<times> int) list \<Rightarrow> cache \<Rightarrow> cache" where
  "write_cache ps c = fold (\<lambda>pt c. c(fst pt := Some (snd pt))) ps c"

definition on_tokens :: "('f processed_tokens, 'a) op \<Rightarrow> ('f compiled_executor, 'a) uop" where
  "on_tokens m s = (case m (ce_tokens s) of (r, pt) \<Rightarrow> Some (r, s\<lparr>ce_tokens := pt\<rparr>))"

definition mark_pending :: "('f compiled_executor, unit) uop" where
  "mark_pending s =
     map_option (\<lambda>(r, pt). (r, s\<lparr>ce_tokens := pt\<rparr>)) (MarkPendingInputTokenAsProcessed (ce_tokens s))"

section \<open>Prefill\<close>

text \<open>The pending token becomes the first input of the run.\<close>

definition consume_pending ::
  "int \<Rightarrow> 'f token_data option list \<Rightarrow> ('f compiled_executor, (int \<times> int) list) uop"
where
  "consume_pending start pend s =
     (case pend of
        [] \<Rightarrow> Some (Inr [], s)
      | None # _ \<Rightarrow> None
      | Some d # _ \<Rightarrow> bind_op mark_pending (\<lambda>_ s. Some (Inr [(start, tok_id d)], s)) s)"

definition number_from :: "int \<Rightarrow> int list \<Rightarrow> (int \<times> int) list" where
  "number_from p ids = zip (map (\<lambda>i. p + int i) [0..<length ids]) ids"

text \<open>
  All but the last token go to the model at the positions that \<open>ce_step\<close> counts; the last one becomes
  the pending token.
\<close>

definition feed_tokens ::
  "int list \<Rightarrow> (int \<times> int) list \<Rightarrow> ('f compiled_executor, (int \<times> int) list) uop"
where
  "feed_tokens ids fed s =
     (let body = butlast ids; run = fed @ number_from (ce_step s) body;
          s' = s\<lparr>ce_step := ce_step s + int (length body),
                 ce_tokens := AddProcessedTokens body (ce_tokens s)\<rparr>
      in bind_op (on_tokens (AddPendingInputToken [Some (TokenData (last ids))]))
           (\<lambda>_ s. Some (Inr run, s\<lparr>ce_step := ce_step s + 1\<rparr>)) s')"

definition run_prefill :: "(int \<times> int) list \<Rightarrow> ('f compiled_executor, unit) uop" where
  "run_prefill run s = Some (Ok, s\<lparr>kv := map (write_cache run) (kv s)\<rparr>)"

definition PrefillInternal :: "int list \<Rightarrow> ('f compiled_executor, unit) uop" where
  "PrefillInternal ids s =
     (let start = fst (GetNextUnprocessedToken (ce_tokens s));
          pend = snd (GetNextUnprocessedToken (ce_tokens s)) in
      if length pend > 1 then Some (Inl Internal, s)
      else if ids = [] then None
      else if pend = [] \<and> length ids - 1 = 0
      then on_tokens (AddPendingInputToken [Some (TokenData (ids ! 0))]) s
      else bind_op (consume_pending start pend)
             (\<lambda>fed. bind_op (feed_tokens ids fed) run_prefill) s)"

fun prefill_groups ::
  "(int list \<Rightarrow> ('s, unit) uop) \<Rightarrow> (string \<times> int) list \<Rightarrow> int list \<Rightarrow> ('s, unit) uop"
where
  "prefill_groups internal [] ids s = Some (if ids = [] then Ok else Inl Internal, s)"
| "prefill_groups internal ((sig, len) # gs) ids s =
     (if len < 0 \<or> int (length ids) < len then None
      else bind_op (internal (take (nat len) ids))
             (\<lambda>_. prefill_groups internal gs (drop (nat len) ids)) s)"

text \<open>After a decode only the first candidate is kept.\<close>

definition reduce_for_prefill :: "nat \<Rightarrow> ('f compiled_executor, unit) uop" where
  "reduce_for_prefill batch s =
     (if \<not> ran_decode s then Some (Ok, s)
      else let s' = s\<lparr>ran_decode := False\<rparr> in
           if batch > 1
           then bind_op (on_tokens (ReduceTokenCandidates 0)) (\<lambda>_ s. Some (Ok, s\<lparr>kv := take 1 (kv s)\<rparr>)) s'
           else Some (Ok, s'))"

text \<open>The static executor; the token ids have the dimensions \<open>[b, n]\<close>.\<close>

definition StaticPrefill ::
  "nat \<Rightarrow> prefill_runners \<Rightarrow> int \<Rightarrow> int \<Rightarrow> int list \<Rightarrow> ('f compiled_executor, unit) uop"
where
  "StaticPrefill batch rs b n ids =
     bind_op (reduce_for_prefill batch) (\<lambda>_ s.
       if b \<noteq> 1 \<and> b \<noteq> int batch then Some (Inl Internal, s)
       else if n \<le> 0 then Some (Inl Internal, s)
       else let ids = take (length ids div nat b) ids in
            (case GetOptimizedPrefillWorkGroups rs (int (length ids)) of
               None \<Rightarrow> None
             | Some groups \<Rightarrow> prefill_groups PrefillInternal groups ids s))"

section \<open>Decode\<close>

definition PrepareFirstDecode :: "nat \<Rightarrow> ('f compiled_executor, unit) uop" where
  "PrepareFirstDecode batch s =
     (if ran_decode s then Some (Ok, s)
      else let s' = s\<lparr>ran_decode := True\<rparr> in
           if batch \<le> 1 then Some (Ok, s')
           else bind_op (on_tokens (BroadcastTokenCandidates batch))
                  (\<lambda>_ s. Some (Ok, s\<lparr>kv := replicate batch (kv s ! 0)\<rparr>)) s')"

definition GetTokenToDecode ::
  "nat \<Rightarrow> int list option \<Rightarrow> ('f compiled_executor, int \<times> 'f token_data option list) uop"
where
  "GetTokenToDecode batch inputs =
     bind_op
       (\<lambda>s. case inputs of
              None \<Rightarrow> Some (Ok, s)
            | Some ids \<Rightarrow>
                if ids = [] then Some (Ok, s)
                else if length ids \<noteq> batch then Some (Inl Internal, s)
                else if ids ! 0 \<ge> 0
                then on_tokens (AddPendingInputToken (map (Some \<circ> TokenData) ids))
                       (s\<lparr>ce_tokens := InvalidatePendingInputToken (ce_tokens s)\<rparr>)
                else Some (Ok, s))
       (\<lambda>_ s. Some (Inr (GetNextUnprocessedToken (ce_tokens s)), s))"

definition ConsumePendingOrAddProcessedToken ::
  "'f token_data option list \<Rightarrow> ('f compiled_executor, unit) uop"
where
  "ConsumePendingOrAddProcessedToken token s =
     (case mark_pending s of
        None \<Rightarrow> None
      | Some (Inl NotFound, s') \<Rightarrow>
          (case those token of
             None \<Rightarrow> None
           | Some ds \<Rightarrow> Some (Ok, s'\<lparr>ce_tokens := AddProcessedTokens (map tok_id ds) (ce_tokens s')\<rparr>))
      | Some (r, s') \<Rightarrow> Some (r, s'))"

definition DecodeInternal ::
  "int \<Rightarrow> 'f token_data option list \<Rightarrow> ('f compiled_executor, unit) uop"
where
  "DecodeInternal step token s =
     (if token = [] then Some (Inl InvalidArgument, s)
      else (case those token of
              None \<Rightarrow> None
            | Some ds \<Rightarrow>
                Some (Ok, s\<lparr>kv := map2 (\<lambda>c d. c(step := Some (tok_id d))) (kv s) ds\<rparr>)))"

text \<open>One run of the model on the next unprocessed token: what all the decode methods share.\<close>

definition decode_step ::
  "nat \<Rightarrow> int list option \<Rightarrow> ('f compiled_executor, int \<times> 'f token_data option list) uop"
where
  "decode_step batch inputs =
     bind_op (PrepareFirstDecode batch) (\<lambda>_.
     bind_op (GetTokenToDecode batch inputs) (\<lambda>st.
     bind_op (DecodeInternal (fst st) (snd st)) (\<lambda>_.
     bind_op (ConsumePendingOrAddProcessedToken (snd st)) (\<lambda>_ s. Some (Inr st, s)))))"

definition DecodeToLogits :: "nat \<Rightarrow> (cache list \<Rightarrow> 'l list) \<Rightarrow> int list option \<Rightarrow>
  ('f compiled_executor, 'l list) uop" where
  "DecodeToLogits batch model inputs =
     bind_op (decode_step batch inputs) (\<lambda>st s. Some (Inr (model (kv s)), s\<lparr>ce_step := fst st + 1\<rparr>))"

text \<open>The mask of a constraint on the logits; \<open>last_run_is_decode\<close> is \<open>ran_decode\<close> before the call.\<close>

definition constrain_logits ::
  "nat \<Rightarrow> int \<Rightarrow> 'l \<Rightarrow> 'c constraint option \<Rightarrow> bool \<Rightarrow> 'f token_data list \<Rightarrow> 'l list \<Rightarrow>
     ('c decoder_states, 'l list) op"
where
  "constrain_logits batch vocab lowest c last_run_is_decode token logits cs =
     (case c of
        None \<Rightarrow> (Inr logits, cs)
      | Some k \<Rightarrow>
          if token = [] then (Inr logits, cs)
          else if length token \<noteq> batch then (Inl Internal, cs)
          else assign_or_return
                 (\<lambda>cs. if last_run_is_decode then UpdateConstraintState k (map tok_id token) cs else (Ok, cs))
                 (\<lambda>_ cs. let r = MaskLogits k lowest [int batch, 1, vocab] cs logits
                         in (try_or_return (fst r) (\<lambda>_. Inr (snd r)), cs))
                 cs)"

definition CompiledDecodeLogits ::
  "nat \<Rightarrow> int \<Rightarrow> 'l \<Rightarrow> (cache list \<Rightarrow> 'l list) \<Rightarrow> 'c constraint option \<Rightarrow> int list option \<Rightarrow>
     ('f compiled_executor \<times> 'c decoder_states, 'l list) uop"
where
  "CompiledDecodeLogits batch vocab lowest model c inputs sc =
     (let last_run_is_decode = ran_decode (fst sc) in
      case decode_step batch inputs (fst sc) of
        None \<Rightarrow> None
      | Some (Inl e, s) \<Rightarrow> Some (Inl e, (s, snd sc))
      | Some (Inr st, s) \<Rightarrow>
          (case those (snd st) of
             None \<Rightarrow> None
           | Some ds \<Rightarrow>
               (case constrain_logits batch vocab lowest c last_run_is_decode ds (model (kv s)) (snd sc) of
                  (Inl e, cs) \<Rightarrow> Some (Inl e, (s, cs))
                | (Inr logits, cs) \<Rightarrow> Some (Inr logits, (s\<lparr>ce_step := fst st + 1\<rparr>, cs)))))"

text \<open>Negative samples are replaced by 0.\<close>

definition CompiledDecode ::
  "nat \<Rightarrow> int \<Rightarrow> 'l \<Rightarrow> (cache list \<Rightarrow> 'l list) \<Rightarrow> ('l list \<Rightarrow> int list status_or) \<Rightarrow> 'c constraint option \<Rightarrow>
     ('f compiled_executor \<times> 'c decoder_states, int list) uop"
where
  "CompiledDecode batch vocab lowest model sampler c =
     bind_op (CompiledDecodeLogits batch vocab lowest model c None) (\<lambda>logits sc.
       case sampler logits of
         Inl e \<Rightarrow> Some (Inl e, sc)
       | Inr ids \<Rightarrow>
           if length ids \<noteq> batch then Some (Inl Internal, sc)
           else let ids = map (\<lambda>t. if t < 0 then 0 else t) ids in
                (case AddPendingInputToken (map (Some \<circ> TokenData) ids) (ce_tokens (fst sc)) of
                   (Inl e, pt) \<Rightarrow> Some (Inl e, ((fst sc)\<lparr>ce_tokens := pt\<rparr>, snd sc))
                 | (Inr _, pt) \<Rightarrow> Some (Inr ids, ((fst sc)\<lparr>ce_tokens := pt\<rparr>, snd sc))))"

definition CompiledReset :: "('f compiled_executor, unit) uop" where
  "CompiledReset s = on_tokens (RollBackToStep 0) (s\<lparr>ce_step := 0\<rparr>)"

section \<open>The NPU executor\<close>

text \<open>It rolls its tokens back to the current step before every run.\<close>

definition roll_to_step :: "('f compiled_executor, unit) uop" where
  "roll_to_step s =
     (if TokenCount (ce_tokens s) \<noteq> ce_step s then on_tokens (RollBackToStep (ce_step s)) s
      else Some (Ok, s))"

definition NpuPrefillInternal :: "int list \<Rightarrow> ('f compiled_executor, unit) uop" where
  "NpuPrefillInternal ids =
     bind_op roll_to_step (\<lambda>_ s.
       if ids = [] then None
       else let start = fst (GetNextUnprocessedToken (ce_tokens s));
                pend = snd (GetNextUnprocessedToken (ce_tokens s)) in
            bind_op (consume_pending start pend)
              (\<lambda>fed. bind_op (feed_tokens ids fed) run_prefill) s)"

definition NpuPrefill ::
  "prefill_runners \<Rightarrow> int \<Rightarrow> int \<Rightarrow> int list \<Rightarrow> ('f compiled_executor, unit) uop"
where
  "NpuPrefill rs b n ids s =
     (if b \<noteq> 1 then Some (Inl Internal, s)
      else if n \<le> 0 then Some (Inl Internal, s)
      else (case GetOptimizedPrefillWorkGroups rs (int (length ids)) of
              None \<Rightarrow> None
            | Some groups \<Rightarrow> prefill_groups NpuPrefillInternal groups ids s))"

definition NpuDecodeInternal :: "int \<Rightarrow> 'f token_data option \<Rightarrow> ('f compiled_executor, unit) uop" where
  "NpuDecodeInternal step token s =
     (case token of
        None \<Rightarrow> None
      | Some d \<Rightarrow>
          if tok_id d = -1 then Some (Inl InvalidArgument, s)
          else Some (Ok, s\<lparr>kv := map (\<lambda>c. c(step := Some (tok_id d))) (kv s)\<rparr>))"

definition NpuDecode ::
  "(cache list \<Rightarrow> int status_or) \<Rightarrow> bool \<Rightarrow> ('f compiled_executor, int list) uop"
where
  "NpuDecode greedy has_constraint s =
     (if has_constraint then Some (Inl Unimplemented, s)
      else bind_op roll_to_step (\<lambda>_ s.
        let start = fst (GetNextUnprocessedToken (ce_tokens s));
            pend = snd (GetNextUnprocessedToken (ce_tokens s)) in
        if pend = [] then Some (Inl InvalidArgument, s)
        else bind_op (NpuDecodeInternal start (pend ! 0)) (\<lambda>_.
             bind_op mark_pending (\<lambda>_ s.
               case greedy (kv s) of
                 Inl e \<Rightarrow> Some (Inl e, s)
               | Inr tok \<Rightarrow>
                   bind_op (on_tokens (AddPendingInputToken [Some (TokenData tok)]))
                     (\<lambda>_ s. Some (Inr [tok], s\<lparr>ce_step := ce_step s + 1\<rparr>)) s)) s) s)"

definition NpuReset :: "('f compiled_executor, unit) uop" where
  "NpuReset s = on_tokens (RollBackToStep 0) (s\<lparr>ce_step := 0\<rparr>)"

section \<open>The cache holds the processed tokens\<close>

text \<open>
  The executor state is coherent when every candidate has a cache and every processed token is what
  the cache holds at its position.
\<close>

definition cache_of :: "int list \<Rightarrow> cache \<Rightarrow> bool" where
  "cache_of ids c \<longleftrightarrow> (\<forall>p < length ids. c (int p) = Some (ids ! p))"

definition coherent :: "'f compiled_executor \<Rightarrow> bool" where
  "coherent s \<longleftrightarrow> wf_tokens (ce_tokens s) \<and>
     list_all2 (\<lambda>t c. cache_of (token_ids t) c) (toks (ce_tokens s)) (kv s)"

lemma write_cache_Nil [simp]: "write_cache [] c = c"
  by (simp add: write_cache_def)

lemma write_cache_Cons [simp]: "write_cache ((p, t) # ps) c = write_cache ps (c(p := Some t))"
  by (simp add: write_cache_def)

lemma write_cache_append [simp]: "write_cache (ps @ qs) c = write_cache qs (write_cache ps c)"
  by (simp add: write_cache_def)

lemma number_from_Nil [simp]: "number_from p [] = []"
  by (simp add: number_from_def)

lemma number_from_snoc [simp]: "number_from p (xs @ [x]) = number_from p xs @ [(p + int (length xs), x)]"
  by (simp add: number_from_def)

lemma cache_of_Nil [simp]: "cache_of [] c"
  by (simp add: cache_of_def)

lemma cache_of_snoc: "cache_of ids c \<Longrightarrow> cache_of (ids @ [t]) (c(int (length ids) := Some t))"
  by (auto simp: cache_of_def nth_append less_Suc_eq)

lemma cache_of_write:
  "cache_of ids c \<Longrightarrow> cache_of (ids @ xs) (write_cache (number_from (int (length ids)) xs) c)"
proof (induction xs rule: rev_induct)
  case (snoc x xs)
  from cache_of_snoc [OF snoc.IH [OF snoc.prems], of x] show ?case by (simp add: fun_upd_def)
qed simp

lemma cache_of_take: "cache_of ids c \<Longrightarrow> cache_of (take n ids) c"
  by (simp add: cache_of_def)

section \<open>One candidate\<close>

text \<open>The state of an executor with a single candidate after reading its pending token, and after a run.\<close>

definition with_candidate ::
  "int list \<Rightarrow> int option \<Rightarrow> 'f compiled_executor \<Rightarrow> 'f compiled_executor"
where
  "with_candidate ids pend s =
     s\<lparr>ce_tokens := (ce_tokens s)\<lparr>toks :=
        [\<lparr>token_ids = ids, pending_input_token = map_option TokenData pend\<rparr>]\<rparr>\<rparr>"

lemma next_single:
  "toks pt = [t] \<Longrightarrow> GetNextUnprocessedToken pt =
     (int (length (token_ids t)), case pending_input_token t of None \<Rightarrow> [] | Some d \<Rightarrow> [Some d])"
  by (simp add: GetNextUnprocessedToken_def GetStep_def GetPendingInputToken_def HasPendingInputToken_def
      split: option.split)

lemma wf_single [simp]: "toks pt = [t] \<Longrightarrow> wf_tokens pt"
  by (rule wf_tokensI [of _ "length (token_ids t)" "pending_input_token t = None"]) auto

definition pending_run :: "'f tokens \<Rightarrow> (int \<times> int) list" where
  "pending_run t =
     (case pending_input_token t of None \<Rightarrow> [] | Some d \<Rightarrow> [(int (length (token_ids t)), tok_id d)])"

lemma consume_single:
  assumes "toks (ce_tokens s) = [t]"
  shows "consume_pending (int (length (token_ids t)))
      (case pending_input_token t of None \<Rightarrow> [] | Some d \<Rightarrow> [Some d]) s =
    Some (Inr (pending_run t), with_candidate (context_of t) None s)"
proof (cases "pending_input_token t")
  case None
  then have "with_candidate (context_of t) None s = s"
    using assms by (cases s; cases "ce_tokens s"; cases t)
      (simp add: with_candidate_def context_of_def)
  with None show ?thesis by (simp add: consume_pending_def pending_run_def)
next
  case (Some d)
  then have "MarkPendingInputTokenAsProcessed (ce_tokens s) =
      Some (Ok, (ce_tokens s)\<lparr>toks := [\<lparr>token_ids = token_ids t @ [tok_id d], pending_input_token = None\<rparr>]\<rparr>)"
    using assms MarkPending_Some [of "ce_tokens s"]
    by (cases t) (simp add: HasPendingInputToken_def)
  with Some show ?thesis
    by (simp add: consume_pending_def mark_pending_def bind_op_def pending_run_def with_candidate_def
        context_of_def)
qed

lemma feed_single:
  assumes "ids \<noteq> []"
  shows "feed_tokens ids fed (with_candidate old None s) =
    Some (Inr (fed @ number_from (ce_step s) (butlast ids)),
      with_candidate (old @ butlast ids) (Some (last ids)) (s\<lparr>ce_step := ce_step s + int (length ids)\<rparr>))"
  using assms
  by (cases ids rule: rev_cases)
    (simp_all add: feed_tokens_def Let_def on_tokens_def with_candidate_def AddProcessedTokens_def
      AddPendingInputToken_def HasPendingInputToken_def bind_op_def)

text \<open>What a run of the prefill does to an executor with one candidate.\<close>

definition prefilled :: "int list \<Rightarrow> 'f tokens \<Rightarrow> 'f compiled_executor \<Rightarrow> 'f compiled_executor" where
  "prefilled ids t s =
     (with_candidate (context_of t @ butlast ids) (Some (last ids)) s)
       \<lparr>ce_step := ce_step s + int (length ids),
        kv := map (write_cache (pending_run t @ number_from (ce_step s) (butlast ids))) (kv s)\<rparr>"

lemma run_single:
  assumes "toks (ce_tokens s) = [t]" "ids \<noteq> []"
  shows "bind_op (consume_pending (fst (GetNextUnprocessedToken (ce_tokens s)))
                                 (snd (GetNextUnprocessedToken (ce_tokens s))))
      (\<lambda>fed. bind_op (feed_tokens ids fed) run_prefill) s = Some (Ok, prefilled ids t s)"
proof -
  have "bind_op (feed_tokens ids (pending_run t)) run_prefill (with_candidate (context_of t) None s) =
      Some (Ok, prefilled ids t s)"
    by (simp add: bind_op_def feed_single [OF assms(2)] run_prefill_def)
      (simp add: prefilled_def with_candidate_def)
  then show ?thesis
    by (simp add: next_single [OF assms(1)] bind_op_def [of "consume_pending _ _"] consume_single [OF assms(1)])
qed

lemma PrefillInternal_single:
  assumes "toks (ce_tokens s) = [t]" "ids \<noteq> []"
  shows "PrefillInternal ids s = Some (Ok,
    if pending_input_token t = None \<and> length ids = 1
    then with_candidate (token_ids t) (Some (ids ! 0)) s else prefilled ids t s)"
proof -
  have n: "(length ids - 1 = 0) = (length ids = 1)" using assms(2) by (cases ids) auto
  show ?thesis
    using run_single [OF assms] assms n
    by (auto simp: PrefillInternal_def Let_def next_single on_tokens_def AddPendingInputToken_def
        HasPendingInputToken_def with_candidate_def split: option.splits)
qed

lemma prefilled_toks:
  "toks (ce_tokens (prefilled ids t s)) =
     [\<lparr>token_ids = context_of t @ butlast ids, pending_input_token = Some (TokenData (last ids))\<rparr>]"
  by (simp add: prefilled_def with_candidate_def)

lemma prefilled_context:
  "ids \<noteq> [] \<Longrightarrow> GetCopyOfTokens (ce_tokens (prefilled ids t s)) = [context_of t @ ids]"
  by (simp add: GetCopyOfTokens_alt prefilled_toks) (simp add: context_of_def TokenData_def)

lemma coherent_single:
  "toks (ce_tokens s) = [t] \<Longrightarrow> coherent s \<longleftrightarrow> (\<exists>c. kv s = [c] \<and> cache_of (token_ids t) c)"
  by (auto simp: coherent_def list_all2_Cons1)

lemma coherent_prefilled:
  assumes "toks (ce_tokens s) = [t]" "coherent s" "ce_step s = int (length (context_of t))"
  shows "coherent (prefilled ids t s)"
proof -
  obtain c where c: "kv s = [c]" "cache_of (token_ids t) c" using assms coherent_single by blast
  have "cache_of (context_of t) (write_cache (pending_run t) c)"
    using c(2) cache_of_snoc [OF c(2)]
    by (simp add: pending_run_def context_of_def split: option.split)
  from cache_of_write [OF this, of "butlast ids"] show ?thesis
    using c(1) assms(3) by (simp add: coherent_single [OF prefilled_toks]) (simp add: prefilled_def)
qed

section \<open>Decoding keeps the cache coherent\<close>

text \<open>What holds between the calls: after a decode there are \<open>batch\<close> candidates, before it one.\<close>

definition exec_inv :: "nat \<Rightarrow> 'f compiled_executor \<Rightarrow> bool" where
  "exec_inv batch s \<longleftrightarrow> 0 < batch \<and> coherent s \<and>
     length (toks (ce_tokens s)) = (if ran_decode s then batch else 1)"

lemma exec_inv_wf: "exec_inv batch s \<Longrightarrow> wf_tokens (ce_tokens s)"
  by (simp add: exec_inv_def coherent_def)

lemma coherent_alt:
  "coherent s \<longleftrightarrow> wf_tokens (ce_tokens s) \<and> list_all2 cache_of (map token_ids (toks (ce_tokens s))) (kv s)"
  by (simp add: coherent_def list.rel_map)

lemma coherent_cong:
  "map token_ids (toks (ce_tokens s')) = map token_ids (toks (ce_tokens s)) \<Longrightarrow> kv s' = kv s \<Longrightarrow>
     wf_tokens (ce_tokens s') \<Longrightarrow> coherent s \<Longrightarrow> coherent s'"
  by (simp add: coherent_alt)

text \<open>The contexts of the candidates that the next decode continues.\<close>

definition decode_contexts :: "nat \<Rightarrow> 'f compiled_executor \<Rightarrow> int list list" where
  "decode_contexts batch s =
     (if ran_decode s then GetCopyOfTokens (ce_tokens s) else replicate batch (GetCopyOfTokens (ce_tokens s) ! 0))"

lemma PrepareFirstDecode_result:
  assumes "exec_inv batch s"
  shows "\<exists>s'. PrepareFirstDecode batch s = Some (Ok, s') \<and> exec_inv batch s' \<and> ran_decode s' \<and>
    GetCopyOfTokens (ce_tokens s') = decode_contexts batch s"
proof (cases "ran_decode s \<or> batch = 1")
  case True
  have "GetCopyOfTokens (ce_tokens s) = decode_contexts batch s"
  proof (cases "ran_decode s")
    case False
    then have "length (GetCopyOfTokens (ce_tokens s)) = 1" "batch = 1"
      using assms True by (auto simp: exec_inv_def GetCopyOfTokens_alt)
    then show ?thesis using False by (auto simp: decode_contexts_def length_Suc_conv)
  qed (simp add: decode_contexts_def)
  with True assms show ?thesis by (auto simp: PrepareFirstDecode_def exec_inv_def coherent_def)
next
  case False
  then have b: "0 < batch" "\<not> batch \<le> 1" "\<not> ran_decode s" using assms by (auto simp: exec_inv_def)
  with assms have "length (toks (ce_tokens s)) = 1" "coherent s" by (auto simp: exec_inv_def)
  then obtain t c where t: "toks (ce_tokens s) = [t]" "kv s = [c]" "cache_of (token_ids t) c"
    by (metis coherent_single One_nat_def length_0_conv length_Suc_conv)
  let ?pt = "(ce_tokens s)\<lparr>toks := replicate batch t\<rparr>"
  have "[t] @ replicate (batch - 1) t = replicate batch t" using b(1) by (cases batch) auto
  then have br: "BroadcastTokenCandidates batch (ce_tokens s) = (Ok, ?pt)"
    using t(1) b(1) by (simp add: BroadcastTokenCandidates_def Let_def)
  have wf: "wf_tokens ?pt"
    using b(1) by (intro wf_tokensI [of _ "length (token_ids t)" "pending_input_token t = None"]) auto
  let ?s = "s\<lparr>ran_decode := True, ce_tokens := ?pt, kv := replicate batch c\<rparr>"
  have "PrepareFirstDecode batch s = Some (Ok, ?s)"
    using b br t(2) by (simp add: PrepareFirstDecode_def Let_def bind_op_def on_tokens_def)
  moreover have "exec_inv batch ?s"
    using b(1) wf t(3) by (simp add: exec_inv_def coherent_def list_all2_conv_all_nth)
  moreover have "GetCopyOfTokens ?pt = decode_contexts batch s"
    using b(3) t(1) by (simp add: decode_contexts_def GetCopyOfTokens_alt)
  ultimately show ?thesis by (intro exI [of _ ?s]) simp
qed

lemma AddPending_all:
  assumes "wf_tokens pt" "\<not> HasPendingInputToken pt" "length ids = length (toks pt)"
  shows "\<exists>pt'. AddPendingInputToken (map (Some \<circ> TokenData) ids) pt = (Ok, pt') \<and> wf_tokens pt' \<and>
    map token_ids (toks pt') = map token_ids (toks pt) \<and> HasPendingInputToken pt' \<and>
    map pending_input_token (toks pt') = map (Some \<circ> TokenData) ids"
proof -
  let ?pt = "snd (AddPendingInputToken (map (Some \<circ> TokenData) ids) pt)"
  have eq: "AddPendingInputToken (map (Some \<circ> TokenData) ids) pt = (Ok, ?pt)"
    and tk: "toks ?pt = map2 (\<lambda>t p. t\<lparr>pending_input_token := p\<rparr>) (toks pt) (map (Some \<circ> TokenData) ids)"
    using assms by (simp_all add: AddPendingInputToken_def)
  have p: "map pending_input_token (toks ?pt) = map (Some \<circ> TokenData) ids"
    using assms(3) by (intro nth_equalityI) (simp_all add: tk)
  have "toks ?pt \<noteq> []" using assms(3) wf_tokens_nonempty [OF assms(1)] by (auto simp: tk)
  with p have "HasPendingInputToken ?pt"
    by (cases "toks ?pt"; cases ids) (auto simp: HasPendingInputToken_def)
  moreover have "map token_ids (toks ?pt) = map token_ids (toks pt)"
    using assms(3) by (intro nth_equalityI) (simp_all add: tk)
  moreover have "wf_tokens ?pt" using assms(1) by (intro wf_AddPending) auto
  ultimately show ?thesis using eq p by blast
qed

lemma GetStep_map:
  fixes pt pt' :: "'f processed_tokens"
  shows "map token_ids (toks pt') = map token_ids (toks pt) \<Longrightarrow> GetStep pt' = GetStep pt"
  by (cases "toks pt'"; cases "toks pt") (auto simp: GetStep_def simp flip: length_map)

lemma GetTokenToDecode_result:
  assumes "exec_inv batch s" "ran_decode s"
  shows "\<exists>r s'. GetTokenToDecode batch inputs s = Some (r, s') \<and> exec_inv batch s' \<and> ran_decode s' \<and>
    (inputs = None \<longrightarrow> s' = s) \<and> (\<forall>st. r = Inr st \<longrightarrow> st = GetNextUnprocessedToken (ce_tokens s'))"
proof (cases "\<exists>ids. inputs = Some ids \<and> ids \<noteq> [] \<and> length ids = batch \<and> ids ! 0 \<ge> 0")
  case True
  then obtain ids where ids: "inputs = Some ids" "ids \<noteq> []" "length ids = batch" "ids ! 0 \<ge> 0" by blast
  let ?pt = "InvalidatePendingInputToken (ce_tokens s)"
  have wf: "wf_tokens ?pt" "\<not> HasPendingInputToken ?pt" "length ids = length (toks ?pt)"
    "map token_ids (toks ?pt) = map token_ids (toks (ce_tokens s))"
    using assms wf_Invalidate [OF exec_inv_wf [OF assms(1)]] wf_tokens_nonempty [OF exec_inv_wf [OF assms(1)]] ids(3)
    by (auto simp: InvalidatePendingInputToken_def HasPendingInputToken_def exec_inv_def)
  obtain pt' where pt': "AddPendingInputToken (map (Some \<circ> TokenData) ids) ?pt = (Ok, pt')" "wf_tokens pt'"
    "map token_ids (toks pt') = map token_ids (toks ?pt)"
    using AddPending_all [OF wf(1-3)] by blast
  let ?s = "s\<lparr>ce_tokens := pt'\<rparr>"
  have "coherent ?s" using assms(1) pt'(2,3) wf(4) coherent_cong [of ?s s] by (simp add: exec_inv_def)
  moreover have "length (toks pt') = batch" using pt'(3) wf(3) ids(3) by (metis length_map)
  ultimately have "exec_inv batch ?s" using assms by (simp add: exec_inv_def)
  moreover have "GetTokenToDecode batch inputs s = Some (Inr (GetNextUnprocessedToken pt'), ?s)"
    using ids pt'(1) by (simp add: GetTokenToDecode_def bind_op_def on_tokens_def)
  ultimately show ?thesis using assms(2)
    by (intro exI [of _ "Inr (GetNextUnprocessedToken pt')"] exI [of _ ?s]) (simp add: ids(1))
next
  case False
  then show ?thesis using assms
    by (auto simp: GetTokenToDecode_def bind_op_def split: option.splits)
qed

lemma those_pending:
  assumes "wf_tokens pt" "HasPendingInputToken pt"
  shows "GetPendingInputToken pt = map (\<lambda>t. Some (the (pending_input_token t))) (toks pt)"
    "those (GetPendingInputToken pt) = Some (map (\<lambda>t. the (pending_input_token t)) (toks pt))"
proof -
  show g: "GetPendingInputToken pt = map (\<lambda>t. Some (the (pending_input_token t))) (toks pt)"
    using wf_tokens_pending [OF assms(1)] assms(2) by (auto simp: GetPendingInputToken_def)
  show "those (GetPendingInputToken pt) = Some (map (\<lambda>t. the (pending_input_token t)) (toks pt))"
    unfolding g by simp
qed

text \<open>
  Running the model on the pending tokens and marking them as processed; the second branch of
  \<^verbatim>\<open>ConsumePendingOrAddProcessedToken\<close> is never taken.
\<close>

definition consumed :: "'f compiled_executor \<Rightarrow> 'f compiled_executor" where
  "consumed s =
     s\<lparr>kv := map2 (\<lambda>c d. c(GetStep (ce_tokens s) := Some (tok_id d))) (kv s)
             (map (\<lambda>t. the (pending_input_token t)) (toks (ce_tokens s))),
       ce_tokens := (ce_tokens s)\<lparr>toks := map (\<lambda>t. t\<lparr>token_ids := token_ids t @ [tok_id (the (pending_input_token t))],
                                                  pending_input_token := None\<rparr>) (toks (ce_tokens s))\<rparr>\<rparr>"

lemma decode_pending:
  assumes "wf_tokens (ce_tokens s)" "HasPendingInputToken (ce_tokens s)"
  shows "bind_op (DecodeInternal (GetStep (ce_tokens s)) (GetPendingInputToken (ce_tokens s)))
      (\<lambda>_. bind_op (ConsumePendingOrAddProcessedToken (GetPendingInputToken (ce_tokens s)))
             (\<lambda>_ s. Some (Inr st, s))) s = Some (Inr st, consumed s)"
proof -
  have "GetPendingInputToken (ce_tokens s) \<noteq> []"
    using wf_tokens_nonempty [OF assms(1)] by (simp add: those_pending [OF assms])
  then show ?thesis
    using MarkPending_Some [OF assms]
    by (simp add: bind_op_def DecodeInternal_def those_pending [OF assms] consumed_def
        ConsumePendingOrAddProcessedToken_def mark_pending_def)
qed

lemma coherent_consumed:
  assumes "coherent s" "HasPendingInputToken (ce_tokens s)"
  shows "coherent (consumed s)"
proof -
  let ?ts = "toks (ce_tokens s)"
  have wf: "wf_tokens (ce_tokens s)" and l: "length ?ts = length (kv s)"
    and c: "\<And>i. i < length ?ts \<Longrightarrow> cache_of (token_ids (?ts ! i)) (kv s ! i)"
    using assms(1) by (auto simp: coherent_def list_all2_conv_all_nth)
  have g: "GetStep (ce_tokens s) = int (length (token_ids (?ts ! i)))" if "i < length ?ts" for i
    using wf_tokens_ids [OF wf, of "?ts ! i"] that by simp
  have "wf_tokens (ce_tokens (consumed s))"
    using wf_Mark [OF wf MarkPending_Some [OF wf assms(2)]] by (simp add: consumed_def)
  then show ?thesis
    using l cache_of_snoc [OF c] g by (auto simp: coherent_def list_all2_conv_all_nth consumed_def)
qed

lemma GetStep_consumed:
  "wf_tokens (ce_tokens s) \<Longrightarrow> GetStep (ce_tokens (consumed s)) = GetStep (ce_tokens s) + 1"
  using wf_tokens_nonempty [of "ce_tokens s"] by (simp add: consumed_def GetStep_def)

lemma no_pending_consumed:
  "wf_tokens (ce_tokens s) \<Longrightarrow> \<not> HasPendingInputToken (ce_tokens (consumed s))"
  using wf_tokens_nonempty [of "ce_tokens s"] by (simp add: consumed_def HasPendingInputToken_def)

lemma decode_step_result:
  assumes "exec_inv batch s"
  shows "\<exists>r s'. decode_step batch inputs s = Some (r, s') \<and> exec_inv batch s' \<and> ran_decode s' \<and>
    (\<forall>st. r = Inr st \<longrightarrow> GetStep (ce_tokens s') = fst st + 1 \<and> \<not> HasPendingInputToken (ce_tokens s') \<and>
       those (snd st) \<noteq> None \<and> (inputs = None \<longrightarrow> GetCopyOfTokens (ce_tokens s') = decode_contexts batch s))"
proof -
  obtain s1 where s1: "PrepareFirstDecode batch s = Some (Ok, s1)" "exec_inv batch s1" "ran_decode s1"
    "GetCopyOfTokens (ce_tokens s1) = decode_contexts batch s"
    using PrepareFirstDecode_result [OF assms] by blast
  obtain r s2 where s2: "GetTokenToDecode batch inputs s1 = Some (r, s2)" "exec_inv batch s2" "ran_decode s2"
    "inputs = None \<Longrightarrow> s2 = s1" "\<And>st. r = Inr st \<Longrightarrow> st = GetNextUnprocessedToken (ce_tokens s2)"
    using GetTokenToDecode_result [OF s1(2,3)] by blast
  show ?thesis
  proof (cases "(\<exists>st. r = Inr st) \<and> HasPendingInputToken (ce_tokens s2)")
    case True
    then obtain st where r: "r = Inr st" by blast
    have st: "st = (GetStep (ce_tokens s2), GetPendingInputToken (ce_tokens s2))"
      using s2(5) [OF r] by (simp add: GetNextUnprocessedToken_def)
    note wf = exec_inv_wf [OF s2(2)]
    have "decode_step batch inputs s = Some (Inr st, consumed s2)"
      using s1(1) s2(1) r decode_pending [OF wf, of st] True st
      by (simp add: decode_step_def bind_op_def [of "PrepareFirstDecode batch"]
          bind_op_def [of "GetTokenToDecode batch inputs"])
    moreover have "exec_inv batch (consumed s2)"
      using s2(2,3) coherent_consumed [of s2] True by (simp add: exec_inv_def) (simp add: consumed_def)
    moreover have "ran_decode (consumed s2)" using s2(3) by (simp add: consumed_def)
    moreover have "inputs = None \<longrightarrow> GetCopyOfTokens (ce_tokens (consumed s2)) = decode_contexts batch s"
      using GetCopyOfTokens_Mark [OF wf MarkPending_Some [OF wf]] True s1(4) s2(4)
      by (auto simp: consumed_def)
    ultimately show ?thesis
      using GetStep_consumed [OF wf] no_pending_consumed [OF wf] those_pending(2) [OF wf] True st
      by (intro exI [of _ "Inr st"] exI [of _ "consumed s2"]) simp
  next
    case False
    have "\<exists>e. decode_step batch inputs s = Some (Inl e, s2)"
    proof (cases r)
      case (Inl e)
      then show ?thesis using s1(1) s2(1) by (simp add: decode_step_def bind_op_def)
    next
      case (Inr st)
      then have "snd st = []" using s2(5) False by (simp add: GetNextUnprocessedToken_def GetPendingInputToken_def)
      then show ?thesis using s1(1) s2(1) Inr by (simp add: decode_step_def bind_op_def DecodeInternal_def)
    qed
    then show ?thesis using s2(2,3) by auto
  qed
qed

text \<open>The result of a decode without the sampler: the logits step.\<close>

lemma CompiledDecodeLogits_result:
  assumes "exec_inv batch s"
  shows "\<exists>r s' cs'. CompiledDecodeLogits batch vocab lowest model c inputs (s, cs) = Some (r, (s', cs')) \<and>
    exec_inv batch s' \<and> ran_decode s' \<and>
    (\<forall>logits. r = Inr logits \<longrightarrow> ce_step s' = GetStep (ce_tokens s') \<and> \<not> HasPendingInputToken (ce_tokens s') \<and>
       (inputs = None \<longrightarrow> GetCopyOfTokens (ce_tokens s') = decode_contexts batch s))"
proof -
  obtain r s1 where s1: "decode_step batch inputs s = Some (r, s1)" "exec_inv batch s1" "ran_decode s1"
    "\<And>st. r = Inr st \<Longrightarrow> GetStep (ce_tokens s1) = fst st + 1 \<and> \<not> HasPendingInputToken (ce_tokens s1) \<and>
       those (snd st) \<noteq> None \<and> (inputs = None \<longrightarrow> GetCopyOfTokens (ce_tokens s1) = decode_contexts batch s)"
    using decode_step_result [OF assms] by blast
  show ?thesis
  proof (cases r)
    case (Inl e)
    with s1 show ?thesis by (simp add: CompiledDecodeLogits_def)
  next
    case (Inr st)
    then obtain ds where ds: "those (snd st) = Some ds" using s1(4) [of st] by (cases "those (snd st)") auto
    obtain l cs' where l: "constrain_logits batch vocab lowest c (ran_decode s) ds (model (kv s1)) cs = (l, cs')"
      by fastforce
    show ?thesis
    proof (cases l)
      case (Inl e)
      with s1 Inr ds l show ?thesis by (simp add: CompiledDecodeLogits_def)
    next
      case lg: (Inr logits)
      have "exec_inv batch (s1\<lparr>ce_step := fst st + 1\<rparr>)"
        using s1(2) by (simp add: exec_inv_def coherent_def)
      with s1 Inr ds l lg show ?thesis by (simp add: CompiledDecodeLogits_def)
    qed
  qed
qed

lemma compiled_decode_result:
  assumes "exec_inv batch s"
  shows "\<exists>r s' cs'. CompiledDecode batch vocab lowest model sampler c (s, cs) = Some (r, (s', cs')) \<and>
    exec_inv batch s' \<and>
    (\<forall>ids. r = Inr ids \<longrightarrow> ran_decode s' \<and> length ids = batch \<and> (\<forall>t \<in> set ids. 0 \<le> t) \<and>
       GetCopyOfTokens (ce_tokens s') = map2 (\<lambda>ctx t. ctx @ [t]) (decode_contexts batch s) ids \<and>
       ce_step s' = TokenCount (ce_tokens s') - 1 \<and> HasPendingInputToken (ce_tokens s'))"
proof -
  obtain r s1 cs1 where d: "CompiledDecodeLogits batch vocab lowest model c None (s, cs) = Some (r, (s1, cs1))"
    "exec_inv batch s1" "ran_decode s1"
    "\<And>logits. r = Inr logits \<Longrightarrow> ce_step s1 = GetStep (ce_tokens s1) \<and> \<not> HasPendingInputToken (ce_tokens s1) \<and>
       GetCopyOfTokens (ce_tokens s1) = decode_contexts batch s"
    using CompiledDecodeLogits_result [OF assms, of vocab lowest model c None cs] by blast
  show ?thesis
  proof (cases "\<exists>logits ids. r = Inr logits \<and> sampler logits = Inr ids \<and> length ids = batch")
    case False
    then have "\<exists>e. CompiledDecode batch vocab lowest model sampler c (s, cs) = Some (Inl e, (s1, cs1))"
      using d(1) by (auto simp: CompiledDecode_def bind_op_def split: sum.splits)
    with d(2) show ?thesis by auto
  next
    case True
    then obtain logits ids0 where l: "r = Inr logits" "sampler logits = Inr ids0" "length ids0 = batch" by blast
    let ?ids = "map (\<lambda>t. if t < 0 then 0 else t) ids0" and ?pt = "ce_tokens s1"
    note wf = exec_inv_wf [OF d(2)] and d4 = d(4) [OF l(1)]
    have len: "length ?ids = length (toks ?pt)" using d(2,3) l(3) by (simp add: exec_inv_def)
    obtain pt' where pt': "AddPendingInputToken (map (Some \<circ> TokenData) ?ids) ?pt = (Ok, pt')" "wf_tokens pt'"
      "map token_ids (toks pt') = map token_ids (toks ?pt)" "HasPendingInputToken pt'"
      "map pending_input_token (toks pt') = map (Some \<circ> TokenData) ?ids"
      using AddPending_all [OF wf _ len] d4 by blast
    let ?s = "s1\<lparr>ce_tokens := pt'\<rparr>"
    have run: "CompiledDecode batch vocab lowest model sampler c (s, cs) = Some (Inr ?ids, (?s, cs1))"
      using d(1) l pt'(1) by (simp add: CompiledDecode_def bind_op_def)
    have lt: "length (toks pt') = length (toks ?pt)" using pt'(3) by (metis length_map)
    have "coherent ?s" using coherent_cong [of ?s s1] pt'(2,3) d(2) by (simp add: exec_inv_def)
    then have inv: "exec_inv batch ?s" using d(2,3) lt by (simp add: exec_inv_def)
    have ctx: "GetCopyOfTokens pt' = map2 (\<lambda>ctx t. ctx @ [t]) (GetCopyOfTokens ?pt) ?ids"
    proof (rule nth_equalityI)
      fix i assume "i < length (GetCopyOfTokens pt')"
      then have i: "i < length (toks pt')" "i < length (toks ?pt)" "i < length ?ids"
        using lt len by (simp_all add: GetCopyOfTokens_alt)
      have "pending_input_token (toks pt' ! i) = Some (TokenData (?ids ! i))"
        using arg_cong [OF pt'(5), of "\<lambda>l. l ! i"] i by simp
      moreover have "token_ids (toks pt' ! i) = token_ids (toks ?pt ! i)"
        using arg_cong [OF pt'(3), of "\<lambda>l. l ! i"] i by simp
      moreover have "context_of (toks ?pt ! i) = token_ids (toks ?pt ! i)"
        using no_pending_context [OF wf] d4 i(2) by simp
      ultimately show "GetCopyOfTokens pt' ! i = map2 (\<lambda>ctx t. ctx @ [t]) (GetCopyOfTokens ?pt) ?ids ! i"
        using i by (simp add: GetCopyOfTokens_alt context_of_def [of "toks pt' ! i"] TokenData_def)
    qed (use lt len in \<open>simp add: GetCopyOfTokens_alt\<close>)
    have "ce_step ?s = TokenCount pt' - 1"
      using d4 GetStep_map [OF pt'(3)] pt'(4) by (simp add: TokenCount_def)
    then have res: "ran_decode ?s \<and> length ?ids = batch \<and> (\<forall>t \<in> set ?ids. 0 \<le> t) \<and>
       GetCopyOfTokens (ce_tokens ?s) = map2 (\<lambda>ctx t. ctx @ [t]) (decode_contexts batch s) ?ids \<and>
       ce_step ?s = TokenCount (ce_tokens ?s) - 1 \<and> HasPendingInputToken (ce_tokens ?s)"
      using d(3) l(3) ctx d4 pt'(4) by (auto simp: set_map)
    show ?thesis
      by (rule exI [of _ "Inr ?ids"], rule exI [of _ ?s], rule exI [of _ cs1])
        (use run inv res in \<open>simp only: sum.inject simp_thms; blast\<close>)
  qed
qed

text \<open>C8.
  A decode never has undefined behaviour and keeps, whatever it returns, one cache per candidate that
  holds every processed token at its own position. A successful one returns a non-negative token per
  candidate, appends it to that candidate's context, and leaves current_step_ one short of the token
  count.\<close>

theorem compiled_decode_keeps_cache:
  assumes "exec_inv batch s"
  shows "\<exists>r s' cs'. CompiledDecode batch vocab lowest model sampler c (s, cs) = Some (r, (s', cs')) \<and>
    exec_inv batch s' \<and>
    (\<forall>ids. r = Inr ids \<longrightarrow> ran_decode s' \<and> length ids = batch \<and> (\<forall>t \<in> set ids. 0 \<le> t) \<and>
       GetCopyOfTokens (ce_tokens s') = map2 (\<lambda>ctx t. ctx @ [t]) (decode_contexts batch s) ids \<and>
       ce_step s' = TokenCount (ce_tokens s') - 1)"
proof -
  obtain r s' cs' where "CompiledDecode batch vocab lowest model sampler c (s, cs) = Some (r, (s', cs'))"
    "exec_inv batch s'" "\<And>ids. r = Inr ids \<Longrightarrow> ran_decode s' \<and> length ids = batch \<and> (\<forall>t \<in> set ids. 0 \<le> t) \<and>
       GetCopyOfTokens (ce_tokens s') = map2 (\<lambda>ctx t. ctx @ [t]) (decode_contexts batch s) ids \<and>
       ce_step s' = TokenCount (ce_tokens s') - 1"
    using compiled_decode_result [OF assms, of vocab lowest model sampler c cs] by blast
  then show ?thesis by blast
qed

definition start_executor :: "int compiled_executor" where
  "start_executor =
     snd (the (StaticPrefill 2 [(4, ''prefill_4'')] 1 3 [7, 8, 9] fresh_executor))"

lemma start_executor: "start_executor = fresh_executor\<lparr>ce_step := 3,
    ce_tokens := \<lparr>toks = [\<lparr>token_ids = [7, 8], pending_input_token = Some (TokenData 9)\<rparr>]\<rparr>,
    kv := [(\<lambda>p. None)(0 := Some 7, 1 := Some 8)]\<rparr>"
  unfolding start_executor_def fresh_executor_def
  by (subst StaticPrefill_def, simp add: bind_op_def reduce_for_prefill_def GetOptimizedPrefillWorkGroups_def
      full_groups.simps [of _ 4 3] PrefillInternal_single ProcessedTokens_def prefilled_def with_candidate_def
      pending_run_def context_of_def number_from_def upt_rec)

lemma start_executor_inv: "exec_inv 2 start_executor"
  by (simp add: start_executor exec_inv_def coherent_single fresh_executor_def cache_of_def less_Suc_eq numeral_2_eq_2)

lemma start_executor_decodes:
  "map_option fst (CompiledDecode 2 10 0 (\<lambda>kv. [3, 5]) Inr None (start_executor, [] :: int list)) = Some (Inr [3, 5])"
  unfolding start_executor fresh_executor_def by code_simp

lemma compiled_decode_keeps_cache_witness:
  "\<exists>s' cs'. CompiledDecode 2 10 0 (\<lambda>kv. [3, 5]) Inr None (start_executor, [] :: int list) = Some (Inr [3, 5], (s', cs')) \<and>
     exec_inv 2 s' \<and> GetCopyOfTokens (ce_tokens s') = [[7, 8, 9, 3], [7, 8, 9, 5]]"
proof -
  obtain r s' cs' where
    run: "CompiledDecode 2 10 0 (\<lambda>kv. [3, 5]) Inr None (start_executor, [] :: int list) = Some (r, (s', cs'))"
    "exec_inv 2 s'" and res: "\<And>ids. r = Inr ids \<Longrightarrow>
      GetCopyOfTokens (ce_tokens s') = map2 (\<lambda>ctx t. ctx @ [t]) (decode_contexts 2 start_executor) ids"
    using compiled_decode_keeps_cache [OF start_executor_inv, of 10 0 "\<lambda>kv. [3, 5]" Inr None "[] :: int list"]
    by blast
  have r: "r = Inr [3, 5]" using start_executor_decodes run(1) by simp
  moreover have "decode_contexts 2 start_executor = [[7, 8, 9], [7, 8, 9]]"
    by (simp add: decode_contexts_def start_executor fresh_executor_def GetCopyOfTokens_def TokenData_def numeral_2_eq_2)
  ultimately show ?thesis using run res [OF r] by simp
qed

section \<open>Prefills extend the context\<close>

text \<open>
  What a prefill relies on: a run of the model on a group of tokens extends the context by them.
  \<open>at ctx s\<close> says that \<open>s\<close> stands at the end of the context \<open>ctx\<close>, \<open>ready ids s\<close> that the run handles
  this group.
\<close>

locale prefill_run =
  fixes at :: "int list \<Rightarrow> 's \<Rightarrow> bool"
    and ready :: "int list \<Rightarrow> 's \<Rightarrow> bool"
    and internal :: "int list \<Rightarrow> ('s, unit) uop"
  assumes internal_extends: "ids \<noteq> [] \<Longrightarrow> at ctx s \<Longrightarrow> ready ids s \<Longrightarrow>
      \<exists>s'. internal ids s = Some (Ok, s') \<and> at (ctx @ ids) s' \<and> (\<forall>ids'. ready ids' s')"
begin

lemma groups_extend:
  assumes "at ctx s" "\<forall>(sig, k) \<in> set gs. 0 < k" "sum_list (map snd gs) = int (length ids)"
    "gs = [] \<or> ready (take (nat (snd (hd gs))) ids) s"
  shows "\<exists>s'. prefill_groups internal gs ids s = Some (Ok, s') \<and> at (ctx @ ids) s' \<and>
    (gs \<noteq> [] \<longrightarrow> (\<forall>ids'. ready ids' s'))"
  using assms
proof (induction gs arbitrary: ids s ctx)
  case (Cons g gs)
  obtain sig k where g: "g = (sig, k)" by fastforce
  have k: "0 < k" using Cons.prems(2) g by simp
  have rest: "0 \<le> sum_list (map snd gs)" using Cons.prems(2) by (intro sum_list_nonneg) auto
  have le: "k \<le> int (length ids)" and sum: "sum_list (map snd gs) = int (length (drop (nat k) ids))"
    using Cons.prems(3) g rest k by auto
  have ne: "take (nat k) ids \<noteq> []" using k le by auto
  obtain s1 where s1: "internal (take (nat k) ids) s = Some (Ok, s1)" "at (ctx @ take (nat k) ids) s1"
    "\<forall>ids'. ready ids' s1"
    using internal_extends [OF ne Cons.prems(1)] Cons.prems(4) g by auto
  obtain s2 where s2: "prefill_groups internal gs (drop (nat k) ids) s1 = Some (Ok, s2)"
    "at ((ctx @ take (nat k) ids) @ drop (nat k) ids) s2" "gs \<noteq> [] \<longrightarrow> (\<forall>ids'. ready ids' s2)"
    using Cons.IH [OF s1(2) _ sum] Cons.prems(2) s1(3) by auto
  show ?case
  proof (cases gs)
    case Nil
    then show ?thesis using s1 s2(1) g k le by (auto simp: bind_op_def split: if_splits)
  next
    case (Cons h hs)
    then show ?thesis using s1(1) s2 g k le by (simp add: bind_op_def)
  qed
qed simp

end

text \<open>The CPU and GPU executors: \<open>current_step_\<close> has to be the token count.\<close>

definition at_context :: "int list \<Rightarrow> 'f compiled_executor \<Rightarrow> bool" where
  "at_context ctx s \<longleftrightarrow> (\<exists>t. toks (ce_tokens s) = [t] \<and> context_of t = ctx) \<and> coherent s \<and>
     ce_step s = int (length ctx) \<and> \<not> ran_decode s"

definition ready_group :: "int list \<Rightarrow> 'f compiled_executor \<Rightarrow> bool" where
  "ready_group ids s \<longleftrightarrow> HasPendingInputToken (ce_tokens s) \<or> length ids \<noteq> 1"

lemma context_of_prefilled:
  "ids \<noteq> [] \<Longrightarrow> context_of \<lparr>token_ids = xs @ butlast ids, pending_input_token = Some (TokenData (last ids))\<rparr> = xs @ ids"
  by (simp add: context_of_def TokenData_def)

lemma prefilled_at:
  assumes "toks (ce_tokens s) = [t]" "coherent s" "ce_step s = int (length (context_of t))" "ids \<noteq> []"
  shows "coherent (prefilled ids t s)" "ce_step (prefilled ids t s) = int (length (context_of t @ ids))"
    "HasPendingInputToken (ce_tokens (prefilled ids t s))" "ran_decode (prefilled ids t s) = ran_decode s"
  using coherent_prefilled [OF assms(1-3)] assms(3)
  by (simp_all add: HasPendingInputToken_def prefilled_toks) (simp_all add: prefilled_def with_candidate_def)

lemma PrefillInternal_extends:
  assumes "ids \<noteq> []" "at_context ctx s" "ready_group ids s"
  shows "\<exists>s'. PrefillInternal ids s = Some (Ok, s') \<and> at_context (ctx @ ids) s' \<and> (\<forall>ids'. ready_group ids' s')"
proof -
  obtain t where t: "toks (ce_tokens s) = [t]" "context_of t = ctx" using assms(2) by (auto simp: at_context_def)
  have "\<not> (pending_input_token t = None \<and> length ids = 1)"
    using assms(3) t(1) by (auto simp: ready_group_def HasPendingInputToken_def)
  then have "PrefillInternal ids s = Some (Ok, prefilled ids t s)"
    by (simp only: PrefillInternal_single [OF t(1) assms(1)] if_False)
  then show ?thesis
    using prefilled_at [of s t ids] assms(1,2) t prefilled_toks [of ids t s] context_of_prefilled [OF assms(1)]
    by (intro exI [of _ "prefilled ids t s"]) (simp add: at_context_def ready_group_def)
qed

interpretation cpu: prefill_run at_context ready_group PrefillInternal
  by unfold_locales (rule PrefillInternal_extends)

lemma reduce_result:
  assumes "exec_inv batch s"
  shows "\<exists>s1. reduce_for_prefill batch s = Some (Ok, s1) \<and> exec_inv batch s1 \<and> \<not> ran_decode s1 \<and>
    ce_step s1 = ce_step s \<and> toks (ce_tokens s1) = [toks (ce_tokens s) ! 0]"
proof (cases "ran_decode s \<and> batch > 1")
  case True
  let ?t = "toks (ce_tokens s) ! 0"
  have l: "0 < length (toks (ce_tokens s))" "length (kv s) = length (toks (ce_tokens s))"
    and all: "\<forall>i < length (kv s). cache_of (token_ids (toks (ce_tokens s) ! i)) (kv s ! i)"
    using assms True by (auto simp: exec_inv_def coherent_def list_all2_conv_all_nth)
  then have c: "cache_of (token_ids ?t) (kv s ! 0)" by simp
  let ?s = "s\<lparr>ran_decode := False, ce_tokens := (ce_tokens s)\<lparr>toks := [?t]\<rparr>, kv := take 1 (kv s)\<rparr>"
  have "take 1 (kv s) = [kv s ! 0]" using l by (cases "kv s") auto
  then have "exec_inv batch ?s" using assms c by (simp add: exec_inv_def coherent_single)
  moreover have "reduce_for_prefill batch s = Some (Ok, ?s)"
    using True ReduceTokenCandidates_ok [OF l(1)] by (simp add: reduce_for_prefill_def Let_def bind_op_def on_tokens_def)
  ultimately show ?thesis by (intro exI [of _ ?s]) simp
next
  case False
  then have l: "length (toks (ce_tokens s)) = 1" using assms by (auto simp: exec_inv_def)
  let ?s = "s\<lparr>ran_decode := False\<rparr>"
  have "exec_inv batch ?s" using assms l by (simp add: exec_inv_def coherent_def)
  moreover have "reduce_for_prefill batch s = Some (Ok, ?s)"
    using False by (simp add: reduce_for_prefill_def)
  moreover have "toks (ce_tokens s) = [toks (ce_tokens s) ! 0]" using l by (auto simp: length_Suc_conv)
  ultimately show ?thesis by (intro exI [of _ ?s]) simp
qed

lemma head_TokenCount:
  "toks pt' = [toks pt ! 0] \<Longrightarrow> TokenCount pt' = TokenCount pt \<and> HasPendingInputToken pt' = HasPendingInputToken pt"
  by (simp add: TokenCount_def GetStep_def HasPendingInputToken_def)

text \<open>As long as current_step_ is the token count, a prefill of the static executor succeeds on any model
  with runners of positive length, extends the context of the first candidate by exactly its tokens,
  drops the other candidates, and leaves a cache that holds every processed token at its position; the
  one exception is a single token on an executor without a pending token, which the hypothesis excludes.\<close>

theorem static_prefill_extends_context:
  assumes "exec_inv batch s" "ce_step s = TokenCount (ce_tokens s)"
    "rs \<noteq> []" "sorted_wrt (>) (map fst rs)" "\<forall>l \<in> set (map fst rs). 0 < l" "ids \<noteq> []"
    "HasPendingInputToken (ce_tokens s) \<or> (1 < length ids \<and> 1 < fst (hd rs))"
  shows "\<exists>s'. StaticPrefill batch rs 1 (int (length ids)) ids s = Some (Ok, s') \<and> exec_inv batch s' \<and>
    GetCopyOfTokens (ce_tokens s') = [GetCopyOfTokens (ce_tokens s) ! 0 @ ids] \<and>
    ce_step s' = TokenCount (ce_tokens s') \<and> \<not> ran_decode s'"
proof -
  obtain s1 where s1: "reduce_for_prefill batch s = Some (Ok, s1)" "exec_inv batch s1" "\<not> ran_decode s1"
    "ce_step s1 = ce_step s" "toks (ce_tokens s1) = [toks (ce_tokens s) ! 0]"
    using reduce_result [OF assms(1)] by blast
  note hd = head_TokenCount [OF s1(5)]
  obtain gs where gs: "GetOptimizedPrefillWorkGroups rs (int (length ids)) = Some gs"
    "sum_list (map snd gs) = int (length ids)" "\<forall>(sig, k) \<in> set gs. 0 < k" "gs \<noteq> []"
    "snd (hd gs) = min (int (length ids)) (fst (hd rs))"
    using work_groups_result [OF assms(3-5), of "int (length ids)"] assms(6) by fastforce
  let ?ctx = "GetCopyOfTokens (ce_tokens s) ! 0"
  have ctx: "?ctx = context_of (toks (ce_tokens s) ! 0)"
    using wf_tokens_nonempty [OF exec_inv_wf [OF assms(1)]] by (simp add: GetCopyOfTokens_alt)
  have "at_context ?ctx s1"
    using s1 assms(2) TokenCount_eq_length [OF exec_inv_wf [OF assms(1)]] ctx
    by (simp add: at_context_def exec_inv_def)
  moreover have "ready_group (take (nat (snd (hd gs))) ids) s1"
    using assms(7) gs(5) hd by (auto simp: ready_group_def min_def)
  ultimately obtain s' where s': "prefill_groups PrefillInternal gs ids s1 = Some (Ok, s')"
    "at_context (?ctx @ ids) s'"
    using cpu.groups_extend [OF _ gs(3,2)] by blast
  obtain t where t: "toks (ce_tokens s') = [t]" "context_of t = ?ctx @ ids" using s'(2) by (auto simp: at_context_def)
  have run: "StaticPrefill batch rs 1 (int (length ids)) ids s = Some (Ok, s')"
    using s1(1) gs(1) s'(1) assms(6) by (simp add: StaticPrefill_def bind_op_def)
  have "exec_inv batch s'" using s'(2) t(1) assms(1) by (simp add: exec_inv_def at_context_def)
  moreover have "GetCopyOfTokens (ce_tokens s') = [?ctx @ ids]" using t by (simp add: GetCopyOfTokens_alt)
  moreover have "ce_step s' = TokenCount (ce_tokens s')"
    using s'(2) t TokenCount_eq_length [of "ce_tokens s'"] by (simp add: at_context_def GetCopyOfTokens_alt)
  moreover have "\<not> ran_decode s'" using s'(2) by (simp add: at_context_def)
  ultimately show ?thesis using run by blast
qed

lemma static_prefill_extends_context_witness:
  "\<exists>s'. StaticPrefill 2 [(4, ''prefill_4'')] 1 6 [1, 2, 3, 4, 5, 6] start_executor = Some (Ok, s') \<and>
     GetCopyOfTokens (ce_tokens s') = [[7, 8, 9, 1, 2, 3, 4, 5, 6]]"
proof -
  have c: "ce_step start_executor = TokenCount (ce_tokens start_executor)"
    "HasPendingInputToken (ce_tokens start_executor)" "GetCopyOfTokens (ce_tokens start_executor) ! 0 = [7, 8, 9]"
    by (simp_all add: start_executor fresh_executor_def TokenCount_def GetStep_def HasPendingInputToken_def
        GetCopyOfTokens_def TokenData_def)
  show ?thesis
    using static_prefill_extends_context [OF start_executor_inv c(1), of "[(4, ''prefill_4'')]" "[1, 2, 3, 4, 5, 6]"] c
    by auto
qed

section \<open>A prefill after a decode\<close>

lemma number_from_Cons: "number_from p (x # xs) = (p, x) # number_from (p + 1) xs"
proof -
  have "map (\<lambda>i. p + int i) [0..<Suc (length xs)] = p # map (\<lambda>i. p + 1 + int i) [0..<length xs]"
    by (subst map_upt_Suc) (simp add: algebra_simps)
  then show ?thesis by (simp add: number_from_def)
qed

lemma write_number_before: "q < p \<Longrightarrow> write_cache (number_from p xs) c q = c q"
  by (induction xs arbitrary: p c) (simp_all add: number_from_Cons)

text \<open>An executor whose cache holds \<open>v\<close> at a position that is behind it.\<close>

definition behind :: "int \<Rightarrow> int \<Rightarrow> int list \<Rightarrow> 'f compiled_executor \<Rightarrow> bool" where
  "behind p v ctx s \<longleftrightarrow> (\<exists>t c. toks (ce_tokens s) = [t] \<and> context_of t = ctx \<and> pending_input_token t \<noteq> None \<and>
     p < int (length (token_ids t)) \<and> p < ce_step s \<and> kv s = [c] \<and> c p = Some v)"

lemma behind_extends:
  assumes "ids \<noteq> []" "behind p v ctx s"
  shows "\<exists>s'. PrefillInternal ids s = Some (Ok, s') \<and> behind p v (ctx @ ids) s'"
proof -
  obtain t c where t: "toks (ce_tokens s) = [t]" "context_of t = ctx" "pending_input_token t \<noteq> None"
    "p < int (length (token_ids t))" "p < ce_step s" "kv s = [c]" "c p = Some v"
    using assms(2) by (auto simp: behind_def)
  have "PrefillInternal ids s = Some (Ok, prefilled ids t s)"
    using PrefillInternal_single [OF t(1) assms(1)] t(3) by simp
  moreover have "write_cache (pending_run t @ number_from (ce_step s) (butlast ids)) c p = Some v"
    using t(4,5,7) by (simp add: write_number_before pending_run_def split: option.split)
  ultimately show ?thesis
    using t context_of_prefilled [OF assms(1), of ctx]
    by (intro exI [of _ "prefilled ids t s"])
      (auto simp: behind_def prefilled_toks, simp_all add: prefilled_def with_candidate_def context_of_def)
qed

interpretation lag: prefill_run "behind p v" "\<lambda>_ _. True" PrefillInternal
  by unfold_locales (auto intro: behind_extends)

text \<open>After a successful decode, a prefill of at least two tokens succeeds and extends the context, but it
  hands its first token to the model at the position of the token that was sampled last: the cache holds
  the new token there, and the sampled one nowhere.\<close>

theorem prefill_after_decode_overwrites_token:
  assumes "exec_inv batch s" "CompiledDecode batch vocab lowest model sampler c (s, cs) = Some (Inr out, (s1, cs1))"
    "rs \<noteq> []" "sorted_wrt (>) (map fst rs)" "\<forall>l \<in> set (map fst rs). 1 < l" "1 < length ids"
  shows "\<exists>s'. StaticPrefill batch rs 1 (int (length ids)) ids s1 = Some (Ok, s') \<and>
    GetCopyOfTokens (ce_tokens s') = [decode_contexts batch s ! 0 @ [out ! 0] @ ids] \<and>
    (kv s' ! 0) (int (length (decode_contexts batch s ! 0))) = Some (ids ! 0)"
proof -
  have d: "exec_inv batch s1" "length out = batch"
    "GetCopyOfTokens (ce_tokens s1) = map2 (\<lambda>ctx t. ctx @ [t]) (decode_contexts batch s) out"
    "ce_step s1 = TokenCount (ce_tokens s1) - 1" "HasPendingInputToken (ce_tokens s1)"
    using compiled_decode_result [OF assms(1), of vocab lowest model sampler c cs] assms(2) by auto
  note wf = exec_inv_wf [OF d(1)]
  let ?ctx = "decode_contexts batch s ! 0 @ [out ! 0]"
  have ne: "GetCopyOfTokens (ce_tokens s1) \<noteq> []" using GetCopyOfTokens_nonempty [OF wf] .
  then have ctx: "GetCopyOfTokens (ce_tokens s1) ! 0 = ?ctx" unfolding d(3) by (subst nth_map) (auto simp: zip_eq_Nil_iff)
  obtain s2 where s2: "reduce_for_prefill batch s1 = Some (Ok, s2)" "exec_inv batch s2" "\<not> ran_decode s2"
    "ce_step s2 = ce_step s1" "toks (ce_tokens s2) = [toks (ce_tokens s1) ! 0]"
    using reduce_result [OF d(1)] by blast
  let ?t = "toks (ce_tokens s1) ! 0"
  have pend: "pending_input_token ?t \<noteq> None" using d(5) by (simp add: HasPendingInputToken_def)
  have cot: "context_of ?t = ?ctx" using ctx wf_tokens_nonempty [OF wf] by (simp add: GetCopyOfTokens_alt)
  define g where "g = int (length (token_ids ?t))"
  have g: "g = int (length (decode_contexts batch s ! 0))" "ce_step s2 = g"
    using cot pend d(4,5) s2(4) by (auto simp: g_def context_of_def TokenCount_def GetStep_def)
  obtain c0 where kv: "kv s2 = [c0]" using s2(2,5) coherent_single [OF s2(5)] by (auto simp: exec_inv_def)
  obtain gs where gs: "GetOptimizedPrefillWorkGroups rs (int (length ids)) = Some gs"
    "sum_list (map snd gs) = int (length ids)" "\<forall>(sig, k) \<in> set gs. 0 < k" "gs \<noteq> []"
    "snd (hd gs) = min (int (length ids)) (fst (hd rs))"
    using work_groups_result [OF assms(3,4), of "int (length ids)"] assms(5,6) by fastforce
  obtain sig k gs' where gs1: "gs = (sig, k) # gs'" using gs(4) by (cases gs) auto
  have "fst (hd rs) \<in> set (map fst rs)" using assms(3) by (cases rs) auto
  then have k: "1 < k" "k \<le> int (length ids)" using gs(5) gs1 assms(5,6) by auto
  let ?first = "take (nat k) ids"
  have "Suc (Suc 0) \<le> length ?first" using k by simp
  then obtain x y zs where f: "?first = x # y # zs" by (metis Suc_le_length_iff)
  have x: "x = ids ! 0" using f k by (metis nth_Cons_0 nth_take zero_less_nat_eq not_one_less_zero zless_nat_conj less_trans zero_less_one)
  let ?s3 = "prefilled ?first ?t s2"
  have run1: "PrefillInternal ?first s2 = Some (Ok, ?s3)"
    using PrefillInternal_single [OF s2(5), of ?first] pend f by simp
  have "write_cache (pending_run ?t @ number_from g (butlast ?first)) c0 g = Some x"
    using f by (simp add: number_from_Cons write_number_before)
  then have c: "write_cache (pending_run ?t @ number_from g (butlast ?first)) c0 g = Some (ids ! 0)"
    by (simp only: x)
  let ?T = "\<lparr>token_ids = ?ctx @ butlast ?first, pending_input_token = Some (TokenData (last ?first))\<rparr>"
  have "toks (ce_tokens ?s3) = [?T]" by (simp only: prefilled_toks cot)
  moreover have "context_of ?T = ?ctx @ ?first" by (rule context_of_prefilled) (simp add: f)
  moreover have "g < int (length (token_ids ?T))" "g < ce_step ?s3" "pending_input_token ?T \<noteq> None"
    using g f by (simp_all add: prefilled_def)
  moreover have "kv ?s3 = [write_cache (pending_run ?t @ number_from g (butlast ?first)) c0]"
    using kv g(2) by (simp add: prefilled_def)
  ultimately have "behind g (ids ! 0) (?ctx @ ?first) ?s3" using c unfolding behind_def by blast
  moreover have "\<forall>(sig, k) \<in> set gs'. 0 < k" "sum_list (map snd gs') = int (length (drop (nat k) ids))"
    using gs(2,3) gs1 k by auto
  ultimately obtain s' where s': "prefill_groups PrefillInternal gs' (drop (nat k) ids) ?s3 = Some (Ok, s')"
    "behind g (ids ! 0) ((?ctx @ ?first) @ drop (nat k) ids) s'"
    using lag.groups_extend [of g "ids ! 0"] by blast
  have "prefill_groups PrefillInternal gs ids s2 = Some (Ok, s')"
    using run1 s'(1) gs1 k by (simp add: bind_op_def)
  then have "StaticPrefill batch rs 1 (int (length ids)) ids s1 = Some (Ok, s')"
    using s2(1) gs(1) assms(6) by (auto simp: StaticPrefill_def bind_op_def)
  then show ?thesis using s'(2) g(1) by (auto simp: behind_def GetCopyOfTokens_alt)
qed

lemma prefill_after_decode_overwrites_token_witness:
  "\<exists>s1 cs1 s'. CompiledDecode 2 10 0 (\<lambda>kv. [3, 5]) Inr None (start_executor, [] :: int list) = Some (Inr [3, 5], (s1, cs1)) \<and>
     StaticPrefill 2 [(4, ''prefill_4'')] 1 2 [1, 2] s1 = Some (Ok, s') \<and>
     GetCopyOfTokens (ce_tokens s') = [[7, 8, 9, 3, 1, 2]] \<and> (kv s' ! 0) 3 = Some 1"
proof -
  obtain s1 cs1 where
    d: "CompiledDecode 2 10 0 (\<lambda>kv. [3, 5]) Inr None (start_executor, [] :: int list) = Some (Inr [3, 5], (s1, cs1))"
    using start_executor_decodes by auto
  have "decode_contexts 2 start_executor = [[7, 8, 9], [7, 8, 9]]"
    by (simp add: decode_contexts_def start_executor fresh_executor_def GetCopyOfTokens_def TokenData_def numeral_2_eq_2)
  with prefill_after_decode_overwrites_token [OF start_executor_inv d, of "[(4, ''prefill_4'')]" "[1, 2]"] d
  show ?thesis by auto
qed

section \<open>The NPU executor rewinds and extends\<close>

text \<open>The context of an NPU executor is what its current step covers of the tokens it keeps.\<close>

definition npu_at :: "int list \<Rightarrow> 'f compiled_executor \<Rightarrow> bool" where
  "npu_at ctx s \<longleftrightarrow> (\<exists>t. toks (ce_tokens s) = [t] \<and> 0 \<le> ce_step s \<and> ce_step s \<le> int (length (context_of t)) \<and>
     ctx = take (nat (ce_step s)) (context_of t)) \<and> coherent s"

lemma TokenCount_single: "toks pt = [t] \<Longrightarrow> TokenCount pt = int (length (context_of t))"
  using TokenCount_eq_length [of pt] by (simp add: GetCopyOfTokens_alt)

lemma roll_to_step_result:
  assumes "npu_at ctx s"
  shows "\<exists>s1 t. roll_to_step s = Some (Ok, s1) \<and> toks (ce_tokens s1) = [t] \<and> context_of t = ctx \<and> coherent s1 \<and>
    ce_step s1 = int (length ctx) \<and> ce_step s1 = ce_step s"
proof -
  obtain t where t: "toks (ce_tokens s) = [t]" "0 \<le> ce_step s" "ce_step s \<le> int (length (context_of t))"
    "ctx = take (nat (ce_step s)) (context_of t)" "coherent s"
    using assms by (auto simp: npu_at_def)
  note tc = TokenCount_single [OF t(1)]
  show ?thesis
  proof (cases "ce_step s = TokenCount (ce_tokens s)")
    case True
    then show ?thesis using t tc by (intro exI [of _ s] exI [of _ t]) (simp add: roll_to_step_def)
  next
    case False
    then have lt: "ce_step s < TokenCount (ce_tokens s)" using t(3) tc by simp
    let ?n = "nat (ce_step s)"
    let ?t = "t\<lparr>token_ids := resize_ids ?n (token_ids t), pending_input_token := None\<rparr>"
    let ?s = "s\<lparr>ce_tokens := (ce_tokens s)\<lparr>toks := [?t]\<rparr>\<rparr>"
    have le: "?n \<le> length (token_ids t)" using lt t(1,2) by (auto simp: tc context_of_def split: option.splits)
    then have ids: "token_ids ?t = take ?n (token_ids t)" by (simp add: resize_ids_def)
    have roll: "roll_to_step s = Some (Ok, ?s)"
      using False lt t(1,2) by (simp add: roll_to_step_def on_tokens_def RollBackToStep_cases)
    have "context_of ?t = ctx" using le t(4) ids by (simp add: context_of_def)
    moreover have "coherent ?s"
      using t(1,5) coherent_single [OF t(1)] cache_of_take ids by (auto simp: coherent_single)
    ultimately show ?thesis using roll t(2-4) by (intro exI [of _ ?s] exI [of _ ?t]) simp
  qed
qed

lemma npu_at_intro:
  "toks (ce_tokens s) = [t] \<Longrightarrow> context_of t = ctx \<Longrightarrow> coherent s \<Longrightarrow>
    ce_step s = int (length ctx) \<Longrightarrow> npu_at ctx s"
  by (simp add: npu_at_def)

lemma NpuPrefillInternal_extends:
  assumes "ids \<noteq> []" "npu_at ctx s"
  shows "\<exists>s'. NpuPrefillInternal ids s = Some (Ok, s') \<and> npu_at (ctx @ ids) s' \<and>
    ce_step s' = TokenCount (ce_tokens s')"
proof -
  obtain s1 t where s1: "roll_to_step s = Some (Ok, s1)" "toks (ce_tokens s1) = [t]" "context_of t = ctx"
    "coherent s1" "ce_step s1 = int (length ctx)"
    using roll_to_step_result [OF assms(2)] by blast
  have "NpuPrefillInternal ids s = Some (Ok, prefilled ids t s1)"
    using run_single [OF s1(2) assms(1)] assms(1)
    by (simp add: NpuPrefillInternal_def bind_op_def [of roll_to_step] s1(1) Let_def)
  moreover have "npu_at (ctx @ ids) (prefilled ids t s1)"
    by (rule npu_at_intro [OF prefilled_toks]) (use prefilled_at [of s1 t ids] s1 assms(1)
      context_of_prefilled [OF assms(1), of ctx] in simp_all)
  moreover have "ce_step (prefilled ids t s1) = TokenCount (ce_tokens (prefilled ids t s1))"
    using prefilled_at [of s1 t ids] s1 assms(1)
    by (simp add: TokenCount_single [OF prefilled_toks] context_of_prefilled [OF assms(1)])
  ultimately show ?thesis by blast
qed

interpretation npu: prefill_run npu_at "\<lambda>_ _. True" NpuPrefillInternal
  by unfold_locales (use NpuPrefillInternal_extends in blast)

lemma NpuPrefill_result:
  assumes "npu_at ctx s" "rs \<noteq> []" "sorted_wrt (>) (map fst rs)" "\<forall>l \<in> set (map fst rs). 0 < l" "ids \<noteq> []"
  shows "\<exists>s'. NpuPrefill rs 1 (int (length ids)) ids s = Some (Ok, s') \<and> npu_at (ctx @ ids) s'"
proof -
  obtain gs where gs: "GetOptimizedPrefillWorkGroups rs (int (length ids)) = Some gs"
    "sum_list (map snd gs) = int (length ids)" "\<forall>(sig, k) \<in> set gs. 0 < k"
    using work_groups_result [OF assms(2-4), of "int (length ids)"] by fastforce
  obtain s' where "prefill_groups NpuPrefillInternal gs ids s = Some (Ok, s')" "npu_at (ctx @ ids) s'"
    using npu.groups_extend [OF assms(1) gs(3,2)] by blast
  then show ?thesis using gs(1) assms(5) by (simp add: NpuPrefill_def)
qed

lemma NpuDecode_result:
  assumes "npu_at ctx s" "NpuDecode sample False s = Some (Inr out, s')"
  shows "\<exists>tok. out = [tok] \<and> npu_at (ctx @ [tok]) s'"
proof -
  obtain s1 t where s1: "roll_to_step s = Some (Ok, s1)" "toks (ce_tokens s1) = [t]" "context_of t = ctx"
    "coherent s1" "ce_step s1 = int (length ctx)"
    using roll_to_step_result [OF assms(1)] by blast
  note run = assms(2) [unfolded NpuDecode_def, simplified, unfolded bind_op_Some [where m = roll_to_step, OF s1(1)] next_single [OF s1(2)] Let_def]
  obtain d where d: "pending_input_token t = Some d" using run by (cases "pending_input_token t") simp_all
  let ?ids = "token_ids t @ [tok_id d]"
  let ?kv = "map (\<lambda>c. c(int (length (token_ids t)) := Some (tok_id d))) (kv s1)"
  have mark: "MarkPendingInputTokenAsProcessed (ce_tokens s1) =
      Some (Ok, (ce_tokens s1)\<lparr>toks := [\<lparr>token_ids = ?ids, pending_input_token = None\<rparr>]\<rparr>)"
    using s1(2) d MarkPending_Some [of "ce_tokens s1"] by (cases t) (simp add: HasPendingInputToken_def)
  obtain tok where "out = [tok]" and s': "s' = s1\<lparr>kv := ?kv, ce_step := ce_step s1 + 1,
      ce_tokens := (ce_tokens s1)\<lparr>toks := [\<lparr>token_ids = ?ids, pending_input_token = Some (TokenData tok)\<rparr>]\<rparr>\<rparr>"
    using run d mark
    by (auto simp: NpuDecodeInternal_def bind_op_def mark_pending_def on_tokens_def AddPendingInputToken_def
        HasPendingInputToken_def split: if_splits sum.splits)
  moreover have "npu_at (ctx @ [tok]) s'"
  proof -
    obtain c where "kv s1 = [c]" "cache_of (token_ids t) c" using s1(4) coherent_single [OF s1(2)] by blast
    then have "coherent s'" using cache_of_snoc [of "token_ids t" c "tok_id d"] by (simp add: s' coherent_single)
    moreover have "context_of \<lparr>token_ids = ?ids, pending_input_token = Some (TokenData tok)\<rparr> = ctx @ [tok]"
      using s1(3) d by (simp add: context_of_def TokenData_def)
    moreover have "ce_step s' = int (length (ctx @ [tok]))" using s1(5) by (simp add: s')
    moreover have "toks (ce_tokens s') = [\<lparr>token_ids = ?ids, pending_input_token = Some (TokenData tok)\<rparr>]"
      by (simp add: s')
    ultimately show ?thesis using npu_at_intro by blast
  qed
  ultimately show ?thesis by blast
qed

text \<open>The NPU executor prefills from whatever step it stands at: it forgets the tokens past that step,
  extends the rest by the new tokens, and its cache holds every processed token at its position; a
  successful decode extends the same context by the sampled token.\<close>

theorem npu_rewinds_and_extends:
  assumes "npu_at ctx s" "rs \<noteq> []" "sorted_wrt (>) (map fst rs)" "\<forall>l \<in> set (map fst rs). 0 < l" "ids \<noteq> []"
  shows "\<exists>s'. NpuPrefill rs 1 (int (length ids)) ids s = Some (Ok, s') \<and> npu_at (ctx @ ids) s' \<and>
    (\<forall>sample out s''. NpuDecode sample False s' = Some (Inr out, s'') \<longrightarrow>
       (\<exists>tok. out = [tok] \<and> npu_at (ctx @ ids @ [tok]) s''))"
  using NpuPrefill_result [OF assms] NpuDecode_result by (metis append_assoc)

definition rewound_executor :: "int compiled_executor" where
  "rewound_executor = start_executor\<lparr>ce_step := 1\<rparr>"

lemma rewound_executor_at: "npu_at [7] rewound_executor"
proof -
  have "coherent rewound_executor"
    using start_executor_inv by (simp add: rewound_executor_def exec_inv_def coherent_def)
  then show ?thesis
    by (simp add: npu_at_def rewound_executor_def start_executor fresh_executor_def context_of_def TokenData_def)
qed

lemma npu_rewinds_and_extends_witness:
  "\<exists>s'. NpuPrefill [(4, ''prefill_4'')] 1 2 [1, 2] rewound_executor = Some (Ok, s') \<and> npu_at [7, 1, 2] s'"
  using npu_rewinds_and_extends [OF rewound_executor_at, of "[(4, ''prefill_4'')]" "[1, 2]"] by auto

end
