(* ===== verification/DecodeEnds.thy ===== *)
theory DecodeEnds
  imports FakeExecutor CompiledExecutor
begin

text \<open>
  The decode loop of the tasks on the executors of the repository: the methods of the compiled
  executors (\<^verbatim>\<open>runtime/executor/llm_litert_compiled_model_executor.{h,cc}\<close>), of the NPU executor and of the
  fake executor as records of the executor interface, each an instance of \<open>advancing_executor\<close>, and the
  end of \<^verbatim>\<open>Decode\<close> on them.
\<close>

section \<open>The executors as implementations of the interface\<close>

text \<open>
  A method that may have undefined behaviour, as a method of the interface; that it is defined in the
  states that occur is shown where it matters.
\<close>

definition as_op :: "('s, 'a) uop \<Rightarrow> ('s, 'a) op" where
  "as_op m s = (case m s of None \<Rightarrow> (Inl Internal, s) | Some r \<Rightarrow> r)"

text \<open>\<open>model\<close> are the logits of a run, \<open>sample\<close> the sampler of the executor, \<open>mx\<close> its settings.\<close>

definition compiled_llm_executor ::
  "nat \<Rightarrow> prefill_runners \<Rightarrow> int \<Rightarrow> 'l \<Rightarrow> (cache list \<Rightarrow> 'l list) \<Rightarrow> ('l list \<Rightarrow> int list status_or) \<Rightarrow> int \<Rightarrow>
     ('g compiled_executor, 'c, 'l) llm_executor"
where
  "compiled_llm_executor batch rs vocab lowest model sample mx =
     \<lparr>GetMaxNumTokens = (\<lambda>_. Inr mx),
      ExecutorPrefill = (\<lambda>(dims, ids) _. as_op (StaticPrefill batch rs (dims ! 0) (dims ! 1) ids)),
      ExecutorDecode = (\<lambda>c. as_op (CompiledDecode batch vocab lowest model sample c)),
      ExecutorDecodeLogits = (\<lambda>ids s.
        let r = as_op (CompiledDecodeLogits batch vocab lowest model None (Some ids)) (s, [] :: unit list)
        in (try_or_return (fst r) (\<lambda>lg. Inr ([int batch, 1, vocab], lg)), fst (snd r))),
      GetCurrentStep = (\<lambda>s. Inr (TokenCount (ce_tokens s)))\<rparr>"

text \<open>The NPU executor has the \<^verbatim>\<open>DecodeLogits\<close> of the base class, which is not implemented.\<close>

definition npu_llm_executor ::
  "prefill_runners \<Rightarrow> (cache list \<Rightarrow> int status_or) \<Rightarrow> int \<Rightarrow> ('g compiled_executor, 'c, 'l) llm_executor"
where
  "npu_llm_executor rs greedy mx =
     \<lparr>GetMaxNumTokens = (\<lambda>_. Inr mx),
      ExecutorPrefill = (\<lambda>(dims, ids) _. as_op (NpuPrefill rs (dims ! 0) (dims ! 1) ids)),
      ExecutorDecode = (\<lambda>c (s, cs). let r = as_op (NpuDecode greedy (c \<noteq> None)) s in (fst r, (snd r, cs))),
      ExecutorDecodeLogits = (\<lambda>_ s. (Inl Unimplemented, s)),
      GetCurrentStep = (\<lambda>s. Inr (ce_step s))\<rparr>"

section \<open>Every decode advances\<close>

lemma GetStep_Broadcast:
  "toks pt \<noteq> [] \<Longrightarrow> GetStep (snd (BroadcastTokenCandidates n pt)) = GetStep pt"
  by (cases "toks pt") (simp_all add: BroadcastTokenCandidates_def Let_def GetStep_def)

lemma GetStep_AddPending: "GetStep (snd (AddPendingInputToken ds pt)) = GetStep pt"
  by (cases "toks pt"; cases ds) (simp_all add: AddPendingInputToken_def GetStep_def)

lemma GetStep_Invalidate: "toks pt \<noteq> [] \<Longrightarrow> GetStep (InvalidatePendingInputToken pt) = GetStep pt"
  by (cases "toks pt") (simp_all add: InvalidatePendingInputToken_def GetStep_def)

lemma GetStep_PrepareFirstDecode:
  "PrepareFirstDecode batch s = Some (r, s') \<Longrightarrow> toks (ce_tokens s) \<noteq> [] \<Longrightarrow>
     GetStep (ce_tokens s') = GetStep (ce_tokens s)"
  using GetStep_Broadcast [of "ce_tokens s" batch]
  by (auto simp: PrepareFirstDecode_def Let_def bind_op_def on_tokens_def split: if_splits prod.splits sum.splits)

lemma GetStep_GetTokenToDecode:
  "GetTokenToDecode batch inputs s = Some (r, s') \<Longrightarrow> toks (ce_tokens s) \<noteq> [] \<Longrightarrow>
     GetStep (ce_tokens s') = GetStep (ce_tokens s)"
  using GetStep_Invalidate [of "ce_tokens s"]
    GetStep_AddPending [of "map (Some \<circ> TokenData) (the inputs)" "InvalidatePendingInputToken (ce_tokens s)"]
  by (auto simp: GetTokenToDecode_def bind_op_def on_tokens_def split: option.splits if_splits prod.splits sum.splits)

text \<open>A successful run of the model processes one token.\<close>

lemma decode_step_advances:
  assumes "exec_inv batch s" "decode_step batch inputs s = Some (Inr st, s')"
  shows "GetStep (ce_tokens s') = GetStep (ce_tokens s) + 1"
proof -
  obtain s1 where s1: "PrepareFirstDecode batch s = Some (Ok, s1)" "exec_inv batch s1" "ran_decode s1"
    using PrepareFirstDecode_result [OF assms(1)] by blast
  obtain r s2 where s2: "GetTokenToDecode batch inputs s1 = Some (r, s2)" "exec_inv batch s2"
    "\<And>st. r = Inr st \<Longrightarrow> st = GetNextUnprocessedToken (ce_tokens s2)"
    using GetTokenToDecode_result [OF s1(2,3)] by blast
  have r: "r = Inr st"
    using assms(2) s1(1) s2(1)
    by (auto simp: decode_step_def bind_op_def split: option.splits sum.splits prod.splits)
  have "GetStep (ce_tokens s') = fst st + 1"
    using decode_step_result [OF assms(1), of inputs] assms(2) by (cases st) auto
  also have "fst st = GetStep (ce_tokens s2)" using s2(3) [OF r] by (simp add: GetNextUnprocessedToken_def)
  also have "\<dots> = GetStep (ce_tokens s)"
    using GetStep_GetTokenToDecode [OF s2(1)] GetStep_PrepareFirstDecode [OF s1(1)]
      wf_tokens_nonempty [OF exec_inv_wf] assms(1) s1(2) by metis
  finally show ?thesis .
qed

lemma logits_advance_step:
  assumes "exec_inv batch s"
    and "CompiledDecodeLogits batch vocab lowest model c inputs (s, cs) = Some (Inr lg, (s', cs'))"
  shows "exec_inv batch s' \<and> GetStep (ce_tokens s') = GetStep (ce_tokens s) + 1"
proof -
  obtain st s1 where "decode_step batch inputs s = Some (Inr st, s1)" "ce_tokens s' = ce_tokens s1"
    using assms(2) by (auto simp: CompiledDecodeLogits_def Let_def split: option.splits sum.splits prod.splits)
  with decode_step_advances [OF assms(1)] CompiledDecodeLogits_result [OF assms(1), of vocab lowest model c inputs cs]
    assms(2) show ?thesis by auto
qed

lemma decode_advances_step:
  assumes "exec_inv batch s"
    and "CompiledDecode batch vocab lowest model sample c (s, cs) = Some (Inr ids, (s', cs'))"
  shows "exec_inv batch s' \<and> GetStep (ce_tokens s') = GetStep (ce_tokens s) + 1"
proof -
  obtain lg sc where l: "CompiledDecodeLogits batch vocab lowest model c None (s, cs) = Some (Inr lg, sc)"
    and k: "(case sample lg of
         Inl e \<Rightarrow> Some (Inl e, sc)
       | Inr ids \<Rightarrow>
           if length ids \<noteq> batch then Some (Inl Internal, sc)
           else let ids = map (\<lambda>t. if t < 0 then 0 else t) ids in
                (case AddPendingInputToken (map (Some \<circ> TokenData) ids) (ce_tokens (fst sc)) of
                   (Inl e, pt) \<Rightarrow> Some (Inl e, ((fst sc)\<lparr>ce_tokens := pt\<rparr>, snd sc))
                 | (Inr _, pt) \<Rightarrow> Some (Inr ids, ((fst sc)\<lparr>ce_tokens := pt\<rparr>, snd sc)))) = Some (Inr ids, (s', cs'))"
    using assms(2) unfolding CompiledDecode_def bind_op_Inr_iff by blast
  obtain s1 cs1 where sc: "sc = (s1, cs1)" by (rule prod.exhaust)
  have s': "\<exists>ds. ce_tokens s' = snd (AddPendingInputToken ds (ce_tokens s1))"
  proof (cases "sample lg")
    case (Inr ids0)
    obtain r pt where a: "AddPendingInputToken (map (Some \<circ> TokenData) (map (\<lambda>t. if t < 0 then 0 else t) ids0))
        (ce_tokens s1) = (r, pt)" by fastforce
    then have "ce_tokens s' = pt" using k Inr sc by (auto simp: Let_def split: if_splits sum.splits)
    with a show ?thesis by (metis snd_conv)
  qed (use k in simp)
  have "exec_inv batch s'"
    using compiled_decode_result [OF assms(1), of vocab lowest model sample c cs] assms(2) by auto
  with logits_advance_step [OF assms(1) l [unfolded sc]] s' show ?thesis by (auto simp: GetStep_AddPending)
qed

lemma GetStep_le_TokenCount: "GetStep pt \<le> TokenCount pt"
  by (simp add: TokenCount_def)

lemma as_op_Inr: "as_op m s = (Inr v, s') \<Longrightarrow> m s = Some (Inr v, s')"
  by (simp add: as_op_def split: option.splits)

text \<open>
  The compiled executors: the processed tokens grow by one in \<^verbatim>\<open>Decode\<close> and in \<^verbatim>\<open>DecodeLogits\<close>, whether or
  not the token was counted before.
\<close>

interpretation compiled: advancing_executor "compiled_llm_executor batch rs vocab lowest model sample mx"
    "\<lambda>s. GetStep (ce_tokens s)" "exec_inv batch"
proof unfold_locales
  fix e c cs ids e' cs'
  assume "exec_inv batch e"
    "ExecutorDecode (compiled_llm_executor batch rs vocab lowest model sample mx) c (e, cs) = (Inr ids, e', cs')"
  then show "exec_inv batch e' \<and> GetStep (ce_tokens e) < GetStep (ce_tokens e') \<and>
      (\<exists>k \<ge> GetStep (ce_tokens e').
         GetCurrentStep (compiled_llm_executor batch rs vocab lowest model sample mx) e' = Inr k)"
    using decode_advances_step [of batch e vocab lowest model sample c cs ids e' cs']
      GetStep_le_TokenCount [of "ce_tokens e'"]
    by (auto simp: compiled_llm_executor_def dest: as_op_Inr)
next
  fix e ids lg e'
  assume e: "exec_inv batch e" and
    "ExecutorDecodeLogits (compiled_llm_executor batch rs vocab lowest model sample mx) ids e = (Inr lg, e')"
  then obtain lg' cs' where "CompiledDecodeLogits batch vocab lowest model None (Some ids) (e, [] :: unit list) =
      Some (Inr lg', (e', cs'))"
    by (cases "as_op (CompiledDecodeLogits batch vocab lowest model None (Some ids)) (e, [] :: unit list)")
      (auto simp: compiled_llm_executor_def Let_def try_or_return_def dest: as_op_Inr split: sum.splits)
  from logits_advance_step [OF e this]
  show "exec_inv batch e' \<and> GetStep (ce_tokens e) < GetStep (ce_tokens e') \<and>
      (\<exists>k \<ge> GetStep (ce_tokens e').
         GetCurrentStep (compiled_llm_executor batch rs vocab lowest model sample mx) e' = Inr k)"
    using GetStep_le_TokenCount [of "ce_tokens e'"] by (simp add: compiled_llm_executor_def)
qed

text \<open>The NPU executor counts its steps itself.\<close>

lemma roll_to_step_ce_step: "roll_to_step s = Some (r, s') \<Longrightarrow> ce_step s' = ce_step s"
  by (auto simp: roll_to_step_def on_tokens_def split: if_splits prod.splits)

lemma NpuDecode_step:
  assumes "NpuDecode greedy hc s = Some (Inr ids, s')" shows "ce_step s' = ce_step s + 1"
proof -
  have hc: "\<not> hc" using assms by (auto simp: NpuDecode_def split: if_splits)
  obtain u s1 where s1: "roll_to_step s = Some (Inr u, s1)"
    and r: "bind_op (NpuDecodeInternal (fst (GetNextUnprocessedToken (ce_tokens s1)))
        (snd (GetNextUnprocessedToken (ce_tokens s1)) ! 0)) (\<lambda>_. bind_op mark_pending (\<lambda>_ s.
          case greedy (kv s) of
            Inl e \<Rightarrow> Some (Inl e, s)
          | Inr tok \<Rightarrow> bind_op (on_tokens (AddPendingInputToken [Some (TokenData tok)]))
              (\<lambda>_ s. Some (Inr [tok], s\<lparr>ce_step := ce_step s + 1\<rparr>)) s)) s1 = Some (Inr ids, s')"
    using assms hc by (auto simp: NpuDecode_def bind_op_Inr_iff [of roll_to_step] Let_def split: if_splits)
  obtain v s2 where s2: "NpuDecodeInternal (fst (GetNextUnprocessedToken (ce_tokens s1)))
        (snd (GetNextUnprocessedToken (ce_tokens s1)) ! 0) s1 = Some (Inr v, s2)"
    and r2: "bind_op mark_pending (\<lambda>_ s.
          case greedy (kv s) of
            Inl e \<Rightarrow> Some (Inl e, s)
          | Inr tok \<Rightarrow> bind_op (on_tokens (AddPendingInputToken [Some (TokenData tok)]))
              (\<lambda>_ s. Some (Inr [tok], s\<lparr>ce_step := ce_step s + 1\<rparr>)) s) s2 = Some (Inr ids, s')"
    using r unfolding bind_op_Inr_iff [of "NpuDecodeInternal _ _"] by blast
  obtain w s3 where s3: "mark_pending s2 = Some (Inr w, s3)"
    and r3: "(case greedy (kv s3) of
            Inl e \<Rightarrow> Some (Inl e, s3)
          | Inr tok \<Rightarrow> bind_op (on_tokens (AddPendingInputToken [Some (TokenData tok)]))
              (\<lambda>_ s. Some (Inr [tok], s\<lparr>ce_step := ce_step s + 1\<rparr>)) s3) = Some (Inr ids, s')"
    using r2 unfolding bind_op_Inr_iff [of mark_pending] by blast
  have "ce_step s2 = ce_step s1" using s2 by (auto simp: NpuDecodeInternal_def split: option.splits if_splits)
  moreover have "ce_step s3 = ce_step s2" using s3 by (auto simp: mark_pending_def)
  moreover have "ce_step s' = ce_step s3 + 1"
    using r3 by (auto simp: bind_op_Inr_iff on_tokens_def split: sum.splits prod.splits)
  ultimately show ?thesis using roll_to_step_ce_step [OF s1] by simp
qed

interpretation npu: advancing_executor "npu_llm_executor rs greedy mx" ce_step "\<lambda>_. True"
proof unfold_locales
  fix e c cs ids e' cs'
  assume "ExecutorDecode (npu_llm_executor rs greedy mx) c (e, cs) = (Inr ids, e', cs')"
  then have "NpuDecode greedy (c \<noteq> None) e = Some (Inr ids, e')"
    by (cases "as_op (NpuDecode greedy (c \<noteq> None)) e") (auto simp: npu_llm_executor_def Let_def dest: as_op_Inr)
  from NpuDecode_step [OF this]
  show "True \<and> ce_step e < ce_step e' \<and> (\<exists>k \<ge> ce_step e'. GetCurrentStep (npu_llm_executor rs greedy mx) e' = Inr k)"
    by (simp add: npu_llm_executor_def)
qed (simp add: npu_llm_executor_def)

text \<open>So does the fake executor.\<close>

interpretation fake: advancing_executor "fake_llm_executor largest lowest" "\<lambda>s. int (current_step s)" "\<lambda>_. True"
proof unfold_locales
  fix e c cs ids e' cs'
  assume "ExecutorDecode (fake_llm_executor largest lowest) c (e, cs) = (Inr ids, e', cs')"
  then show "True \<and> int (current_step e) < int (current_step e') \<and>
      (\<exists>k \<ge> int (current_step e'). GetCurrentStep (fake_llm_executor largest lowest) e' = Inr k)"
    by (auto simp: fake_llm_executor_def FakeDecode_def Let_def decode_done_def ok_def
        split: sum.splits option.splits if_splits)
qed (auto simp: fake_llm_executor_def FakeDecodeLogits_def decode_done_def split: sum.splits if_splits)

section \<open>The decode loop ends\<close>

text \<open>C19.
  The decode loop ends: on an executor that processes at least one token in every decode call that
  succeeds, and whose current step is never behind the processed tokens, Decode returns (or aborts on an
  undecodable token) within one iteration more than the tokens left to the maximum number of tokens,
  whatever the stop sequences, the benchmark count, the cancellation and the kind of sampling; and the
  responses it returns are done or reached-the-maximum. The compiled executors (CPU, GPU, NPU) and the fake
  executor of the repository are such executors.\<close>

theorem decode_terminates:
  assumes "advancing_executor (executor env) pos good" "good e"
    "nat (TryGetMaxNumTokens (executor env) e - pos e) < fuel"
  shows "Decode env str cancelled fuel e ss d ids b \<noteq> OutOfFuel \<and>
    (\<forall>r l b'. Decode env str cancelled fuel e ss d ids b = Returned (Inr r, l, b') \<longrightarrow>
       GetTaskState r = kDone \<or> GetTaskState r = kMaxNumTokensReached)"
  using advancing_executor.Decode_ends [OF assms(1) refl assms(2,3)] .

text \<open>
  A decode with external sampling on the compiled executor after a prefill of three tokens, the last of
  them pending: the first decode replaces it, and the current step stays at 3.
\<close>

definition compiled_env :: "(int compiled_executor, unit, int, unit) decode_env" where
  "compiled_env = \<lparr>executor = compiled_llm_executor 2 [(4, ''prefill_4'')] 10 0 (\<lambda>kv. [3, 5]) Inr 8,
     tokenizer_of = letter_tokenizer, num_output_candidates = 2,
     sampler = Some (\<lambda>(dims, lg) s. (Inr (lg, [0, 0]), s)), constraint_of = None,
     float_ops_of = int_floats, clock = int\<rparr>"

lemma decode_terminates_witness:
  "Decode compiled_env False (\<lambda>_. False) 7 start_executor () (demo_detector [[9]] 2) (Some [9, 9]) None \<noteq> OutOfFuel"
proof -
  have x: "advancing_executor (executor compiled_env) (\<lambda>s. GetStep (ce_tokens s)) (exec_inv 2)"
    unfolding compiled_env_def decode_env.select_convs by (rule compiled.advancing_executor_axioms)
  have f: "nat (TryGetMaxNumTokens (executor compiled_env) start_executor - GetStep (ce_tokens start_executor)) < 7"
    by (simp add: TryGetMaxNumTokens_def compiled_env_def compiled_llm_executor_def start_executor GetStep_def)
  from decode_terminates [OF x start_executor_inv f] show ?thesis by blast
qed

text \<open>The steps of the test \<^verbatim>\<open>DecodeLogitsTest\<close>: the current step stays, the processed tokens grow.\<close>

lemma first_DecodeLogits_keeps_step:
  "\<exists>r s. ExecutorDecodeLogits (executor compiled_env) [9, 9] start_executor = (Inr r, s) \<and>
     GetCurrentStep (executor compiled_env) start_executor = Inr 3 \<and>
     GetCurrentStep (executor compiled_env) s = Inr 3 \<and>
     GetStep (ce_tokens start_executor) = 2 \<and> GetStep (ce_tokens s) = 3"
  by (simp add: compiled_env_def compiled_llm_executor_def start_executor as_op_def CompiledDecodeLogits_def
      decode_step_def PrepareFirstDecode_def GetTokenToDecode_def bind_op_def on_tokens_def fresh_executor_def
      BroadcastTokenCandidates_def AddPendingInputToken_def InvalidatePendingInputToken_def
      GetNextUnprocessedToken_def GetPendingInputToken_def HasPendingInputToken_def GetStep_def TokenCount_def
      DecodeInternal_def ConsumePendingOrAddProcessedToken_def mark_pending_def
      MarkPendingInputTokenAsProcessed_def pending_id_def constrain_logits_def Let_def numeral_2_eq_2)

end
