(* ===== verification/ExecutorIO.thy ===== *)
theory ExecutorIO
  imports Prelude
begin

text \<open>
  The inputs and parameters of an executor call, \<^verbatim>\<open>runtime/executor/llm_executor_io_types.{h,cc}\<close>.
  Token ids are a tensor of type \<open>'ids\<close>, embeddings tensors of type \<open>'tb\<close> (LiteRT buffers). A getter
  of a \<^verbatim>\<open>const\<close> pointer returns the value pointed to; a getter of a mutable pointer is the operation
  that applies the caller's write \<open>f\<close> through that pointer. The printing operators are functions to
  strings, with the printing of a buffer and of a pointer as arguments.
\<close>

section \<open>Text, vision and audio data\<close>

record 'ids text_data =
  token_ids_of :: 'ids

record 'tb vision_data =
  vision_embeddings :: "'tb option"
  vision_per_layer_embeddings :: "'tb option"

record 'tb audio_data =
  audio_embeddings :: "'tb option"
  audio_per_layer_embeddings :: "'tb option"
  valid_tokens :: int

text \<open>The special tokens that stand for an embedding row in the token ids.\<close>

definition kVisionSpecialToken :: int where "kVisionSpecialToken = -1"
definition kAudioSpecialToken :: int where "kAudioSpecialToken = -2"
definition kAudioEndToken :: int where "kAudioEndToken = -4"

definition ExecutorTextData :: "'ids \<Rightarrow> 'ids text_data" where
  "ExecutorTextData ids = \<lparr>token_ids_of = ids\<rparr>"

definition GetTokenIds :: "'ids text_data \<Rightarrow> 'ids" where
  "GetTokenIds d = token_ids_of d"

definition GetMutableTokenIds :: "('ids \<Rightarrow> 'ids) \<Rightarrow> 'ids text_data \<Rightarrow> 'ids text_data" where
  "GetMutableTokenIds f d = d\<lparr>token_ids_of := f (token_ids_of d)\<rparr>"

definition SetTokenIds :: "'ids \<Rightarrow> 'ids text_data \<Rightarrow> 'ids text_data" where
  "SetTokenIds ids d = d\<lparr>token_ids_of := ids\<rparr>"

text \<open>Reading, and writing through, an optional member that may not be set.\<close>

definition optional_ptr :: "'a option \<Rightarrow> 'a status_or" where
  "optional_ptr m = (case m of Some b \<Rightarrow> Inr b | None \<Rightarrow> Inl NotFound)"

definition optional_write ::
  "('s \<Rightarrow> 'a option) \<Rightarrow> (('a option \<Rightarrow> 'a option) \<Rightarrow> 's \<Rightarrow> 's) \<Rightarrow> ('a \<Rightarrow> 'a) \<Rightarrow> ('s, unit) op"
where
  "optional_write get upd f s =
     (case get s of Some b \<Rightarrow> (Ok, upd (\<lambda>_. Some (f b)) s) | None \<Rightarrow> (Inl NotFound, s))"

definition ExecutorVisionData :: "'tb option \<Rightarrow> 'tb option \<Rightarrow> 'tb vision_data" where
  "ExecutorVisionData emb per_layer =
     \<lparr>vision_embeddings = emb, vision_per_layer_embeddings = per_layer\<rparr>"

definition VisionGetEmbeddingsPtr :: "'tb vision_data \<Rightarrow> 'tb status_or" where
  "VisionGetEmbeddingsPtr d = optional_ptr (vision_embeddings d)"

definition VisionGetMutableEmbeddingsPtr :: "('tb \<Rightarrow> 'tb) \<Rightarrow> ('tb vision_data, unit) op" where
  "VisionGetMutableEmbeddingsPtr = optional_write vision_embeddings vision_embeddings_update"

definition VisionGetPerLayerEmbeddingsPtr :: "'tb vision_data \<Rightarrow> 'tb status_or" where
  "VisionGetPerLayerEmbeddingsPtr d = optional_ptr (vision_per_layer_embeddings d)"

definition VisionGetMutablePerLayerEmbeddingsPtr :: "('tb \<Rightarrow> 'tb) \<Rightarrow> ('tb vision_data, unit) op" where
  "VisionGetMutablePerLayerEmbeddingsPtr =
     optional_write vision_per_layer_embeddings vision_per_layer_embeddings_update"

definition VisionSetEmbeddings :: "'tb option \<Rightarrow> 'tb vision_data \<Rightarrow> 'tb vision_data" where
  "VisionSetEmbeddings m d = d\<lparr>vision_embeddings := m\<rparr>"

definition VisionSetPerLayerEmbeddings :: "'tb option \<Rightarrow> 'tb vision_data \<Rightarrow> 'tb vision_data" where
  "VisionSetPerLayerEmbeddings m d = d\<lparr>vision_per_layer_embeddings := m\<rparr>"

definition ExecutorAudioData :: "'tb option \<Rightarrow> 'tb option \<Rightarrow> int \<Rightarrow> 'tb audio_data" where
  "ExecutorAudioData emb per_layer valid =
     \<lparr>audio_embeddings = emb, audio_per_layer_embeddings = per_layer, valid_tokens = valid\<rparr>"

definition AudioGetEmbeddingsPtr :: "'tb audio_data \<Rightarrow> 'tb status_or" where
  "AudioGetEmbeddingsPtr d = optional_ptr (audio_embeddings d)"

definition AudioGetMutableEmbeddingsPtr :: "('tb \<Rightarrow> 'tb) \<Rightarrow> ('tb audio_data, unit) op" where
  "AudioGetMutableEmbeddingsPtr = optional_write audio_embeddings audio_embeddings_update"

definition AudioGetPerLayerEmbeddingsPtr :: "'tb audio_data \<Rightarrow> 'tb status_or" where
  "AudioGetPerLayerEmbeddingsPtr d = optional_ptr (audio_per_layer_embeddings d)"

definition AudioGetMutablePerLayerEmbeddingsPtr :: "('tb \<Rightarrow> 'tb) \<Rightarrow> ('tb audio_data, unit) op" where
  "AudioGetMutablePerLayerEmbeddingsPtr =
     optional_write audio_per_layer_embeddings audio_per_layer_embeddings_update"

definition AudioSetEmbeddings :: "'tb option \<Rightarrow> 'tb audio_data \<Rightarrow> 'tb audio_data" where
  "AudioSetEmbeddings m d = d\<lparr>audio_embeddings := m\<rparr>"

definition AudioSetPerLayerEmbeddings :: "'tb option \<Rightarrow> 'tb audio_data \<Rightarrow> 'tb audio_data" where
  "AudioSetPerLayerEmbeddings m d = d\<lparr>audio_per_layer_embeddings := m\<rparr>"

definition SetValidTokens :: "int \<Rightarrow> 'tb audio_data \<Rightarrow> 'tb audio_data" where
  "SetValidTokens n d = d\<lparr>valid_tokens := n\<rparr>"

section \<open>The inputs of a prefill\<close>

record ('ids, 'tb) executor_inputs =
  text_data_of :: "'ids text_data option"
  vision_data_of :: "'tb vision_data option"
  audio_data_of :: "'tb audio_data option"

definition ExecutorInputs ::
  "'ids text_data option \<Rightarrow> 'tb vision_data option \<Rightarrow> 'tb audio_data option \<Rightarrow> ('ids, 'tb) executor_inputs"
where
  "ExecutorInputs t v a = \<lparr>text_data_of = t, vision_data_of = v, audio_data_of = a\<rparr>"

definition GetTextDataPtr :: "('ids, 'tb) executor_inputs \<Rightarrow> 'ids text_data status_or" where
  "GetTextDataPtr i = optional_ptr (text_data_of i)"

definition GetMutableTextDataPtr ::
  "('ids text_data \<Rightarrow> 'ids text_data) \<Rightarrow> (('ids, 'tb) executor_inputs, unit) op" where
  "GetMutableTextDataPtr = optional_write text_data_of text_data_of_update"

definition GetVisionDataPtr :: "('ids, 'tb) executor_inputs \<Rightarrow> 'tb vision_data status_or" where
  "GetVisionDataPtr i = optional_ptr (vision_data_of i)"

definition GetMutableVisionDataPtr ::
  "('tb vision_data \<Rightarrow> 'tb vision_data) \<Rightarrow> (('ids, 'tb) executor_inputs, unit) op" where
  "GetMutableVisionDataPtr = optional_write vision_data_of vision_data_of_update"

definition GetAudioDataPtr :: "('ids, 'tb) executor_inputs \<Rightarrow> 'tb audio_data status_or" where
  "GetAudioDataPtr i = optional_ptr (audio_data_of i)"

definition GetMutableAudioDataPtr ::
  "('tb audio_data \<Rightarrow> 'tb audio_data) \<Rightarrow> (('ids, 'tb) executor_inputs, unit) op" where
  "GetMutableAudioDataPtr = optional_write audio_data_of audio_data_of_update"

definition GetTextTokenIdsPtr :: "('ids, 'tb) executor_inputs \<Rightarrow> 'ids status_or" where
  "GetTextTokenIdsPtr i =
     (case text_data_of i of None \<Rightarrow> Inl NotFound | Some d \<Rightarrow> Inr (GetTokenIds d))"

definition GetMutableTextTokenIdsPtr ::
  "('ids \<Rightarrow> 'ids) \<Rightarrow> (('ids, 'tb) executor_inputs, unit) op" where
  "GetMutableTextTokenIdsPtr f i =
     (case text_data_of i of
        None \<Rightarrow> (Inl NotFound, i)
      | Some d \<Rightarrow> (Ok, i\<lparr>text_data_of := Some (GetMutableTokenIds f d)\<rparr>))"

text \<open>The nested getters pass the error of the member's getter on, with a longer message.\<close>

definition GetVisionEmbeddingsPtr :: "('ids, 'tb) executor_inputs \<Rightarrow> 'tb status_or" where
  "GetVisionEmbeddingsPtr i =
     (case vision_data_of i of
        None \<Rightarrow> Inl NotFound
      | Some d \<Rightarrow> (case VisionGetEmbeddingsPtr d of Inl e \<Rightarrow> Inl e | Inr b \<Rightarrow> Inr b))"

definition GetMutableVisionEmbeddingsPtr ::
  "('tb \<Rightarrow> 'tb) \<Rightarrow> (('ids, 'tb) executor_inputs, unit) op" where
  "GetMutableVisionEmbeddingsPtr f i =
     (case vision_data_of i of
        None \<Rightarrow> (Inl NotFound, i)
      | Some d \<Rightarrow> (case VisionGetMutableEmbeddingsPtr f d of
                    (r, d') \<Rightarrow> (r, i\<lparr>vision_data_of := Some d'\<rparr>)))"

definition GetVisionPerLayerEmbeddingsPtr :: "('ids, 'tb) executor_inputs \<Rightarrow> 'tb status_or" where
  "GetVisionPerLayerEmbeddingsPtr i =
     (case vision_data_of i of
        None \<Rightarrow> Inl NotFound
      | Some d \<Rightarrow> (case VisionGetPerLayerEmbeddingsPtr d of Inl e \<Rightarrow> Inl e | Inr b \<Rightarrow> Inr b))"

definition GetMutableVisionPerLayerEmbeddingsPtr ::
  "('tb \<Rightarrow> 'tb) \<Rightarrow> (('ids, 'tb) executor_inputs, unit) op" where
  "GetMutableVisionPerLayerEmbeddingsPtr f i =
     (case vision_data_of i of
        None \<Rightarrow> (Inl NotFound, i)
      | Some d \<Rightarrow> (case VisionGetMutablePerLayerEmbeddingsPtr f d of
                    (r, d') \<Rightarrow> (r, i\<lparr>vision_data_of := Some d'\<rparr>)))"

definition GetAudioEmbeddingsPtr :: "('ids, 'tb) executor_inputs \<Rightarrow> 'tb status_or" where
  "GetAudioEmbeddingsPtr i =
     (case audio_data_of i of
        None \<Rightarrow> Inl NotFound
      | Some d \<Rightarrow> (case AudioGetEmbeddingsPtr d of Inl e \<Rightarrow> Inl e | Inr b \<Rightarrow> Inr b))"

definition GetMutableAudioEmbeddingsPtr ::
  "('tb \<Rightarrow> 'tb) \<Rightarrow> (('ids, 'tb) executor_inputs, unit) op" where
  "GetMutableAudioEmbeddingsPtr f i =
     (case audio_data_of i of
        None \<Rightarrow> (Inl NotFound, i)
      | Some d \<Rightarrow> (case AudioGetMutableEmbeddingsPtr f d of
                    (r, d') \<Rightarrow> (r, i\<lparr>audio_data_of := Some d'\<rparr>)))"

definition GetAudioPerLayerEmbeddingsPtr :: "('ids, 'tb) executor_inputs \<Rightarrow> 'tb status_or" where
  "GetAudioPerLayerEmbeddingsPtr i =
     (case audio_data_of i of
        None \<Rightarrow> Inl NotFound
      | Some d \<Rightarrow> (case AudioGetPerLayerEmbeddingsPtr d of Inl e \<Rightarrow> Inl e | Inr b \<Rightarrow> Inr b))"

definition GetMutableAudioPerLayerEmbeddingsPtr ::
  "('tb \<Rightarrow> 'tb) \<Rightarrow> (('ids, 'tb) executor_inputs, unit) op" where
  "GetMutableAudioPerLayerEmbeddingsPtr f i =
     (case audio_data_of i of
        None \<Rightarrow> (Inl NotFound, i)
      | Some d \<Rightarrow> (case AudioGetMutablePerLayerEmbeddingsPtr f d of
                    (r, d') \<Rightarrow> (r, i\<lparr>audio_data_of := Some d'\<rparr>)))"

definition SetTextData :: "'ids text_data \<Rightarrow> ('ids, 'tb) executor_inputs \<Rightarrow> ('ids, 'tb) executor_inputs" where
  "SetTextData d i = i\<lparr>text_data_of := Some d\<rparr>"

definition SetVisionData ::
  "'tb vision_data option \<Rightarrow> ('ids, 'tb) executor_inputs \<Rightarrow> ('ids, 'tb) executor_inputs" where
  "SetVisionData d i = i\<lparr>vision_data_of := d\<rparr>"

definition SetAudioData ::
  "'tb audio_data option \<Rightarrow> ('ids, 'tb) executor_inputs \<Rightarrow> ('ids, 'tb) executor_inputs" where
  "SetAudioData d i = i\<lparr>audio_data_of := d\<rparr>"

section \<open>Parameters\<close>

text \<open>The cancel flag is the address of an atomic of the caller.\<close>

record 'ptr prefill_params =
  params_current_step :: int
  wait_for_completion :: bool
  cancel_flag :: "'ptr option"
  max_prefill_sequence_length :: "int option"

definition ExecutorPrefillParams ::
  "int \<Rightarrow> bool \<Rightarrow> 'ptr option \<Rightarrow> int option \<Rightarrow> 'ptr prefill_params" where
  "ExecutorPrefillParams step wait cancel max_len =
     \<lparr>params_current_step = step, wait_for_completion = wait, cancel_flag = cancel,
      max_prefill_sequence_length = max_len\<rparr>"

definition default_prefill_params :: "'ptr prefill_params" where
  "default_prefill_params = ExecutorPrefillParams (-1) False None None"

definition ParamsGetCurrentStep :: "'ptr prefill_params \<Rightarrow> int" where
  "ParamsGetCurrentStep p = params_current_step p"

definition ParamsSetCurrentStep :: "int \<Rightarrow> 'ptr prefill_params \<Rightarrow> 'ptr prefill_params" where
  "ParamsSetCurrentStep n p = p\<lparr>params_current_step := n\<rparr>"

definition GetWaitForCompletion :: "'ptr prefill_params \<Rightarrow> bool" where
  "GetWaitForCompletion p = wait_for_completion p"

definition SetWaitForCompletion :: "bool \<Rightarrow> 'ptr prefill_params \<Rightarrow> 'ptr prefill_params" where
  "SetWaitForCompletion b p = p\<lparr>wait_for_completion := b\<rparr>"

definition GetCancelFlag :: "'ptr prefill_params \<Rightarrow> 'ptr option" where
  "GetCancelFlag p = cancel_flag p"

definition SetCancelFlag :: "'ptr option \<Rightarrow> 'ptr prefill_params \<Rightarrow> 'ptr prefill_params" where
  "SetCancelFlag c p = p\<lparr>cancel_flag := c\<rparr>"

definition GetMaxPrefillSequenceLength :: "'ptr prefill_params \<Rightarrow> int status_or" where
  "GetMaxPrefillSequenceLength p = optional_ptr (max_prefill_sequence_length p)"

definition SetMaxPrefillSequenceLength :: "int option \<Rightarrow> 'ptr prefill_params \<Rightarrow> 'ptr prefill_params" where
  "SetMaxPrefillSequenceLength n p = p\<lparr>max_prefill_sequence_length := n\<rparr>"

record 'ptr decode_params =
  constraint_decoder :: "'ptr option"

definition SetConstraintDecoder :: "'ptr option \<Rightarrow> 'ptr decode_params \<Rightarrow> 'ptr decode_params" where
  "SetConstraintDecoder c p = p\<lparr>constraint_decoder := c\<rparr>"

definition HasConstraintDecoder :: "'ptr decode_params \<Rightarrow> bool" where
  "HasConstraintDecoder p = (constraint_decoder p \<noteq> None)"

definition GetConstraintDecoder :: "'ptr decode_params \<Rightarrow> 'ptr option" where
  "GetConstraintDecoder p = constraint_decoder p"

section \<open>Printing\<close>

abbreviation nl :: string where "nl \<equiv> [CHR 0x0A]"
abbreviation indent :: string where "indent \<equiv> ''  ''"

definition print_text_data :: "('ids \<Rightarrow> string) \<Rightarrow> 'ids text_data \<Rightarrow> string" where
  "print_text_data show_ids d =
     ''ExecutorTextData: {'' @ nl @ indent @ ''TokenIds: '' @ show_ids (GetTokenIds d) @ nl @ ''}''"

text \<open>\<open>message\<close> is the message of the \<^verbatim>\<open>NotFound\<close> status of the getter.\<close>

definition print_optional_field ::
  "('tb \<Rightarrow> string) \<Rightarrow> string \<Rightarrow> 'tb status_or \<Rightarrow> string \<Rightarrow> string \<Rightarrow> string" where
  "print_optional_field show_tb field r message ind =
     ind @ field @ '': '' @
     (case r of Inr b \<Rightarrow> show_tb b | Inl _ \<Rightarrow> ''nullopt ('' @ message @ '')'')"

definition print_vision_data :: "('tb \<Rightarrow> string) \<Rightarrow> 'tb vision_data \<Rightarrow> string" where
  "print_vision_data show_tb d =
     ''ExecutorVisionData: {'' @ nl @
     print_optional_field show_tb ''Embeddings'' (VisionGetEmbeddingsPtr d)
       ''ExecutorVisionData::embeddings_ is not set.'' indent @ nl @
     print_optional_field show_tb ''PerLayerEmbeddings'' (VisionGetPerLayerEmbeddingsPtr d)
       ''ExecutorVisionData::per_layer_embeddings_ is not set.'' indent @ nl @ ''}''"

definition print_audio_data :: "('tb \<Rightarrow> string) \<Rightarrow> 'tb audio_data \<Rightarrow> string" where
  "print_audio_data show_tb d =
     ''ExecutorAudioData: {'' @ nl @
     print_optional_field show_tb ''Embeddings'' (AudioGetEmbeddingsPtr d)
       ''ExecutorAudioData::embeddings_ is not set.'' indent @ nl @
     print_optional_field show_tb ''PerLayerEmbeddings'' (AudioGetPerLayerEmbeddingsPtr d)
       ''ExecutorAudioData::per_layer_embeddings_ is not set.'' indent @ nl @
     indent @ ''ValidTokens: '' @ decimal_int (valid_tokens d) @ nl @ ''}''"

definition print_member :: "('d \<Rightarrow> string) \<Rightarrow> 'd status_or \<Rightarrow> string \<Rightarrow> string" where
  "print_member show_d r message = (case r of Inr d \<Rightarrow> show_d d | Inl _ \<Rightarrow> ''nullopt ('' @ message @ '')'')"

definition print_inputs ::
  "('ids \<Rightarrow> string) \<Rightarrow> ('tb \<Rightarrow> string) \<Rightarrow> ('ids, 'tb) executor_inputs \<Rightarrow> string" where
  "print_inputs show_ids show_tb i =
     ''ExecutorInputs: {'' @ nl @ indent @ ''TextData: '' @
     print_member (print_text_data show_ids) (GetTextDataPtr i) ''ExecutorInputs::text_data_ is not set.'' @ nl @
     indent @ ''VisionData: '' @
     print_member (print_vision_data show_tb) (GetVisionDataPtr i) ''ExecutorInputs::vision_data_ is not set.'' @ nl @
     indent @ ''AudioData: '' @
     print_member (print_audio_data show_tb) (GetAudioDataPtr i) ''ExecutorInputs::audio_data_ is not set.'' @ nl @ ''}''"

text \<open>\<open>load\<close> reads the atomic.\<close>

definition print_prefill_params :: "('ptr \<Rightarrow> bool) \<Rightarrow> 'ptr prefill_params \<Rightarrow> string" where
  "print_prefill_params load p =
     ''ExecutorPrefillParams: {'' @ nl @ indent @ ''CurrentStep: '' @ decimal_int (ParamsGetCurrentStep p) @ nl @
     indent @ ''WaitForCompletion: '' @ (if GetWaitForCompletion p then ''true'' else ''false'') @ nl @
     indent @ ''CancelFlag: '' @
     (case GetCancelFlag p of
        Some c \<Rightarrow> (if load c then ''true (atomic)'' else ''false (atomic)'')
      | None \<Rightarrow> ''nullptr'') @ nl @
     indent @ ''MaxPrefillSequenceLength: '' @
     (case GetMaxPrefillSequenceLength p of Inr n \<Rightarrow> decimal_int n | Inl _ \<Rightarrow> ''nullopt'') @ nl @ ''}''"

definition print_decode_params :: "('ptr \<Rightarrow> string) \<Rightarrow> 'ptr decode_params \<Rightarrow> string" where
  "print_decode_params show_ptr p =
     ''ExecutorDecodeParams: {'' @ nl @ indent @ ''ConstraintDecoder: '' @
     (case GetConstraintDecoder p of Some c \<Rightarrow> show_ptr c | None \<Rightarrow> ''not set'') @ nl @ ''}''"

section \<open>Reading and writing through the pointers\<close>

named_theorems io_defs

lemmas io_ptr_defs [io_defs] = optional_ptr_def optional_write_def
  GetTextTokenIdsPtr_def GetMutableTextTokenIdsPtr_def GetTokenIds_def GetMutableTokenIds_def
  GetVisionEmbeddingsPtr_def GetMutableVisionEmbeddingsPtr_def
  GetVisionPerLayerEmbeddingsPtr_def GetMutableVisionPerLayerEmbeddingsPtr_def
  GetAudioEmbeddingsPtr_def GetMutableAudioEmbeddingsPtr_def
  GetAudioPerLayerEmbeddingsPtr_def GetMutableAudioPerLayerEmbeddingsPtr_def
  VisionGetEmbeddingsPtr_def VisionGetMutableEmbeddingsPtr_def
  VisionGetPerLayerEmbeddingsPtr_def VisionGetMutablePerLayerEmbeddingsPtr_def
  AudioGetEmbeddingsPtr_def AudioGetMutableEmbeddingsPtr_def
  AudioGetPerLayerEmbeddingsPtr_def AudioGetMutablePerLayerEmbeddingsPtr_def

end
