(* ===== verification/DynamicExecutor.thy ===== *)
theory DynamicExecutor
  imports CompiledExecutor
begin

text \<open>
  The growing KV cache of the dynamic executor, \<^verbatim>\<open>LlmLiteRtCompiledModelExecutorDynamic\<close> in
  \<^verbatim>\<open>runtime/executor/llm_litert_compiled_model_executor.cc\<close>. The state is the executor and the length of
  each of its cache buffers, those of the keys before those of the values in the order of
  \<^verbatim>\<open>key_cache_input_names_\<close> and \<^verbatim>\<open>value_cache_input_names_\<close>, 0 for a buffer that is not in
  \<^verbatim>\<open>kv_cache_buffers_1_\<close>. The buffers are created and resized one by one, and each of these calls of
  LiteRT may fail, which ends the call and leaves the buffers before it changed. The argument \<open>fail\<close> of
  a call says at which buffer this happens (\<open>None\<close>: nowhere; an index past the last buffer: in the
  creation of the other input buffers, after the resizing). A buffer that was never created has no
  type, so resizing it is an error. A write at a position outside the buffers would be out of bounds.
\<close>

section \<open>Buffers\<close>

fun resize_each :: "nat option \<Rightarrow> (int \<Rightarrow> int option) \<Rightarrow> int list \<Rightarrow> bool \<times> int list" where
  "resize_each fail f [] = (True, [])"
| "resize_each fail f (l # ls) =
     (if fail = Some 0 then (False, l # ls)
      else case f l of
             None \<Rightarrow> (False, l # ls)
           | Some l' \<Rightarrow> (case resize_each (map_option (\<lambda>i. i - 1) fail) f ls of
                          (res, ls') \<Rightarrow> (res, l' # ls')))"

text \<open>\<^verbatim>\<open>ResizeKVCacheTensorBuffer\<close>, on the length of the buffer.\<close>

definition ResizeKVCacheTensorBuffer :: "int \<Rightarrow> int \<Rightarrow> int option" where
  "ResizeKVCacheTensorBuffer entries_to_add l = (if l = 0 then None else Some (l + entries_to_add))"

definition no_buffers :: "int list \<Rightarrow> bool" where
  "no_buffers lens = list_all (\<lambda>l. l = 0) lens"

text \<open>Only the length of the first key buffer is read.\<close>

definition grow_for_prefill :: "nat option \<Rightarrow> int \<Rightarrow> int \<Rightarrow> int list \<Rightarrow> bool \<times> int list" where
  "grow_for_prefill fail step prefill_length lens =
     (if no_buffers lens then resize_each fail (\<lambda>_. Some prefill_length) lens
      else if prefill_length > lens ! 0 - step
      then resize_each fail (ResizeKVCacheTensorBuffer prefill_length) lens
      else (True, lens))"

definition grow_for_decode :: "nat option \<Rightarrow> int \<Rightarrow> int \<Rightarrow> int list \<Rightarrow> bool \<times> int list" where
  "grow_for_decode fail step increment lens =
     (if lens ! 0 \<le> step then resize_each fail (ResizeKVCacheTensorBuffer increment) lens
      else (True, lens))"

section \<open>Prefill\<close>

definition on_base ::
  "('f compiled_executor, 'a) uop \<Rightarrow> ('f compiled_executor \<times> int list, 'a) uop" where
  "on_base m sk = map_option (\<lambda>(r, s). (r, (s, snd sk))) (m (fst sk))"

text \<open>All ids go to one run of the model.\<close>

definition DynamicPrefill ::
  "nat option \<Rightarrow> int \<Rightarrow> int \<Rightarrow> int list \<Rightarrow> ('f compiled_executor \<times> int list, unit) uop"
where
  "DynamicPrefill fail b n ids sk =
     (case sk of (s, lens) \<Rightarrow>
       if b \<noteq> 1 then Some (Inl Internal, sk)
       else if n \<le> 0 then Some (Inl Internal, sk)
       else let start = fst (GetNextUnprocessedToken (ce_tokens s));
                pend = snd (GetNextUnprocessedToken (ce_tokens s));
                prefill_length = (if pend \<noteq> [] then int (length ids) else int (length ids) - 1) in
            if pend = [] \<and> prefill_length = 0
            then on_base (on_tokens (AddPendingInputToken [Some (TokenData (ids ! 0))])) sk
            else (case grow_for_prefill fail start prefill_length lens of
                    (res, lens') \<Rightarrow>
                      if \<not> res \<or> fail \<noteq> None then Some (Inl Internal, (s, lens'))
                      else on_base (PrefillInternal ids) (s, lens')))"

section \<open>Decode\<close>

definition DynamicDecodeInternal ::
  "nat option \<Rightarrow> int \<Rightarrow> int \<Rightarrow> 'f token_data option list \<Rightarrow>
     ('f compiled_executor \<times> int list, unit) uop"
where
  "DynamicDecodeInternal fail increment step token sk =
     (case sk of (s, lens) \<Rightarrow>
       if no_buffers lens then Some (Inl Internal, sk)
       else (case grow_for_decode fail step increment lens of
               (res, lens') \<Rightarrow>
                 if \<not> res \<or> fail \<noteq> None then Some (Inl Internal, (s, lens'))
                 else on_base (DecodeInternal step token) (s, lens')))"

text \<open>The decode of the base class with the cache growing in its virtual \<^verbatim>\<open>DecodeInternal\<close>.\<close>

definition DynamicDecode ::
  "nat option \<Rightarrow> int \<Rightarrow> int list option \<Rightarrow> ('f compiled_executor \<times> int list, unit) uop"
where
  "DynamicDecode fail increment inputs =
     bind_op (on_base (PrepareFirstDecode 1)) (\<lambda>_.
     bind_op (on_base (GetTokenToDecode 1 inputs)) (\<lambda>st.
     bind_op (DynamicDecodeInternal fail increment (fst st) (snd st)) (\<lambda>_.
     bind_op (on_base (ConsumePendingOrAddProcessedToken (snd st)))
       (\<lambda>_ sk. Some (Ok, ((fst sk)\<lparr>ce_step := fst st + 1\<rparr>, snd sk))))))"

section \<open>Every write is inside the cache\<close>

text \<open>
  The calls of a client; \<open>sample\<close> stores the token that was sampled after a decode. An error leaves the
  executor usable, so the result of a call is not restricted. The failures of creating and resizing
  buffers that a run may have are those of \<open>fails\<close>.
\<close>

inductive dynamic_step ::
  "int \<Rightarrow> nat option set \<Rightarrow> 'f compiled_executor \<times> int list \<Rightarrow> 'f compiled_executor \<times> int list \<Rightarrow> bool"
for increment fails
where
  prefill: "fail \<in> fails \<Longrightarrow> DynamicPrefill fail b n ids sk = Some (r, sk') \<Longrightarrow>
    int (length ids) = b * n \<Longrightarrow> dynamic_step increment fails sk sk'"
| decode: "fail \<in> fails \<Longrightarrow> DynamicDecode fail increment inputs sk = Some (r, sk') \<Longrightarrow>
    dynamic_step increment fails sk sk'"
| sample: "on_base (on_tokens (AddPendingInputToken [Some (TokenData t)])) sk = Some (r, sk') \<Longrightarrow>
    dynamic_step increment fails sk sk'"
| reset: "on_base CompiledReset sk = Some (r, sk') \<Longrightarrow> dynamic_step increment fails sk sk'"

text \<open>The executor fits into a cache of length \<open>k\<close>; no buffer is longer than the first one.\<close>

definition cache_fits :: "'f compiled_executor \<Rightarrow> int \<Rightarrow> bool" where
  "cache_fits s k \<longleftrightarrow> (\<exists>t c. toks (ce_tokens s) = [t] \<and> kv s = [c] \<and>
     0 \<le> ce_step s \<and> ce_step s \<le> int (length (context_of t)) \<and>
     int (length (token_ids t)) \<le> k \<and> (\<forall>p v. c p = Some v \<longrightarrow> 0 \<le> p \<and> p < k))"

definition lens_ok :: "bool \<Rightarrow> int list \<Rightarrow> bool" where
  "lens_ok eq lens \<longleftrightarrow> lens \<noteq> [] \<and>
     (\<forall>l \<in> set lens. 0 \<le> l \<and> l \<le> lens ! 0 \<and> (eq \<longrightarrow> l = lens ! 0))"

definition fits :: "bool \<Rightarrow> 'f compiled_executor \<times> int list \<Rightarrow> bool" where
  "fits eq sk \<longleftrightarrow> lens_ok eq (snd sk) \<and> cache_fits (fst sk) (snd sk ! 0)"

lemma cache_fits_mono: "cache_fits s k \<Longrightarrow> k \<le> k' \<Longrightarrow> cache_fits s k'"
  by (fastforce simp: cache_fits_def)

lemma resize_each_length: "length (snd (resize_each fail f lens)) = length lens"
  by (induction fail f lens rule: resize_each.induct) (auto split: option.splits prod.splits)

text \<open>Whatever fails, the first length is the old or the new one and no other one gets ahead of it.\<close>

lemma resize_each_bounds:
  assumes "resize_each fail f lens = (res, lens')" "l' \<in> set lens'"
  shows "l' \<in> set lens \<or> (\<exists>l \<in> set lens. f l = Some l')"
  using assms
proof (induction lens arbitrary: fail res lens')
  case (Cons l ls)
  show ?case
  proof (cases "fail = Some 0 \<or> f l = None")
    case True
    then show ?thesis using Cons(2,3) by (auto split: if_splits)
  next
    case False
    then obtain x ls' where "f l = Some x" "lens' = x # ls'"
      "resize_each (map_option (\<lambda>i. i - 1) fail) f ls = (res, ls')"
      using Cons(2) by (auto split: option.splits prod.splits)
    then show ?thesis using Cons(1) [of _ res ls'] Cons(3) by auto
  qed
qed simp

lemma resize_each_first:
  assumes "resize_each fail f (l # ls) = (res, lens')"
  shows "lens' = l # ls \<and> \<not> res \<or> (\<exists>l' ls'. f l = Some l' \<and> lens' = l' # ls')"
  using assms by (auto split: if_splits option.splits prod.splits)

lemma resize_each_all:
  assumes "\<And>l. l \<in> set lens \<Longrightarrow> f l = Some (g l)"
  shows "resize_each None f lens = (True, map g lens)"
  using assms by (induction lens) auto

lemma write_cache_Some:
  "write_cache ps c p = Some v \<Longrightarrow> p \<in> fst ` set ps \<or> c p = Some v"
  by (induction ps arbitrary: c) (fastforce split: if_splits)+

lemma number_from_positions: "p \<in> fst ` set (number_from q xs) \<Longrightarrow> q \<le> p \<and> p < q + int (length xs)"
  by (induction xs rule: rev_induct) (simp, fastforce)

lemma length_context: "length (context_of t) = length (token_ids t) + (if pending_input_token t = None then 0 else 1)"
  by (simp add: context_of_def split: option.split)

text \<open>Adding \<open>d\<close> entries to each buffer, some of which may fail.\<close>

lemma resize_lens:
  assumes "lens_ok eq lens" "resize_each fail f lens = (res, lens')" "0 < d"
    and add: "\<And>l l'. l \<in> set lens \<Longrightarrow> f l = Some l' \<Longrightarrow> l' = l + d"
    and eq: "eq \<Longrightarrow> fail = None \<and> None \<notin> f ` set lens"
  shows "lens_ok eq lens' \<and> lens ! 0 \<le> lens' ! 0 \<and> (res \<longrightarrow> lens' ! 0 = lens ! 0 + d)"
proof (cases eq)
  case True
  have "resize_each None f lens = (True, map (\<lambda>l. l + d) lens)"
  proof (rule resize_each_all)
    fix l assume l: "l \<in> set lens"
    with eq [OF True] obtain l' where "f l = Some l'" by (cases "f l") force+
    with add [OF l] show "f l = Some (l + d)" by simp
  qed
  with assms eq show ?thesis by (fastforce simp: lens_ok_def True)
next
  case False
  obtain l ls where lens: "lens = l # ls" using assms(1) by (cases lens) (auto simp: lens_ok_def)
  have all: "0 \<le> k \<and> k \<le> l" if "k \<in> set lens" for k
    using assms(1) that lens by (auto simp: lens_ok_def)
  consider "lens' = lens" "\<not> res" | l' ls' where "f l = Some l'" "lens' = l' # ls'"
    using resize_each_first [OF assms(2) [unfolded lens]] lens by blast
  then show ?thesis
  proof cases
    case 1
    then show ?thesis using assms(1) by simp
  next
    case 2
    then have l': "l' = l + d" using add lens by simp
    have "0 \<le> k \<and> k \<le> l + d" if "k \<in> set lens'" for k
      using resize_each_bounds [OF assms(2) that] all add assms(3) by fastforce
    then show ?thesis using 2 l' lens False assms(3) by (simp add: lens_ok_def)
  qed
qed

lemma lens_ok_cases:
  assumes "lens_ok eq lens"
  shows "no_buffers lens \<longleftrightarrow> lens ! 0 = 0"
proof
  assume "no_buffers lens"
  then show "lens ! 0 = 0" using assms by (cases lens) (auto simp: no_buffers_def lens_ok_def)
next
  assume "lens ! 0 = 0"
  then show "no_buffers lens" using assms by (fastforce simp: no_buffers_def lens_ok_def list_all_iff)
qed

lemma lens_ok_first: "lens_ok eq lens \<Longrightarrow> 0 \<le> lens ! 0"
  by (cases lens) (auto simp: lens_ok_def)

lemma resize_defined:
  assumes "lens_ok True lens" "\<not> no_buffers lens"
  shows "None \<notin> ResizeKVCacheTensorBuffer d ` set lens"
  using assms lens_ok_cases [OF assms(1)] by (auto simp: lens_ok_def ResizeKVCacheTensorBuffer_def split: if_splits)

lemma grow_for_prefill_ok:
  assumes "lens_ok eq lens" "grow_for_prefill fail start len lens = (res, lens')" "0 < len"
    "eq \<Longrightarrow> fail = None" "0 \<le> start" "start \<le> lens ! 0"
  shows "lens_ok eq lens' \<and> lens ! 0 \<le> lens' ! 0 \<and> (res \<longrightarrow> start + len \<le> lens' ! 0)"
proof -
  note r = lens_ok_cases [OF assms(1)]
  consider (alloc) "no_buffers lens" | (grow) "\<not> no_buffers lens" "len > lens ! 0 - start"
    | (enough) "\<not> no_buffers lens" "\<not> len > lens ! 0 - start" by blast
  then show ?thesis
  proof cases
    case alloc
    then have "resize_each fail (\<lambda>_. Some len) lens = (res, lens')"
      using assms(2) by (simp add: grow_for_prefill_def)
    moreover have "None \<notin> (\<lambda>_. Some len) ` set lens" by auto
    moreover have "l = 0" if "l \<in> set lens" for l using alloc that by (simp add: no_buffers_def list_all_iff)
    ultimately have "lens_ok eq lens' \<and> lens ! 0 \<le> lens' ! 0 \<and> (res \<longrightarrow> lens' ! 0 = lens ! 0 + len)"
      using resize_lens [OF assms(1) _ assms(3), of fail "\<lambda>_. Some len" res lens'] assms(4) by simp
    then show ?thesis using r alloc assms(6) by simp
  next
    case grow
    then have "resize_each fail (ResizeKVCacheTensorBuffer len) lens = (res, lens')"
      using assms(2) by (simp add: grow_for_prefill_def)
    from resize_lens [OF assms(1) this assms(3)] grow resize_defined assms(1,4,6)
    show ?thesis by (fastforce simp: ResizeKVCacheTensorBuffer_def split: if_splits)
  next
    case enough
    then show ?thesis using assms(1,2) by (auto simp: grow_for_prefill_def)
  qed
qed

lemma grow_for_decode_ok:
  assumes "lens_ok eq lens" "grow_for_decode fail start len lens = (res, lens')" "0 < len"
    "eq \<Longrightarrow> fail = None" "start \<le> lens ! 0" "\<not> no_buffers lens"
  shows "lens_ok eq lens' \<and> lens ! 0 \<le> lens' ! 0 \<and> (res \<longrightarrow> start < lens' ! 0)"
proof (cases "lens ! 0 \<le> start")
  case True
  then have "resize_each fail (ResizeKVCacheTensorBuffer len) lens = (res, lens')"
    using assms(2) by (simp add: grow_for_decode_def)
  from resize_lens [OF assms(1) this assms(3)] resize_defined assms(1,3-6)
  show ?thesis by (fastforce simp: ResizeKVCacheTensorBuffer_def split: if_splits)
next
  case False
  then show ?thesis using assms(1,2) by (auto simp: grow_for_decode_def)
qed

lemma prefilled_fits:
  assumes t: "toks (ce_tokens s) = [t]" and fits: "cache_fits s k" and ids: "ids \<noteq> []"
    and K: "k \<le> K" "int (length (context_of t)) + int (length ids) - 1 \<le> K"
  shows "cache_fits (prefilled ids t s) K"
proof -
  obtain c where c: "kv s = [c]" "0 \<le> ce_step s" "ce_step s \<le> int (length (context_of t))"
    "int (length (token_ids t)) \<le> k" "\<And>p v. c p = Some v \<Longrightarrow> 0 \<le> p \<and> p < k"
    using fits t by (auto simp: cache_fits_def)
  have bl: "int (length (butlast ids)) = int (length ids) - 1" using ids by (cases ids) simp_all
  let ?c = "write_cache (pending_run t @ number_from (ce_step s) (butlast ids)) c"
  have "0 \<le> p \<and> p < K" if w: "?c p = Some v" for p v
  proof -
    consider "p \<in> fst ` set (pending_run t)" | "p \<in> fst ` set (number_from (ce_step s) (butlast ids))" | "c p = Some v"
      using write_cache_Some [OF w] by auto
    then show ?thesis
    proof cases
      case 1
      then show ?thesis using K(2) ids
        by (cases "pending_input_token t"; cases ids) (auto simp: pending_run_def length_context)
    next
      case 2
      then show ?thesis using number_from_positions [OF 2] K(2) c(2,3) bl by linarith
    next
      case 3
      then show ?thesis using c(5) K(1) by fastforce
    qed
  qed
  moreover have "int (length (context_of t @ butlast ids)) \<le> K" using K(2) bl by simp
  moreover have "ce_step (prefilled ids t s) \<le> int (length (context_of t @ butlast ids)) + 1"
    using c(3) ids by (cases ids) (simp_all add: prefilled_def with_candidate_def of_nat_diff)
  moreover have "kv (prefilled ids t s) = [?c]" "0 \<le> ce_step (prefilled ids t s)"
    using c(1,2) by (simp_all add: prefilled_def)
  ultimately show ?thesis by (auto simp: cache_fits_def prefilled_toks length_context)
qed

lemma prefill_fits:
  assumes "fits eq sk" "DynamicPrefill fail b n ids sk = Some (r, sk')" "int (length ids) = b * n"
    and "eq \<Longrightarrow> fail = None"
  shows "fits eq sk'"
proof (cases "b = 1 \<and> n > 0")
  case False
  then have "sk' = sk" using assms(2) by (cases sk) (auto simp: DynamicPrefill_def split: if_splits)
  then show ?thesis using assms(1) by simp
next
  case True
  obtain s lens where sk: "sk = (s, lens)" by (rule prod.exhaust)
  have l: "lens_ok eq lens" and f: "cache_fits s (lens ! 0)" using assms(1) sk by (auto simp: fits_def)
  obtain t where t: "toks (ce_tokens s) = [t]" "int (length (token_ids t)) \<le> lens ! 0"
    "0 \<le> ce_step s" "ce_step s \<le> int (length (context_of t))"
    using f by (auto simp: cache_fits_def)
  have ids: "ids \<noteq> []" using True assms(3) by auto
  let ?start = "int (length (token_ids t))"
  show ?thesis
  proof (cases "pending_input_token t = None \<and> length ids = 1")
    case early: True
    then have "sk' = (with_candidate (token_ids t) (Some (ids ! 0)) s, lens)"
      using assms(2) sk True t(1) next_single [OF t(1)]
      by (auto simp: DynamicPrefill_def Let_def on_base_def on_tokens_def AddPendingInputToken_def
          HasPendingInputToken_def with_candidate_def)
    then show ?thesis using l f t early
      by (auto simp: fits_def cache_fits_def with_candidate_def length_context)
  next
    case run: False
    define len where "len = (if pending_input_token t = None then int (length ids) - 1 else int (length ids))"
    have len: "0 < len" using run ids by (cases ids) (auto simp: len_def)
    obtain res lens' where g: "grow_for_prefill fail ?start len lens = (res, lens')" by fastforce
    note grown = grow_for_prefill_ok [OF l g len assms(4) _ t(2), simplified]
    have "sk' = (s, lens') \<or> res \<and> sk' = (prefilled ids t s, lens')"
      using assms(2) sk True run PrefillInternal_single [OF t(1) ids] next_single [OF t(1)] len g
      by (auto simp: DynamicPrefill_def Let_def len_def on_base_def split: option.splits if_splits)
    then show ?thesis
    proof
      assume "sk' = (s, lens')"
      then show ?thesis using grown cache_fits_mono [OF f] by (simp add: fits_def)
    next
      assume k: "res \<and> sk' = (prefilled ids t s, lens')"
      then have "cache_fits (prefilled ids t s) (lens' ! 0)"
        using grown by (intro prefilled_fits [OF t(1) f ids]) (auto simp: len_def length_context split: if_splits)
      then show ?thesis using k grown by (simp add: fits_def)
    qed
  qed
qed

lemma fits_tokens:
  assumes "fits eq sk" "toks (ce_tokens (fst sk)) = [t]"
    and "toks (ce_tokens s') = [t']" "token_ids t' = token_ids t" "kv s' = kv (fst sk)"
    and "0 \<le> ce_step s'" "ce_step s' \<le> int (length (context_of t'))"
  shows "fits eq (s', snd sk)"
  using assms by (auto simp: fits_def cache_fits_def)

lemma fits_single:
  assumes "fits eq sk"
  obtains t where "toks (ce_tokens (fst sk)) = [t]" "0 \<le> ce_step (fst sk)"
    "ce_step (fst sk) \<le> int (length (context_of t))"
  using assms by (auto simp: fits_def cache_fits_def)

lemma sample_fits:
  assumes "fits eq sk" "on_base (on_tokens (AddPendingInputToken [Some (TokenData i)])) sk = Some (r, sk')"
  shows "fits eq sk'"
proof -
  obtain t where t: "toks (ce_tokens (fst sk)) = [t]" "0 \<le> ce_step (fst sk)" "ce_step (fst sk) \<le> int (length (context_of t))"
    using assms(1) by (rule fits_single)
  show ?thesis
  proof (cases "pending_input_token t")
    case None
    then have "sk' = (with_candidate (token_ids t) (Some i) (fst sk), snd sk)"
      using assms(2) t(1)
      by (auto simp: on_base_def on_tokens_def AddPendingInputToken_def HasPendingInputToken_def with_candidate_def)
    then show ?thesis
      using t None by (auto intro!: fits_tokens [OF assms(1) t(1)] simp: with_candidate_def length_context)
  next
    case (Some d)
    then have "sk' = sk"
      using assms(2) t(1) by (auto simp: on_base_def on_tokens_def AddPendingInputToken_def HasPendingInputToken_def)
    then show ?thesis using assms(1) by simp
  qed
qed

lemma reset_fits:
  assumes "fits eq sk" "on_base CompiledReset sk = Some (r, sk')"
  shows "fits eq sk'"
proof -
  let ?k = "snd sk ! 0"
  obtain t c where t: "toks (ce_tokens (fst sk)) = [t]" "kv (fst sk) = [c]" "int (length (token_ids t)) \<le> ?k"
    "\<And>p v. c p = Some v \<Longrightarrow> 0 \<le> p \<and> p < ?k"
    using assms(1) by (auto simp: fits_def cache_fits_def)
  obtain pt where pt: "RollBackToStep 0 (ce_tokens (fst sk)) = (r, pt)"
    "sk' = ((fst sk)\<lparr>ce_step := 0, ce_tokens := pt\<rparr>, snd sk)"
    using assms(2) by (auto simp: on_base_def CompiledReset_def on_tokens_def split: prod.splits)
  have "\<exists>t'. toks pt = [t'] \<and> int (length (token_ids t')) \<le> int (length (token_ids t))"
    using pt(1) t(1) by (auto simp: RollBackToStep_def resize_ids_def split: if_splits)
  then have "cache_fits (fst sk') ?k" using t pt(2) by (fastforce simp: cache_fits_def)
  then show ?thesis using assms(1) pt(2) by (simp add: fits_def)
qed

text \<open>Decoding the pending token writes it at the first position that is not processed.\<close>

lemma get_token_fits:
  assumes "fits eq sk" "on_base (GetTokenToDecode 1 inputs) sk = Some (r, sk')"
  shows "fits eq sk' \<and> (\<forall>st. r = Inr st \<longrightarrow> st = GetNextUnprocessedToken (ce_tokens (fst sk')))"
proof -
  obtain t where t: "toks (ce_tokens (fst sk)) = [t]" "0 \<le> ce_step (fst sk)" "ce_step (fst sk) \<le> int (length (context_of t))"
    using assms(1) by (rule fits_single)
  show ?thesis
  proof (cases "\<exists>i. inputs = Some [i] \<and> i \<ge> 0")
    case True
    then obtain i where i: "inputs = Some [i]" "i \<ge> 0" by blast
    let ?s = "(fst sk)\<lparr>ce_tokens := (ce_tokens (fst sk))\<lparr>toks := [t\<lparr>pending_input_token := Some (TokenData i)\<rparr>]\<rparr>\<rparr>"
    have "r = Inr (GetNextUnprocessedToken (ce_tokens ?s)) \<and> sk' = (?s, snd sk)"
      using assms(2) t(1) i
      by (auto simp: on_base_def GetTokenToDecode_def bind_op_def on_tokens_def AddPendingInputToken_def
          HasPendingInputToken_def InvalidatePendingInputToken_def)
    moreover have "fits eq (?s, snd sk)"
      using t by (auto intro!: fits_tokens [OF assms(1) t(1)] simp: length_context split: if_splits)
    ultimately show ?thesis by auto
  next
    case False
    then have "sk' = sk \<and> (\<forall>st. r = Inr st \<longrightarrow> st = GetNextUnprocessedToken (ce_tokens (fst sk)))"
      using assms(2) by (cases sk; auto simp: on_base_def GetTokenToDecode_def bind_op_def length_Suc_conv
          split: option.splits if_splits)
    then show ?thesis using assms(1) by auto
  qed
qed

lemma prepare_fits:
  assumes "fits eq sk"
  shows "\<exists>s. on_base (PrepareFirstDecode 1) sk = Some (Ok, (s, snd sk)) \<and> fits eq (s, snd sk)"
  using assms by (cases sk) (auto simp: on_base_def PrepareFirstDecode_def fits_def cache_fits_def)

lemma run_token_fits:
  assumes "fits eq sk" "0 < increment" "eq \<Longrightarrow> fail = None"
    and "st = GetNextUnprocessedToken (ce_tokens (fst sk))"
    and "bind_op (DynamicDecodeInternal fail increment (fst st) (snd st)) (\<lambda>_.
      bind_op (on_base (ConsumePendingOrAddProcessedToken (snd st)))
        (\<lambda>_ sk. Some (Ok, ((fst sk)\<lparr>ce_step := fst st + 1\<rparr>, snd sk)))) sk = Some (r, sk')"
  shows "fits eq sk'"
proof -
  obtain s lens where sk: "sk = (s, lens)" by (rule prod.exhaust)
  have l: "lens_ok eq lens" and f: "cache_fits s (lens ! 0)" using assms(1) sk by (auto simp: fits_def)
  obtain t c where t: "toks (ce_tokens s) = [t]" "kv s = [c]" "0 \<le> ce_step s"
    "ce_step s \<le> int (length (context_of t))" "int (length (token_ids t)) \<le> lens ! 0"
    "\<And>p v. c p = Some v \<Longrightarrow> 0 \<le> p \<and> p < lens ! 0"
    using f by (auto simp: cache_fits_def)
  let ?n = "int (length (token_ids t))"
  have st: "st = (?n, case pending_input_token t of None \<Rightarrow> [] | Some d \<Rightarrow> [Some d])"
    using assms(4) sk next_single [OF t(1)] by simp
  show ?thesis
  proof (cases "no_buffers lens")
    case True
    then have "sk' = (s, lens)"
      using assms(5) sk by (simp add: bind_op_def DynamicDecodeInternal_def)
    then show ?thesis using assms(1) sk by simp
  next
    case False
    obtain res lens' where g: "grow_for_decode fail ?n increment lens = (res, lens')" by fastforce
    note grown = grow_for_decode_ok [OF l g assms(2,3) t(5) False]
    have stay: "fits eq (s, lens')" using grown cache_fits_mono [OF f] by (simp add: fits_def)
    show ?thesis
    proof (cases "\<not> res \<or> fail \<noteq> None \<or> pending_input_token t = None")
      case True
      then have "sk' = (s, lens')"
        using assms(5) sk st False g
        by (cases "\<not> res \<or> fail \<noteq> None")
          (auto simp: bind_op_def DynamicDecodeInternal_def on_base_def DecodeInternal_def split: if_splits)
      then show ?thesis using stay by simp
    next
      case run: False
      then obtain d where d: "pending_input_token t = Some d" by blast
      let ?s = "s\<lparr>kv := [c(?n := Some (tok_id d))],
        ce_tokens := (ce_tokens s)\<lparr>toks := [\<lparr>token_ids = token_ids t @ [tok_id d], pending_input_token = None\<rparr>]\<rparr>,
        ce_step := ?n + 1\<rparr>"
      have mark: "MarkPendingInputTokenAsProcessed (ce_tokens s) =
          Some (Ok, (ce_tokens s)\<lparr>toks := [\<lparr>token_ids = token_ids t @ [tok_id d], pending_input_token = None\<rparr>]\<rparr>)"
        using t(1) d MarkPending_Some [of "ce_tokens s"] by (cases t) (simp add: HasPendingInputToken_def)
      have "sk' = (?s, lens')"
        using assms(5) sk st d run False t(2) mark g
        by (auto simp: bind_op_def DynamicDecodeInternal_def on_base_def DecodeInternal_def
            ConsumePendingOrAddProcessedToken_def mark_pending_def)
      moreover have "?n + 1 \<le> lens' ! 0" using grown run by simp
      then have "cache_fits ?s (lens' ! 0)"
        using t(6) conjunct1 [OF conjunct2 [OF grown]]
        by (fastforce simp: cache_fits_def context_of_def)
      ultimately show ?thesis using grown by (simp add: fits_def)
    qed
  qed
qed

lemma decode_fits:
  assumes "fits eq sk" "0 < increment" "eq \<Longrightarrow> fail = None"
    "DynamicDecode fail increment inputs sk = Some (r, sk')"
  shows "fits eq sk'"
proof -
  obtain s1 where s1: "on_base (PrepareFirstDecode 1) sk = Some (Ok, (s1, snd sk))" "fits eq (s1, snd sk)"
    using prepare_fits [OF assms(1)] by blast
  obtain r2 sk2 where sk2: "on_base (GetTokenToDecode 1 inputs) (s1, snd sk) = Some (r2, sk2)"
    using assms(4) s1(1) by (cases "on_base (GetTokenToDecode 1 inputs) (s1, snd sk)") (auto simp: DynamicDecode_def bind_op_def)
  note g = get_token_fits [OF s1(2) sk2]
  show ?thesis
  proof (cases r2)
    case (Inl e)
    then show ?thesis using assms(4) s1(1) sk2 g by (simp add: DynamicDecode_def bind_op_def)
  next
    case (Inr st)
    then show ?thesis
      using assms(4) s1(1) sk2 g run_token_fits [of eq sk2 increment fail st r sk'] assms(2,3)
      by (simp add: DynamicDecode_def bind_op_def [of "on_base (PrepareFirstDecode 1)"]
          bind_op_def [of "on_base (GetTokenToDecode 1 inputs)"] del: One_nat_def)
  qed
qed

lemma dynamic_fits:
  assumes "(dynamic_step increment fails)\<^sup>*\<^sup>* (fresh_executor, replicate n 0) sk" "0 < increment" "0 < n"
  shows "fits (fails \<subseteq> {None}) sk"
  using assms(1)
proof (induction rule: rtranclp_induct)
  case base
  show ?case using assms(3)
    by (simp add: fits_def lens_ok_def cache_fits_def fresh_executor_def ProcessedTokens_def)
next
  case (step y z)
  from step(2) show ?case
  proof cases
    case (prefill fail b n ids r)
    then show ?thesis using prefill_fits [OF step(3) prefill(2,3)] by blast
  next
    case (decode fail inputs r)
    then show ?thesis using decode_fits [OF step(3) assms(2) _ decode(2)] by blast
  qed (use step(3) sample_fits reset_fits in blast)+
qed

text \<open>
  A resize that fails after the first key buffer is never made up for: the next prefill sees the length
  of the first key buffer, resizes nothing, succeeds and writes past the end of the second buffer.
\<close>

lemma failed_resize_leaves_short_buffer:
  "\<exists>s1 s2 s3. DynamicPrefill None 1 3 [7, 8, 9] (fresh_executor :: unit compiled_executor, [0, 0]) = Some (Ok, s1) \<and>
     DynamicPrefill (Some 1) 1 2 [4, 5] s1 = Some (Inl Internal, s2) \<and>
     DynamicPrefill None 1 2 [4, 5] s2 = Some (Ok, s3) \<and>
     snd s3 = [4, 2] \<and> (kv (fst s3) ! 0) 2 = Some 9 \<and> (kv (fst s3) ! 0) 3 = Some 4"
  by (simp add: DynamicPrefill_def fresh_executor_def ProcessedTokens_def GetNextUnprocessedToken_def
      GetStep_def GetPendingInputToken_def HasPendingInputToken_def PrefillInternal_def Let_def bind_op_def
      consume_pending_def feed_tokens_def on_tokens_def AddProcessedTokens_def AddPendingInputToken_def
      run_prefill_def grow_for_prefill_def no_buffers_def on_base_def ResizeKVCacheTensorBuffer_def
      TokenData_def mark_pending_def MarkPendingInputTokenAsProcessed_def pending_id_def
      number_from_def upt_rec)

text \<open>C26.
  After any calls of prefill, decode, sampling and reset of the dynamic executor, failed ones included
  and whichever buffers could not be created or resized in them: every token the model has written
  stands at a position inside the first key buffer, whose length is the only one the code reads, and so
  do all processed tokens; no other buffer is longer. As long as no creation or resizing failed, all
  buffers have that length, so every write is inside all of them. (After a failure the others may be
  shorter, and nothing repairs that.)\<close>

theorem dynamic_cache_holds_every_write:
  assumes "(dynamic_step increment fails)\<^sup>*\<^sup>* (fresh_executor, replicate n 0) (s, lens)"
    and "0 < increment" "0 < n"
  shows "(\<forall>c \<in> set (kv s). \<forall>p v. c p = Some v \<longrightarrow> 0 \<le> p \<and> p < lens ! 0) \<and>
    (\<forall>t \<in> set (toks (ce_tokens s)). int (length (token_ids t)) \<le> lens ! 0) \<and>
    (\<forall>l \<in> set lens. l \<le> lens ! 0) \<and>
    (fails \<subseteq> {None} \<longrightarrow> (\<forall>l \<in> set lens. l = lens ! 0))"
  using dynamic_fits [OF assms] by (auto simp: fits_def lens_ok_def cache_fits_def)

lemma dynamic_cache_holds_every_write_witness:
  "\<exists>s. DynamicPrefill None 1 3 [7, 8, 9] (fresh_executor :: unit compiled_executor, [0, 0]) = Some (Ok, (s, [2, 2])) \<and>
     list_all (\<lambda>t. int (length (token_ids t)) \<le> 2) (toks (ce_tokens s))"
proof -
  obtain s where s: "DynamicPrefill None 1 3 [7, 8, 9] (fresh_executor :: unit compiled_executor, [0, 0]) = Some (Ok, (s, [2, 2]))"
    by (simp add: DynamicPrefill_def fresh_executor_def ProcessedTokens_def GetNextUnprocessedToken_def
        GetStep_def GetPendingInputToken_def HasPendingInputToken_def PrefillInternal_def Let_def bind_op_def
        consume_pending_def feed_tokens_def on_tokens_def AddProcessedTokens_def AddPendingInputToken_def
        run_prefill_def grow_for_prefill_def no_buffers_def on_base_def)
  have "dynamic_step 1 {None} (fresh_executor :: unit compiled_executor, [0, 0]) (s, [2, 2])"
    by (rule prefill [OF _ s]) simp_all
  then have "(dynamic_step 1 {None})\<^sup>*\<^sup>* (fresh_executor :: unit compiled_executor, replicate 2 0) (s, [2, 2])"
    by (simp add: numeral_2_eq_2 r_into_rtranclp)
  from dynamic_cache_holds_every_write [OF this] s
  have "list_all (\<lambda>t. int (length (token_ids t)) \<le> 2) (toks (ce_tokens s))"
    by (simp add: list_all_iff)
  with s show ?thesis by blast
qed

end
