(* ===== verification/ContextHandler.thy ===== *)
theory ContextHandler
  imports Prelude
begin

text \<open>
  Context handlers and the processed contexts they share,
  \<^verbatim>\<open>runtime/framework/resource_management/context_handler/context_handler.{h,cc}\<close>. Handlers and shared
  contexts point to each other, so both live in a store that maps addresses to objects; an access to an
  address without an object is undefined behaviour, the value \<open>None\<close>. The processed context, the
  runtime config and the runtime state of an executor (\<^verbatim>\<open>llm_executor_google.h\<close>, not in the repository)
  are the types \<open>'p\<close>, \<open>'c\<close> and \<open>'s\<close>; a null \<^verbatim>\<open>unique_ptr\<close> is \<open>None\<close>. The mutexes of a shared context
  only serialise its methods.

  A handler owns its shared context by a \<^verbatim>\<open>shared_ptr\<close>, and a shared context lists its handlers by raw
  pointers. So a shared context is freed once no handler points to it (and the last other owner, a
  local variable of the resource manager, is gone), and a handler whenever its owner destroys it.
  New objects get addresses that were never used, so an access to a freed object is always an access
  to an address without an object, and seen as \<open>None\<close>.
\<close>

section \<open>State\<close>

record ('c, 's) context_handler =
  shared_of :: nat
  runtime_config :: "'c option"
  runtime_state :: "'s option"

record 'p shared_context =
  handlers_of :: "nat list"
  processed_context :: "'p option"

record ('c, 's, 'p) context_store =
  handler_at :: "nat \<Rightarrow> ('c, 's) context_handler option"
  shared_at :: "nat \<Rightarrow> 'p shared_context option"
  next_handler :: nat
  next_shared :: nat

text \<open>What the constructor of an \<^verbatim>\<open>LlmContext\<close> is given and its \<^verbatim>\<open>Retrieve\<close> methods return.\<close>

record ('c, 's, 'p) llm_context =
  context_processed :: "'p option"
  context_config :: "'c option"
  context_state :: "'s option"

definition empty_store :: "('c, 's, 'p) context_store" where
  "empty_store = \<lparr>handler_at = (\<lambda>h. None), shared_at = (\<lambda>a. None), next_handler = 0, next_shared = 0\<rparr>"

definition with_handler ::
  "nat \<Rightarrow> (('c, 's) context_handler, 'a) op \<Rightarrow> (('c, 's, 'p) context_store, 'a) uop" where
  "with_handler h m st =
     (case handler_at st h of
        None \<Rightarrow> None
      | Some k \<Rightarrow> (case m k of (r, k') \<Rightarrow> Some (r, st\<lparr>handler_at := (handler_at st)(h \<mapsto> k')\<rparr>)))"

definition with_shared ::
  "nat \<Rightarrow> ('p shared_context, 'a) op \<Rightarrow> (('c, 's, 'p) context_store, 'a) uop" where
  "with_shared a m st =
     (case shared_at st a of
        None \<Rightarrow> None
      | Some x \<Rightarrow> (case m x of (r, x') \<Rightarrow> Some (r, st\<lparr>shared_at := (shared_at st)(a \<mapsto> x')\<rparr>)))"

section \<open>Shared contexts\<close>

definition AddHandler :: "nat \<Rightarrow> ('p shared_context, unit) op" where
  "AddHandler h x = (Ok, x\<lparr>handlers_of := handlers_of x @ [h]\<rparr>)"

definition RemoveHandler :: "nat \<Rightarrow> ('p shared_context, unit) op" where
  "RemoveHandler h x = (Ok, x\<lparr>handlers_of := filter (\<lambda>k. k \<noteq> h) (handlers_of x)\<rparr>)"

definition HasProcessedContext :: "'p shared_context \<Rightarrow> bool" where
  "HasProcessedContext x = (processed_context x \<noteq> None)"

definition SetProcessedContext :: "'p option \<Rightarrow> ('p shared_context, unit) op" where
  "SetProcessedContext p x =
     (if HasProcessedContext x then (Inl Internal, x) else (Ok, x\<lparr>processed_context := p\<rparr>))"

definition RetrieveProcessedContext :: "('p shared_context, 'p option) op" where
  "RetrieveProcessedContext x = (Inr (processed_context x), x\<lparr>processed_context := None\<rparr>)"

text \<open>
  The largest step of the handlers of a shared context; a handler without a runtime config is the one
  that the executor holds, whose step \<open>cur\<close> the executor knows.
\<close>

fun longest_step ::
  "(nat \<Rightarrow> ('c, 's) context_handler option) \<Rightarrow> ('s \<Rightarrow> int) \<Rightarrow> int status_or \<Rightarrow> nat list \<Rightarrow> int \<Rightarrow>
     int status_or option"
where
  "longest_step H step_of cur [] m = Some (Inr m)"
| "longest_step H step_of cur (h # hs) m =
     (case H h of
        None \<Rightarrow> None
      | Some k \<Rightarrow>
          if runtime_config k = None
          then (case cur of Inl e \<Rightarrow> Some (Inl e) | Inr n \<Rightarrow> longest_step H step_of cur hs (max m n))
          else (case runtime_state k of
                  None \<Rightarrow> None
                | Some s \<Rightarrow> longest_step H step_of cur hs (max m (step_of s))))"

definition LongestHandlerTimeStep ::
  "('s \<Rightarrow> int) \<Rightarrow> int status_or \<Rightarrow> nat \<Rightarrow> ('c, 's, 'p) context_store \<Rightarrow> int status_or option"
where
  "LongestHandlerTimeStep step_of cur a st =
     (case shared_at st a of
        None \<Rightarrow> None
      | Some x \<Rightarrow> longest_step (handler_at st) step_of cur (handlers_of x) 0)"

text \<open>\<^verbatim>\<open>std::make_shared<SharedProcessedContext>(p)\<close>.\<close>

definition NewSharedProcessedContext :: "'p option \<Rightarrow> (('c, 's, 'p) context_store, nat) uop" where
  "NewSharedProcessedContext p st =
     (let a = next_shared st
      in Some (Inr a, st\<lparr>shared_at := (shared_at st)(a \<mapsto> \<lparr>handlers_of = [], processed_context = p\<rparr>),
                         next_shared := a + 1\<rparr>))"

section \<open>Handlers\<close>

definition HasRuntimeConfig :: "('c, 's) context_handler \<Rightarrow> bool" where
  "HasRuntimeConfig k = (runtime_config k \<noteq> None)"

definition SetRuntimeConfig :: "'c option \<Rightarrow> (('c, 's) context_handler, unit) op" where
  "SetRuntimeConfig c k = (Ok, k\<lparr>runtime_config := c\<rparr>)"

definition RetrieveRuntimeConfig :: "(('c, 's) context_handler, 'c) op" where
  "RetrieveRuntimeConfig k =
     (case runtime_config k of None \<Rightarrow> (Inl Internal, k) | Some c \<Rightarrow> (Inr c, k\<lparr>runtime_config := None\<rparr>))"

definition GetRuntimeConfig :: "('c, 's) context_handler \<Rightarrow> 'c status_or" where
  "GetRuntimeConfig k = (case runtime_config k of None \<Rightarrow> Inl Internal | Some c \<Rightarrow> Inr c)"

definition HasRuntimeState :: "('c, 's) context_handler \<Rightarrow> bool" where
  "HasRuntimeState k = (runtime_state k \<noteq> None)"

definition SetRuntimeState :: "'s option \<Rightarrow> (('c, 's) context_handler, unit) op" where
  "SetRuntimeState s k = (Ok, k\<lparr>runtime_state := s\<rparr>)"

definition RetrieveRuntimeState :: "(('c, 's) context_handler, 's) op" where
  "RetrieveRuntimeState k =
     (case runtime_state k of None \<Rightarrow> (Inl Internal, k) | Some s \<Rightarrow> (Inr s, k\<lparr>runtime_state := None\<rparr>))"

definition GetRuntimeState :: "('c, 's) context_handler \<Rightarrow> 's status_or" where
  "GetRuntimeState k = (case runtime_state k of None \<Rightarrow> Inl Internal | Some s \<Rightarrow> Inr s)"

text \<open>The constructor, the factories and the destructor; a null pointer to a shared context is \<open>None\<close>.\<close>

definition Bundle ::
  "nat option \<Rightarrow> 'c option \<Rightarrow> 's option \<Rightarrow> (('c, 's, 'p) context_store, nat) uop"
where
  "Bundle shared c s st =
     (case shared of
        None \<Rightarrow> Some (Inl Internal, st)
      | Some a \<Rightarrow>
          let h = next_handler st;
              st = st\<lparr>handler_at := (handler_at st)(h \<mapsto> \<lparr>shared_of = a, runtime_config = c, runtime_state = s\<rparr>),
                      next_handler := h + 1\<rparr>
          in bind_op (with_shared a (AddHandler h)) (\<lambda>_ st. Some (Inr h, st)) st)"

definition CreateHandler ::
  "('c, 's, 'p) llm_context option \<Rightarrow> (('c, 's, 'p) context_store, nat) uop"
where
  "CreateHandler ctx st =
     (case ctx of
        None \<Rightarrow> Some (Inl Internal, st)
      | Some x \<Rightarrow>
          bind_op (NewSharedProcessedContext (context_processed x))
            (\<lambda>a. Bundle (Some a) (context_config x) (context_state x)) st)"

definition DestroyHandler :: "nat \<Rightarrow> (('c, 's, 'p) context_store, unit) uop" where
  "DestroyHandler h st =
     (case handler_at st h of
        None \<Rightarrow> None
      | Some k \<Rightarrow>
          bind_op (with_shared (shared_of k) (RemoveHandler h))
            (\<lambda>_ st. Some (Ok, st\<lparr>handler_at := (handler_at st)(h := None)\<rparr>)) st)"

definition UpdateSharedProcessedContext ::
  "nat \<Rightarrow> nat \<Rightarrow> (('c, 's, 'p) context_store, unit) uop"
where
  "UpdateSharedProcessedContext new h st =
     (case handler_at st h of
        None \<Rightarrow> None
      | Some k \<Rightarrow>
          if shared_of k = new then Some (Ok, st)
          else bind_op (with_shared (shared_of k) (RemoveHandler h)) (\<lambda>_.
               bind_op (with_handler h (\<lambda>k. (Ok, k\<lparr>shared_of := new\<rparr>))) (\<lambda>_.
               with_shared new (AddHandler h))) st)"

section \<open>The two lists of pointers agree\<close>

text \<open>
  Every handler points to a shared context that lists it once, and a shared context lists only handlers
  that point to it; addresses not given out yet are free.
\<close>

definition linked :: "('c, 's, 'p) context_store \<Rightarrow> bool" where
  "linked st \<longleftrightarrow>
     (\<forall>h k. handler_at st h = Some k \<longrightarrow> h < next_handler st \<and>
        (\<exists>x. shared_at st (shared_of k) = Some x \<and> h \<in> set (handlers_of x))) \<and>
     (\<forall>a x. shared_at st a = Some x \<longrightarrow> a < next_shared st \<and> distinct (handlers_of x) \<and>
        (\<forall>h \<in> set (handlers_of x). \<exists>k. handler_at st h = Some k \<and> shared_of k = a))"

lemma linkedI:
  assumes "\<And>h k. handler_at st h = Some k \<Longrightarrow> h < next_handler st \<and>
      (\<exists>x. shared_at st (shared_of k) = Some x \<and> h \<in> set (handlers_of x))"
    and "\<And>a x. shared_at st a = Some x \<Longrightarrow> a < next_shared st \<and> distinct (handlers_of x)"
    and "\<And>a x h. shared_at st a = Some x \<Longrightarrow> h \<in> set (handlers_of x) \<Longrightarrow>
      \<exists>k. handler_at st h = Some k \<and> shared_of k = a"
  shows "linked st"
  using assms by (fastforce simp: linked_def)

lemma linked_handler:
  assumes "linked st" "handler_at st h = Some k"
  obtains x where "h < next_handler st" "shared_at st (shared_of k) = Some x" "h \<in> set (handlers_of x)"
  using assms unfolding linked_def by blast

lemma linked_handler_ex:
  "linked st \<Longrightarrow> handler_at st h = Some k \<Longrightarrow>
     h < next_handler st \<and> (\<exists>x. shared_at st (shared_of k) = Some x \<and> h \<in> set (handlers_of x))"
  unfolding linked_def by blast

lemma linked_shared:
  assumes "linked st" "shared_at st a = Some x"
  shows "a < next_shared st" "distinct (handlers_of x)"
  using assms unfolding linked_def by blast+

lemma linked_member:
  assumes "linked st" "shared_at st a = Some x" "h \<in> set (handlers_of x)"
  obtains k where "handler_at st h = Some k" "shared_of k = a"
  using assms unfolding linked_def by blast

lemma linked_fresh:
  assumes "linked st"
  shows "handler_at st (next_handler st) = None" "shared_at st (next_shared st) = None"
  using assms unfolding linked_def by (metis less_irrefl option.exhaust)+

lemma linked_iff_member:
  assumes "linked st" "shared_at st a = Some x"
  shows "h \<in> set (handlers_of x) \<longleftrightarrow> (\<exists>k. handler_at st h = Some k \<and> shared_of k = a)"
  using assms by (metis linked_handler linked_member option.inject)

lemma linked_empty: "linked empty_store"
  by (simp add: linked_def empty_store_def)

lemma linked_New:
  assumes "linked st"
  shows "\<exists>st'. NewSharedProcessedContext p st = Some (Inr (next_shared st), st') \<and> linked st' \<and>
    shared_at st' = (shared_at st)(next_shared st \<mapsto> \<lparr>handlers_of = [], processed_context = p\<rparr>) \<and>
    handler_at st' = handler_at st \<and> next_handler st' = next_handler st"
proof -
  let ?st = "st\<lparr>shared_at := (shared_at st)(next_shared st \<mapsto> \<lparr>handlers_of = [], processed_context = p\<rparr>),
    next_shared := next_shared st + 1\<rparr>"
  have "linked ?st"
    by (rule linkedI)
      (use assms linked_fresh [OF assms] in \<open>fastforce elim: linked_handler linked_member
         dest: linked_shared simp: split: if_splits\<close>)+
  then show ?thesis by (simp add: NewSharedProcessedContext_def Let_def)
qed

lemma Bundle_result:
  assumes "linked st" "shared_at st a = Some x"
  shows "\<exists>st'. Bundle (Some a) c s st = Some (Inr (next_handler st), st') \<and> linked st' \<and>
    handler_at st' = (handler_at st)(next_handler st \<mapsto> \<lparr>shared_of = a, runtime_config = c, runtime_state = s\<rparr>) \<and>
    shared_at st' = (shared_at st)(a \<mapsto> x\<lparr>handlers_of := handlers_of x @ [next_handler st]\<rparr>)"
proof -
  let ?h = "next_handler st"
  let ?st = "st\<lparr>handler_at := (handler_at st)(?h \<mapsto> \<lparr>shared_of = a, runtime_config = c, runtime_state = s\<rparr>),
    next_handler := ?h + 1, shared_at := (shared_at st)(a \<mapsto> x\<lparr>handlers_of := handlers_of x @ [?h]\<rparr>)\<rparr>"
  have fresh: "?h \<notin> set (handlers_of y)" if "shared_at st b = Some y" for b y
    using assms(1) that linked_fresh [OF assms(1)] by (metis linked_member option.distinct(1))
  have "linked ?st"
  proof (rule linkedI)
    fix h k assume "handler_at ?st h = Some k"
    then show "h < next_handler ?st \<and> (\<exists>y. shared_at ?st (shared_of k) = Some y \<and> h \<in> set (handlers_of y))"
      using assms by (cases "h = ?h") (fastforce elim: linked_handler)+
  next
    fix b y assume "shared_at ?st b = Some y"
    then show "b < next_shared ?st \<and> distinct (handlers_of y)"
      using assms fresh [OF assms(2)] linked_shared [OF assms(1)] by (cases "b = a") auto
  next
    fix b y h assume "shared_at ?st b = Some y" "h \<in> set (handlers_of y)"
    then show "\<exists>k. handler_at ?st h = Some k \<and> shared_of k = b"
      using assms fresh by (cases "b = a") (fastforce elim: linked_member)+
  qed
  then show ?thesis using assms(2)
    by (simp add: Bundle_def Let_def bind_op_def with_shared_def AddHandler_def)
qed

lemma CreateHandler_result:
  assumes "linked st"
  shows "\<exists>st'. CreateHandler (Some x) st = Some (Inr (next_handler st), st') \<and> linked st' \<and>
    handler_at st' = (handler_at st)(next_handler st \<mapsto>
      \<lparr>shared_of = next_shared st, runtime_config = context_config x, runtime_state = context_state x\<rparr>) \<and>
    shared_at st' = (shared_at st)(next_shared st \<mapsto>
      \<lparr>handlers_of = [next_handler st], processed_context = context_processed x\<rparr>)"
proof -
  obtain s1 where s1: "NewSharedProcessedContext (context_processed x) st = Some (Inr (next_shared st), s1)"
    "linked s1" "shared_at s1 = (shared_at st)(next_shared st \<mapsto> \<lparr>handlers_of = [], processed_context = context_processed x\<rparr>)"
    "handler_at s1 = handler_at st" "next_handler s1 = next_handler st"
    using linked_New [OF assms] by blast
  show ?thesis
    using Bundle_result [OF s1(2), of "next_shared st" "\<lparr>handlers_of = [], processed_context = context_processed x\<rparr>"
        "context_config x" "context_state x"] s1(1,3-5)
    by (simp add: CreateHandler_def bind_op_def)
qed

lemma with_handler_some:
  "handler_at st h = Some k \<Longrightarrow> m k = (r, k') \<Longrightarrow>
    with_handler h m st = Some (r, st\<lparr>handler_at := (handler_at st)(h \<mapsto> k')\<rparr>)"
  by (simp add: with_handler_def)

lemma with_shared_some:
  "shared_at st a = Some x \<Longrightarrow> m x = (r, x') \<Longrightarrow>
    with_shared a m st = Some (r, st\<lparr>shared_at := (shared_at st)(a \<mapsto> x')\<rparr>)"
  by (simp add: with_shared_def)

text \<open>Operations on the fields of an object do not touch the links.\<close>

lemma linked_fields:
  assumes "linked st"
    and "\<And>h. map_option shared_of (handler_at st' h) = map_option shared_of (handler_at st h)"
    and "\<And>a. map_option handlers_of (shared_at st' a) = map_option handlers_of (shared_at st a)"
    and "next_handler st' = next_handler st" "next_shared st' = next_shared st"
  shows "linked st'"
proof (rule linkedI)
  have h: "\<exists>k. handler_at st h = Some k \<and> shared_of k = shared_of k'" if "handler_at st' h = Some k'" for h k'
    using assms(2) [of h] that by (cases "handler_at st h") auto
  have x: "\<exists>x. shared_at st a = Some x \<and> handlers_of x = handlers_of x'" if "shared_at st' a = Some x'" for a x'
    using assms(3) [of a] that by (cases "shared_at st a") auto
  have h': "\<exists>k'. handler_at st' h = Some k' \<and> shared_of k = shared_of k'" if "handler_at st h = Some k" for h k
    using assms(2) [of h] that by (cases "handler_at st' h") auto
  have x': "\<exists>x'. shared_at st' a = Some x' \<and> handlers_of x = handlers_of x'" if "shared_at st a = Some x" for a x
    using assms(3) [of a] that by (cases "shared_at st' a") auto
  show "h < next_handler st' \<and> (\<exists>x. shared_at st' (shared_of k) = Some x \<and> h \<in> set (handlers_of x))"
    if k: "handler_at st' h = Some k" for h k
  proof -
    obtain k0 where "handler_at st h = Some k0" "shared_of k0 = shared_of k" using h [OF k] by blast
    then show ?thesis using assms(1,4) x' by (metis linked_handler)
  qed
  show "a < next_shared st' \<and> distinct (handlers_of x)" if "shared_at st' a = Some x" for a x
    using x [OF that] assms(1,5) by (metis linked_shared)
  show "\<exists>k. handler_at st' h = Some k \<and> shared_of k = a"
    if "shared_at st' a = Some x" "h \<in> set (handlers_of x)" for a x h
    using x [OF that(1)] that(2) assms(1) h' by (metis linked_member)
qed

lemma RemoveHandler_result:
  assumes "linked st" "handler_at st h = Some k"
  shows "\<exists>x. shared_at st (shared_of k) = Some x \<and> h \<in> set (handlers_of x) \<and>
    with_shared (shared_of k) (RemoveHandler h) st =
      Some (Ok, st\<lparr>shared_at := (shared_at st)(shared_of k \<mapsto> x\<lparr>handlers_of := filter (\<lambda>i. i \<noteq> h) (handlers_of x)\<rparr>)\<rparr>)"
  using linked_handler [OF assms] by (metis with_shared_some RemoveHandler_def)

lemma DestroyHandler_result:
  assumes "linked st" "handler_at st h = Some k"
  shows "\<exists>st' x. DestroyHandler h st = Some (Ok, st') \<and> linked st' \<and>
    handler_at st' = (handler_at st)(h := None) \<and> shared_at st (shared_of k) = Some x \<and>
    shared_at st' = (shared_at st)(shared_of k \<mapsto> x\<lparr>handlers_of := filter (\<lambda>i. i \<noteq> h) (handlers_of x)\<rparr>)"
proof -
  obtain x where x: "shared_at st (shared_of k) = Some x" "h \<in> set (handlers_of x)"
    "with_shared (shared_of k) (RemoveHandler h) st =
      Some (Ok, st\<lparr>shared_at := (shared_at st)(shared_of k \<mapsto> x\<lparr>handlers_of := filter (\<lambda>i. i \<noteq> h) (handlers_of x)\<rparr>)\<rparr>)"
    using RemoveHandler_result [OF assms] by blast
  let ?st = "st\<lparr>shared_at := (shared_at st)(shared_of k \<mapsto> x\<lparr>handlers_of := filter (\<lambda>i. i \<noteq> h) (handlers_of x)\<rparr>),
    handler_at := (handler_at st)(h := None)\<rparr>"
  have "linked ?st"
  proof (rule linkedI)
    fix i j assume "handler_at ?st i = Some j"
    then have "i \<noteq> h" "handler_at st i = Some j" by (auto split: if_splits)
    then show "i < next_handler ?st \<and> (\<exists>y. shared_at ?st (shared_of j) = Some y \<and> i \<in> set (handlers_of y))"
      using linked_handler_ex [OF assms(1), of i j] x by (cases "shared_of j = shared_of k") auto
  next
    fix b y assume "shared_at ?st b = Some y"
    then show "b < next_shared ?st \<and> distinct (handlers_of y)"
      using x linked_shared [OF assms(1)] by (cases "b = shared_of k") auto
  next
    fix b y i assume "shared_at ?st b = Some y" "i \<in> set (handlers_of y)"
    then have "i \<noteq> h \<and> (\<exists>y. shared_at st b = Some y \<and> i \<in> set (handlers_of y))"
      using x linked_iff_member [OF assms(1)] assms(2) by (cases "b = shared_of k") auto
    then show "\<exists>j. handler_at ?st i = Some j \<and> shared_of j = b"
      using assms(1) by (auto elim: linked_member)
  qed
  then show ?thesis using x assms(2) by (simp add: DestroyHandler_def bind_op_def)
qed

lemma UpdateShared_result:
  assumes "linked st" "handler_at st h = Some k" "shared_at st new = Some y" "shared_of k \<noteq> new"
  shows "\<exists>st' x. UpdateSharedProcessedContext new h st = Some (Ok, st') \<and> linked st' \<and>
    handler_at st' = (handler_at st)(h \<mapsto> k\<lparr>shared_of := new\<rparr>) \<and> shared_at st (shared_of k) = Some x \<and>
    shared_at st' = (shared_at st)(shared_of k \<mapsto> x\<lparr>handlers_of := filter (\<lambda>i. i \<noteq> h) (handlers_of x)\<rparr>,
      new \<mapsto> y\<lparr>handlers_of := handlers_of y @ [h]\<rparr>)"
proof -
  obtain x where x: "shared_at st (shared_of k) = Some x" "h \<in> set (handlers_of x)"
    "with_shared (shared_of k) (RemoveHandler h) st =
      Some (Ok, st\<lparr>shared_at := (shared_at st)(shared_of k \<mapsto> x\<lparr>handlers_of := filter (\<lambda>i. i \<noteq> h) (handlers_of x)\<rparr>)\<rparr>)"
    using RemoveHandler_result [OF assms(1,2)] by blast
  let ?st = "st\<lparr>handler_at := (handler_at st)(h \<mapsto> k\<lparr>shared_of := new\<rparr>),
      shared_at := (shared_at st)(shared_of k \<mapsto> x\<lparr>handlers_of := filter (\<lambda>i. i \<noteq> h) (handlers_of x)\<rparr>,
        new \<mapsto> y\<lparr>handlers_of := handlers_of y @ [h]\<rparr>)\<rparr>"
  have hy: "h \<notin> set (handlers_of y)"
    using linked_iff_member [OF assms(1,3), of h] assms(2,4) by simp
  have "linked ?st"
  proof (rule linkedI)
    fix i j assume "handler_at ?st i = Some j"
    then show "i < next_handler ?st \<and> (\<exists>z. shared_at ?st (shared_of j) = Some z \<and> i \<in> set (handlers_of z))"
      using assms x(1) linked_handler [OF assms(1)] by (cases "i = h") (fastforce split: if_splits)+
  next
    fix b z assume "shared_at ?st b = Some z"
    then show "b < next_shared ?st \<and> distinct (handlers_of z)"
      using x assms(3) hy linked_shared [OF assms(1)] by (auto split: if_splits)
  next
    fix b z i assume z: "shared_at ?st b = Some z" "i \<in> set (handlers_of z)"
    show "\<exists>j. handler_at ?st i = Some j \<and> shared_of j = b"
    proof (cases "i = h")
      case True
      then show ?thesis using z x assms linked_iff_member [OF assms(1), of b] by (auto split: if_splits)
    next
      case False
      then have "\<exists>z. shared_at st b = Some z \<and> i \<in> set (handlers_of z)"
        using z x(1) assms(3) by (auto split: if_splits)
      then show ?thesis using False assms(1) by (auto elim: linked_member)
    qed
  qed
  then show ?thesis using x assms(2-4)
    by (simp add: UpdateSharedProcessedContext_def bind_op_def with_handler_def with_shared_def AddHandler_def)
qed

section \<open>Every reachable store is linked\<close>

text \<open>
  The operations of the program on handlers, each on live handlers only, and the end of a shared
  context: the reference count of a \<^verbatim>\<open>shared_ptr\<close> is zero only when no live handler holds it. The
  context may live longer, as long as someone else holds it.
\<close>

definition unreferenced :: "nat \<Rightarrow> ('c, 's, 'p) context_store \<Rightarrow> bool" where
  "unreferenced a st \<longleftrightarrow> (\<forall>h k. handler_at st h = Some k \<longrightarrow> shared_of k \<noteq> a)"

definition FreeShared :: "nat \<Rightarrow> ('c, 's, 'p) context_store \<Rightarrow> ('c, 's, 'p) context_store" where
  "FreeShared a st = st\<lparr>shared_at := (shared_at st)(a := None)\<rparr>"

lemma FreeShared_linked:
  assumes "linked st" "unreferenced a st"
  shows "linked (FreeShared a st)"
proof (rule linkedI)
  fix h k assume "handler_at (FreeShared a st) h = Some k"
  then have k: "handler_at st h = Some k" by (simp add: FreeShared_def)
  with assms(2) have "shared_of k \<noteq> a" by (simp add: unreferenced_def)
  with linked_handler_ex [OF assms(1) k]
  show "h < next_handler (FreeShared a st) \<and>
      (\<exists>x. shared_at (FreeShared a st) (shared_of k) = Some x \<and> h \<in> set (handlers_of x))"
    by (simp add: FreeShared_def)
qed (use assms(1) in \<open>auto simp: FreeShared_def dest: linked_shared elim: linked_member split: if_splits\<close>)

inductive store_step :: "('c, 's, 'p) context_store \<Rightarrow> ('c, 's, 'p) context_store \<Rightarrow> bool" where
  create: "CreateHandler ctx st = Some (r, st') \<Longrightarrow> store_step st st'"
| copy: "handler_at st h = Some k \<Longrightarrow> Bundle (Some (shared_of k)) c s st = Some (r, st') \<Longrightarrow> store_step st st'"
| destroy: "handler_at st h = Some k \<Longrightarrow> DestroyHandler h st = Some (r, st') \<Longrightarrow> store_step st st'"
| new_shared: "NewSharedProcessedContext p st = Some (r, st') \<Longrightarrow> store_step st st'"
| move: "handler_at st h = Some k \<Longrightarrow> shared_at st a = Some x \<Longrightarrow>
    UpdateSharedProcessedContext a h st = Some (r, st') \<Longrightarrow> store_step st st'"
| set_config: "with_handler h (SetRuntimeConfig c) st = Some (r, st') \<Longrightarrow> store_step st st'"
| retrieve_config: "with_handler h RetrieveRuntimeConfig st = Some (r', st') \<Longrightarrow> store_step st st'"
| set_state: "with_handler h (SetRuntimeState s) st = Some (r, st') \<Longrightarrow> store_step st st'"
| retrieve_state: "with_handler h RetrieveRuntimeState st = Some (r'', st') \<Longrightarrow> store_step st st'"
| set_processed: "with_shared a (SetProcessedContext p) st = Some (r, st') \<Longrightarrow> store_step st st'"
| retrieve_processed: "with_shared a RetrieveProcessedContext st = Some (r''', st') \<Longrightarrow> store_step st st'"
| free_shared: "unreferenced a st \<Longrightarrow> store_step st (FreeShared a st)"

lemma with_handler_linked:
  assumes "linked st" "with_handler h m st = Some (r, st')" "\<And>k. shared_of (snd (m k)) = shared_of k"
  shows "linked st'"
proof -
  obtain k k' where k: "handler_at st h = Some k" "m k = (r, k')"
    "st' = st\<lparr>handler_at := (handler_at st)(h \<mapsto> k')\<rparr>"
    using assms(2) by (auto simp: with_handler_def split: option.splits prod.splits)
  show ?thesis using k assms(3) [of k] by (intro linked_fields [OF assms(1)]) auto
qed

lemma with_shared_linked:
  assumes "linked st" "with_shared a m st = Some (r, st')" "\<And>x. handlers_of (snd (m x)) = handlers_of x"
  shows "linked st'"
proof -
  obtain x x' where x: "shared_at st a = Some x" "m x = (r, x')"
    "st' = st\<lparr>shared_at := (shared_at st)(a \<mapsto> x')\<rparr>"
    using assms(2) by (auto simp: with_shared_def split: option.splits prod.splits)
  show ?thesis using x assms(3) [of x] by (intro linked_fields [OF assms(1)]) auto
qed

lemma handler_fields_keep_links [simp]:
  "shared_of (snd (SetRuntimeConfig c k)) = shared_of k"
  "shared_of (snd (RetrieveRuntimeConfig k)) = shared_of k"
  "shared_of (snd (SetRuntimeState s k)) = shared_of k"
  "shared_of (snd (RetrieveRuntimeState k)) = shared_of k"
  "handlers_of (snd (SetProcessedContext p x)) = handlers_of x"
  "handlers_of (snd (RetrieveProcessedContext x)) = handlers_of x"
  by (simp_all add: SetRuntimeConfig_def RetrieveRuntimeConfig_def SetRuntimeState_def RetrieveRuntimeState_def
      SetProcessedContext_def RetrieveProcessedContext_def split: option.splits)

lemma store_step_linked:
  assumes "store_step st st'" "linked st"
  shows "linked st'"
  using assms
proof (induction rule: store_step.induct)
  case (create ctx st r st')
  show ?case
  proof (cases ctx)
    case None
    then show ?thesis using create by (simp add: CreateHandler_def)
  next
    case (Some x)
    then show ?thesis using CreateHandler_result [OF create(2), of x] create(1) by auto
  qed
next
  case (copy st h k c s r st')
  obtain x where "shared_at st (shared_of k) = Some x" using linked_handler [OF copy(3,1)] by blast
  from Bundle_result [OF copy(3) this, of c s] copy(2) show ?case by auto
next
  case (destroy st h k r st')
  then show ?case using DestroyHandler_result [OF destroy(3,1)] by auto
next
  case (new_shared p st r st')
  then show ?case using linked_New [OF new_shared(2), of p] by auto
next
  case (move st h k a x r st')
  show ?case
  proof (cases "shared_of k = a")
    case True
    then show ?thesis using move by (simp add: UpdateSharedProcessedContext_def)
  next
    case False
    then show ?thesis using UpdateShared_result [OF move(4,1,2)] move(3) by auto
  qed
next
  case (free_shared a st)
  then show ?case by (simp add: FreeShared_linked)
qed (use with_handler_linked with_shared_linked handler_fields_keep_links in blast)+

lemma reachable_linked: "store_step\<^sup>*\<^sup>* empty_store st \<Longrightarrow> linked st"
  by (induction rule: rtranclp_induct) (auto intro: linked_empty store_step_linked)

lemma longest_step_defined:
  assumes "\<And>i. i \<in> set hs \<Longrightarrow> \<exists>k. H i = Some k \<and> (runtime_config k = None \<or> runtime_state k \<noteq> None)"
  shows "longest_step H step_of cur hs m \<noteq> None"
  using assms by (induction hs arbitrary: m) (fastforce split: option.splits sum.splits)+

lemma Destroy_unlists:
  assumes "linked st" "handler_at st h = Some k"
  shows "\<exists>st'. DestroyHandler h st = Some (Ok, st') \<and> handler_at st' h = None \<and>
    (\<forall>a y. shared_at st' a = Some y \<longrightarrow> h \<notin> set (handlers_of y))"
proof -
  obtain st' where st': "DestroyHandler h st = Some (Ok, st')" "linked st'"
    "handler_at st' = (handler_at st)(h := None)"
    using DestroyHandler_result [OF assms] by blast
  have "h \<notin> set (handlers_of y)" if "shared_at st' a = Some y" for a y
    using linked_iff_member [OF st'(2) that, of h] st'(3) by simp
  with st' show ?thesis by simp
qed

lemma Update_moves:
  assumes "linked st" "handler_at st h = Some k" "shared_at st a = Some y"
  shows "\<exists>st'. UpdateSharedProcessedContext a h st = Some (Ok, st') \<and>
    map_option shared_of (handler_at st' h) = Some a \<and>
    (\<forall>b z. shared_at st' b = Some z \<longrightarrow> h \<in> set (handlers_of z) \<longleftrightarrow> b = a)"
proof (cases "shared_of k = a")
  case True
  with linked_iff_member [OF assms(1), of _ _ h] assms(2)
  show ?thesis by (auto simp: UpdateSharedProcessedContext_def)
next
  case False
  obtain st' where st': "UpdateSharedProcessedContext a h st = Some (Ok, st')" "linked st'"
    "handler_at st' = (handler_at st)(h \<mapsto> k\<lparr>shared_of := a\<rparr>)"
    using UpdateShared_result [OF assms(1,2,3) False] by blast
  have "h \<in> set (handlers_of z) \<longleftrightarrow> b = a" if "shared_at st' b = Some z" for b z
    using linked_iff_member [OF st'(2) that, of h] st'(3) by auto
  with st' show ?thesis by simp
qed

text \<open>C27.
  In every store that the operations on handlers reach, shared contexts being freed when no handler
  points to them: every live handler points to a shared context that is alive and lists it exactly
  once, and no other one lists it; destroying it succeeds and leaves it in no list; moving it to any
  live shared context succeeds and leaves it in the list of that one only. Every handler that a shared
  context lists is alive and points back, so \<^verbatim>\<open>LongestHandlerTimeStep\<close>, which follows these pointers, never
  reads a freed handler: it is defined whenever the listed handlers with a runtime config have a
  runtime state.\<close>

theorem handlers_and_contexts_stay_linked:
  assumes "store_step\<^sup>*\<^sup>* empty_store st"
  shows "(\<forall>h k. handler_at st h = Some k \<longrightarrow>
      (\<exists>x. shared_at st (shared_of k) = Some x \<and> count_list (handlers_of x) h = 1) \<and>
      (\<forall>a y. shared_at st a = Some y \<longrightarrow> a \<noteq> shared_of k \<longrightarrow> h \<notin> set (handlers_of y)) \<and>
      (\<exists>st'. DestroyHandler h st = Some (Ok, st') \<and> handler_at st' h = None \<and>
         (\<forall>a y. shared_at st' a = Some y \<longrightarrow> h \<notin> set (handlers_of y))) \<and>
      (\<forall>a y. shared_at st a = Some y \<longrightarrow>
         (\<exists>st'. UpdateSharedProcessedContext a h st = Some (Ok, st') \<and>
            map_option shared_of (handler_at st' h) = Some a \<and>
            (\<forall>b z. shared_at st' b = Some z \<longrightarrow> h \<in> set (handlers_of z) \<longleftrightarrow> b = a)))) \<and>
    (\<forall>a x. shared_at st a = Some x \<longrightarrow>
      (\<forall>h \<in> set (handlers_of x). \<exists>k. handler_at st h = Some k \<and> shared_of k = a) \<and>
      ((\<forall>h \<in> set (handlers_of x). \<forall>k. handler_at st h = Some k \<longrightarrow>
          runtime_config k = None \<or> runtime_state k \<noteq> None) \<longrightarrow>
        LongestHandlerTimeStep step_of cur a st \<noteq> None))"
proof (intro conjI allI impI)
  note l = reachable_linked [OF assms]
  fix h k assume k: "handler_at st h = Some k"
  obtain x where x: "shared_at st (shared_of k) = Some x" "h \<in> set (handlers_of x)"
    using linked_handler [OF l k] by blast
  then show "\<exists>x. shared_at st (shared_of k) = Some x \<and> count_list (handlers_of x) h = 1"
    using linked_shared [OF l x(1)] count_list_distinct [of "handlers_of x" h] by blast
  show "h \<notin> set (handlers_of y)" if "shared_at st a = Some y" "a \<noteq> shared_of k" for a y
    using linked_iff_member [OF l that(1), of h] k that(2) by simp
next
  note l = reachable_linked [OF assms]
  fix h k assume k: "handler_at st h = Some k"
  show "\<exists>st'. DestroyHandler h st = Some (Ok, st') \<and> handler_at st' h = None \<and>
      (\<forall>a y. shared_at st' a = Some y \<longrightarrow> h \<notin> set (handlers_of y))"
    by (rule Destroy_unlists [OF l k])
  fix a y assume "shared_at st a = Some y"
  then show "\<exists>st'. UpdateSharedProcessedContext a h st = Some (Ok, st') \<and>
      map_option shared_of (handler_at st' h) = Some a \<and>
      (\<forall>b z. shared_at st' b = Some z \<longrightarrow> h \<in> set (handlers_of z) \<longleftrightarrow> b = a)"
    by (rule Update_moves [OF l k])
next
  fix a x assume x: "shared_at st a = Some x"
  show entries: "\<forall>h \<in> set (handlers_of x). \<exists>k. handler_at st h = Some k \<and> shared_of k = a"
    using reachable_linked [OF assms] x by (auto elim: linked_member)
  assume "\<forall>h \<in> set (handlers_of x). \<forall>k. handler_at st h = Some k \<longrightarrow>
      runtime_config k = None \<or> runtime_state k \<noteq> None"
  with entries have "longest_step (handler_at st) step_of cur (handlers_of x) 0 \<noteq> None"
    by (intro longest_step_defined) blast
  with x show "LongestHandlerTimeStep step_of cur a st \<noteq> None"
    by (simp add: LongestHandlerTimeStep_def)
qed

definition two_handlers :: "(unit, int, unit) context_store" where
  "two_handlers = snd (the (Bundle (Some 0) (Some ()) (Some 2)
     (snd (the (CreateHandler (Some \<lparr>context_processed = Some (), context_config = Some (), context_state = Some 3\<rparr>)
        empty_store)))))"

lemma two_handlers_reachable: "store_step\<^sup>*\<^sup>* empty_store two_handlers"
proof -
  let ?x = "\<lparr>context_processed = Some (), context_config = Some (), context_state = Some (3 :: int)\<rparr>"
  let ?s = "snd (the (CreateHandler (Some ?x) empty_store))"
  have c: "CreateHandler (Some ?x) empty_store = Some (Inr 0, ?s)"
    by (simp add: CreateHandler_def NewSharedProcessedContext_def Bundle_def bind_op_def with_shared_def
        AddHandler_def empty_store_def Let_def)
  have h: "handler_at ?s 0 = Some \<lparr>shared_of = 0, runtime_config = Some (), runtime_state = Some 3\<rparr>"
    by (simp add: CreateHandler_def NewSharedProcessedContext_def Bundle_def bind_op_def with_shared_def
        AddHandler_def empty_store_def Let_def)
  have b: "Bundle (Some 0) (Some ()) (Some 2) ?s = Some (Inr 1, two_handlers)"
    by (simp add: two_handlers_def CreateHandler_def NewSharedProcessedContext_def Bundle_def bind_op_def
        with_shared_def AddHandler_def empty_store_def Let_def)
  have "store_step empty_store ?s" by (rule create [OF c])
  moreover have "store_step ?s two_handlers" using copy [OF h, of "Some ()" "Some 2"] b by simp
  ultimately show ?thesis by (meson rtranclp.simps)
qed

lemma handlers_and_contexts_stay_linked_witness:
  "\<exists>st'. DestroyHandler 1 two_handlers = Some (Ok, st') \<and>
     map_option handlers_of (shared_at st' 0) = Some [0] \<and>
     LongestHandlerTimeStep (\<lambda>s. s) (Inr 0) 0 st' = Some (Inr 3)"
proof -
  have h: "handler_at two_handlers 1 = Some \<lparr>shared_of = 0, runtime_config = Some (), runtime_state = Some 2\<rparr>"
    by (simp add: two_handlers_def CreateHandler_def NewSharedProcessedContext_def Bundle_def bind_op_def
        with_shared_def AddHandler_def empty_store_def Let_def)
  from handlers_and_contexts_stay_linked [OF two_handlers_reachable] h
  obtain st' where "DestroyHandler 1 two_handlers = Some (Ok, st')" by blast
  then show ?thesis
    by (simp add: two_handlers_def CreateHandler_def NewSharedProcessedContext_def Bundle_def bind_op_def
        with_shared_def AddHandler_def RemoveHandler_def DestroyHandler_def LongestHandlerTimeStep_def
        empty_store_def Let_def) (auto simp: fun_upd_twist)
qed

end
