(* ===== verification/ResourceManager.thy ===== *)
theory ResourceManager
  imports ContextHandler ExecutorIO CompiledExecutor "HOL-Library.AList" "HOL-Library.Sublist"
begin

text \<open>
  The resource manager, \<^verbatim>\<open>runtime/framework/resource_management/resource_manager.cc\<close>: one executor
  shared by many contexts, of which it holds at most one; the others wait in their handlers. The
  executor (\<^verbatim>\<open>llm_executor_google.h\<close>, not in the repository) is a record of its methods. The lock that
  an acquired executor holds is a flag; a call that waits for it does not return, the value \<open>None\<close>,
  as is a null dereference.
\<close>

section \<open>Matching tokens\<close>

text \<open>
  \<^verbatim>\<open>utils/resource_manager_utils.cc\<close>: the inputs that the processed tokens already contain are
  removed. The two pointers are never null at the call; the new inputs and the new step are the result.
\<close>

fun matching :: "'a list \<Rightarrow> 'a list \<Rightarrow> nat" where
  "matching (x # xs) (y # ys) = (if x = y then matching xs ys + 1 else 0)"
| "matching _ _ = 0"

definition RemoveMatchingTokens :: "int list \<Rightarrow> int list \<Rightarrow> int \<Rightarrow> (int list \<times> int) status_or" where
  "RemoveMatchingTokens processed ids step =
     (if step < 0 then Inl Internal
      else if int (length processed) < step then Inl Internal
      else let n = min (length ids) (length processed - nat step);
               k = matching (take n ids) (drop (nat step) processed)
           in Inr (drop k ids, step + int k))"

section \<open>State\<close>

text \<open>
  When ids are prefilled over tokens that are left behind the step: nothing is to be matched, or the
  two differ at some position (neither is an initial piece of the other).
\<close>

definition differs :: "'a list \<Rightarrow> 'a list \<Rightarrow> bool" where
  "differs ids rest \<longleftrightarrow> ids = [] \<or> rest = [] \<or> \<not> prefix ids rest \<and> \<not> prefix rest ids"

text \<open>The token ids of an input are a tensor: its dimensions and its elements.\<close>

type_synonym id_tensor = "int list \<times> int list"

record ('x, 'c, 's, 'p, 'f, 'tb, 'ptr, 'cfg) executor_api =
  ApiGetCurrentStep :: "'x \<Rightarrow> int status_or"
  ApiSetCurrentStep :: "int \<Rightarrow> ('x, unit) op"
  ApiGetProcessedTokens :: "'x \<Rightarrow> 'f processed_tokens status_or"
  ApiPrefill :: "(id_tensor, 'tb) executor_inputs \<Rightarrow> 'ptr prefill_params \<Rightarrow> ('x, unit) uop"
  ApiDecode :: "('x, int list) uop"
  ApiCloneContext :: "'x \<Rightarrow> ('c, 's, 'p) llm_context status_or"
  ApiRestoreContext :: "('c, 's, 'p) llm_context \<Rightarrow> ('x, unit) op"
  ApiGetRuntimeConfig :: "'x \<Rightarrow> 'c status_or"
  ApiUpdateRuntimeConfig :: "'c \<Rightarrow> ('x, unit) op"
  ApiGetRuntimeState :: "'x \<Rightarrow> 's status_or"
  ApiUpdateRuntimeState :: "'s \<Rightarrow> ('x, unit) op"
  ApiCreateNewContext :: "32 word option \<Rightarrow> 'cfg \<Rightarrow> ('x, ('c, 's, 'p) llm_context) op"
  ApiLoadLoRA :: "32 word \<Rightarrow> ('x, unit) op"
  StateStep :: "'s \<Rightarrow> int"

record ('x, 'c, 's, 'p) manager =
  store :: "('c, 's, 'p) context_store"
  llm_executor_of :: "'x option"
  current_handler :: "nat option"
  lora_hash_to_id :: "(string \<times> 32 word) list"
  executor_locked :: bool

definition CreateManager :: "'x option \<Rightarrow> ('x, 'c, 's, 'p) manager status_or" where
  "CreateManager x =
     (case x of
        None \<Rightarrow> Inl InvalidArgument
      | Some e \<Rightarrow> Inr \<lparr>store = empty_store, llm_executor_of = Some e, current_handler = None,
                        lora_hash_to_id = [], executor_locked = False\<rparr>)"

text \<open>Running a method of the store, of one of its objects, or of the executor.\<close>

definition on_store :: "(('c, 's, 'p) context_store, 'a) uop \<Rightarrow> (('x, 'c, 's, 'p) manager, 'a) uop" where
  "on_store f m = map_option (\<lambda>(r, st). (r, m\<lparr>store := st\<rparr>)) (f (store m))"

definition on_executor :: "('x, 'a) uop \<Rightarrow> (('x, 'c, 's, 'p) manager, 'a) uop" where
  "on_executor f m =
     (case llm_executor_of m of
        None \<Rightarrow> None
      | Some x \<Rightarrow> map_option (\<lambda>(r, x'). (r, m\<lparr>llm_executor_of := Some x'\<rparr>)) (f x))"

definition read_executor :: "('x \<Rightarrow> 'a status_or) \<Rightarrow> (('x, 'c, 's, 'p) manager, 'a) uop" where
  "read_executor f = on_executor (\<lambda>x. Some (f x, x))"

definition read_handler ::
  "nat \<Rightarrow> (('c, 's) context_handler \<Rightarrow> 'a status_or) \<Rightarrow> (('x, 'c, 's, 'p) manager, 'a) uop" where
  "read_handler h f m = (case handler_at (store m) h of None \<Rightarrow> None | Some k \<Rightarrow> Some (f k, m))"

definition on_shared_of ::
  "nat \<Rightarrow> ('p shared_context, 'a) op \<Rightarrow> (('x, 'c, 's, 'p) manager, 'a) uop" where
  "on_shared_of h f = bind_op (read_handler h (\<lambda>k. Inr (shared_of k))) (\<lambda>a. on_store (with_shared a f))"

section \<open>The acquired executor\<close>

text \<open>\<^verbatim>\<open>SaveProcessedContextAndSeparateLoadedHandler\<close>.\<close>

definition SaveProcessedContext ::
  "('x, 'c, 's, 'p, 'f, 'tb, 'ptr, 'cfg) executor_api \<Rightarrow> nat \<Rightarrow> (('x, 'c, 's, 'p) manager, unit) uop"
where
  "SaveProcessedContext api h =
     bind_op (read_handler h Inr) (\<lambda>k.
     bind_op (on_shared_of h (\<lambda>x. (Inr (HasProcessedContext x), x))) (\<lambda>has m.
       if HasRuntimeConfig k \<or> HasRuntimeState k \<or> has then Some (Inl Internal, m)
       else bind_op (read_executor (ApiCloneContext api)) (\<lambda>ctx.
            bind_op (on_shared_of h (SetProcessedContext (context_processed ctx))) (\<lambda>_.
            bind_op (on_store (NewSharedProcessedContext None)) (\<lambda>a.
            on_store (UpdateSharedProcessedContext a h)))) m))"

definition longest_of ::
  "('x, 'c, 's, 'p, 'f, 'tb, 'ptr, 'cfg) executor_api \<Rightarrow> nat \<Rightarrow> (('x, 'c, 's, 'p) manager, int) uop"
where
  "longest_of api h m =
     (case llm_executor_of m of
        None \<Rightarrow> None
      | Some x \<Rightarrow>
          bind_op (read_handler h (\<lambda>k. Inr (shared_of k)))
            (\<lambda>a m. map_option (\<lambda>r. (r, m))
                     (LongestHandlerTimeStep (StateStep api) (ApiGetCurrentStep api x) a (store m))) m)"

text \<open>
  What both methods do before they change tokens that other handlers may share: unless the step is
  the largest of the handlers, the processed context is saved for the others.
\<close>

definition separate_and_set ::
  "('x, 'c, 's, 'p, 'f, 'tb, 'ptr, 'cfg) executor_api \<Rightarrow> nat \<Rightarrow> int \<Rightarrow> (('x, 'c, 's, 'p) manager, unit) uop"
where
  "separate_and_set api h step =
     bind_op (longest_of api h) (\<lambda>largest.
     bind_op (if largest \<noteq> step then SaveProcessedContext api h else (\<lambda>m. Some (Ok, m)))
       (\<lambda>_. on_executor (defined (ApiSetCurrentStep api step))))"

definition LockedPrefill ::
  "('x, 'c, 's, 'p, 'f, 'tb, 'ptr, 'cfg) executor_api \<Rightarrow> nat option \<Rightarrow> (id_tensor, 'tb) executor_inputs \<Rightarrow>
     'ptr prefill_params \<Rightarrow> (('x, 'c, 's, 'p) manager, unit) uop"
where
  "LockedPrefill api current inputs params m =
     (case current of
        None \<Rightarrow> on_executor (ApiPrefill api inputs params) m
      | Some h \<Rightarrow>
          (case GetTextTokenIdsPtr inputs of
             Inl e \<Rightarrow> Some (Inl e, m)
           | Inr ids \<Rightarrow>
               if fst ids = [] then None
               else if fst ids ! 0 \<noteq> 1 then Some (Inl Internal, m)
               else if length (fst ids) = 1 then None
               else if fst ids ! 1 = 0 then Some (Ok, m)
               else bind_op (read_executor (ApiGetCurrentStep api)) (\<lambda>step0.
                    let step = (if ParamsGetCurrentStep params \<noteq> -1 then ParamsGetCurrentStep params else step0) in
                    bind_op (read_executor (ApiGetProcessedTokens api)) (\<lambda>pt m.
                      if TokenCount pt = step then on_executor (ApiPrefill api inputs params) m
                      else (case GetCopyOfTokens pt of
                              [] \<Rightarrow> None
                            | tokens # _ \<Rightarrow>
                                (case RemoveMatchingTokens tokens (snd ids) step of
                                   Inl e \<Rightarrow> Some (Inl e, m)
                                 | Inr (rest, step) \<Rightarrow>
                                     if rest = [] then on_executor (defined (ApiSetCurrentStep api step)) m
                                     else let inputs' = ExecutorInputs
                                                (Some (ExecutorTextData ([1, int (length rest)], rest))) None None;
                                              params' = ParamsSetCurrentStep step params in
                                          if TokenCount pt = step
                                          then on_executor (ApiPrefill api inputs' params') m
                                          else bind_op (separate_and_set api h step)
                                                 (\<lambda>_. on_executor (ApiPrefill api inputs' params')) m)))) m))"

definition LockedDecode ::
  "('x, 'c, 's, 'p, 'f, 'tb, 'ptr, 'cfg) executor_api \<Rightarrow> nat option \<Rightarrow> (('x, 'c, 's, 'p) manager, int list) uop"
where
  "LockedDecode api current m =
     (case current of
        None \<Rightarrow> on_executor (ApiDecode api) m
      | Some h \<Rightarrow>
          bind_op (read_executor (ApiGetCurrentStep api)) (\<lambda>step.
          bind_op (read_executor (ApiGetProcessedTokens api)) (\<lambda>pt m.
            if TokenCount pt = step then on_executor (ApiDecode api) m
            else bind_op (separate_and_set api h step) (\<lambda>_. on_executor (ApiDecode api)) m)) m)"

section \<open>The manager\<close>

definition take_lock :: "(('x, 'c, 's, 'p) manager, unit) uop" where
  "take_lock m = (if executor_locked m then None else Some (Ok, m\<lparr>executor_locked := True\<rparr>))"

definition release_lock :: "('x, 'c, 's, 'p) manager \<Rightarrow> ('x, 'c, 's, 'p) manager" where
  "release_lock m = m\<lparr>executor_locked := False\<rparr>"

text \<open>A block under the lock: it is released at the end, and at every early return.\<close>

definition under_lock :: "(('x, 'c, 's, 'p) manager, 'a) uop \<Rightarrow> (('x, 'c, 's, 'p) manager, 'a) uop" where
  "under_lock f = bind_op take_lock (\<lambda>_ m. map_option (\<lambda>(r, m). (r, release_lock m)) (f m))"

text \<open>A successful acquisition keeps the lock in the returned executor.\<close>

definition acquiring :: "(('x, 'c, 's, 'p) manager, 'a) uop \<Rightarrow> (('x, 'c, 's, 'p) manager, 'a) uop" where
  "acquiring f =
     bind_op take_lock (\<lambda>_ m. map_option (\<lambda>(r, m). (r, if ok r then m else release_lock m)) (f m))"

text \<open>A new LoRA gets the number of the known ones as its id; the map is an association list.\<close>

definition assign_id ::
  "(string \<times> 32 word) list \<Rightarrow> string \<Rightarrow> bool \<Rightarrow> 32 word option \<times> (string \<times> 32 word) list"
where
  "assign_id ids path has_file =
     (if path = '''' \<and> \<not> has_file then (None, ids)
      else if path \<noteq> ''''
      then let ids' = (if map_of ids path = None then AList.update path (of_nat (length ids)) ids else ids)
           in (map_of ids' path, ids')
      else if has_file
      then (Some (of_nat (length ids)),
            AList.update (''scoped_lora:'' @ decimal (length ids)) (of_nat (length ids)) ids)
      else (None, ids))"

definition AssignLoraId ::
  "string \<Rightarrow> bool \<Rightarrow> (('x, 'c, 's, 'p) manager, 32 word option) uop"
where
  "AssignLoraId path has_file m =
     Some (Inr (fst (assign_id (lora_hash_to_id m) path has_file)),
           m\<lparr>lora_hash_to_id := snd (assign_id (lora_hash_to_id m) path has_file)\<rparr>)"

text \<open>
  The sampler parameters of a session, and the configuration of a new context: the parameters, the
  number of output candidates and one token per decode. \<open>assets\<close> is the result of
  \<^verbatim>\<open>ModelAssets::Create\<close>.
\<close>

datatype sampler_type = TYPE_UNSPECIFIED | TOP_K | TOP_P | GREEDY | OtherSampler int

record 'r sampler_params =
  sampler_type_of :: sampler_type
  sampler_k :: int
  sampler_p :: 'r
  sampler_temperature :: 'r

definition CreateContextHandler ::
  "('x, 'c, 's, 'p, 'f, 'tb, 'ptr, 'r sampler_params \<times> int \<times> int) executor_api \<Rightarrow> status \<Rightarrow>
     'r sampler_params \<Rightarrow> int \<Rightarrow> (('x, 'c, 's, 'p) manager, nat) uop"
where
  "CreateContextHandler api assets sampler candidates m =
     (let loaded = (map_of (lora_hash_to_id m) ''fake_lora_path'' \<noteq> None) in
      bind_op (AssignLoraId '''' False) (\<lambda>lora_id.
      bind_op (case lora_id of
                 Some i \<Rightarrow> if loaded then (\<lambda>m. Some (Ok, m))
                           else bind_op (\<lambda>m. Some (assets, m))
                                  (\<lambda>_. under_lock (on_executor (defined (ApiLoadLoRA api i))))
               | None \<Rightarrow> (\<lambda>m. Some (Ok, m))) (\<lambda>_ m.
        case sampler_type_of sampler of
          OtherSampler _ \<Rightarrow> Some (Inl InvalidArgument, m)
        | _ \<Rightarrow>
            bind_op (under_lock (on_executor (defined (ApiCreateNewContext api lora_id (sampler, candidates, 1)))))
              (\<lambda>ctx. on_store (CreateHandler (Some ctx))) m)) m)"

definition CloneContextHandler ::
  "('x, 'c, 's, 'p, 'f, 'tb, 'ptr, 'cfg) executor_api \<Rightarrow> nat option \<Rightarrow> (('x, 'c, 's, 'p) manager, nat) uop"
where
  "CloneContextHandler api source m =
     (case source of
        None \<Rightarrow> Some (Inl Internal, m)
      | Some h \<Rightarrow>
          (case handler_at (store m) h of
             None \<Rightarrow> None
           | Some k \<Rightarrow>
               bind_op
                 (if HasRuntimeConfig k \<and> HasRuntimeState k
                  then bind_op (read_handler h GetRuntimeConfig) (\<lambda>c.
                       bind_op (read_handler h GetRuntimeState) (\<lambda>s m. Some (Inr (c, s), m)))
                  else under_lock (\<lambda>m.
                         if current_handler m \<noteq> Some h then Some (Inl Internal, m)
                         else bind_op (read_executor (ApiGetRuntimeConfig api)) (\<lambda>c.
                              bind_op (read_executor (ApiGetRuntimeState api)) (\<lambda>s m. Some (Inr (c, s), m))) m))
                 (\<lambda>cs. on_store (Bundle (Some (shared_of k)) (Some (fst cs)) (Some (snd cs)))) m))"

text \<open>The acquired executor is the handler it works for, none for \<^verbatim>\<open>AcquireExecutor\<close>.\<close>

definition AcquireExecutor :: "(('x, 'c, 's, 'p) manager, nat option) uop" where
  "AcquireExecutor =
     acquiring (\<lambda>m. Some (if llm_executor_of m = None then Inl InvalidArgument else Inr None, m))"

text \<open>Both handlers share their processed context: only the config and the state change.\<close>

definition switch_shared ::
  "('x, 'c, 's, 'p, 'f, 'tb, 'ptr, 'cfg) executor_api \<Rightarrow> nat \<Rightarrow> nat \<Rightarrow> (('x, 'c, 's, 'p) manager, unit) uop"
where
  "switch_shared api cur new =
     bind_op (read_executor (ApiGetRuntimeConfig api)) (\<lambda>c.
     bind_op (read_executor (ApiGetRuntimeState api)) (\<lambda>s.
     bind_op (on_store (with_handler cur (SetRuntimeConfig (Some c)))) (\<lambda>_.
     bind_op (on_store (with_handler cur (SetRuntimeState (Some s)))) (\<lambda>_.
     bind_op (on_store (with_handler new RetrieveRuntimeConfig)) (\<lambda>c'.
     bind_op (on_store (with_handler new RetrieveRuntimeState)) (\<lambda>s'.
     bind_op (on_executor (defined (ApiUpdateRuntimeConfig api c'))) (\<lambda>_.
     on_executor (defined (ApiUpdateRuntimeState api s')))))))))"

text \<open>Otherwise the context of the executor goes back to its handler, and the new one is restored.\<close>

definition save_current ::
  "('x, 'c, 's, 'p, 'f, 'tb, 'ptr, 'cfg) executor_api \<Rightarrow> nat \<Rightarrow> (('x, 'c, 's, 'p) manager, unit) uop"
where
  "save_current api cur =
     bind_op (read_executor (ApiCloneContext api)) (\<lambda>ctx.
     bind_op (on_store (with_handler cur (SetRuntimeConfig (context_config ctx)))) (\<lambda>_.
     bind_op (on_store (with_handler cur (SetRuntimeState (context_state ctx)))) (\<lambda>_.
     on_shared_of cur (SetProcessedContext (context_processed ctx)))))"

definition restore_new ::
  "('x, 'c, 's, 'p, 'f, 'tb, 'ptr, 'cfg) executor_api \<Rightarrow> nat \<Rightarrow> (('x, 'c, 's, 'p) manager, unit) uop"
where
  "restore_new api new =
     bind_op (on_store (with_handler new RetrieveRuntimeConfig)) (\<lambda>c.
     bind_op (on_store (with_handler new RetrieveRuntimeState)) (\<lambda>s.
     bind_op (on_shared_of new RetrieveProcessedContext) (\<lambda>p.
     on_executor (defined (ApiRestoreContext api
       \<lparr>context_processed = p, context_config = Some c, context_state = Some s\<rparr>)))))"

definition same_context :: "('x, 'c, 's, 'p) manager \<Rightarrow> nat \<Rightarrow> nat \<Rightarrow> bool" where
  "same_context m h i \<longleftrightarrow> map_option shared_of (handler_at (store m) h) = map_option shared_of (handler_at (store m) i)"

definition AcquireExecutorWithContextHandler ::
  "('x, 'c, 's, 'p, 'f, 'tb, 'ptr, 'cfg) executor_api \<Rightarrow> nat option \<Rightarrow>
     (('x, 'c, 's, 'p) manager, nat option) uop"
where
  "AcquireExecutorWithContextHandler api handler m =
     (case handler of
        None \<Rightarrow> Some (Inl Internal, m)
      | Some new \<Rightarrow>
          acquiring (\<lambda>m.
            if llm_executor_of m = None then Some (Inl Internal, m)
            else if Some new = current_handler m then Some (Inr (current_handler m), m)
            else if handler_at (store m) new = None then None
            else bind_op
                   (case current_handler m of
                      Some cur \<Rightarrow>
                        if same_context m new cur then switch_shared api cur new
                        else bind_op (save_current api cur) (\<lambda>_. restore_new api new)
                    | None \<Rightarrow> restore_new api new)
                   (\<lambda>_ m. Some (Inr (Some new), m\<lparr>current_handler := Some new\<rparr>)) m) m)"

section \<open>What a handler stands for\<close>

text \<open>
  Abstractly every handler is a list of tokens: its runtime state says how many tokens of its processed
  context are its own. \<open>saved\<close> and \<open>tokens\<close> are the tokens of a saved context (none if it
  cannot be restored) and of the executor, \<open>at\<close>
  is the step of the executor.
\<close>

definition tokens_of_shared ::
  "('p \<Rightarrow> int list option) \<Rightarrow> ('x \<Rightarrow> int list) \<Rightarrow> ('x, 'c, 's, 'p) manager \<Rightarrow> nat \<Rightarrow> int list option"
where
  "tokens_of_shared saved tokens m a =
     (if (\<exists>h k. current_handler m = Some h \<and> handler_at (store m) h = Some k \<and> shared_of k = a)
      then map_option tokens (llm_executor_of m)
      else Option.bind (shared_at (store m) a) (\<lambda>x. Option.bind (processed_context x) saved))"

definition step_of_handler ::
  "('s \<Rightarrow> int) \<Rightarrow> ('x \<Rightarrow> int) \<Rightarrow> ('x, 'c, 's, 'p) manager \<Rightarrow> nat \<Rightarrow> int option"
where
  "step_of_handler step_of at m h =
     (if current_handler m = Some h then map_option at (llm_executor_of m)
      else Option.bind (handler_at (store m) h) (\<lambda>k. map_option step_of (runtime_state k)))"

definition view ::
  "('s \<Rightarrow> int) \<Rightarrow> ('p \<Rightarrow> int list option) \<Rightarrow> ('x \<Rightarrow> int list) \<Rightarrow> ('x \<Rightarrow> int) \<Rightarrow> ('x, 'c, 's, 'p) manager \<Rightarrow>
     nat \<Rightarrow> int list option"
where
  "view step_of saved tokens at m h =
     Option.bind (handler_at (store m) h) (\<lambda>k.
     Option.bind (tokens_of_shared saved tokens m (shared_of k)) (\<lambda>ts.
     map_option (\<lambda>n. take (nat n) ts) (step_of_handler step_of at m h)))"

text \<open>
  The manager is well formed: the executor holds the current handler's context, all the others wait in
  their handlers, with a step that their tokens reach.
\<close>

definition manager_ok ::
  "('s \<Rightarrow> int) \<Rightarrow> ('p \<Rightarrow> int list option) \<Rightarrow> ('x \<Rightarrow> bool) \<Rightarrow> ('x \<Rightarrow> int list) \<Rightarrow> ('x, 'c, 's, 'p) manager \<Rightarrow> bool"
where
  "manager_ok step_of saved good tokens m \<longleftrightarrow>
     linked (store m) \<and> (\<exists>x. llm_executor_of m = Some x \<and> good x) \<and>
     (\<forall>h. current_handler m = Some h \<longrightarrow>
        (\<exists>k y. handler_at (store m) h = Some k \<and> runtime_config k = None \<and> runtime_state k = None \<and>
           shared_at (store m) (shared_of k) = Some y \<and> processed_context y = None)) \<and>
     (\<forall>h k. handler_at (store m) h = Some k \<longrightarrow> current_handler m \<noteq> Some h \<longrightarrow>
        (\<exists>c s ts. runtime_config k = Some c \<and> runtime_state k = Some s \<and>
           tokens_of_shared saved tokens m (shared_of k) = Some ts \<and> 0 \<le> step_of s \<and> step_of s \<le> int (length ts)))"

section \<open>The laws of an executor\<close>

text \<open>
  What the manager relies on, as its comments and the executors of the repository have it: setting the
  step may truncate the tokens behind it (\<^verbatim>\<open>resource_manager.cc\<close>, ``may need to be truncated''), a
  prefill starts at the step of the executor, whatever its parameters say, and overwrites what follows,
  so does a decode, and a cloned context can be restored. \<open>good\<close> is the invariant of the executor.
\<close>

locale context_executor =
  fixes api :: "('x, 'c, 's, 'p, 'f, 'tb, 'ptr, 'cfg) executor_api"
    and good :: "'x \<Rightarrow> bool"
    and tokens :: "'x \<Rightarrow> int list"
    and at :: "'x \<Rightarrow> int"
    and saved :: "'p \<Rightarrow> int list option"
  assumes step_law: "good x \<Longrightarrow> ApiGetCurrentStep api x = Inr (at x) \<and> 0 \<le> at x \<and> at x \<le> int (length (tokens x))"
    and tokens_law: "good x \<Longrightarrow> \<exists>pt t. ApiGetProcessedTokens api x = Inr pt \<and> toks pt = [t] \<and> context_of t = tokens x"
    and set_law: "good x \<Longrightarrow> 0 \<le> n \<Longrightarrow> n \<le> int (length (tokens x)) \<Longrightarrow>
      \<exists>x' k. ApiSetCurrentStep api n x = (Ok, x') \<and> good x' \<and> tokens x' = take k (tokens x) \<and> nat n \<le> k \<and> at x' = n"
    and prefill_law: "good x \<Longrightarrow> GetTextTokenIdsPtr inputs = Inr ([1, int (length ids)], ids) \<Longrightarrow> ids \<noteq> [] \<Longrightarrow>
      \<exists>x'. ApiPrefill api inputs params x = Some (Ok, x') \<and> good x' \<and>
        take (nat (at x')) (tokens x') = take (nat (at x)) (tokens x) @ ids"
    and decode_law: "good x \<Longrightarrow> ApiDecode api x = Some (Inr out, x') \<Longrightarrow> good x' \<and>
      (\<exists>t. out = [t] \<and> take (nat (at x')) (tokens x') = take (nat (at x)) (tokens x) @ [t])"
    and clone_law: "good x \<Longrightarrow> \<exists>p c s. ApiCloneContext api x =
      Inr \<lparr>context_processed = Some p, context_config = Some c, context_state = Some s\<rparr> \<and>
      saved p = Some (tokens x) \<and> StateStep api s = at x"
    and restore_law: "good x \<Longrightarrow> saved p = Some ts \<Longrightarrow> 0 \<le> StateStep api s \<Longrightarrow> StateStep api s \<le> int (length ts) \<Longrightarrow>
      \<exists>x'. ApiRestoreContext api \<lparr>context_processed = Some p, context_config = Some c, context_state = Some s\<rparr> x =
        (Ok, x') \<and> good x' \<and> tokens x' = ts \<and> at x' = StateStep api s"
    and get_config_law: "good x \<Longrightarrow> \<exists>c. ApiGetRuntimeConfig api x = Inr c"
    and get_state_law: "good x \<Longrightarrow> \<exists>s. ApiGetRuntimeState api x = Inr s \<and> StateStep api s = at x"
    and update_config_law: "good x \<Longrightarrow>
      \<exists>x'. ApiUpdateRuntimeConfig api c x = (Ok, x') \<and> good x' \<and> tokens x' = tokens x \<and> at x' = at x"
    and update_state_law: "good x \<Longrightarrow> 0 \<le> StateStep api s \<Longrightarrow> StateStep api s \<le> int (length (tokens x)) \<Longrightarrow>
      \<exists>x'. ApiUpdateRuntimeState api s x = (Ok, x') \<and> good x' \<and> tokens x' = tokens x \<and> at x' = StateStep api s"
begin

abbreviation "okm \<equiv> manager_ok (StateStep api) saved good tokens"
abbreviation "viewm \<equiv> view (StateStep api) saved tokens at"
abbreviation "shared_tokens \<equiv> tokens_of_shared saved tokens"

end

section \<open>Matching and the longest handler\<close>

lemma matching_le: "matching xs ys \<le> length xs" "matching xs ys \<le> length ys"
  by (induction xs ys rule: matching.induct) auto

lemma take_matching: "take (matching xs ys) xs = take (matching xs ys) ys"
  by (induction xs ys rule: matching.induct) auto

lemma RemoveMatchingTokens_result:
  assumes "0 \<le> n" "n \<le> int (length ts)"
  shows "\<exists>k. RemoveMatchingTokens ts ids n = Inr (drop k ids, n + int k) \<and> n + int k \<le> int (length ts) \<and>
    k \<le> length ids \<and> take (nat (n + int k)) ts = take (nat n) ts @ take k ids"
proof -
  let ?n = "min (length ids) (length ts - nat n)"
  let ?k = "matching (take ?n ids) (drop (nat n) ts)"
  have le: "?k \<le> length ids" "?k \<le> length ts - nat n"
    using matching_le [of "take ?n ids" "drop (nat n) ts"] by auto
  have "?k \<le> ?n" using le by simp
  then have "take ?k (take ?n ids) = take ?k ids" by (simp only: take_take min.absorb1)
  then have "take ?k ids = take ?k (drop (nat n) ts)" using take_matching [of "take ?n ids" "drop (nat n) ts"] by simp
  then have "take (nat (n + int ?k)) ts = take (nat n) ts @ take ?k ids"
    using assms by (simp add: nat_add_distrib take_add)
  moreover have "n + int ?k \<le> int (length ts)" using le(2) assms by linarith
  moreover have "RemoveMatchingTokens ts ids n = Inr (drop ?k ids, n + int ?k)"
    using assms by (simp add: RemoveMatchingTokens_def Let_def)
  ultimately show ?thesis using le(1) by blast
qed

lemma differs_rest:
  assumes "differs ids (drop a ts)" "ids \<noteq> []" "drop a ts \<noteq> []"
    and "take (nat n) ts = take a ts @ take k ids" "k \<le> length ids"
  shows "k < length ids" "nat n < length ts"
proof -
  have "drop a (take (nat n) ts) = take k ids" using assms(3,4) by simp
  then have d: "take (nat n - a) (drop a ts) = take k ids" by (simp add: drop_take)
  show "k < length ids"
  proof (rule ccontr)
    assume "\<not> k < length ids"
    then have "take (nat n - a) (drop a ts) = ids" using d assms(5) by simp
    then show False using assms(1-3) take_is_prefix [of "nat n - a" "drop a ts"] by (simp add: differs_def)
  qed
  show "nat n < length ts"
  proof (rule ccontr)
    assume "\<not> nat n < length ts"
    then have "drop a ts = take k ids" using d by simp
    then show False using assms(1-3) take_is_prefix [of k ids] by (simp add: differs_def)
  qed
qed

lemma longest_step_result:
  assumes "\<And>i. i \<in> set hs \<Longrightarrow> \<exists>k. H i = Some k \<and> (runtime_config k \<noteq> None \<longrightarrow> runtime_state k \<noteq> None)"
  shows "\<exists>l. longest_step H f (Inr n) hs m = Some (Inr l) \<and> m \<le> l \<and>
    (\<forall>i \<in> set hs. \<forall>k s. H i = Some k \<longrightarrow> runtime_config k \<noteq> None \<longrightarrow> runtime_state k = Some s \<longrightarrow> f s \<le> l)"
  using assms
proof (induction hs arbitrary: m)
  case (Cons i hs)
  obtain k where k: "H i = Some k" "runtime_config k \<noteq> None \<Longrightarrow> runtime_state k \<noteq> None" using Cons.prems [of i] by auto
  define v where "v = (if runtime_config k = None then n else f (the (runtime_state k)))"
  obtain l where "longest_step H f (Inr n) hs (max m v) = Some (Inr l)" "max m v \<le> l"
    "\<forall>i \<in> set hs. \<forall>k s. H i = Some k \<longrightarrow> runtime_config k \<noteq> None \<longrightarrow> runtime_state k = Some s \<longrightarrow> f s \<le> l"
    using Cons.IH [of "max m v"] Cons.prems by (metis list.set_intros(2))
  then show ?case using k by (auto simp: v_def split: if_splits option.splits)
qed simp

section \<open>Methods of the manager on its parts\<close>

lemma on_store_some: "f (store m) = Some (r, st) \<Longrightarrow> on_store f m = Some (r, m\<lparr>store := st\<rparr>)"
  by (simp add: on_store_def)

lemma on_executor_some:
  "llm_executor_of m = Some x \<Longrightarrow> f x = Some (r, x') \<Longrightarrow> on_executor f m = Some (r, m\<lparr>llm_executor_of := Some x'\<rparr>)"
  by (simp add: on_executor_def)

lemma on_executor_defined:
  "llm_executor_of m = Some x \<Longrightarrow> f x = (r, x') \<Longrightarrow>
     on_executor (defined f) m = Some (r, m\<lparr>llm_executor_of := Some x'\<rparr>)"
  by (simp add: on_executor_def defined_def)

lemma read_executor_some: "llm_executor_of m = Some x \<Longrightarrow> read_executor f m = Some (f x, m)"
  by (simp add: read_executor_def on_executor_def)

lemma read_handler_some: "handler_at (store m) h = Some k \<Longrightarrow> read_handler h f m = Some (f k, m)"
  by (simp add: read_handler_def)

lemma on_handler_some:
  "handler_at (store m) h = Some k \<Longrightarrow> f k = (r, k') \<Longrightarrow> on_store (with_handler h f) m =
     Some (r, m\<lparr>store := (store m)\<lparr>handler_at := (handler_at (store m))(h \<mapsto> k')\<rparr>\<rparr>)"
  by (simp add: on_store_def with_handler_def)

lemma on_shared_some:
  "handler_at (store m) h = Some k \<Longrightarrow> shared_at (store m) (shared_of k) = Some y \<Longrightarrow> f y = (r, y') \<Longrightarrow>
   on_shared_of h f m = Some (r, m\<lparr>store := (store m)\<lparr>shared_at := (shared_at (store m))(shared_of k \<mapsto> y')\<rparr>\<rparr>)"
  by (simp add: on_shared_of_def bind_op_def read_handler_def on_store_def with_shared_def)

lemmas manager_run = on_store_some on_executor_some on_executor_defined read_executor_some read_handler_some
  on_handler_some on_shared_some

section \<open>Any executor that obeys the laws\<close>

lemma same_context_iff:
  "handler_at (store m) h = Some k \<Longrightarrow> same_context m i h \<longleftrightarrow>
     (\<exists>j. handler_at (store m) i = Some j \<and> shared_of j = shared_of k)"
  by (auto simp: same_context_def)

lemma take_of_longer:
  assumes "take a xs = take n ts @ ys" "n \<le> length ts" "s \<le> n"
  shows "take s xs = take s ts" "s \<le> length xs"
proof -
  have a: "length (take a xs) = n + length ys" using assms by simp
  then have "s \<le> a" "s \<le> length xs" using assms(3) by (simp_all add: min_def split: if_splits)
  then have "take s xs = take s (take a xs)" by (simp add: min_def)
  also have "\<dots> = take s ts" using assms by (simp add: min_def)
  finally show "take s xs = take s ts" .
  show "s \<le> length xs" by fact
qed

context context_executor
begin

lemma okmI:
  assumes "linked (store m)" "llm_executor_of m = Some x" "good x"
    and "\<And>h. current_handler m = Some h \<Longrightarrow> \<exists>k y. handler_at (store m) h = Some k \<and> runtime_config k = None \<and>
      runtime_state k = None \<and> shared_at (store m) (shared_of k) = Some y \<and> processed_context y = None"
    and "\<And>i k. handler_at (store m) i = Some k \<Longrightarrow> current_handler m \<noteq> Some i \<Longrightarrow>
      \<exists>c s ts. runtime_config k = Some c \<and> runtime_state k = Some s \<and>
        shared_tokens m (shared_of k) = Some ts \<and> 0 \<le> StateStep api s \<and> StateStep api s \<le> int (length ts)"
  shows "okm m"
  using assms unfolding manager_ok_def by blast

lemma okm_executor:
  assumes "okm m"
  obtains x where "llm_executor_of m = Some x" "good x" "linked (store m)"
  using assms by (auto simp: manager_ok_def)

lemma okm_current:
  assumes "okm m" "current_handler m = Some h"
  obtains k y where "handler_at (store m) h = Some k" "runtime_config k = None" "runtime_state k = None"
    "shared_at (store m) (shared_of k) = Some y" "processed_context y = None"
    "shared_tokens m (shared_of k) = map_option tokens (llm_executor_of m)"
  using assms unfolding manager_ok_def tokens_of_shared_def by auto

lemma okm_waiting:
  assumes "okm m" "handler_at (store m) i = Some k" "current_handler m \<noteq> Some i"
  obtains c s ts where "runtime_config k = Some c" "runtime_state k = Some s"
    "shared_tokens m (shared_of k) = Some ts" "0 \<le> StateStep api s" "StateStep api s \<le> int (length ts)"
    "viewm m i = Some (take (nat (StateStep api s)) ts)"
proof -
  obtain c s ts where w: "runtime_config k = Some c" "runtime_state k = Some s"
    "shared_tokens m (shared_of k) = Some ts" "0 \<le> StateStep api s" "StateStep api s \<le> int (length ts)"
    using assms unfolding manager_ok_def by blast
  moreover have "viewm m i = Some (take (nat (StateStep api s)) ts)"
    using w assms by (simp add: view_def step_of_handler_def)
  ultimately show thesis using that by blast
qed

lemma view_current:
  assumes "okm m" "current_handler m = Some h" "llm_executor_of m = Some x"
  shows "viewm m h = Some (take (nat (at x)) (tokens x))"
proof -
  obtain k where k: "handler_at (store m) h = Some k"
    "shared_tokens m (shared_of k) = map_option tokens (llm_executor_of m)"
    using okm_current [OF assms(1,2)] by blast
  then show ?thesis using assms(2,3) by (simp add: view_def step_of_handler_def)
qed

lemma shared_irrelevant [simp]:
  "tokens_of_shared sv tk (m\<lparr>executor_locked := b\<rparr>) a = tokens_of_shared sv tk m a"
  "tokens_of_shared sv tk (m\<lparr>lora_hash_to_id := l\<rparr>) a = tokens_of_shared sv tk m a"
  by (auto simp: tokens_of_shared_def)

lemma step_irrelevant [simp]:
  "step_of_handler so at' (m\<lparr>executor_locked := b\<rparr>) i = step_of_handler so at' m i"
  "step_of_handler so at' (m\<lparr>lora_hash_to_id := l\<rparr>) i = step_of_handler so at' m i"
  by (auto simp: step_of_handler_def)

lemma lock_irrelevant [simp]:
  "okm (m\<lparr>executor_locked := b\<rparr>) = okm m" "viewm (m\<lparr>executor_locked := b\<rparr>) = viewm m"
  "okm (m\<lparr>lora_hash_to_id := l\<rparr>) = okm m" "viewm (m\<lparr>lora_hash_to_id := l\<rparr>) = viewm m"
  by (simp_all add: manager_ok_def view_def fun_eq_iff)

text \<open>A change of the tokens in the executor that keeps what the handlers that share them own.\<close>

lemma executor_changed:
  assumes "okm m" "current_handler m = Some h" "llm_executor_of m = Some x" "good x'"
    and keep: "\<And>i k s. i \<noteq> h \<Longrightarrow> handler_at (store m) i = Some k \<Longrightarrow> same_context m i h \<Longrightarrow>
      runtime_state k = Some s \<Longrightarrow> 0 \<le> StateStep api s \<Longrightarrow> StateStep api s \<le> int (length (tokens x)) \<Longrightarrow>
      take (nat (StateStep api s)) (tokens x') = take (nat (StateStep api s)) (tokens x) \<and>
      StateStep api s \<le> int (length (tokens x'))"
  shows "okm (m\<lparr>llm_executor_of := Some x'\<rparr>) \<and>
    viewm (m\<lparr>llm_executor_of := Some x'\<rparr>) h = Some (take (nat (at x')) (tokens x')) \<and>
    (\<forall>i. i \<noteq> h \<longrightarrow> viewm (m\<lparr>llm_executor_of := Some x'\<rparr>) i = viewm m i)"
proof -
  let ?m = "m\<lparr>llm_executor_of := Some x'\<rparr>"
  obtain k0 y where k0: "handler_at (store m) h = Some k0" "runtime_config k0 = None" "runtime_state k0 = None"
    "shared_at (store m) (shared_of k0) = Some y" "processed_context y = None"
    using okm_current [OF assms(1,2)] by blast
  have sh: "shared_tokens ?m a = (if a = shared_of k0 then Some (tokens x') else shared_tokens m a)" for a
    using assms(2) k0(1) by (auto simp: tokens_of_shared_def)
  have sm: "shared_tokens m (shared_of k0) = Some (tokens x)"
    using assms(2,3) k0(1) by (auto simp: tokens_of_shared_def)
  have waiting: "\<exists>c s ts. runtime_config k = Some c \<and> runtime_state k = Some s \<and>
      shared_tokens ?m (shared_of k) = Some ts \<and> 0 \<le> StateStep api s \<and> StateStep api s \<le> int (length ts) \<and>
      viewm m i = Some (take (nat (StateStep api s)) ts)"
    if i: "handler_at (store m) i = Some k" "i \<noteq> h" for i k
  proof -
    have ni: "current_handler m \<noteq> Some i" using i(2) assms(2) by simp
    obtain c s ts where w: "runtime_config k = Some c" "runtime_state k = Some s"
      "shared_tokens m (shared_of k) = Some ts" "0 \<le> StateStep api s" "StateStep api s \<le> int (length ts)"
      "viewm m i = Some (take (nat (StateStep api s)) ts)"
      using okm_waiting [OF assms(1) i(1) ni] by blast
    show ?thesis
    proof (cases "shared_of k = shared_of k0")
      case True
      then have "same_context m i h" using i(1) k0(1) by (simp add: same_context_def)
      then show ?thesis using keep [OF i(2,1) _ w(2,4)] w True sm sh by auto
    next
      case False
      then show ?thesis using w sh by auto
    qed
  qed
  have "okm ?m"
  proof (rule okmI)
    show "linked (store ?m)" using assms(1) by (simp add: manager_ok_def)
    show "llm_executor_of ?m = Some x'" by simp
    show "\<exists>k y. handler_at (store ?m) i = Some k \<and> runtime_config k = None \<and>
        runtime_state k = None \<and> shared_at (store ?m) (shared_of k) = Some y \<and> processed_context y = None"
      if "current_handler ?m = Some i" for i
      using k0 assms(2) that by simp
    show "\<exists>c s ts. runtime_config k = Some c \<and> runtime_state k = Some s \<and>
        shared_tokens ?m (shared_of k) = Some ts \<and> 0 \<le> StateStep api s \<and> StateStep api s \<le> int (length ts)"
      if "handler_at (store ?m) i = Some k" "current_handler ?m \<noteq> Some i" for i k
      using waiting [of i k] that assms(2) by auto
  qed (use assms in simp)
  moreover have "viewm ?m h = Some (take (nat (at x')) (tokens x'))"
    using k0(1) sh assms(2) by (simp add: view_def step_of_handler_def)
  moreover have "viewm ?m i = viewm m i" if "i \<noteq> h" for i
  proof (cases "handler_at (store m) i")
    case (Some k)
    then show ?thesis using waiting [OF Some that] that assms(2)
      by (auto simp: view_def [of _ _ _ _ ?m] step_of_handler_def)
  qed (simp add: view_def)
  ultimately show ?thesis by blast
qed

end

lemma on_shared_read:
  assumes "handler_at (store m) h = Some k" "shared_at (store m) (shared_of k) = Some y"
  shows "on_shared_of h (\<lambda>x. (Inr (g x), x)) m = Some (Inr (g y), m)"
proof -
  have "(shared_at (store m))(shared_of k \<mapsto> y) = shared_at (store m)" using assms(2) by (rule fun_upd_idem)
  then show ?thesis using on_shared_some [OF assms, of "\<lambda>x. (Inr (g x), x)"] by simp
qed

context context_executor
begin

text \<open>Saving the processed context for the others changes nothing that a handler stands for.\<close>

lemma save_result:
  assumes "okm m" "current_handler m = Some h"
  shows "\<exists>m'. SaveProcessedContext api h m = Some (Ok, m') \<and> okm m' \<and> viewm m' = viewm m \<and>
    current_handler m' = Some h \<and> llm_executor_of m' = llm_executor_of m \<and> executor_locked m' = executor_locked m \<and>
    (\<forall>i. i \<noteq> h \<longrightarrow> \<not> same_context m' i h)"
proof -
  obtain x where x: "llm_executor_of m = Some x" "good x" "linked (store m)" using okm_executor [OF assms(1)] by blast
  obtain k y where k: "handler_at (store m) h = Some k" "runtime_config k = None" "runtime_state k = None"
    "shared_at (store m) (shared_of k) = Some y" "processed_context y = None"
    using okm_current [OF assms] by blast
  obtain p c s where c: "ApiCloneContext api x =
      Inr \<lparr>context_processed = Some p, context_config = Some c, context_state = Some s\<rparr>"
    "saved p = Some (tokens x)" "StateStep api s = at x"
    using clone_law [OF x(2)] by blast
  let ?y = "y\<lparr>processed_context := Some p\<rparr>"
  let ?s1 = "(store m)\<lparr>shared_at := (shared_at (store m))(shared_of k \<mapsto> ?y)\<rparr>"
  have l1: "linked ?s1" using x(3) k by (intro linked_fields [OF x(3)]) auto
  let ?n = "next_shared (store m)"
  let ?new = "\<lparr>handlers_of = [], processed_context = None\<rparr>"
  obtain s2 where s2: "NewSharedProcessedContext None ?s1 = Some (Inr ?n, s2)" "linked s2"
    "shared_at s2 = (shared_at (store m))(shared_of k \<mapsto> ?y, ?n \<mapsto> ?new)" "handler_at s2 = handler_at (store m)"
    using linked_New [OF l1, of None] by auto
  have fresh: "shared_at (store m) ?n = None" using linked_fresh [OF x(3)] by simp
  then have kn: "shared_of k \<noteq> ?n" using k by auto
  obtain s3 where s3: "UpdateSharedProcessedContext ?n h s2 = Some (Ok, s3)" "linked s3"
    "handler_at s3 = (handler_at (store m))(h \<mapsto> k\<lparr>shared_of := ?n\<rparr>)"
    "shared_at s3 = (shared_at s2)(shared_of k \<mapsto> ?y\<lparr>handlers_of := filter (\<lambda>i. i \<noteq> h) (handlers_of y)\<rparr>,
      ?n \<mapsto> ?new\<lparr>handlers_of := [h]\<rparr>)"
    using UpdateShared_result [OF s2(2), of h k ?n ?new] s2(3,4) k(1) kn by auto
  let ?m = "m\<lparr>store := s3\<rparr>"
  have run: "SaveProcessedContext api h m = Some (Ok, ?m)"
    using k x(1) c(1) s2(1) s3(1) on_shared_read [OF k(1,4), of HasProcessedContext]
    by (simp add: SaveProcessedContext_def bind_op_def read_handler_some read_executor_some HasRuntimeConfig_def
        HasRuntimeState_def HasProcessedContext_def on_shared_some SetProcessedContext_def on_store_some)
  have sh: "shared_tokens ?m b = shared_tokens m b" if "b \<noteq> ?n" for b
    using that k x(1) c(2) assms(2) s3(3,4) s2(3) by (auto simp: tokens_of_shared_def)
  have shn: "shared_tokens ?m ?n = Some (tokens x)" "shared_tokens m (shared_of k) = Some (tokens x)"
    using k(1) x(1) assms(2) s3(3) by (auto simp: tokens_of_shared_def)
  have other: "shared_of j \<noteq> ?n" if "handler_at (store m) i = Some j" for i j
    using linked_handler_ex [OF x(3) that] fresh by auto
  have "okm ?m"
  proof (rule okmI)
    show "\<exists>k y. handler_at (store ?m) i = Some k \<and> runtime_config k = None \<and>
        runtime_state k = None \<and> shared_at (store ?m) (shared_of k) = Some y \<and> processed_context y = None"
      if "current_handler ?m = Some i" for i
      using k assms(2) that s3(3,4) by simp
    show "\<exists>c s ts. runtime_config j = Some c \<and> runtime_state j = Some s \<and>
        shared_tokens ?m (shared_of j) = Some ts \<and> 0 \<le> StateStep api s \<and> StateStep api s \<le> int (length ts)"
      if i: "handler_at (store ?m) i = Some j" "current_handler ?m \<noteq> Some i" for i j
    proof -
      have j: "handler_at (store m) i = Some j" "current_handler m \<noteq> Some i" using i s3(3) assms(2) by auto
      show ?thesis using okm_waiting [OF assms(1) j] sh [OF other [OF j(1)]] by metis
    qed
  qed (use x s3 in simp_all)
  moreover have "viewm ?m i = viewm m i" for i
  proof (cases "i = h")
    case True
    then show ?thesis using shn s3(3) k(1) assms(2) by (simp add: view_def step_of_handler_def)
  next
    case False
    then show ?thesis using s3(3) sh other assms(2)
      by (cases "handler_at (store m) i") (auto simp: view_def step_of_handler_def)
  qed
  moreover have "\<not> same_context ?m i h" if "i \<noteq> h" for i
    using that s3(3) other by (cases "handler_at (store m) i") (auto simp: same_context_def)
  ultimately show ?thesis using run assms(2) by (intro exI [of _ ?m]) auto
qed

end

context context_executor
begin

lemma longest_result:
  assumes "okm m" "current_handler m = Some h"
  shows "\<exists>l. longest_of api h m = Some (Inr l, m) \<and>
    (\<forall>i k s. i \<noteq> h \<longrightarrow> handler_at (store m) i = Some k \<longrightarrow> same_context m i h \<longrightarrow>
       runtime_state k = Some s \<longrightarrow> StateStep api s \<le> l)"
proof -
  obtain x where x: "llm_executor_of m = Some x" "good x" "linked (store m)" using okm_executor [OF assms(1)] by blast
  obtain k y where k: "handler_at (store m) h = Some k" "runtime_config k = None"
    "shared_at (store m) (shared_of k) = Some y"
    using okm_current [OF assms] by blast
  have mem: "\<exists>j. handler_at (store m) i = Some j \<and> (runtime_config j \<noteq> None \<longrightarrow> runtime_state j \<noteq> None)"
    if i: "i \<in> set (handlers_of y)" for i
  proof -
    obtain j where j: "handler_at (store m) i = Some j" using linked_member [OF x(3) k(3) i] by blast
    show ?thesis
    proof (cases "i = h")
      case True
      then show ?thesis using k by simp
    next
      case False
      then have "current_handler m \<noteq> Some i" using assms(2) by simp
      then show ?thesis using okm_waiting [OF assms(1) j] j by (metis option.distinct(1))
    qed
  qed
  obtain l where l: "longest_step (handler_at (store m)) (StateStep api) (Inr (at x)) (handlers_of y) 0 = Some (Inr l)"
    "\<forall>i \<in> set (handlers_of y). \<forall>k s. handler_at (store m) i = Some k \<longrightarrow> runtime_config k \<noteq> None \<longrightarrow>
       runtime_state k = Some s \<longrightarrow> StateStep api s \<le> l"
    using longest_step_result [of "handlers_of y" "handler_at (store m)" "StateStep api" "at x" 0] mem by blast
  have "longest_of api h m = Some (Inr l, m)"
    using x step_law [OF x(2)] k l(1)
    by (simp add: longest_of_def bind_op_def read_handler_some LongestHandlerTimeStep_def)
  moreover have "StateStep api s \<le> l" if i: "i \<noteq> h" "handler_at (store m) i = Some j" "same_context m i h"
    "runtime_state j = Some s" for i j s
  proof -
    have "shared_of j = shared_of k" using i(2,3) k(1) by (simp add: same_context_def)
    then have "i \<in> set (handlers_of y)" using linked_iff_member [OF x(3) k(3)] i(2) by blast
    moreover have "runtime_config j \<noteq> None" using okm_waiting [OF assms(1) i(2)] i(1) assms(2) by (metis option.distinct(1) option.inject)
    ultimately show ?thesis using l(2) i by blast
  qed
  ultimately show ?thesis by blast
qed

lemma separate_result:
  assumes "okm m" "current_handler m = Some h" "llm_executor_of m = Some x" "0 \<le> n" "n \<le> int (length (tokens x))"
  shows "\<exists>m' x'. separate_and_set api h n m = Some (Ok, m') \<and> okm m' \<and> current_handler m' = Some h \<and>
    llm_executor_of m' = Some x' \<and> good x' \<and> at x' = n \<and>
    take (nat n) (tokens x') = take (nat n) (tokens x) \<and>
    executor_locked m' = executor_locked m \<and> (\<forall>i. i \<noteq> h \<longrightarrow> viewm m' i = viewm m i) \<and>
    (\<forall>i k s. i \<noteq> h \<longrightarrow> handler_at (store m') i = Some k \<longrightarrow> same_context m' i h \<longrightarrow>
       runtime_state k = Some s \<longrightarrow> StateStep api s \<le> n)"
proof -
  have gx: "good x" using okm_executor [OF assms(1)] assms(3) by (metis option.inject)
  obtain x' k where x': "ApiSetCurrentStep api n x = (Ok, x')" "good x'" "tokens x' = take k (tokens x)"
    "nat n \<le> k" "at x' = n"
    using set_law [OF gx assms(4,5)] by blast
  obtain l where l: "longest_of api h m = Some (Inr l, m)"
    "\<forall>i k s. i \<noteq> h \<longrightarrow> handler_at (store m) i = Some k \<longrightarrow> same_context m i h \<longrightarrow>
       runtime_state k = Some s \<longrightarrow> StateStep api s \<le> l"
    using longest_result [OF assms(1,2)] by blast
  obtain m1 where m1: "(if l \<noteq> n then SaveProcessedContext api h m else Some (Ok, m)) = Some (Ok, m1)" "okm m1"
    "viewm m1 = viewm m" "current_handler m1 = Some h" "llm_executor_of m1 = Some x"
    "executor_locked m1 = executor_locked m"
    "\<forall>i k s. i \<noteq> h \<longrightarrow> handler_at (store m1) i = Some k \<longrightarrow> same_context m1 i h \<longrightarrow>
       runtime_state k = Some s \<longrightarrow> StateStep api s \<le> n"
  proof (cases "l = n")
    case True
    then show ?thesis using that [of m] assms l by simp
  next
    case False
    then show ?thesis using save_result [OF assms(1,2)] that assms(3) by (metis (no_types))
  qed
  let ?m = "m1\<lparr>llm_executor_of := Some x'\<rparr>"
  have "separate_and_set api h n m = Some (Ok, ?m)"
    using l(1) m1(1,5) x'(1) by (cases "l = n") (simp_all add: separate_and_set_def bind_op_def on_executor_defined)
  moreover have "okm ?m \<and> (\<forall>i. i \<noteq> h \<longrightarrow> viewm ?m i = viewm m1 i)"
  proof -
    have "take (nat (StateStep api s)) (tokens x') = take (nat (StateStep api s)) (tokens x) \<and>
        StateStep api s \<le> int (length (tokens x'))"
      if "i \<noteq> h" "handler_at (store m1) i = Some j" "same_context m1 i h" "runtime_state j = Some s"
        "StateStep api s \<le> int (length (tokens x))" for i j s
    proof -
      have "StateStep api s \<le> n" using m1(7) that(1-4) by blast
      then have "nat (StateStep api s) \<le> k" using x'(4) by linarith
      then show ?thesis using x'(3) that(5) by (simp add: min_absorb1 min_def nat_le_iff)
    qed
    then show ?thesis using executor_changed [OF m1(2,4,5) x'(2)] by blast
  qed
  moreover have "take (nat n) (tokens x') = take (nat n) (tokens x)" using x'(3,4) by (simp add: min_absorb1)
  ultimately show ?thesis using m1 x'(2,5)
    by (intro exI [of _ ?m] exI [of _ x']) (simp add: same_context_def)
qed

text \<open>A prefill or a decode from step \<open>n\<close>, when nobody who shares the tokens owns more than \<open>n\<close>.\<close>

lemma run_from:
  assumes "okm m" "current_handler m = Some h" "llm_executor_of m = Some x" "good x'"
    and "0 \<le> n" "n \<le> int (length (tokens x))" "take (nat (at x')) (tokens x') = take (nat n) (tokens x) @ ids"
    and le: "\<And>i k s. i \<noteq> h \<Longrightarrow> handler_at (store m) i = Some k \<Longrightarrow> same_context m i h \<Longrightarrow>
      runtime_state k = Some s \<Longrightarrow> StateStep api s \<le> int (length (tokens x)) \<Longrightarrow> StateStep api s \<le> n"
  shows "okm (m\<lparr>llm_executor_of := Some x'\<rparr>) \<and>
    viewm (m\<lparr>llm_executor_of := Some x'\<rparr>) h = Some (take (nat n) (tokens x) @ ids) \<and>
    (\<forall>i. i \<noteq> h \<longrightarrow> viewm (m\<lparr>llm_executor_of := Some x'\<rparr>) i = viewm m i)"
proof -
  have keep: "take (nat (StateStep api s)) (tokens x') = take (nat (StateStep api s)) (tokens x) \<and>
      StateStep api s \<le> int (length (tokens x'))"
    if "i \<noteq> h" "handler_at (store m) i = Some k" "same_context m i h" "runtime_state k = Some s"
      "0 \<le> StateStep api s" "StateStep api s \<le> int (length (tokens x))" for i k s
  proof -
    have "nat n \<le> length (tokens x)" "nat (StateStep api s) \<le> nat n" using assms(6) le [OF that(1-4,6)] by auto
    from take_of_longer [OF assms(7) this] show ?thesis using that(5) by (simp add: nat_le_iff)
  qed
  have "okm (m\<lparr>llm_executor_of := Some x'\<rparr>) \<and>
    viewm (m\<lparr>llm_executor_of := Some x'\<rparr>) h = Some (take (nat (at x')) (tokens x')) \<and>
    (\<forall>i. i \<noteq> h \<longrightarrow> viewm (m\<lparr>llm_executor_of := Some x'\<rparr>) i = viewm m i)"
    by (rule executor_changed [OF assms(1-4)]) (use keep in blast)
  then show ?thesis using assms(7) by simp
qed

end

lemma text_inputs [simp]:
  "GetTextTokenIdsPtr (ExecutorInputs (Some (ExecutorTextData ids)) v a) = Inr ids"
  by (simp add: GetTextTokenIdsPtr_def ExecutorInputs_def ExecutorTextData_def GetTokenIds_def)

lemma params_step [simp]: "ParamsGetCurrentStep (ParamsSetCurrentStep n params) = n"
  by (simp add: ParamsGetCurrentStep_def ParamsSetCurrentStep_def)

context context_executor
begin

lemma tokens_of_executor:
  assumes "good x"
  obtains pt where "ApiGetProcessedTokens api x = Inr pt" "TokenCount pt = int (length (tokens x))"
    "GetCopyOfTokens pt = [tokens x]"
  using tokens_law [OF assms] by (metis TokenCount_single GetCopyOfTokens_alt list.simps(8,9))

lemma prefill_at:
  assumes "okm m" "current_handler m = Some h" "llm_executor_of m = Some x"
    and "ids \<noteq> []" "GetTextTokenIdsPtr inputs = Inr ([1, int (length ids)], ids)"
    and "\<And>i k s. i \<noteq> h \<Longrightarrow> handler_at (store m) i = Some k \<Longrightarrow> same_context m i h \<Longrightarrow>
      runtime_state k = Some s \<Longrightarrow> StateStep api s \<le> int (length (tokens x)) \<Longrightarrow> StateStep api s \<le> at x"
  shows "\<exists>m'. on_executor (ApiPrefill api inputs params) m = Some (Ok, m') \<and> okm m' \<and>
    current_handler m' = Some h \<and> executor_locked m' = executor_locked m \<and>
    viewm m' h = Some (take (nat (at x)) (tokens x) @ ids) \<and> (\<forall>i. i \<noteq> h \<longrightarrow> viewm m' i = viewm m i)"
proof -
  have gx: "good x" using okm_executor [OF assms(1)] assms(3) by (metis option.inject)
  have at: "0 \<le> at x" "at x \<le> int (length (tokens x))" using step_law [OF gx] by auto
  obtain x' where x': "ApiPrefill api inputs params x = Some (Ok, x')" "good x'"
    "take (nat (at x')) (tokens x') = take (nat (at x)) (tokens x) @ ids"
    using prefill_law [OF gx assms(5,4)] by blast
  have "okm (m\<lparr>llm_executor_of := Some x'\<rparr>) \<and>
    viewm (m\<lparr>llm_executor_of := Some x'\<rparr>) h = Some (take (nat (at x)) (tokens x) @ ids) \<and>
    (\<forall>i. i \<noteq> h \<longrightarrow> viewm (m\<lparr>llm_executor_of := Some x'\<rparr>) i = viewm m i)"
    by (rule run_from [OF assms(1-3) x'(2) at x'(3)]) (use assms(6) in blast)
  then show ?thesis using on_executor_some [of m x "ApiPrefill api inputs params", OF assms(3) x'(1)] assms(2) by simp
qed

lemma LockedPrefill_result:
  assumes "okm m" "current_handler m = Some h" "llm_executor_of m = Some x"
    and "GetTextTokenIdsPtr inputs = Inr ([1, int (length ids)], ids)" "ids \<noteq> []"
    and params: "ParamsGetCurrentStep params = -1"
    and clear: "differs ids (drop (nat (at x)) (tokens x))"
  shows "\<exists>m'. LockedPrefill api (Some h) inputs params m = Some (Ok, m') \<and> okm m' \<and>
    current_handler m' = Some h \<and> executor_locked m' = executor_locked m \<and>
    viewm m' h = Some (take (nat (at x)) (tokens x) @ ids) \<and> (\<forall>i. i \<noteq> h \<longrightarrow> viewm m' i = viewm m i)"
proof -
  have gx: "good x" using okm_executor [OF assms(1)] assms(3) by (metis option.inject)
  have at: "0 \<le> at x" "at x \<le> int (length (tokens x))" using step_law [OF gx] by auto
  obtain pt where pt: "ApiGetProcessedTokens api x = Inr pt" "TokenCount pt = int (length (tokens x))"
    "GetCopyOfTokens pt = [tokens x]"
    using tokens_of_executor [OF gx] by blast
  obtain k where k: "RemoveMatchingTokens (tokens x) ids (at x) = Inr (drop k ids, at x + int k)"
    "at x + int k \<le> int (length (tokens x))" "k \<le> length ids"
    "take (nat (at x + int k)) (tokens x) = take (nat (at x)) (tokens x) @ take k ids"
    using RemoveMatchingTokens_result [OF at] by blast
  let ?inputs = "ExecutorInputs (Some (ExecutorTextData ([1, int (length (drop k ids))], drop k ids))) None None"
  let ?params = "ParamsSetCurrentStep (at x + int k) params"
  let ?tail = "if TokenCount pt = at x + int k then on_executor (ApiPrefill api ?inputs ?params) m
    else bind_op (separate_and_set api h (at x + int k)) (\<lambda>_. on_executor (ApiPrefill api ?inputs ?params)) m"
  have run: "LockedPrefill api (Some h) inputs params m =
    (if TokenCount pt = at x then on_executor (ApiPrefill api inputs params) m
     else if drop k ids = [] then on_executor (defined (ApiSetCurrentStep api (at x + int k))) m else ?tail)"
    using assms(3-5) step_law [OF gx] pt(1,3) k(1)
    by (simp add: LockedPrefill_def bind_op_def read_executor_some Let_def params cong: if_cong split del: if_split del: length_drop drop_eq_Nil)
  show ?thesis
  proof (cases "TokenCount pt = at x")
    case True
    then show ?thesis using prefill_at [OF assms(1-3,5,4)] pt(2) run by simp
  next
    case False
    then have rest: "drop (nat (at x)) (tokens x) \<noteq> []" using at pt(2) by simp
    have rem: "drop k ids \<noteq> []" "at x + int k < int (length (tokens x))"
      using differs_rest [OF clear assms(5) rest k(4,3)] k(2) at(1) by (auto simp: nat_add_distrib)
    have pos: "0 \<le> at x + int k" using at(1) by simp
    obtain m1 x1 where m1: "separate_and_set api h (at x + int k) m = Some (Ok, m1)" "okm m1" "current_handler m1 = Some h"
      "llm_executor_of m1 = Some x1" "good x1" "at x1 = at x + int k"
      "take (nat (at x + int k)) (tokens x1) = take (nat (at x + int k)) (tokens x)"
      "executor_locked m1 = executor_locked m" "\<forall>i. i \<noteq> h \<longrightarrow> viewm m1 i = viewm m i"
      "\<forall>i j s. i \<noteq> h \<longrightarrow> handler_at (store m1) i = Some j \<longrightarrow> same_context m1 i h \<longrightarrow>
         runtime_state j = Some s \<longrightarrow> StateStep api s \<le> at x + int k"
      using separate_result [OF assms(1-3) pos k(2)] by blast
    have "\<exists>m'. on_executor (ApiPrefill api ?inputs ?params) m1 = Some (Ok, m') \<and> okm m' \<and>
      current_handler m' = Some h \<and> executor_locked m' = executor_locked m1 \<and>
      viewm m' h = Some (take (nat (at x1)) (tokens x1) @ drop k ids) \<and> (\<forall>i. i \<noteq> h \<longrightarrow> viewm m' i = viewm m1 i)"
      by (rule prefill_at [OF m1(2-4) rem(1)]) (use m1(6,10) in simp_all)
    then show ?thesis using run False rem k(4) m1 pt(2) by (simp add: bind_op_def)
  qed
qed

lemma LockedDecode_result:
  assumes "okm m" "current_handler m = Some h" "llm_executor_of m = Some x"
    and "LockedDecode api (Some h) m = Some (Inr out, m')"
  shows "\<exists>t. out = [t] \<and> okm m' \<and> current_handler m' = Some h \<and> executor_locked m' = executor_locked m \<and>
    viewm m' h = map_option (\<lambda>ts. ts @ [t]) (viewm m h) \<and> (\<forall>i. i \<noteq> h \<longrightarrow> viewm m' i = viewm m i)"
proof -
  have gx: "good x" using okm_executor [OF assms(1)] assms(3) by (metis option.inject)
  note v = view_current [OF assms(1-3)]
  have at: "0 \<le> at x" "at x \<le> int (length (tokens x))" "ApiGetCurrentStep api x = Inr (at x)" using step_law [OF gx] by auto
  obtain pt where pt: "ApiGetProcessedTokens api x = Inr pt" "TokenCount pt = int (length (tokens x))"
    using tokens_of_executor [OF gx] by blast
  obtain m1 x1 where m1: "okm m1" "current_handler m1 = Some h" "llm_executor_of m1 = Some x1" "good x1"
    "take (nat (at x)) (tokens x1) = take (nat (at x)) (tokens x)" "at x1 = at x"
    "executor_locked m1 = executor_locked m" "\<forall>i. i \<noteq> h \<longrightarrow> viewm m1 i = viewm m i"
    "\<forall>i j s. i \<noteq> h \<longrightarrow> handler_at (store m1) i = Some j \<longrightarrow> same_context m1 i h \<longrightarrow>
       runtime_state j = Some s \<longrightarrow> StateStep api s \<le> int (length (tokens x1)) \<longrightarrow> StateStep api s \<le> at x"
    "on_executor (ApiDecode api) m1 = Some (Inr out, m')"
  proof (cases "TokenCount pt = at x")
    case True
    then show ?thesis using that [of m x] assms at pt gx by (simp add: LockedDecode_def bind_op_def read_executor_some)
  next
    case False
    obtain m1 x1 where m1: "separate_and_set api h (at x) m = Some (Ok, m1)" "okm m1" "current_handler m1 = Some h"
      "llm_executor_of m1 = Some x1" "good x1" "at x1 = at x"
      "take (nat (at x)) (tokens x1) = take (nat (at x)) (tokens x)" "executor_locked m1 = executor_locked m" "\<forall>i. i \<noteq> h \<longrightarrow> viewm m1 i = viewm m i"
      "\<forall>i j s. i \<noteq> h \<longrightarrow> handler_at (store m1) i = Some j \<longrightarrow> same_context m1 i h \<longrightarrow>
         runtime_state j = Some s \<longrightarrow> StateStep api s \<le> at x"
      using separate_result [OF assms(1-3) at(1,2)] by blast
    then show ?thesis using that [of m1 x1] False assms(3,4) at(3) pt(1)
      by (simp add: LockedDecode_def bind_op_def read_executor_some)
  qed
  obtain x' where x': "ApiDecode api x1 = Some (Inr out, x')" "m' = m1\<lparr>llm_executor_of := Some x'\<rparr>"
    using m1(3,10) by (auto simp: on_executor_def)
  obtain t where t: "out = [t]" "good x'" "take (nat (at x')) (tokens x') = take (nat (at x)) (tokens x1) @ [t]"
    using decode_law [OF m1(4) x'(1)] m1(6) by auto
  have "okm m' \<and> viewm m' h = Some (take (nat (at x)) (tokens x1) @ [t]) \<and> (\<forall>i. i \<noteq> h \<longrightarrow> viewm m' i = viewm m1 i)"
    unfolding x'(2) by (rule run_from [OF m1(1-3) t(2) at(1) _ t(3)]) (use m1(6,9) step_law [OF m1(4)] in auto)
  then show ?thesis using t(1) m1 v x'(2) by simp
qed

end

context context_executor
begin

lemma save_current_result:
  assumes "okm m" "current_handler m = Some cur"
  shows "\<exists>m1. save_current api cur m = Some (Ok, m1) \<and> okm (m1\<lparr>current_handler := None\<rparr>) \<and>
    viewm (m1\<lparr>current_handler := None\<rparr>) = viewm m \<and> executor_locked m1 = executor_locked m \<and>
    (\<forall>i. handler_at (store m) i \<noteq> None \<longrightarrow> handler_at (store m1) i \<noteq> None)"
proof -
  obtain x where x: "llm_executor_of m = Some x" "good x" "linked (store m)" using okm_executor [OF assms(1)] by blast
  obtain k y where k: "handler_at (store m) cur = Some k" "runtime_config k = None" "runtime_state k = None"
    "shared_at (store m) (shared_of k) = Some y" "processed_context y = None"
    "shared_tokens m (shared_of k) = map_option tokens (llm_executor_of m)"
    using okm_current [OF assms] by blast
  obtain p c s where c: "ApiCloneContext api x =
      Inr \<lparr>context_processed = Some p, context_config = Some c, context_state = Some s\<rparr>"
    "saved p = Some (tokens x)" "StateStep api s = at x"
    using clone_law [OF x(2)] by blast
  let ?k = "k\<lparr>runtime_config := Some c, runtime_state := Some s\<rparr>"
  let ?st = "(store m)\<lparr>handler_at := (handler_at (store m))(cur \<mapsto> ?k),
    shared_at := (shared_at (store m))(shared_of k \<mapsto> y\<lparr>processed_context := Some p\<rparr>)\<rparr>"
  let ?m = "m\<lparr>store := ?st\<rparr>"
  let ?n = "?m\<lparr>current_handler := None\<rparr>"
  have run: "save_current api cur m = Some (Ok, ?m)"
    using k x(1) c(1)
    by (simp add: save_current_def bind_op_def read_executor_some on_store_def with_handler_def SetRuntimeConfig_def
        SetRuntimeState_def on_shared_of_def read_handler_some with_shared_def SetProcessedContext_def
        HasProcessedContext_def)
  have sh: "shared_tokens ?n a = shared_tokens m a" for a
    using k x(1) c(2) assms(2) by (auto simp: tokens_of_shared_def)
  have at: "0 \<le> at x" "at x \<le> int (length (tokens x))" using step_law [OF x(2)] by auto
  have "okm ?n"
  proof (rule okmI)
    show "linked (store ?n)" using x(3) k by (intro linked_fields [OF x(3)]) auto
    show "\<exists>c s ts. runtime_config j = Some c \<and> runtime_state j = Some s \<and>
        shared_tokens ?n (shared_of j) = Some ts \<and> 0 \<le> StateStep api s \<and> StateStep api s \<le> int (length ts)"
      if i: "handler_at (store ?n) i = Some j" for i j
    proof (cases "i = cur")
      case True
      then have "j = ?k" using i by simp
      moreover have "shared_tokens ?n (shared_of ?k) = Some (tokens x)" unfolding sh using k(6) x(1) by simp
      ultimately show ?thesis using c(3) at by (intro exI [of _ c] exI [of _ s] exI [of _ "tokens x"]) simp
    next
      case False
      then have j: "handler_at (store m) i = Some j" "current_handler m \<noteq> Some i" using i assms(2) by auto
      show ?thesis unfolding sh using okm_waiting [OF assms(1) j] by metis
    qed
  qed (use x in simp_all)
  moreover have "viewm ?n i = viewm m i" for i
  proof (cases "i = cur")
    case True
    have "shared_tokens ?n (shared_of ?k) = Some (tokens x)" unfolding sh using k(6) x(1) by simp
    then have "viewm ?n cur = Some (take (nat (at x)) (tokens x))" using c(3) by (simp add: view_def step_of_handler_def)
    then show ?thesis using view_current [OF assms x(1)] True by simp
  next
    case False
    then show ?thesis using assms(2) sh
      by (cases "handler_at (store m) i") (auto simp: view_def step_of_handler_def)
  qed
  ultimately show ?thesis using run by (intro exI [of _ ?m]) auto
qed

lemma restore_result:
  assumes "okm (m\<lparr>current_handler := None\<rparr>)" "handler_at (store m) new \<noteq> None"
  shows "\<exists>m1. restore_new api new m = Some (Ok, m1) \<and> okm (m1\<lparr>current_handler := Some new\<rparr>) \<and>
    viewm (m1\<lparr>current_handler := Some new\<rparr>) = viewm (m\<lparr>current_handler := None\<rparr>) \<and>
    executor_locked m1 = executor_locked m"
proof -
  let ?o = "m\<lparr>current_handler := None\<rparr>"
  obtain x where x: "llm_executor_of m = Some x" "good x" "linked (store m)" using okm_executor [OF assms(1)] by auto
  obtain k where k: "handler_at (store ?o) new = Some k" using assms(2) by auto
  have no: "current_handler ?o \<noteq> Some new" by simp
  obtain c s ts where w: "runtime_config k = Some c" "runtime_state k = Some s"
    "shared_tokens ?o (shared_of k) = Some ts" "0 \<le> StateStep api s" "StateStep api s \<le> int (length ts)"
    "viewm ?o new = Some (take (nat (StateStep api s)) ts)"
    using okm_waiting [OF assms(1) k no] by blast
  obtain y p where y: "shared_at (store m) (shared_of k) = Some y" "processed_context y = Some p" "saved p = Some ts"
    using w(3) by (auto simp: tokens_of_shared_def bind_eq_Some_conv)
  obtain x' where x': "ApiRestoreContext api \<lparr>context_processed = Some p, context_config = Some c, context_state = Some s\<rparr> x =
      (Ok, x')" "good x'" "tokens x' = ts" "at x' = StateStep api s"
    using restore_law [OF x(2) y(3) w(4,5)] by blast
  let ?k = "k\<lparr>runtime_config := None, runtime_state := None\<rparr>"
  let ?st = "(store m)\<lparr>handler_at := (handler_at (store m))(new \<mapsto> ?k),
    shared_at := (shared_at (store m))(shared_of k \<mapsto> y\<lparr>processed_context := None\<rparr>)\<rparr>"
  let ?m = "m\<lparr>store := ?st, llm_executor_of := Some x'\<rparr>"
  let ?n = "?m\<lparr>current_handler := Some new\<rparr>"
  have run: "restore_new api new m = Some (Ok, ?m)"
    using k w(1,2) y x(1) x'(1)
    by (simp add: restore_new_def bind_op_def on_store_def with_handler_def RetrieveRuntimeConfig_def
        RetrieveRuntimeState_def on_shared_of_def read_handler_some with_shared_def RetrieveProcessedContext_def
        on_executor_def defined_def)
  have sh: "shared_tokens ?n a = shared_tokens ?o a" for a
    using k y x'(3) by (auto simp: tokens_of_shared_def)
  have "okm ?n"
  proof (rule okmI)
    show "linked (store ?n)" using x(3) k y by (intro linked_fields [OF x(3)]) auto
    show "llm_executor_of ?n = Some x'" by simp
    show "\<exists>k y. handler_at (store ?n) i = Some k \<and> runtime_config k = None \<and>
        runtime_state k = None \<and> shared_at (store ?n) (shared_of k) = Some y \<and> processed_context y = None"
      if "current_handler ?n = Some i" for i
      using that by auto
    show "\<exists>c s ts. runtime_config j = Some c \<and> runtime_state j = Some s \<and>
        shared_tokens ?n (shared_of j) = Some ts \<and> 0 \<le> StateStep api s \<and> StateStep api s \<le> int (length ts)"
      if i: "handler_at (store ?n) i = Some j" "current_handler ?n \<noteq> Some i" for i j
    proof -
      have j: "handler_at (store ?o) i = Some j" "current_handler ?o \<noteq> Some i" using i by auto
      show ?thesis unfolding sh using okm_waiting [OF assms(1) j] by metis
    qed
  qed (use x' in simp)
  moreover have "viewm ?n i = viewm ?o i" for i
  proof (cases "i = new")
    case True
    have "shared_tokens ?n (shared_of ?k) = Some ts" unfolding sh using w(3) by simp
    then show ?thesis using True w(6) x'(4) by (simp add: view_def [of _ _ _ _ ?n] step_of_handler_def)
  next
    case False
    then show ?thesis using sh
      by (cases "handler_at (store m) i") (auto simp: view_def step_of_handler_def)
  qed
  ultimately show ?thesis using run by (intro exI [of _ ?m]) auto
qed

end

context context_executor
begin

lemma switch_shared_result:
  assumes "okm m" "current_handler m = Some cur" "new \<noteq> cur" "handler_at (store m) new \<noteq> None"
    "same_context m new cur"
  shows "\<exists>m1. switch_shared api cur new m = Some (Ok, m1) \<and> okm (m1\<lparr>current_handler := Some new\<rparr>) \<and>
    viewm (m1\<lparr>current_handler := Some new\<rparr>) = viewm m \<and> executor_locked m1 = executor_locked m"
proof -
  obtain x where x: "llm_executor_of m = Some x" "good x" "linked (store m)" using okm_executor [OF assms(1)] by blast
  obtain k y where k: "handler_at (store m) cur = Some k" "runtime_config k = None" "runtime_state k = None"
    "shared_at (store m) (shared_of k) = Some y" "processed_context y = None"
    "shared_tokens m (shared_of k) = map_option tokens (llm_executor_of m)"
    using okm_current [OF assms(1,2)] by blast
  obtain j where j: "handler_at (store m) new = Some j" "shared_of j = shared_of k"
    using assms(4,5) k(1) by (auto simp: same_context_def)
  have nc: "current_handler m \<noteq> Some new" using assms(2,3) by simp
  obtain c' s' ts where w: "runtime_config j = Some c'" "runtime_state j = Some s'"
    "shared_tokens m (shared_of j) = Some ts" "0 \<le> StateStep api s'" "StateStep api s' \<le> int (length ts)"
    "viewm m new = Some (take (nat (StateStep api s')) ts)"
    using okm_waiting [OF assms(1) j(1) nc] by blast
  have ts: "ts = tokens x" using w(3) k(6) j(2) x(1) by simp
  have at: "0 \<le> at x" "at x \<le> int (length (tokens x))" using step_law [OF x(2)] by auto
  obtain c where c: "ApiGetRuntimeConfig api x = Inr c" using get_config_law [OF x(2)] by blast
  obtain s where s: "ApiGetRuntimeState api x = Inr s" "StateStep api s = at x" using get_state_law [OF x(2)] by blast
  obtain x1 where x1: "ApiUpdateRuntimeConfig api c' x = (Ok, x1)" "good x1" "tokens x1 = tokens x"
    using update_config_law [OF x(2)] by blast
  have le: "StateStep api s' \<le> int (length (tokens x1))" using w(5) ts x1(3) by simp
  obtain x2 where x2: "ApiUpdateRuntimeState api s' x1 = (Ok, x2)" "good x2" "tokens x2 = tokens x" "at x2 = StateStep api s'"
    using update_state_law [OF x1(2) w(4) le] x1(3) by auto
  let ?k = "k\<lparr>runtime_config := Some c, runtime_state := Some s\<rparr>"
  let ?j = "j\<lparr>runtime_config := None, runtime_state := None\<rparr>"
  let ?st = "(store m)\<lparr>handler_at := (handler_at (store m))(cur \<mapsto> ?k, new \<mapsto> ?j)\<rparr>"
  let ?m = "m\<lparr>store := ?st, llm_executor_of := Some x2\<rparr>"
  let ?n = "?m\<lparr>current_handler := Some new\<rparr>"
  have run: "switch_shared api cur new m = Some (Ok, ?m)"
    using k(1) j(1) w(1,2) x(1) c s(1) x1(1) x2(1) assms(3)
    by (simp add: switch_shared_def bind_op_def read_executor_some on_store_def with_handler_def SetRuntimeConfig_def
        SetRuntimeState_def RetrieveRuntimeConfig_def RetrieveRuntimeState_def on_executor_def defined_def)
  have sh: "shared_tokens ?n a = shared_tokens m a" for a
    using k(1) j x2(3) x(1) assms(2,3) by (auto simp: tokens_of_shared_def)
  have "okm ?n"
  proof (rule okmI)
    show "linked (store ?n)" using k(1) j(1) assms(3) by (intro linked_fields [OF x(3)]) auto
    show "llm_executor_of ?n = Some x2" by simp
    show "\<exists>k y. handler_at (store ?n) i = Some k \<and> runtime_config k = None \<and>
        runtime_state k = None \<and> shared_at (store ?n) (shared_of k) = Some y \<and> processed_context y = None"
      if "current_handler ?n = Some i" for i
      using that k(4,5) j(2) by auto
    show "\<exists>c s ts. runtime_config i' = Some c \<and> runtime_state i' = Some s \<and>
        shared_tokens ?n (shared_of i') = Some ts \<and> 0 \<le> StateStep api s \<and> StateStep api s \<le> int (length ts)"
      if i: "handler_at (store ?n) i = Some i'" "current_handler ?n \<noteq> Some i" for i i'
    proof (cases "i = cur")
      case True
      then have "i' = ?k" using i assms(3) by simp
      moreover have "shared_tokens ?n (shared_of ?k) = Some (tokens x)" unfolding sh using k(6) x(1) by simp
      ultimately show ?thesis using s(2) at by (intro exI [of _ c] exI [of _ s] exI [of _ "tokens x"]) simp
    next
      case False
      then have j: "handler_at (store m) i = Some i'" "current_handler m \<noteq> Some i" using i assms(2) by auto
      show ?thesis unfolding sh using okm_waiting [OF assms(1) j] by metis
    qed
  qed (use x2 in simp)
  moreover have "viewm ?n i = viewm m i" for i
  proof -
    consider "i = new" | "i = cur" | "i \<noteq> new" "i \<noteq> cur" by blast
    then show ?thesis
    proof cases
      case 1
      have "shared_tokens ?n (shared_of ?j) = Some ts" unfolding sh using w(3) by simp
      then show ?thesis using 1 w(6) x2(4) by (simp add: view_def [of _ _ _ _ ?n] step_of_handler_def)
    next
      case 2
      have "shared_tokens ?n (shared_of ?k) = Some (tokens x)" unfolding sh using k(6) x(1) by simp
      then have "viewm ?n cur = Some (take (nat (at x)) (tokens x))"
        using s(2) assms(3) by (simp add: view_def step_of_handler_def)
      then show ?thesis using view_current [OF assms(1,2) x(1)] 2 by simp
    next
      case 3
      then show ?thesis using sh assms(2)
        by (cases "handler_at (store m) i") (auto simp: view_def step_of_handler_def)
    qed
  qed
  ultimately show ?thesis using run by (intro exI [of _ ?m]) auto
qed

text \<open>Acquiring the executor for a handler changes nothing that a handler stands for.\<close>

lemma Acquire_result:
  assumes "okm m" "\<not> executor_locked m" "handler_at (store m) new \<noteq> None"
  shows "\<exists>m'. AcquireExecutorWithContextHandler api (Some new) m = Some (Inr (Some new), m') \<and> okm m' \<and>
    viewm m' = viewm m \<and> current_handler m' = Some new \<and> executor_locked m'"
proof -
  let ?l = "m\<lparr>executor_locked := True\<rparr>"
  obtain x where x: "llm_executor_of ?l = Some x" using okm_executor [OF assms(1)] by auto
  have okl: "okm ?l" "viewm ?l = viewm m" using assms(1) by simp_all
  obtain j where j: "handler_at (store ?l) new = Some j" using assms(3) by auto
  have "\<exists>m1. (case current_handler ?l of
        Some cur \<Rightarrow> if same_context ?l new cur then switch_shared api cur new
                    else bind_op (save_current api cur) (\<lambda>_. restore_new api new)
      | None \<Rightarrow> restore_new api new) ?l = Some (Ok, m1) \<and> okm (m1\<lparr>current_handler := Some new\<rparr>) \<and>
      viewm (m1\<lparr>current_handler := Some new\<rparr>) = viewm m \<and> executor_locked m1"
    if "current_handler ?l \<noteq> Some new"
  proof (cases "current_handler ?l")
    case None
    then have n: "?l\<lparr>current_handler := None\<rparr> = ?l" by simp
    then have "okm (?l\<lparr>current_handler := None\<rparr>)" "handler_at (store ?l) new \<noteq> None" using okl(1) j by simp_all
    from restore_result [OF this, unfolded n] show ?thesis using okl(2) None by simp
  next
    case (Some cur)
    show ?thesis
    proof (cases "same_context ?l new cur")
      case True
      have nn: "new \<noteq> cur" "handler_at (store ?l) new \<noteq> None" using that Some j by auto
      show ?thesis using switch_shared_result [OF okl(1) Some nn True] True Some okl(2) by simp
    next
      case False
      obtain m1 where m1: "save_current api cur ?l = Some (Ok, m1)" "okm (m1\<lparr>current_handler := None\<rparr>)"
        "viewm (m1\<lparr>current_handler := None\<rparr>) = viewm ?l" "executor_locked m1"
        "\<forall>i. handler_at (store ?l) i \<noteq> None \<longrightarrow> handler_at (store m1) i \<noteq> None"
        using save_current_result [OF okl(1) Some] by auto
      have "handler_at (store m1) new \<noteq> None" using m1(5) j by simp
      then obtain m2 where "restore_new api new m1 = Some (Ok, m2)" "okm (m2\<lparr>current_handler := Some new\<rparr>)"
        "viewm (m2\<lparr>current_handler := Some new\<rparr>) = viewm (m1\<lparr>current_handler := None\<rparr>)"
        "executor_locked m2 = executor_locked m1"
        using restore_result [OF m1(2)] by blast
      then show ?thesis using Some False m1 okl(2) by (simp add: bind_op_def)
    qed
  qed
  then show ?thesis using assms x j okl
    by (cases "current_handler m = Some new")
      (fastforce simp: AcquireExecutorWithContextHandler_def acquiring_def take_lock_def bind_op_def)+
qed

end

section \<open>Refinement of independent contexts\<close>

text \<open>
  What clients do: acquire the executor for a handler, prefill or decode with it, release it; copy a
  handler.
\<close>

datatype manager_job = PrefillJob nat "int list" | DecodeJob nat | CloneJob nat

definition with_executor ::
  "('x, 'c, 's, 'p, 'f, 'tb, 'ptr, 'cfg) executor_api \<Rightarrow> nat \<Rightarrow>
     (nat option \<Rightarrow> (('x, 'c, 's, 'p) manager, 'a) uop) \<Rightarrow> (('x, 'c, 's, 'p) manager, 'a) uop"
where
  "with_executor api h f =
     bind_op (AcquireExecutorWithContextHandler api (Some h))
       (\<lambda>cur m. map_option (\<lambda>(r, m). (r, release_lock m)) (f cur m))"

fun run_job ::
  "('x, 'c, 's, 'p, 'f, 'tb, 'ptr, 'cfg) executor_api \<Rightarrow> manager_job \<Rightarrow> (('x, 'c, 's, 'p) manager, unit) uop"
where
  "run_job api (PrefillJob h ids) =
     with_executor api h (\<lambda>cur. LockedPrefill api cur
       (ExecutorInputs (Some (ExecutorTextData ([1, int (length ids)], ids))) None None) default_prefill_params)"
| "run_job api (DecodeJob h) =
     bind_op (with_executor api h (LockedDecode api)) (\<lambda>_ m. Some (Ok, m))"
| "run_job api (CloneJob h) = bind_op (CloneContextHandler api (Some h)) (\<lambda>_ m. Some (Ok, m))"

fun run_jobs ::
  "('x, 'c, 's, 'p, 'f, 'tb, 'ptr, 'cfg) executor_api \<Rightarrow> manager_job list \<Rightarrow> (('x, 'c, 's, 'p) manager, unit) uop"
where
  "run_jobs api [] m = Some (Ok, m)"
| "run_jobs api (j # js) m = bind_op (run_job api j) (\<lambda>_. run_jobs api js) m"

text \<open>
  A job is clear when a prefill does not repeat the tokens that others left behind the step of its
  handler, neither wholly nor up to their end: then the acquired executor separates the handler before
  it writes. In the other two cases of \<open>LockedPrefill\<close> it does not, see the last section.
\<close>

fun clear_job ::
  "('x, 'c, 's, 'p, 'f, 'tb, 'ptr, 'cfg) executor_api \<Rightarrow> manager_job \<Rightarrow> ('x, 'c, 's, 'p) manager \<Rightarrow> bool"
where
  "clear_job api (PrefillJob h ids) m \<longleftrightarrow>
     (case AcquireExecutorWithContextHandler api (Some h) m of
        Some (Inr _, m1) \<Rightarrow>
          (case map_option (\<lambda>x. (ApiGetCurrentStep api x, ApiGetProcessedTokens api x)) (llm_executor_of m1) of
             Some (Inr step, Inr pt) \<Rightarrow> differs ids (drop (nat step) (hd (GetCopyOfTokens pt)))
           | _ \<Rightarrow> True)
      | _ \<Rightarrow> True)"
| "clear_job api (DecodeJob h) m \<longleftrightarrow> True"
| "clear_job api (CloneJob h) m \<longleftrightarrow> True"

fun clear_jobs ::
  "('x, 'c, 's, 'p, 'f, 'tb, 'ptr, 'cfg) executor_api \<Rightarrow> manager_job list \<Rightarrow> ('x, 'c, 's, 'p) manager \<Rightarrow> bool"
where
  "clear_jobs api [] m \<longleftrightarrow> True"
| "clear_jobs api (j # js) m \<longleftrightarrow> clear_job api j m \<and>
     (case run_job api j m of Some (Inr _, m1) \<Rightarrow> clear_jobs api js m1 | _ \<Rightarrow> True)"

text \<open>The specification: handlers are separate lists of tokens; an address without one is \<open>None\<close>.\<close>

fun spec_job :: "manager_job \<Rightarrow> (nat \<Rightarrow> int list option) \<Rightarrow> (nat \<Rightarrow> int list option) \<Rightarrow> bool" where
  "spec_job (PrefillJob h ids) v v' \<longleftrightarrow> (\<exists>ts. v h = Some ts \<and> v' = v(h \<mapsto> ts @ ids))"
| "spec_job (DecodeJob h) v v' \<longleftrightarrow> (\<exists>ts t. v h = Some ts \<and> v' = v(h \<mapsto> ts @ [t]))"
| "spec_job (CloneJob h) v v' \<longleftrightarrow> (\<exists>ts i. v h = Some ts \<and> v i = None \<and> v' = v(i \<mapsto> ts))"

fun spec_jobs :: "manager_job list \<Rightarrow> (nat \<Rightarrow> int list option) \<Rightarrow> (nat \<Rightarrow> int list option) \<Rightarrow> bool" where
  "spec_jobs [] v v' \<longleftrightarrow> v' = v"
| "spec_jobs (j # js) v v' \<longleftrightarrow> (\<exists>v1. spec_job j v v1 \<and> spec_jobs js v1 v')"

context context_executor
begin

lemma clear_job_differs:
  assumes "clear_job api (PrefillJob h ids) m"
    and "AcquireExecutorWithContextHandler api (Some h) m = Some (Inr c, m1)" "llm_executor_of m1 = Some x"
    and "ApiGetCurrentStep api x = Inr n" "ApiGetProcessedTokens api x = Inr pt" "GetCopyOfTokens pt = [ts]"
  shows "differs ids (drop (nat n) ts)"
  using assms by simp

lemma release_irrelevant [simp]:
  "okm (release_lock m) = okm m" "viewm (release_lock m) = viewm m" "\<not> executor_locked (release_lock m)"
  "handler_at (store (release_lock m)) = handler_at (store m)"
  by (simp_all add: release_lock_def)

lemma view_live:
  assumes "okm m"
  shows "viewm m h \<noteq> None \<longleftrightarrow> handler_at (store m) h \<noteq> None"
proof (cases "handler_at (store m) h")
  case (Some k)
  obtain x where x: "llm_executor_of m = Some x" using okm_executor [OF assms] by blast
  show ?thesis
  proof (cases "current_handler m = Some h")
    case True
    then show ?thesis using view_current [OF assms True x] Some by simp
  next
    case False
    show ?thesis using okm_waiting [OF assms Some False] Some by auto
  qed
qed (simp add: view_def)

lemma default_step [simp]: "ParamsGetCurrentStep default_prefill_params = -1"
  by (simp add: ParamsGetCurrentStep_def default_prefill_params_def ExecutorPrefillParams_def)

lemma prefill_job_result:
  assumes "okm m" "\<not> executor_locked m" "handler_at (store m) h \<noteq> None" "clear_job api (PrefillJob h ids) m"
  shows "\<exists>m'. run_job api (PrefillJob h ids) m = Some (Ok, m') \<and> okm m' \<and> \<not> executor_locked m' \<and>
    spec_job (PrefillJob h ids) (viewm m) (viewm m')"
proof -
  let ?in = "ExecutorInputs (Some (ExecutorTextData ([1, int (length ids)], ids))) None None"
  obtain m1 where m1: "AcquireExecutorWithContextHandler api (Some h) m = Some (Inr (Some h), m1)" "okm m1"
    "viewm m1 = viewm m" "current_handler m1 = Some h"
    using Acquire_result [OF assms(1-3)] by blast
  obtain x where x: "llm_executor_of m1 = Some x" "good x" using okm_executor [OF m1(2)] by blast
  have clear: "differs ids (drop (nat (at x)) (tokens x))"
    using assms(4) m1(1) x(1) step_law [OF x(2)] tokens_of_executor [OF x(2)]
    by (metis (no_types, lifting) clear_job_differs)
  have v: "viewm m h = Some (take (nat (at x)) (tokens x))" using view_current [OF m1(2,4) x(1)] m1(3) by simp
  obtain m2 where m2: "LockedPrefill api (Some h) ?in default_prefill_params m1 = Some (Ok, m2)" "okm m2"
    "viewm m2 h = Some (take (nat (at x)) (tokens x) @ ids)" "\<forall>i. i \<noteq> h \<longrightarrow> viewm m2 i = viewm m1 i"
  proof (cases "ids = []")
    case True
    then show ?thesis using that [of m1] m1 v by (simp add: LockedPrefill_def)
  next
    case False
    show ?thesis
      using LockedPrefill_result [OF m1(2,4) x(1), of ?in ids default_prefill_params] False clear that by auto
  qed
  have "viewm m2 = (viewm m)(h \<mapsto> take (nat (at x)) (tokens x) @ ids)" using m2(3,4) m1(3) by auto
  then show ?thesis using m1(1) m2(1,2) v by (simp add: with_executor_def bind_op_def)
qed

lemma decode_job_result:
  assumes "okm m" "\<not> executor_locked m" "run_job api (DecodeJob h) m = Some (Ok, m')" "handler_at (store m) h \<noteq> None"
  shows "okm m' \<and> \<not> executor_locked m' \<and> spec_job (DecodeJob h) (viewm m) (viewm m')"
proof -
  obtain m1 where m1: "AcquireExecutorWithContextHandler api (Some h) m = Some (Inr (Some h), m1)" "okm m1"
    "viewm m1 = viewm m" "current_handler m1 = Some h"
    using Acquire_result [OF assms(1,2,4)] by blast
  obtain x where x: "llm_executor_of m1 = Some x" using okm_executor [OF m1(2)] by blast
  obtain out m2 where m2: "LockedDecode api (Some h) m1 = Some (Inr out, m2)" "m' = release_lock m2"
    using assms(3) m1(1) by (auto simp: with_executor_def bind_op_def split: option.splits sum.splits)
  obtain t where t: "okm m2" "viewm m2 h = map_option (\<lambda>ts. ts @ [t]) (viewm m1 h)"
    "\<forall>i. i \<noteq> h \<longrightarrow> viewm m2 i = viewm m1 i"
    using LockedDecode_result [OF m1(2,4) x m2(1)] by blast
  note v = view_current [OF m1(2,4) x]
  have "viewm m2 = (viewm m)(h \<mapsto> take (nat (at x)) (tokens x) @ [t])" using t(2,3) m1(3) v by auto
  then show ?thesis using t(1) m2(2) v m1(3) by auto
qed

lemma clone_job_result:
  assumes "okm m" "\<not> executor_locked m" "handler_at (store m) h \<noteq> None"
  shows "\<exists>m'. run_job api (CloneJob h) m = Some (Ok, m') \<and> okm m' \<and> \<not> executor_locked m' \<and>
    spec_job (CloneJob h) (viewm m) (viewm m')"
proof -
  obtain x where x: "llm_executor_of m = Some x" "good x" "linked (store m)" using okm_executor [OF assms(1)] by blast
  obtain k where k: "handler_at (store m) h = Some k" using assms(3) by auto
  obtain y where y: "shared_at (store m) (shared_of k) = Some y" using linked_handler [OF x(3) k] by blast
  have at: "0 \<le> at x" "at x \<le> int (length (tokens x))" using step_law [OF x(2)] by auto
  let ?i = "next_handler (store m)"
  obtain c s ts where cs: "(if HasRuntimeConfig k \<and> HasRuntimeState k
      then bind_op (read_handler h GetRuntimeConfig) (\<lambda>c. bind_op (read_handler h GetRuntimeState) (\<lambda>s m. Some (Inr (c, s), m)))
      else under_lock (\<lambda>m. if current_handler m \<noteq> Some h then Some (Inl Internal, m)
             else bind_op (read_executor (ApiGetRuntimeConfig api)) (\<lambda>c.
                  bind_op (read_executor (ApiGetRuntimeState api)) (\<lambda>s m. Some (Inr (c, s), m))) m)) m =
      Some (Inr (c, s), m)"
    "shared_tokens m (shared_of k) = Some ts" "0 \<le> StateStep api s" "StateStep api s \<le> int (length ts)"
    "viewm m h = Some (take (nat (StateStep api s)) ts)"
  proof (cases "current_handler m = Some h")
    case True
    have k0: "runtime_config k = None" "shared_tokens m (shared_of k) = Some (tokens x)"
      using okm_current [OF assms(1) True] k x(1) by auto
    obtain c where c: "ApiGetRuntimeConfig api x = Inr c" using get_config_law [OF x(2)] by blast
    obtain s where s: "ApiGetRuntimeState api x = Inr s" "StateStep api s = at x" using get_state_law [OF x(2)] by blast
    have "m\<lparr>executor_locked := False\<rparr> = m" using assms(2) by simp
    then show ?thesis using that [of c s "tokens x"] k0 c s at view_current [OF assms(1) True x(1)] True x(1) assms(2)
      by (simp add: HasRuntimeConfig_def under_lock_def take_lock_def bind_op_def read_executor_some release_lock_def)
  next
    case False
    obtain c s ts where w: "runtime_config k = Some c" "runtime_state k = Some s"
      "shared_tokens m (shared_of k) = Some ts" "0 \<le> StateStep api s" "StateStep api s \<le> int (length ts)"
      "viewm m h = Some (take (nat (StateStep api s)) ts)"
      using okm_waiting [OF assms(1) k False] by blast
    then show ?thesis using that [of c s ts] k
      by (simp add: HasRuntimeConfig_def HasRuntimeState_def bind_op_def read_handler_some GetRuntimeConfig_def GetRuntimeState_def)
  qed
  obtain st where st: "Bundle (Some (shared_of k)) (Some c) (Some s) (store m) = Some (Inr ?i, st)" "linked st"
    "handler_at st = (handler_at (store m))(?i \<mapsto> \<lparr>shared_of = shared_of k, runtime_config = Some c, runtime_state = Some s\<rparr>)"
    "shared_at st = (shared_at (store m))(shared_of k \<mapsto> y\<lparr>handlers_of := handlers_of y @ [?i]\<rparr>)"
    using Bundle_result [OF x(3) y, of "Some c" "Some s"] by blast
  have fresh: "handler_at (store m) ?i = None" using linked_fresh [OF x(3)] by simp
  let ?m = "m\<lparr>store := st\<rparr>"
  have run: "run_job api (CloneJob h) m = Some (Ok, ?m)"
    using k cs(1) st(1) by (simp add: CloneContextHandler_def bind_op_def on_store_def)
  have cur: "current_handler m \<noteq> Some ?i"
    using okm_current [OF assms(1)] fresh by (metis option.distinct(1))
  have sh: "shared_tokens ?m a = shared_tokens m a" for a
    using st(3,4) y fresh cur by (auto simp: tokens_of_shared_def)
  have "okm ?m"
  proof (rule okmI)
    show "\<exists>k y. handler_at (store ?m) i = Some k \<and> runtime_config k = None \<and>
        runtime_state k = None \<and> shared_at (store ?m) (shared_of k) = Some y \<and> processed_context y = None"
      if i: "current_handler ?m = Some i" for i
    proof -
      have i': "current_handler m = Some i" using i by simp
      obtain k' y' where "handler_at (store m) i = Some k'" "runtime_config k' = None" "runtime_state k' = None"
        "shared_at (store m) (shared_of k') = Some y'" "processed_context y' = None"
        using okm_current [OF assms(1) i'] by blast
      moreover have "i \<noteq> ?i" using cur i' by auto
      ultimately show ?thesis using st(3,4) y by (cases "shared_of k' = shared_of k") auto
    qed
    show "\<exists>c s ts. runtime_config j = Some c \<and> runtime_state j = Some s \<and>
        shared_tokens ?m (shared_of j) = Some ts \<and> 0 \<le> StateStep api s \<and> StateStep api s \<le> int (length ts)"
      if i: "handler_at (store ?m) i = Some j" "current_handler ?m \<noteq> Some i" for i j
    proof (cases "i = ?i")
      case True
      then have "j = \<lparr>shared_of = shared_of k, runtime_config = Some c, runtime_state = Some s\<rparr>"
        using i(1) st(3) by simp
      then show ?thesis unfolding sh using cs(2-4) by simp
    next
      case False
      then have j: "handler_at (store m) i = Some j" "current_handler m \<noteq> Some i" using i st(3) by auto
      show ?thesis unfolding sh using okm_waiting [OF assms(1) j] by metis
    qed
  qed (use x st in simp_all)
  moreover have "viewm ?m i = (if i = ?i then viewm m h else viewm m i)" for i
    using st(3) sh cs(2,5) cur by (cases "handler_at (store m) i") (auto simp: view_def step_of_handler_def)
  then have "viewm ?m = (viewm m)(?i \<mapsto> take (nat (StateStep api s)) ts)" using cs(5) by auto
  moreover have "viewm m ?i = None" using fresh by (simp add: view_def)
  ultimately show ?thesis using run cs(5) assms(2) by (intro exI [of _ ?m]) auto
qed

end

context context_executor
begin

lemma job_result:
  assumes "okm m" "\<not> executor_locked m" "clear_job api j m" "run_job api j m = Some (Ok, m')"
  shows "okm m' \<and> \<not> executor_locked m' \<and> spec_job j (viewm m) (viewm m')"
proof -
  have live: "handler_at (store m) h \<noteq> None" if "AcquireExecutorWithContextHandler api (Some h) m \<noteq> None" for h
  proof (cases "current_handler m = Some h")
    case True
    then show ?thesis using okm_current [OF assms(1)] by (metis option.distinct(1))
  next
    case False
    then show ?thesis using that assms(2) okm_executor [OF assms(1)]
      by (auto simp: AcquireExecutorWithContextHandler_def acquiring_def take_lock_def bind_op_def split: if_splits)
  qed
  show ?thesis
  proof (cases j)
    case (PrefillJob h ids)
    then have "handler_at (store m) h \<noteq> None"
      using assms(4) by (intro live notI) (simp add: with_executor_def bind_op_def)
    then show ?thesis using prefill_job_result [OF assms(1,2), of h ids] assms(3,4) PrefillJob by simp
  next
    case (DecodeJob h)
    then have "handler_at (store m) h \<noteq> None"
      using assms(4) by (intro live notI) (simp add: with_executor_def bind_op_def)
    then show ?thesis using decode_job_result [OF assms(1,2)] assms(4) DecodeJob by blast
  next
    case (CloneJob h)
    then have "handler_at (store m) h \<noteq> None"
      using assms(4) by (intro notI) (simp add: CloneContextHandler_def bind_op_def)
    then show ?thesis using clone_job_result [OF assms(1,2)] assms(4) CloneJob by (metis Pair_inject option.inject)
  qed
qed

lemma jobs_result:
  assumes "okm m" "\<not> executor_locked m" "clear_jobs api js m" "run_jobs api js m = Some (Ok, m')"
  shows "okm m' \<and> \<not> executor_locked m' \<and> spec_jobs js (viewm m) (viewm m')"
  using assms
proof (induction js arbitrary: m)
  case (Cons j js)
  obtain m1 where m1: "run_job api j m = Some (Ok, m1)" "run_jobs api js m1 = Some (Ok, m')"
    using Cons.prems(4) by (auto simp: bind_op_Inr_iff)
  have "clear_job api j m" "clear_jobs api js m1" using Cons.prems(3) m1(1) by simp_all
  then show ?case using job_result [OF Cons.prems(1,2) _ m1(1)] Cons.IH [of m1] m1(2) by auto
qed simp

end

text \<open>C1.
  The resource manager refines independent contexts. Over any executor that starts a prefill or a decode
  at its own step, may truncate the tokens behind a step that is set, and can restore a cloned context,
  a successful run of prefills, decodes and clones leaves every handler with exactly the tokens it would
  have if handlers never shared anything: a prefill appends its ids and a decode one token to its own
  handler only, a clone is a new handler with the same tokens. Every prefill of the run must be clear:
  its ids differ at some position from the tokens that others left behind the step of the handler, or
  there are none. Clear prefills and clones of a live handler always return.\<close>

theorem manager_refines_separate_contexts:
  assumes "context_executor api good tokens at saved"
    and "manager_ok (StateStep api) saved good tokens m" "\<not> executor_locked m"
  shows "(\<forall>js m'. clear_jobs api js m \<longrightarrow> run_jobs api js m = Some (Ok, m') \<longrightarrow>
      manager_ok (StateStep api) saved good tokens m' \<and> \<not> executor_locked m' \<and>
      spec_jobs js (view (StateStep api) saved tokens at m) (view (StateStep api) saved tokens at m')) \<and>
    (\<forall>h ids. view (StateStep api) saved tokens at m h \<noteq> None \<longrightarrow>
      (clear_job api (PrefillJob h ids) m \<longrightarrow> (\<exists>m'. run_job api (PrefillJob h ids) m = Some (Ok, m'))) \<and>
      (\<exists>m'. run_job api (CloneJob h) m = Some (Ok, m')))"
proof (intro conjI allI impI)
  note jobs = context_executor.jobs_result [OF assms(1-3)]
  show "manager_ok (StateStep api) saved good tokens m'" "\<not> executor_locked m'"
    "spec_jobs js (view (StateStep api) saved tokens at m) (view (StateStep api) saved tokens at m')"
    if "clear_jobs api js m" "run_jobs api js m = Some (Ok, m')" for js m'
    using jobs [OF that] by blast+
next
  fix h :: nat and ids :: "int list"
  assume "view (StateStep api) saved tokens at m h \<noteq> None"
  then have live: "handler_at (store m) h \<noteq> None"
    using context_executor.view_live [OF assms(1,2)] by simp
  show "\<exists>m'. run_job api (PrefillJob h ids) m = Some (Ok, m')" if "clear_job api (PrefillJob h ids) m"
    using context_executor.prefill_job_result [OF assms live that] by blast
  show "\<exists>m'. run_job api (CloneJob h) m = Some (Ok, m')"
    using context_executor.clone_job_result [OF assms live] by blast
qed

section \<open>The laws hold over the NPU executor\<close>

text \<open>
  An instance of the laws. Prefill and decode are those of the NPU executor as they are written
  (\<^verbatim>\<open>llm_litert_npu_compiled_model_executor.cc\<close>): they start at the executor's step and do not read the
  step of the parameters. No executor of the repository has the methods on contexts
  (\<^verbatim>\<open>llm_executor_google.h\<close> is not in it): here a context is a copy of the tokens and the caches, with
  a config beside, and setting the step rolls the tokens back to it. \<open>greedy\<close> is the sampled token.
\<close>

definition npu_api ::
  "prefill_runners \<Rightarrow> (cache list \<Rightarrow> int status_or) \<Rightarrow> ('cfg \<Rightarrow> 'c) \<Rightarrow>
     ('f compiled_executor \<times> 'c, 'c, int, 'f processed_tokens \<times> cache list, 'f, 'tb, 'ptr, 'cfg) executor_api"
where
  "npu_api rs greedy new_config =
     \<lparr>ApiGetCurrentStep = (\<lambda>(e, c). Inr (ce_step e)),
      ApiSetCurrentStep = (\<lambda>n (e, c).
        case roll_to_step (e\<lparr>ce_step := n\<rparr>) of
          None \<Rightarrow> (Inl Internal, (e, c))
        | Some (r, e) \<Rightarrow> (r, (e, c))),
      ApiGetProcessedTokens = (\<lambda>(e, c). Inr (ce_tokens e)),
      ApiPrefill = (\<lambda>inputs params (e, c).
        case GetTextTokenIdsPtr inputs of
          Inl err \<Rightarrow> Some (Inl err, (e, c))
        | Inr (shape, ids) \<Rightarrow>
            map_option (\<lambda>(r, e). (r, (e, c))) (NpuPrefill rs (shape ! 0) (shape ! 1) ids e)),
      ApiDecode = (\<lambda>(e, c). map_option (\<lambda>(r, e). (r, (e, c))) (NpuDecode greedy False e)),
      ApiCloneContext = (\<lambda>(e, c). Inr \<lparr>context_processed = Some (ce_tokens e, kv e), context_config = Some c,
        context_state = Some (ce_step e)\<rparr>),
      ApiRestoreContext = (\<lambda>ctx (e, c).
        case (context_processed ctx, context_config ctx, context_state ctx) of
          (Some (pt, caches), Some c', Some n) \<Rightarrow>
            (Ok, (e\<lparr>ce_tokens := pt, kv := caches, ce_step := n\<rparr>, c'))
        | _ \<Rightarrow> (Inl Internal, (e, c))),
      ApiGetRuntimeConfig = (\<lambda>(e, c). Inr c),
      ApiUpdateRuntimeConfig = (\<lambda>c' (e, c). (Ok, (e, c'))),
      ApiGetRuntimeState = (\<lambda>(e, c). Inr (ce_step e)),
      ApiUpdateRuntimeState = (\<lambda>n (e, c). (Ok, (e\<lparr>ce_step := n\<rparr>, c))),
      ApiCreateNewContext = (\<lambda>lora cfg x. (Inr \<lparr>context_processed = Some (ProcessedTokens, [\<lambda>p. None]),
        context_config = Some (new_config cfg), context_state = Some 0\<rparr>, x)),
      ApiLoadLoRA = (\<lambda>i x. (Inl Unimplemented, x)),
      StateStep = (\<lambda>n. n)\<rparr>"

definition npu_good :: "'f compiled_executor \<times> 'c \<Rightarrow> bool" where
  "npu_good x \<longleftrightarrow> (\<exists>ctx. npu_at ctx (fst x))"

definition npu_tokens :: "'f compiled_executor \<times> 'c \<Rightarrow> int list" where
  "npu_tokens x = hd (GetCopyOfTokens (ce_tokens (fst x)))"

definition npu_step :: "'f compiled_executor \<times> 'c \<Rightarrow> int" where
  "npu_step x = ce_step (fst x)"

definition npu_saved :: "'f processed_tokens \<times> cache list \<Rightarrow> int list option" where
  "npu_saved p =
     (if npu_good (fresh_executor\<lparr>ce_tokens := fst p, kv := snd p\<rparr>, ())
      then Some (hd (GetCopyOfTokens (fst p))) else None)"

lemma npu_at_iff:
  "npu_at ctx e \<longleftrightarrow> npu_good (e, c) \<and> ctx = take (nat (ce_step e)) (npu_tokens (e, c))"
  by (auto simp: npu_at_def npu_good_def npu_tokens_def GetCopyOfTokens_alt)

lemma npu_good_iff:
  "npu_good (e, c) \<longleftrightarrow> (\<exists>t. toks (ce_tokens e) = [t]) \<and> 0 \<le> ce_step e \<and>
     ce_step e \<le> int (length (npu_tokens (e, c))) \<and> coherent e"
  by (auto simp: npu_at_def npu_good_def npu_tokens_def GetCopyOfTokens_alt)

lemma npu_good_step:
  assumes "npu_good (e, c)" "0 \<le> n" "n \<le> int (length (npu_tokens (e, c)))"
  shows "npu_good (e\<lparr>ce_step := n\<rparr>, c')" "npu_tokens (e\<lparr>ce_step := n\<rparr>, c') = npu_tokens (e, c)"
  using assms by (simp_all add: npu_good_iff coherent_def npu_tokens_def)

lemma npu_saved_iff:
  "npu_saved (ce_tokens e, kv e) = Some ts \<longleftrightarrow>
     (\<exists>t. toks (ce_tokens e) = [t]) \<and> coherent e \<and> ts = npu_tokens (e, c)"
  by (auto simp: npu_saved_def npu_good_iff coherent_def npu_tokens_def fresh_executor_def)

lemma npu_context_executor:
  fixes rs :: prefill_runners
  assumes "rs \<noteq> []" "sorted_wrt (>) (map fst rs)" "\<forall>l \<in> set (map fst rs). 0 < l"
  shows "context_executor (npu_api rs greedy cfg) npu_good npu_tokens npu_step npu_saved"
proof (unfold_locales, goal_cases)
  case (1 x)
  then show ?case by (cases x) (auto simp: npu_api_def npu_good_iff npu_step_def)
next
  case (2 x)
  then show ?case by (cases x) (auto simp: npu_api_def npu_good_iff npu_tokens_def GetCopyOfTokens_alt)
next
  case (3 x n)
  obtain e c where x: "x = (e, c)" by (rule prod.exhaust)
  let ?e = "e\<lparr>ce_step := n\<rparr>"
  have g: "npu_good (?e, c)" "npu_tokens (?e, c) = npu_tokens (e, c)"
    using npu_good_step [of e c n c] 3 x by auto
  then have at: "npu_at (take (nat n) (npu_tokens (e, c))) ?e" using npu_at_iff [of _ ?e c] by auto
  obtain e' t where e': "roll_to_step ?e = Some (Ok, e')" "toks (ce_tokens e') = [t]"
    "context_of t = take (nat n) (npu_tokens (e, c))" "coherent e'"
    "ce_step e' = int (length (take (nat n) (npu_tokens (e, c))))"
    using roll_to_step_result [OF at] by blast
  have tok: "npu_tokens (e', c) = take (nat n) (npu_tokens (e, c))"
    using e'(2,3) by (simp add: npu_tokens_def GetCopyOfTokens_alt)
  have step: "ce_step e' = n" using e'(5) 3(2,3) x by simp
  have "npu_good (e', c)" unfolding npu_good_iff tok using e'(2,4,5) by simp
  then show ?case using e'(1) tok step x
    by (intro exI [of _ "(e', c)"] exI [of _ "nat n"]) (simp add: npu_api_def npu_step_def)
next
  case (4 x inputs ids params)
  obtain e c where x: "x = (e, c)" by (rule prod.exhaust)
  have at: "npu_at (take (nat (ce_step e)) (npu_tokens (e, c))) e" using npu_at_iff [of _ e c] 4(1) x by auto
  obtain e' where e': "NpuPrefill rs 1 (int (length ids)) ids e = Some (Ok, e')"
    "npu_at (take (nat (ce_step e)) (npu_tokens (e, c)) @ ids) e'"
    using NpuPrefill_result [OF at assms 4(3)] by blast
  have "ApiPrefill (npu_api rs greedy cfg) inputs params x = Some (Ok, (e', c))"
    using 4(2) e'(1) x by (simp add: npu_api_def)
  moreover have "npu_good (e', c)"
    "take (nat (npu_step (e', c))) (npu_tokens (e', c)) = take (nat (npu_step x)) (npu_tokens x) @ ids"
    using e'(2) npu_at_iff [of _ e' c] x by (simp_all add: npu_step_def)
  ultimately show ?case by blast
next
  case (5 x out x')
  obtain e c where x: "x = (e, c)" by (rule prod.exhaust)
  obtain e' where e': "NpuDecode greedy False e = Some (Inr out, e')" "x' = (e', c)"
    using 5(2) x by (auto simp: npu_api_def)
  have "npu_at (take (nat (npu_step x)) (npu_tokens x)) e" using 5(1) x npu_at_iff [of _ e c] by (simp add: npu_step_def)
  from NpuDecode_result [OF this e'(1)] show ?case
    using e'(2) npu_at_iff [of _ e' c] by (auto simp: npu_step_def)
next
  case (6 x)
  obtain e c where x: "x = (e, c)" by (rule prod.exhaust)
  have "npu_saved (ce_tokens e, kv e) = Some (npu_tokens x)"
    using 6 x npu_good_iff [of e c] npu_saved_iff [of e _ c] by blast
  then show ?case using x by (simp add: npu_api_def npu_step_def)
next
  case (7 x p ts s c)
  obtain e d where x: "x = (e, d)" by (rule prod.exhaust)
  let ?e = "e\<lparr>ce_tokens := fst p, kv := snd p, ce_step := s\<rparr>"
  have "npu_saved (ce_tokens ?e, kv ?e) = Some ts" using 7(2) by simp
  then have s: "\<exists>t. toks (ce_tokens ?e) = [t]" "coherent ?e" "ts = npu_tokens (?e, c)"
    using npu_saved_iff [of ?e ts c] by auto
  then have "npu_good (?e, c)" using 7(3,4) by (simp add: npu_good_iff npu_api_def)
  then show ?case using x s(3) by (cases p) (simp add: npu_api_def npu_step_def)
next
  case (8 x)
  then show ?case by (cases x) (simp add: npu_api_def)
next
  case (9 x)
  then show ?case by (cases x) (simp add: npu_api_def npu_step_def)
next
  case (10 x c)
  then show ?case by (cases x) (simp add: npu_api_def npu_step_def npu_good_iff npu_tokens_def)
next
  case (11 x s)
  then show ?case using npu_good_step [of "fst x" "snd x" s "snd x"]
    by (cases x) (auto simp: npu_api_def npu_step_def)
qed

text \<open>Two runners, as the exported models have them.\<close>

definition npu_runners :: prefill_runners where
  "npu_runners = [(128, ''prefill_128''), (32, ''prefill_32'')]"

interpretation npu_manager:
  context_executor "npu_api npu_runners greedy cfg" npu_good npu_tokens npu_step npu_saved
  by (rule npu_context_executor) (simp_all add: npu_runners_def)

text \<open>A manager with a fresh NPU executor and the handler 0 of a new context.\<close>

type_synonym demo_executor = "unit compiled_executor \<times> unit"
type_synonym demo_context = "unit processed_tokens \<times> cache list"

definition demo_api :: "(demo_executor, unit, int, demo_context, unit, unit, unit, unit) executor_api" where
  "demo_api = npu_api npu_runners (\<lambda>_. Inr 9) id"

definition new_context :: "(unit, int, demo_context) llm_context" where
  "new_context = \<lparr>context_processed = Some (ProcessedTokens, [\<lambda>p. None]), context_config = Some (), context_state = Some 0\<rparr>"

definition started_manager :: "(demo_executor, unit, int, demo_context) manager" where
  "started_manager = \<lparr>store = snd (the (CreateHandler (Some new_context) empty_store)),
     llm_executor_of = Some (fresh_executor, ()), current_handler = None, lora_hash_to_id = [],
     executor_locked = False\<rparr>"

abbreviation demo_view :: "(demo_executor, unit, int, demo_context) manager \<Rightarrow> nat \<Rightarrow> int list option" where
  "demo_view \<equiv> view (StateStep demo_api) npu_saved npu_tokens npu_step"

lemma fresh_executor_good: "npu_good (fresh_executor, ())" "npu_tokens (fresh_executor, ()) = []"
  by (simp_all add: npu_good_iff npu_tokens_def fresh_executor_def ProcessedTokens_def coherent_def
      wf_tokens_def GetCopyOfTokens_alt context_of_def GetStep_def HasPendingInputToken_def)

lemma npu_saved_fresh: "npu_saved (ProcessedTokens, [\<lambda>p. None]) = Some []"
  by (simp add: npu_saved_def npu_good_iff npu_tokens_def fresh_executor_def ProcessedTokens_def coherent_def
      wf_tokens_def GetCopyOfTokens_alt context_of_def GetStep_def HasPendingInputToken_def)

lemma started_manager_ok:
  "manager_ok (StateStep demo_api) npu_saved npu_good npu_tokens started_manager"
  "demo_view started_manager 0 = Some []"
proof -
  obtain st where st: "CreateHandler (Some new_context) empty_store = Some (Inr 0, st)" "linked st"
    "handler_at st = [0 \<mapsto> \<lparr>shared_of = 0, runtime_config = Some (), runtime_state = Some 0\<rparr>]"
    "shared_at st = [0 \<mapsto> \<lparr>handlers_of = [0], processed_context = Some (ProcessedTokens, [\<lambda>p. None])\<rparr>]"
    using CreateHandler_result [OF linked_empty, of new_context] by (auto simp: empty_store_def new_context_def)
  have s: "store started_manager = st" using st(1) by (simp add: started_manager_def)
  have f: "llm_executor_of started_manager = Some (fresh_executor, ())" "current_handler started_manager = None"
    by (simp_all add: started_manager_def)
  show "manager_ok (StateStep demo_api) npu_saved npu_good npu_tokens started_manager"
    using st(2-4) s f
    by (auto simp: manager_ok_def tokens_of_shared_def demo_api_def npu_api_def npu_saved_fresh
        fresh_executor_good(1) split: if_splits)
  show "demo_view started_manager 0 = Some []"
    using st(3,4) s f
    by (simp add: view_def tokens_of_shared_def step_of_handler_def npu_saved_fresh)
qed

lemma demo_executor_laws: "context_executor demo_api npu_good npu_tokens npu_step npu_saved"
  unfolding demo_api_def by (rule npu_manager.context_executor_axioms)

text \<open>
  A handler, its copy, and both going on: the second prefill of \<open>8, 9\<close> differs from the 7 that
  handler 0 left behind, and is written to a context of its own.
\<close>

definition demo_jobs :: "manager_job list" where
  "demo_jobs = [PrefillJob 0 [5, 6], CloneJob 0, PrefillJob 0 [7], PrefillJob 1 [8, 9], PrefillJob 0 [4]]"

lemma demo_jobs_clear: "clear_jobs demo_api demo_jobs started_manager"
  by code_simp

lemma demo_jobs_return: "map_option fst (run_jobs demo_api demo_jobs started_manager) = Some Ok"
  by code_simp

lemma started_view: "demo_view started_manager 1 = None"
proof -
  have "map_option shared_of (handler_at (store started_manager) 1) = None" by code_simp
  then show ?thesis by (simp add: view_def)
qed

lemma manager_refines_separate_contexts_witness:
  "\<exists>m. run_jobs demo_api demo_jobs started_manager = Some (Ok, m) \<and>
    demo_view m 0 = Some [5, 6, 7, 4] \<and> demo_view m 1 = Some [5, 6, 8, 9]"
proof -
  have l0: "\<not> executor_locked started_manager" by (simp add: started_manager_def)
  note r0 = manager_refines_separate_contexts [OF demo_executor_laws started_manager_ok(1) l0]
  obtain m where m: "run_jobs demo_api demo_jobs started_manager = Some (Ok, m)"
    using demo_jobs_return by auto
  then have "spec_jobs demo_jobs (demo_view started_manager) (demo_view m)"
    using r0 demo_jobs_clear by blast
  then show ?thesis using m started_manager_ok(2) started_view
    by (auto simp: demo_jobs_def fun_upd_apply split: if_splits)
qed

section \<open>A prefill that is not clear\<close>

text \<open>A handler that owns one of the three tokens in the executor.\<close>

definition rewound_manager :: "(demo_executor, unit, int, demo_context) manager" where
  "rewound_manager = started_manager
     \<lparr>llm_executor_of := Some (fresh_executor
        \<lparr>ce_tokens := \<lparr>toks = [\<lparr>token_ids = [5, 6], pending_input_token = Some (TokenData 7)\<rparr>]\<rparr>, ce_step := 1\<rparr>, ()),
      current_handler := Some 0\<rparr>"

text \<open>The executors of the repository do not read the step of the prefill parameters. Over the NPU executor
  the matching of tokens then loses tokens when a prompt repeats all that is left behind: the executor holds 5, 6, 7 of which the handler owns 5; a prefill of 6, 7, 8
  drops the 6 and 7 that match and hands the 8 over with step 3, but the executor, still at step 1, rolls
  back and stores it behind the 5.\<close>

theorem matched_tokens_lost_without_params_step:
  "map_option (\<lambda>(r, m). (r, map_option (\<lambda>x. GetCopyOfTokens (ce_tokens (fst x))) (llm_executor_of m)))
     (LockedPrefill demo_api (Some 0)
        (ExecutorInputs (Some (ExecutorTextData ([1, 3], [6, 7, 8]))) None None) default_prefill_params
        rewound_manager) =
   Some (Ok, Some [[5, 8]])"
  by code_simp

section \<open>LoRA ids\<close>

definition scoped_key :: "nat \<Rightarrow> string" where
  "scoped_key n = ''scoped_lora:'' @ decimal n"

definition lora_ok :: "(string \<times> 32 word) list \<Rightarrow> bool" where
  "lora_ok ids \<longleftrightarrow> distinct (map fst ids) \<and> map snd ids = map of_nat [0..<length ids] \<and>
     (\<forall>k \<in> set (map fst ids). starts_with k ''scoped_lora:'' \<longrightarrow> (\<exists>n < length ids. k = scoped_key n))"

lemma update_new: "map_of ids k = None \<Longrightarrow> AList.update k v ids = ids @ [(k, v)]"
  by (induction ids) auto

lemma lora_ok_snoc:
  assumes "lora_ok ids" "map_of ids k = None"
    and "starts_with k ''scoped_lora:'' \<Longrightarrow> k = scoped_key (length ids)"
  shows "lora_ok (ids @ [(k, of_nat (length ids))])"
proof -
  have "k \<notin> set (map fst ids)" using assms(2) by (simp add: map_of_eq_None_iff)
  moreover have "\<exists>n < length ids + 1. i = scoped_key n"
    if i: "i \<in> set (map fst (ids @ [(k, v)]))" "starts_with i ''scoped_lora:''" for i and v :: "32 word"
  proof (cases "i = k")
    case True
    then show ?thesis using assms(3) i(2) by auto
  next
    case False
    then have "i \<in> set (map fst ids)" using i(1) by simp
    then obtain n where "n < length ids" "i = scoped_key n" using assms(1) i(2) unfolding lora_ok_def by blast
    then show ?thesis by (intro exI [of _ n]) simp
  qed
  ultimately show ?thesis using assms(1) unfolding lora_ok_def by simp
qed

lemma scoped_fresh: "lora_ok ids \<Longrightarrow> map_of ids (scoped_key (length ids)) = None"
  by (force simp: lora_ok_def map_of_eq_None_iff starts_with_def scoped_key_def)

lemma assign_id_cases:
  assumes "lora_ok ids" "\<not> starts_with path ''scoped_lora:''" "path \<noteq> '''' \<or> has_file"
  shows "(\<exists>i. map_of ids path = Some i \<and> path \<noteq> '''' \<and> assign_id ids path has_file = (Some i, ids)) \<or>
    (\<exists>k. map_of ids k = None \<and> (path \<noteq> '''' \<longrightarrow> k = path) \<and>
       assign_id ids path has_file = (Some (of_nat (length ids)), ids @ [(k, of_nat (length ids))]) \<and>
       lora_ok (ids @ [(k, of_nat (length ids))]))"
proof (cases "path = ''''")
  case True
  then show ?thesis
    using assms(1,3) scoped_fresh [OF assms(1)] lora_ok_snoc [OF assms(1) scoped_fresh [OF assms(1)]]
    by (auto simp: assign_id_def update_new scoped_key_def)
next
  case False
  then show ?thesis using lora_ok_snoc [OF assms(1), of path] assms(2)
    by (cases "map_of ids path") (auto simp: assign_id_def update_new map_add_def)
qed

lemma lora_run_ok:
  assumes "list_all (\<lambda>r. \<not> starts_with (fst r) ''scoped_lora:'') rs"
  shows "lora_ok (fold (\<lambda>r ids. snd (assign_id ids (fst r) (snd r))) rs []) \<and>
    length (fold (\<lambda>r ids. snd (assign_id ids (fst r) (snd r))) rs []) \<le> length rs"
  using assms
proof (induction rs rule: rev_induct)
  case (snoc r rs)
  let ?ids = "fold (\<lambda>r ids. snd (assign_id ids (fst r) (snd r))) rs []"
  have ih: "lora_ok ?ids" "length ?ids \<le> length rs" using snoc by simp_all
  have n: "\<not> starts_with (fst r) ''scoped_lora:''" using snoc.prems by simp
  show ?case
  proof (cases "fst r \<noteq> '''' \<or> snd r")
    case True
    then show ?thesis using assign_id_cases [OF ih(1) n True] ih by auto
  next
    case False
    then show ?thesis using ih by (simp add: assign_id_def)
  qed
qed (simp add: lora_ok_def)

text \<open>A LoRA id stands for one adapter: after any requests whose paths do not begin with the reserved prefix
  and that fit 32 bits, all known ids are different, a request for a known path returns its id, and any
  other request returns an id that no known adapter has, recorded for its path.\<close>

theorem lora_ids_identify_adapters:
  assumes "list_all (\<lambda>r. \<not> starts_with (fst r) ''scoped_lora:'') rs" "length rs < 2 ^ 32"
    and "ids = fold (\<lambda>r ids. snd (assign_id ids (fst r) (snd r))) rs []"
    and "\<not> starts_with path ''scoped_lora:''" "path \<noteq> '''' \<or> has_file"
  shows "distinct (map snd ids) \<and>
    (\<exists>i. fst (assign_id ids path has_file) = Some i \<and>
       (if map_of ids path = None \<or> path = '''' then i \<notin> set (map snd ids) else map_of ids path = Some i) \<and>
       (path \<noteq> '''' \<longrightarrow> map_of (snd (assign_id ids path has_file)) path = Some i))"
proof -
  have ok: "lora_ok ids" "length ids < 2 ^ 32" using lora_run_ok [OF assms(1)] assms(2,3) by auto
  have inj: "(of_nat a :: 32 word) = of_nat b \<longleftrightarrow> a = b" if "a < 2 ^ 32" "b < 2 ^ 32" for a b
    using that by (simp add: word_of_nat_eq_iff take_bit_nat_eq_self)
  have snd: "map snd ids = map of_nat [0..<length ids]" using ok(1) by (simp add: lora_ok_def)
  have "inj_on (of_nat :: nat \<Rightarrow> 32 word) {0..<length ids}" by (rule inj_onI) (use inj ok(2) in simp)
  then have d: "distinct (map snd ids)" unfolding snd by (simp add: distinct_map)
  have new: "of_nat (length ids) \<notin> set (map snd ids)" unfolding snd using inj ok(2) by auto
  show ?thesis using assign_id_cases [OF ok(1) assms(4,5)] d new by (auto simp: map_of_append map_add_def)
qed

lemma lora_ids_identify_adapters_witness:
  "fst (assign_id (fold (\<lambda>r ids. snd (assign_id ids (fst r) (snd r))) [(''a'', False), ('''', True)] []) ''b'' False) = Some 2 \<and>
   distinct (map snd (fold (\<lambda>r ids. snd (assign_id ids (fst r) (snd r))) [(''a'', False), ('''', True)] []))"
  using lora_ids_identify_adapters [OF _ _ refl, of "[(''a'', False), ('''', True)]" "''b''" False]
  by (simp add: starts_with_def assign_id_def decimal.simps)

text \<open>A path with the reserved prefix breaks this: three different adapters get two ids.\<close>

lemma reserved_path_shares_id:
  "map (\<lambda>n. fst (assign_id (fold (\<lambda>r ids. snd (assign_id ids (fst r) (snd r)))
      (take n [(''scoped_lora:1'', False), ('''', True), (''x'', False)]) [])
      (fst ([(''scoped_lora:1'', False), ('''', True), (''x'', False)] ! n))
      (snd ([(''scoped_lora:1'', False), ('''', True), (''x'', False)] ! n)))) [0, 1, 2] = [Some 0, Some 1, Some 1]"
  by code_simp

end
