(* ===== verification/MediaExecutors.thy ===== *)
theory MediaExecutors
  imports Prelude
begin

text \<open>
  The vision and audio executors of the resource manager,
  \<^verbatim>\<open>runtime/framework/resource_management/resource_manager.cc\<close>. The members that these operations use
  are a record of their own (no other operation of the manager touches them); settings, executors and
  the environment of LiteRT are opaque, and their factories are arguments. A call that waits for a lock
  does not return, the value \<open>None\<close>.
\<close>

record ('vs, 'v, 'as, 'a, 'e) media =
  vision_settings :: "'vs option"
  vision_executor :: "'v option"
  vision_locked :: bool
  audio_settings :: "'as option"
  audio_executor :: "'a option"
  audio_locked :: bool
  litert_env :: "'e option"

definition CreateMedia :: "'vs option \<Rightarrow> 'as option \<Rightarrow> 'e option \<Rightarrow> ('vs, 'v, 'as, 'a, 'e) media" where
  "CreateMedia vs as env =
     \<lparr>vision_settings = vs, vision_executor = None, vision_locked = False, audio_settings = as,
      audio_executor = None, audio_locked = False, litert_env = env\<rparr>"

definition MaybeCreateLitertEnv :: "'e status_or \<Rightarrow> (('vs, 'v, 'as, 'a, 'e) media, unit) op" where
  "MaybeCreateLitertEnv created m =
     (if litert_env m \<noteq> None then (Ok, m)
      else case created of Inl e \<Rightarrow> (Inl e, m) | Inr env \<Rightarrow> (Ok, m\<lparr>litert_env := Some env\<rparr>))"

definition TryLoadingVisionExecutor ::
  "'e status_or \<Rightarrow> ('vs \<Rightarrow> 'e \<Rightarrow> 'v status_or) \<Rightarrow> (('vs, 'v, 'as, 'a, 'e) media, unit) uop"
where
  "TryLoadingVisionExecutor created create m =
     (if vision_locked m then None
      else case vision_settings m of
             None \<Rightarrow> Some (Inl InvalidArgument, m)
           | Some vs \<Rightarrow>
               bind_op (defined (MaybeCreateLitertEnv created)) (\<lambda>_ m.
                 case litert_env m of
                   None \<Rightarrow> None
                 | Some env \<Rightarrow>
                     (case create vs env of
                        Inl e \<Rightarrow> Some (Inl e, m)
                      | Inr v \<Rightarrow> Some (Ok, m\<lparr>vision_executor := Some v\<rparr>))) m)"

text \<open>The acquired executor keeps the lock until it is destroyed.\<close>

definition AcquireVisionExecutor :: "(('vs, 'v, 'as, 'a, 'e) media, 'v) uop" where
  "AcquireVisionExecutor m =
     (if vision_locked m then None
      else case vision_executor m of
             None \<Rightarrow> Some (Inl InvalidArgument, m)
           | Some v \<Rightarrow> Some (Inr v, m\<lparr>vision_locked := True\<rparr>))"

definition TryLoadingAudioExecutor :: "('as \<Rightarrow> bool) \<Rightarrow> (('vs, 'v, 'as, 'a, 'e) media, unit) uop" where
  "TryLoadingAudioExecutor is_cpu m =
     (if audio_locked m then None
      else if audio_executor m \<noteq> None then Some (Ok, m)
      else case audio_settings m of
             None \<Rightarrow> Some (Inl InvalidArgument, m)
           | Some as \<Rightarrow> if is_cpu as then Some (Inl InvalidArgument, m) else Some (Inl InvalidArgument, m))"

definition AcquireAudioExecutor :: "(('vs, 'v, 'as, 'a, 'e) media, 'a) uop" where
  "AcquireAudioExecutor m =
     (if audio_locked m then None
      else case audio_executor m of
             None \<Rightarrow> Some (Inl InvalidArgument, m)
           | Some a \<Rightarrow> Some (Inr a, m\<lparr>audio_locked := True\<rparr>))"

definition release_vision :: "('vs, 'v, 'as, 'a, 'e) media \<Rightarrow> ('vs, 'v, 'as, 'a, 'e) media" where
  "release_vision m = m\<lparr>vision_locked := False\<rparr>"

section \<open>Loading and acquiring\<close>

text \<open>What the clients of a manager do; errors are values of \<open>r\<close>.\<close>

inductive media_step ::
  "('vs \<Rightarrow> 'e \<Rightarrow> 'v status_or) \<Rightarrow> ('vs, 'v, 'as, 'a, 'e) media \<Rightarrow> ('vs, 'v, 'as, 'a, 'e) media \<Rightarrow> bool"
  for create
where
  load_vision: "TryLoadingVisionExecutor created create m = Some (r, m') \<Longrightarrow> media_step create m m'"
| acquire_vision: "AcquireVisionExecutor m = Some (r', m') \<Longrightarrow> media_step create m m'"
| release_vision: "media_step create m (release_vision m)"
| load_audio: "TryLoadingAudioExecutor is_cpu m = Some (r, m') \<Longrightarrow> media_step create m m'"
| acquire_audio: "AcquireAudioExecutor m = Some (r'', m') \<Longrightarrow> media_step create m m'"

lemma TryLoadingVision_frame:
  "TryLoadingVisionExecutor created create m = Some (r, m') \<Longrightarrow>
    audio_executor m' = audio_executor m \<and> audio_locked m' = audio_locked m \<and> vision_settings m' = vision_settings m"
  by (auto simp: TryLoadingVisionExecutor_def bind_op_def defined_def MaybeCreateLitertEnv_def
      split: if_splits option.splits sum.splits)

lemma media_step_audio:
  "media_step create m m' \<Longrightarrow> audio_executor m = None \<and> \<not> audio_locked m \<Longrightarrow>
    audio_executor m' = None \<and> \<not> audio_locked m'"
  by (induction rule: media_step.induct)
    (auto dest: TryLoadingVision_frame simp: AcquireVisionExecutor_def release_vision_def TryLoadingAudioExecutor_def
      AcquireAudioExecutor_def split: if_splits option.splits)

text \<open>
  A loaded vision executor can be acquired, but no audio executor can: whatever was called before, loading
  it and acquiring it return the error InvalidArgument.\<close>

lemma audio_executor_never_available:
  assumes "(media_step create)\<^sup>*\<^sup>* (CreateMedia vs as env) m"
  shows "TryLoadingAudioExecutor is_cpu m = Some (Inl InvalidArgument, m) \<and>
    AcquireAudioExecutor m = Some (Inl InvalidArgument, m) \<and>
    (case TryLoadingVisionExecutor created create m of
       Some (Inr _, m') \<Rightarrow> \<exists>v m''. AcquireVisionExecutor m' = Some (Inr v, m'') \<and> vision_locked m''
     | _ \<Rightarrow> True)"
proof -
  have "audio_executor m = None \<and> \<not> audio_locked m"
    using assms by (induction rule: rtranclp_induct) (simp_all add: CreateMedia_def media_step_audio)
  moreover have "\<exists>v m''. AcquireVisionExecutor m' = Some (Inr v, m'') \<and> vision_locked m''"
    if "TryLoadingVisionExecutor created create m = Some (Inr u, m')" for u m'
    using that by (auto simp: TryLoadingVisionExecutor_def bind_op_def defined_def MaybeCreateLitertEnv_def
        AcquireVisionExecutor_def split: if_splits option.splits sum.splits)
  ultimately show ?thesis
    by (auto simp: TryLoadingAudioExecutor_def AcquireAudioExecutor_def split: option.splits sum.splits)
qed

end
