(* ===== verification/StreamCallback.thy ===== *)
theory StreamCallback
  imports IoTypes "HOL-Library.Sublist"
begin

text \<open>
  The streaming of a response to the user, \<^verbatim>\<open>runtime/conversation/internal_callback_util.cc\<close>: the texts
  of a session are accumulated and handed to the user in pieces, such that a tool call, the text from a
  code fence start to the next code fence end, is one piece. The model data processor is a record of its
  methods; a message of the user is a value of type \<open>'m\<close>. The calls of the three callbacks are a list of
  events. \<open>None\<close> would be a loop that does not end.
\<close>

section \<open>Data\<close>

record ('f, 'm) data_processor =
  ToMessage :: "'f responses \<Rightarrow> 'm status_or"
  CodeFenceStart :: string
  CodeFenceEnd :: string

datatype 'm event =
    UserCallback "'m status_or"
  | CancelCallback
  | CompleteMessageCallback 'm

record callback_state =
  accumulated_response_text :: string
  cursor :: nat
  inside_tool_call :: bool

text \<open>The response object that carries one text.\<close>

abbreviation text_response :: "string \<Rightarrow> 'f responses" where
  "text_response t \<equiv> Responses kProcessing [t] [] []"

definition initial_callback_state :: callback_state where
  "initial_callback_state =
     \<lparr>accumulated_response_text = '''', cursor = 0, inside_tool_call = False\<rparr>"

section \<open>Strings\<close>

text \<open>\<^verbatim>\<open>std::string::find\<close>.\<close>

definition find_first :: "string \<Rightarrow> string \<Rightarrow> nat option" where
  "find_first s t = List.find (\<lambda>i. prefix s (drop i t)) [0..<Suc (length t)]"

definition find_from :: "string \<Rightarrow> string \<Rightarrow> nat \<Rightarrow> nat option" where
  "find_from s t pos =
     (if pos \<le> length t then map_option ((+) pos) (find_first s (drop pos t)) else None)"

definition substr :: "string \<Rightarrow> nat \<Rightarrow> nat \<Rightarrow> string" where
  "substr t pos n = take n (drop pos t)"

fun overlap_from :: "string \<Rightarrow> string \<Rightarrow> nat \<Rightarrow> nat" where
  "overlap_from a b 0 = 0"
| "overlap_from a b (Suc n) =
     (if drop (length a - Suc n) a = take (Suc n) b then Suc n else overlap_from a b n)"

definition SuffixPrefixOverlap :: "string \<Rightarrow> string \<Rightarrow> nat" where
  "SuffixPrefixOverlap a b =
     (if a = [] \<or> b = [] then 0 else overlap_from a b (min (length a) (length b)))"

section \<open>Operations\<close>

definition SendMessage :: "('f, 'm) data_processor \<Rightarrow> string \<Rightarrow> 'm event list" where
  "SendMessage p text = (if text = [] then [] else [UserCallback (ToMessage p (text_response text))])"

text \<open>The flag says whether there is a complete message callback; \<open>blank\<close> is the empty message.\<close>

definition SendCompleteMessage ::
  "('f, 'm) data_processor \<Rightarrow> bool \<Rightarrow> 'm \<Rightarrow> callback_state \<Rightarrow> 'm event list" where
  "SendCompleteMessage p complete_message_callback blank st =
     (let text = accumulated_response_text st in
      (if cursor st < length text then SendMessage p (drop (cursor st) text) else []) @
      (case ToMessage p (text_response text) of
         Inl e \<Rightarrow> [UserCallback (Inl e)]
       | Inr m \<Rightarrow> (if complete_message_callback then [CompleteMessageCallback m] else []) @
                  [UserCallback (Inr blank)]))"

text \<open>The two halves of the loop body: what is sent, the new state, and whether the loop is left.\<close>

definition outside_step ::
  "('f, 'm) data_processor \<Rightarrow> callback_state \<Rightarrow> 'm event list \<times> callback_state \<times> bool" where
  "outside_step p st =
     (let text = accumulated_response_text st; cur = cursor st; fs = CodeFenceStart p in
      case (if fs \<noteq> [] then find_from fs text cur else None) of
        Some start \<Rightarrow>
          (SendMessage p (substr text cur (start - cur)),
           st\<lparr>cursor := start, inside_tool_call := True\<rparr>, False)
      | None \<Rightarrow>
          (let overlap = SuffixPrefixOverlap (drop cur text) fs in
           if overlap > 0
           then (let possible_start = length text - overlap in
                 (SendMessage p (substr text cur (possible_start - cur)),
                  st\<lparr>cursor := possible_start\<rparr>, True))
           else (SendMessage p (drop cur text), st\<lparr>cursor := length text\<rparr>, False)))"

definition inside_step ::
  "('f, 'm) data_processor \<Rightarrow> callback_state \<Rightarrow> 'm event list \<times> callback_state \<times> bool" where
  "inside_step p st =
     (let text = accumulated_response_text st; cur = cursor st; fe = CodeFenceEnd p in
      case find_from fe text (cur + length (CodeFenceStart p)) of
        Some pos \<Rightarrow>
          (SendMessage p (substr text cur (pos + length fe - cur)),
           st\<lparr>cursor := pos + length fe, inside_tool_call := False\<rparr>, False)
      | None \<Rightarrow> ([], st, True))"

definition loop_body ::
  "('f, 'm) data_processor \<Rightarrow> callback_state \<Rightarrow> 'm event list \<times> callback_state \<times> bool" where
  "loop_body p st =
     (let (es, st1, leave) = (if \<not> inside_tool_call st then outside_step p st else ([], st, False)) in
      if leave \<or> \<not> inside_tool_call st1 then (es, st1, leave)
      else (let (es2, st2, leave2) = inside_step p st1 in (es @ es2, st2, leave2)))"

partial_function (option) process_text ::
  "('f, 'm) data_processor \<Rightarrow> callback_state \<Rightarrow> ('m event list \<times> callback_state) option" where
  "process_text p st =
     (if cursor st < length (accumulated_response_text st)
      then (case loop_body p st of (es, st', leave) \<Rightarrow>
              if leave then Some (es, st')
              else Option.bind (process_text p st') (\<lambda>r. Some (es @ fst r, snd r)))
      else Some ([], st))"

declare process_text.simps [code]

text \<open>The callback that \<^verbatim>\<open>CreateInternalCallback\<close> returns.\<close>

definition InternalCallback ::
  "('f, 'm) data_processor \<Rightarrow> bool \<Rightarrow> bool \<Rightarrow> 'm \<Rightarrow> 'f responses status_or \<Rightarrow> callback_state \<Rightarrow>
   ('m event list \<times> callback_state) option" where
  "InternalCallback p cancel_callback complete_message_callback blank responses st =
     (case responses of
        Inl e \<Rightarrow>
          Some ((if cancel_callback \<and> e = Cancelled then [CancelCallback] else []) @
                [UserCallback (Inl e)], st)
      | Inr r \<Rightarrow>
          if GetTaskState r = kDone \<or> GetTaskState r = kMaxNumTokensReached
          then Some (SendCompleteMessage p complete_message_callback blank st, st)
          else if GetTaskState r = kProcessing
          then (if GetTexts r = [] then Some ([], st)
                else process_text p (st\<lparr>accumulated_response_text :=
                                         accumulated_response_text st @ hd (GetTexts r)\<rparr>))
          else Some ([], st))"

text \<open>A stream of responses.\<close>

fun stream ::
  "('f, 'm) data_processor \<Rightarrow> bool \<Rightarrow> bool \<Rightarrow> 'm \<Rightarrow> 'f responses status_or list \<Rightarrow> callback_state \<Rightarrow>
   ('m event list \<times> callback_state) option" where
  "stream p cc mc blank [] st = Some ([], st)"
| "stream p cc mc blank (r # rs) st =
     Option.bind (InternalCallback p cc mc blank r st)
       (\<lambda>(es, st'). Option.bind (stream p cc mc blank rs st') (\<lambda>(es', st''). Some (es @ es', st'')))"

section \<open>Searching\<close>

definition occurs :: "string \<Rightarrow> string \<Rightarrow> nat \<Rightarrow> bool" where
  "occurs s t i \<longleftrightarrow> i \<le> length t \<and> prefix s (drop i t)"

lemma find_first_Some_iff:
  "find_first s t = Some i \<longleftrightarrow> occurs s t i \<and> (\<forall>j<i. \<not> occurs s t j)"
proof -
  have nth: "[0..<Suc (length t)] ! k = k" if "k \<le> length t" for k
    using that nth_upt [of 0 k "Suc (length t)"] by (simp del: upt_Suc)
  show ?thesis
  proof
    assume "find_first s t = Some i"
    then obtain k where k: "k < Suc (length t)" "i = [0..<Suc (length t)] ! k"
      "prefix s (drop ([0..<Suc (length t)] ! k) t)"
      "\<And>j. j < k \<Longrightarrow> \<not> prefix s (drop ([0..<Suc (length t)] ! j) t)"
      by (auto simp: find_first_def find_Some_iff simp del: upt_Suc)
    moreover from this nth have "i = k" by simp
    ultimately show "occurs s t i \<and> (\<forall>j<i. \<not> occurs s t j)" using nth by (auto simp: occurs_def)
  next
    assume "occurs s t i \<and> (\<forall>j<i. \<not> occurs s t j)"
    then show "find_first s t = Some i"
      using nth by (auto simp: find_first_def find_Some_iff occurs_def simp del: upt_Suc
          intro!: exI [of _ i])
  qed
qed

lemma find_first_None_iff: "find_first s t = None \<longleftrightarrow> (\<forall>j. \<not> occurs s t j)"
  by (auto simp: find_first_def find_None_iff occurs_def simp del: upt_Suc)

lemma occurs_length: "occurs s t i \<Longrightarrow> i + length s \<le> length t"
  by (auto simp: occurs_def dest: prefix_length_le)

lemma occurs_nonempty: "occurs s t i \<Longrightarrow> s \<noteq> [] \<Longrightarrow> t \<noteq> []"
  by (auto simp: occurs_def)

lemma occurs_append: "occurs s t i \<Longrightarrow> occurs s (t @ c) i"
  by (auto simp: occurs_def)

lemma occurs_appendD:
  assumes "occurs s (t @ c) i" and "i + length s \<le> length t"
  shows "occurs s t i"
proof -
  have "prefix s (drop i t @ c)" using assms by (simp add: occurs_def)
  moreover have "length s \<le> length (drop i t)" using assms by simp
  ultimately have "prefix s (drop i t)" by (rule prefix_length_prefix [OF _ prefixI [OF refl]])
  then show ?thesis using assms by (simp add: occurs_def)
qed

lemma occurs_drop: "n \<le> length t \<Longrightarrow> occurs s (drop n t) i \<longleftrightarrow> occurs s t (n + i)"
  by (auto simp: occurs_def add.commute)

lemma find_first_append:
  assumes "find_first s t = Some i"
  shows "find_first s (t @ c) = Some i"
proof -
  have i: "occurs s t i" "\<And>j. j < i \<Longrightarrow> \<not> occurs s t j" using assms by (auto simp: find_first_Some_iff)
  have "\<not> occurs s (t @ c) j" if "j < i" for j
    using i(2) [OF that] occurs_appendD [of s t c j] occurs_length [OF i(1)] that by auto
  then show ?thesis using i(1) by (simp add: find_first_Some_iff occurs_append)
qed

text \<open>The first occurrence in a text that has none before position \<open>n\<close>.\<close>

lemma find_first_skip:
  assumes "\<And>j. j < n \<Longrightarrow> \<not> occurs s t j" and "n \<le> length t"
  shows "find_first s t = map_option ((+) n) (find_first s (drop n t))"
proof (cases "find_first s (drop n t)")
  case None
  have "\<not> occurs s t j" for j
    using None assms occurs_drop [OF assms(2), of s "j - n"]
    by (cases "j < n") (auto simp: find_first_None_iff)
  then have "find_first s t = None" by (simp add: find_first_None_iff)
  then show ?thesis using None by simp
next
  case (Some i)
  have "\<not> occurs s t j" if "j < n + i" for j
    using Some assms(1) occurs_drop [OF assms(2), of s "j - n"] that
    by (cases "j < n") (auto simp: find_first_Some_iff)
  then have "find_first s t = Some (n + i)"
    using Some assms by (simp add: find_first_Some_iff occurs_drop)
  then show ?thesis using Some by simp
qed

section \<open>Partial matches\<close>

definition overlaps :: "string \<Rightarrow> string \<Rightarrow> nat \<Rightarrow> bool" where
  "overlaps a b k \<longleftrightarrow> k \<le> length a \<and> k \<le> length b \<and> drop (length a - k) a = take k b"

lemma overlaps_0 [simp]: "overlaps a b 0"
  by (simp add: overlaps_def)

lemma overlap_from_greatest:
  assumes "n \<le> length a" "n \<le> length b"
  shows "overlap_from a b n \<le> n \<and> overlaps a b (overlap_from a b n) \<and>
         (\<forall>k\<le>n. overlaps a b k \<longrightarrow> k \<le> overlap_from a b n)"
  using assms by (induction n) (auto simp: overlaps_def le_Suc_eq)

lemma SuffixPrefixOverlap_iff:
  "SuffixPrefixOverlap a b = k \<longleftrightarrow> overlaps a b k \<and> (\<forall>j. overlaps a b j \<longrightarrow> j \<le> k)"
proof -
  let ?k = "SuffixPrefixOverlap a b"
  have "overlaps a b ?k \<and> (\<forall>j. overlaps a b j \<longrightarrow> j \<le> ?k)"
    using overlap_from_greatest [of "min (length a) (length b)" a b]
    by (auto simp: SuffixPrefixOverlap_def overlaps_def)
  then show ?thesis by (auto intro: le_antisym)
qed

lemma SuffixPrefixOverlap_le: "SuffixPrefixOverlap a b \<le> length a"
  using SuffixPrefixOverlap_iff [of a b] by (auto simp: overlaps_def)

text \<open>Where the longest partial match begins, an occurrence in a longer text cannot begin earlier.\<close>

lemma partial_match_starts:
  assumes "\<And>j. \<not> occurs s r j" and "j < length r - SuffixPrefixOverlap r s"
  shows "\<not> prefix (take (length (drop j (r @ c))) s) (drop j (r @ c))"
proof
  assume p: "prefix (take (length (drop j (r @ c))) s) (drop j (r @ c))"
  have j: "j \<le> length r" using assms by simp
  show False
  proof (cases "j + length s \<le> length r")
    case True
    then have "occurs s (r @ c) j" using p j by (simp add: occurs_def)
    then show False using occurs_appendD True assms(1) by blast
  next
    case False
    obtain zs where "drop j r @ c = take (length r + length c - j) s @ zs"
      using p j by (auto simp: prefix_def)
    then have "take (length r - j) (drop j r @ c) = take (length r - j) (take (length r + length c - j) s @ zs)"
      by simp
    then have "take (length r - j) s = drop j r" using False j by (simp add: min_def split: if_splits)
    then have "overlaps r s (length r - j)" using False j by (simp add: overlaps_def)
    then have "length r - j \<le> SuffixPrefixOverlap r s" using SuffixPrefixOverlap_iff by blast
    then show False using assms(2) by simp
  qed
qed

lemma no_earlier_start:
  assumes "\<And>j. \<not> occurs s r j" and "j < length r - SuffixPrefixOverlap r s"
  shows "\<not> occurs s (r @ c) j"
  using partial_match_starts [OF assms, of c] assms(2)
  by (auto simp: occurs_def intro: prefix_order.trans [OF take_is_prefix])

lemma overlap_append:
  assumes "\<And>j. \<not> occurs s r j" and "n = length r - SuffixPrefixOverlap r s"
  shows "SuffixPrefixOverlap (r @ c) s = SuffixPrefixOverlap (drop n r @ c) s"
proof -
  have n: "n \<le> length r" using assms(2) by simp
  have "overlaps (r @ c) s k \<longleftrightarrow> overlaps (drop n r @ c) s k" for k
  proof (cases "k \<le> length (drop n r @ c)")
    case True
    then show ?thesis using n by (auto simp: overlaps_def drop_append)
  next
    case False
    have "\<not> overlaps (r @ c) s k"
    proof
      assume o: "overlaps (r @ c) s k"
      let ?j = "length (r @ c) - k"
      have "drop ?j (r @ c) = take k s" "?j < n" "length (drop ?j (r @ c)) = k"
        using o False n by (auto simp: overlaps_def)
      then show False using partial_match_starts [OF assms(1), of ?j c] assms(2) by simp
    qed
    then show ?thesis using False by (auto simp: overlaps_def)
  qed
  then show ?thesis using SuffixPrefixOverlap_iff by metis
qed

section \<open>The reference: cutting a complete text\<close>

text \<open>
  \<open>pieces\<close> cuts a text into texts and tool calls; a call that is not closed is the last piece.
  \<open>merge_texts\<close> joins the texts between two calls.
\<close>

function pieces :: "string \<Rightarrow> string \<Rightarrow> string \<Rightarrow> string list" where
  "pieces fs fe t =
     (case (if fs \<noteq> [] then find_first fs t else None) of
        None \<Rightarrow> [t]
      | Some i \<Rightarrow>
          (case find_first fe (drop (length fs) (drop i t)) of
             None \<Rightarrow> [take i t, drop i t]
           | Some j \<Rightarrow> (let e = length fs + j + length fe in
                take i t # take e (drop i t) # pieces fs fe (drop e (drop i t)))))"
  by pat_completeness auto
termination
  by (relation "measure (\<lambda>(fs, fe, t). length t)")
    (auto split: if_splits simp: find_first_Some_iff dest: occurs_nonempty intro!: diff_less)

declare pieces.simps [simp del]

definition is_call :: "string \<Rightarrow> string \<Rightarrow> bool" where
  "is_call fs x \<longleftrightarrow> fs \<noteq> [] \<and> prefix fs x"

fun merge_from :: "string \<Rightarrow> string \<Rightarrow> string list \<Rightarrow> string list" where
  "merge_from fs t [] = (if t = [] then [] else [t])"
| "merge_from fs t (x # xs) =
     (if is_call fs x then (if t = [] then [] else [t]) @ x # merge_from fs [] xs
      else merge_from fs (t @ x) xs)"

definition merge_texts :: "string \<Rightarrow> string list \<Rightarrow> string list" where
  "merge_texts fs xs = merge_from fs [] xs"

text \<open>Two lists of pieces that differ in the borders of texts only, whatever comes next.\<close>

definition same_cut :: "string \<Rightarrow> string list \<Rightarrow> string list \<Rightarrow> bool" where
  "same_cut fs xs ys \<longleftrightarrow> (\<forall>t zs. merge_from fs t (xs @ zs) = merge_from fs t (ys @ zs))"

lemma same_cut_merge: "same_cut fs xs ys \<Longrightarrow> merge_texts fs xs = merge_texts fs ys"
  unfolding same_cut_def merge_texts_def by (metis append_Nil2)

lemma same_cut_refl [simp]: "same_cut fs xs xs"
  by (simp add: same_cut_def)

lemma same_cut_trans [trans]: "same_cut fs xs ys \<Longrightarrow> same_cut fs ys zs \<Longrightarrow> same_cut fs xs zs"
  by (simp add: same_cut_def)

lemma same_cut_Cons: "same_cut fs xs ys \<Longrightarrow> same_cut fs (x # xs) (x # ys)"
  by (simp add: same_cut_def)

lemma same_cut_append: "same_cut fs xs ys \<Longrightarrow> same_cut fs (xs @ zs) (ys @ zs)"
  by (simp add: same_cut_def)

lemma same_cut_join:
  "\<not> is_call fs x \<Longrightarrow> \<not> is_call fs y \<Longrightarrow> \<not> is_call fs (x @ y) \<Longrightarrow>
   same_cut fs (x # y # xs) ((x @ y) # xs)"
  by (simp add: same_cut_def)

lemma no_call_Nil [simp]: "\<not> is_call fs []"
  by (auto simp: is_call_def)

lemma no_call_take: "(\<And>j. j < n \<Longrightarrow> \<not> occurs fs t j) \<Longrightarrow> \<not> is_call fs (take n t)"
proof
  assume n: "\<And>j. j < n \<Longrightarrow> \<not> occurs fs t j" and c: "is_call fs (take n t)"
  then have "0 < n" by (cases n) (auto simp: is_call_def)
  then have "\<not> occurs fs t 0" using n by simp
  moreover have "prefix fs t" using c prefix_order.trans [OF _ take_is_prefix] by (auto simp: is_call_def)
  ultimately show False by (simp add: occurs_def)
qed

section \<open>Cutting a text that is not complete\<close>

text \<open>What the loop does to the rest of the text outside a call (\<open>scan\<close>) and in any state.\<close>

function scan :: "string \<Rightarrow> string \<Rightarrow> string \<Rightarrow> string list \<times> bool \<times> string" where
  "scan fs fe r =
     (case (if fs \<noteq> [] then find_first fs r else None) of
        None \<Rightarrow> (let n = length r - SuffixPrefixOverlap r fs in ([take n r], False, drop n r))
      | Some i \<Rightarrow>
          (case find_first fe (drop (length fs) (drop i r)) of
             None \<Rightarrow> ([take i r], True, drop i r)
           | Some j \<Rightarrow> (let e = length fs + j + length fe in
                (case scan fs fe (drop e (drop i r)) of
                   (ts, b, r') \<Rightarrow> (take i r # take e (drop i r) # ts, b, r')))))"
  by pat_completeness auto
termination
  by (relation "measure (\<lambda>(fs, fe, t). length t)")
    (auto split: if_splits simp: find_first_Some_iff dest: occurs_nonempty intro!: diff_less)

declare scan.simps [simp del]

definition resume :: "string \<Rightarrow> string \<Rightarrow> bool \<Rightarrow> string \<Rightarrow> string list \<times> bool \<times> string" where
  "resume fs fe inside r =
     (if inside
      then (case find_first fe (drop (length fs) r) of
              None \<Rightarrow> ([], True, r)
            | Some j \<Rightarrow> (let e = length fs + j + length fe in
                 (case scan fs fe (drop e r) of (ts, b, r') \<Rightarrow> (take e r # ts, b, r'))))
      else scan fs fe r)"

lemma scan_found:
  assumes "fs \<noteq> []" "find_first fs r = Some i" "resume fs fe True (drop i r) = (ts, b, r')"
  shows "scan fs fe r = (take i r # ts, b, r')"
  using assms by (subst scan.simps) (auto simp: resume_def Let_def split: option.splits prod.splits)

lemma scan_not_found:
  assumes "fs = [] \<or> find_first fs r = None" and "n = length r - SuffixPrefixOverlap r fs"
  shows "scan fs fe r = ([take n r], False, drop n r)"
  using assms by (subst scan.simps) (auto simp: Let_def)

section \<open>A text in two parts\<close>

text \<open>
  \<open>continued fs fe inside r c\<close>: cutting \<open>r\<close> and then what was held back together with \<open>c\<close> is
  cutting \<open>r @ c\<close>, up to the borders of texts.
\<close>

definition continued :: "string \<Rightarrow> string \<Rightarrow> bool \<Rightarrow> string \<Rightarrow> string \<Rightarrow> bool" where
  "continued fs fe inside r c \<longleftrightarrow>
     (\<exists>ts b r' ts2 b2 r2 ts3.
        resume fs fe inside r = (ts, b, r') \<and> resume fs fe b (r' @ c) = (ts2, b2, r2) \<and>
        resume fs fe inside (r @ c) = (ts3, b2, r2) \<and>
        same_cut fs (ts @ ts2) ts3)"

lemma continuedI:
  "resume fs fe inside r = (ts, b, r') \<Longrightarrow> resume fs fe b (r' @ c) = (ts2, b2, r2) \<Longrightarrow>
   resume fs fe inside (r @ c) = (ts3, b2, r2) \<Longrightarrow>
   same_cut fs (ts @ ts2) ts3 \<Longrightarrow> continued fs fe inside r c"
  unfolding continued_def by blast

lemma continuedE:
  assumes "continued fs fe inside r c"
  obtains ts b r' ts2 b2 r2 ts3 where
    "resume fs fe inside r = (ts, b, r')" "resume fs fe b (r' @ c) = (ts2, b2, r2)"
    "resume fs fe inside (r @ c) = (ts3, b2, r2)"
    "same_cut fs (ts @ ts2) ts3"
  using assms unfolding continued_def by blast

lemma resume_False [simp]: "resume fs fe False r = scan fs fe r"
  by (simp add: resume_def)

lemma continued_inside:
  assumes "occurs fs r 0"
    and "\<And>e. length fs \<le> e \<Longrightarrow> e \<le> length r \<Longrightarrow> continued fs fe False (drop e r) c"
  shows "continued fs fe True r c"
proof (cases "find_first fe (drop (length fs) r)")
  case None
  obtain ts b r' where rc: "resume fs fe True (r @ c) = (ts, b, r')" by (metis prod_cases3)
  have "resume fs fe True r = ([], True, r)" using None by (simp add: resume_def)
  then show ?thesis by (rule continuedI [OF _ rc rc]) simp
next
  case (Some j)
  define e where "e = length fs + j + length fe"
  have r: "length fs \<le> length r" using occurs_length [OF assms(1)] by simp
  have e: "e \<le> length r"
    using Some occurs_length r unfolding e_def by (fastforce simp: find_first_Some_iff)
  then obtain ts b r' ts2 b2 r2 ts3 where IH:
    "scan fs fe (drop e r) = (ts, b, r')" "resume fs fe b (r' @ c) = (ts2, b2, r2)"
    "scan fs fe (drop e r @ c) = (ts3, b2, r2)" "same_cut fs (ts @ ts2) ts3"
    using assms(2) [of e] unfolding e_def by (auto elim!: continuedE)
  have "find_first fe (drop (length fs) (r @ c)) = Some j"
    using find_first_append [OF Some, of c] r by simp
  then have rc: "resume fs fe True (r @ c) = (take e r # ts3, b2, r2)"
    using IH e by (simp add: resume_def Let_def flip: e_def)
  have "resume fs fe True r = (take e r # ts, b, r')"
    using Some IH by (simp add: resume_def Let_def flip: e_def)
  then show ?thesis by (rule continuedI [OF _ IH(2) rc]) (simp add: same_cut_Cons [OF IH(4)])
qed

lemma continued_outside: "continued fs fe False r c"
proof (induction "length r" arbitrary: r rule: less_induct)
  case less
  show ?case
  proof (cases "fs \<noteq> [] \<and> find_first fs r \<noteq> None")
    case True
    then obtain i where fs: "fs \<noteq> []" and i: "find_first fs r = Some i" by auto
    have o: "occurs fs r i" using i by (simp add: find_first_Some_iff)
    have "continued fs fe True (drop i r) c"
    proof (rule continued_inside)
      show "occurs fs (drop i r) 0" using o by (simp add: occurs_def)
      fix e assume e: "length fs \<le> e"
      have "length (drop (i + e) r) < length r" using occurs_nonempty [OF o fs] fs e
        by (cases fs) (auto intro!: diff_less)
      from less [OF this] show "continued fs fe False (drop e (drop i r)) c" by (simp add: add.commute)
    qed
    then obtain ts b r' ts2 b2 r2 ts3 where IH:
      "resume fs fe True (drop i r) = (ts, b, r')" "resume fs fe b (r' @ c) = (ts2, b2, r2)"
      "resume fs fe True (drop i r @ c) = (ts3, b2, r2)"
      "same_cut fs (ts @ ts2) ts3" by (auto elim!: continuedE)
    have "i \<le> length r" using o by (simp add: occurs_def)
    then have rc: "resume fs fe False (r @ c) = (take i r # ts3, b2, r2)"
      using scan_found [OF fs find_first_append [OF i, of c], of fe] IH by simp
    have "resume fs fe False r = (take i r # ts, b, r')" by (simp add: scan_found [OF fs i IH(1)])
    then show ?thesis by (rule continuedI [OF _ IH(2) rc]) (simp add: same_cut_Cons [OF IH(4)])
  next
    case False
    then have no: "\<not> occurs fs r j" if "fs \<noteq> []" for j using that by (auto simp: find_first_None_iff)
    define n where "n = length r - SuffixPrefixOverlap r fs"
    define q where "q = drop n r @ c"
    have n: "n \<le> length r" and q: "q = drop n (r @ c)" by (simp_all add: n_def q_def)
    have r: "scan fs fe r = ([take n r], False, drop n r)"
      using False n_def by (intro scan_not_found) auto
    have early: "\<not> occurs fs (r @ c) j" if "fs \<noteq> []" "j < n" for j
      using no_earlier_start [OF no] that n_def by simp
    have t1: "\<not> is_call fs (take n r)"
      using no_call_take [of n fs r] no by (cases "fs = []") (auto simp: is_call_def)
    show ?thesis
    proof (cases "fs \<noteq> [] \<and> find_first fs q \<noteq> None")
      case True
      then obtain i where fs: "fs \<noteq> []" and i: "find_first fs q = Some i" by auto
      obtain ts b r' where res: "resume fs fe True (drop i q) = (ts, b, r')" by (metis prod_cases3)
      have i': "find_first fs (r @ c) = Some (n + i)"
        using find_first_skip [of n fs "r @ c"] early [OF fs] n i q by simp
      have "resume fs fe True (drop (n + i) (r @ c)) = (ts, b, r')"
        using res q by (simp only: drop_drop add.commute)
      then have rc: "scan fs fe (r @ c) = (take (n + i) (r @ c) # ts, b, r')"
        by (rule scan_found [OF fs i'])
      have join: "take (n + i) (r @ c) = take n r @ take i q" using n unfolding q take_add by simp
      have "\<not> is_call fs (take i q)" "\<not> is_call fs (take (n + i) (r @ c))"
        by (rule no_call_take; use i i' in \<open>simp add: find_first_Some_iff\<close>)+
      then have "same_cut fs ([take n r] @ take i q # ts) (take (n + i) (r @ c) # ts)"
        using t1 same_cut_join by (simp only: join append.simps)
      moreover have "resume fs fe False (drop n r @ c) = (take i q # ts, b, r')"
        using scan_found [OF fs i res] by (simp flip: q_def)
      moreover note r rc
      ultimately show ?thesis by (intro continuedI [of fs fe False r "[take n r]" False "drop n r" c
            "take i q # ts" b r' "take (n + i) (r @ c) # ts"]) (simp_all only: resume_False)
    next
      case False
      have qn: "fs = [] \<or> find_first fs q = None" using False by auto
      then have rcn: "fs = [] \<or> find_first fs (r @ c) = None"
      proof (cases "fs = []")
        case False
        then show ?thesis using find_first_skip [of n fs "r @ c", OF early [OF False]] n qn q by simp
      qed simp
      define m where "m = length q - SuffixPrefixOverlap q fs"
      have "SuffixPrefixOverlap (r @ c) fs = SuffixPrefixOverlap q fs"
        using overlap_append [OF no n_def] q_def by (cases "fs = []") (simp_all add: SuffixPrefixOverlap_def)
      then have nm: "n + m = length (r @ c) - SuffixPrefixOverlap (r @ c) fs"
        using SuffixPrefixOverlap_le [of q fs] n by (simp add: m_def q_def)
      have nocall: "\<not> is_call fs (take k t)" if "fs = [] \<or> find_first fs t = None" for k t
        using that no_call_take [of k fs t]
        by (cases "fs = []") (simp_all add: is_call_def find_first_None_iff)
      have join: "take (n + m) (r @ c) = take n r @ take m q" using n unfolding q take_add by simp
      have "same_cut fs ([take n r] @ [take m q]) [take (n + m) (r @ c)]"
        using t1 nocall [OF qn, of m] nocall [OF rcn, of "n + m"] same_cut_join
        by (simp only: join append.simps)
      moreover have "resume fs fe False (drop n r @ c) = ([take m q], False, drop m q)"
        using scan_not_found [OF qn m_def] by (simp flip: q_def)
      moreover have "resume fs fe False (r @ c) = ([take (n + m) (r @ c)], False, drop m q)"
        using scan_not_found [OF rcn nm] by (simp only: q resume_False drop_drop add.commute [of m n])
      moreover note r
      ultimately show ?thesis by (intro continuedI [of fs fe False r "[take n r]" False "drop n r" c
            "[take m q]" False "drop m q" "[take (n + m) (r @ c)]"]) (simp_all only: resume_False)
    qed
  qed
qed

lemma continued_resume:
  "(inside \<Longrightarrow> fs \<noteq> [] \<and> occurs fs r 0) \<Longrightarrow> continued fs fe inside r c"
  by (cases inside) (auto intro: continued_outside continued_inside)

section \<open>The loop cuts the text\<close>

lemma occurs_0_iff: "occurs s t 0 \<longleftrightarrow> prefix s t"
  by (simp add: occurs_def)

lemma call_end_le:
  assumes "length fs \<le> length r" "find_first fe (drop (length fs) r) = Some j"
  shows "length fs + j + length fe \<le> length r"
  using assms occurs_length [of fe "drop (length fs) r" j] by (auto simp: find_first_Some_iff)

lemma scan_parts:
  "scan fs fe r = (ts, b, r') \<Longrightarrow> concat ts @ r' = r \<and> (b \<longrightarrow> fs \<noteq> [] \<and> prefix fs r')"
proof (induction "length r" arbitrary: r ts b r' rule: less_induct)
  case less
  show ?case
  proof (cases "fs \<noteq> [] \<and> find_first fs r \<noteq> None")
    case True
    then obtain i where fs: "fs \<noteq> []" and i: "find_first fs r = Some i" by auto
    have o: "occurs fs r i" using i by (simp add: find_first_Some_iff)
    show ?thesis
    proof (cases "find_first fe (drop (length fs) (drop i r))")
      case None
      then have "(ts, b, r') = ([take i r], True, drop i r)"
        using less.prems i fs by (subst (asm) scan.simps) simp
      then show ?thesis using o fs by (simp add: occurs_def)
    next
      case (Some j)
      define e where "e = length fs + j + length fe"
      obtain us where us: "scan fs fe (drop e (drop i r)) = (us, b, r')"
        "ts = take i r # take e (drop i r) # us"
        using less.prems i fs Some
        by (subst (asm) scan.simps) (auto simp: Let_def e_def simp del: drop_drop split: prod.splits)
      have "length (drop e (drop i r)) < length r"
        using occurs_nonempty [OF o fs] fs by (cases fs) (auto simp: e_def intro!: diff_less)
      from less.hyps [OF this us(1)] have "concat us @ r' = drop e (drop i r)"
        "b \<longrightarrow> fs \<noteq> [] \<and> prefix fs r'" by auto
      then show ?thesis using us(2) by (simp del: drop_drop)
    qed
  next
    case False
    then show ?thesis using less.prems scan_not_found [of fs r _ fe, OF _ refl] by auto
  qed
qed

definition sends :: "('f, 'm) data_processor \<Rightarrow> string list \<Rightarrow> 'm event list" where
  "sends p ts = concat (map (SendMessage p) ts)"

lemma sends_simps [simp]:
  "sends p [] = []" "sends p (t # ts) = SendMessage p t @ sends p ts"
  "sends p (ts @ us) = sends p ts @ sends p us"
  by (simp_all add: sends_def)

lemma SendMessage_Nil [simp]: "SendMessage p [] = []"
  by (simp add: SendMessage_def)

abbreviation rest_of :: "callback_state \<Rightarrow> string" where
  "rest_of st \<equiv> drop (cursor st) (accumulated_response_text st)"

definition valid_state :: "('f, 'm) data_processor \<Rightarrow> callback_state \<Rightarrow> bool" where
  "valid_state p st \<longleftrightarrow>
     cursor st \<le> length (accumulated_response_text st) \<and>
     (inside_tool_call st \<longrightarrow> CodeFenceStart p \<noteq> [] \<and> prefix (CodeFenceStart p) (rest_of st))"

definition moved :: "callback_state \<Rightarrow> bool \<Rightarrow> string \<Rightarrow> callback_state" where
  "moved st b r = st\<lparr>cursor := length (accumulated_response_text st) - length r, inside_tool_call := b\<rparr>"

lemma inside_step_eq:
  assumes "cursor st + length (CodeFenceStart p) \<le> length (accumulated_response_text st)"
  shows "inside_step p st =
    (case find_first (CodeFenceEnd p) (drop (length (CodeFenceStart p)) (rest_of st)) of
       None \<Rightarrow> ([], st, True)
     | Some j \<Rightarrow> (let e = length (CodeFenceStart p) + j + length (CodeFenceEnd p) in
         (SendMessage p (take e (rest_of st)), st\<lparr>cursor := cursor st + e, inside_tool_call := False\<rparr>,
          False)))"
  using assms
  by (simp add: inside_step_def find_from_def substr_def Let_def add_ac split: option.splits)

lemma outside_step_found:
  assumes "cursor st \<le> length (accumulated_response_text st)" "CodeFenceStart p \<noteq> []"
    "find_first (CodeFenceStart p) (rest_of st) = Some i"
  shows "outside_step p st =
    (SendMessage p (take i (rest_of st)), st\<lparr>cursor := cursor st + i, inside_tool_call := True\<rparr>, False)"
  using assms by (simp add: outside_step_def find_from_def substr_def Let_def)

lemma outside_step_not_found:
  assumes "cursor st \<le> length (accumulated_response_text st)"
    "CodeFenceStart p = [] \<or> find_first (CodeFenceStart p) (rest_of st) = None"
    "n = length (rest_of st) - SuffixPrefixOverlap (rest_of st) (CodeFenceStart p)"
  shows "outside_step p st = (SendMessage p (take n (rest_of st)), st\<lparr>cursor := cursor st + n\<rparr>,
    0 < SuffixPrefixOverlap (rest_of st) (CodeFenceStart p))"
proof -
  let ?k = "SuffixPrefixOverlap (rest_of st) (CodeFenceStart p)"
  have "?k \<le> length (rest_of st)" by (rule SuffixPrefixOverlap_le)
  then show ?thesis
    using assms by (auto simp: outside_step_def find_from_def substr_def Let_def add.commute diff_diff_eq)
qed

lemma process_text_end:
  "cursor st = length (accumulated_response_text st) \<Longrightarrow> process_text p st = Some ([], st)"
  by (subst process_text.simps) simp

lemma process_text_leave:
  "rest_of st \<noteq> [] \<Longrightarrow> loop_body p st = (es, st', True) \<Longrightarrow> process_text p st = Some (es, st')"
  by (subst process_text.simps) simp

lemma process_text_again:
  "rest_of st \<noteq> [] \<Longrightarrow> loop_body p st = (es, st', False) \<Longrightarrow> process_text p st' = Some (es', st'') \<Longrightarrow>
   process_text p st = Some (es @ es', st'')"
  by (subst process_text.simps) simp

lemma loop_body_inside:
  "inside_tool_call st \<Longrightarrow> loop_body p st = inside_step p st"
  by (simp add: loop_body_def split: prod.splits)

lemma loop_body_enter:
  "\<not> inside_tool_call st \<Longrightarrow> outside_step p st = (es, st1, False) \<Longrightarrow> inside_tool_call st1 \<Longrightarrow>
   inside_step p st1 = (es2, st2, leave) \<Longrightarrow> loop_body p st = (es @ es2, st2, leave)"
  by (simp add: loop_body_def)

lemma loop_body_stay:
  "\<not> inside_tool_call st \<Longrightarrow> outside_step p st = (es, st1, leave) \<Longrightarrow> \<not> inside_tool_call st1 \<Longrightarrow>
   loop_body p st = (es, st1, leave)"
  by (simp add: loop_body_def)

lemma moved_eq [simp]:
  assumes "cursor st \<le> length (accumulated_response_text st)" "n \<le> length (rest_of st)"
  shows "moved st b (drop n (rest_of st)) = st\<lparr>cursor := cursor st + n, inside_tool_call := b\<rparr>"
  using assms by (simp add: moved_def diff_diff_eq)

lemma moved_moved [simp]: "moved (st\<lparr>cursor := c, inside_tool_call := d\<rparr>) b r = moved st b r"
  by (simp add: moved_def)

text \<open>The state inside a call, where the search for its end decides.\<close>

lemma process_text_inside:
  assumes st: "inside_tool_call st" "cursor st \<le> length (accumulated_response_text st)" "CodeFenceStart p \<noteq> []"
      "prefix (CodeFenceStart p) (rest_of st)"
    and res: "resume (CodeFenceStart p) (CodeFenceEnd p) True (rest_of st) = (ts, b, r')"
    and body: "\<And>es2 st2 leave. inside_step p st = (es2, st2, leave) \<Longrightarrow>
      loop_body p st0 = (es @ es2, st2, leave)" "rest_of st0 \<noteq> []"
    and IH: "\<And>e ts b r'. 0 < e \<Longrightarrow> cursor st + e \<le> length (accumulated_response_text st) \<Longrightarrow>
      scan (CodeFenceStart p) (CodeFenceEnd p) (drop (cursor st + e) (accumulated_response_text st)) =
        (ts, b, r') \<Longrightarrow>
      process_text p (st\<lparr>cursor := cursor st + e, inside_tool_call := False\<rparr>) =
        Some (sends p ts, moved st b r')"
  shows "process_text p st0 = Some (es @ sends p ts, moved st b r')"
proof -
  let ?fs = "CodeFenceStart p" and ?fe = "CodeFenceEnd p"
  have len: "length ?fs \<le> length (rest_of st)" using st(4) by (rule prefix_length_le)
  then have step: "inside_step p st = (case find_first ?fe (drop (length ?fs) (rest_of st)) of
       None \<Rightarrow> ([], st, True)
     | Some j \<Rightarrow> (let e = length ?fs + j + length ?fe in
         (SendMessage p (take e (rest_of st)), st\<lparr>cursor := cursor st + e, inside_tool_call := False\<rparr>,
          False)))"
    using st(2) by (intro inside_step_eq) auto
  show ?thesis
  proof (cases "find_first ?fe (drop (length ?fs) (rest_of st))")
    case None
    then have "(ts, b, r') = ([], True, rest_of st)" using res by (simp add: resume_def)
    moreover have "moved st True (rest_of st) = st"
      using moved_eq [OF st(2), of 0 True] st(1) by simp
    moreover have "loop_body p st0 = (es @ [], st, True)" using step None by (intro body) simp
    ultimately show ?thesis using process_text_leave [OF body(2)] by simp
  next
    case (Some j)
    define e where "e = length ?fs + j + length ?fe"
    have e: "0 < e" "cursor st + e \<le> length (accumulated_response_text st)"
      using call_end_le [OF len Some] st(2,3) by (auto simp: e_def)
    obtain us where us: "scan ?fs ?fe (drop e (rest_of st)) = (us, b, r')" "ts = take e (rest_of st) # us"
      using res Some by (auto simp: resume_def Let_def e_def simp del: drop_drop split: prod.splits)
    then have next_run: "process_text p (st\<lparr>cursor := cursor st + e, inside_tool_call := False\<rparr>) =
        Some (sends p us, moved st b r')"
      using IH [OF e] by (simp add: add.commute)
    have "loop_body p st0 = (es @ SendMessage p (take e (rest_of st)),
        st\<lparr>cursor := cursor st + e, inside_tool_call := False\<rparr>, False)"
      using step Some by (intro body) (simp add: Let_def e_def)
    from process_text_again [OF body(2) this next_run] show ?thesis using us(2) by simp
  qed
qed

lemma process_text_outside:
  assumes "cursor st \<le> length (accumulated_response_text st)" "\<not> inside_tool_call st"
    and "scan (CodeFenceStart p) (CodeFenceEnd p) (rest_of st) = (ts, b, r')"
  shows "process_text p st = Some (sends p ts, moved st b r')"
  using assms
proof (induction "length (rest_of st)" arbitrary: st ts b r' rule: less_induct)
  case less
  let ?fs = "CodeFenceStart p" and ?fe = "CodeFenceEnd p"
  show ?case
  proof (cases "?fs \<noteq> [] \<and> find_first ?fs (rest_of st) \<noteq> None")
    case True
    then obtain i where fs: "?fs \<noteq> []" and i: "find_first ?fs (rest_of st) = Some i" by auto
    define st1 where "st1 = st\<lparr>cursor := cursor st + i, inside_tool_call := True\<rparr>"
    have o: "occurs ?fs (rest_of st) i" using i by (simp add: find_first_Some_iff)
    have st1: "rest_of st1 = drop i (rest_of st)" "inside_tool_call st1"
      "cursor st1 \<le> length (accumulated_response_text st1)" "prefix ?fs (rest_of st1)"
      using o less.prems by (auto simp: st1_def occurs_def add.commute)
    obtain us where us: "resume ?fs ?fe True (rest_of st1) = (us, b, r')" "ts = take i (rest_of st) # us"
    proof -
      obtain us b2 r2 where u: "resume ?fs ?fe True (rest_of st1) = (us, b2, r2)" by (metis prod_cases3)
      then have "scan ?fs ?fe (rest_of st) = (take i (rest_of st) # us, b2, r2)"
        using st1(1) by (intro scan_found [OF fs i]) simp
      then show thesis using that [of us] u less.prems(3) by simp
    qed
    have "process_text p st = Some (SendMessage p (take i (rest_of st)) @ sends p us, moved st1 b r')"
    proof (rule process_text_inside [OF st1(2,3) fs st1(4) us(1)])
      show "loop_body p st = (SendMessage p (take i (rest_of st)) @ es2, st2, leave)"
        if "inside_step p st1 = (es2, st2, leave)" for es2 st2 leave
        using loop_body_enter [OF less.prems(2) outside_step_found [OF less.prems(1) fs i], of es2 st2 leave]
          that by (simp add: st1_def)
      show "rest_of st \<noteq> []" using occurs_nonempty [OF o fs] .
      fix e us b r'
      assume e: "0 < e" "cursor st1 + e \<le> length (accumulated_response_text st1)"
        and sc: "scan ?fs ?fe (drop (cursor st1 + e) (accumulated_response_text st1)) = (us, b, r')"
      show "process_text p (st1\<lparr>cursor := cursor st1 + e, inside_tool_call := False\<rparr>) =
          Some (sends p us, moved st1 b r')"
        using less.hyps [of "st1\<lparr>cursor := cursor st1 + e, inside_tool_call := False\<rparr>" us b r'] e sc
        by (simp add: st1_def)
    qed
    then show ?thesis using us(2) by (simp add: st1_def)
  next
    case False
    define n where "n = length (rest_of st) - SuffixPrefixOverlap (rest_of st) ?fs"
    have nf: "?fs = [] \<or> find_first ?fs (rest_of st) = None" using False by auto
    have res: "ts = [take n (rest_of st)]" "\<not> b" "r' = drop n (rest_of st)"
      using scan_not_found [OF nf n_def, of ?fe] less.prems(3) by auto
    have n: "n \<le> length (rest_of st)" by (simp add: n_def)
    have m: "moved st b r' = st\<lparr>cursor := cursor st + n\<rparr>"
      using moved_eq [OF less.prems(1) n, of b] res(2,3) less.prems(2) by simp
    show ?thesis
    proof (cases "rest_of st = []")
      case True
      then show ?thesis using process_text_end [of st p] less.prems(1) n res m by simp
    next
      case ne: False
      have body: "loop_body p st = (SendMessage p (take n (rest_of st)), st\<lparr>cursor := cursor st + n\<rparr>,
          0 < SuffixPrefixOverlap (rest_of st) ?fs)"
        using less.prems(2)
        by (intro loop_body_stay outside_step_not_found [OF less.prems(1) nf n_def]) simp_all
      show ?thesis
      proof (cases "0 < SuffixPrefixOverlap (rest_of st) ?fs")
        case True
        then show ?thesis using process_text_leave [OF ne] body res m by simp
      next
        case False
        then have "n = length (rest_of st)" by (simp add: n_def)
        then have "process_text p (st\<lparr>cursor := cursor st + n\<rparr>) = Some ([], st\<lparr>cursor := cursor st + n\<rparr>)"
          using less.prems(1) by (intro process_text_end) simp
        from process_text_again [OF ne _ this] body False show ?thesis using res m by simp
      qed
    qed
  qed
qed

lemma process_text_resume:
  assumes "valid_state p st"
    and "resume (CodeFenceStart p) (CodeFenceEnd p) (inside_tool_call st) (rest_of st) = (ts, b, r')"
  shows "process_text p st = Some (sends p ts, moved st b r')"
proof (cases "inside_tool_call st")
  case True
  have v: "cursor st \<le> length (accumulated_response_text st)" "CodeFenceStart p \<noteq> []"
    "prefix (CodeFenceStart p) (rest_of st)" using assms(1) True by (auto simp: valid_state_def)
  have "process_text p st = Some ([] @ sends p ts, moved st b r')"
  proof (rule process_text_inside [OF True v])
    show "resume (CodeFenceStart p) (CodeFenceEnd p) True (rest_of st) = (ts, b, r')"
      using assms(2) True by simp
    show "rest_of st \<noteq> []" using v by auto
    show "loop_body p st = ([] @ es2, st2, leave)" if "inside_step p st = (es2, st2, leave)"
      for es2 st2 leave using that True by (simp add: loop_body_inside)
    show "process_text p (st\<lparr>cursor := cursor st + e, inside_tool_call := False\<rparr>) =
        Some (sends p us, moved st b r')"
      if "cursor st + e \<le> length (accumulated_response_text st)"
        "scan (CodeFenceStart p) (CodeFenceEnd p) (drop (cursor st + e) (accumulated_response_text st)) =
          (us, b, r')" for e us b r'
      using process_text_outside [of "st\<lparr>cursor := cursor st + e, inside_tool_call := False\<rparr>" p us b r'] that
      by simp
  qed
  then show ?thesis by simp
next
  case False
  then show ?thesis using assms by (intro process_text_outside) (auto simp: valid_state_def)
qed

section \<open>A stream of texts\<close>

text \<open>A response that carries one text, and the last one.\<close>

abbreviation chunk :: "string \<Rightarrow> 'f responses status_or" where
  "chunk t \<equiv> Inr (text_response t)"

text \<open>After the chunks \<open>us\<close>, the pieces \<open>texts\<close> have been sent.\<close>

definition sent_so_far :: "('f, 'm) data_processor \<Rightarrow> string list \<Rightarrow> string list \<Rightarrow> callback_state \<Rightarrow> bool" where
  "sent_so_far p us texts st \<longleftrightarrow>
     valid_state p st \<and> accumulated_response_text st = concat us \<and>
     concat texts @ rest_of st = concat us \<and>
     (\<exists>ts. scan (CodeFenceStart p) (CodeFenceEnd p) (concat us) = (ts, inside_tool_call st, rest_of st) \<and>
           same_cut (CodeFenceStart p) texts ts)"

lemma SuffixPrefixOverlap_Nil [simp]: "SuffixPrefixOverlap [] b = 0"
  by (simp add: SuffixPrefixOverlap_def)

lemma scan_Nil [simp]: "scan fs fe [] = ([[]], False, [])"
proof -
  have "fs = [] \<or> find_first fs [] = None"
    using occurs_nonempty by (cases "find_first fs []") (auto simp: find_first_Some_iff)
  from scan_not_found [OF this refl] show ?thesis by simp
qed

lemma sent_so_far_initial: "sent_so_far p [] [] initial_callback_state"
  by (auto simp: sent_so_far_def initial_callback_state_def valid_state_def same_cut_def
      intro!: exI [of _ "[[]]"])

lemma resume_parts:
  assumes "resume fs fe inside r = (ts, b, r')" and "inside \<Longrightarrow> fs \<noteq> [] \<and> prefix fs r"
  shows "concat ts @ r' = r \<and> (b \<longrightarrow> fs \<noteq> [] \<and> prefix fs r')"
proof (cases "inside \<and> find_first fe (drop (length fs) r) \<noteq> None")
  case True
  then obtain j us where "ts = take (length fs + j + length fe) r # us"
    "scan fs fe (drop (length fs + j + length fe) r) = (us, b, r')"
    using assms(1) by (auto simp: resume_def Let_def split: prod.splits)
  then show ?thesis using scan_parts [of fs fe _ us b r'] by auto
next
  case False
  then show ?thesis using assms scan_parts [of fs fe r ts b r'] by (auto simp: resume_def split: if_splits)
qed

lemma chunk_step:
  assumes "sent_so_far p us texts st"
  shows "\<exists>ts st'. InternalCallback p cc mc blank (chunk v) st = Some (sends p ts, st') \<and>
           sent_so_far p (us @ [v]) (texts @ ts) st'"
proof -
  let ?fs = "CodeFenceStart p" and ?fe = "CodeFenceEnd p"
  define st0 where "st0 = st\<lparr>accumulated_response_text := concat us @ v\<rparr>"
  obtain ts0 where st: "valid_state p st" "accumulated_response_text st = concat us"
    "concat texts @ rest_of st = concat us"
    "scan ?fs ?fe (concat us) = (ts0, inside_tool_call st, rest_of st)" "same_cut ?fs texts ts0"
    using assms by (auto simp: sent_so_far_def)
  have r0: "rest_of st0 = rest_of st @ v" and v0: "valid_state p st0"
    using st(1,2) by (auto simp: st0_def valid_state_def)
  obtain ts2 b2 r2 ts3 where run: "resume ?fs ?fe (inside_tool_call st) (rest_of st @ v) = (ts2, b2, r2)"
    "scan ?fs ?fe (concat us @ v) = (ts3, b2, r2)" "same_cut ?fs (ts0 @ ts2) ts3"
    using continued_outside [of ?fs ?fe "concat us" v] st(4) by (auto simp: continued_def)
  have parts: "concat ts2 @ r2 = rest_of st @ v" "b2 \<longrightarrow> ?fs \<noteq> [] \<and> prefix ?fs r2"
    using resume_parts [OF run(1)] st(1) by (auto simp: valid_state_def)
  have step: "InternalCallback p cc mc blank (chunk v) st = Some (sends p ts2, moved st0 b2 r2)"
    using process_text_resume [OF v0, of ts2 b2 r2] run(1) r0 st(2)
    by (simp add: InternalCallback_def st0_def)
  have acc: "accumulated_response_text (moved st0 b2 r2) = concat us @ v"
    "cursor (moved st0 b2 r2) \<le> length (concat us @ v)" "inside_tool_call (moved st0 b2 r2) = b2"
    by (simp_all add: moved_def st0_def)
  have whole: "concat (texts @ ts2) @ r2 = concat us @ v"
    using st(3) parts(1) by (metis append.assoc concat_append)
  have rest: "rest_of (moved st0 b2 r2) = r2"
    by (simp add: moved_def st0_def flip: whole)
  have "valid_state p (moved st0 b2 r2)"
    unfolding valid_state_def rest using acc parts(2) by simp
  then have "sent_so_far p (us @ [v]) (texts @ ts2) (moved st0 b2 r2)"
    unfolding sent_so_far_def rest
    using acc whole run(2) same_cut_trans [OF same_cut_append [OF st(5)] run(3)] by simp
  then show ?thesis using step by blast
qed

lemma chunks_stream:
  fixes rs :: "'f responses status_or list"
  shows "sent_so_far p us texts st \<Longrightarrow>
   \<exists>ts st'. stream p cc mc blank (map chunk vs @ rs) st =
              Option.bind (stream p cc mc blank rs st') (\<lambda>(es, st''). Some (sends p ts @ es, st'')) \<and>
            sent_so_far p (us @ vs) (texts @ ts) st'"
proof (induction vs arbitrary: us texts st)
  case Nil
  then show ?case by (auto intro!: exI [of _ "[]"] exI [of _ st] split: Option.bind_splits)
next
  case (Cons v vs)
  from chunk_step [OF Cons.prems, of cc mc blank v] obtain ts st' where
    1: "InternalCallback p cc mc blank (chunk v :: 'f responses status_or) st = Some (sends p ts, st')"
      "sent_so_far p (us @ [v]) (texts @ ts) st'" by blast
  from Cons.IH [OF 1(2)] obtain ts2 st2 where
    2: "stream p cc mc blank (map chunk vs @ rs) st' =
          Option.bind (stream p cc mc blank rs st2) (\<lambda>(es, st''). Some (sends p ts2 @ es, st''))"
      "sent_so_far p ((us @ [v]) @ vs) ((texts @ ts) @ ts2) st2" by blast
  have "stream p cc mc blank (map chunk (v # vs) @ rs) st =
          Option.bind (stream p cc mc blank rs st2) (\<lambda>(es, st''). Some (sends p (ts @ ts2) @ es, st''))"
    using 1(1) 2(1) by (cases "stream p cc mc blank rs st2") auto
  then show ?case using 2(2) by (intro exI [of _ "ts @ ts2"] exI [of _ st2]) simp
qed

lemma pieces_scan:
  "scan fs fe t = (ts, b, r) \<Longrightarrow> same_cut fs (ts @ [r]) (pieces fs fe t)"
proof (induction fs fe t arbitrary: ts b r rule: scan.induct)
  case (1 fs fe t)
  show ?case
  proof (cases "fs \<noteq> [] \<and> find_first fs t \<noteq> None")
    case True
    then obtain i where i: "fs \<noteq> []" "find_first fs t = Some i" by auto
    show ?thesis
    proof (cases "find_first fe (drop (length fs) (drop i t))")
      case None
      then show ?thesis using "1.prems" i by (subst pieces.simps, subst (asm) scan.simps) auto
    next
      case (Some j)
      define e where "e = length fs + j + length fe"
      obtain us where us: "scan fs fe (drop e (drop i t)) = (us, b, r)"
        "ts = take i t # take e (drop i t) # us"
        using "1.prems" i Some
        by (subst (asm) scan.simps) (auto simp: Let_def e_def simp del: drop_drop split: prod.splits)
      have "same_cut fs (us @ [r]) (pieces fs fe (drop e (drop i t)))"
        using "1.IH" [of i j] i Some us(1) by (simp add: e_def)
      then show ?thesis using i Some us(2)
        by (subst pieces.simps) (simp add: Let_def same_cut_Cons flip: e_def)
    qed
  next
    case False
    then have nf: "fs = [] \<or> find_first fs t = None" by auto
    define n where "n = length t - SuffixPrefixOverlap t fs"
    have no: "\<not> is_call fs x" if "x = take n t \<or> x = drop n t \<or> x = t" for x
    proof (cases "fs = []")
      case False
      then have "\<not> occurs fs t j" for j using nf by (simp add: find_first_None_iff)
      then have "\<not> prefix fs (drop j t)" if "j \<le> length t" for j using that by (simp add: occurs_def)
      from this [of 0] this [of n] that show ?thesis
        using prefix_order.trans [OF _ take_is_prefix] by (auto simp: is_call_def n_def)
    qed (simp add: is_call_def)
    have "same_cut fs [take n t, drop n t] [t]"
      using same_cut_join [of fs "take n t" "drop n t" "[]"] no by simp
    moreover have "pieces fs fe t = [t]" using nf by (subst pieces.simps) auto
    moreover have "ts = [take n t]" "r = drop n t"
      using "1.prems" scan_not_found [OF nf n_def, of fe] by auto
    ultimately show ?thesis by simp
  qed
qed

section \<open>The complete stream\<close>

text \<open>What the user sees at the end of a complete response \<open>t\<close>.\<close>

definition completion :: "('f, 'm) data_processor \<Rightarrow> bool \<Rightarrow> 'm \<Rightarrow> string \<Rightarrow> 'm event list" where
  "completion p complete_message_callback blank t =
     (case ToMessage p (text_response t) of
        Inl e \<Rightarrow> [UserCallback (Inl e)]
      | Inr m \<Rightarrow> (if complete_message_callback then [CompleteMessageCallback m] else []) @
                 [UserCallback (Inr blank)])"

lemma SendCompleteMessage_eq:
  assumes "cursor st \<le> length (accumulated_response_text st)"
  shows "SendCompleteMessage p mc blank st =
    sends p [rest_of st] @ completion p mc blank (accumulated_response_text st)"
  using assms by (simp add: SendCompleteMessage_def completion_def Let_def)

abbreviation finished :: "'f responses status_or" where
  "finished \<equiv> Inr (StateResponse kDone)"

text \<open>The chunks of a response followed by its end, and by an error.\<close>

lemma stream_chunks:
  fixes r :: "'f responses status_or"
  shows "\<exists>texts st. sent_so_far p ts texts st \<and>
    (\<forall>es st'. InternalCallback p cc mc blank r st = Some (es, st') \<longrightarrow>
       stream p cc mc blank (map chunk ts @ [r]) initial_callback_state = Some (sends p texts @ es, st'))"
  using chunks_stream [OF sent_so_far_initial [of p], of cc mc blank ts "[r]"] by fastforce

lemma finished_after_chunks:
  assumes "sent_so_far p ts texts st"
  shows "InternalCallback p cc mc blank (finished :: 'f responses status_or) st =
    Some (sends p [rest_of st] @ completion p mc blank (concat ts), st)"
proof -
  have "cursor st \<le> length (accumulated_response_text st)" "accumulated_response_text st = concat ts"
    using assms by (auto simp only: sent_so_far_def valid_state_def)
  from SendCompleteMessage_eq [OF this(1), of p mc blank] this(2) show ?thesis
    by (simp add: InternalCallback_def)
qed

text \<open>
  C7. However the response is split into chunks, the user callback receives all of its text, in
  order, and the borders of the pieces are those of cutting the complete text: every tool call, from its
  code fence start to its code fence end, arrives in one piece, and only text outside of calls may
  arrive in more pieces. Then the complete message callback gets the complete response, and the user
  callback the empty message. The loop always ends.
\<close>

theorem streamed_pieces_do_not_depend_on_chunks:
  "\<exists>texts st.
     stream p cc mc blank (map chunk ts @ [finished :: 'f responses status_or]) initial_callback_state =
       Some (concat (map (SendMessage p) texts) @ completion p mc blank (concat ts), st) \<and>
     concat texts = concat ts \<and>
     merge_texts (CodeFenceStart p) texts =
       merge_texts (CodeFenceStart p) (pieces (CodeFenceStart p) (CodeFenceEnd p) (concat ts))"
proof -
  let ?fs = "CodeFenceStart p" and ?fe = "CodeFenceEnd p"
  obtain texts st where sent: "sent_so_far p ts texts st" and
    run: "\<forall>es st'. InternalCallback p cc mc blank (finished :: 'f responses status_or) st = Some (es, st') \<longrightarrow>
      stream p cc mc blank (map chunk ts @ [finished]) initial_callback_state = Some (sends p texts @ es, st')"
    using stream_chunks [of p ts cc mc blank "finished :: 'f responses status_or"] by auto
  obtain us where us: "concat texts @ rest_of st = concat ts" "same_cut ?fs texts us"
    "scan ?fs ?fe (concat ts) = (us, inside_tool_call st, rest_of st)"
    using sent by (auto simp: sent_so_far_def)
  note merged = same_cut_merge
    [OF same_cut_trans [OF same_cut_append [OF us(2)] pieces_scan [OF us(3)]]]
  have "stream p cc mc blank (map chunk ts @ [finished :: 'f responses status_or]) initial_callback_state =
      Some (sends p (texts @ [rest_of st]) @ completion p mc blank (concat ts), st)"
    using run finished_after_chunks [OF sent, of cc mc blank] by (simp only: sends_simps append.assoc)
  moreover have "concat (texts @ [rest_of st]) = concat ts" using us(1) by simp
  ultimately show ?thesis using merged unfolding sends_def [symmetric] by blast
qed

text \<open>A call that arrives in three chunks, next to text that only looks like one.\<close>

lemma streamed_example:
  "map_option fst (stream \<lparr>ToMessage = (\<lambda>r. Inr (hd (GetTexts r))), CodeFenceStart = ''``'', CodeFenceEnd = ''`;''\<rparr> True True ''''
     (map chunk [''a`b`'', ''`f()'', ''`;c''] @ [finished]) initial_callback_state) =
   Some (map (UserCallback \<circ> Inr) [''a`b'', ''``f()`;'', ''c''] @
     [CompleteMessageCallback ''a`b``f()`;c'', UserCallback (Inr '''')])"
  by code_simp


end
