(* ===== verification/Conversation.thy ===== *)
theory Conversation
  imports StreamCallback
begin

text \<open>
  A conversation, \<^verbatim>\<open>runtime/conversation/conversation.{h,cc}\<close>: the history of messages, from which the
  text of the next turn is rendered, and the session that gets it. A JSON message is a value of type
  \<open>'j\<close>, or an array of such values. The prompt template (minja), the model data processor and the session
  are records of their methods. The asynchronous methods return before the session calls back; each call
  back is the operation \<open>OnResponses\<close>. The history mutex makes the operations atomic.
\<close>

section \<open>Data\<close>

datatype 'j message = ObjectMessage 'j | ArrayMessage "'j list"

fun messages_of :: "'j message \<Rightarrow> 'j list" where
  "messages_of (ObjectMessage j) = [j]"
| "messages_of (ArrayMessage js) = js"

text \<open>\<^verbatim>\<open>null\<close> messages and tools are \<open>None\<close>.\<close>

record 'j preface =
  preface_messages :: "'j list option"
  preface_tools :: "'j option"
  preface_context :: 'j

record 'j template_input =
  input_messages :: "'j list"
  input_tools :: "'j option"
  add_generation_prompt :: bool
  extra_context :: 'j
  now :: int

record ('f, 'j, 'i, 'c) model_data_processor = "('f, 'j) data_processor" +
  MessageToTemplateInput :: "'j \<Rightarrow> 'j status_or"
  FormatTools :: "'j \<Rightarrow> 'j status_or"
  ToInputDataVector :: "string \<Rightarrow> 'j message \<Rightarrow> 'i status_or"
  CreateConstraint :: "'j \<Rightarrow> 'c status_or"

record ('f, 'i, 'c, 's) session_methods =
  RunPrefill :: "'i \<Rightarrow> ('s, unit) op"
  RunDecode :: "'c option \<Rightarrow> ('s, 'f responses) op"
  GenerateContentStream :: "'i \<Rightarrow> 'c option \<Rightarrow> ('s, unit) op"

text \<open>What does not change during a conversation, and what does.\<close>

record ('f, 'j, 'i, 'c, 's) conversation_parts =
  session_of :: "('f, 'i, 'c, 's) session_methods"
  processor_of :: "('f, 'j, 'i, 'c) model_data_processor"
  preface_of :: "'j preface"
  Apply :: "'j template_input \<Rightarrow> string status_or"
  constrained_decoding_enabled :: bool

record ('j, 'c, 's) conversation =
  history :: "'j list"
  decoding_constraint :: "'c option"
  session :: 's

section \<open>The text of a turn\<close>

fun template_inputs :: "('j \<Rightarrow> 'j status_or) \<Rightarrow> 'j list \<Rightarrow> 'j list status_or" where
  "template_inputs f [] = Inr []"
| "template_inputs f (j # js) =
     try_or_return (f j) (\<lambda>i. try_or_return (template_inputs f js) (\<lambda>is. Inr (i # is)))"

definition preface_input ::
  "('f, 'j, 'i, 'c, 's) conversation_parts \<Rightarrow> int \<Rightarrow> 'j template_input status_or" where
  "preface_input v time =
     try_or_return
       (template_inputs (MessageToTemplateInput (processor_of v))
          (case preface_messages (preface_of v) of None \<Rightarrow> [] | Some ms \<Rightarrow> ms))
       (\<lambda>ms. try_or_return
          (case preface_tools (preface_of v) of
             None \<Rightarrow> Inr None
           | Some t \<Rightarrow> try_or_return (FormatTools (processor_of v) t) (\<lambda>t'. Inr (Some t')))
          (\<lambda>ts. Inr \<lparr>input_messages = ms, input_tools = ts, add_generation_prompt = True,
                     extra_context = preface_context (preface_of v), now = time\<rparr>))"

definition with_messages :: "'j template_input \<Rightarrow> 'j list \<Rightarrow> bool \<Rightarrow> 'j template_input" where
  "with_messages inp ms prompt =
     inp\<lparr>input_messages := input_messages inp @ ms, add_generation_prompt := prompt\<rparr>"

definition GetSingleTurnText ::
  "('f, 'j, 'i, 'c, 's) conversation_parts \<Rightarrow> int \<Rightarrow> 'j message \<Rightarrow> ('j, 'c, 's) conversation \<Rightarrow>
   string status_or" where
  "GetSingleTurnText v time m c =
     (let convert = template_inputs (MessageToTemplateInput (processor_of v)) in
      try_or_return (preface_input v time) (\<lambda>inp.
      try_or_return (convert (history c)) (\<lambda>old.
        if history c = []
        then try_or_return (convert (messages_of m)) (\<lambda>new.
               Apply v (with_messages inp (old @ new) True))
        else try_or_return (Apply v (with_messages inp old False)) (\<lambda>old_string.
             try_or_return (convert (messages_of m)) (\<lambda>new.
             try_or_return (Apply v (with_messages inp (old @ new) True)) (\<lambda>new_string.
               if substr new_string 0 (length old_string) \<noteq> old_string then Inl Internal
               else Inr (substr new_string (length old_string)
                           (length new_string - length old_string))))))))"

section \<open>Operations\<close>

text \<open>The constraint of the decode configuration.\<close>

definition CreateDecodeConfig ::
  "('f, 'j, 'i, 'c, 's) conversation_parts \<Rightarrow> (('j, 'c, 's) conversation, 'c option) op" where
  "CreateDecodeConfig v c =
     (case (if constrained_decoding_enabled v \<and> decoding_constraint c = None
            then preface_tools (preface_of v) else None) of
        None \<Rightarrow> (Inr (decoding_constraint c), c)
      | Some tools \<Rightarrow>
          (case CreateConstraint (processor_of v) tools of
             Inr k \<Rightarrow> (Inr (Some k), c\<lparr>decoding_constraint := Some k\<rparr>)
           | Inl e \<Rightarrow> (if e = Unimplemented then (Inr (decoding_constraint c), c) else (Inl e, c))))"

definition on_session :: "('s, 'a) op \<Rightarrow> (('j, 'c, 's) conversation, 'a) op" where
  "on_session m c = (case m (session c) of (r, s) \<Rightarrow> (r, c\<lparr>session := s\<rparr>))"

definition pure :: "'a status_or \<Rightarrow> ('t, 'a) op" where
  "pure r c = (r, c)"

definition push_history :: "'j list \<Rightarrow> (('j, 'c, 's) conversation, unit) op" where
  "push_history ms c = (Ok, c\<lparr>history := history c @ ms\<rparr>)"

definition ConversationSendMessage ::
  "('f, 'j, 'i, 'c, 's) conversation_parts \<Rightarrow> int \<Rightarrow> 'j message \<Rightarrow>
   (('j, 'c, 's) conversation, 'j) op" where
  "ConversationSendMessage v time m =
     assign_or_return (\<lambda>c. (GetSingleTurnText v time m c, c)) (\<lambda>single_turn_text.
     assign_or_return (push_history (messages_of m)) (\<lambda>_.
     assign_or_return (pure (ToInputDataVector (processor_of v) single_turn_text m)) (\<lambda>session_inputs.
     assign_or_return (on_session (RunPrefill (session_of v) session_inputs)) (\<lambda>_.
     assign_or_return (CreateDecodeConfig v) (\<lambda>decode_config.
     assign_or_return (on_session (RunDecode (session_of v) decode_config)) (\<lambda>responses.
     assign_or_return (pure (ToMessage (processor_of v) responses)) (\<lambda>assistant_message.
     assign_or_return (push_history [assistant_message]) (\<lambda>_.
     pure (Inr assistant_message)))))))))"

definition SendMessageAsync ::
  "('f, 'j, 'i, 'c, 's) conversation_parts \<Rightarrow> int \<Rightarrow> 'j message \<Rightarrow>
   (('j, 'c, 's) conversation, unit) op" where
  "SendMessageAsync v time m =
     assign_or_return (\<lambda>c. (GetSingleTurnText v time m c, c)) (\<lambda>single_turn_text.
     assign_or_return (push_history (messages_of m)) (\<lambda>_.
     assign_or_return (pure (ToInputDataVector (processor_of v) single_turn_text m)) (\<lambda>session_inputs.
     assign_or_return (CreateDecodeConfig v) (\<lambda>decode_config.
       on_session (GenerateContentStream (session_of v) session_inputs decode_config)))))"

text \<open>The callbacks that \<open>SendMessageAsync\<close> installs; \<open>None\<close> is \<^verbatim>\<open>pop_back\<close> of an empty history.\<close>

fun apply_events :: "'j event list \<Rightarrow> 'j list \<Rightarrow> 'j list option" where
  "apply_events [] h = Some h"
| "apply_events (UserCallback _ # es) h = apply_events es h"
| "apply_events (CancelCallback # es) h = (if h = [] then None else apply_events es (butlast h))"
| "apply_events (CompleteMessageCallback m # es) h = apply_events es (h @ [m])"

definition OnResponses ::
  "('f, 'j, 'i, 'c, 's) conversation_parts \<Rightarrow> 'j \<Rightarrow> 'f responses status_or \<Rightarrow>
   callback_state \<times> ('j, 'c, 's) conversation \<Rightarrow>
   ('j event list \<times> callback_state \<times> ('j, 'c, 's) conversation) option" where
  "OnResponses v blank r sc =
     Option.bind (InternalCallback (data_processor.truncate (processor_of v)) True True blank r (fst sc))
       (\<lambda>(es, st). map_option (\<lambda>h. (es, st, (snd sc)\<lparr>history := h\<rparr>)) (apply_events es (history (snd sc))))"

fun on_all_responses ::
  "('f, 'j, 'i, 'c, 's) conversation_parts \<Rightarrow> 'j \<Rightarrow> 'f responses status_or list \<Rightarrow>
   callback_state \<times> ('j, 'c, 's) conversation \<Rightarrow>
   ('j event list \<times> callback_state \<times> ('j, 'c, 's) conversation) option" where
  "on_all_responses v blank [] sc = Some ([], sc)"
| "on_all_responses v blank (r # rs) sc =
     Option.bind (OnResponses v blank r sc) (\<lambda>(es, sc').
       map_option (\<lambda>(es', sc''). (es @ es', sc'')) (on_all_responses v blank rs sc'))"

section \<open>The history\<close>

lemma on_session_history [simp]: "history (snd (on_session m c)) = history c"
  by (simp add: on_session_def split: prod.splits)

lemma on_session_eq: "on_session m c = (r, c') \<Longrightarrow>
    \<exists>s. m (session c) = (r, s) \<and> c' = c\<lparr>session := s\<rparr>"
  by (auto simp: on_session_def split: prod.splits)

lemma CreateDecodeConfig_history [simp]:
  "history (snd (CreateDecodeConfig v c)) = history c"
  "session (snd (CreateDecodeConfig v c)) = session c"
  by (simp_all add: CreateDecodeConfig_def split: option.splits sum.splits)

text \<open>A method after which the history is \<open>h\<close>, whether it succeeds or not.\<close>

lemma assign_or_return_cases:
  assumes "assign_or_return m k s = (r, s'')"
  obtains e where "m s = (Inl e, s'')" "r = Inl e"
  | v s' where "m s = (Inr v, s')" "k v s' = (r, s'')"
  using assms by (auto simp: assign_or_return_def split: prod.splits sum.splits)

lemma pure_eq [simp]: "pure r c = (r', c') \<longleftrightarrow> r = r' \<and> c = c'"
  by (auto simp: pure_def)

lemma push_history_eq [simp]:
  "push_history ms c = (r, c') \<longleftrightarrow> r = Ok \<and> c' = c\<lparr>history := history c @ ms\<rparr>"
  by (auto simp: push_history_def)

lemma CreateDecodeConfig_eq:
  "CreateDecodeConfig v c = (r, c') \<Longrightarrow> history c' = history c \<and> session c' = session c"
  by (metis CreateDecodeConfig_history snd_conv)

text \<open>A successful synchronous message, step by step.\<close>

lemma ConversationSendMessage_Inr:
  assumes "ConversationSendMessage v time m c = (Inr a, c')"
  obtains t i s1 k r s2 where
    "GetSingleTurnText v time m c = Inr t"
    "ToInputDataVector (processor_of v) t m = Inr i"
    "RunPrefill (session_of v) i (session c) = (Ok, s1)"
    "RunDecode (session_of v) k s1 = (Inr r, s2)"
    "ToMessage (processor_of v) r = Inr a"
    "history c' = history c @ messages_of m @ [a]" "session c' = s2"
  using assms unfolding ConversationSendMessage_def
  by (elim assign_or_return_cases; (force dest!: on_session_eq CreateDecodeConfig_eq intro: that)?)

lemma ConversationSendMessage_Inl:
  assumes "ConversationSendMessage v time m c = (Inl e, c')"
  shows "history c' = (case GetSingleTurnText v time m c of Inl _ \<Rightarrow> history c
                       | Inr _ \<Rightarrow> history c @ messages_of m)"
  using assms unfolding ConversationSendMessage_def
  by (elim assign_or_return_cases; clarsimp dest!: on_session_eq CreateDecodeConfig_eq)

text \<open>
  C33. A message that is answered extends the history by the message, or by every element of an array
  of messages, and by the answer. A message that is not answered leaves the history as it was when its text
  could not be rendered; after that point every failure leaves the message in the history without an answer.
\<close>

theorem send_message_history:
  "case ConversationSendMessage v time m c of
     (Inr a, c') \<Rightarrow> history c' = history c @ messages_of m @ [a]
   | (Inl e, c') \<Rightarrow> history c' = (case GetSingleTurnText v time m c of
                                  Inl _ \<Rightarrow> history c | Inr _ \<Rightarrow> history c @ messages_of m)"
  by (auto split: prod.splits sum.split
      dest: ConversationSendMessage_Inl elim!: ConversationSendMessage_Inr)

section \<open>Asynchronous messages\<close>

abbreviation stream_processor ::
  "('f, 'j, 'i, 'c, 's) conversation_parts \<Rightarrow> ('f, 'j) data_processor" where
  "stream_processor v \<equiv> data_processor.truncate (processor_of v)"

lemma truncate_sel [simp]:
  "ToMessage (data_processor.truncate p) = ToMessage p"
  "CodeFenceStart (data_processor.truncate p) = CodeFenceStart p"
  "CodeFenceEnd (data_processor.truncate p) = CodeFenceEnd p"
  by (simp_all add: data_processor.truncate_def)

lemma apply_events_append:
  "apply_events (es @ es') h = Option.bind (apply_events es h) (apply_events es')"
  by (induction es h rule: apply_events.induct) simp_all

lemma apply_events_sends [simp]: "apply_events (sends p ts @ es) h = apply_events es h"
  by (induction ts) (simp_all add: SendMessage_def)

text \<open>The callbacks of a stream only touch the history, through the events of the stream.\<close>

lemma on_all_responses_eq:
  "on_all_responses v blank rs (st, c) =
     Option.bind (stream (stream_processor v) True True blank rs st) (\<lambda>(es, st').
       map_option (\<lambda>h. (es, st', c\<lparr>history := h\<rparr>)) (apply_events es (history c)))"
proof (induction rs arbitrary: st c)
  case (Cons r rs)
  let ?p = "stream_processor v"
  show ?case
  proof (cases "InternalCallback ?p True True blank r st")
    case None
    then show ?thesis by (simp add: OnResponses_def)
  next
    case (Some x)
    obtain es st' where x: "x = (es, st')" by (cases x)
    show ?thesis
    proof (cases "apply_events es (history c)")
      case None
      then show ?thesis using Some x
        by (cases "stream ?p True True blank rs st'") (auto simp: OnResponses_def apply_events_append)
    next
      case (Some h)
      then show ?thesis using \<open>InternalCallback _ _ _ _ _ _ = Some x\<close> x
        by (cases "stream ?p True True blank rs st'")
          (auto simp: OnResponses_def apply_events_append Cons.IH option.map_comp o_def)
    qed
  qed
qed simp

lemma SendMessageAsync_Ok:
  "SendMessageAsync v time m c = (Ok, c') \<Longrightarrow> history c' = history c @ messages_of m"
  unfolding SendMessageAsync_def
  by (elim assign_or_return_cases; (force dest!: on_session_eq CreateDecodeConfig_eq)?)

lemma all_responses_after_chunks:
  fixes r :: "'f responses status_or"
  assumes "\<And>st texts. sent_so_far (stream_processor v) ts texts st \<Longrightarrow>
    \<exists>xs es st'. InternalCallback (stream_processor v) True True blank r st = Some (sends (stream_processor v) xs @ es, st') \<and>
      apply_events es (history c) = Some h"
  shows "\<exists>es st. on_all_responses v blank (map chunk ts @ [r]) (initial_callback_state, c) =
           Some (es, st, c\<lparr>history := h\<rparr>)"
proof -
  let ?p = "stream_processor v"
  obtain texts st where sent: "sent_so_far ?p ts texts st" and
    run: "\<forall>es st'. InternalCallback ?p True True blank r st = Some (es, st') \<longrightarrow>
      stream ?p True True blank (map chunk ts @ [r]) initial_callback_state = Some (sends ?p texts @ es, st')"
    using stream_chunks [of ?p ts True True blank r] by auto
  from assms [OF sent] obtain xs es st' where
    "InternalCallback ?p True True blank r st = Some (sends ?p xs @ es, st')"
    "apply_events es (history c) = Some h" by blast
  with run show ?thesis by (simp add: on_all_responses_eq)
qed

text \<open>
  An asynchronous message whose response arrives completely, in whatever chunks, leaves the same
  history as a synchronous one: the message, or the elements of an array, and then the answer made of the
  complete text.
\<close>

theorem streamed_answer_extends_history:
  assumes "SendMessageAsync v time m c = (Ok, c')"
    and "ToMessage (processor_of v) (text_response (concat ts)) = Inr a"
  shows "\<exists>es st c''. on_all_responses v blank (map chunk ts @ [finished]) (initial_callback_state, c') =
           Some (es, st, c'') \<and> history c'' = history c @ messages_of m @ [a]"
proof -
  have "\<exists>es st. on_all_responses v blank (map chunk ts @ [finished]) (initial_callback_state, c') =
          Some (es, st, c'\<lparr>history := history c' @ [a]\<rparr>)"
  proof (rule all_responses_after_chunks)
    fix st texts assume "sent_so_far (stream_processor v) ts texts st"
    from finished_after_chunks [OF this, of True True blank]
    show "\<exists>xs es st'. InternalCallback (stream_processor v) True True blank finished st =
        Some (sends (stream_processor v) xs @ es, st') \<and> apply_events es (history c') = Some (history c' @ [a])"
      using assms(2) by (fastforce simp: completion_def simp del: sends_simps)
  qed
  then show ?thesis using SendMessageAsync_Ok [OF assms(1)] by auto
qed

text \<open>
  Cancelling an asynchronous message takes one message back from the history. So the history is
  what it was before exactly for one message: of an array with several messages the others stay, and an empty
  array costs a message of the past.
\<close>

theorem cancelled_message_history:
  assumes "SendMessageAsync v time m c = (Ok, c')" and "history c @ messages_of m \<noteq> []"
  shows "\<exists>es st c''. on_all_responses v blank (map chunk ts @ [Inl Cancelled]) (initial_callback_state, c') =
           Some (es, st, c'') \<and> history c'' = butlast (history c @ messages_of m) \<and>
           (history c'' = history c \<longleftrightarrow> length (messages_of m) = 1)"
proof -
  have h: "history c' = history c @ messages_of m" by (rule SendMessageAsync_Ok [OF assms(1)])
  have "\<exists>es st. on_all_responses v blank (map chunk ts @ [Inl Cancelled]) (initial_callback_state, c') =
          Some (es, st, c'\<lparr>history := butlast (history c')\<rparr>)"
  proof (rule all_responses_after_chunks)
    fix st
    show "\<exists>xs es st'. InternalCallback (stream_processor v) True True blank (Inl Cancelled) st =
        Some (sends (stream_processor v) xs @ es, st') \<and> apply_events es (history c') = Some (butlast (history c'))"
      using assms(2) h
      by (intro exI [of _ "[]"] exI [of _ "[CancelCallback, UserCallback (Inl Cancelled)]"])
        (simp add: InternalCallback_def)
  qed
  moreover have "butlast (history c @ messages_of m) = history c \<longleftrightarrow> length (messages_of m) = 1"
  proof
    assume "butlast (history c @ messages_of m) = history c"
    then have "length (history c) + length (messages_of m) - 1 = length (history c)"
      by (metis length_append length_butlast)
    then show "length (messages_of m) = 1" using assms(2)
      by (cases "history c"; cases "messages_of m") auto
  qed (auto simp: length_Suc_conv)
  ultimately show ?thesis using h by auto
qed

section \<open>What the model reads\<close>

text \<open>The template applied to the preface and a history, and the turn text in its terms.\<close>

definition rendered ::
  "('f, 'j, 'i, 'c, 's) conversation_parts \<Rightarrow> int \<Rightarrow> 'j list \<Rightarrow> bool \<Rightarrow> string status_or" where
  "rendered v time h prompt =
     try_or_return (preface_input v time) (\<lambda>inp.
     try_or_return (template_inputs (MessageToTemplateInput (processor_of v)) h) (\<lambda>ms.
       Apply v (with_messages inp ms prompt)))"

lemma template_inputs_append:
  "template_inputs f (xs @ ys) =
     try_or_return (template_inputs f xs) (\<lambda>as. try_or_return (template_inputs f ys) (\<lambda>bs. Inr (as @ bs)))"
proof (induction xs)
  case Nil
  then show ?case by (cases "template_inputs f ys") simp_all
next
  case (Cons x xs)
  then show ?case
    by (cases "f x"; cases "template_inputs f xs"; cases "template_inputs f ys") simp_all
qed

lemma GetSingleTurnText_rendered:
  assumes "GetSingleTurnText v time m c = Inr t"
  shows "if history c = [] then rendered v time (messages_of m) True = Inr t
         else \<exists>old. rendered v time (history c) False = Inr old \<and>
                    rendered v time (history c @ messages_of m) True = Inr (old @ t)"
proof (cases "history c = []")
  case True
  then show ?thesis using assms
    by (auto simp: GetSingleTurnText_def rendered_def try_or_return_Inr_iff Let_def)
next
  case False
  then obtain inp old new old_string new_string where
    x: "preface_input v time = Inr inp"
      "template_inputs (MessageToTemplateInput (processor_of v)) (history c) = Inr old"
      "template_inputs (MessageToTemplateInput (processor_of v)) (messages_of m) = Inr new"
      "Apply v (with_messages inp old False) = Inr old_string"
      "Apply v (with_messages inp (old @ new) True) = Inr new_string"
    and y: "take (length old_string) new_string = old_string" "t = drop (length old_string) new_string"
    using assms by (auto simp: GetSingleTurnText_def try_or_return_Inr_iff Let_def substr_def split: if_splits)
  have "new_string = old_string @ t" using y by (metis append_take_drop_id)
  then show ?thesis using False x by (simp add: rendered_def template_inputs_append)
qed

text \<open>
  What the theorem below asks of the session and of the template. \<open>reads\<close> is what the session has read,
  \<open>reply r\<close> what it has read of its own answer \<open>r\<close> (its text, and the text of the stop token if that is
  fed back), \<open>text_of\<close> the text of its inputs. A template may render an answer \<open>a\<close> as it likes, provided
  that it puts it behind the text that ends with the generation prompt, without looking at the clock:
  \<open>shown a\<close> is what stands there, for the Gemma template the text and the end of the turn. Templates
  may refuse histories.
\<close>

definition session_reads ::
  "('f, 'j, 'i, 'c, 's) conversation_parts \<Rightarrow> ('s \<Rightarrow> string) \<Rightarrow> ('i \<Rightarrow> string) \<Rightarrow>
   ('f responses \<Rightarrow> string) \<Rightarrow> bool" where
  "session_reads v reads text_of reply \<longleftrightarrow>
     (\<forall>i s s'. RunPrefill (session_of v) i s = (Ok, s') \<longrightarrow> reads s' = reads s @ text_of i) \<and>
     (\<forall>k s r s'. RunDecode (session_of v) k s = (Inr r, s') \<longrightarrow> reads s' = reads s @ reply r) \<and>
     (\<forall>t m i. ToInputDataVector (processor_of v) t m = Inr i \<longrightarrow> text_of i = t)"

definition answers_follow_prompt ::
  "('f, 'j, 'i, 'c, 's) conversation_parts \<Rightarrow> ('j \<Rightarrow> string) \<Rightarrow> bool" where
  "answers_follow_prompt v shown \<longleftrightarrow>
     (\<forall>h time time' r a p x. rendered v time h True = Inr p \<longrightarrow> ToMessage (processor_of v) r = Inr a \<longrightarrow>
        rendered v time' (h @ [a]) False = Inr x \<longrightarrow> x = p @ shown a)"

fun send_all ::
  "('f, 'j, 'i, 'c, 's) conversation_parts \<Rightarrow> (int \<times> 'j message) list \<Rightarrow> ('j, 'c, 's) conversation \<Rightarrow>
   ('j, 'c, 's) conversation option" where
  "send_all v [] c = Some c"
| "send_all v ((time, m) # ms) c =
     (case ConversationSendMessage v time m c of
        (Inr _, c') \<Rightarrow> send_all v ms c' | (Inl _, _) \<Rightarrow> None)"

text \<open>
  A turn is the text that was given to the session, the answer and its message. After some turns,
  \<open>agrees\<close> says what the session has read and what the template renders.
\<close>

definition agrees ::
  "('f, 'j, 'i, 'c, 's) conversation_parts \<Rightarrow> ('s \<Rightarrow> string) \<Rightarrow> ('f responses \<Rightarrow> string) \<Rightarrow> ('j \<Rightarrow> string) \<Rightarrow>
   (string \<times> 'f responses \<times> 'j) list \<Rightarrow> ('j, 'c, 's) conversation \<Rightarrow> bool" where
  "agrees v reads reply shown turns c \<longleftrightarrow>
     reads (session c) = concat (map (\<lambda>(w, r, a). w @ reply r) turns) \<and>
     (if history c = [] then turns = []
      else \<forall>t x. rendered v t (history c) False = Inr x \<longrightarrow>
             x = concat (map (\<lambda>(w, r, a). w @ shown a) turns))"

lemma send_message_agrees:
  assumes "session_reads v reads text_of reply" and "answers_follow_prompt v shown"
    and "ConversationSendMessage v time m c = (Inr a, c')" and "agrees v reads reply shown turns c"
  shows "\<exists>w r. ToMessage (processor_of v) r = Inr a \<and> history c' = history c @ messages_of m @ [a] \<and>
    agrees v reads reply shown (turns @ [(w, r, a)]) c'"
proof -
  obtain w i s1 k r s2 where run: "GetSingleTurnText v time m c = Inr w"
    "ToInputDataVector (processor_of v) w m = Inr i" "RunPrefill (session_of v) i (session c) = (Ok, s1)"
    "RunDecode (session_of v) k s1 = (Inr r, s2)" "ToMessage (processor_of v) r = Inr a"
    "history c' = history c @ messages_of m @ [a]" "session c' = s2"
    using assms(3) by (rule ConversationSendMessage_Inr)
  have reads: "reads s2 = reads (session c) @ w @ reply r"
    using assms(1) run(2-4) by (auto simp: session_reads_def)
  let ?shown = "concat (map (\<lambda>(w, r, a). w @ shown a) turns)"
  have prompt: "rendered v time (history c @ messages_of m) True = Inr (?shown @ w)"
    using GetSingleTurnText_rendered [OF run(1)] assms(4) by (auto simp: agrees_def split: if_splits)
  have "x = (?shown @ w) @ shown a" if "rendered v t ((history c @ messages_of m) @ [a]) False = Inr x" for t x
    using assms(2) prompt run(5) that unfolding answers_follow_prompt_def by blast
  then have "agrees v reads reply shown (turns @ [(w, r, a)]) c'"
    using reads run(6,7) assms(4) by (simp add: agrees_def)
  then show ?thesis using run(5,6) by blast
qed

lemma send_all_agrees:
  assumes "session_reads v reads text_of reply" and "answers_follow_prompt v shown"
  shows "\<lbrakk>send_all v ms c = Some c'; agrees v reads reply shown turns c\<rbrakk> \<Longrightarrow>
    \<exists>ts. length ts = length ms \<and> (\<forall>(w, r, a) \<in> set ts. ToMessage (processor_of v) r = Inr a) \<and>
      history c' = history c @ concat (map2 (\<lambda>(_, m) (w, r, a). messages_of m @ [a]) ms ts) \<and>
      agrees v reads reply shown (turns @ ts) c'"
proof (induction ms arbitrary: c turns)
  case (Cons x ms)
  then obtain time m a c1 where x: "x = (time, m)" "ConversationSendMessage v time m c = (Inr a, c1)"
    "send_all v ms c1 = Some c'" by (cases x) (auto split: prod.splits sum.splits)
  obtain w r where t: "ToMessage (processor_of v) r = Inr a" "history c1 = history c @ messages_of m @ [a]"
    "agrees v reads reply shown (turns @ [(w, r, a)]) c1"
    using send_message_agrees [OF assms x(2) Cons.prems(2)] by blast
  obtain ts where "length ts = length ms" "\<forall>(w, r, a) \<in> set ts. ToMessage (processor_of v) r = Inr a"
    "history c' = history c1 @ concat (map2 (\<lambda>(_, m) (w, r, a). messages_of m @ [a]) ms ts)"
    "agrees v reads reply shown ((turns @ [(w, r, a)]) @ ts) c'"
    using Cons.IH [OF x(3) t(3)] by blast
  with x(1) t show ?case by (intro exI [of _ "(w, r, a) # ts"]) simp
qed simp

text \<open>
  C5. After any number of answered messages, what the model has read and what the template renders for
  the whole history, preface included, agree turn by turn: both consist of the same texts of the turns
  (each the difference of two renderings), without a gap and without a repetition, and of the answers.
  Only the answers differ: the model has read each as it produced it, the rendering has it as the template
  shows it, and what the template puts behind it is never given to the model. Assumed are a session that
  reads the texts of its inputs and its own answers, and a template that puts an answer behind the
  generation prompt and does not look at the clock.\<close>

theorem model_reads_rendered_history:
  assumes "session_reads v reads text_of reply" and "answers_follow_prompt v shown"
    and "send_all v ms c = Some c'" and "history c = []" and "reads (session c) = []"
  shows "\<exists>turns. length turns = length ms \<and>
    (\<forall>(w, r, a) \<in> set turns. ToMessage (processor_of v) r = Inr a) \<and>
    history c' = concat (map2 (\<lambda>(_, m) (w, r, a). messages_of m @ [a]) ms turns) \<and>
    reads (session c') = concat (map (\<lambda>(w, r, a). w @ reply r) turns) \<and>
    (\<forall>time x. ms \<noteq> [] \<longrightarrow> rendered v time (history c') False = Inr x \<longrightarrow>
       x = concat (map (\<lambda>(w, r, a). w @ shown a) turns))"
proof -
  have "agrees v reads reply shown [] c" using assms(4,5) by (simp add: agrees_def)
  from send_all_agrees [OF assms(1,2,3) this] obtain ts where ts: "length ts = length ms"
    "\<forall>(w, r, a) \<in> set ts. ToMessage (processor_of v) r = Inr a"
    "history c' = concat (map2 (\<lambda>(_, m) (w, r, a). messages_of m @ [a]) ms ts)"
    "agrees v reads reply shown ts c'"
    using assms(4) by auto
  have "history c' \<noteq> []" if "ms \<noteq> []" using that ts(1,3) by (cases ms; cases ts) auto
  then show ?thesis using ts by (intro exI [of _ ts]) (auto simp: agrees_def)
qed

section \<open>A concrete conversation\<close>

text \<open>A template that concatenates the messages, and a session that answers \<^verbatim>\<open>ok\<close>.\<close>

definition example_parts :: "(unit, string, string, unit, string) conversation_parts" where
  "example_parts =
     \<lparr>session_of = \<lparr>RunPrefill = (\<lambda>i s. (Ok, s @ i)),
                    RunDecode = (\<lambda>k s. (Inr (text_response ''ok''), s @ ''ok'')),
                    GenerateContentStream = (\<lambda>i k s. (Ok, s @ i))\<rparr>,
      processor_of = \<lparr>ToMessage = (\<lambda>r. Inr (''>'' @ concat (GetTexts r))),
                      CodeFenceStart = ''``'', CodeFenceEnd = ''`;'',
                      MessageToTemplateInput = Inr, FormatTools = Inr,
                      ToInputDataVector = (\<lambda>t m. Inr t), CreateConstraint = (\<lambda>j. Inl Unimplemented)\<rparr>,
      preface_of = \<lparr>preface_messages = Some [''You are kind.''], preface_tools = None, preface_context = ''''\<rparr>,
      Apply = (\<lambda>inp. Inr (concat (input_messages inp) @ (if add_generation_prompt inp then ''>'' else ''''))),
      constrained_decoding_enabled = False\<rparr>"

definition example_conversation :: "(string, unit, string) conversation" where
  "example_conversation = \<lparr>history = [], decoding_constraint = None, session = ''''\<rparr>"

lemma template_inputs_Inr [simp]: "template_inputs Inr h = Inr h"
  by (induction h) simp_all

lemma example_async:
  "SendMessageAsync example_parts 0 (ArrayMessage [''a'', ''b'']) example_conversation =
     (Ok, example_conversation\<lparr>history := [''a'', ''b''], session := ''You are kind.ab>''\<rparr>)"
  by (simp add: SendMessageAsync_def example_parts_def example_conversation_def GetSingleTurnText_def
      preface_input_def with_messages_def assign_or_return_def pure_def push_history_def on_session_def
      CreateDecodeConfig_def)

lemma streamed_answer_extends_history_witness:
  "\<exists>es st c''. on_all_responses example_parts '''' (map chunk [''o'', ''k''] @ [finished])
       (initial_callback_state, example_conversation\<lparr>history := [''a'', ''b''], session := ''You are kind.ab>''\<rparr>) =
     Some (es, st, c'') \<and> history c'' = [''a'', ''b'', ''>ok'']"
  using streamed_answer_extends_history [OF example_async, of "[''o'', ''k'']" "''>ok''" "''''"]
  by (simp add: example_parts_def example_conversation_def Responses_def del: list.map)

lemma cancelled_message_history_witness:
  "\<exists>es st c''. on_all_responses example_parts '''' (map chunk [''o''] @ [Inl Cancelled])
       (initial_callback_state, example_conversation\<lparr>history := [''a'', ''b''], session := ''You are kind.ab>''\<rparr>) =
     Some (es, st, c'') \<and> history c'' = [''a'']"
  using cancelled_message_history [OF example_async, where ts = "[''o'']" and blank = "''''"]
  by (auto simp: example_conversation_def simp del: list.map)

text \<open>
  The Gemma template (\<^verbatim>\<open>runtime/components/testdata/google-gemma-3-1b-it.jinja\<close>) for messages with a text and
  no system message, and a session that answers \<^verbatim>\<open>ok\<close> and feeds the stop token back.
\<close>

definition newline :: string where
  "newline = [CHR 0x0A]"

definition trim :: "string \<Rightarrow> string" where
  "trim t = (let space = (\<lambda>c. c \<in> set ('' '' @ newline)) in rev (dropWhile space (rev (dropWhile space t))))"

fun alternates :: "bool \<Rightarrow> (string \<times> string) list \<Rightarrow> bool" where
  "alternates user [] = True"
| "alternates user (m # ms) = ((fst m = ''user'') = user \<and> alternates (\<not> user) ms)"

definition gemma_turn :: "string \<times> string \<Rightarrow> string" where
  "gemma_turn m = ''<start_of_turn>'' @ (if fst m = ''assistant'' then ''model'' else fst m) @ newline @
     trim (snd m) @ ''<end_of_turn>'' @ newline"

definition gemma_apply :: "(string \<times> string) template_input \<Rightarrow> string status_or" where
  "gemma_apply inp =
     (if alternates True (input_messages inp)
      then Inr (''<bos>'' @ concat (map gemma_turn (input_messages inp)) @
                (if add_generation_prompt inp then ''<start_of_turn>model'' @ newline else ''''))
      else Inl Internal)"

definition gemma_parts :: "(unit, string \<times> string, string, unit, string) conversation_parts" where
  "gemma_parts =
     \<lparr>session_of = \<lparr>RunPrefill = (\<lambda>i s. (Ok, s @ i)),
                    RunDecode = (\<lambda>k s. (Inr (text_response ''ok''), s @ ''ok<end_of_turn>'')),
                    GenerateContentStream = (\<lambda>i k s. (Ok, s @ i))\<rparr>,
      processor_of = \<lparr>ToMessage = (\<lambda>r. Inr (''assistant'', concat (GetTexts r))),
                      CodeFenceStart = ''``'', CodeFenceEnd = ''`;'',
                      MessageToTemplateInput = Inr, FormatTools = Inr,
                      ToInputDataVector = (\<lambda>t m. Inr t), CreateConstraint = (\<lambda>j. Inl Unimplemented)\<rparr>,
      preface_of = \<lparr>preface_messages = None, preface_tools = None, preface_context = ('''', '''')\<rparr>,
      Apply = gemma_apply, constrained_decoding_enabled = False\<rparr>"

definition gemma_conversation :: "(string \<times> string, unit, string) conversation" where
  "gemma_conversation = \<lparr>history = [], decoding_constraint = None, session = ''''\<rparr>"

definition gemma_messages :: "(int \<times> (string \<times> string) message) list" where
  "gemma_messages = [(0, ObjectMessage (''user'', '' Hi'')), (1, ObjectMessage (''user'', ''Bye''))]"

lemma gemma_session_reads:
  "session_reads gemma_parts (\<lambda>s. s) (\<lambda>i. i) (\<lambda>r. concat (GetTexts r) @ ''<end_of_turn>'')"
  by (simp add: session_reads_def gemma_parts_def Responses_def)

lemma gemma_answers_follow_prompt:
  "answers_follow_prompt gemma_parts (\<lambda>a. trim (snd a) @ ''<end_of_turn>'' @ newline)"
  by (auto simp: answers_follow_prompt_def gemma_parts_def rendered_def preface_input_def with_messages_def
      gemma_apply_def gemma_turn_def split: if_splits)

definition gemma_history :: "(string \<times> string) list" where
  "gemma_history = [(''user'', '' Hi''), (''assistant'', ''ok''), (''user'', ''Bye''), (''assistant'', ''ok'')]"

definition gemma_read :: string where
  "gemma_read = ''<bos><start_of_turn>user'' @ newline @ ''Hi<end_of_turn>'' @ newline @
     ''<start_of_turn>model'' @ newline @ ''ok<end_of_turn>'' @
     ''<start_of_turn>user'' @ newline @ ''Bye<end_of_turn>'' @ newline @
     ''<start_of_turn>model'' @ newline @ ''ok<end_of_turn>''"

lemma gemma_sent:
  "send_all gemma_parts gemma_messages gemma_conversation =
     Some \<lparr>history = gemma_history, decoding_constraint = None, session = gemma_read\<rparr>"
  by (simp add: gemma_messages_def ConversationSendMessage_def gemma_parts_def gemma_conversation_def
      GetSingleTurnText_def preface_input_def with_messages_def assign_or_return_def pure_def
      push_history_def on_session_def CreateDecodeConfig_def Responses_def substr_def Let_def
      gemma_apply_def gemma_turn_def newline_def trim_def gemma_history_def gemma_read_def)

text \<open>The newline that the template puts behind the first answer is missing in what the model has read.\<close>

lemma model_reads_rendered_history_witness:
  "\<exists>w1 w2. gemma_read = w1 @ ''ok<end_of_turn>'' @ w2 @ ''ok<end_of_turn>'' \<and>
     rendered gemma_parts 7 gemma_history False =
       Inr (w1 @ ''ok<end_of_turn>'' @ newline @ w2 @ ''ok<end_of_turn>'' @ newline)"
proof -
  obtain x where x: "rendered gemma_parts 7 gemma_history False = Inr x"
    by (simp add: rendered_def gemma_parts_def preface_input_def with_messages_def gemma_apply_def gemma_history_def)
  have c: "history gemma_conversation = []" "session gemma_conversation = []"
    by (simp_all add: gemma_conversation_def)
  have len: "length gemma_messages = 2" "gemma_messages \<noteq> []" by (simp_all add: gemma_messages_def)
  obtain turns where t: "length turns = length gemma_messages"
    "\<forall>(w, r, a) \<in> set turns. ToMessage (processor_of gemma_parts) r = Inr a"
    "gemma_history = concat (map2 (\<lambda>(_, m) (w, r, a). messages_of m @ [a]) gemma_messages turns)"
    "gemma_read = concat (map (\<lambda>(w, r, a). w @ concat (GetTexts r) @ ''<end_of_turn>'') turns)"
    "\<forall>time x. gemma_messages \<noteq> [] \<longrightarrow> rendered gemma_parts time gemma_history False = Inr x \<longrightarrow>
       x = concat (map (\<lambda>(w, r, a). w @ trim (snd a) @ ''<end_of_turn>'' @ newline) turns)"
    using model_reads_rendered_history [OF gemma_session_reads gemma_answers_follow_prompt gemma_sent c]
    unfolding conversation.select_convs by (elim exE conjE) (rule that)
  obtain w1 r1 a1 w2 r2 a2 where w: "turns = [(w1, r1, a1), (w2, r2, a2)]"
    using t(1) len by (auto simp: length_Suc_conv numeral_2_eq_2)
  have a: "a1 = (''assistant'', ''ok'')" "a2 = (''assistant'', ''ok'')"
    using t(3) w by (auto simp: gemma_messages_def gemma_history_def)
  moreover from this have "concat (GetTexts r1) = ''ok''" "concat (GetTexts r2) = ''ok''"
    using t(2) w by (simp_all add: gemma_parts_def)
  moreover have "trim ''ok'' = ''ok''" by (simp add: trim_def newline_def)
  ultimately have "gemma_read = w1 @ ''ok<end_of_turn>'' @ w2 @ ''ok<end_of_turn>''"
    "x = w1 @ ''ok<end_of_turn>'' @ newline @ w2 @ ''ok<end_of_turn>'' @ newline"
    using t(4) t(5) len(2) w x by simp_all
  with x show ?thesis by blast
qed

end
