(* ===== verification/Sampling.thy ===== *)
theory Sampling
  imports Prelude "HOL-Library.Multiset"
begin

text \<open>
  Sampling on the CPU: \<^verbatim>\<open>runtime/components/sampling_cpu_util.cc\<close> and \<^verbatim>\<open>top_p_cpu_sampler.cc\<close>. Floats
  and doubles are linear orders \<open>'f\<close> and \<open>'d\<close> (no value is a NaN) whose arithmetic is a record of
  operations without laws: it may round as it likes. The algorithms of the C++ library whose result is
  not determined (\<^verbatim>\<open>std::nth_element\<close>, \<^verbatim>\<open>std::sort\<close> on ties, a uniform distribution) are in the record
  too, and \<open>sampling_laws\<close> is what their documentation promises. The random generator is a state \<open>'r\<close>.
  \<open>None\<close> is undefined behaviour. Buffer operations of LiteRT succeed.
\<close>

section \<open>Arithmetic and library\<close>

record ('f, 'd, 'r) numerics =
  zero_f :: 'f
  one_f :: 'f
  epsilon_f :: 'f
  exp_f :: "'f \<Rightarrow> 'f"
  log_f :: "'f \<Rightarrow> 'f"
  add_f :: "'f \<Rightarrow> 'f \<Rightarrow> 'f"
  sub_f :: "'f \<Rightarrow> 'f \<Rightarrow> 'f"
  mul_f :: "'f \<Rightarrow> 'f \<Rightarrow> 'f"
  div_f :: "'f \<Rightarrow> 'f \<Rightarrow> 'f"
  one_over_f :: "'f \<Rightarrow> 'f"
  one_over_nat :: "nat \<Rightarrow> 'f"
  isinf_f :: "'f \<Rightarrow> bool"
  to_double :: "'f \<Rightarrow> 'd"
  zero_d :: 'd
  epsilon_d :: 'd
  add_d :: "'d \<Rightarrow> 'd \<Rightarrow> 'd"
  uniform :: "'d \<Rightarrow> 'd \<Rightarrow> 'r \<Rightarrow> 'd \<times> 'r"
  nth_element :: "(nat \<Rightarrow> nat \<Rightarrow> bool) \<Rightarrow> nat \<Rightarrow> nat list \<Rightarrow> nat list"
  sort_indices :: "(nat \<Rightarrow> nat \<Rightarrow> bool) \<Rightarrow> nat list \<Rightarrow> nat list"

definition selects :: "(nat \<Rightarrow> 'f::linorder) \<Rightarrow> nat \<Rightarrow> nat list \<Rightarrow> nat list \<Rightarrow> bool" where
  "selects f k xs r \<longleftrightarrow>
     mset r = mset xs \<and> (\<forall>x\<in>set (take k r). \<forall>y\<in>set (drop k r). f y \<le> f x)"

definition sorts :: "(nat \<Rightarrow> 'f::linorder) \<Rightarrow> nat list \<Rightarrow> nat list \<Rightarrow> bool" where
  "sorts f xs r \<longleftrightarrow> mset r = mset xs \<and> sorted_wrt (\<lambda>i j. f j \<le> f i) r"

definition sampling_laws :: "('f::linorder, 'd::linorder, 'r) numerics \<Rightarrow> bool" where
  "sampling_laws num \<longleftrightarrow>
     (\<forall>(f :: nat \<Rightarrow> 'f) k xs. k \<le> length xs \<longrightarrow>
        selects f k xs (nth_element num (\<lambda>i j. f i > f j) k xs)) \<and>
     (\<forall>(f :: nat \<Rightarrow> 'f) xs. sorts f xs (sort_indices num (\<lambda>i j. f i > f j) xs)) \<and>
     (\<forall>a b g. a \<le> b \<longrightarrow> a \<le> fst (uniform num a b g) \<and> fst (uniform num a b g) \<le> b)"

text \<open>\<^verbatim>\<open>std::max_element\<close>: the position of the first of the largest elements.\<close>

fun max_scan :: "('a \<Rightarrow> 'a \<Rightarrow> bool) \<Rightarrow> nat \<Rightarrow> 'a \<Rightarrow> nat \<Rightarrow> 'a list \<Rightarrow> nat" where
  "max_scan lt j best i [] = j"
| "max_scan lt j best i (y # ys) =
     (if lt best y then max_scan lt i y (Suc i) ys else max_scan lt j best (Suc i) ys)"

fun max_element :: "('a \<Rightarrow> 'a \<Rightarrow> bool) \<Rightarrow> 'a list \<Rightarrow> nat" where
  "max_element lt [] = 0"
| "max_element lt (x # xs) = max_scan lt 0 x 1 xs"

definition slice :: "nat \<Rightarrow> nat \<Rightarrow> 'a list \<Rightarrow> 'a list" where
  "slice n b xs = take n (drop (b * n) xs)"

definition at :: "'a list \<Rightarrow> nat \<Rightarrow> 'a option" where
  "at xs i = (if i < length xs then Some (xs ! i) else None)"

section \<open>The largest logits\<close>

definition TopKTokenIds ::
  "('f::linorder, 'd::linorder, 'r) numerics \<Rightarrow> 'f list \<Rightarrow> nat \<Rightarrow> nat \<Rightarrow> nat list status_or option" where
  "TopKTokenIds num logits k batch_size =
     (if batch_size = 0 then None
      else if length logits mod batch_size \<noteq> 0 then Some (Inl InvalidArgument)
      else (let vocab_size = length logits div batch_size in
        if k = 1
        then Some (Inr (map (\<lambda>b. max_element (<) (slice vocab_size b logits)) [0..<batch_size]))
        else if vocab_size < k then None
        else Some (Inr (concat (map (\<lambda>b.
               take k (nth_element num
                 (\<lambda>i1 i2. logits ! (b * vocab_size + i1) > logits ! (b * vocab_size + i2)) k
                 [0..<vocab_size])) [0..<batch_size])))))"

section \<open>Softmax\<close>

definition current_temp :: "('f::linorder, 'd, 'r) numerics \<Rightarrow> 'f \<Rightarrow> 'f" where
  "current_temp num temperature = max temperature (epsilon_f num)"

definition scaled_exp :: "('f::linorder, 'd, 'r) numerics \<Rightarrow> 'f \<Rightarrow> 'f \<Rightarrow> 'f \<Rightarrow> 'f" where
  "scaled_exp num temperature logit max_logit =
     exp_f num (div_f num (sub_f num logit max_logit) (current_temp num temperature))"

text \<open>One item of the batch: the probabilities of its tokens, and their largest logit.\<close>

definition softmax_row ::
  "('f::linorder, 'd, 'r) numerics \<Rightarrow> 'f list \<Rightarrow> nat \<Rightarrow> 'f \<Rightarrow> nat \<Rightarrow> nat list \<Rightarrow> ('f list \<times> 'f) option" where
  "softmax_row num logits vocab_size temperature b ids =
     (case those (map (\<lambda>i. at logits (b * vocab_size + i)) ids) of
        None \<Rightarrow> None
      | Some [] \<Rightarrow> None
      | Some ls \<Rightarrow>
          (let m = max_element (<) ls; max_logit = ls ! m; k = length ls;
               es = map (\<lambda>l. scaled_exp num temperature l max_logit) ls;
               sum_of_exps = foldl (add_f num) (zero_f num) es in
           Some (if sum_of_exps \<le> epsilon_f num then replicate k (one_over_nat num k)
                 else if isinf_f num sum_of_exps then (replicate k (zero_f num))[m := one_f num]
                 else map (\<lambda>e. mul_f num e (one_over_f num sum_of_exps)) es,
                 max_logit)))"

definition Softmax ::
  "('f::linorder, 'd, 'r) numerics \<Rightarrow> 'f list \<Rightarrow> nat list \<Rightarrow> 'f \<Rightarrow> nat \<Rightarrow>
   ('f list \<times> 'f list) status_or option" where
  "Softmax num logits topk_token_ids temperature batch_size =
     (if logits = [] then Some (Inl InvalidArgument)
      else if batch_size = 0 then None
      else if length logits mod batch_size \<noteq> 0 then Some (Inl InvalidArgument)
      else if temperature < zero_f num then Some (Inl InvalidArgument)
      else (let vocab_size = length logits div batch_size; k = length topk_token_ids div batch_size in
        map_option (\<lambda>rows. Inr (concat (map fst rows) @
                            replicate (length topk_token_ids - batch_size * k) (zero_f num),
                          map snd rows))
          (those (map (\<lambda>b. softmax_row num logits vocab_size temperature b (slice k b topk_token_ids))
             [0..<batch_size]))))"

section \<open>Sampling\<close>

text \<open>The two loops over the sorted probabilities: the cut at \<open>p\<close>, and the choice.\<close>

fun top_p_cut :: "('f, 'd::linorder, 'r) numerics \<Rightarrow> 'f \<Rightarrow> 'd \<Rightarrow> nat \<Rightarrow> 'f list \<Rightarrow> 'd \<times> nat" where
  "top_p_cut num p cumulative_prob n [] = (cumulative_prob, n)"
| "top_p_cut num p cumulative_prob n (q # qs) =
     (let c = add_d num cumulative_prob (to_double num q) in
      if c \<ge> to_double num p then (c, Suc n) else top_p_cut num p c (Suc n) qs)"

fun pick :: "('f, 'd::linorder, 'r) numerics \<Rightarrow> 'd \<Rightarrow> 'd \<Rightarrow> nat \<Rightarrow> 'f list \<Rightarrow> nat option" where
  "pick num random_sample current_cumulative i [] = None"
| "pick num random_sample current_cumulative i (q # qs) =
     (let c = add_d num current_cumulative (to_double num q) in
      if random_sample \<le> c then Some i else pick num random_sample c (Suc i) qs)"

text \<open>One item of the batch: the id, its score and the generator; an id that is never set is 0.\<close>

definition sample_row ::
  "('f::linorder, 'd::linorder, 'r) numerics \<Rightarrow> 'f list \<Rightarrow> nat \<Rightarrow> 'f \<Rightarrow> 'f \<Rightarrow> nat \<Rightarrow>
   nat list \<Rightarrow> 'f list \<Rightarrow> 'f \<Rightarrow> 'r \<Rightarrow> nat \<times> 'f \<times> 'r" where
  "sample_row num logits vocab_size p temperature b ids probs max_logit rng =
     (let index_of_topk = sort_indices num (\<lambda>i1 i2. probs ! i1 > probs ! i2) [0..<length ids];
          qs = map (\<lambda>i. probs ! i) index_of_topk;
          (cumulative_prob, final_sample_size) = top_p_cut num p (zero_d num) 0 qs in
      if cumulative_prob \<le> epsilon_d num
      then (let tok = ids ! (index_of_topk ! 0) in
            (tok, scaled_exp num temperature (logits ! (b * vocab_size + tok)) max_logit, rng))
      else (case uniform num (zero_d num) cumulative_prob rng of (random_sample, rng') \<Rightarrow>
            (case pick num random_sample (zero_d num) 0 (take final_sample_size qs) of
               Some i \<Rightarrow> (ids ! (index_of_topk ! i), qs ! i, rng')
             | None \<Rightarrow> (0, zero_f num, rng'))))"

fun sample_rows ::
  "('r \<Rightarrow> nat \<Rightarrow> nat \<times> 'f \<times> 'r) \<Rightarrow> nat list \<Rightarrow> 'r \<Rightarrow> (nat \<times> 'f) list \<times> 'r" where
  "sample_rows f [] rng = ([], rng)"
| "sample_rows f (b # bs) rng =
     (case f rng b of (tok, score, rng1) \<Rightarrow>
        (case sample_rows f bs rng1 of (rest, rng2) \<Rightarrow> ((tok, score) # rest, rng2)))"

definition TopKTopPSampling ::
  "('f::linorder, 'd::linorder, 'r) numerics \<Rightarrow> 'f list \<Rightarrow> int \<Rightarrow> 'f \<Rightarrow> 'f \<Rightarrow> nat \<Rightarrow>
   ('r, nat list \<times> 'f list) uop" where
  "TopKTopPSampling num logits k p temperature batch_size rng =
     (if logits = [] then Some (Inl InvalidArgument, rng)
      else if batch_size = 0 then None
      else if length logits mod batch_size \<noteq> 0 then Some (Inl InvalidArgument, rng)
      else if k \<le> 0 then Some (Inl InvalidArgument, rng)
      else if p < zero_f num \<or> p > one_f num then Some (Inl InvalidArgument, rng)
      else (let vocab_size = length logits div batch_size; n = min (nat k) vocab_size in
        case TopKTokenIds num logits n batch_size of
          None \<Rightarrow> None
        | Some (Inl e) \<Rightarrow> Some (Inl e, rng)
        | Some (Inr topk_token_ids) \<Rightarrow>
            (case Softmax num logits topk_token_ids temperature batch_size of
               None \<Rightarrow> None
             | Some (Inl e) \<Rightarrow> Some (Inl e, rng)
             | Some (Inr (probabilities, max_logit_values)) \<Rightarrow>
                 if n = 1 then Some (Inr (topk_token_ids, replicate batch_size (one_f num)), rng)
                 else (case sample_rows (\<lambda>g b. sample_row num logits vocab_size p temperature b
                               (slice n b topk_token_ids) (slice n b probabilities)
                               (max_logit_values ! b) g) [0..<batch_size] rng of
                         (rows, rng') \<Rightarrow> Some (Inr (map fst rows, map snd rows), rng')))))"

section \<open>The sampler\<close>

record 'f top_p_sampler =
  sampler_k :: int
  sampler_p :: 'f
  sampler_temperature :: 'f
  sampler_batch_size :: int

definition CreateTopPSampler ::
  "('f::linorder, 'd, 'r) numerics \<Rightarrow> int \<Rightarrow> 'f \<Rightarrow> 'f \<Rightarrow> int \<Rightarrow> 'f top_p_sampler status_or" where
  "CreateTopPSampler num k p temperature batch_size =
     (if k \<le> 0 then Inl InvalidArgument
      else if p < zero_f num \<or> p > one_f num then Inl InvalidArgument
      else if batch_size \<le> 0 then Inl InvalidArgument
      else if temperature < zero_f num then Inl InvalidArgument
      else Inr \<lparr>sampler_k = k, sampler_p = p, sampler_temperature = temperature,
                sampler_batch_size = batch_size\<rparr>)"

definition NumSignificantDims :: "int list \<Rightarrow> nat" where
  "NumSignificantDims dims = length (filter (\<lambda>d. d > 1) dims)"

definition ValidateTensor :: "int list \<Rightarrow> nat \<Rightarrow> int \<Rightarrow> status option" where
  "ValidateTensor dims max_num_dims batch_size =
     (if NumSignificantDims dims > max_num_dims then Some (Inl InvalidArgument)
      else if dims = [] then None
      else if hd dims \<noteq> batch_size then Some (Inl InvalidArgument) else Some Ok)"

text \<open>The generator and what has been written to the two output tensors.\<close>

record ('f, 'r) sampler_state =
  generator :: 'r
  ids_data :: "nat list"
  scores_data :: "'f list option"

definition validate :: "status option \<Rightarrow> ('s, unit) uop" where
  "validate r s = map_option (\<lambda>x. (x, s)) r"

definition SampleToIdAndScoreBuffer ::
  "('f::linorder, 'd::linorder, 'r) numerics \<Rightarrow> 'f top_p_sampler \<Rightarrow> int list \<times> 'f list \<Rightarrow> int list \<Rightarrow>
   int list option \<Rightarrow> (('f, 'r) sampler_state, unit) uop" where
  "SampleToIdAndScoreBuffer num smp logits ids_dims scores_dims =
     bind_op (validate (ValidateTensor (fst logits) 2 (sampler_batch_size smp))) (\<lambda>_.
     bind_op (validate (ValidateTensor ids_dims 1 (sampler_batch_size smp))) (\<lambda>_ s.
       case TopKTopPSampling num (snd logits) (sampler_k smp) (sampler_p smp) (sampler_temperature smp)
              (nat (sampler_batch_size smp)) (generator s) of
         None \<Rightarrow> None
       | Some (Inl e, g) \<Rightarrow> Some (Inl e, s\<lparr>generator := g\<rparr>)
       | Some (Inr (ids, scores), g) \<Rightarrow>
           (let s' = s\<lparr>generator := g, ids_data := ids\<rparr> in
            case scores_dims of
              None \<Rightarrow> Some (Ok, s')
            | Some dims \<Rightarrow>
                bind_op (validate (ValidateTensor dims 1 (sampler_batch_size smp)))
                  (\<lambda>_ t. Some (Ok, t\<lparr>scores_data := Some (map (log_f num) scores)\<rparr>)) s')))"

section \<open>The largest elements\<close>

lemma max_scan_correct:
  fixes best :: "'f::linorder"
  shows "j < length pre \<Longrightarrow> pre ! j = best \<Longrightarrow> (\<forall>y\<in>set pre. y \<le> best) \<Longrightarrow>
    max_scan (<) j best (length pre) ys < length (pre @ ys) \<and>
    (\<forall>y\<in>set (pre @ ys). y \<le> (pre @ ys) ! max_scan (<) j best (length pre) ys)"
proof (induction ys arbitrary: j best pre)
  case Nil
  then show ?case by simp
next
  case (Cons y ys)
  show ?case
  proof (cases "best < y")
    case True
    then have "\<forall>z\<in>set (pre @ [y]). z \<le> y" using Cons.prems(3) by fastforce
    then show ?thesis using Cons.IH [of "length pre" "pre @ [y]" y] True by simp
  next
    case False
    then have "\<forall>z\<in>set (pre @ [y]). z \<le> best" using Cons.prems(3) by auto
    then show ?thesis using Cons.IH [of j "pre @ [y]" best] Cons.prems(1,2) False
      by (simp add: nth_append)
  qed
qed

lemma max_element_correct:
  fixes xs :: "'f::linorder list"
  assumes "xs \<noteq> []"
  shows "max_element (<) xs < length xs" "y \<in> set xs \<Longrightarrow> y \<le> xs ! max_element (<) xs"
proof -
  obtain x ys where "xs = x # ys" using assms by (cases xs) auto
  with max_scan_correct [of 0 "[x]" x ys]
  have "max_element (<) xs < length xs \<and> (\<forall>y\<in>set xs. y \<le> xs ! max_element (<) xs)" by simp
  then show "max_element (<) xs < length xs" "y \<in> set xs \<Longrightarrow> y \<le> xs ! max_element (<) xs" by auto
qed

text \<open>A token is among the \<open>k\<close> largest if fewer than \<open>k\<close> tokens have a larger logit.\<close>

definition among_largest :: "nat \<Rightarrow> 'f::linorder list \<Rightarrow> nat \<Rightarrow> bool" where
  "among_largest k row i \<longleftrightarrow> i < length row \<and> card {j. j < length row \<and> row ! i < row ! j} < k"

lemma max_element_among_largest:
  "row \<noteq> [] \<Longrightarrow> among_largest 1 row (max_element (<) row)"
proof -
  assume row: "row \<noteq> []"
  have "row ! j \<le> row ! max_element (<) row" if "j < length row" for j
    by (rule max_element_correct(2) [OF row nth_mem [OF that]])
  then have "{j. j < length row \<and> row ! max_element (<) row < row ! j} = {}"
    by (metis (no_types, lifting) Collect_empty_eq leD)
  then show ?thesis using max_element_correct(1) [OF row] by (simp add: among_largest_def)
qed

lemma nth_element_law:
  fixes num :: "('f::linorder, 'd::linorder, 'r) numerics" and f :: "nat \<Rightarrow> 'f"
  shows "sampling_laws num \<Longrightarrow> k \<le> length xs \<Longrightarrow> selects f k xs (nth_element num (\<lambda>i j. f i > f j) k xs)"
  by (simp add: sampling_laws_def)

lemma sort_law:
  fixes num :: "('f::linorder, 'd::linorder, 'r) numerics" and f :: "nat \<Rightarrow> 'f"
  shows "sampling_laws num \<Longrightarrow> sorts f xs (sort_indices num (\<lambda>i j. f i > f j) xs)"
  by (simp add: sampling_laws_def)

lemma uniform_law:
  "sampling_laws num \<Longrightarrow> a \<le> b \<Longrightarrow> a \<le> fst (uniform num a b g) \<and> fst (uniform num a b g) \<le> b"
  by (simp add: sampling_laws_def)

lemma nth_element_among_largest:
  fixes num :: "('f::linorder, 'd::linorder, 'r) numerics" and f :: "nat \<Rightarrow> 'f"
  assumes "sampling_laws num" "k \<le> length row" "\<And>j. j < length row \<Longrightarrow> f j = row ! j"
    and "x \<in> set (take k (nth_element num (\<lambda>i j. f i > f j) k [0..<length row]))"
  shows "among_largest k row x"
proof -
  define r where "r = nth_element num (\<lambda>i j. f i > f j) k [0..<length row]"
  have r: "mset r = mset [0..<length row]"
    "\<And>x y. x \<in> set (take k r) \<Longrightarrow> y \<in> set (drop k r) \<Longrightarrow> f y \<le> f x"
    using nth_element_law [OF assms(1), of k "[0..<length row]" f] assms(2)
    by (simp_all add: r_def selects_def)
  have x: "x \<in> set (take k r)" using assms(4) by (simp add: r_def)
  have set_r: "set r = {0..<length row}" using mset_eq_setD [OF r(1)] by simp
  have "distinct r" using r(1) by (metis distinct_upt mset_eq_imp_distinct_iff)
  then have c: "card (set (take k r)) \<le> k" by (metis card_length le_trans length_take min.cobounded2)
  have "x < length row" using in_set_takeD [OF x] set_r by simp
  moreover have "{j. j < length row \<and> row ! x < row ! j} \<subseteq> set (take k r) - {x}"
  proof
    fix j assume j: "j \<in> {j. j < length row \<and> row ! x < row ! j}"
    then have "f x < f j" using assms(3) \<open>x < length row\<close> by simp
    then have "j \<notin> set (drop k r)" using r(2) x by (meson not_less)
    moreover have "j \<in> set r" using j set_r by simp
    ultimately have "j \<in> set (take k r)" by (metis Un_iff append_take_drop_id set_append)
    then show "j \<in> set (take k r) - {x}" using j by auto
  qed
  then have "card {j. j < length row \<and> row ! x < row ! j} \<le> card (set (take k r) - {x})"
    by (intro card_mono) auto
  then have "card {j. j < length row \<and> row ! x < row ! j} < k"
    using x c by (metis List.finite_set card_Diff1_less le_less_trans less_le_trans)
  ultimately show ?thesis by (simp add: among_largest_def)
qed

section \<open>Rows of a batch\<close>

lemma length_slice [simp]: "(b + 1) * n \<le> length xs \<Longrightarrow> length (slice n b xs) = n"
  by (simp add: slice_def)

lemma nth_slice: "(b + 1) * n \<le> length xs \<Longrightarrow> i < n \<Longrightarrow> slice n b xs ! i = xs ! (b * n + i)"
  by (simp add: slice_def)

lemma slice_concat:
  "\<forall>xs\<in>set xss. length xs = n \<Longrightarrow> b < length xss \<Longrightarrow> slice n b (concat xss) = xss ! b"
proof (induction xss arbitrary: b)
  case (Cons xs xss)
  show ?case
  proof (cases b)
    case (Suc c)
    then have "slice n b (concat (xs # xss)) = slice n c (concat xss)"
      using Cons.prems by (simp add: slice_def)
    then show ?thesis using Cons Suc by simp
  qed (use Cons in \<open>simp add: slice_def\<close>)
qed simp

lemma length_concat_const:
  "\<forall>xs\<in>set xss. length xs = n \<Longrightarrow> length (concat xss) = length xss * n"
  by (induction xss) simp_all

lemma row_bound:
  "(b::nat) < batch \<Longrightarrow> batch * v = n \<Longrightarrow> (b + 1) * v \<le> n"
  by (metis Suc_eq_plus1 Suc_leI mult_le_mono1)

section \<open>The sampled token\<close>

text \<open>The ids of one item: \<open>k\<close> tokens, all among the \<open>k\<close> largest.\<close>

definition topk_row :: "nat \<Rightarrow> 'f::linorder list \<Rightarrow> nat list \<Rightarrow> bool" where
  "topk_row k row ids \<longleftrightarrow> length ids = k \<and> (\<forall>x\<in>set ids. among_largest k row x)"

lemma batch_div:
  assumes "batch * v = n" "0 < (batch::nat)"
  shows "n mod batch = 0" "n div batch = v"
  using assms by auto

lemma TopKTokenIds_rows:
  fixes num :: "('f::linorder, 'd::linorder, 'r) numerics"
  assumes "sampling_laws num" "batch * v = length logits" "0 < batch" "0 < k" "k \<le> v"
  shows "\<exists>ids. TopKTokenIds num logits k batch = Some (Inr (concat ids)) \<and> length ids = batch \<and>
    (\<forall>b<batch. topk_row k (slice v b logits) (ids ! b))"
proof (cases "k = 1")
  case True
  note v = batch_div [OF assms(2,3)]
  have "slice v b logits \<noteq> []" if "b < batch" for b
    using row_bound [OF that assms(2)] assms(4,5) length_slice [of b v logits] by (cases "slice v b logits") auto
  then have "\<forall>b<batch. topk_row k (slice v b logits) [max_element (<) (slice v b logits)]"
    using max_element_among_largest True by (auto simp: topk_row_def)
  then show ?thesis using assms(3) True v
    by (intro exI [of _ "map (\<lambda>b. [max_element (<) (slice v b logits)]) [0..<batch]"])
      (simp add: TopKTokenIds_def Let_def concat_map_singleton)
next
  case False
  note v = batch_div [OF assms(2,3)]
  define ids where "ids = map (\<lambda>b. take k (nth_element num
      (\<lambda>i1 i2. logits ! (b * v + i1) > logits ! (b * v + i2)) k [0..<v])) [0..<batch]"
  have "topk_row k (slice v b logits) (ids ! b)" if b: "b < batch" for b
  proof -
    let ?f = "\<lambda>i. logits ! (b * v + i)"
    define r where "r = nth_element num (\<lambda>i1 i2. ?f i1 > ?f i2) k [0..<v]"
    have len: "length (slice v b logits) = v" using row_bound [OF b assms(2)] by simp
    have "length r = v"
      using nth_element_law [OF assms(1), of k "[0..<v]" ?f] assms(5)
      by (metis r_def selects_def length_upt minus_nat.diff_0 size_mset)
    moreover have "among_largest k (slice v b logits) x" if "x \<in> set (take k r)" for x
      using that nth_element_among_largest [OF assms(1), of k "slice v b logits" ?f x]
        nth_slice [OF row_bound [OF b assms(2)]] assms(5) by (simp add: len r_def)
    ultimately show ?thesis using b assms(5) by (simp add: ids_def topk_row_def r_def)
  qed
  then show ?thesis using assms(3,5) False v
    by (intro exI [of _ ids]) (simp add: TopKTokenIds_def Let_def ids_def)
qed

lemma softmax_row_total:
  assumes "ids \<noteq> []" "\<And>i. i \<in> set ids \<Longrightarrow> b * v + i < length logits"
  shows "\<exists>probs mx. softmax_row num logits v temperature b ids = Some (probs, mx) \<and> length probs = length ids"
proof -
  have "those (map (\<lambda>i. at logits (b * v + i)) ids) = Some (map (\<lambda>i. logits ! (b * v + i)) ids)"
    using assms(2) by (intro those_map_eq_Some) (simp add: at_def)
  moreover obtain l ls where ls: "map (\<lambda>i. logits ! (b * v + i)) ids = l # ls"
    using assms(1) by (cases ids) auto
  moreover have "length ids = Suc (length ls)" using ls by (metis length_Cons length_map)
  ultimately show ?thesis by (simp add: softmax_row_def Let_def if_distrib [of length] del: map_eq_Cons_conv
      split: nat.split)
qed

lemma top_p_cut_size: "n \<le> snd (top_p_cut num p c n qs) \<and> snd (top_p_cut num p c n qs) \<le> n + length qs"
proof (induction qs arbitrary: c n)
  case (Cons q qs)
  from Cons.IH [where c = "add_d num c (to_double num q)" and n = "Suc n"] show ?case
    by (simp add: Let_def)
qed simp

text \<open>The cut ends at the first sum that reaches \<open>p\<close>; the choice adds up the same sums.\<close>

definition sum_from :: "('f, 'd, 'r) numerics \<Rightarrow> 'd \<Rightarrow> 'f list \<Rightarrow> 'd" where
  "sum_from num c qs = foldl (\<lambda>c q. add_d num c (to_double num q)) c qs"

lemma sum_from_simps [simp]:
  "sum_from num c [] = c"
  "sum_from num c (q # qs) = sum_from num (add_d num c (to_double num q)) qs"
  by (simp_all add: sum_from_def)

lemma top_p_cut_sum:
  assumes "top_p_cut num p c n qs = (c', m)"
  shows "c' = sum_from num c (take (m - n) qs)"
    and "\<And>i. 0 < i \<Longrightarrow> i < m - n \<Longrightarrow> sum_from num c (take i qs) < to_double num p"
    and "qs \<noteq> [] \<Longrightarrow> n < m"
proof -
  have "c' = sum_from num c (take (m - n) qs) \<and>
    (\<forall>i. 0 < i \<longrightarrow> i < m - n \<longrightarrow> sum_from num c (take i qs) < to_double num p) \<and> (qs \<noteq> [] \<longrightarrow> n < m)"
    using assms
  proof (induction qs arbitrary: c n)
    case (Cons q qs)
    let ?c = "add_d num c (to_double num q)"
    show ?case
    proof (cases "to_double num p \<le> ?c")
      case True
      then show ?thesis using Cons.prems by (auto simp: Let_def)
    next
      case False
      then have rec: "top_p_cut num p ?c (Suc n) qs = (c', m)" using Cons.prems by (simp add: Let_def)
      have m: "Suc n \<le> m" using top_p_cut_size [of "Suc n" num p ?c qs] rec by simp
      then have d: "m - n = Suc (m - Suc n)" by simp
      have "sum_from num c (take i (q # qs)) < to_double num p" if "0 < i" "i < m - n" for i
        using Cons.IH [OF rec] that False d by (cases i; cases "i - 1") auto
      then show ?thesis using Cons.IH [OF rec] d m by simp
    qed
  qed simp
  then show "c' = sum_from num c (take (m - n) qs)"
    "\<And>i. 0 < i \<Longrightarrow> i < m - n \<Longrightarrow> sum_from num c (take i qs) < to_double num p"
    "qs \<noteq> [] \<Longrightarrow> n < m" by auto
qed

lemma pick_found:
  assumes "r \<le> sum_from num c qs" "qs \<noteq> []"
  shows "\<exists>i. pick num r c n qs = Some (n + i) \<and> i < length qs"
  using assms
proof (induction qs arbitrary: c n)
  case (Cons q qs)
  let ?c = "add_d num c (to_double num q)"
  show ?case
  proof (cases "r \<le> ?c")
    case False
    then have "qs \<noteq> []" using Cons.prems(1) by auto
    then obtain i where "pick num r ?c (Suc n) qs = Some (Suc n + i)" "i < length qs"
      using Cons.IH [where c = ?c and n = "Suc n"] Cons.prems(1) False by auto
    then show ?thesis using False by (intro exI [of _ "Suc i"]) (simp add: Let_def)
  qed (simp add: Let_def)
qed simp

text \<open>The sampled token of one item: one of its ids, chosen inside the smallest set that reaches \<open>p\<close>.\<close>

definition in_nucleus ::
  "('f::linorder, 'd::linorder, 'r) numerics \<Rightarrow> 'f \<Rightarrow> nat list \<Rightarrow> 'f list \<Rightarrow> nat \<Rightarrow> bool" where
  "in_nucleus num p ids probs x \<longleftrightarrow>
     (\<exists>ix j. mset ix = mset [0..<length ids] \<and> sorted_wrt (\<lambda>i j. probs ! j \<le> probs ! i) ix \<and>
        j < length ids \<and> x = ids ! (ix ! j) \<and>
        (\<forall>i. 0 < i \<longrightarrow> i \<le> j \<longrightarrow>
           sum_from num (zero_d num) (take i (map (\<lambda>i. probs ! i) ix)) < to_double num p))"

lemma in_nucleus_member: "in_nucleus num p ids probs x \<Longrightarrow> x \<in> set ids"
proof -
  assume "in_nucleus num p ids probs x"
  then obtain ix j where ix: "mset ix = mset [0..<length ids]" "j < length ids" "x = ids ! (ix ! j)"
    by (auto simp: in_nucleus_def)
  have "length ix = length ids" using arg_cong [OF ix(1), of size] by simp
  then have "ix ! j \<in> {0..<length ids}" using mset_eq_setD [OF ix(1)] ix(2) by (metis nth_mem set_upt)
  then show ?thesis using ix(3) by simp
qed

lemma sample_row_in_nucleus:
  assumes "sampling_laws num" "ids \<noteq> []" "zero_d num \<le> epsilon_d num"
    and "sample_row num logits v p temperature b ids probs mx g = (x, score, g')"
  shows "in_nucleus num p ids probs x"
proof -
  define ix where "ix = sort_indices num (\<lambda>i1 i2. probs ! i1 > probs ! i2) [0..<length ids]"
  define qs where "qs = map (\<lambda>i. probs ! i) ix"
  obtain c m where cut: "top_p_cut num p (zero_d num) 0 qs = (c, m)" by (cases "top_p_cut num p (zero_d num) 0 qs")
  have "sorts (\<lambda>i. probs ! i) [0..<length ids] ix"
    using sort_law [OF assms(1), of "\<lambda>i. probs ! i"] by (simp add: ix_def)
  then have ix: "mset ix = mset [0..<length ids]" "sorted_wrt (\<lambda>i j. probs ! j \<le> probs ! i) ix"
    by (simp_all add: sorts_def)
  have "length ix = length ids" using arg_cong [OF ix(1), of size] by simp
  then have qs: "qs \<noteq> []" "length qs = length ids" using assms(2) by (auto simp: qs_def)
  note cut' = top_p_cut_sum [OF cut]
  have m: "0 < m" "m \<le> length qs" using cut'(3) qs top_p_cut_size [of 0 num p "zero_d num" qs] cut by auto
  have run: "(if c \<le> epsilon_d num
      then (ids ! (ix ! 0), scaled_exp num temperature (logits ! (b * v + ids ! (ix ! 0))) mx, g)
      else (case uniform num (zero_d num) c g of (r, g1) \<Rightarrow>
        (case pick num r (zero_d num) 0 (take m qs) of
           Some i \<Rightarrow> (ids ! (ix ! i), qs ! i, g1) | None \<Rightarrow> (0, zero_f num, g1)))) = (x, score, g')"
    using assms(4) cut unfolding sample_row_def ix_def [symmetric] Let_def qs_def by simp
  have found: "in_nucleus num p ids probs x" if "x = ids ! (ix ! i)" "i < m" for i
    unfolding in_nucleus_def using ix that m qs(2) cut'(2)
    by (intro exI [of _ ix] exI [of _ i]) (simp flip: qs_def)
  show ?thesis
  proof (cases "c \<le> epsilon_d num")
    case True
    then show ?thesis using run m(1) by (intro found [of 0]) auto
  next
    case False
    obtain r g1 where u: "uniform num (zero_d num) c g = (r, g1)" by (cases "uniform num (zero_d num) c g")
    have "zero_d num \<le> c" using False assms(3) by simp
    then have "r \<le> c" using uniform_law [OF assms(1), of "zero_d num" c g] u by simp
    then have "r \<le> sum_from num (zero_d num) (take m qs)" "take m qs \<noteq> []"
      using cut'(1) m(1) qs(1) by auto
    from pick_found [OF this, of 0] obtain i where
      "pick num r (zero_d num) 0 (take m qs) = Some i" "i < m" by auto
    then show ?thesis using run False u by (intro found [of i]) auto
  qed
qed

lemma sample_rows_each:
  assumes "sample_rows f bs g = (rows, g')" "\<And>g b x s g1. b \<in> set bs \<Longrightarrow> f g b = (x, s, g1) \<Longrightarrow> P b x"
  shows "length rows = length bs \<and> (\<forall>i<length bs. P (bs ! i) (fst (rows ! i)))"
  using assms
proof (induction bs arbitrary: g rows)
  case (Cons b bs)
  obtain x s g1 rest g2 where "f g b = (x, s, g1)" "sample_rows f bs g1 = (rest, g2)"
    by (metis prod_cases3 surj_pair)
  then have "P b x" "rows = (x, s) # rest" "length rest = length bs \<and> (\<forall>i<length bs. P (bs ! i) (fst (rest ! i)))"
    using Cons.prems Cons.IH [of g1 rest] by (auto split: prod.splits)
  then show ?case by (auto simp: nth_Cons split: nat.splits)
qed simp

lemma Softmax_total:
  assumes "batch * v = length logits" "0 < batch" "logits \<noteq> []" "zero_f num \<le> temperature" "0 < k"
    and "length ids = batch" "\<forall>b<batch. topk_row k (slice v b logits) (ids ! b)"
  shows "\<exists>probs mxs. Softmax num logits (concat ids) temperature batch = Some (Inr (concat probs, mxs)) \<and>
    length probs = batch \<and> (\<forall>b<batch. length (probs ! b) = k)"
proof -
  note v = batch_div [OF assms(1,2)]
  have ids: "\<forall>xs\<in>set ids. length xs = k"
    using assms(6,7) by (auto simp: in_set_conv_nth topk_row_def)
  then have len: "length (concat ids) = batch * k" using length_concat_const assms(6) by blast
  have row: "\<exists>r. softmax_row num logits v temperature b (slice k b (concat ids)) = Some r \<and> length (fst r) = k"
    if b: "b < batch" for b
  proof -
    have s: "slice k b (concat ids) = ids ! b" using slice_concat [OF ids] b assms(6) by simp
    have "length (slice v b logits) = v" using row_bound [OF b assms(1)] by simp
    then have "i < v" if "i \<in> set (ids ! b)" for i
      using assms(7) b that by (auto simp: topk_row_def among_largest_def)
    then have "b * v + i < length logits" if "i \<in> set (ids ! b)" for i
      using that row_bound [OF b assms(1)] by fastforce
    moreover have "length (ids ! b) = k" using ids b assms(6) nth_mem by blast
    moreover from this have "ids ! b \<noteq> []" using assms(5) by auto
    ultimately show ?thesis using softmax_row_total [of "ids ! b" b v logits num temperature] s by auto
  qed
  then obtain g where g: "\<And>b. b < batch \<Longrightarrow> softmax_row num logits v temperature b (slice k b (concat ids)) = Some (g b)"
    "\<And>b. b < batch \<Longrightarrow> length (fst (g b)) = k" by metis
  have "those (map (\<lambda>b. softmax_row num logits v temperature b (slice k b (concat ids))) [0..<batch]) =
      Some (map g [0..<batch])"
    using g(1) by (intro those_map_eq_Some) simp
  then show ?thesis using assms(2-4) v g(2) len
    by (intro exI [of _ "map (\<lambda>b. fst (g b)) [0..<batch]"] exI [of _ "map (\<lambda>b. snd (g b)) [0..<batch]"])
      (simp add: Softmax_def Let_def o_def not_less)
qed

text \<open>The ids of a batch that \<open>TopKTopPSampling\<close> may return.\<close>

definition sampled_ids :: "nat \<Rightarrow> nat \<Rightarrow> nat \<Rightarrow> 'f::linorder list \<Rightarrow> nat list \<Rightarrow> bool" where
  "sampled_ids k v batch logits ids \<longleftrightarrow>
     length ids = batch \<and> (\<forall>b<batch. among_largest (min k v) (slice v b logits) (ids ! b))"

lemma TopKTopPSampling_total:
  fixes num :: "('f::linorder, 'd::linorder, 'r) numerics"
  assumes "sampling_laws num" "zero_d num \<le> epsilon_d num" "batch * v = length logits" "0 < batch" "0 < v"
    and "0 < k" "zero_f num \<le> p" "p \<le> one_f num" "zero_f num \<le> temperature"
  shows "\<exists>ids scores g'. TopKTopPSampling num logits k p temperature batch g = Some (Inr (ids, scores), g') \<and>
    sampled_ids (nat k) v batch logits ids"
proof -
  note v = batch_div [OF assms(3,4)]
  define n where "n = min (nat k) v"
  have n: "0 < n" "n \<le> v" using assms(5,6) by (simp_all add: n_def)
  have ne: "logits \<noteq> []" using assms(3-5) by (metis length_0_conv mult_is_0 neq0_conv)
  obtain ids where top: "TopKTokenIds num logits n batch = Some (Inr (concat ids))" "length ids = batch"
    "\<forall>b<batch. topk_row n (slice v b logits) (ids ! b)"
    using TopKTokenIds_rows [OF assms(1,3,4) n] by blast
  obtain probs mxs where soft:
    "Softmax num logits (concat ids) temperature batch = Some (Inr (concat probs, mxs))"
    using Softmax_total [OF assms(3,4) ne assms(9) n(1) top(2,3)] by blast
  have idsn: "\<forall>xs\<in>set ids. length xs = n" using top(2,3) by (auto simp: in_set_conv_nth topk_row_def)
  have start: "TopKTopPSampling num logits k p temperature batch g =
     (if n = 1 then Some (Inr (concat ids, replicate batch (one_f num)), g)
      else (case sample_rows (\<lambda>g b. sample_row num logits v p temperature b
               (slice n b (concat ids)) (slice n b (concat probs)) (mxs ! b) g) [0..<batch] g of
              (rows, rng') \<Rightarrow> Some (Inr (map fst rows, map snd rows), rng')))"
    using ne v assms(4,6-8) top(1) soft
    by (auto simp: TopKTopPSampling_def Let_def n_def simp flip: One_nat_def)
  show ?thesis
  proof (cases "n = 1")
    case True
    then have one: "slice 1 b (concat ids) = ids ! b" if "b < batch" for b
      using slice_concat [of ids 1 b] idsn that top(2) by simp
    have "concat ids ! b \<in> set (ids ! b)" if "b < batch" for b
    proof -
      have "length (concat ids) = batch" using length_concat_const [OF idsn] top(2) True by simp
      then have "slice 1 b (concat ids) = [concat ids ! b]"
        using that by (simp add: slice_def take_Suc_conv_app_nth)
      then show ?thesis using one [OF that] by (metis list.set_intros(1))
    qed
    then have "sampled_ids (nat k) v batch logits (concat ids)"
      using top(3) length_concat_const [OF idsn] top(2) True
      by (auto simp: sampled_ids_def topk_row_def n_def)
    then show ?thesis using start True by auto
  next
    case False
    obtain rows g' where rows: "sample_rows (\<lambda>g b. sample_row num logits v p temperature b
        (slice n b (concat ids)) (slice n b (concat probs)) (mxs ! b) g) [0..<batch] g = (rows, g')"
      by (metis surj_pair)
    have "among_largest n (slice v b logits) x"
      if "b \<in> set [0..<batch]" "sample_row num logits v p temperature b (slice n b (concat ids))
        (slice n b (concat probs)) (mxs ! b) h = (x, s, h')" for h b x s h'
    proof -
      have s: "slice n b (concat ids) = ids ! b" using slice_concat [OF idsn] that(1) top(2) by simp
      have "length (ids ! b) = n" using idsn that(1) top(2) by simp
      then have "slice n b (concat ids) \<noteq> []" using s n(1) by auto
      from in_nucleus_member [OF sample_row_in_nucleus [OF assms(1) this assms(2) that(2)]]
      show ?thesis using top(3) that(1) s by (auto simp: topk_row_def)
    qed
    from sample_rows_each [OF rows, of "\<lambda>b x. among_largest n (slice v b logits) x", OF this]
    have "sampled_ids (nat k) v batch logits (map fst rows)" by (auto simp: sampled_ids_def n_def)
    then show ?thesis using start False rows by auto
  qed
qed

lemma TopKTopPSampling_Inr:
  assumes "TopKTopPSampling num logits k p temperature batch g = Some (Inr (ids, scores), g')"
  shows "logits \<noteq> [] \<and> 0 < batch \<and> length logits mod batch = 0 \<and> 0 < k"
  using assms by (auto simp: TopKTopPSampling_def split: if_splits)

lemma in_nucleus_rows:
  assumes "sampling_laws num" "zero_d num \<le> epsilon_d num"
    and "TopKTopPSampling num logits k p temperature batch g = Some (Inr (ids, scores), g')"
    and "n = min (nat k) (length logits div batch)" "n \<noteq> 1"
    and "TopKTokenIds num logits n batch = Some (Inr topk)"
    and "Softmax num logits topk temperature batch = Some (Inr (probs, mxs))" and "b < batch"
  shows "in_nucleus num p (slice n b topk) (slice n b probs) (ids ! b)"
proof -
  define v where "v = length logits div batch"
  note valid = TopKTopPSampling_Inr [OF assms(3)]
  then have v: "batch * v = length logits" by (auto simp: v_def)
  then have "0 < v" using valid by (metis length_0_conv mult_0_right neq0_conv)
  then have n: "0 < n" "n \<le> v" using valid assms(4) by (auto simp: v_def)
  obtain tops where topk: "topk = concat tops" "length tops = batch"
    "\<forall>b<batch. topk_row n (slice v b logits) (tops ! b)"
    using TopKTokenIds_rows [OF assms(1) v _ n] valid assms(6) by auto
  have tn: "\<forall>xs\<in>set tops. length xs = n" using topk by (auto simp: in_set_conv_nth topk_row_def)
  obtain rows where rows: "sample_rows (\<lambda>g b. sample_row num logits v p temperature b
      (slice n b topk) (slice n b probs) (mxs ! b) g) [0..<batch] g = (rows, g')" "ids = map fst rows"
    using assms(3-7) valid
    by (auto simp: TopKTopPSampling_def Let_def v_def simp flip: One_nat_def split: if_splits prod.splits)
  have "in_nucleus num p (slice n b topk) (slice n b probs) x"
    if "b \<in> set [0..<batch]" "sample_row num logits v p temperature b (slice n b topk)
      (slice n b probs) (mxs ! b) h = (x, s, h')" for h b x s h'
  proof -
    have "length (slice n b topk) = n" using slice_concat [OF tn] that(1) topk tn by simp
    then have "slice n b topk \<noteq> []" using n(1) by auto
    from sample_row_in_nucleus [OF assms(1) this assms(2) that(2)] show ?thesis .
  qed
  from sample_rows_each [OF rows(1), of "\<lambda>b x. in_nucleus num p (slice n b topk) (slice n b probs) x", OF this]
  show ?thesis using rows(2) assms(8) by simp
qed

section \<open>The sampler is correct\<close>

text \<open>
  C6. A created sampler, given logits and output tensors of its batch size, never has undefined
  behaviour and never fails, and every id it writes is a token of the vocabulary with fewer than \<open>k\<close> tokens
  of larger logit in its row. Rounding cannot break this: the choice adds up the same sums as the cut.
\<close>

theorem sampler_picks_among_largest:
  assumes "sampling_laws num" and "zero_d num \<le> epsilon_d num"
    and "CreateTopPSampler num k p temperature batch = Inr smp"
    and "ValidateTensor (fst logits) 2 batch = Some Ok" and "ValidateTensor ids_dims 1 batch = Some Ok"
    and "\<forall>dims. scores_dims = Some dims \<longrightarrow> ValidateTensor dims 1 batch = Some Ok"
    and "nat batch * v = length (snd logits)" and "0 < v"
  shows "\<exists>s'. SampleToIdAndScoreBuffer num smp logits ids_dims scores_dims s = Some (Ok, s') \<and>
    sampled_ids (nat k) v (nat batch) (snd logits) (ids_data s')"
proof -
  have smp: "smp = \<lparr>sampler_k = k, sampler_p = p, sampler_temperature = temperature, sampler_batch_size = batch\<rparr>"
    and ok: "0 < k" "zero_f num \<le> p" "p \<le> one_f num" "0 < batch" "zero_f num \<le> temperature"
    using assms(3) by (auto simp: CreateTopPSampler_def split: if_splits)
  obtain ids scores g' where run: "TopKTopPSampling num (snd logits) k p temperature (nat batch) (generator s) =
      Some (Inr (ids, scores), g')" "sampled_ids (nat k) v (nat batch) (snd logits) ids"
    using TopKTopPSampling_total [OF assms(1,2,7) _ assms(8) ok(1,2,3,5), of "generator s"] ok(4) by auto
  show ?thesis
  proof (cases scores_dims)
    case None
    then show ?thesis using run smp assms(4,5)
      by (simp add: SampleToIdAndScoreBuffer_def bind_op_def validate_def Let_def)
  next
    case (Some dims)
    then have "ValidateTensor dims 1 batch = Some Ok" using assms(6) by blast
    then show ?thesis using Some run smp assms(4,5)
      by (simp add: SampleToIdAndScoreBuffer_def bind_op_def validate_def Let_def)
  qed
qed

text \<open>
  C30. Unless sampling is greedy, the id sampled for an item of the batch lies in its nucleus: the
  tokens that come before it in the order of their probabilities do not yet reach the mass \<open>p\<close>.
\<close>

theorem sampled_token_in_nucleus:
  assumes "sampling_laws num" and "zero_d num \<le> epsilon_d num"
    and "TopKTopPSampling num logits k p temperature batch g = Some (Inr (ids, scores), g')"
    and "n = min (nat k) (length logits div batch)" and "n \<noteq> 1"
    and "TopKTokenIds num logits n batch = Some (Inr topk)"
    and "Softmax num logits topk temperature batch = Some (Inr (probs, mxs))" and "b < batch"
  shows "in_nucleus num p (slice n b topk) (slice n b probs) (ids ! b)"
  by (rule in_nucleus_rows [OF assms])

section \<open>An executable instance\<close>

fun insert_by :: "(nat \<Rightarrow> nat \<Rightarrow> bool) \<Rightarrow> nat \<Rightarrow> nat list \<Rightarrow> nat list" where
  "insert_by gt x [] = [x]"
| "insert_by gt x (y # ys) = (if gt y x then y # insert_by gt x ys else x # y # ys)"

definition sort_by :: "(nat \<Rightarrow> nat \<Rightarrow> bool) \<Rightarrow> nat list \<Rightarrow> nat list" where
  "sort_by gt xs = foldr (insert_by gt) xs []"

lemma mset_insert_by [simp]: "mset (insert_by gt x ys) = add_mset x (mset ys)"
  by (induction ys) auto

lemma insert_by_sorted:
  fixes f :: "nat \<Rightarrow> 'f::linorder"
  shows "sorted_wrt (\<lambda>i j. f j \<le> f i) ys \<Longrightarrow> sorted_wrt (\<lambda>i j. f j \<le> f i) (insert_by (\<lambda>i j. f i > f j) x ys)"
proof (induction ys)
  case (Cons y ys)
  have "set (insert_by (\<lambda>i j. f i > f j) x ys) = insert x (set ys)"
    by (metis mset_insert_by set_mset_add_mset_insert set_mset_mset)
  with Cons show ?case by (auto intro: order_trans less_imp_le)
qed simp

lemma sort_by_sorts: "sorts f xs (sort_by (\<lambda>i j. f i > f j) xs)"
  by (induction xs) (auto simp: sorts_def sort_by_def insert_by_sorted)

lemma sort_by_selects: "selects f k xs (sort_by (\<lambda>i j. f i > f j) xs)"
proof -
  let ?r = "sort_by (\<lambda>i j. f i > f j) xs"
  have r: "mset ?r = mset xs" "sorted_wrt (\<lambda>i j. f j \<le> f i) (take k ?r @ drop k ?r)"
    using sort_by_sorts [of f xs] by (simp_all add: sorts_def)
  then show ?thesis by (simp only: selects_def sorted_wrt_append) blast
qed

text \<open>Integers as percentages, with a coarse exponential.\<close>

definition percent :: "(int, int, int) numerics" where
  "percent = \<lparr>zero_f = 0, one_f = 100, epsilon_f = 1,
     exp_f = (\<lambda>x. if x \<ge> 0 then 100 else if x = - 1 then 37 else 13), log_f = (\<lambda>x. x - 100),
     add_f = (+), sub_f = (-), mul_f = (\<lambda>e s. e * 100 div s), div_f = (div), one_over_f = (\<lambda>s. s),
     one_over_nat = (\<lambda>n. 100 div int n), isinf_f = (\<lambda>x. False), to_double = (\<lambda>x. x),
     zero_d = 0, epsilon_d = 0, add_d = (+), uniform = (\<lambda>a b g. (max a (min b g), g + 1)),
     nth_element = (\<lambda>gt k xs. sort_by gt xs), sort_indices = sort_by\<rparr>"

lemma percent_laws: "sampling_laws percent"
  by (simp add: sampling_laws_def percent_def sort_by_sorts sort_by_selects)

lemma sampler_picks_among_largest_witness:
  "\<exists>s'. SampleToIdAndScoreBuffer percent
      \<lparr>sampler_k = 2, sampler_p = 60, sampler_temperature = 1, sampler_batch_size = 2\<rparr>
      ([2, 3], [5, 7, 6, 9, 1, 8]) [2, 1] (Some [2]) \<lparr>generator = 70, ids_data = [], scores_data = None\<rparr> =
      Some (Ok, s') \<and> sampled_ids 2 3 2 [5 :: int, 7, 6, 9, 1, 8] (ids_data s')"
  using sampler_picks_among_largest [OF percent_laws, of 2 60 1 2
      "\<lparr>sampler_k = 2, sampler_p = 60, sampler_temperature = 1, sampler_batch_size = 2\<rparr>"
      "([2, 3], [5, 7, 6, 9, 1, 8])" "[2, 1]" "Some [2]" 3
      "\<lparr>generator = 70, ids_data = [], scores_data = None\<rparr>"]
  by (simp add: percent_def CreateTopPSampler_def ValidateTensor_def NumSignificantDims_def)

lemma percent_run:
  "TopKTopPSampling percent [5, 7, 6] 2 60 1 1 70 = Some (Inr ([1], [72]), 71)"
  "TopKTokenIds percent [5, 7, 6] 2 1 = Some (Inr [1, 2])"
  "Softmax percent [5, 7, 6] [1, 2] 1 1 = Some (Inr ([72, 27], [7]))"
  by code_simp+

lemma sampled_token_in_nucleus_witness:
  "in_nucleus percent 60 (slice 2 0 [1, 2]) (slice 2 0 [72, 27]) 1"
  using sampled_token_in_nucleus [OF percent_laws _ percent_run(1) _ _ percent_run(2,3), of 0]
  by (simp add: percent_def)

end
