(* ===== verification/EmbeddingLookup.thy ===== *)
theory EmbeddingLookup
  imports ExecutorIO ExecutorUtils
begin

text \<open>
  The embedding lookups of \<^verbatim>\<open>runtime/components/embedding_lookup\<close>: the rows that a prefill feeds to
  the model for its token ids, from the text embedding model, from the vision and audio embeddings
  that came with the input (\<open>multi_modal\<close>), and from the models of the end of an audio or an image
  (\<open>end_of_multi_modal\<close>), put together by the \<^verbatim>\<open>EmbeddingLookupManager\<close>.

  A tensor buffer is its element type, its dimensions, whether it lies in host memory, and its
  contents as 4 byte values (\<open>'v\<close>, a float); offsets and sizes count such values, where the code
  multiplies them by \<^verbatim>\<open>sizeof(float)\<close>. A pointer to a tensor is an \<open>option\<close>. Sizes are unbounded
  (a product of dimensions of a tensor that exists fits a \<^verbatim>\<open>size_t\<close>). Creating, locking and sizing
  LiteRT buffers succeeds. A compiled model is a parameter: the function from the signature's key, the
  token and the old contents of the output buffer to the new contents. \<open>None\<close> is undefined behaviour:
  a copy outside a buffer, the first element of an empty list, a division by zero.
\<close>

section \<open>Buffers\<close>

record 'v float_tensor =
  ft_type :: element_type
  ft_dims :: "nat list"
  ft_host :: bool
  ft_floats :: "'v list"

definition write_floats :: "nat \<Rightarrow> 'v list \<Rightarrow> 'v list \<Rightarrow> 'v list option" where
  "write_floats p vs xs =
     (if p + length vs \<le> length xs then Some (take p xs @ vs @ drop (p + length vs) xs) else None)"

definition read_floats :: "nat \<Rightarrow> 'v list \<Rightarrow> 'v list option" where
  "read_floats n xs = (if n \<le> length xs then Some (take n xs) else None)"

definition floats_per_token :: "nat list \<Rightarrow> nat" where
  "floats_per_token ds = prod_list (drop 2 ds)"

definition ReferTensorBufferAsSpan :: "'v float_tensor \<Rightarrow> 'v list status_or" where
  "ReferTensorBufferAsSpan T =
     (if \<not> ft_host T then Inl InvalidArgument
      else if ft_type T \<noteq> ElFloat32 then Inl InvalidArgument
      else Inr (ft_floats T))"

section \<open>Embeddings that came with the input\<close>

text \<open>\<open>mm_embedding\<close> is the part of the embeddings that has not been read yet.\<close>

record 'v multi_modal =
  mm_special :: int
  mm_embedding :: "'v list"

definition MultiModal_Create :: "'v float_tensor option \<Rightarrow> int \<Rightarrow> 'v multi_modal status_or" where
  "MultiModal_Create buffer special =
     (case buffer of
        None \<Rightarrow> Inl InvalidArgument
      | Some T \<Rightarrow> try_or_return (ReferTensorBufferAsSpan T)
                    (\<lambda>e. Inr \<lparr>mm_special = special, mm_embedding = e\<rparr>))"

definition HasRemainingEmbeddings :: "'v multi_modal \<Rightarrow> bool" where
  "HasRemainingEmbeddings m \<longleftrightarrow> length (mm_embedding m) > 0"

definition MultiModal_LookupDecode :: "int \<Rightarrow> ('v multi_modal \<times> 'v list, unit) op" where
  "MultiModal_LookupDecode token s = (Inl Unimplemented, s)"

definition MultiModal_LookupDecodeTensor ::
  "int \<Rightarrow> ('v multi_modal \<times> 'v float_tensor option, unit) op" where
  "MultiModal_LookupDecodeTensor token s = (Inl Unimplemented, s)"

definition MultiModal_LookupPrefillToken :: "int \<Rightarrow> ('v multi_modal \<times> 'v list, unit) op" where
  "MultiModal_LookupPrefillToken token s =
     (case s of (m, v) \<Rightarrow>
        if token \<noteq> mm_special m then (Ok, s)
        else if length (mm_embedding m) < length v then (Inl InvalidArgument, s)
        else (Ok, (m\<lparr>mm_embedding := drop (length v) (mm_embedding m)\<rparr>,
                   take (length v) (mm_embedding m))))"

text \<open>The loop over the tokens; \<open>p\<close> is the output position.\<close>

fun mm_fill :: "nat \<Rightarrow> int list \<Rightarrow> nat \<Rightarrow> ('v multi_modal \<times> 'v list, unit) uop" where
  "mm_fill f [] p s = Some (Ok, s)"
| "mm_fill f (token # tokens) p (m, xs) =
     (if token = mm_special m
      then if length (mm_embedding m) < f then Some (Inl InvalidArgument, (m, xs))
           else Option.bind (write_floats p (take f (mm_embedding m)) xs)
                  (\<lambda>ys. mm_fill f tokens (p + f)
                           (m\<lparr>mm_embedding := drop f (mm_embedding m)\<rparr>, ys))
      else mm_fill f tokens (p + f) (m, xs))"

text \<open>Runs an operation on the contents of the tensor and puts the new contents back.\<close>

definition on_floats ::
  "('s \<times> 'v list, 'a) uop \<Rightarrow> 'v float_tensor \<Rightarrow> 's \<Rightarrow> ('a status_or \<times> 's \<times> 'v float_tensor option) option"
where
  "on_floats g T s =
     map_option (\<lambda>(r, s', xs). (r, s', Some (T\<lparr>ft_floats := xs\<rparr>))) (g (s, ft_floats T))"

definition MultiModal_LookupPrefill ::
  "int list \<Rightarrow> nat \<Rightarrow> ('v multi_modal \<times> 'v float_tensor option, unit) uop" where
  "MultiModal_LookupPrefill tokens off s =
     (case s of
        (m, None) \<Rightarrow> Some (Inl InvalidArgument, s)
      | (m, Some T) \<Rightarrow>
          (let f = floats_per_token (ft_dims T) in
           if ft_type T \<noteq> ElFloat32 then Some (Inl Unimplemented, s)
           else if length (ft_dims T) < 3 then Some (Inl Unimplemented, s)
           else if ft_dims T ! 0 \<noteq> 1 then Some (Inl Unimplemented, s)
           else if ft_dims T ! 1 < length tokens then Some (Inl InvalidArgument, s)
           else if off + f * length tokens > length (ft_floats T) then Some (Inl InvalidArgument, s)
           else on_floats (mm_fill f tokens off) T m))"

section \<open>The end of an audio or an image\<close>

text \<open>
  A signature of an embedding model: its key, the byte sizes of its inputs, and its output buffers;
  a model is the list of its signatures and the result of running one.
\<close>

record 'v signature =
  sig_key :: string
  sig_inputs :: "nat list"
  sig_outputs :: "'v float_tensor list"

record 'v embedding_model =
  model_sigs :: "'v signature list"
  model_run :: "string \<Rightarrow> int \<Rightarrow> 'v list \<Rightarrow> 'v list"

record 'v end_of_multi_modal =
  eom_special :: int
  eom_layout :: "nat list"
  eom_embedding :: "'v list"

text \<open>
  The model has no input and caches its one output row; \<open>run\<close> is its run, which may fail.
\<close>

definition EndOfMultiModal_Create ::
  "'v signature list \<Rightarrow> 'v list status_or \<Rightarrow> int \<Rightarrow> 'v end_of_multi_modal status_or option"
where
  "EndOfMultiModal_Create sigs run special =
     (if length sigs \<noteq> 1 then Some (Inl InvalidArgument)
      else if sig_inputs (hd sigs) \<noteq> [] then Some (Inl InvalidArgument)
      else case sig_outputs (hd sigs) of
             [] \<Rightarrow> None
           | T # rest \<Rightarrow>
               if rest \<noteq> [] then Some (Inl InvalidArgument)
               else if ft_type T \<noteq> ElFloat32 then Some (Inl InvalidArgument)
               else if length (ft_floats T) \<noteq> floats_per_token (ft_dims T) then Some (Inl Internal)
               else Some (try_or_return run
                      (\<lambda>v. Inr \<lparr>eom_special = special, eom_layout = ft_dims T, eom_embedding = v\<rparr>)))"

definition EndOfMultiModal_LookupDecode :: "int \<Rightarrow> ('v list, unit) op" where
  "EndOfMultiModal_LookupDecode token v = (Inl Unimplemented, v)"

definition EndOfMultiModal_LookupDecodeTensor :: "int \<Rightarrow> ('v float_tensor option, unit) op" where
  "EndOfMultiModal_LookupDecodeTensor token out = (Inl Unimplemented, out)"

definition EndOfMultiModal_LookupPrefillToken ::
  "'v end_of_multi_modal \<Rightarrow> int \<Rightarrow> ('v list, unit) op" where
  "EndOfMultiModal_LookupPrefillToken e token v =
     (if token \<noteq> eom_special e then (Ok, v)
      else if length v \<noteq> length (eom_embedding e) then (Inl InvalidArgument, v)
      else (Ok, eom_embedding e))"

fun eom_fill :: "'v end_of_multi_modal \<Rightarrow> int list \<Rightarrow> nat \<Rightarrow> 'v list \<Rightarrow> 'v list option" where
  "eom_fill e [] p xs = Some xs"
| "eom_fill e (token # tokens) p xs =
     Option.bind (if token = eom_special e then write_floats p (eom_embedding e) xs else Some xs)
       (eom_fill e tokens (p + length (eom_embedding e)))"

definition EndOfMultiModal_LookupPrefill ::
  "'v end_of_multi_modal \<Rightarrow> int list \<Rightarrow> nat \<Rightarrow> ('v float_tensor option, unit) uop" where
  "EndOfMultiModal_LookupPrefill e tokens off out =
     (case out of
        None \<Rightarrow> Some (Inl InvalidArgument, out)
      | Some T \<Rightarrow>
          (if length (ft_dims T) \<noteq> length (eom_layout e) then Some (Inl InvalidArgument, out)
           else if length (ft_dims T) < 3 then Some (Inl Unimplemented, out)
           else if length (eom_layout e) < 3 then Some (Inl Unimplemented, out)
           else if ft_dims T ! 0 \<noteq> 1 then Some (Inl Unimplemented, out)
           else if ft_dims T ! 1 < length tokens then Some (Inl InvalidArgument, out)
           else if drop 2 (ft_dims T) \<noteq> drop 2 (eom_layout e) then Some (Inl InvalidArgument, out)
           else if off + length (eom_embedding e) * length tokens > length (ft_floats T)
             then Some (Inl InvalidArgument, out)
           else map_option (\<lambda>xs. (Ok, Some (T\<lparr>ft_floats := xs\<rparr>)))
                  (eom_fill e tokens off (ft_floats T))))"

section \<open>Text\<close>

text \<open>
  The lookup keeps the compiled model of the chosen signature, its output buffer (whose contents are
  those of the last run), the size of a row, and the row of token 0 as the default.
\<close>

record 'v text_lookup =
  tl_run :: "int \<Rightarrow> 'v list \<Rightarrow> 'v list"
  tl_out :: "'v float_tensor"
  tl_floats :: nat
  tl_default :: "'v list"

text \<open>The lookup of one token into a buffer of \<open>n\<close> floats; the value is what the buffer then holds.\<close>

definition LookupInternal :: "int \<Rightarrow> nat \<Rightarrow> ('v text_lookup, 'v list) uop" where
  "LookupInternal token n t =
     (if token < 0 then map_option (\<lambda>v. (Inr v, t)) (read_floats n (tl_default t))
      else let out = tl_run t token (ft_floats (tl_out t));
               t' = t\<lparr>tl_out := (tl_out t)\<lparr>ft_floats := out\<rparr>\<rparr>
           in if n \<noteq> length out then Some (Inl InvalidArgument, t') else Some (Inr out, t'))"

definition GetFloatsPerToken :: "'v text_lookup \<Rightarrow> nat" where
  "GetFloatsPerToken t = tl_floats t"

definition GetDefaultEmbeddingVector :: "'v text_lookup \<Rightarrow> 'v list" where
  "GetDefaultEmbeddingVector t = tl_default t"

definition Text_LookupPrefillToken :: "int \<Rightarrow> ('v text_lookup \<times> 'v list, unit) uop" where
  "Text_LookupPrefillToken token s =
     (case s of (t, v) \<Rightarrow>
        if length v \<noteq> tl_floats t then Some (Inl InvalidArgument, s)
        else map_option (\<lambda>(r, t'). case r of Inl e \<Rightarrow> (Inl e, (t', v)) | Inr w \<Rightarrow> (Ok, (t', w)))
               (LookupInternal token (GetFloatsPerToken t) t))"

definition Text_LookupDecode :: "int \<Rightarrow> ('v text_lookup \<times> 'v list, unit) uop" where
  "Text_LookupDecode = Text_LookupPrefillToken"

definition Text_LookupDecodeTensor ::
  "int \<Rightarrow> ('v text_lookup \<times> 'v float_tensor option, unit) uop" where
  "Text_LookupDecodeTensor token s =
     (case s of
        (t, None) \<Rightarrow> Some (Inl InvalidArgument, s)
      | (t, Some T) \<Rightarrow>
          (if length (ft_dims T) \<noteq> length (ft_dims (tl_out t)) then Some (Inl InvalidArgument, s)
           else if ft_dims T \<noteq> ft_dims (tl_out t) then Some (Inl InvalidArgument, s)
           else map_option
                  (\<lambda>(r, t'). case r of Inl e \<Rightarrow> (Inl e, (t', Some T))
                                     | Inr w \<Rightarrow> (Ok, (t', Some (T\<lparr>ft_floats := w\<rparr>))))
                  (LookupInternal token (length (ft_floats T)) t)))"

fun text_fill :: "int list \<Rightarrow> nat \<Rightarrow> ('v text_lookup \<times> 'v list, unit) uop" where
  "text_fill [] p s = Some (Ok, s)"
| "text_fill (token # tokens) p (t, xs) =
     Option.bind (LookupInternal token (tl_floats t) t) (\<lambda>(r, t').
       case r of
         Inl e \<Rightarrow> Some (Inl e, (t', xs))
       | Inr w \<Rightarrow> Option.bind (write_floats p w xs)
                    (\<lambda>ys. text_fill tokens (p + tl_floats t) (t', ys)))"

text \<open>The rows behind the tokens get the default.\<close>

fun default_fill :: "'v list \<Rightarrow> nat \<Rightarrow> nat \<Rightarrow> 'v list \<Rightarrow> 'v list option" where
  "default_fill d 0 p xs = Some xs"
| "default_fill d (Suc k) p xs =
     Option.bind (write_floats p d xs) (default_fill d k (p + length d))"

definition text_fill_tensor ::
  "int list \<Rightarrow> nat \<Rightarrow> nat \<Rightarrow> ('v text_lookup \<times> 'v list, unit) uop" where
  "text_fill_tensor tokens off rows s =
     bind_op (text_fill tokens off)
       (\<lambda>_ (t, xs).
          let f = GetFloatsPerToken t in
          if f = 0 then None
          else Option.bind (read_floats f (tl_default t))
                 (\<lambda>d. map_option (\<lambda>ys. (Ok, (t, ys)))
                        (default_fill d (rows - (off div f + length tokens))
                           (off + f * length tokens) xs))) s"

definition Text_LookupPrefill ::
  "int list \<Rightarrow> nat \<Rightarrow> ('v text_lookup \<times> 'v float_tensor option, unit) uop" where
  "Text_LookupPrefill tokens off s =
     (case s of
        (t, None) \<Rightarrow> Some (Inl InvalidArgument, s)
      | (t, Some T) \<Rightarrow>
          (if length (ft_dims T) \<noteq> length (ft_dims (tl_out t)) then Some (Inl InvalidArgument, s)
           else if length (ft_dims T) < 3 then Some (Inl Unimplemented, s)
           else if length (ft_dims (tl_out t)) < 3 then Some (Inl Unimplemented, s)
           else if ft_dims T ! 0 \<noteq> 1 then Some (Inl Unimplemented, s)
           else if ft_dims T ! 1 < length tokens then Some (Inl InvalidArgument, s)
           else if drop 2 (ft_dims T) \<noteq> drop 2 (ft_dims (tl_out t)) then Some (Inl InvalidArgument, s)
           else if off + GetFloatsPerToken t * length tokens > length (ft_floats T)
             then Some (Inl InvalidArgument, s)
           else on_floats (text_fill_tensor tokens off (ft_dims T ! 1)) T t))"

text \<open>
  \<open>Initialize\<close> looks at the first buffer before it checks that there is one, and takes the first
  signature when no key is given.
\<close>

definition choose_signature :: "'v signature list \<Rightarrow> string option \<Rightarrow> 'v signature status_or option" where
  "choose_signature sigs key =
     (case key of
        Some k \<Rightarrow> (case List.find (\<lambda>s. sig_key s = k) sigs of
                     None \<Rightarrow> Some (Inl InvalidArgument)
                   | Some s \<Rightarrow> Some (Inr s))
      | None \<Rightarrow> (case sigs of [] \<Rightarrow> None | s # _ \<Rightarrow> Some (Inr s)))"

definition init_text_lookup ::
  "'v embedding_model \<Rightarrow> 'v signature \<Rightarrow> 'v text_lookup status_or option" where
  "init_text_lookup mdl s =
     (case sig_inputs s of
        [] \<Rightarrow> None
      | bytes # others \<Rightarrow>
          if others \<noteq> [] then Some (Inl InvalidArgument)
          else if bytes \<noteq> 4 then Some (Inl InvalidArgument)
          else case sig_outputs s of
                 [] \<Rightarrow> None
               | T # rest \<Rightarrow>
                   if rest \<noteq> [] then Some (Inl InvalidArgument)
                   else if ft_type T \<noteq> ElFloat32 then Some (Inl InvalidArgument)
                   else let f = floats_per_token (ft_dims T);
                            t = \<lparr>tl_run = model_run mdl (sig_key s), tl_out = T, tl_floats = f,
                                 tl_default = []\<rparr>
                        in map_option (\<lambda>(r, t'). try_or_return r (\<lambda>d. Inr (t'\<lparr>tl_default := d\<rparr>)))
                             (LookupInternal 0 f t))"

definition Text_Create ::
  "'v embedding_model \<Rightarrow> string option \<Rightarrow> 'v text_lookup status_or option" where
  "Text_Create mdl key =
     Option.bind (choose_signature (model_sigs mdl) key)
       (\<lambda>r. case r of Inl e \<Rightarrow> Some (Inl e) | Inr s \<Rightarrow> init_text_lookup mdl s)"


section \<open>The manager\<close>

record 'v embedding_manager =
  text_embedding_lookup :: "'v text_lookup option"
  multi_modal_lookups :: "'v multi_modal list"
  end_of_multi_modal_lookups :: "'v end_of_multi_modal list"
  fully_supports_multi_modal :: bool
  default_embedding_vector :: "'v list"

text \<open>
  The lookups of the ends, in the order the hash map gives its entries: the special token, the
  signatures of its model and the result of running it.
\<close>

fun create_end_lookups ::
  "(int \<times> 'v signature list \<times> 'v list status_or) list \<Rightarrow> 'v end_of_multi_modal list status_or option"
where
  "create_end_lookups [] = Some (Inr [])"
| "create_end_lookups ((special, sigs, run) # ms) =
     Option.bind (EndOfMultiModal_Create sigs run special) (\<lambda>r.
       case r of
         Inl e \<Rightarrow> Some (Inl e)
       | Inr l \<Rightarrow> map_option (\<lambda>r'. try_or_return r' (\<lambda>ls. Inr (l # ls))) (create_end_lookups ms))"

definition Manager_Create ::
  "'v embedding_model \<Rightarrow> (int \<times> 'v signature list \<times> 'v list status_or) list \<Rightarrow> bool \<Rightarrow>
   string option \<Rightarrow> 'v embedding_manager status_or option"
where
  "Manager_Create text_model end_models fully key =
     (if \<not> fully \<and> end_models \<noteq> [] then Some (Inl InvalidArgument)
      else Option.bind (Text_Create text_model key) (\<lambda>r.
             case r of
               Inl e \<Rightarrow> Some (Inl e)
             | Inr t \<Rightarrow> map_option (\<lambda>r'. try_or_return r' (\<lambda>ends.
                   Inr \<lparr>text_embedding_lookup = Some t, multi_modal_lookups = [],
                        end_of_multi_modal_lookups = ends, fully_supports_multi_modal = fully,
                        default_embedding_vector = GetDefaultEmbeddingVector t\<rparr>))
                 (create_end_lookups end_models)))"

text \<open>One of the two halves of \<^verbatim>\<open>UpdateMultiModalEmbeddings\<close>: the embeddings of one modality.\<close>

definition add_multi_modal ::
  "'v float_tensor status_or \<Rightarrow> int \<Rightarrow> ('v embedding_manager, unit) op" where
  "add_multi_modal emb special m =
     (case emb of
        Inl _ \<Rightarrow> (Ok, m)
      | Inr T \<Rightarrow>
          if \<not> fully_supports_multi_modal m then (Inl InvalidArgument, m)
          else case MultiModal_Create (Some T) special of
                 Inl e \<Rightarrow> (Inl e, m)
               | Inr l \<Rightarrow> (Ok, m\<lparr>multi_modal_lookups := multi_modal_lookups m @ [l]\<rparr>))"

definition UpdateMultiModalEmbeddings ::
  "('ids, 'v float_tensor) executor_inputs \<Rightarrow> ('v embedding_manager, unit) op" where
  "UpdateMultiModalEmbeddings inputs =
     assign_or_return (add_multi_modal (GetVisionEmbeddingsPtr inputs) kVisionSpecialToken)
       (\<lambda>_. add_multi_modal (GetAudioEmbeddingsPtr inputs) kAudioSpecialToken)"

definition CleanupMultiModalEmbeddings :: "('v embedding_manager, unit) op" where
  "CleanupMultiModalEmbeddings m = (Ok, m\<lparr>multi_modal_lookups := []\<rparr>)"

text \<open>\<^verbatim>\<open>std::vector::resize\<close>: new elements are zero.\<close>

definition resize :: "nat \<Rightarrow> 'v::zero list \<Rightarrow> 'v list" where
  "resize n v = take n v @ replicate (n - length v) 0"

definition with_text ::
  "('v text_lookup \<times> 'b, unit) uop \<Rightarrow> 'v text_lookup \<Rightarrow> ('v embedding_manager \<times> 'b, unit) uop" where
  "with_text g t s =
     (case s of (m, b) \<Rightarrow>
        map_option (\<lambda>(r, t', b'). (r, (m\<lparr>text_embedding_lookup := Some t'\<rparr>, b'))) (g (t, b)))"

definition Manager_LookupDecode :: "int \<Rightarrow> ('v::zero embedding_manager \<times> 'v list, unit) uop" where
  "Manager_LookupDecode token s =
     (case s of (m, v) \<Rightarrow>
        (case text_embedding_lookup m of
           None \<Rightarrow> Some (Inl Internal, s)
         | Some t \<Rightarrow>
             let v' = resize (GetFloatsPerToken t) v in
             if token < 0 then Some (Inl InvalidArgument, (m, v'))
             else with_text (Text_LookupDecode token) t (m, v')))"

definition Manager_LookupDecodeTensor ::
  "int \<Rightarrow> ('v embedding_manager \<times> 'v float_tensor option, unit) uop" where
  "Manager_LookupDecodeTensor token s =
     (case s of (m, out) \<Rightarrow>
        (case text_embedding_lookup m of
           None \<Rightarrow> Some (Inl Internal, s)
         | Some t \<Rightarrow>
             if token < 0 then Some (Inl InvalidArgument, s)
             else with_text (Text_LookupDecodeTensor token) t (m, out)))"

text \<open>Every lookup of a list is asked in turn; the first error ends the loop.\<close>

fun each_multi_modal ::
  "('v multi_modal \<times> 'b, unit) uop \<Rightarrow> ('v multi_modal list \<times> 'b, unit) uop" where
  "each_multi_modal g ([], b) = Some (Ok, ([], b))"
| "each_multi_modal g (l # ls, b) =
     Option.bind (g (l, b)) (\<lambda>(r, l', b').
       case r of
         Inl e \<Rightarrow> Some (Inl e, (l' # ls, b'))
       | Inr _ \<Rightarrow> map_option (\<lambda>(r', ls', b''). (r', (l' # ls', b''))) (each_multi_modal g (ls, b')))"

fun each_end :: "('v end_of_multi_modal \<Rightarrow> ('b, unit) uop) \<Rightarrow> 'v end_of_multi_modal list \<Rightarrow> ('b, unit) uop" where
  "each_end g [] b = Some (Ok, b)"
| "each_end g (e # es) b = bind_op (g e) (\<lambda>_. each_end g es) b"

definition ask_multi_modal ::
  "('v multi_modal \<times> 'b, unit) uop \<Rightarrow> ('v end_of_multi_modal \<Rightarrow> ('b, unit) uop) \<Rightarrow>
   ('v embedding_manager \<times> 'b, unit) uop"
where
  "ask_multi_modal g h s =
     (case s of (m, b) \<Rightarrow>
        bind_op
          (\<lambda>(m, b). map_option (\<lambda>(r, ls, b'). (r, (m\<lparr>multi_modal_lookups := ls\<rparr>, b')))
                       (each_multi_modal g (multi_modal_lookups m, b)))
          (\<lambda>_ (m, b). map_option (\<lambda>(r, b'). (r, (m, b')))
                       (each_end h (end_of_multi_modal_lookups m) b)) (m, b))"

definition Manager_LookupPrefillToken ::
  "int \<Rightarrow> ('v::zero embedding_manager \<times> 'v list, unit) uop" where
  "Manager_LookupPrefillToken token s =
     (case s of (m, v) \<Rightarrow>
        (case text_embedding_lookup m of
           None \<Rightarrow> Some (Inl Internal, s)
         | Some t \<Rightarrow>
             let v' = resize (GetFloatsPerToken t) v in
             if token \<ge> 0 then with_text (Text_LookupPrefillToken token) t (m, v')
             else if fully_supports_multi_modal m
               then ask_multi_modal (defined (MultiModal_LookupPrefillToken token))
                      (\<lambda>e. defined (EndOfMultiModal_LookupPrefillToken e token)) (m, v')
             else map_option (\<lambda>w. (Ok, (m, w)))
                    (write_floats 0 (default_embedding_vector m) v')))"

text \<open>The loop that writes the default for every negative token.\<close>

fun negative_fill :: "'v list \<Rightarrow> nat \<Rightarrow> int list \<Rightarrow> nat \<Rightarrow> 'v list \<Rightarrow> 'v list option" where
  "negative_fill d f [] p xs = Some xs"
| "negative_fill d f (token # tokens) p xs =
     Option.bind (if token \<ge> 0 then Some xs else write_floats p d xs)
       (negative_fill d f tokens (p + f))"

definition fill_missing ::
  "int list \<Rightarrow> nat \<Rightarrow> nat \<Rightarrow> ('v embedding_manager \<times> 'v float_tensor option, unit) uop" where
  "fill_missing tokens f off s =
     (case s of (m, out) \<Rightarrow>
        (case out of
           None \<Rightarrow> None
         | Some T \<Rightarrow> map_option (\<lambda>xs. (Ok, (m, Some (T\<lparr>ft_floats := xs\<rparr>))))
                       (negative_fill (default_embedding_vector m) f tokens off (ft_floats T))))"

definition erase_used :: "('v embedding_manager \<times> 'b, unit) uop" where
  "erase_used s =
     (case s of (m, b) \<Rightarrow>
        Some (Ok, (m\<lparr>multi_modal_lookups := filter HasRemainingEmbeddings (multi_modal_lookups m)\<rparr>, b)))"

definition Manager_LookupPrefill ::
  "int list \<Rightarrow> nat \<Rightarrow> ('v embedding_manager \<times> 'v float_tensor option, unit) uop" where
  "Manager_LookupPrefill tokens token_offset s =
     (case s of (m, out) \<Rightarrow>
        (case text_embedding_lookup m of
           None \<Rightarrow> Some (Inl Internal, s)
         | Some t \<Rightarrow>
             let f = GetFloatsPerToken t; off = token_offset * f in
             bind_op (with_text (Text_LookupPrefill tokens off) t)
               (\<lambda>_. bind_op
                  (if fully_supports_multi_modal m
                   then ask_multi_modal (MultiModal_LookupPrefill tokens off)
                          (\<lambda>e. EndOfMultiModal_LookupPrefill e tokens off)
                   else fill_missing tokens f off)
                  (\<lambda>_. erase_used)) (m, out)))"


section \<open>What the loops write\<close>

lemma write_block:
  "length pre = p \<Longrightarrow> length v = length r \<Longrightarrow>
   write_floats p v (pre @ r @ post) = Some (pre @ v @ post)"
  by (simp add: write_floats_def)

lemma write_front:
  "length pre = p \<Longrightarrow> length v \<le> length blk \<Longrightarrow>
   write_floats p v (pre @ blk @ post) = Some (pre @ v @ drop (length v) blk @ post)"
  by (simp add: write_floats_def)

text \<open>A run of the text lookup changes nothing but the contents of its output buffer.\<close>

definition same_text :: "'v text_lookup \<Rightarrow> 'v text_lookup \<Rightarrow> bool" where
  "same_text t t' \<longleftrightarrow>
     tl_run t' = tl_run t \<and> tl_floats t' = tl_floats t \<and> tl_default t' = tl_default t \<and>
     ft_dims (tl_out t') = ft_dims (tl_out t)"

lemma same_text_refl [simp]: "same_text t t"
  by (simp add: same_text_def)

lemma same_text_trans: "same_text t t' \<Longrightarrow> same_text t' t'' \<Longrightarrow> same_text t t''"
  by (simp add: same_text_def)

text \<open>
  A text lookup whose model gives for a token always the same row \<open>emb token\<close>, of the size that
  \<open>Initialize\<close> computed from the output's dimensions, with the row of token 0 as its default.
\<close>

definition text_ok :: "(int \<Rightarrow> 'v list) \<Rightarrow> 'v text_lookup \<Rightarrow> bool" where
  "text_ok emb t \<longleftrightarrow>
     (\<forall>token \<ge> 0. (\<forall>old. tl_run t token old = emb token) \<and> length (emb token) = tl_floats t) \<and>
     tl_default t = emb 0 \<and> tl_floats t = floats_per_token (ft_dims (tl_out t)) \<and>
     tl_floats t > 0 \<and> length (ft_dims (tl_out t)) \<ge> 3"

lemma text_ok_same: "text_ok emb t \<Longrightarrow> same_text t t' \<Longrightarrow> text_ok emb t'"
  by (simp add: text_ok_def same_text_def)

lemma text_ok_default: "text_ok emb t \<Longrightarrow> tl_default t = emb 0 \<and> length (emb 0) = tl_floats t"
  by (simp add: text_ok_def)

definition text_row :: "(int \<Rightarrow> 'v list) \<Rightarrow> int \<Rightarrow> 'v list" where
  "text_row emb token = (if token < 0 then emb 0 else emb token)"

lemma text_row_length: "text_ok emb t \<Longrightarrow> length (text_row emb token) = tl_floats t"
  by (simp add: text_ok_def text_row_def)

lemma lookup_internal_row:
  assumes "text_ok emb t"
  shows "\<exists>t'. same_text t t' \<and> LookupInternal token (tl_floats t) t = Some (Inr (text_row emb token), t')"
  using assms
  by (cases "token < 0")
     (simp_all add: LookupInternal_def read_floats_def text_row_def text_ok_def same_text_def Let_def)

lemma text_fill_rows:
  assumes "text_ok emb t" "length pre = p" "length blk = tl_floats t * length ts"
  shows "\<exists>t'. same_text t t' \<and>
           text_fill ts p (t, pre @ blk @ post) =
             Some (Ok, (t', pre @ concat (map (text_row emb) ts) @ post))"
  using assms
proof (induction ts arbitrary: t pre p blk)
  case (Cons token ts)
  let ?f = "tl_floats t" and ?r = "text_row emb token"
  obtain t' where t': "same_text t t'" "LookupInternal token ?f t = Some (Inr ?r, t')"
    using lookup_internal_row [OF Cons.prems(1)] by blast
  have ok': "text_ok emb t'" and f': "tl_floats t' = ?f"
    using text_ok_same [OF Cons.prems(1) t'(1)] t'(1) by (simp_all add: same_text_def)
  have r: "length ?r = ?f" by (rule text_row_length [OF Cons.prems(1)])
  have b: "length (drop ?f blk) = tl_floats t' * length ts"
    using Cons.prems(3) f' by simp
  have w: "write_floats p ?r (pre @ blk @ post) = Some ((pre @ ?r) @ drop ?f blk @ post)"
    using write_front [of pre p ?r blk post] Cons.prems(2,3) r by simp
  obtain t'' where t'': "same_text t' t''"
    "text_fill ts (p + ?f) (t', (pre @ ?r) @ drop ?f blk @ post) =
       Some (Ok, (t'', (pre @ ?r) @ concat (map (text_row emb) ts) @ post))"
    using Cons.IH [OF ok', of "pre @ ?r" "p + ?f" "drop ?f blk"] Cons.prems(2) r b by auto
  show ?case
    using t'(2) w t'' same_text_trans [OF t'(1) t''(1)] by (intro exI [of _ t'']) simp
qed simp

lemma default_fill_rows:
  "length pre = p \<Longrightarrow> length blk = length d * k \<Longrightarrow>
   default_fill d k p (pre @ blk @ post) = Some (pre @ concat (replicate k d) @ post)"
proof (induction k arbitrary: pre p blk)
  case (Suc k)
  let ?n = "length d"
  have "write_floats p d (pre @ blk @ post) = Some ((pre @ d) @ drop ?n blk @ post)"
    using write_front [of pre p d blk post] Suc.prems by simp
  then show ?case
    using Suc.IH [of "pre @ d" "p + ?n" "drop ?n blk"] Suc.prems by simp
qed simp

lemma concat_uniform_length:
  "(\<forall>r \<in> set rows. length r = f) \<Longrightarrow> length (concat rows) = f * length rows"
  by (induction rows) simp_all

text \<open>The rows after one lookup of vision or audio embeddings, and after the lookup of an end.\<close>

fun mm_rows :: "nat \<Rightarrow> int \<Rightarrow> 'v list \<Rightarrow> int list \<Rightarrow> 'v list list \<Rightarrow> 'v list list" where
  "mm_rows f s e [] rows = []"
| "mm_rows f s e (token # ts) rows =
     (if token = s then take f e # mm_rows f s (drop f e) ts (tl rows)
      else hd rows # mm_rows f s e ts (tl rows))"

definition consumed :: "nat \<Rightarrow> int list \<Rightarrow> 'v multi_modal \<Rightarrow> 'v multi_modal" where
  "consumed f ts l = l\<lparr>mm_embedding := drop (f * count_list ts (mm_special l)) (mm_embedding l)\<rparr>"

lemma consumed_special [simp]: "mm_special (consumed f ts l) = mm_special l"
  by (simp add: consumed_def)

lemma mm_rows_length [simp]: "length (mm_rows f s e ts rows) = length ts"
  by (induction ts arbitrary: e rows) simp_all

lemma mm_rows_uniform:
  "\<forall>r \<in> set rows. length r = f \<Longrightarrow> length rows = length ts \<Longrightarrow> f * count_list ts s \<le> length e \<Longrightarrow>
   \<forall>r \<in> set (mm_rows f s e ts rows). length r = f"
proof (induction ts arbitrary: e rows)
  case (Cons token ts)
  from Cons.prems obtain r rs where rows: "rows = r # rs" by (cases rows) simp_all
  have rs: "\<forall>r \<in> set rs. length r = f" "length rs = length ts" "length r = f"
    using Cons.prems(1,2) unfolding rows by auto
  show ?case
  proof (cases "token = s")
    case True
    then have e: "f \<le> length e" "f * count_list ts s \<le> length (drop f e)"
      using Cons.prems(3) by simp_all
    have "length (take f e) = f" using e(1) by simp
    moreover have "\<forall>r \<in> set (mm_rows f s (drop f e) ts rs). length r = f"
      by (rule Cons.IH [OF rs(1,2) e(2)])
    moreover have "mm_rows f s e (token # ts) rows = take f e # mm_rows f s (drop f e) ts rs"
      using True rows by simp
    ultimately show ?thesis by (metis set_ConsD)
  next
    case False
    then have "f * count_list ts s \<le> length e" using Cons.prems(3) by simp
    then have "\<forall>r \<in> set (mm_rows f s e ts rs). length r = f" by (rule Cons.IH [OF rs(1,2)])
    moreover have "mm_rows f s e (token # ts) rows = r # mm_rows f s e ts rs"
      using False rows by simp
    ultimately show ?thesis using rs(3) by (metis set_ConsD)
  qed
qed simp

lemma mm_rows_nth:
  "i < length ts \<Longrightarrow> length rows = length ts \<Longrightarrow>
   mm_rows f s e ts rows ! i =
     (if ts ! i = s then take f (drop (f * count_list (take i ts) s) e) else rows ! i)"
proof (induction ts arbitrary: e rows i)
  case (Cons token ts)
  from Cons.prems obtain r rs where rows: "rows = r # rs" by (cases rows) simp_all
  show ?case
  proof (cases i)
    case (Suc j)
    then have j: "j < length ts" "length rs = length ts" using Cons.prems rows by simp_all
    show ?thesis
    proof (cases "token = s")
      case True
      then show ?thesis using Cons.IH [OF j, of "drop f e"] Suc rows by (simp add: add.commute)
    next
      case False
      then show ?thesis using Cons.IH [OF j, of e] Suc rows by simp
    qed
  qed (use rows in simp)
qed simp

lemma mm_fill_rows:
  assumes "\<forall>r \<in> set rows. length r = f" "length rows = length ts" "length pre = p"
    and "f * count_list ts (mm_special l) \<le> length (mm_embedding l)"
  shows "mm_fill f ts p (l, pre @ concat rows @ post) =
           Some (Ok, (consumed f ts l,
                      pre @ concat (mm_rows f (mm_special l) (mm_embedding l) ts rows) @ post))"
  using assms
proof (induction ts arbitrary: l rows pre p)
  case (Cons token ts)
  from Cons.prems obtain r rs where rows: "rows = r # rs" "length r = f" "\<forall>r \<in> set rs. length r = f"
    "length rs = length ts"
    by (cases rows) simp_all
  show ?case
  proof (cases "token = mm_special l")
    case True
    let ?v = "take f (mm_embedding l)" and ?l = "l\<lparr>mm_embedding := drop f (mm_embedding l)\<rparr>"
    have e: "f \<le> length (mm_embedding l)"
      "f * count_list ts (mm_special ?l) \<le> length (mm_embedding ?l)"
      using Cons.prems(4) True by simp_all
    have w: "write_floats p ?v (pre @ r @ concat rs @ post) = Some (pre @ ?v @ concat rs @ post)"
      using write_block [of pre p ?v r "concat rs @ post"] Cons.prems(3) rows(2) e(1) by simp
    have "mm_fill f ts (p + f) (?l, (pre @ ?v) @ concat rs @ post) =
            Some (Ok, (consumed f ts ?l,
              (pre @ ?v) @ concat (mm_rows f (mm_special l) (drop f (mm_embedding l)) ts rs) @ post))"
      using Cons.IH [of rs "pre @ ?v" "p + f" ?l] rows(3,4) Cons.prems(3) e by simp
    then show ?thesis
      using True rows(1) w e(1) by (simp add: consumed_def drop_drop add.commute)
  next
    case False
    have "mm_fill f ts (p + f) (l, (pre @ r) @ concat rs @ post) =
            Some (Ok, (consumed f ts l,
              (pre @ r) @ concat (mm_rows f (mm_special l) (mm_embedding l) ts rs) @ post))"
      using Cons.IH [of rs "pre @ r" "p + f" l] rows Cons.prems(3,4) False by simp
    then show ?thesis using False rows(1) by (simp add: consumed_def)
  qed
qed (simp add: consumed_def)

definition end_rows :: "'v end_of_multi_modal \<Rightarrow> int list \<Rightarrow> 'v list list \<Rightarrow> 'v list list" where
  "end_rows e ts rows = map2 (\<lambda>token r. if token = eom_special e then eom_embedding e else r) ts rows"

lemma eom_fill_rows:
  assumes "\<forall>r \<in> set rows. length r = f" "length rows = length ts" "length pre = p"
    and "length (eom_embedding e) = f"
  shows "eom_fill e ts p (pre @ concat rows @ post) = Some (pre @ concat (end_rows e ts rows) @ post)"
  using assms(1-3)
proof (induction ts arbitrary: rows pre p)
  case (Cons token ts)
  from Cons.prems obtain r rs where rows: "rows = r # rs" "length r = f"
    "\<forall>r \<in> set rs. length r = f" "length rs = length ts"
    by (cases rows) simp_all
  let ?r = "if token = eom_special e then eom_embedding e else r"
  have "(if token = eom_special e then write_floats p (eom_embedding e) (pre @ r @ concat rs @ post)
         else Some (pre @ r @ concat rs @ post)) = Some ((pre @ ?r) @ concat rs @ post)"
    using write_block [of pre p "eom_embedding e" r] Cons.prems(3) rows(2) assms(4) by simp
  moreover have "eom_fill e ts (p + f) ((pre @ ?r) @ concat rs @ post) =
      Some ((pre @ ?r) @ concat (end_rows e ts rs) @ post)"
    using Cons.IH [of rs "pre @ ?r" "p + f"] rows Cons.prems(3) assms(4) by simp
  ultimately show ?case by (simp add: rows(1) end_rows_def assms(4))
qed (simp add: end_rows_def)

lemma negative_fill_rows:
  assumes "\<forall>r \<in> set rows. length r = f" "length rows = length ts" "length pre = p" "length d = f"
  shows "negative_fill d f ts p (pre @ concat rows @ post) =
           Some (pre @ concat (map2 (\<lambda>token r. if token \<ge> 0 then r else d) ts rows) @ post)"
  using assms
proof (induction ts arbitrary: rows pre p)
  case (Cons token ts)
  from Cons.prems obtain r rs where rows: "rows = r # rs" "length r = f" "\<forall>r \<in> set rs. length r = f"
    "length rs = length ts"
    by (cases rows) simp_all
  let ?r = "if token \<ge> 0 then r else d"
  have "(if token \<ge> 0 then Some (pre @ r @ concat rs @ post)
         else write_floats p d (pre @ r @ concat rs @ post)) = Some ((pre @ ?r) @ concat rs @ post)"
    using write_block [of pre p d r] Cons.prems(3,4) rows(2) by simp
  moreover have "negative_fill d f ts (p + f) ((pre @ ?r) @ concat rs @ post) =
      Some ((pre @ ?r) @ concat (map2 (\<lambda>token r. if token \<ge> 0 then r else d) ts rs) @ post)"
    using Cons.IH [of rs "pre @ ?r" "p + f"] rows Cons.prems(3,4) by simp
  ultimately show ?case by (simp add: rows(1))
qed simp


section \<open>What the lookups write into a tensor\<close>

text \<open>A tensor for rows of the text lookup's size.\<close>

definition tensor_fits :: "'v text_lookup \<Rightarrow> 'v float_tensor \<Rightarrow> bool" where
  "tensor_fits t T \<longleftrightarrow>
     ft_type T = ElFloat32 \<and> length (ft_dims T) = length (ft_dims (tl_out t)) \<and>
     ft_dims T ! 0 = 1 \<and> drop 2 (ft_dims T) = drop 2 (ft_dims (tl_out t)) \<and>
     length (ft_floats T) = ft_dims T ! 1 * tl_floats t"

lemma text_prefill_rows:
  assumes "text_ok emb t" "tensor_fits t T" "k + length ts \<le> ft_dims T ! 1"
  shows "\<exists>t'. same_text t t' \<and>
           Text_LookupPrefill ts (k * tl_floats t) (t, Some T) =
             Some (Ok, (t', Some (T\<lparr>ft_floats :=
               take (k * tl_floats t) (ft_floats T) @ concat (map (text_row emb) ts) @
               concat (replicate (ft_dims T ! 1 - (k + length ts)) (emb 0))\<rparr>)))"
proof -
  let ?f = "tl_floats t" and ?n = "length ts" and ?d = "ft_dims T ! 1" and ?xs = "ft_floats T"
  let ?pre = "take (k * ?f) ?xs" and ?blk = "take (?f * ?n) (drop (k * ?f) ?xs)"
  let ?post = "drop (?f * ?n) (drop (k * ?f) ?xs)" and ?rows = "concat (map (text_row emb) ts)"
  have f: "?f > 0" "length (ft_dims (tl_out t)) \<ge> 3" using assms(1) by (simp_all add: text_ok_def)
  have len: "length ?xs = ?d * ?f" using assms(2) by (simp add: tensor_fits_def)
  have fits: "k * ?f + ?f * ?n \<le> ?d * ?f"
    using assms(3) by (metis add_mult_distrib mult.commute mult_le_mono2)
  have pre: "length ?pre = k * ?f" and blk: "length ?blk = ?f * ?n" using len fits by simp_all
  have post: "length ?post = length (emb 0) * (?d - (k + ?n))"
    using len assms(1) by (simp add: text_ok_def diff_mult_distrib2 diff_mult_distrib algebra_simps)
  have xs: "?xs = ?pre @ ?blk @ ?post" by (simp only: append_take_drop_id)
  obtain t' where t': "same_text t t'"
      "text_fill ts (k * ?f) (t, ?pre @ ?blk @ ?post) = Some (Ok, (t', ?pre @ ?rows @ ?post))"
    using text_fill_rows [OF assms(1) pre blk, of ?post] by blast
  have rows: "length ?rows = ?f * ?n"
    using concat_uniform_length [of "map (text_row emb) ts" ?f] text_row_length [OF assms(1)] by simp
  have d: "read_floats ?f (tl_default t') = Some (emb 0)" "tl_floats t' = ?f"
    using text_ok_default [OF assms(1)] t'(1) by (simp_all add: read_floats_def same_text_def)
  have "default_fill (emb 0) (?d - (k + ?n)) (k * ?f + ?f * ?n) ((?pre @ ?rows) @ ?post @ []) =
          Some ((?pre @ ?rows) @ concat (replicate (?d - (k + ?n)) (emb 0)) @ [])"
    by (rule default_fill_rows [OF _ post]) (simp add: pre rows del: length_take)
  then have "text_fill_tensor ts (k * ?f) ?d (t, ?xs) =
      Some (Ok, (t', ?pre @ ?rows @ concat (replicate (?d - (k + ?n)) (emb 0))))"
    using t'(2) d f(1)
    unfolding text_fill_tensor_def xs [symmetric] by (simp add: bind_op_def GetFloatsPerToken_def Let_def)
  then show ?thesis
    using assms(2,3) f fits len t'(1)
    by (intro exI [of _ t'])
       (simp add: Text_LookupPrefill_def tensor_fits_def GetFloatsPerToken_def on_floats_def mult.commute)
qed

text \<open>The rows after every multimodal lookup, and after every lookup of an end.\<close>

definition all_mm_rows :: "nat \<Rightarrow> 'v multi_modal list \<Rightarrow> int list \<Rightarrow> 'v list list \<Rightarrow> 'v list list" where
  "all_mm_rows f ls ts rows = fold (\<lambda>l. mm_rows f (mm_special l) (mm_embedding l) ts) ls rows"

definition all_end_rows :: "'v end_of_multi_modal list \<Rightarrow> int list \<Rightarrow> 'v list list \<Rightarrow> 'v list list" where
  "all_end_rows es ts rows = fold (\<lambda>e. end_rows e ts) es rows"

definition enough :: "nat \<Rightarrow> int list \<Rightarrow> 'v multi_modal list \<Rightarrow> bool" where
  "enough f ts ls \<longleftrightarrow> (\<forall>l \<in> set ls. f * count_list ts (mm_special l) \<le> length (mm_embedding l))"

lemma enough_Cons [simp]:
  "enough f ts (l # ls) \<longleftrightarrow>
     f * count_list ts (mm_special l) \<le> length (mm_embedding l) \<and> enough f ts ls"
  by (simp add: enough_def)

lemma each_multi_modal_rows:
  assumes "\<forall>r \<in> set rows. length r = f" "length rows = length ts" "length pre = off" "enough f ts ls"
    and T: "ft_type T = ElFloat32" "length (ft_dims T) \<ge> 3" "ft_dims T ! 0 = 1"
      "length ts \<le> ft_dims T ! 1" "floats_per_token (ft_dims T) = f"
  shows "each_multi_modal (MultiModal_LookupPrefill ts off)
           (ls, Some (T\<lparr>ft_floats := pre @ concat rows @ post\<rparr>)) =
         Some (Ok, (map (consumed f ts) ls,
                    Some (T\<lparr>ft_floats := pre @ concat (all_mm_rows f ls ts rows) @ post\<rparr>)))"
  using assms(1,2,4)
proof (induction ls arbitrary: rows)
  case (Cons l ls)
  let ?rows = "mm_rows f (mm_special l) (mm_embedding l) ts rows"
  have e: "f * count_list ts (mm_special l) \<le> length (mm_embedding l)" "enough f ts ls"
    using Cons.prems(3) by simp_all
  have len: "length (concat rows) = f * length ts"
    using concat_uniform_length [OF Cons.prems(1)] Cons.prems(2) by simp
  have "MultiModal_LookupPrefill ts off (l, Some (T\<lparr>ft_floats := pre @ concat rows @ post\<rparr>)) =
          Some (Ok, (consumed f ts l, Some (T\<lparr>ft_floats := pre @ concat ?rows @ post\<rparr>)))"
    using mm_fill_rows [OF Cons.prems(1,2) assms(3) e(1), of post] T len assms(3)
    by (simp add: MultiModal_LookupPrefill_def on_floats_def)
  then show ?case
    using Cons.IH [OF mm_rows_uniform [OF Cons.prems(1,2) e(1)] _ e(2)]
    by (simp add: all_mm_rows_def)
qed (simp add: all_mm_rows_def)

lemma all_mm_rows_length [simp]:
  "length rows = length ts \<Longrightarrow> length (all_mm_rows f ls ts rows) = length ts"
  by (induction ls arbitrary: rows) (simp_all add: all_mm_rows_def)

lemma all_mm_rows_uniform:
  "\<forall>r \<in> set rows. length r = f \<Longrightarrow> length rows = length ts \<Longrightarrow> enough f ts ls \<Longrightarrow>
   \<forall>r \<in> set (all_mm_rows f ls ts rows). length r = f"
proof (induction ls arbitrary: rows)
  case (Cons l ls)
  have e: "f * count_list ts (mm_special l) \<le> length (mm_embedding l)" "enough f ts ls"
    using Cons.prems(3) by simp_all
  show ?case
    using Cons.IH [OF mm_rows_uniform [OF Cons.prems(1,2) e(1)] mm_rows_length e(2)]
    unfolding all_mm_rows_def by (simp only: fold_simps)
qed (simp add: all_mm_rows_def)

definition mm_find :: "'v multi_modal list \<Rightarrow> int \<Rightarrow> 'v multi_modal option" where
  "mm_find ls token = List.find (\<lambda>l. mm_special l = token) ls"

definition end_find :: "'v end_of_multi_modal list \<Rightarrow> int \<Rightarrow> 'v end_of_multi_modal option" where
  "end_find es token = List.find (\<lambda>e. eom_special e = token) es"

lemma all_mm_rows_nth:
  assumes "distinct (map mm_special ls)" "i < length ts" "length rows = length ts"
  shows "all_mm_rows f ls ts rows ! i =
           (case mm_find ls (ts ! i) of
              None \<Rightarrow> rows ! i
            | Some l \<Rightarrow> take f (drop (f * count_list (take i ts) (ts ! i)) (mm_embedding l)))"
  using assms(1,3)
proof (induction ls arbitrary: rows)
  case (Cons l ls)
  let ?rows = "mm_rows f (mm_special l) (mm_embedding l) ts rows"
  have IH: "all_mm_rows f ls ts ?rows ! i =
      (case mm_find ls (ts ! i) of None \<Rightarrow> ?rows ! i
       | Some l \<Rightarrow> take f (drop (f * count_list (take i ts) (ts ! i)) (mm_embedding l)))"
    using Cons.IH [of ?rows] Cons.prems(1) by simp
  have none: "mm_find ls (mm_special l) = None"
    using Cons.prems(1) by (fastforce simp: mm_find_def find_None_iff image_iff)
  have step: "all_mm_rows f (l # ls) ts rows ! i = all_mm_rows f ls ts ?rows ! i"
    by (simp add: all_mm_rows_def)
  show ?case
  proof (cases "ts ! i = mm_special l")
    case True
    then show ?thesis
      unfolding step IH using none mm_rows_nth [OF assms(2) Cons.prems(2)] by (simp add: mm_find_def)
  next
    case False
    then show ?thesis
      unfolding step IH using mm_rows_nth [OF assms(2) Cons.prems(2)]
      by (simp add: mm_find_def split: option.split)
  qed
qed (simp add: all_mm_rows_def mm_find_def)

lemma end_rows_length [simp]: "length rows = length ts \<Longrightarrow> length (end_rows e ts rows) = length ts"
  by (simp add: end_rows_def)

lemma end_rows_nth:
  "i < length ts \<Longrightarrow> length rows = length ts \<Longrightarrow>
   end_rows e ts rows ! i = (if ts ! i = eom_special e then eom_embedding e else rows ! i)"
  by (simp add: end_rows_def)

lemma all_end_rows_length [simp]:
  "length rows = length ts \<Longrightarrow> length (all_end_rows es ts rows) = length ts"
  by (induction es arbitrary: rows) (simp_all add: all_end_rows_def)

lemma all_end_rows_nth:
  assumes "distinct (map eom_special es)" "i < length ts" "length rows = length ts"
  shows "all_end_rows es ts rows ! i =
           (case end_find es (ts ! i) of None \<Rightarrow> rows ! i | Some e \<Rightarrow> eom_embedding e)"
  using assms(1,3)
proof (induction es arbitrary: rows)
  case (Cons e es)
  have IH: "all_end_rows es ts (end_rows e ts rows) ! i =
      (case end_find es (ts ! i) of None \<Rightarrow> end_rows e ts rows ! i | Some e \<Rightarrow> eom_embedding e)"
    using Cons.IH [of "end_rows e ts rows"] Cons.prems by simp
  have step: "all_end_rows (e # es) ts rows ! i = all_end_rows es ts (end_rows e ts rows) ! i"
    by (simp add: all_end_rows_def)
  have none: "end_find es (eom_special e) = None"
    using Cons.prems(1) by (fastforce simp: end_find_def find_None_iff image_iff)
  show ?case
    unfolding step IH using none Cons.prems(2) assms(2)
    by (auto simp: end_rows_nth end_find_def split: option.split)
qed (simp add: all_end_rows_def end_find_def)


lemma each_end_rows:
  assumes "\<forall>r \<in> set rows. length r = f" "length rows = length ts" "length pre = off"
    and T: "length (ft_dims T) \<ge> 3" "ft_dims T ! 0 = 1" "length ts \<le> ft_dims T ! 1"
    and es: "\<forall>e \<in> set es. length (eom_embedding e) = f \<and> length (eom_layout e) = length (ft_dims T) \<and>
               drop 2 (eom_layout e) = drop 2 (ft_dims T)"
  shows "each_end (\<lambda>e. EndOfMultiModal_LookupPrefill e ts off) es
           (Some (T\<lparr>ft_floats := pre @ concat rows @ post\<rparr>)) =
         Some (Ok, Some (T\<lparr>ft_floats := pre @ concat (all_end_rows es ts rows) @ post\<rparr>))"
  using assms(1,2) es
proof (induction es arbitrary: rows)
  case (Cons e es)
  have e: "length (eom_embedding e) = f" "length (eom_layout e) = length (ft_dims T)"
    "drop 2 (eom_layout e) = drop 2 (ft_dims T)"
    using Cons.prems(3) by simp_all
  have len: "length (concat rows) = f * length ts"
    using concat_uniform_length [OF Cons.prems(1)] Cons.prems(2) by simp
  have uni: "\<forall>r \<in> set (end_rows e ts rows). length r = f"
    using Cons.prems(1) e(1) by (auto simp: end_rows_def dest: set_zip_rightD)
  have "EndOfMultiModal_LookupPrefill e ts off (Some (T\<lparr>ft_floats := pre @ concat rows @ post\<rparr>)) =
          Some (Ok, Some (T\<lparr>ft_floats := pre @ concat (end_rows e ts rows) @ post\<rparr>))"
    using eom_fill_rows [OF Cons.prems(1,2) assms(3) e(1), of post] T e len assms(3)
    by (simp add: EndOfMultiModal_LookupPrefill_def)
  then show ?case
    using Cons.IH [OF uni] Cons.prems(2,3) by (simp add: all_end_rows_def bind_op_def)
qed (simp add: all_end_rows_def)

section \<open>The rows of a prefill\<close>

text \<open>
  A manager as \<^verbatim>\<open>Create\<close> and \<^verbatim>\<open>UpdateMultiModalEmbeddings\<close> leave it: the row of a token depends on the
  token alone, the special tokens are negative, and no two lookups wait for the same one.
\<close>

definition manager_ok :: "(int \<Rightarrow> 'v list) \<Rightarrow> 'v text_lookup \<Rightarrow> 'v embedding_manager \<Rightarrow> bool" where
  "manager_ok emb t m \<longleftrightarrow>
     text_embedding_lookup m = Some t \<and> text_ok emb t \<and>
     default_embedding_vector m = emb 0 \<and>
     distinct (map mm_special (multi_modal_lookups m)) \<and>
     (\<forall>l \<in> set (multi_modal_lookups m). mm_special l < 0) \<and>
     distinct (map eom_special (end_of_multi_modal_lookups m)) \<and>
     (\<forall>e \<in> set (end_of_multi_modal_lookups m).
        eom_special e < 0 \<and> length (eom_embedding e) = tl_floats t \<and>
        length (eom_layout e) = length (ft_dims (tl_out t)) \<and>
        drop 2 (eom_layout e) = drop 2 (ft_dims (tl_out t))) \<and>
     (\<not> fully_supports_multi_modal m \<longrightarrow>
        multi_modal_lookups m = [] \<and> end_of_multi_modal_lookups m = [])"

text \<open>
  The row that stands for token \<open>i\<close> of a prefill: the model's row of a text token, the cached row of
  an end token, for the \<open>n\<close>-th special token of a modality the \<open>n\<close>-th of its rows that are left, and
  otherwise the row of token 0.
\<close>

definition token_row ::
  "(int \<Rightarrow> 'v list) \<Rightarrow> 'v embedding_manager \<Rightarrow> int list \<Rightarrow> nat \<Rightarrow> 'v list" where
  "token_row emb m ts i =
     (let token = ts ! i; f = length (emb 0) in
      if token \<ge> 0 then emb token
      else case end_find (end_of_multi_modal_lookups m) token of
             Some e \<Rightarrow> eom_embedding e
           | None \<Rightarrow>
               (case mm_find (multi_modal_lookups m) token of
                  Some l \<Rightarrow> take f (drop (f * count_list (take i ts) token) (mm_embedding l))
                | None \<Rightarrow> emb 0))"

lemma find_special_negative:
  "\<forall>l \<in> set ls. mm_special l < 0 \<Longrightarrow> token \<ge> 0 \<Longrightarrow> mm_find ls token = None"
  "\<forall>e \<in> set es. eom_special e < 0 \<Longrightarrow> token \<ge> 0 \<Longrightarrow> end_find es token = None"
  by (fastforce simp: mm_find_def end_find_def find_None_iff)+

lemma looked_up_rows:
  assumes "manager_ok emb t m"
  shows "all_end_rows (end_of_multi_modal_lookups m) ts
           (all_mm_rows (tl_floats t) (multi_modal_lookups m) ts (map (text_row emb) ts)) =
         map (token_row emb m ts) [0..<length ts]"
proof (rule nth_equalityI)
  fix i assume "i < length (all_end_rows (end_of_multi_modal_lookups m) ts
           (all_mm_rows (tl_floats t) (multi_modal_lookups m) ts (map (text_row emb) ts)))"
  then have i: "i < length ts" by simp
  let ?es = "end_of_multi_modal_lookups m" and ?ls = "multi_modal_lookups m"
  have f: "length (emb 0) = tl_floats t" using assms by (simp add: manager_ok_def text_ok_def)
  have special: "\<forall>l \<in> set ?ls. mm_special l < 0" "\<forall>e \<in> set ?es. eom_special e < 0"
    using assms by (simp_all add: manager_ok_def)
  have neg: "mm_find ?ls (ts ! i) = None" "end_find ?es (ts ! i) = None" if "ts ! i \<ge> 0"
    using find_special_negative(1) [OF special(1) that] find_special_negative(2) [OF special(2) that]
    by simp_all
  have "all_end_rows ?es ts (all_mm_rows (tl_floats t) ?ls ts (map (text_row emb) ts)) ! i =
      (case end_find ?es (ts ! i) of
         None \<Rightarrow> (case mm_find ?ls (ts ! i) of
                    None \<Rightarrow> text_row emb (ts ! i)
                  | Some l \<Rightarrow> take (tl_floats t)
                      (drop (tl_floats t * count_list (take i ts) (ts ! i)) (mm_embedding l)))
       | Some e \<Rightarrow> eom_embedding e)"
    using all_end_rows_nth [of ?es i ts] all_mm_rows_nth [of ?ls i ts] assms i
    by (simp add: manager_ok_def cong: option.case_cong)
  also have "\<dots> = token_row emb m ts i"
    using neg by (cases "ts ! i \<ge> 0") (simp_all add: token_row_def text_row_def f Let_def cong: option.case_cong)
  finally show "all_end_rows ?es ts
      (all_mm_rows (tl_floats t) ?ls ts (map (text_row emb) ts)) ! i =
      map (token_row emb m ts) [0..<length ts] ! i"
    using i by simp
qed simp

text \<open>The manager after a prefill of \<open>ts\<close>.\<close>

definition prefilled :: "int list \<Rightarrow> 'v text_lookup \<Rightarrow> 'v embedding_manager \<Rightarrow> 'v embedding_manager" where
  "prefilled ts t m =
     m\<lparr>text_embedding_lookup := Some t,
       multi_modal_lookups :=
         filter HasRemainingEmbeddings (map (consumed (tl_floats t) ts) (multi_modal_lookups m))\<rparr>"

lemma manager_prefill_rows:
  assumes ok: "manager_ok emb t m" and T: "tensor_fits t T" and n: "k + length ts \<le> ft_dims T ! 1"
    and e: "enough (tl_floats t) ts (multi_modal_lookups m)"
  shows "\<exists>t'. same_text t t' \<and>
           Manager_LookupPrefill ts k (m, Some T) =
             Some (Ok, (prefilled ts t' m, Some (T\<lparr>ft_floats :=
               take (k * tl_floats t) (ft_floats T) @
               concat (map (token_row emb m ts) [0..<length ts]) @
               concat (replicate (ft_dims T ! 1 - (k + length ts)) (emb 0))\<rparr>)))"
proof -
  let ?f = "tl_floats t" and ?ls = "multi_modal_lookups m" and ?es = "end_of_multi_modal_lookups m"
  let ?pre = "take (k * ?f) (ft_floats T)" and ?rows = "map (text_row emb) ts"
  let ?post = "concat (replicate (ft_dims T ! 1 - (k + length ts)) (emb 0))"
  have t: "text_embedding_lookup m = Some t" "text_ok emb t"
    using ok by (simp_all add: manager_ok_def)
  obtain t' where t': "same_text t t'"
    "Text_LookupPrefill ts (k * ?f) (t, Some T) =
       Some (Ok, (t', Some (T\<lparr>ft_floats := ?pre @ concat ?rows @ ?post\<rparr>)))"
    using text_prefill_rows [OF t(2) T n] by blast
  have uni: "\<forall>r \<in> set ?rows. length r = ?f" using text_row_length [OF t(2)] by simp
  have pre: "length ?pre = k * ?f"
    using T n by (simp add: tensor_fits_def)
  have dims: "length (ft_dims T) \<ge> 3" "ft_dims T ! 0 = 1" "length ts \<le> ft_dims T ! 1"
    "floats_per_token (ft_dims T) = ?f" "ft_type T = ElFloat32"
    using T n t(2) by (simp_all add: tensor_fits_def text_ok_def floats_per_token_def)
  show ?thesis
  proof (cases "fully_supports_multi_modal m")
    case True
    let ?mm = "all_mm_rows ?f ?ls ts ?rows"
    have mm: "each_multi_modal (MultiModal_LookupPrefill ts (k * ?f))
        (?ls, Some (T\<lparr>ft_floats := ?pre @ concat ?rows @ ?post\<rparr>)) =
        Some (Ok, (map (consumed ?f ts) ?ls, Some (T\<lparr>ft_floats := ?pre @ concat ?mm @ ?post\<rparr>)))"
      by (rule each_multi_modal_rows [OF uni _ pre e dims(5,1,2,3,4)]) simp
    have "each_end (\<lambda>e. EndOfMultiModal_LookupPrefill e ts (k * ?f)) ?es
        (Some (T\<lparr>ft_floats := ?pre @ concat ?mm @ ?post\<rparr>)) =
        Some (Ok, Some (T\<lparr>ft_floats := ?pre @ concat (all_end_rows ?es ts ?mm) @ ?post\<rparr>))"
      using all_mm_rows_uniform [OF uni _ e] pre dims ok T
      by (intro each_end_rows [where f = ?f]) (simp_all add: manager_ok_def tensor_fits_def)
    then show ?thesis
      using t t' mm True looked_up_rows [OF ok, of ts]
      by (intro exI [of _ t'])
         (simp add: Manager_LookupPrefill_def with_text_def ask_multi_modal_def bind_op_def erase_used_def
            prefilled_def GetFloatsPerToken_def same_text_def Let_def)
  next
    case False
    then have none: "?ls = []" "?es = []" "default_embedding_vector m = emb 0"
      using ok by (simp_all add: manager_ok_def)
    have same: "map2 (\<lambda>token r. if token \<ge> 0 then r else emb 0) ts ?rows = ?rows"
      by (rule nth_equalityI) (simp_all add: text_row_def)
    have d: "length (emb 0) = ?f" using t(2) by (simp add: text_ok_def)
    have "negative_fill (emb 0) ?f ts (k * ?f) (?pre @ concat ?rows @ ?post) =
        Some (?pre @ concat ?rows @ ?post)"
      using negative_fill_rows [OF uni _ pre d, of ts ?post] same by simp
    moreover have "?rows = map (token_row emb m ts) [0..<length ts]"
      using looked_up_rows [OF ok, of ts] none by (simp add: all_end_rows_def all_mm_rows_def)
    ultimately show ?thesis
      using t t' False none
      by (intro exI [of _ t'])
         (simp add: Manager_LookupPrefill_def with_text_def bind_op_def erase_used_def fill_missing_def
            prefilled_def GetFloatsPerToken_def same_text_def Let_def)
  qed
qed


section \<open>The row of a single token\<close>

lemma each_multi_modal_token:
  assumes "distinct (map mm_special ls)" "enough f [token] ls" "length v = f"
  shows "each_multi_modal (defined (MultiModal_LookupPrefillToken token)) (ls, v) =
           Some (Ok, (map (consumed f [token]) ls,
             case mm_find ls token of None \<Rightarrow> v | Some l \<Rightarrow> take f (mm_embedding l)))"
  using assms
proof (induction ls arbitrary: v)
  case (Cons l ls)
  have e: "f * count_list [token] (mm_special l) \<le> length (mm_embedding l)" "enough f [token] ls"
    using Cons.prems(2) by simp_all
  show ?case
  proof (cases "token = mm_special l")
    case True
    have none: "mm_find ls token = None"
      using Cons.prems(1) True by (fastforce simp: mm_find_def find_None_iff image_iff)
    have v: "length (take f (mm_embedding l)) = f" using e(1) True by simp
    have "each_multi_modal (defined (MultiModal_LookupPrefillToken token)) (ls, take f (mm_embedding l)) =
        Some (Ok, (map (consumed f [token]) ls, take f (mm_embedding l)))"
      using Cons.IH [OF _ e(2) v] Cons.prems(1) none by simp
    moreover have "defined (MultiModal_LookupPrefillToken token) (l, v) =
        Some (Ok, (consumed f [token] l, take f (mm_embedding l)))"
      using True Cons.prems(3) e(1)
      by (simp add: defined_def MultiModal_LookupPrefillToken_def consumed_def)
    ultimately show ?thesis using True by (simp add: mm_find_def)
  next
    case False
    then have "defined (MultiModal_LookupPrefillToken token) (l, v) =
        Some (Ok, (consumed f [token] l, v))"
      by (simp add: defined_def MultiModal_LookupPrefillToken_def consumed_def)
    then show ?thesis
      using Cons.IH [OF _ e(2) Cons.prems(3)] Cons.prems(1) False by (simp add: mm_find_def)
  qed
qed (simp add: mm_find_def)

lemma each_end_token:
  assumes "distinct (map eom_special es)" "\<forall>e \<in> set es. length (eom_embedding e) = length v"
  shows "each_end (\<lambda>e. defined (EndOfMultiModal_LookupPrefillToken e token)) es v =
           Some (Ok, case end_find es token of None \<Rightarrow> v | Some e \<Rightarrow> eom_embedding e)"
  using assms
proof (induction es arbitrary: v)
  case (Cons e es)
  show ?case
  proof (cases "token = eom_special e")
    case True
    have none: "end_find es token = None"
      using Cons.prems(1) True by (fastforce simp: end_find_def find_None_iff image_iff)
    have "each_end (\<lambda>e. defined (EndOfMultiModal_LookupPrefillToken e token)) es (eom_embedding e) =
        Some (Ok, eom_embedding e)"
      using Cons.IH [of "eom_embedding e"] Cons.prems none by simp
    moreover have "defined (EndOfMultiModal_LookupPrefillToken e token) v = Some (Ok, eom_embedding e)"
      using True Cons.prems(2) by (simp add: defined_def EndOfMultiModal_LookupPrefillToken_def)
    ultimately show ?thesis using True by (simp add: bind_op_def end_find_def)
  next
    case False
    then have "defined (EndOfMultiModal_LookupPrefillToken e token) v = Some (Ok, v)"
      by (simp add: defined_def EndOfMultiModal_LookupPrefillToken_def)
    then show ?thesis
      using Cons.IH [of v] Cons.prems False by (simp add: bind_op_def end_find_def)
  qed
qed (simp add: end_find_def)

text \<open>Whether some lookup answers for a token.\<close>

definition answered :: "'v embedding_manager \<Rightarrow> int \<Rightarrow> bool" where
  "answered m token \<longleftrightarrow>
     token \<ge> 0 \<or> \<not> fully_supports_multi_modal m \<or>
     mm_find (multi_modal_lookups m) token \<noteq> None \<or>
     end_find (end_of_multi_modal_lookups m) token \<noteq> None"

text \<open>The manager after the lookup of a single token, which erases no lookup.\<close>

definition took :: "int \<Rightarrow> 'v text_lookup \<Rightarrow> 'v embedding_manager \<Rightarrow> 'v embedding_manager" where
  "took token t m =
     m\<lparr>text_embedding_lookup := Some t,
       multi_modal_lookups := map (consumed (tl_floats t) [token]) (multi_modal_lookups m)\<rparr>"

lemma resize_length [simp]: "length (resize n v) = n"
  by (simp add: resize_def)

lemma consumed_other: "\<forall>l \<in> set ls. mm_special l \<noteq> token \<Longrightarrow> map (consumed f [token]) ls = ls"
  by (induction ls) (auto simp: consumed_def)

lemma negative_token_row:
  assumes ok: "manager_ok emb t m" and e: "enough (tl_floats t) [token] (multi_modal_lookups m)"
    and "token < 0" "fully_supports_multi_modal m"
  shows "Manager_LookupPrefillToken token (m, v) =
           Some (Ok, (took token t m,
             if answered m token then token_row emb m [token] 0 else resize (tl_floats t) v))"
proof -
  let ?v = "resize (tl_floats t) v" and ?ls = "multi_modal_lookups m"
  let ?es = "end_of_multi_modal_lookups m"
  let ?w = "case mm_find ?ls token of None \<Rightarrow> ?v | Some l \<Rightarrow> take (tl_floats t) (mm_embedding l)"
  have t: "text_embedding_lookup m = Some t" "length (emb 0) = tl_floats t"
    using ok by (simp_all add: manager_ok_def text_ok_def)
  have mm: "each_multi_modal (defined (MultiModal_LookupPrefillToken token)) (?ls, ?v) =
      Some (Ok, (map (consumed (tl_floats t) [token]) ?ls, ?w))"
    using ok by (intro each_multi_modal_token e) (simp_all add: manager_ok_def)
  have len: "length ?w = tl_floats t"
  proof (cases "mm_find ?ls token")
    case (Some l)
    then have "l \<in> set ?ls" "mm_special l = token" by (auto simp: mm_find_def find_Some_iff)
    then show ?thesis using e Some by (fastforce simp: enough_def)
  qed simp
  have en: "each_end (\<lambda>e. defined (EndOfMultiModal_LookupPrefillToken e token)) ?es ?w =
      Some (Ok, case end_find ?es token of None \<Rightarrow> ?w | Some e \<Rightarrow> eom_embedding e)"
    using ok len by (intro each_end_token) (simp_all add: manager_ok_def)
  have "(case end_find ?es token of None \<Rightarrow> ?w | Some e \<Rightarrow> eom_embedding e) =
      (if answered m token then token_row emb m [token] 0 else ?v)"
    using assms(3,4) t(2) by (auto simp: answered_def token_row_def split: option.split)
  then show ?thesis
    using t assms(3,4) mm en
    by (simp add: Manager_LookupPrefillToken_def GetFloatsPerToken_def ask_multi_modal_def bind_op_def
        took_def Let_def)
qed

lemma single_token_row:
  assumes ok: "manager_ok emb t m" and e: "enough (tl_floats t) [token] (multi_modal_lookups m)"
    and a: "answered m token"
  shows "\<exists>t'. same_text t t' \<and>
           Manager_LookupPrefillToken token (m, v) =
             Some (Ok, (took token t' m, token_row emb m [token] 0))"
proof (cases "token < 0 \<and> fully_supports_multi_modal m")
  case True
  then show ?thesis
    using negative_token_row [OF ok e] a by (intro exI [of _ t]) simp
next
  case False
  let ?v = "resize (tl_floats t) v"
  have t: "text_embedding_lookup m = Some t" "text_ok emb t"
    using ok by (simp_all add: manager_ok_def)
  show ?thesis
  proof (cases "token < 0")
    case True
    then have none: "\<not> fully_supports_multi_modal m" "multi_modal_lookups m = []"
      "end_of_multi_modal_lookups m = []" "default_embedding_vector m = emb 0"
      using False ok by (simp_all add: manager_ok_def)
    have "write_floats 0 (emb 0) ?v = Some (emb 0)"
      using text_ok_default [OF t(2)] by (simp add: write_floats_def)
    moreover have "took token t m = m" using none t(1) by (simp add: took_def)
    ultimately show ?thesis
      using none t True
      by (intro exI [of _ t])
         (simp add: Manager_LookupPrefillToken_def GetFloatsPerToken_def token_row_def mm_find_def
            end_find_def)
  next
    case nonneg: False
    obtain t' where t': "same_text t t'"
      "LookupInternal token (tl_floats t) t = Some (Inr (text_row emb token), t')"
      using lookup_internal_row [OF t(2)] by blast
    have "\<forall>l \<in> set (multi_modal_lookups m). mm_special l \<noteq> token"
      using ok nonneg by (auto simp: manager_ok_def)
    then have "took token t' m = m\<lparr>text_embedding_lookup := Some t'\<rparr>"
      by (simp add: took_def consumed_other)
    then show ?thesis
      using t t' nonneg
      by (intro exI [of _ t'])
         (simp add: Manager_LookupPrefillToken_def GetFloatsPerToken_def with_text_def
            Text_LookupPrefillToken_def token_row_def text_row_def)
  qed
qed

section \<open>The rest of a prefill\<close>

lemma mm_find_consumed: "mm_find (map (consumed f ts) ls) token = map_option (consumed f ts) (mm_find ls token)"
  by (induction ls) (simp_all add: mm_find_def)

lemma mm_find_erased:
  assumes "enough f (ts @ rest) ls" "token \<in> set rest" "f > 0"
  shows "mm_find (filter HasRemainingEmbeddings (map (consumed f ts) ls)) token =
           map_option (consumed f ts) (mm_find ls token)"
  using assms(1)
proof (induction ls)
  case (Cons l ls)
  have "HasRemainingEmbeddings (consumed f ts l)" if "mm_special l = token"
  proof -
    have "count_list rest token > 0" using assms(2) by (metis count_list_0_iff gr0I)
    then have "f * count_list ts token < f * count_list (ts @ rest) token" using assms(3) by simp
    also have "\<dots> \<le> length (mm_embedding l)" using Cons.prems that by simp
    finally show ?thesis using that by (simp add: HasRemainingEmbeddings_def consumed_def)
  qed
  then show ?case using Cons by (auto simp: mm_find_def)
qed (simp add: mm_find_def)

lemma enough_rest:
  "enough f (ts @ rest) ls \<Longrightarrow> enough f rest (map (consumed f ts) ls)"
  by (auto simp: enough_def consumed_def algebra_simps)

lemma enough_filter: "enough f ts ls \<Longrightarrow> enough f ts (filter P ls)"
  by (simp add: enough_def)

lemma enough_prefix: "enough f (ts @ rest) ls \<Longrightarrow> enough f ts ls"
  by (auto simp: enough_def algebra_simps intro: le_trans)

lemma token_row_rest:
  assumes "mm_find ls (rest ! i) = map_option (consumed (length (emb 0)) ts) (mm_find (multi_modal_lookups m) (rest ! i))"
    and "i < length rest"
  shows "token_row emb (m\<lparr>text_embedding_lookup := tx, multi_modal_lookups := ls\<rparr>) rest i =
         token_row emb m (ts @ rest) (length ts + i)"
proof -
  have special: "mm_special l = rest ! i" if "mm_find (multi_modal_lookups m) (rest ! i) = Some l" for l
    using that by (auto simp: mm_find_def find_Some_iff)
  have "(ts @ rest) ! (length ts + i) = rest ! i" "take (length ts + i) (ts @ rest) = ts @ take i rest"
    by (simp_all add: nth_append)
  then show ?thesis
    using assms special
    by (auto simp: token_row_def consumed_def Let_def algebra_simps split: option.split)
qed

lemma manager_ok_consumed:
  assumes "manager_ok emb t m" "same_text t t'"
  shows "manager_ok emb t' (prefilled ts t' m)" "manager_ok emb t' (took token t' m)"
proof -
  have map: "mm_special \<circ> consumed f ts = mm_special" for f ts by auto
  have "distinct (map mm_special (filter HasRemainingEmbeddings
          (map (consumed (tl_floats t') ts) (multi_modal_lookups m))))"
    using assms(1) by (intro distinct_map_filter) (simp add: manager_ok_def map)
  then show "manager_ok emb t' (prefilled ts t' m)"
    using assms text_ok_same [OF _ assms(2)]
    by (auto simp: manager_ok_def prefilled_def same_text_def)
  show "manager_ok emb t' (took token t' m)"
    using assms text_ok_same [OF _ assms(2)]
    by (auto simp: manager_ok_def took_def same_text_def map)
qed

section \<open>The properties\<close>

text \<open>C9. a prefill of tokens writes, for every token and in their order, the row that stands for it,
  and the default row for the rest of the tensor; it removes the rows it used from the embeddings of
  the modalities, drops the lookups it used up, and changes no row before the offset.\<close>
theorem prefill_writes_token_rows:
  fixes emb :: "int \<Rightarrow> 'v list"
  assumes "manager_ok emb t m" "tensor_fits t T" "k + length ts \<le> ft_dims T ! 1"
    and "enough (tl_floats t) ts (multi_modal_lookups m)"
  shows "\<exists>t'. same_text t t' \<and>
           Manager_LookupPrefill ts k (m, Some T) =
             Some (Ok, (prefilled ts t' m, Some (T\<lparr>ft_floats :=
               take (k * tl_floats t) (ft_floats T) @
               concat (map (token_row emb m ts) [0..<length ts]) @
               concat (replicate (ft_dims T ! 1 - (k + length ts)) (emb 0))\<rparr>)))"
  by (rule manager_prefill_rows [OF assms])

definition example_emb :: "int \<Rightarrow> int list" where
  "example_emb token = [token, token + 100]"

definition example_text :: "int text_lookup" where
  "example_text =
     \<lparr>tl_run = (\<lambda>token old. example_emb token),
      tl_out = \<lparr>ft_type = ElFloat32, ft_dims = [1, 1, 2], ft_host = True, ft_floats = [0, 100]\<rparr>,
      tl_floats = 2, tl_default = example_emb 0\<rparr>"

definition example_manager :: "int embedding_manager" where
  "example_manager =
     \<lparr>text_embedding_lookup = Some example_text,
      multi_modal_lookups = [\<lparr>mm_special = -1, mm_embedding = [10, 11, 12, 13]\<rparr>],
      end_of_multi_modal_lookups =
        [\<lparr>eom_special = -4, eom_layout = [1, 1, 2], eom_embedding = [7, 8]\<rparr>],
      fully_supports_multi_modal = True, default_embedding_vector = example_emb 0\<rparr>"

definition example_tensor :: "int float_tensor" where
  "example_tensor =
     \<lparr>ft_type = ElFloat32, ft_dims = [1, 4, 2], ft_host = True, ft_floats = replicate 8 0\<rparr>"

lemma example_ok: "manager_ok example_emb example_text example_manager"
  by (simp add: manager_ok_def text_ok_def example_manager_def example_text_def example_emb_def
      floats_per_token_def)

lemma example_fits: "tensor_fits example_text example_tensor"
  by (simp add: tensor_fits_def example_text_def example_tensor_def)

theorem prefill_writes_token_rows_witness:
  "\<exists>t'. same_text example_text t' \<and>
     Manager_LookupPrefill [5, -1, -4] 0 (example_manager, Some example_tensor) =
       Some (Ok, (prefilled [5, -1, -4] t' example_manager,
                  Some (example_tensor\<lparr>ft_floats := [5, 105, 10, 11, 7, 8, 0, 100]\<rparr>)))"
proof -
  have "enough (tl_floats example_text) [5, -1, -4] (multi_modal_lookups example_manager)"
    by (simp add: enough_def example_text_def example_manager_def)
  moreover have "0 + length [5, -1, -4 :: int] \<le> ft_dims example_tensor ! 1"
    by (simp add: example_tensor_def)
  moreover have "concat (map (token_row example_emb example_manager [5, -1, -4])
      [0..<length [5, -1, -4 :: int]]) = [5, 105, 10, 11, 7, 8]"
    by (simp add: token_row_def example_manager_def example_emb_def mm_find_def end_find_def
        upt_conv_Cons)
  ultimately show ?thesis
    using prefill_writes_token_rows [OF example_ok example_fits, of 0 "[5, -1, -4]"]
    by (simp add: example_tensor_def example_emb_def example_text_def)
qed

text \<open>a prefill may come in pieces, each the rows of its tokens but the last and then the row of
  the last token for the pending input: the last row is the one that stands for that token behind the
  others, and the rows of all later pieces are those they have in one uncut prefill.\<close>
theorem prefill_in_pieces_keeps_rows:
  fixes emb :: "int \<Rightarrow> 'v :: zero list"
  assumes ok: "manager_ok emb t m" and T: "tensor_fits t T" "k + length ts \<le> ft_dims T ! 1"
    and e: "enough (tl_floats t) (ts @ token # rest) (multi_modal_lookups m)"
    and a: "answered m token"
  shows "\<exists>t' m1 T' m2.
           Manager_LookupPrefill ts k (m, Some T) = Some (Ok, (m1, Some T')) \<and>
           Manager_LookupPrefillToken token (m1, v) =
             Some (Ok, (m2, token_row emb m (ts @ token # rest) (length ts))) \<and>
           same_text t t' \<and> manager_ok emb t' m2 \<and>
           enough (tl_floats t') rest (multi_modal_lookups m2) \<and>
           (\<forall>i < length rest.
              token_row emb m2 rest i = token_row emb m (ts @ token # rest) (length ts + 1 + i))"
proof -
  let ?f = "tl_floats t" and ?ls = "multi_modal_lookups m"
  have f: "?f > 0" "length (emb 0) = ?f" using ok by (simp_all add: manager_ok_def text_ok_def)
  obtain t1 T' where t1: "same_text t t1"
      "Manager_LookupPrefill ts k (m, Some T) = Some (Ok, (prefilled ts t1 m, Some T'))"
    using manager_prefill_rows [OF ok T enough_prefix [OF e]] by blast
  let ?m1 = "prefilled ts t1 m"
  have f1: "tl_floats t1 = ?f" using t1(1) by (simp add: same_text_def)
  have ls1: "multi_modal_lookups ?m1 = filter HasRemainingEmbeddings (map (consumed ?f ts) ?ls)"
    "end_of_multi_modal_lookups ?m1 = end_of_multi_modal_lookups m"
    "fully_supports_multi_modal ?m1 = fully_supports_multi_modal m"
    by (simp_all add: prefilled_def f1)
  have e1: "enough ?f (token # rest) (multi_modal_lookups ?m1)"
    unfolding ls1 by (intro enough_filter enough_rest e)
  have find1: "mm_find (multi_modal_lookups ?m1) s = map_option (consumed ?f ts) (mm_find ?ls s)"
    if "s \<in> set (token # rest)" for s
    unfolding ls1 by (rule mm_find_erased [OF e that f(1)])
  have row1: "token_row emb ?m1 (token # rest) i = token_row emb m (ts @ token # rest) (length ts + i)"
    if "i < length (token # rest)" for i
  proof -
    have m1: "m\<lparr>text_embedding_lookup := Some t1, multi_modal_lookups := multi_modal_lookups ?m1\<rparr> = ?m1"
      by (simp add: prefilled_def)
    have "mm_find (multi_modal_lookups ?m1) ((token # rest) ! i) =
        map_option (consumed (length (emb 0)) ts) (mm_find ?ls ((token # rest) ! i))"
      unfolding f(2) by (rule find1 [OF nth_mem [OF that]])
    then show ?thesis
      using token_row_rest [where ls = "multi_modal_lookups ?m1" and rest = "token # rest" and i = i
          and emb = emb and ts = ts and m = m and tx = "Some t1"] that
      unfolding m1 by blast
  qed
  have ok1: "manager_ok emb t1 ?m1" by (rule manager_ok_consumed [OF ok t1(1)])
  have a1: "answered ?m1 token" using a find1 [of token] ls1 by (simp add: answered_def)
  have "enough (tl_floats t1) [token] (multi_modal_lookups ?m1)"
    using enough_prefix [of ?f "[token]" rest] e1 f1 by simp
  then obtain t2 where t2: "same_text t1 t2"
      "Manager_LookupPrefillToken token (?m1, v) =
         Some (Ok, (took token t2 ?m1, token_row emb ?m1 [token] 0))"
    using single_token_row [OF ok1 _ a1] by blast
  let ?m2 = "took token t2 ?m1"
  have f2: "tl_floats t2 = ?f" using t2(1) f1 by (simp add: same_text_def)
  have "token_row emb ?m1 [token] 0 = token_row emb ?m1 (token # rest) 0"
    unfolding token_row_def by (simp only: take_0 nth_Cons_0)
  then have last: "token_row emb ?m1 [token] 0 = token_row emb m (ts @ token # rest) (length ts)"
    using row1 [of 0] by simp
  have row2: "token_row emb ?m2 rest i = token_row emb ?m1 (token # rest) (1 + i)"
    if "i < length rest" for i
  proof -
    let ?ls2 = "map (consumed ?f [token]) (multi_modal_lookups ?m1)"
    have "mm_find ?ls2 (rest ! i) =
        map_option (consumed (length (emb 0)) [token]) (mm_find (multi_modal_lookups ?m1) (rest ! i))"
      unfolding f(2) by (rule mm_find_consumed)
    then have "token_row emb (?m1\<lparr>text_embedding_lookup := Some t2, multi_modal_lookups := ?ls2\<rparr>) rest i =
        token_row emb ?m1 ([token] @ rest) (length [token] + i)"
      using that by (rule token_row_rest)
    then show ?thesis unfolding took_def f2 by simp
  qed
  have "enough (tl_floats t2) rest (multi_modal_lookups ?m2)"
    using enough_rest [of ?f "[token]" rest] e1 by (simp add: took_def f2)
  moreover have "manager_ok emb t2 ?m2" by (rule manager_ok_consumed [OF ok1 t2(1)])
  ultimately show ?thesis
    using t1 t2 last row1 row2 same_text_trans [OF t1(1) t2(1)]
    by (intro exI [of _ t2] exI [of _ ?m1] exI [of _ T'] exI [of _ ?m2]) simp
qed

theorem prefill_in_pieces_keeps_rows_witness:
  "\<exists>t' m1 T' m2.
     Manager_LookupPrefill [5] 0 (example_manager, Some example_tensor) = Some (Ok, (m1, Some T')) \<and>
     Manager_LookupPrefillToken (-1) (m1, [9]) = Some (Ok, (m2, [10, 11])) \<and>
     same_text example_text t' \<and> manager_ok example_emb t' m2 \<and>
     enough (tl_floats t') [3, -1] (multi_modal_lookups m2) \<and>
     (\<forall>i < Suc (Suc 0). token_row example_emb m2 [3, -1] i =
               token_row example_emb example_manager [5, -1, 3, -1] (2 + i))"
proof -
  have "enough (tl_floats example_text) ([5] @ -1 # [3, -1]) (multi_modal_lookups example_manager)"
    by (simp add: enough_def example_text_def example_manager_def)
  moreover have "answered example_manager (-1)"
    by (simp add: answered_def example_manager_def mm_find_def)
  moreover have "0 + length [5 :: int] \<le> ft_dims example_tensor ! 1"
    by (simp add: example_tensor_def)
  moreover have "token_row example_emb example_manager ([5] @ -1 # [3, -1]) (length [5 :: int]) = [10, 11]"
    by (simp add: token_row_def example_manager_def example_emb_def mm_find_def end_find_def)
  ultimately show ?thesis
    using prefill_in_pieces_keeps_rows [OF example_ok example_fits, of 0 "[5]" "-1" "[3, -1]" "[9]"]
    by simp
qed

section \<open>Updating, and tokens that no lookup answers\<close>

text \<open>After the embeddings of an input came in, its vision token reads them from the first row on.\<close>

lemma update_vision:
  assumes "manager_ok emb t m" "multi_modal_lookups m = []" "fully_supports_multi_modal m"
    and "GetVisionEmbeddingsPtr inputs = Inr T" "GetAudioEmbeddingsPtr inputs = Inl err"
    and "ft_host T" "ft_type T = ElFloat32"
  shows "\<exists>m'. UpdateMultiModalEmbeddings inputs m = (Ok, m') \<and> manager_ok emb t m' \<and>
           mm_find (multi_modal_lookups m') kVisionSpecialToken =
             Some \<lparr>mm_special = kVisionSpecialToken, mm_embedding = ft_floats T\<rparr>"
  using assms
  by (simp add: UpdateMultiModalEmbeddings_def assign_or_return_def add_multi_modal_def
      MultiModal_Create_def ReferTensorBufferAsSpan_def manager_ok_def mm_find_def kVisionSpecialToken_def)

lemma update_needs_support:
  assumes "\<not> fully_supports_multi_modal m" "GetVisionEmbeddingsPtr inputs = Inr T"
  shows "UpdateMultiModalEmbeddings inputs m = (Inl InvalidArgument, m)"
  using assms by (simp add: UpdateMultiModalEmbeddings_def assign_or_return_def add_multi_modal_def)

text \<open>
  Although the header promises that old data is overwritten, a special token that no lookup waits for
  leaves the vector as it was.
\<close>

lemma unanswered_token_keeps_vector:
  assumes "manager_ok emb t m" "fully_supports_multi_modal m" "\<not> answered m token"
    and "length v = tl_floats t"
  shows "Manager_LookupPrefillToken token (m, v) = Some (Ok, (m, v))"
proof -
  have none: "\<forall>l \<in> set (multi_modal_lookups m). mm_special l \<noteq> token"
    using assms(3) by (auto simp: answered_def mm_find_def find_None_iff)
  then have "enough (tl_floats t) [token] (multi_modal_lookups m)" by (auto simp: enough_def)
  moreover have "token < 0" using assms(3) by (simp add: answered_def)
  moreover have "took token t m = m"
    using consumed_other [OF none] assms(1) by (simp add: took_def manager_ok_def)
  ultimately show ?thesis
    using negative_token_row [OF assms(1) _ _ assms(2)] assms(3,4) by (simp add: resize_def)
qed


end
