(* ===== verification/SessionUtils.thy ===== *)
theory SessionUtils
  imports IoTypes Tasks EmbeddingLookup
begin

text \<open>
  What a session does to its input before a prefill: \<^verbatim>\<open>runtime/core/session_utils.cc\<close> (prompt
  templates and tokenizing), \<^verbatim>\<open>ProcessAndCombineContents\<close> of \<^verbatim>\<open>runtime/core/session_basic.cc\<close> and of
  \<^verbatim>\<open>runtime/framework/resource_management/execution_manager.cc\<close> (token ids and embeddings of a
  mixed input), and \<^verbatim>\<open>runtime/util/executor_data_util.cc\<close> (several images or audios in one tensor).

  The tensor of a preprocessed input holds token ids, of shape [1, n], or an image or audio of an
  arbitrary type \<open>'m\<close>. The vision and the audio executor are arguments (abstract classes; \<open>None\<close> is
  the null pointer): the result of \<^verbatim>\<open>Encode\<close>. The buffers of embeddings hold exactly their packed
  contents. Allocating and locking LiteRT buffers succeeds; duplicating one is the argument \<open>dup\<close>.
\<close>

datatype 'm input_tensor = IdsTensor "int list" | MediaTensor 'm

record session_config =
  GetStartTokenId :: int
  GetApplyPromptTemplateInSession :: bool
  user_prefix :: string
  user_suffix :: string
  model_prefix :: string
  GetNumOutputCandidates :: nat

definition TokenIdsToTensorBuffer :: "int list \<Rightarrow> 'm input_tensor status_or" where
  "TokenIdsToTensorBuffer ids = Inr (IdsTensor ids)"

definition ReferIdsAsSpan :: "'m input_tensor \<Rightarrow> int list status_or" where
  "ReferIdsAsSpan T = (case T of IdsTensor ids \<Rightarrow> Inr ids | MediaTensor _ \<Rightarrow> Inl InvalidArgument)"

section \<open>Tokenizing a text\<close>

definition MaybeGetBosString :: "session_config \<Rightarrow> tokenizer \<Rightarrow> string status_or" where
  "MaybeGetBosString cfg tk =
     (if GetStartTokenId cfg \<ge> 0 then TokenIdsToText tk [GetStartTokenId cfg] else Inr '''')"

definition StringToProcessedInputText ::
  "session_config \<Rightarrow> tokenizer \<Rightarrow> benchmark_info option \<Rightarrow> string \<Rightarrow> 'm input_tensor input_data status_or"
where
  "StringToProcessedInputText cfg tk bench txt_in =
     try_or_return
       (if GetStartTokenId cfg \<ge> 0 then TokenIdsToText tk [GetStartTokenId cfg] else Inr '''')
       (\<lambda>bos.
          let found = bos \<noteq> '''' \<and> starts_with txt_in bos;
              count = (case bench of None \<Rightarrow> 0 | Some b \<Rightarrow> num_prefill_tokens b)
          in try_or_return (TextToTokenIds tk (if found then drop (length bos) txt_in else txt_in))
               (\<lambda>ids. try_or_return
                  (TokenIdsToTensorBuffer
                     (if count > 0 then resize (nat count) ids
                      else if found then GetStartTokenId cfg # ids else ids))
                  (\<lambda>T. Inr (InputText (Tensor T)))))"

section \<open>Prompt templates\<close>

definition raw_text :: "'tb input_data \<Rightarrow> string" where
  "raw_text c = (case c of InputText (Raw s) \<Rightarrow> s | _ \<Rightarrow> '''')"

text \<open>The loop over the chunks; the state is \<^verbatim>\<open>is_first_turn\<close>.\<close>

fun template_chunks ::
  "session_config \<Rightarrow> string \<Rightarrow> ('tb \<Rightarrow> 'tb status_or) \<Rightarrow> bool \<Rightarrow> 'tb input_data list \<Rightarrow>
   (bool, 'tb input_data list) op"
where
  "template_chunks cfg bos dup is_first_chunk [] is_first_turn = (Inr [], is_first_turn)"
| "template_chunks cfg bos dup is_first_chunk (content # rest) is_first_turn =
     (let raw = raw_text content; is_last_chunk = (rest = []) in
      if bos \<noteq> '''' \<and> starts_with raw bos then (Inl InvalidArgument, is_first_turn)
      else
        let session_prefix = (if is_first_chunk then if is_first_turn then bos else [CHR 0x0A] else '''');
            is_first_turn = (if is_first_chunk then False else is_first_turn);
            turn_prefix = session_prefix @ user_prefix cfg;
            turn_suffix = user_suffix cfg @ model_prefix cfg
        in assign_or_return
             (\<lambda>b. (if raw = ''''
                    then try_or_return (CreateInputDataCopy dup content) (\<lambda>copy. Inr (
                           (if is_first_chunk \<and> turn_prefix \<noteq> '''' then [InputText (Raw turn_prefix)] else []) @
                           [copy] @
                           (if is_last_chunk \<and> turn_suffix \<noteq> '''' then [InputText (Raw turn_suffix)] else [])))
                    else Inr [InputText (Raw ((if is_first_chunk then turn_prefix @ raw else raw) @
                                              (if is_last_chunk then turn_suffix else '''')))], b))
             (\<lambda>pieces. assign_or_return (template_chunks cfg bos dup False rest)
                          (\<lambda>more b. (Inr (pieces @ more), b)))
             is_first_turn)"

fun copy_all :: "('tb \<Rightarrow> 'tb status_or) \<Rightarrow> 'tb input_data list \<Rightarrow> 'tb input_data list status_or" where
  "copy_all dup [] = Inr []"
| "copy_all dup (content # rest) =
     try_or_return (CreateInputDataCopy dup content)
       (\<lambda>copy. try_or_return (copy_all dup rest) (\<lambda>copies. Inr (copy # copies)))"

definition ApplyPromptTemplates ::
  "session_config \<Rightarrow> tokenizer \<Rightarrow> ('tb \<Rightarrow> 'tb status_or) \<Rightarrow> 'tb input_data list \<Rightarrow>
   (bool, 'tb input_data list) op"
where
  "ApplyPromptTemplates cfg tk dup contents is_first_turn =
     (if contents = [] then (Inr [], is_first_turn)
      else case MaybeGetBosString cfg tk of
             Inl e \<Rightarrow> (Inl e, is_first_turn)
           | Inr bos \<Rightarrow>
               if \<not> GetApplyPromptTemplateInSession cfg
               then (try_or_return (copy_all dup contents) (\<lambda>copies.
                       Inr ((if is_first_turn \<and> bos \<noteq> '''' then [InputText (Raw bos)] else []) @ copies)),
                     False)
               else template_chunks cfg bos dup True contents is_first_turn)"

fun PreprocessContents ::
  "session_config \<Rightarrow> tokenizer \<Rightarrow> ('m input_tensor \<Rightarrow> 'm input_tensor status_or) \<Rightarrow>
   benchmark_info option \<Rightarrow> 'm input_tensor input_data list \<Rightarrow> 'm input_tensor input_data list status_or"
where
  "PreprocessContents cfg tk dup bench [] = Inr []"
| "PreprocessContents cfg tk dup bench (content # rest) =
     try_or_return
       (case content of
          InputText p \<Rightarrow>
            (if IsTensorBuffer p then try_or_return (CreateCopy dup p) (\<lambda>q. Inr (InputText q))
             else try_or_return (GetRawTextString p) (StringToProcessedInputText cfg tk bench))
        | InputImage p \<Rightarrow>
            (if IsTensorBuffer p then try_or_return (CreateImageCopy dup p) (\<lambda>q. Inr (InputImage q))
             else Inl Internal)
        | InputAudio p \<Rightarrow>
            (if IsTensorBuffer p then try_or_return (CreateAudioCopy dup p) (\<lambda>q. Inr (InputAudio q))
             else Inl Internal))
       (\<lambda>c. try_or_return (PreprocessContents cfg tk dup bench rest) (\<lambda>cs. Inr (c # cs)))"

section \<open>The text of a templated prompt\<close>

text \<open>What the model gets to read: the characters of the raw texts, and the other chunks whole.\<close>

definition spell_chunk :: "'tb input_data \<Rightarrow> ('tb input_data + char) list" where
  "spell_chunk c = (case c of InputText (Raw s) \<Rightarrow> map Inr s | _ \<Rightarrow> [Inl c])"

definition spell :: "'tb input_data list \<Rightarrow> ('tb input_data + char) list" where
  "spell cs = concat (map spell_chunk cs)"

lemma spell_simps [simp]:
  "spell [] = []" "spell (c # cs) = spell_chunk c @ spell cs" "spell (cs @ ds) = spell cs @ spell ds"
  "spell_chunk (InputText (Raw s)) = map Inr s"
  by (simp_all add: spell_def spell_chunk_def)

lemma spell_raw: "raw_text c \<noteq> '''' \<Longrightarrow> spell_chunk c = map Inr (raw_text c)"
  by (auto simp: spell_chunk_def raw_text_def split: input_data.splits payload.splits)

lemma copy_is_same [simp]: "CreateInputDataCopy Inr c = Inr c"
proof -
  have "CreateCopy Inr p = Inr p" "CreateImageCopy Inr p = Inr p" "CreateAudioCopy Inr p = Inr p"
    for p :: "'a payload"
    by (cases p; simp add: CreateImageCopy_def CreateAudioCopy_def)+
  then show ?thesis by (cases c) simp_all
qed

lemma copy_all_same [simp]: "copy_all Inr cs = Inr cs"
  by (induction cs) simp_all

definition no_bos :: "string \<Rightarrow> 'tb input_data list \<Rightarrow> bool" where
  "no_bos bos cs \<longleftrightarrow> (\<forall>c \<in> set cs. bos = '''' \<or> \<not> starts_with (raw_text c) bos)"

lemma no_bos_Cons [simp]:
  "no_bos bos (c # cs) \<longleftrightarrow> (bos = '''' \<or> \<not> starts_with (raw_text c) bos) \<and> no_bos bos cs"
  by (auto simp: no_bos_def)

lemma later_chunks_text:
  assumes "no_bos bos cs"
  shows "\<exists>out. template_chunks cfg bos Inr False cs b = (Inr out, b) \<and>
           spell out = spell cs @ (if cs = [] then [] else map Inr (user_suffix cfg @ model_prefix cfg))"
  using assms
proof (induction cs)
  case (Cons c cs)
  then obtain out where out: "template_chunks cfg bos Inr False cs b = (Inr out, b)"
    "spell out = spell cs @ (if cs = [] then [] else map Inr (user_suffix cfg @ model_prefix cfg))"
    by auto
  then show ?case
    using Cons.prems spell_raw [of c]
    by (cases "raw_text c = ''''") (auto simp: assign_or_return_def)
qed simp

lemma template_chunks_text:
  assumes "no_bos bos cs" "cs \<noteq> []"
  shows "\<exists>out. template_chunks cfg bos Inr True cs b = (Inr out, False) \<and>
           spell out = map Inr ((if b then bos else [CHR 0x0A]) @ user_prefix cfg) @ spell cs @
                       map Inr (user_suffix cfg @ model_prefix cfg)"
proof -
  obtain c rest where cs: "cs = c # rest" using assms(2) by (cases cs) auto
  obtain out where "template_chunks cfg bos Inr False rest False = (Inr out, False)"
    "spell out = spell rest @ (if rest = [] then [] else map Inr (user_suffix cfg @ model_prefix cfg))"
    using later_chunks_text [of bos rest] assms(1) cs by auto
  then show ?thesis
    using assms(1) spell_raw [of c] cs
    by (cases "raw_text c = ''''") (auto simp: assign_or_return_def)
qed

text \<open>C34. A prompt that contains no BOS text is framed by the session's templates: the model reads the
  BOS text (a line break on later turns) and the user prefix, then the chunks in their order, then the
  user suffix and the model prefix; the first turn is then over.\<close>
theorem templated_prompt_text:
  fixes contents :: "'tb input_data list"
  assumes "contents \<noteq> []" "MaybeGetBosString cfg tk = Inr bos" "no_bos bos contents"
    and "GetApplyPromptTemplateInSession cfg"
  shows "\<exists>out. ApplyPromptTemplates cfg tk Inr contents is_first_turn = (Inr out, False) \<and>
           spell out =
             map Inr ((if is_first_turn then bos else [CHR 0x0A]) @ user_prefix cfg) @ spell contents @
             map Inr (user_suffix cfg @ model_prefix cfg)"
  using template_chunks_text [OF assms(3,1)] assms by (simp add: ApplyPromptTemplates_def)

definition example_config :: session_config where
  "example_config =
     \<lparr>GetStartTokenId = 2, GetApplyPromptTemplateInSession = True, user_prefix = ''U:'',
      user_suffix = ''.'', model_prefix = ''M:'', GetNumOutputCandidates = 1\<rparr>"

definition example_tokenizer :: tokenizer where
  "example_tokenizer =
     \<lparr>TokenIdsToText = (\<lambda>ids. Inr (if ids = [2] then ''<s>'' else ''?'')),
      TextToTokenIds = (\<lambda>s. Inr (map of_char s))\<rparr>"

theorem templated_prompt_text_witness:
  "\<exists>out. ApplyPromptTemplates example_config example_tokenizer Inr
       [InputText (Raw ''hi''), InputImage (Tensor (7 :: nat))] True = (Inr out, False) \<and>
     spell out = map Inr ''<s>U:hi'' @ [Inl (InputImage (Tensor 7))] @ map Inr ''.M:''"
proof -
  have "MaybeGetBosString example_config example_tokenizer = Inr ''<s>''"
    by (simp add: MaybeGetBosString_def example_config_def example_tokenizer_def)
  moreover have "no_bos ''<s>'' [InputText (Raw ''hi''), InputImage (Tensor (7 :: nat))]"
    by (simp add: no_bos_def raw_text_def starts_with_def)
  moreover have "GetApplyPromptTemplateInSession example_config" by (simp add: example_config_def)
  ultimately show ?thesis
    using templated_prompt_text [of "[InputText (Raw ''hi''), InputImage (Tensor (7 :: nat))]"
        example_config example_tokenizer "''<s>''" True]
    by (simp add: example_config_def spell_chunk_def)
qed

text \<open>Without templates in the session only the BOS text of the first turn is added.\<close>

lemma untemplated_prompt_text:
  assumes "contents \<noteq> []" "MaybeGetBosString cfg tk = Inr bos" "\<not> GetApplyPromptTemplateInSession cfg"
  shows "\<exists>out. ApplyPromptTemplates cfg tk Inr contents is_first_turn = (Inr out, False) \<and>
           spell out = map Inr (if is_first_turn then bos else '''') @ spell contents"
  using assms by (auto simp: ApplyPromptTemplates_def)

section \<open>A rejected prompt\<close>

lemma later_bos_rejected:
  "\<not> no_bos bos cs \<Longrightarrow> fst (template_chunks cfg bos Inr False cs b) = Inl InvalidArgument \<and>
   snd (template_chunks cfg bos Inr False cs b) = b"
proof (induction cs)
  case (Cons c cs)
  show ?case
  proof (cases "bos \<noteq> '''' \<and> starts_with (raw_text c) bos")
    case False
    then have "\<not> no_bos bos cs" using Cons.prems by auto
    then obtain "template_chunks cfg bos Inr False cs b = (Inl InvalidArgument, b)"
      using Cons.IH by (metis prod.collapse)
    then show ?thesis using False by (cases "raw_text c = ''''") (auto simp: assign_or_return_def)
  qed (simp add: Let_def)
qed (simp add: no_bos_def)

text \<open>A prompt whose first chunk is fine but that has the BOS text in a later chunk is rejected,
  and yet ends the first turn: the next prompt begins with a line break, and the model never reads the
  BOS text.\<close>
theorem rejected_prompt_ends_first_turn:
  fixes contents next_contents :: "'tb input_data list"
  assumes "contents = c # rest" "MaybeGetBosString cfg tk = Inr bos" "\<not> no_bos bos rest"
    and "\<not> starts_with (raw_text c) bos" "GetApplyPromptTemplateInSession cfg"
    and "next_contents \<noteq> []" "no_bos bos next_contents"
  shows "ApplyPromptTemplates cfg tk Inr contents is_first_turn = (Inl InvalidArgument, False) \<and>
         (\<exists>out. ApplyPromptTemplates cfg tk Inr next_contents
                  (snd (ApplyPromptTemplates cfg tk Inr contents is_first_turn)) = (Inr out, False) \<and>
            spell out = map Inr ([CHR 0x0A] @ user_prefix cfg) @ spell next_contents @
                        map Inr (user_suffix cfg @ model_prefix cfg))"
proof -
  have "template_chunks cfg bos Inr False rest False = (Inl InvalidArgument, False)"
    using later_bos_rejected [OF assms(3)] by (metis prod.collapse)
  then have "ApplyPromptTemplates cfg tk Inr contents is_first_turn = (Inl InvalidArgument, False)"
    using assms(1,2,4,5)
    by (cases "raw_text c = ''''") (simp_all add: ApplyPromptTemplates_def assign_or_return_def Let_def)
  then show ?thesis
    using template_chunks_text [OF assms(7,6), of cfg False] assms(2,5,6)
    by (simp add: ApplyPromptTemplates_def)
qed

theorem rejected_prompt_ends_first_turn_witness:
  "ApplyPromptTemplates example_config example_tokenizer Inr
     [InputText (Raw ''hi''), InputText (Raw ''<s>'') :: nat input_data] True = (Inl InvalidArgument, False) \<and>
   (\<exists>out. ApplyPromptTemplates example_config example_tokenizer Inr [InputText (Raw ''hi'') :: nat input_data]
            False = (Inr out, False) \<and> spell out = map Inr ([CHR 0x0A] @ ''U:hi.M:''))"
proof -
  have "MaybeGetBosString example_config example_tokenizer = Inr ''<s>''"
    by (simp add: MaybeGetBosString_def example_config_def example_tokenizer_def)
  moreover have "\<not> no_bos ''<s>'' [InputText (Raw ''<s>'') :: nat input_data]"
    "no_bos ''<s>'' [InputText (Raw ''hi'') :: nat input_data]"
    "\<not> starts_with (raw_text (InputText (Raw ''hi'') :: nat input_data)) ''<s>''"
    by (simp_all add: no_bos_def raw_text_def starts_with_def)
  moreover have cfg: "GetApplyPromptTemplateInSession example_config" "user_prefix example_config = ''U:''"
    "user_suffix example_config = ''.''" "model_prefix example_config = ''M:''"
    by (simp_all add: example_config_def)
  ultimately show ?thesis
    using rejected_prompt_ends_first_turn [where contents = "[InputText (Raw ''hi''), InputText (Raw ''<s>'') :: nat input_data]"
        and c = "InputText (Raw ''hi'')" and rest = "[InputText (Raw ''<s>'')]" and cfg = example_config
        and tk = example_tokenizer and bos = "''<s>''" and is_first_turn = True
        and next_contents = "[InputText (Raw ''hi'')]"]
    by auto
qed


section \<open>One tensor for several images or audios\<close>

text \<open>The numbers of tokens of the parts, in the loop that checks their shapes.\<close>

fun part_tokens :: "'v float_tensor option list \<Rightarrow> nat list status_or" where
  "part_tokens [] = Inr []"
| "part_tokens (None # ts) = Inl NotFound"
| "part_tokens (Some T # ts) =
     (if length (ft_dims T) \<noteq> 3 \<and> length (ft_dims T) \<noteq> 4 then Inl InvalidArgument
      else try_or_return (part_tokens ts)
             (\<lambda>ns. Inr (ft_dims T ! (length (ft_dims T) - 2) # ns)))"

definition combined_layout :: "bool \<Rightarrow> nat list \<Rightarrow> nat \<Rightarrow> nat list" where
  "combined_layout audio ds n =
     (if audio then [ds ! 0, n, ds ! 2]
      else if length ds = 3 then [ds ! 0, 1, n, ds ! 2]
      else [ds ! 0, ds ! 1, n, ds ! 3])"

definition combine_embeddings :: "bool \<Rightarrow> 'v float_tensor option list \<Rightarrow> 'v float_tensor status_or" where
  "combine_embeddings audio ts =
     (case ts of
        Some F # _ \<Rightarrow>
          try_or_return (part_tokens ts) (\<lambda>ns. Inr
            \<lparr>ft_type = ft_type F, ft_dims = combined_layout audio (ft_dims F) (sum_list ns),
             ft_host = True, ft_floats = concat (map (\<lambda>t. ft_floats (the t)) ts)\<rparr>)
      | _ \<Rightarrow> Inl NotFound)"

definition CombineExecutorVisionData ::
  "'v float_tensor vision_data list \<Rightarrow> 'v float_tensor vision_data status_or" where
  "CombineExecutorVisionData ds =
     (case ds of
        [] \<Rightarrow> Inl InvalidArgument
      | [d] \<Rightarrow> Inr d
      | _ \<Rightarrow> try_or_return (combine_embeddings False (map vision_embeddings ds))
               (\<lambda>T. Inr (ExecutorVisionData (Some T) None)))"

definition CombineExecutorAudioData ::
  "'v float_tensor audio_data list \<Rightarrow> 'v float_tensor audio_data status_or" where
  "CombineExecutorAudioData ds =
     (case ds of
        [] \<Rightarrow> Inl InvalidArgument
      | [d] \<Rightarrow> Inr d
      | _ \<Rightarrow> try_or_return (combine_embeddings True (map audio_embeddings ds))
               (\<lambda>T. Inr (ExecutorAudioData (Some T) None (sum_list (map valid_tokens ds)))))"

section \<open>Token ids and embeddings of a mixed input\<close>

type_synonym ('m, 'd) encoder = "'m input_tensor \<Rightarrow> 'd status_or"

text \<open>A mark of the benchmark; \<open>clk\<close> is the clock, the number counts its readings.\<close>

definition mark_delta :: "(nat \<Rightarrow> int) \<Rightarrow> string \<Rightarrow> (benchmark_info option \<times> nat, unit) op" where
  "mark_delta clk name s =
     (case s of
        (None, now) \<Rightarrow> (Ok, s)
      | (Some b, now) \<Rightarrow> (case TimeMarkDelta name (clk now) b of (r, b') \<Rightarrow> (r, (Some b', now + 1))))"

definition marked_encode ::
  "('m, 'd) encoder option \<Rightarrow> (nat \<Rightarrow> int) \<Rightarrow> string \<Rightarrow> 'm input_tensor \<Rightarrow>
   (benchmark_info option \<times> nat, 'd) uop"
where
  "marked_encode enc clk name T =
     (case enc of
        None \<Rightarrow> (\<lambda>_. None)
      | Some f \<Rightarrow>
          bind_op (defined (mark_delta clk name)) (\<lambda>_.
          bind_op (\<lambda>s. Some (f T, s)) (\<lambda>d.
          bind_op (defined (mark_delta clk name)) (\<lambda>_ s. Some (Inr d, s)))))"

text \<open>
  The ids and the encoded data of one input. The index of the token dimension is checked by
  \<^verbatim>\<open>at\<close>, and a negative count is no length of an insertion: both throw.
\<close>

definition image_ids :: "'v float_tensor vision_data \<Rightarrow> int list status_or option" where
  "image_ids d =
     (case VisionGetEmbeddingsPtr d of
        Inl e \<Rightarrow> Some (Inl e)
      | Inr T \<Rightarrow>
          if length (ft_dims T) < 2 then None
          else Some (Inr (replicate (ft_dims T ! (length (ft_dims T) - 2)) kVisionSpecialToken)))"

definition audio_ids :: "'v float_tensor audio_data \<Rightarrow> int list option" where
  "audio_ids d =
     (if valid_tokens d < 0 then None
      else Some (replicate (nat (valid_tokens d)) kAudioSpecialToken @ [kAudioEndToken]))"

type_synonym 'v parts =
  "int list \<times> 'v float_tensor vision_data list \<times> 'v float_tensor audio_data list"

definition process_content ::
  "('m, 'v float_tensor vision_data) encoder option \<Rightarrow> ('m, 'v float_tensor audio_data) encoder option \<Rightarrow>
   (nat \<Rightarrow> int) \<Rightarrow> 'm input_tensor input_data \<Rightarrow> (benchmark_info option \<times> nat, 'v parts) uop"
where
  "process_content vis aud clk c =
     (case c of
        InputText p \<Rightarrow>
          (\<lambda>s. Some (try_or_return (GetPreprocessedTextTensor p)
                       (\<lambda>T. try_or_return (ReferIdsAsSpan T) (\<lambda>ids. Inr (ids, [], []))), s))
      | InputImage p \<Rightarrow>
          bind_op (\<lambda>s. Some (GetPreprocessedImageTensor p, s)) (\<lambda>T.
          bind_op (marked_encode vis clk ''vision_executor'' T) (\<lambda>d s.
            map_option (\<lambda>r. (try_or_return r (\<lambda>ids. Inr (ids, [d], [])), s)) (image_ids d)))
      | InputAudio p \<Rightarrow>
          bind_op (\<lambda>s. Some (GetPreprocessedAudioTensor p, s)) (\<lambda>T.
          bind_op (marked_encode aud clk ''audio_executor'' T) (\<lambda>d s.
            map_option (\<lambda>ids. (Inr (ids, [], [d]), s)) (audio_ids d))))"

fun process_contents ::
  "('m, 'v float_tensor vision_data) encoder option \<Rightarrow> ('m, 'v float_tensor audio_data) encoder option \<Rightarrow>
   (nat \<Rightarrow> int) \<Rightarrow> 'm input_tensor input_data list \<Rightarrow> (benchmark_info option \<times> nat, 'v parts) uop"
where
  "process_contents vis aud clk [] s = Some (Inr ([], [], []), s)"
| "process_contents vis aud clk (c # cs) s =
     bind_op (process_content vis aud clk c) (\<lambda>(ids, vs, as).
     bind_op (process_contents vis aud clk cs) (\<lambda>(ids', vs', as') s.
       Some (Inr (ids @ ids', vs @ vs', as @ as'), s))) s"

definition combine_parts ::
  "'v parts \<Rightarrow> (int list \<times> 'v float_tensor vision_data option \<times> 'v float_tensor audio_data option) status_or"
where
  "combine_parts p =
     (case p of (ids, vs, as) \<Rightarrow>
        if ids = [] then Inl InvalidArgument
        else try_or_return
               (if vs = [] then Inr None
                else try_or_return (CombineExecutorVisionData vs) (\<lambda>v. Inr (Some v)))
               (\<lambda>v. try_or_return
                  (if as = [] then Inr None
                   else try_or_return (CombineExecutorAudioData as) (\<lambda>a. Inr (Some a)))
                  (\<lambda>a. Inr (ids, v, a))))"

definition make_inputs ::
  "int list \<times> 'v float_tensor vision_data option \<times> 'v float_tensor audio_data option \<Rightarrow>
   ('m input_tensor, 'v float_tensor) executor_inputs status_or"
where
  "make_inputs p =
     (case p of (ids, v, a) \<Rightarrow>
        try_or_return (TokenIdsToTensorBuffer ids)
          (\<lambda>T. Inr (ExecutorInputs (Some (ExecutorTextData T)) v a)))"

definition ProcessAndCombineContents ::
  "('m, 'v float_tensor vision_data) encoder option \<Rightarrow> ('m, 'v float_tensor audio_data) encoder option \<Rightarrow>
   (nat \<Rightarrow> int) \<Rightarrow> 'm input_tensor input_data list \<Rightarrow>
   (benchmark_info option \<times> nat, ('m input_tensor, 'v float_tensor) executor_inputs) uop"
where
  "ProcessAndCombineContents vis aud clk cs =
     bind_op (process_contents vis aud clk cs)
       (\<lambda>p s. Some (try_or_return (combine_parts p) make_inputs, s))"

text \<open>The method of the execution manager also keeps the last token id, before it makes the tensor.\<close>

definition ManagerProcessAndCombineContents ::
  "('m, 'v float_tensor vision_data) encoder option \<Rightarrow> ('m, 'v float_tensor audio_data) encoder option \<Rightarrow>
   (nat \<Rightarrow> int) \<Rightarrow> 'm input_tensor input_data list \<Rightarrow>
   ((benchmark_info option \<times> nat) \<times> int, ('m input_tensor, 'v float_tensor) executor_inputs) uop"
where
  "ManagerProcessAndCombineContents vis aud clk cs st =
     (case st of (s, last_prefill_token_id) \<Rightarrow>
        map_option
          (\<lambda>(r, s'). case try_or_return r combine_parts of
                       Inl e \<Rightarrow> (Inl e, (s', last_prefill_token_id))
                     | Inr p \<Rightarrow> (make_inputs p, (s', last (fst p))))
          (process_contents vis aud clk cs s))"


section \<open>Special tokens and embedding rows\<close>

text \<open>
  Data as the executors of the repository return it: one row of \<open>f\<close> floats for each token, of shape
  [1, n, f] (or [1, 1, n, f] for an image), in a host buffer of floats.
\<close>

definition rows_ok :: "nat \<Rightarrow> nat \<Rightarrow> 'v float_tensor \<Rightarrow> bool" where
  "rows_ok f n T \<longleftrightarrow>
     (ft_dims T = [1, n, f] \<or> ft_dims T = [1, 1, n, f]) \<and> length (ft_floats T) = f * n \<and>
     ft_host T \<and> ft_type T = ElFloat32"

definition vision_ok :: "nat \<Rightarrow> 'v float_tensor vision_data \<Rightarrow> bool" where
  "vision_ok f d \<longleftrightarrow> (\<exists>T n. vision_embeddings d = Some T \<and> rows_ok f n T)"

definition audio_ok :: "nat \<Rightarrow> 'v float_tensor audio_data \<Rightarrow> bool" where
  "audio_ok f d \<longleftrightarrow>
     (\<exists>T. audio_embeddings d = Some T \<and> valid_tokens d \<ge> 0 \<and> rows_ok f (nat (valid_tokens d)) T)"

definition encoder_ok :: "('d \<Rightarrow> bool) \<Rightarrow> ('m, 'd) encoder option \<Rightarrow> bool" where
  "encoder_ok P enc \<longleftrightarrow> (\<forall>g T d. enc = Some g \<longrightarrow> g T = Inr d \<longrightarrow> P d)"

definition vision_floats :: "'v float_tensor vision_data list \<Rightarrow> 'v list" where
  "vision_floats ds = concat (map (\<lambda>d. ft_floats (the (vision_embeddings d))) ds)"

definition audio_floats :: "'v float_tensor audio_data list \<Rightarrow> 'v list" where
  "audio_floats ds = concat (map (\<lambda>d. ft_floats (the (audio_embeddings d))) ds)"

lemma floats_append [simp]:
  "vision_floats (vs @ vs') = vision_floats vs @ vision_floats vs'"
  "audio_floats (as @ as') = audio_floats as @ audio_floats as'"
  "vision_floats [] = []" "audio_floats [] = []"
  by (simp_all add: vision_floats_def audio_floats_def)

text \<open>The results of encoding the images, and the audios, of an input, in their order.\<close>

definition encoded_images ::
  "('m, 'd) encoder option \<Rightarrow> 'm input_tensor input_data list \<Rightarrow> 'd list" where
  "encoded_images vis cs =
     concat (map (\<lambda>c. case c of InputImage (Tensor T) \<Rightarrow>
       (case the vis T of Inr d \<Rightarrow> [d] | Inl _ \<Rightarrow> []) | _ \<Rightarrow> []) cs)"

definition encoded_audios ::
  "('m, 'd) encoder option \<Rightarrow> 'm input_tensor input_data list \<Rightarrow> 'd list" where
  "encoded_audios aud cs =
     concat (map (\<lambda>c. case c of InputAudio (Tensor T) \<Rightarrow>
       (case the aud T of Inr d \<Rightarrow> [d] | Inl _ \<Rightarrow> []) | _ \<Rightarrow> []) cs)"

definition text_ids_ok :: "'m input_tensor input_data list \<Rightarrow> bool" where
  "text_ids_ok cs \<longleftrightarrow> (\<forall>ids. InputText (Tensor (IdsTensor ids)) \<in> set cs \<longrightarrow> (\<forall>i \<in> set ids. i \<ge> 0))"

definition parts_ok :: "nat \<Rightarrow> 'v parts \<Rightarrow> bool" where
  "parts_ok f p \<longleftrightarrow>
     (case p of (ids, vs, as) \<Rightarrow>
        (\<forall>d \<in> set vs. vision_ok f d) \<and> (\<forall>d \<in> set as. audio_ok f d) \<and>
        length (vision_floats vs) = f * count_list ids kVisionSpecialToken \<and>
        length (audio_floats as) = f * count_list ids kAudioSpecialToken)"

lemma specials [simp]:
  "kVisionSpecialToken \<noteq> kAudioSpecialToken" "kVisionSpecialToken \<noteq> kAudioEndToken"
  "kAudioSpecialToken \<noteq> kAudioEndToken" "kAudioSpecialToken \<noteq> kVisionSpecialToken"
  "kAudioEndToken \<noteq> kVisionSpecialToken" "kAudioEndToken \<noteq> kAudioSpecialToken"
  "kVisionSpecialToken < 0" "kAudioSpecialToken < 0"
  by (simp_all add: kVisionSpecialToken_def kAudioSpecialToken_def kAudioEndToken_def)

lemma count_replicate: "count_list (replicate n x) y = (if x = y then n else 0)"
  by (induction n) (auto split: if_splits)

lemma count_no_special: "\<forall>i \<in> set ids. i \<ge> 0 \<Longrightarrow> s < 0 \<Longrightarrow> count_list ids s = (0 :: nat)" for s :: int
  by (induction ids) auto

lemma marked_encode_Inr:
  "marked_encode enc clk name T s = Some (Inr d, s') \<Longrightarrow> \<exists>g. enc = Some g \<and> g T = Inr d"
  by (auto simp: marked_encode_def bind_op_def split: option.splits sum.splits prod.splits)

lemma image_content_ok:
  assumes "encoder_ok (vision_ok f) vis" "process_content vis aud clk (InputImage p) s = Some (Inr q, s')"
  shows "\<exists>T g d. p = Tensor T \<and> vis = Some g \<and> g T = Inr d \<and> vision_ok f d \<and>
           q = (replicate (length (vision_floats [d]) div f) kVisionSpecialToken, [d], []) \<or> f = 0"
proof -
  obtain T d s1 where p: "p = Tensor T" and e: "marked_encode vis clk ''vision_executor'' T s = Some (Inr d, s1)"
    and q: "image_ids d = Some (Inr (fst q))" "snd q = ([d], [])"
    using assms(2)
    by (cases p) (auto simp: process_content_def bind_op_Inr_iff GetPreprocessedImageTensor_def
        try_or_return_Inr_iff)
  obtain g where g: "vis = Some g" "g T = Inr d" using marked_encode_Inr [OF e] by blast
  then have ok: "vision_ok f d" using assms(1) by (simp add: encoder_ok_def)
  then obtain E n where E: "vision_embeddings d = Some E" "rows_ok f n E" by (auto simp: vision_ok_def)
  then have "fst q = replicate n kVisionSpecialToken" "length (vision_floats [d]) = f * n"
    using q(1) by (auto simp: image_ids_def VisionGetEmbeddingsPtr_def optional_ptr_def rows_ok_def
        vision_floats_def)
  then show ?thesis using p g ok q(2) by (cases q) auto
qed

lemma audio_content_ok:
  assumes "encoder_ok (audio_ok f) aud" "process_content vis aud clk (InputAudio p) s = Some (Inr q, s')"
  shows "\<exists>T g d. p = Tensor T \<and> aud = Some g \<and> g T = Inr d \<and> audio_ok f d \<and>
           q = (replicate (nat (valid_tokens d)) kAudioSpecialToken @ [kAudioEndToken], [], [d])"
proof -
  obtain T d s1 where p: "p = Tensor T" and e: "marked_encode aud clk ''audio_executor'' T s = Some (Inr d, s1)"
    and q: "audio_ids d = Some (fst q)" "snd q = ([], [d])"
    using assms(2)
    by (cases p) (auto simp: process_content_def bind_op_Inr_iff GetPreprocessedAudioTensor_def)
  obtain g where g: "aud = Some g" "g T = Inr d" using marked_encode_Inr [OF e] by blast
  then have ok: "audio_ok f d" using assms(1) by (simp add: encoder_ok_def)
  then have "fst q = replicate (nat (valid_tokens d)) kAudioSpecialToken @ [kAudioEndToken]"
    using q(1) by (auto simp: audio_ids_def audio_ok_def)
  then show ?thesis using p g ok q(2) by (cases q) auto
qed

lemma text_content:
  "process_content vis aud clk (InputText p) s = Some (Inr q, s') \<Longrightarrow>
   \<exists>ids. p = Tensor (IdsTensor ids) \<and> q = (ids, [], [])"
  by (cases p) (auto simp: process_content_def try_or_return_Inr_iff ReferIdsAsSpan_def
      split: input_tensor.splits)

lemma vision_rows: "vision_ok f d \<Longrightarrow> f dvd length (vision_floats [d])"
  by (auto simp: vision_ok_def rows_ok_def vision_floats_def)

lemma process_content_ok:
  assumes "f > 0" "encoder_ok (vision_ok f) vis" "encoder_ok (audio_ok f) aud" "text_ids_ok [c]"
    and "process_content vis aud clk c s = Some (Inr q, s')"
  shows "parts_ok f q \<and> fst (snd q) = encoded_images vis [c] \<and> snd (snd q) = encoded_audios aud [c]"
proof (cases c)
  case (InputText p)
  then obtain ids where ids: "p = Tensor (IdsTensor ids)" "q = (ids, [], [])"
    using text_content assms(5) by blast
  then have "\<forall>i \<in> set ids. i \<ge> 0" using assms(4) InputText by (simp add: text_ids_ok_def)
  then show ?thesis
    using ids InputText
    by (simp add: parts_ok_def encoded_images_def encoded_audios_def count_no_special)
next
  case (InputImage p)
  then obtain T g d where "p = Tensor T" "vis = Some g" "g T = Inr d" "vision_ok f d"
    "q = (replicate (length (vision_floats [d]) div f) kVisionSpecialToken, [d], [])"
    using image_content_ok [OF assms(2)] assms(1,5) by blast
  then show ?thesis
    using InputImage vision_rows [of f d]
    by (simp add: parts_ok_def encoded_images_def encoded_audios_def count_replicate)
next
  case (InputAudio p)
  then obtain T g d where "p = Tensor T" "aud = Some g" "g T = Inr d" "audio_ok f d"
    "q = (replicate (nat (valid_tokens d)) kAudioSpecialToken @ [kAudioEndToken], [], [d])"
    using audio_content_ok [OF assms(3)] assms(5) by blast
  moreover from this have "length (audio_floats [d]) = f * nat (valid_tokens d)"
    by (auto simp: audio_ok_def rows_ok_def audio_floats_def)
  ultimately show ?thesis
    using InputAudio
    by (simp add: parts_ok_def encoded_images_def encoded_audios_def count_replicate)
qed

lemma process_contents_ok:
  assumes "f > 0" "encoder_ok (vision_ok f) vis" "encoder_ok (audio_ok f) aud" "text_ids_ok cs"
    and "process_contents vis aud clk cs s = Some (Inr q, s')"
  shows "parts_ok f q \<and> fst (snd q) = encoded_images vis cs \<and> snd (snd q) = encoded_audios aud cs"
  using assms(4,5)
proof (induction cs arbitrary: s q)
  case (Cons c cs)
  obtain ids vs as s1 ids' vs' as' where q: "q = (ids @ ids', vs @ vs', as @ as')"
    and c: "process_content vis aud clk c s = Some (Inr (ids, vs, as), s1)"
    and cs: "process_contents vis aud clk cs s1 = Some (Inr (ids', vs', as'), s')"
    using Cons.prems(2) by (auto simp: bind_op_Inr_iff)
  have texts: "text_ids_ok [c]" "text_ids_ok cs" using Cons.prems(1) by (auto simp: text_ids_ok_def)
  show ?case
    using process_content_ok [OF assms(1-3) texts(1) c] Cons.IH [OF texts(2) cs]
    by (auto simp: q parts_ok_def encoded_images_def encoded_audios_def algebra_simps)
qed (simp add: parts_ok_def encoded_images_def encoded_audios_def)

lemma part_tokens_Inr:
  "part_tokens ts = Inr ns \<Longrightarrow> \<forall>t \<in> set ts. t \<noteq> None"
  by (induction ts arbitrary: ns rule: part_tokens.induct) (auto simp: try_or_return_Inr_iff split: if_splits)

lemma combined_vision:
  assumes "vs \<noteq> []" "\<forall>d \<in> set vs. vision_ok f d"
  shows "\<exists>v T. CombineExecutorVisionData vs = Inr v \<and> vision_embeddings v = Some T \<and>
           ft_floats T = vision_floats vs \<and> ft_host T \<and> ft_type T = ElFloat32"
proof -
  obtain d ds where vs: "vs = d # ds" using assms(1) by (cases vs) auto
  obtain T n where T: "vision_embeddings d = Some T" "rows_ok f n T"
    using assms(2) vs by (auto simp: vision_ok_def)
  have parts: "\<exists>ns. part_tokens (map vision_embeddings us) = Inr ns" if "\<forall>d \<in> set us. vision_ok f d" for us
    using that by (induction us) (fastforce simp: vision_ok_def rows_ok_def)+
  show ?thesis
  proof (cases ds)
    case Nil
    then show ?thesis
      using T vs by (auto simp: CombineExecutorVisionData_def rows_ok_def vision_floats_def)
  next
    case (Cons e es)
    obtain ns where "part_tokens (map vision_embeddings vs) = Inr ns" using parts [OF assms(2)] by blast
    then show ?thesis
      using T Cons unfolding vs
      by (simp add: CombineExecutorVisionData_def combine_embeddings_def ExecutorVisionData_def
          vision_floats_def rows_ok_def comp_def)
  qed
qed

lemma combined_audio:
  assumes "as \<noteq> []" "\<forall>d \<in> set as. audio_ok f d"
  shows "\<exists>a T. CombineExecutorAudioData as = Inr a \<and> audio_embeddings a = Some T \<and>
           ft_floats T = audio_floats as \<and> ft_host T \<and> ft_type T = ElFloat32"
proof -
  obtain d ds where as: "as = d # ds" using assms(1) by (cases as) auto
  obtain T n where T: "audio_embeddings d = Some T" "rows_ok f n T"
    using assms(2) as by (auto simp: audio_ok_def)
  have parts: "\<exists>ns. part_tokens (map audio_embeddings us) = Inr ns" if "\<forall>d \<in> set us. audio_ok f d" for us
    using that by (induction us) (fastforce simp: audio_ok_def rows_ok_def)+
  show ?thesis
  proof (cases ds)
    case Nil
    then show ?thesis
      using T as by (auto simp: CombineExecutorAudioData_def rows_ok_def audio_floats_def)
  next
    case (Cons e es)
    obtain ns where "part_tokens (map audio_embeddings as) = Inr ns" using parts [OF assms(2)] by blast
    then show ?thesis
      using T Cons unfolding as
      by (simp add: CombineExecutorAudioData_def combine_embeddings_def ExecutorAudioData_def
          audio_floats_def rows_ok_def comp_def)
  qed
qed

text \<open>What the inputs of the executor then hold.\<close>

definition media_floats :: "'v float_tensor status_or \<Rightarrow> 'v list \<Rightarrow> bool" where
  "media_floats r xs \<longleftrightarrow>
     (case r of Inl _ \<Rightarrow> xs = [] | Inr T \<Rightarrow> ft_floats T = xs \<and> ft_host T \<and> ft_type T = ElFloat32)"

lemma combined_inputs:
  assumes "parts_ok f (ids, vs, as)" "try_or_return (combine_parts (ids, vs, as)) make_inputs = Inr inputs"
  shows "text_data_of inputs = Some (ExecutorTextData (IdsTensor ids)) \<and>
         media_floats (GetVisionEmbeddingsPtr inputs) (vision_floats vs) \<and>
         media_floats (GetAudioEmbeddingsPtr inputs) (audio_floats as)"
proof -
  obtain v a where c: "combine_parts (ids, vs, as) = Inr (ids, v, a)"
    and i: "inputs = ExecutorInputs (Some (ExecutorTextData (IdsTensor ids))) v a"
    using assms(2)
    by (auto simp: try_or_return_Inr_iff combine_parts_def make_inputs_def TokenIdsToTensorBuffer_def
        split: if_splits)
  have "media_floats (GetVisionEmbeddingsPtr inputs) (vision_floats vs)"
  proof (cases "vs = []")
    case True
    then show ?thesis
      using c i by (auto simp: combine_parts_def try_or_return_Inr_iff ExecutorInputs_def
          GetVisionEmbeddingsPtr_def media_floats_def split: if_splits)
  next
    case False
    then show ?thesis
      using combined_vision [OF False, of f] assms(1) c i
      by (auto simp: combine_parts_def try_or_return_Inr_iff ExecutorInputs_def parts_ok_def
          GetVisionEmbeddingsPtr_def VisionGetEmbeddingsPtr_def optional_ptr_def media_floats_def
          split: if_splits)
  qed
  moreover have "media_floats (GetAudioEmbeddingsPtr inputs) (audio_floats as)"
  proof (cases "as = []")
    case True
    then show ?thesis
      using c i by (auto simp: combine_parts_def try_or_return_Inr_iff ExecutorInputs_def
          GetAudioEmbeddingsPtr_def media_floats_def split: if_splits)
  next
    case False
    then show ?thesis
      using combined_audio [OF False, of f] assms(1) c i
      by (auto simp: combine_parts_def try_or_return_Inr_iff ExecutorInputs_def parts_ok_def
          GetAudioEmbeddingsPtr_def AudioGetEmbeddingsPtr_def optional_ptr_def media_floats_def
          split: if_splits)
  qed
  ultimately show ?thesis by (simp add: i ExecutorInputs_def)
qed

text \<open>The lookups that a manager without any gets from such inputs.\<close>

definition modality :: "int \<Rightarrow> 'v float_tensor status_or \<Rightarrow> 'v multi_modal list" where
  "modality special r =
     (case r of Inl _ \<Rightarrow> [] | Inr T \<Rightarrow> [\<lparr>mm_special = special, mm_embedding = ft_floats T\<rparr>])"

lemma add_modality:
  assumes "fully_supports_multi_modal m" "media_floats r xs"
  shows "add_multi_modal r special m =
           (Ok, m\<lparr>multi_modal_lookups := multi_modal_lookups m @ modality special r\<rparr>)"
  using assms
  by (cases r) (simp_all add: add_multi_modal_def modality_def media_floats_def MultiModal_Create_def
      ReferTensorBufferAsSpan_def)

lemma update_both:
  assumes "fully_supports_multi_modal m" "multi_modal_lookups m = []"
    and "media_floats (GetVisionEmbeddingsPtr inputs) xs" "media_floats (GetAudioEmbeddingsPtr inputs) ys"
  shows "UpdateMultiModalEmbeddings inputs m =
           (Ok, m\<lparr>multi_modal_lookups := modality kVisionSpecialToken (GetVisionEmbeddingsPtr inputs) @
                   modality kAudioSpecialToken (GetAudioEmbeddingsPtr inputs)\<rparr>)"
  using add_modality [OF assms(1,3)] add_modality [OF _ assms(4)] assms(1,2)
  by (simp add: UpdateMultiModalEmbeddings_def assign_or_return_def)

lemma modality_used_up:
  assumes "media_floats r xs" "length xs = f * count_list ids special"
  shows "enough f ids (modality special r)"
    "filter HasRemainingEmbeddings (map (consumed f ids) (modality special r)) = []"
    "\<forall>l \<in> set (modality special r). mm_special l = special \<and> mm_embedding l = xs"
  using assms
  by (cases r; simp add: modality_def media_floats_def enough_def consumed_def HasRemainingEmbeddings_def)+


text \<open>C10. For a mixed input whose encoders return one row per token, the combined embeddings of a
  modality are those of its images or audios in their order, and there are exactly as many rows as
  special tokens of the modality: an embedding manager that takes them over has enough rows for the
  token ids of the input, and a prefill of these ids uses them up.\<close>
theorem mixed_input_feeds_lookup:
  fixes emb :: "int \<Rightarrow> 'v list" and m :: "'v embedding_manager"
  assumes "encoder_ok (vision_ok (tl_floats t)) vis" "encoder_ok (audio_ok (tl_floats t)) aud"
    and "text_ids_ok cs"
    and "ProcessAndCombineContents vis aud clk cs s = Some (Inr inputs, s')"
    and "manager_ok emb t m" "fully_supports_multi_modal m" "multi_modal_lookups m = []"
  shows "\<exists>ids m'. text_data_of inputs = Some (ExecutorTextData (IdsTensor ids)) \<and>
           UpdateMultiModalEmbeddings inputs m = (Ok, m') \<and> manager_ok emb t m' \<and>
           enough (tl_floats t) ids (multi_modal_lookups m') \<and>
           multi_modal_lookups (prefilled ids t m') = [] \<and>
           (\<forall>l \<in> set (multi_modal_lookups m').
              (mm_special l = kVisionSpecialToken \<longrightarrow>
                 mm_embedding l = vision_floats (encoded_images vis cs)) \<and>
              (mm_special l = kAudioSpecialToken \<longrightarrow>
                 mm_embedding l = audio_floats (encoded_audios aud cs)))"
proof -
  let ?f = "tl_floats t"
  have f: "?f > 0" using assms(5) by (simp add: manager_ok_def text_ok_def)
  obtain q where q: "process_contents vis aud clk cs s = Some (Inr q, s')"
    "try_or_return (combine_parts q) make_inputs = Inr inputs"
    using assms(4) by (auto simp: ProcessAndCombineContents_def bind_op_Inr_iff)
  obtain ids vs as where qs: "q = (ids, vs, as)" by (cases q)
  have ok: "parts_ok ?f (ids, vs, as)" "vs = encoded_images vis cs" "as = encoded_audios aud cs"
    using process_contents_ok [OF f assms(1-3) q(1)] unfolding qs by auto
  have inp: "text_data_of inputs = Some (ExecutorTextData (IdsTensor ids))"
    "media_floats (GetVisionEmbeddingsPtr inputs) (vision_floats vs)"
    "media_floats (GetAudioEmbeddingsPtr inputs) (audio_floats as)"
    using combined_inputs [OF ok(1) q(2) [unfolded qs]] by simp_all
  let ?v = "modality kVisionSpecialToken (GetVisionEmbeddingsPtr inputs)"
  let ?a = "modality kAudioSpecialToken (GetAudioEmbeddingsPtr inputs)"
  let ?m = "m\<lparr>multi_modal_lookups := ?v @ ?a\<rparr>"
  have v: "enough ?f ids ?v" "filter HasRemainingEmbeddings (map (consumed ?f ids) ?v) = []"
    "\<forall>l \<in> set ?v. mm_special l = kVisionSpecialToken \<and> mm_embedding l = vision_floats vs"
    using modality_used_up [OF inp(2)] ok(1) by (simp_all add: parts_ok_def)
  have a: "enough ?f ids ?a" "filter HasRemainingEmbeddings (map (consumed ?f ids) ?a) = []"
    "\<forall>l \<in> set ?a. mm_special l = kAudioSpecialToken \<and> mm_embedding l = audio_floats as"
    using modality_used_up [OF inp(3)] ok(1) by (simp_all add: parts_ok_def)
  have "distinct (map mm_special (?v @ ?a))" by (simp add: modality_def split: sum.split)
  moreover have "\<forall>l \<in> set (?v @ ?a). mm_special l < 0" using v(3) a(3) by auto
  ultimately have "manager_ok emb t ?m" using assms(5,6) by (simp add: manager_ok_def)
  moreover have "UpdateMultiModalEmbeddings inputs m = (Ok, ?m)"
    by (rule update_both [OF assms(6,7) inp(2,3)])
  moreover have "enough ?f ids (multi_modal_lookups ?m)" using v(1) a(1) by (auto simp: enough_def)
  moreover have "multi_modal_lookups (prefilled ids t ?m) = []" using v(2) a(2) by (simp add: prefilled_def)
  moreover have "\<forall>l \<in> set (multi_modal_lookups ?m).
      (mm_special l = kVisionSpecialToken \<longrightarrow> mm_embedding l = vision_floats (encoded_images vis cs)) \<and>
      (mm_special l = kAudioSpecialToken \<longrightarrow> mm_embedding l = audio_floats (encoded_audios aud cs))"
    using v(3) a(3) ok(2,3) by fastforce
  ultimately show ?thesis using inp(1) by blast
qed

definition example_vision :: "(nat, int float_tensor vision_data) encoder option" where
  "example_vision = Some (\<lambda>T. Inr (ExecutorVisionData
     (Some \<lparr>ft_type = ElFloat32, ft_dims = [1, 1, 2], ft_host = True, ft_floats = [40, 41]\<rparr>) None))"

definition example_inputs :: "nat input_tensor input_data list" where
  "example_inputs = [InputText (Tensor (IdsTensor [5])), InputImage (Tensor (MediaTensor 0)),
     InputImage (Tensor (MediaTensor 1))]"

theorem mixed_input_feeds_lookup_witness:
  "\<exists>inputs ids m'. ProcessAndCombineContents example_vision None (\<lambda>_. 0) example_inputs (None, 0) =
       Some (Inr inputs, (None, 0)) \<and>
     text_data_of inputs = Some (ExecutorTextData (IdsTensor ids)) \<and>
     UpdateMultiModalEmbeddings inputs (example_manager\<lparr>multi_modal_lookups := []\<rparr>) = (Ok, m') \<and>
     enough 2 ids (multi_modal_lookups m') \<and>
     multi_modal_lookups (prefilled ids example_text m') = []"
proof -
  let ?m = "example_manager\<lparr>multi_modal_lookups := []\<rparr>"
  have f: "tl_floats example_text = 2" by (simp add: example_text_def)
  have run: "\<exists>inputs. ProcessAndCombineContents example_vision None (\<lambda>_. 0) example_inputs (None, 0) =
      Some (Inr inputs, (None, 0))"
    by (simp add: ProcessAndCombineContents_def example_inputs_def process_content_def bind_op_def
        ReferIdsAsSpan_def GetPreprocessedImageTensor_def marked_encode_def example_vision_def defined_def
        mark_delta_def image_ids_def VisionGetEmbeddingsPtr_def optional_ptr_def ExecutorVisionData_def
        combine_parts_def CombineExecutorVisionData_def combine_embeddings_def make_inputs_def
        TokenIdsToTensorBuffer_def)
  then obtain inputs where i: "ProcessAndCombineContents example_vision None (\<lambda>_. 0) example_inputs (None, 0) =
      Some (Inr inputs, (None, 0))" by blast
  have "encoder_ok (vision_ok (tl_floats example_text)) example_vision"
    by (auto simp: f encoder_ok_def example_vision_def vision_ok_def rows_ok_def ExecutorVisionData_def)
  moreover have "encoder_ok (audio_ok (tl_floats example_text)) (None :: (nat, int float_tensor audio_data) encoder option)"
    by (simp add: encoder_ok_def)
  moreover have "text_ids_ok example_inputs" by (simp add: text_ids_ok_def example_inputs_def)
  moreover have "manager_ok example_emb example_text ?m" "fully_supports_multi_modal ?m"
    using example_ok by (simp_all add: manager_ok_def example_manager_def example_text_def)
  ultimately obtain ids m' where
    "text_data_of inputs = Some (ExecutorTextData (IdsTensor ids))"
    "UpdateMultiModalEmbeddings inputs ?m = (Ok, m')"
    "enough (tl_floats example_text) ids (multi_modal_lookups m')"
    "multi_modal_lookups (prefilled ids example_text m') = []"
    using mixed_input_feeds_lookup [of example_text example_vision None example_inputs "\<lambda>_. 0" "(None, 0)"
        inputs "(None, 0)" example_emb ?m] i by auto
  then show ?thesis using i f by auto
qed


end
