(* ===== verification/SessionAdvanced.thy ===== *)
theory SessionAdvanced
  imports ExecutionManager SessionUtils
begin

text \<open>
  Sessions over the execution manager: \<^verbatim>\<open>runtime/core/session_advanced.{h,cc}\<close>. A session turns
  every prefill and decode into a task of the manager that depends on all tasks of the session that
  have not ended yet (\<open>processing_tasks\<close>); the callback of a task takes it out of that set when it is
  given responses in an end state.

  The manager runs callbacks inside its operations, where it records them in \<open>callbacks\<close>;
  \<open>deliver\<close> is what the session's part of the new ones does. Between taking its dependencies and
  creating its task, a call holds no lock: \<open>begun\<close> lists the calls that are there. \<open>submitted\<close> is a
  history of the tasks whose creation returned Ok; no guard reads it.

  The callback of a decode refers to the variable \<^verbatim>\<open>task_id\<close> of \<^verbatim>\<open>RunDecodeAsync\<close> (the capture
  \<^verbatim>\<open>[&, callback]\<close>; that of a prefill copies it). Once that call has returned, which \<open>decodes\<close>
  records, the variable is gone: what the callback reads is the argument \<open>stale_id\<close> of the model.
\<close>

section \<open>State\<close>

text \<open>What the task functions of \<^verbatim>\<open>AddPrefillTask\<close> and \<^verbatim>\<open>AddDecodeTask\<close> have captured.\<close>

datatype ('m, 'c) session_task =
    PrefillTask "'m input_tensor input_data list"
  | DecodeTask nat "'c option"

record 'm session_env =
  config_of :: session_config
  session_tokenizer :: tokenizer
  duplicate_tensor :: "'m input_tensor \<Rightarrow> 'm input_tensor status_or"
  deps_order :: "task_id set \<Rightarrow> task_id list"
  stale_id :: "task_id \<Rightarrow> task_id"

record ('m, 'c, 'f) session_advanced =
  manager :: "(('m, 'c) session_task, 'f) execution_manager"
  benchmark_of :: "benchmark_info option"
  is_first_turn :: bool
  processing_tasks :: "task_id set"
  cancel_flag :: bool
  begun :: "(task_id \<times> task_id set \<times> ('m, 'c) session_task) list"
  submitted :: "task_id list"
  decodes :: "task_id set"

definition SessionAdvanced ::
  "(('m, 'c) session_task, 'f) execution_manager \<Rightarrow> benchmark_info option \<Rightarrow> ('m, 'c, 'f) session_advanced"
where
  "SessionAdvanced m b =
     \<lparr>manager = m, benchmark_of = b, is_first_turn = True, processing_tasks = {}, cancel_flag = False,
      begun = [], submitted = [], decodes = {}\<rparr>"

section \<open>Callbacks\<close>

text \<open>The tasks whose callbacks are given an end state.\<close>

definition ended :: "(task_id \<times> 'f responses status_or) list \<Rightarrow> task_id set" where
  "ended cbs = {t. \<exists>v. (t, Inr v) \<in> set cbs \<and> IsTaskEndState (GetTaskState v)}"

text \<open>\<open>seen\<close> is the id that the callback of a task reads in \<^verbatim>\<open>task_id\<close>.\<close>

definition deliver ::
  "(task_id \<Rightarrow> task_id) \<Rightarrow> (('m, 'c) session_task, 'f) execution_manager \<Rightarrow> ('m, 'c, 'f) session_advanced \<Rightarrow>
   ('m, 'c, 'f) session_advanced"
where
  "deliver seen m s =
     (let new = drop (length (callbacks (manager s))) (callbacks m)
      in s\<lparr>manager := m, processing_tasks := processing_tasks s - seen ` ended new\<rparr>)"

definition callback_id ::
  "'m session_env \<Rightarrow> ('m, 'c, 'f) session_advanced \<Rightarrow> task_id \<Rightarrow> task_id"
where
  "callback_id env s t = (if t \<in> decodes s then stale_id env t else t)"

section \<open>Operations\<close>

definition AddPrefillTask ::
  "status \<Rightarrow> task_id \<Rightarrow> 'm input_tensor input_data list \<Rightarrow> task_id list \<Rightarrow>
   ((('m, 'c) session_task, 'f) execution_manager, unit) op"
where
  "AddPrefillTask created t inputs deps = CreateTask created t (PrefillTask inputs) deps"

definition AddDecodeTask ::
  "status \<Rightarrow> task_id \<Rightarrow> task_id list \<Rightarrow> nat \<Rightarrow> 'c option \<Rightarrow>
   ((('m, 'c) session_task, 'f) execution_manager, unit) op"
where
  "AddDecodeTask created t deps n con = CreateTask created t (DecodeTask n con) deps"

text \<open>The part of \<^verbatim>\<open>RunPrefillAsync\<close> before the task.\<close>

definition prepare_prefill ::
  "'m session_env \<Rightarrow> 'm input_tensor input_data list \<Rightarrow>
   (('m, 'c, 'f) session_advanced, 'm input_tensor input_data list) op"
where
  "prepare_prefill env contents s =
     (if contents = [] then (Inl InvalidArgument, s)
      else
        let s = (if cancel_flag s then s\<lparr>cancel_flag := False\<rparr> else s);
            preprocess = PreprocessContents (config_of env) (session_tokenizer env) (duplicate_tensor env)
                           (benchmark_of s)
        in if (case benchmark_of s of None \<Rightarrow> False | Some b \<Rightarrow> num_prefill_tokens b > 0)
           then (preprocess contents, s)
           else case ApplyPromptTemplates (config_of env) (session_tokenizer env) (duplicate_tensor env)
                       contents (is_first_turn s) of
                  (r, b) \<Rightarrow> (try_or_return r preprocess, s\<lparr>is_first_turn := b\<rparr>))"

definition begin_task :: "(('m, 'c, 'f) session_advanced, task_id \<times> task_id set) op" where
  "begin_task s =
     (case GetNewTaskId (manager s) of
        (Inl e, m) \<Rightarrow> (Inl e, s\<lparr>manager := m\<rparr>)
      | (Inr t, m) \<Rightarrow>
          (Inr (t, processing_tasks s),
           s\<lparr>manager := m, processing_tasks := insert t (processing_tasks s)\<rparr>))"

definition add_task ::
  "'m session_env \<Rightarrow> status \<Rightarrow> task_id \<times> task_id set \<times> ('m, 'c) session_task \<Rightarrow>
   (('m, 'c, 'f) session_advanced, unit) op"
where
  "add_task env created call s =
     (case call of (t, deps, body) \<Rightarrow>
        (case (case body of
                 PrefillTask inputs \<Rightarrow> AddPrefillTask created t inputs (deps_order env deps)
               | DecodeTask n con \<Rightarrow> AddDecodeTask created t (deps_order env deps) n con) (manager s) of
           (Inl e, m) \<Rightarrow> (Inl e, deliver id m s)
         | (Inr _, m) \<Rightarrow>
             (Ok, (deliver id m s)\<lparr>submitted := submitted s @ [t],
                    decodes := (case body of PrefillTask _ \<Rightarrow> decodes s
                                | DecodeTask _ _ \<Rightarrow> insert t (decodes s))\<rparr>)))"

definition AdvancedRunPrefillAsync ::
  "'m session_env \<Rightarrow> status \<Rightarrow> 'm input_tensor input_data list \<Rightarrow> (('m, 'c, 'f) session_advanced, unit) op"
where
  "AdvancedRunPrefillAsync env created contents =
     assign_or_return (prepare_prefill env contents) (\<lambda>pre.
     assign_or_return begin_task (\<lambda>(t, deps). add_task env created (t, deps, PrefillTask pre)))"

definition prepare_decode :: "(('m, 'c, 'f) session_advanced, unit) op" where
  "prepare_decode s = (Ok, if cancel_flag s then s\<lparr>cancel_flag := False\<rparr> else s)"

definition decode_body :: "'m session_env \<Rightarrow> 'c option \<Rightarrow> ('m, 'c) session_task" where
  "decode_body env con = DecodeTask (GetNumOutputCandidates (config_of env)) con"

definition AdvancedRunDecodeAsync ::
  "'m session_env \<Rightarrow> status \<Rightarrow> 'c option \<Rightarrow> (('m, 'c, 'f) session_advanced, unit) op"
where
  "AdvancedRunDecodeAsync env created con =
     assign_or_return prepare_decode (\<lambda>_.
     assign_or_return begin_task (\<lambda>(t, deps). add_task env created (t, deps, decode_body env con)))"

definition AdvancedCancelProcess :: "('m, 'c, 'f) session_advanced \<Rightarrow> ('m, 'c, 'f) session_advanced" where
  "AdvancedCancelProcess s = s\<lparr>cancel_flag := True\<rparr>"

definition AdvancedGetBenchmarkInfo :: "('m, 'c, 'f) session_advanced \<Rightarrow> benchmark_info status_or" where
  "AdvancedGetBenchmarkInfo s =
     (case benchmark_of s of Some b \<Rightarrow> Inr b | None \<Rightarrow> Inl Internal)"

definition AdvancedRunTextScoring ::
  "string list \<Rightarrow> bool \<Rightarrow> (('m, 'c, 'f) session_advanced, 'f responses) op" where
  "AdvancedRunTextScoring targets store_token_lengths s = (Inl Unimplemented, s)"

section \<open>Waiting calls\<close>

text \<open>
  \<open>until_done\<close> is what happens until the wait ends; \<open>callbacks_of\<close> are the calls of the task's callback
  from the start of the call on.
\<close>

definition callbacks_of ::
  "task_id \<Rightarrow> (('m, 'c, 'f) session_advanced) \<Rightarrow> ('m, 'c, 'f) session_advanced \<Rightarrow> 'f responses status_or list"
where
  "callbacks_of t s s' =
     map snd (filter (\<lambda>c. fst c = t) (drop (length (callbacks (manager s))) (callbacks (manager s'))))"

definition prefill_callback :: "'f responses status_or \<Rightarrow> status \<Rightarrow> status" where
  "prefill_callback r _ = (case r of Inl e \<Rightarrow> Inl e | Inr _ \<Rightarrow> Ok)"

definition AdvancedRunPrefill ::
  "'m session_env \<Rightarrow> status \<Rightarrow> (('m, 'c, 'f) session_advanced \<Rightarrow> ('m, 'c, 'f) session_advanced) \<Rightarrow>
   'm input_tensor input_data list \<Rightarrow> (('m, 'c, 'f) session_advanced, unit) op"
where
  "AdvancedRunPrefill env created until_done contents s =
     (case AdvancedRunPrefillAsync env created contents s of
        (Inl e, s1) \<Rightarrow> (Inl e, s1)
      | (Inr _, s1) \<Rightarrow>
          let s2 = until_done s1 in
          (case WaitUntilAllDone (manager s2) of
             Inl e \<Rightarrow> (Inl e, s2)
           | Inr _ \<Rightarrow> (fold prefill_callback (callbacks_of (next_task_id (manager s)) s s2) Ok, s2)))"

text \<open>
  \<^verbatim>\<open>decode_sync_callback\<close> on the collected responses and the number of texts. The collected scores
  are indexed with the indices of the given ones; \<open>None\<close> is an index out of range, or a write to
  responses that are an error already (\<^verbatim>\<open>absl::StatusOr\<close> aborts).
\<close>

definition decode_sync_callback ::
  "'f float_ops \<Rightarrow> 'f responses status_or \<Rightarrow> 'f responses status_or \<times> nat \<Rightarrow>
   ('f responses status_or \<times> nat) option"
where
  "decode_sync_callback fops r st0 =
     (case r of
        Inl e \<Rightarrow> Some (Inl e, snd st0)
      | Inr v \<Rightarrow>
          (case st0 of
             (Inl _, n) \<Rightarrow> None
           | (Inr c0, n) \<Rightarrow>
               let c = c0\<lparr>GetTaskState := GetTaskState v\<rparr>; ends = IsTaskEndState (GetTaskState v) in
               if \<not> ends \<and> GetTexts v = [] \<and> GetScores v = [] then Some (Inr c, n)
               else if GetTexts v = [] then
                 (if ends
                  then if length (GetScores v) > length (GetScores c) then None
                       else Some (Inr (c\<lparr>GetScores :=
                              map (\<lambda>(i, x). if i < length (GetScores v) then fdiv fops x (max 1 n) else x)
                                (enumerate 0 (GetScores c))\<rparr>), n)
                  else Some (Inr c, n))
               else
                 let c = (if length (GetScores c) = length (GetScores v)
                          then c\<lparr>GetScores := map2 (fadd fops) (GetScores c) (GetScores v)\<rparr> else c)
                 in if length (GetTexts c) = length (GetTexts v)
                    then Some (Inr (c\<lparr>GetTexts := map2 (@) (GetTexts c) (GetTexts v)\<rparr>), n + 1)
                    else Some (Inl Internal, n)))"

fun collect ::
  "'f float_ops \<Rightarrow> 'f responses status_or list \<Rightarrow> 'f responses status_or \<times> nat \<Rightarrow>
   ('f responses status_or \<times> nat) option"
where
  "collect fops [] c = Some c"
| "collect fops (r # rs) c = Option.bind (decode_sync_callback fops r c) (collect fops rs)"

definition no_responses :: "'f float_ops \<Rightarrow> nat \<Rightarrow> 'f responses status_or \<times> nat" where
  "no_responses fops n =
     (Inr (Responses kCreated (replicate n '''') (replicate n (fzero fops)) []), 0)"

text \<open>\<open>streamed\<close> are the responses that the task itself gives to its callback while it runs.\<close>

definition AdvancedRunDecode ::
  "'m session_env \<Rightarrow> 'f float_ops \<Rightarrow> status \<Rightarrow>
   (('m, 'c, 'f) session_advanced \<Rightarrow> ('m, 'c, 'f) session_advanced) \<Rightarrow>
   ('f responses status_or list \<Rightarrow> 'f responses status_or list) \<Rightarrow> 'c option \<Rightarrow>
   (('m, 'c, 'f) session_advanced, 'f responses) uop"
where
  "AdvancedRunDecode env fops created until_done streamed con s =
     (case AdvancedRunDecodeAsync env created con s of
        (Inl e, s1) \<Rightarrow> Some (Inl e, s1)
      | (Inr _, s1) \<Rightarrow>
          let s2 = until_done s1 in
          Option.bind
            (collect fops (streamed (callbacks_of (next_task_id (manager s)) s s2))
               (no_responses fops (GetNumOutputCandidates (config_of env))))
            (\<lambda>(c, _). Some (case WaitUntilAllDone (manager s2) of Inl e \<Rightarrow> (Inl e, s2) | Inr _ \<Rightarrow> (c, s2))))"

section \<open>Executions\<close>

text \<open>
  The steps of a session and of the manager it shares: calls of its methods, up to the point where
  they have taken their dependencies and from there on, a cancellation, and every step of the
  manager, among them the creation of tasks by other sessions.
\<close>

inductive session_step ::
  "'m session_env \<Rightarrow> ('m, 'c, 'f) session_advanced \<Rightarrow> ('m, 'c, 'f) session_advanced \<Rightarrow> bool"
  for env
where
  prefill_rejected: "prepare_prefill env contents s = (Inl e, s') \<Longrightarrow> session_step env s s'"
| prefill_begun: "prepare_prefill env contents s = (Inr pre, s1) \<Longrightarrow> begin_task s1 = (Inr (t, deps), s2) \<Longrightarrow>
    session_step env s (s2\<lparr>begun := begun s2 @ [(t, deps, PrefillTask pre)]\<rparr>)"
| decode_begun: "prepare_decode s = (Ok, s1) \<Longrightarrow> begin_task s1 = (Inr (t, deps), s2) \<Longrightarrow>
    session_step env s (s2\<lparr>begun := begun s2 @ [(t, deps, decode_body env con)]\<rparr>)"
| task_added: "begun s = xs @ call # ys \<Longrightarrow> add_task env created call s = (r, s1) \<Longrightarrow>
    session_step env s (s1\<lparr>begun := xs @ ys\<rparr>)"
| cancelled: "session_step env s (AdvancedCancelProcess s)"
| manager_step: "em_step (deps_order env) (manager s) m \<Longrightarrow> session_step env s (deliver (callback_id env s) m s)"

inductive session_run ::
  "'m session_env \<Rightarrow> ('m, 'c, 'f) session_advanced \<Rightarrow> ('m, 'c, 'f) session_advanced \<Rightarrow> bool" for env
where
  stay: "session_run env s s"
| go: "session_run env s s' \<Longrightarrow> session_step env s' s'' \<Longrightarrow> session_run env s s''"

section \<open>Which callbacks get an end state\<close>

text \<open>The new callbacks give an end state only to tasks with \<open>P\<close>.\<close>

definition ends_only ::
  "(task_id \<Rightarrow> bool) \<Rightarrow> ('b, 'f) execution_manager \<Rightarrow> ('b, 'f) execution_manager \<Rightarrow> bool"
where
  "ends_only P s s' \<longleftrightarrow>
     (\<exists>new. callbacks s' = callbacks s @ new \<and> (\<forall>t \<in> ended new. P t))"

lemma ended_simps [simp]:
  "ended [] = {}" "ended (xs @ ys) = ended xs \<union> ended ys"
  "ended ((t, Inl e) # cs) = ended cs"
  "ended ((t, Inr v) # cs) = (if IsTaskEndState (GetTaskState v) then insert t (ended cs) else ended cs)"
  by (auto simp: ended_def)

lemma ends_only_refl [simp]: "ends_only P s s"
  by (auto simp: ends_only_def)

lemma ends_only_trans: "ends_only P s s' \<Longrightarrow> ends_only P s' s'' \<Longrightarrow> ends_only P s s''"
  by (auto simp: ends_only_def)

lemma ends_only_same: "callbacks s' = callbacks s \<Longrightarrow> ends_only P s s'"
  by (auto simp: ends_only_def)

lemma ends_only_notify:
  "(\<And>v. r = Inr v \<Longrightarrow> IsTaskEndState (GetTaskState v) \<Longrightarrow> P t) \<Longrightarrow> ends_only P s (notify t r s)"
  by (cases r) (auto simp: ends_only_def notify_def)

lemma ends_only_update [simp]: "ends_only P s (update_info t g s') = ends_only P s s'"
  by (simp add: ends_only_def update_info_def)

lemma ends_only_fields [simp]:
  "ends_only P s (s'\<lparr>execution_thread_pool := p\<rparr>) = ends_only P s s'"
  "ends_only P s (s'\<lparr>pc := f\<rparr>) = ends_only P s s'"
  "ends_only P (record_result t r s) s' = ends_only P s s'"
  "ends_only P s (insert_task t i s') = ends_only P s s'"
  by (simp_all add: ends_only_def record_result_def insert_task_def)

lemma ends_only_Confirm: "ends_only P s (snd (ConfirmTaskState t x trig s))"
  by (auto simp: ConfirmTaskState_def intro: ends_only_notify split: option.split)

lemma ends_only_Queue: "ends_only P s (snd (QueueTask c t s))"
proof -
  obtain r1 s1 where c1: "ConfirmTaskState t kCreated True s = (r1, s1)" by fastforce
  have e1: "ends_only P s s1" using ends_only_Confirm [of P s t kCreated True] c1 by simp
  show ?thesis
  proof (cases r1)
    case (Inr u)
    have "ends_only P s1 (notify t (Inr (StateResponse kQueued)) (set_state t kQueued s1))" for s1
      by (rule ends_only_trans [where s' = "set_state t kQueued s1"])
         (auto intro: ends_only_notify simp: IsTaskEndState_def)
    then have "ends_only P s1 (notify t (Inr (StateResponse kQueued))
        (set_state t kQueued (s1\<lparr>execution_thread_pool := p\<rparr>)))" for p
      by (metis (no_types, lifting) ends_only_fields(1) ends_only_refl ends_only_trans)
    then show ?thesis
      using c1 Inr e1 by (auto simp: QueueTask_def assign_or_return_def intro: ends_only_trans
          split: sum.splits prod.splits)
  qed (use c1 e1 in \<open>simp add: QueueTask_def assign_or_return_def\<close>)
qed

lemma link_callbacks: "callbacks (snd (link_dependencies t ds x s)) = callbacks s"
  by (induction ds arbitrary: x s) (simp_all add: update_info_def)

lemma ends_only_Create:
  assumes "task_lookup s t = None \<Longrightarrow> P t"
  shows "ends_only P s (snd (CreateTask c t b deps s))"
proof (cases "task_lookup s t")
  case None
  obtain r1 s1 where l: "link_dependencies t deps kCreated s = (r1, s1)" by fastforce
  have e1: "ends_only P s s1"
    using link_callbacks [of t deps kCreated s] l by (simp add: ends_only_same)
  show ?thesis
  proof (cases r1)
    case (Inr x)
    let ?i = "\<lparr>task = Some b, task_state = x, dependent_tasks = set deps, following_tasks = {},
               callback = True\<rparr>"
    let ?s = "notify t (Inr (StateResponse x)) (insert_task t ?i s1)"
    have "ends_only P s1 (insert_task t ?i s1)" by simp
    then have e2: "ends_only P s1 ?s" using assms [OF None] by (metis ends_only_notify ends_only_trans)
    then have "ends_only P s1 (snd (QueueTask c t ?s))" by (metis ends_only_Queue ends_only_trans)
    then show ?thesis
      using None l Inr e1 e2 by (auto simp: CreateTask_def assign_or_return_def Let_def intro: ends_only_trans)
  qed (use None l e1 in \<open>simp add: CreateTask_def assign_or_return_def\<close>)
qed (simp add: CreateTask_def)

lemma ends_only_Start: "ends_only P s (snd (StartTask left t s))"
proof -
  obtain r1 s1 where c1: "ConfirmTaskState t kQueued True s = (r1, s1)" by fastforce
  have e1: "ends_only P s s1" using ends_only_Confirm [of P s t kQueued True] c1 by simp
  have "ends_only P s1 (notify t (Inr (StateResponse kProcessing)) (set_state t kProcessing s1))"
    by (rule ends_only_trans [where s' = "set_state t kProcessing s1"])
       (auto intro: ends_only_notify simp: IsTaskEndState_def)
  then show ?thesis
    using c1 e1 by (auto simp: StartTask_def assign_or_return_def Let_def intro: ends_only_trans
        ends_only_notify split: sum.split option.split)
qed

lemma ends_only_fail_follower: "P f \<Longrightarrow> ends_only P s (fail_follower f s)"
proof -
  assume P: "P f"
  let ?s = "update_info f (\<lambda>i. i\<lparr>dependent_tasks := {}\<rparr>) s"
  have "ends_only P s ?s" by simp
  moreover have "ends_only P ?s (notify f (Inr (StateResponse kDependentTaskFailed)) ?s)"
    using P by (rule ends_only_notify)
  ultimately have "ends_only P s (notify f (Inr (StateResponse kDependentTaskFailed)) ?s)"
    by (rule ends_only_trans)
  then show ?thesis by (simp add: fail_follower_def Let_def)
qed

lemma ends_only_fail_followers: "\<forall>f \<in> set fs. P f \<Longrightarrow> ends_only P s (fold fail_follower fs s)"
  by (induction fs arbitrary: s) (auto intro: ends_only_trans ends_only_fail_follower)

lemma ends_only_release: "ends_only P s (snd (release_followers c t fs s))"
proof (induction fs arbitrary: s)
  case (Cons f fs)
  obtain r1 s1 where c1: "ConfirmTaskState f kCreated True s = (r1, s1)" by fastforce
  let ?s = "update_info f (\<lambda>i. i\<lparr>dependent_tasks := dependent_tasks i - {t}\<rparr>) s1"
  obtain r2 s2 where q: "QueueTask c f ?s = (r2, s2)" by fastforce
  have e1: "ends_only P s s1" using ends_only_Confirm [of P s f kCreated True] c1 by simp
  have e2: "ends_only P s ?s" using e1 by simp
  have e3: "ends_only P s s2"
    using ends_only_trans [OF e2, of s2] ends_only_Queue [of P ?s c f] q by simp
  show ?case
    using c1 q e1 ends_only_trans [OF e2 Cons.IH] ends_only_trans [OF e3 Cons.IH] e3
    by (auto simp: Let_def split: sum.splits)
qed simp

lemma ends_only_Finish:
  assumes "FinishTask iter c True t r s = Some (x, s')" "\<And>v. r = Inr v \<Longrightarrow> P t"
    and "\<And>fs. FollowingWaitingTasks iter (Suc (num_created s)) (record_result t r s) t = Some (Inr fs) \<Longrightarrow>
           \<forall>f \<in> set (iter fs). P f"
  shows "ends_only P s s'"
proof -
  let ?s = "record_result t r s"
  have n: "num_created ?s = num_created s" by (simp add: record_result_def)
  obtain r1 s1 where c1: "ConfirmTaskState t kProcessing False ?s = (r1, s1)" by fastforce
  have s1: "s1 = ?s" using ConfirmTaskState_cases [OF c1] by simp
  have e: "ends_only P s ?s" by (simp add: ends_only_def record_result_def)
  have err: "ends_only P s (notify t (Inl e') s2)" if "ends_only P s s2" for e' s2
    using that by (auto intro: ends_only_trans ends_only_notify)
  have fin: "ends_only P s (set_state t y (notify t r s2))" if "ends_only P s s2" for y s2
  proof -
    have "ends_only P s2 (notify t r s2)" using assms(2) by (rule ends_only_notify)
    then show ?thesis using ends_only_trans [OF that] by simp
  qed
  show ?thesis
  proof (cases r1)
    case (Inl e1)
    then show ?thesis using assms(1) c1 s1 err [OF e, of e1] by (auto simp: FinishTask_def Let_def)
  next
    case ok: (Inr u)
    show ?thesis
    proof (cases r)
      case (Inl e1)
      show ?thesis
      proof (cases "FollowingWaitingTasks iter (Suc (num_created s)) ?s t")
        case None
        then show ?thesis using assms(1) c1 ok s1 Inl n by (simp add: FinishTask_def Let_def)
      next
        case (Some res)
        show ?thesis
        proof (cases res)
          case (Inl e2)
          then show ?thesis
            using assms(1) c1 ok s1 Some \<open>r = Inl e1\<close> n err [OF e, of e2]
            by (auto simp: FinishTask_def Let_def)
        next
          case (Inr fs)
          have "ends_only P s (fold fail_follower (iter fs) ?s)"
            using ends_only_trans [OF e ends_only_fail_followers [OF assms(3)]] Some Inr by simp
          then show ?thesis
            using assms(1) c1 ok s1 Some Inr \<open>r = Inl e1\<close> n fin by (auto simp: FinishTask_def Let_def)
        qed
      qed
    next
      case (Inr v)
      obtain y s2 where rel: "release_followers c t (iter (following_tasks (info_at ?s t))) ?s = (y, s2)"
        by fastforce
      have "ends_only P s s2"
        using ends_only_trans [OF e ends_only_release, of c t "iter (following_tasks (info_at ?s t))"] rel
        by simp
      then show ?thesis
        using assms(1) c1 ok s1 Inr rel err fin by (cases y) (auto simp: FinishTask_def Let_def)
    qed
  qed
qed

text \<open>No step gives an end state to a task that is over.\<close>

definition over :: "task_state option \<Rightarrow> bool" where
  "over x \<longleftrightarrow> x \<in> {Some kDone, Some kMaxNumTokensReached, Some kFailed, Some kDependentTaskFailed}"

lemma over_simps [simp]:
  "\<not> over None" "over (Some kFailed)" "over (Some kDone)" "over (Some kMaxNumTokensReached)"
  "over (Some kDependentTaskFailed)" "\<not> over (Some kProcessing)" "\<not> over (Some kCreated)"
  "\<not> over (Some kQueued)"
  by (simp_all add: over_def)

lemma over_stays: "life_step x y \<Longrightarrow> over x \<Longrightarrow> y = x"
  by (auto simp: life_step_def over_def)

lemma step_spares_over:
  assumes "em_step iter s s'" "em_inv s" "iter_ok iter"
  shows "ends_only (\<lambda>t. \<not> over (st s t)) s s'"
  using assms(1)
proof cases
  case new_id
  then show ?thesis by (simp add: GetNewTaskId_def ends_only_same)
next
  case (create c t b deps)
  then show ?thesis by (auto simp: st_def intro: ends_only_Create)
next
  case (start w t left r s1)
  then show ?thesis using ends_only_Start [of _ s left t] by simp
next
  case (finish w t r c x s1)
  have core: "em_core s" and t: "st s t = Some kProcessing"
    using assms(2) finish(2) pc_ok_at [of s w] by (auto simp: em_inv_def job_ok_def)
  have core': "em_core (record_result t r s)" by (rule record_result_core [OF core])
  have found: "task_lookup (record_result t r s) t \<noteq> None" using t by (auto simp: st_def)
  have st': "st (record_result t r s) = st s" by (simp add: st_def fun_eq_iff)
  have "ends_only (\<lambda>t. \<not> over (st s t)) s s1"
  proof (rule ends_only_Finish [OF finish(4)])
    fix fs assume "FollowingWaitingTasks iter (Suc (num_created s)) (record_result t r s) t = Some (Inr fs)"
    from FollowingWaitingTasks_result [OF core' assms(3) found this]
    have fs: "fs = {f. (t, f) \<in> (waits (record_result t r s))\<^sup>+}" .
    then have "finite fs" using waits_finite [OF core'] by simp
    then have "set (iter fs) = fs" using assms(3) by (simp add: iter_ok_def)
    then show "\<forall>f \<in> set (iter fs). \<not> over (st s f)"
      using fs waits_created [of t _ "record_result t r s"] st' by auto
  qed (simp add: t)
  then show ?thesis using finish(1) by simp
qed (simp_all add: ends_only_same)

section \<open>Waiting for a task that is over\<close>

text \<open>The task \<open>x\<close> has been failed, or waits for \<open>t\<close>.\<close>

definition blocked :: "task_id \<Rightarrow> task_id \<Rightarrow> ('b, 'f) execution_manager \<Rightarrow> bool" where
  "blocked t x s \<longleftrightarrow>
     (\<exists>i. task_lookup s x = Some i \<and>
        (task_state i = kDependentTaskFailed \<or> (task_state i = kCreated \<and> t \<in> dependent_tasks i)))"

lemma blocked_state: "blocked t x s \<Longrightarrow> st s x \<in> {Some kCreated, Some kDependentTaskFailed}"
  by (auto simp: blocked_def st_def)

lemma blocked_fields [simp]:
  "blocked t x (s\<lparr>execution_thread_pool := p\<rparr>) = blocked t x s"
  "blocked t x (s\<lparr>pc := f\<rparr>) = blocked t x s"
  "blocked t x (s\<lparr>next_task_id := n\<rparr>) = blocked t x s"
  "blocked t x (notify u r s) = blocked t x s"
  "blocked t x (record_result u r s) = blocked t x s"
  by (simp_all add: blocked_def notify_def record_result_def)

lemma blocked_lookup: "task_lookup s' = task_lookup s \<Longrightarrow> blocked t x s' = blocked t x s"
  by (simp add: blocked_def)

lemma blocked_other [simp]: "u \<noteq> x \<Longrightarrow> blocked t x (update_info u g s) = blocked t x s"
  by (simp add: blocked_def update_info_def)

lemma blocked_fails:
  "blocked t x s \<Longrightarrow> blocked t x (update_info x (\<lambda>i. i\<lparr>task_state := kDependentTaskFailed, dependent_tasks := D\<rparr>) s)"
  by (auto simp: blocked_def update_info_def)

lemma blocked_follow [simp]:
  "blocked t x (update_info u (\<lambda>i. i\<lparr>following_tasks := F i\<rparr>) s) = blocked t x s"
  by (auto simp: blocked_def update_info_def)

lemma blocked_confirm: "blocked t x s \<Longrightarrow> blocked t x (snd (ConfirmTaskState u y trig s))"
  using ConfirmTaskState_cases [of u y trig s] blocked_lookup by (metis prod.collapse)

lemma blocked_queue:
  assumes "blocked t x s"
  shows "blocked t x (snd (QueueTask c u s))"
proof -
  obtain r s1 where c1: "ConfirmTaskState u kCreated True s = (r, s1)" by fastforce
  note cases = ConfirmTaskState_cases [OF c1]
  have b1: "blocked t x s1" using assms cases blocked_lookup by blast
  show ?thesis
  proof (cases "ok r \<and> dependent_tasks (info_at s u) = {}")
    case True
    then have "u \<noteq> x" using cases assms by (auto simp: blocked_def)
    then show ?thesis
      using c1 True cases b1 by (auto simp: QueueTask_def assign_or_return_def split: sum.splits prod.splits)
  qed (use c1 b1 cases in \<open>cases r; simp add: QueueTask_def assign_or_return_def\<close>)
qed

lemma blocked_link: "blocked t x s \<Longrightarrow> blocked t x (snd (link_dependencies u ds y s))"
  by (induction ds arbitrary: y s) simp_all

lemma blocked_create:
  assumes "blocked t x s"
  shows "blocked t x (snd (CreateTask c u b deps s))"
proof (cases "task_lookup s u")
  case None
  then have u: "u \<noteq> x" using assms by (auto simp: blocked_def)
  obtain r s1 where l: "link_dependencies u deps kCreated s = (r, s1)" by fastforce
  have b1: "blocked t x s1" using blocked_link [OF assms] l by (metis snd_conv)
  have "blocked t x (insert_task u i s1)" for i using b1 u by (simp add: blocked_def insert_task_def)
  then have "blocked t x (snd (QueueTask c u (notify u y (insert_task u i s1))))" for i y
    by (simp add: blocked_queue)
  moreover have "blocked t x (notify u y (insert_task u i s1))" for i y
    using \<open>\<And>i. blocked t x (insert_task u i s1)\<close> by simp
  ultimately show ?thesis
    using l None b1
    by (cases r) (auto simp: CreateTask_def assign_or_return_def Let_def)
qed (use assms in \<open>simp add: CreateTask_def\<close>)

lemma blocked_start:
  assumes "blocked t x s"
  shows "blocked t x (snd (StartTask left u s))"
proof -
  obtain r s1 where c1: "ConfirmTaskState u kQueued True s = (r, s1)" by fastforce
  note cases = ConfirmTaskState_cases [OF c1]
  have b1: "blocked t x s1" using assms cases blocked_lookup by blast
  show ?thesis
  proof (cases "ok r")
    case True
    then have "u \<noteq> x" using cases assms by (auto simp: blocked_def)
    then show ?thesis
      using c1 b1 by (auto simp: StartTask_def assign_or_return_def Let_def split: sum.splits option.splits)
  qed (use c1 b1 in \<open>cases r; simp add: StartTask_def assign_or_return_def\<close>)
qed

lemma blocked_fail_followers: "blocked t x s \<Longrightarrow> blocked t x (fold fail_follower fs s)"
proof (induction fs arbitrary: s)
  case (Cons f fs)
  have "blocked t x (fail_follower f s)"
    using Cons.prems by (auto simp: fail_follower_def Let_def blocked_def update_info_def notify_def)
  then show ?case using Cons.IH by simp
qed simp

lemma blocked_release:
  assumes "u \<noteq> t"
  shows "blocked t x s \<Longrightarrow> blocked t x (snd (release_followers c u fs s))"
proof (induction fs arbitrary: s)
  case (Cons f fs)
  obtain r s1 where c1: "ConfirmTaskState f kCreated True s = (r, s1)" by fastforce
  let ?s = "update_info f (\<lambda>i. i\<lparr>dependent_tasks := dependent_tasks i - {u}\<rparr>) s1"
  have b1: "blocked t x s1" using Cons.prems ConfirmTaskState_cases [OF c1] blocked_lookup by blast
  then have b2: "blocked t x ?s" using assms by (auto simp: blocked_def update_info_def)
  obtain r2 s2 where q: "QueueTask c f ?s = (r2, s2)" by fastforce
  have b3: "blocked t x s2" using blocked_queue [OF b2, of c f] q by simp
  show ?case
    using c1 q b1 Cons.IH [OF b2] Cons.IH [OF b3] b3 by (auto simp: Let_def split: sum.splits)
qed simp

lemma blocked_finish:
  assumes "FinishTask iter c True u r s = Some (y, s')" "u \<noteq> t" "st s u = Some kProcessing" "blocked t x s"
  shows "blocked t x s'"
proof -
  let ?s = "record_result u r s"
  obtain r1 s1 where c1: "ConfirmTaskState u kProcessing False ?s = (r1, s1)" by fastforce
  have s1: "s1 = ?s" using ConfirmTaskState_cases [OF c1] by simp
  have b: "blocked t x ?s" using assms(4) by simp
  have u: "u \<noteq> x" using assms(3,4) by (auto simp: st_def blocked_def)
  have f: "blocked t x (fold fail_follower fs ?s)" for fs by (rule blocked_fail_followers [OF b])
  obtain z s2 where rel: "release_followers c u (iter (following_tasks (info_at ?s u))) ?s = (z, s2)" by fastforce
  have "blocked t x s2" using blocked_release [OF assms(2) b, of c] rel by (metis snd_conv)
  then show ?thesis
    using assms(1) c1 s1 b f rel u
    by (auto simp: FinishTask_def Let_def simp del: FollowingWaitingTasks.simps
        split: sum.splits option.splits ExecutionManager.loop_exit.splits)
qed

lemma blocked_step:
  assumes "em_step iter s s'" "em_inv s" "over (st s t)" "blocked t x s"
  shows "blocked t x s'"
  using assms(1)
proof cases
  case new_id
  then show ?thesis using assms(4) by (simp add: GetNewTaskId_def)
next
  case (create c u b deps)
  then show ?thesis using blocked_create [OF assms(4)] by simp
next
  case (start w u left r s1)
  then show ?thesis using blocked_start [OF assms(4), of left u] by simp
next
  case (finish w u r c y s1)
  have "st s u = Some kProcessing"
    using assms(2) finish(2) pc_ok_at [of s w] by (auto simp: em_inv_def job_ok_def)
  moreover have "u \<noteq> t" using calculation assms(3) by auto
  ultimately show ?thesis using blocked_finish [OF finish(4)] assms(4) finish(1) by simp
qed (use assms(4) in simp_all)

section \<open>A failed task\<close>

lemma followers_found:
  "task_lookup s t = Some i \<Longrightarrow> \<exists>j. task_lookup (fold fail_follower fs s) t = Some j"
proof (induction fs arbitrary: s i)
  case (Cons f fs)
  have "\<exists>j. task_lookup (fail_follower f s) t = Some j"
    using Cons.prems by (auto simp: fail_follower_def Let_def update_info_def notify_def)
  then show ?case using Cons.IH by auto
qed simp

lemma st_set_state: "task_lookup s t = Some i \<Longrightarrow> st (set_state t x s) t = Some x"
  by (simp add: st_def update_info_def)

lemma failing_finish:
  assumes "FinishTask iter c True t (Inl e) s = Some (Ok, s')"
  shows "st s' t = Some kFailed"
proof -
  let ?s = "record_result t (Inl e) s"
  obtain i where i: "task_lookup ?s t = Some i"
    using assms by (auto simp: FinishTask_def Let_def ConfirmTaskState_def split: option.splits)
  obtain fs where "s' = set_state t kFailed (notify t (Inl e) (fold fail_follower (iter fs) ?s))"
    using assms
    by (auto simp: FinishTask_def Let_def ConfirmTaskState_def simp del: FollowingWaitingTasks.simps
        split: option.splits sum.splits if_splits)
  moreover obtain j where "task_lookup (notify t (Inl e) (fold fail_follower (iter fs) ?s)) t = Some j"
    using followers_found [OF i, of "iter fs"] by auto
  ultimately show ?thesis using st_set_state by blast
qed

lemma failing_finish_spares:
  assumes "FinishTask iter c True t (Inl e) s = Some (Ok, m)" "em_inv s" "iter_ok iter" "pc s w = Executing t"
  shows "ends_only (\<lambda>x. x \<noteq> t) s m"
proof (rule ends_only_Finish [OF assms(1)])
  have core: "em_core (record_result t (Inl e) s)" and t: "st s t = Some kProcessing"
    using assms(2,4) pc_ok_at [of s w] record_result_core by (auto simp: em_inv_def job_ok_def)
  have same: "record_result t (Inl e) s = s" by (simp add: record_result_def)
  fix fs assume "FollowingWaitingTasks iter (Suc (num_created s)) (record_result t (Inl e) s) t = Some (Inr fs)"
  from FollowingWaitingTasks_result [OF core assms(3) _ this]
  have fs: "fs = {f. (t, f) \<in> (waits s)\<^sup>+}" using t by (auto simp: same st_def)
  then have "finite fs" by simp
  then have "set (iter fs) = fs" using assms(3) by (simp add: iter_ok_def)
  moreover have "t \<notin> fs" using fs waits_created [of t t s] t by auto
  ultimately show "\<forall>f \<in> set (iter fs). f \<noteq> t" by auto
qed simp

lemma ended_finish:
  assumes "FinishTask iter c True t (Inr v) s = Some (Ok, s')" "em_core s" "st s t = Some kProcessing"
  shows "st s' t = Some (GetTaskState v)"
proof -
  let ?s = "record_result t (Inr v) s"
  obtain z s2 where rel: "release_followers c t (iter (following_tasks (info_at ?s t))) ?s = (z, s2)" by fastforce
  have "quiet ?s s2"
    using release_followers_keep [OF record_result_core [OF assms(2)] _ rel] by (simp add: record_result_def)
  then have "st s2 t = Some kProcessing"
    using may_become_keeps [of "st ?s t" "st s2 t"] assms(3) by (simp add: quiet_def st_def record_result_def)
  then obtain i where "task_lookup (notify t (Inr v) s2) t = Some i" by (auto simp: st_def notify_def)
  moreover have "s' = set_state t (GetTaskState v) (notify t (Inr v) s2)"
    using assms(1) rel
    by (auto simp: FinishTask_def Let_def ConfirmTaskState_def
        split: option.splits sum.splits if_splits ExecutionManager.loop_exit.splits)
  ultimately show ?thesis using st_set_state by blast
qed

lemma link_state:
  "link_dependencies t ds x s = (Inr y, s') \<Longrightarrow> x \<in> {kCreated, kDependentTaskFailed} \<Longrightarrow>
     y \<in> {kCreated, kDependentTaskFailed}"
  by (induction ds arbitrary: x s) (auto split: if_splits)

lemma blocked_creation:
  assumes "CreateTask c t b deps s = (Inr u, s')" "d \<in> set deps"
  shows "blocked d t s'"
proof -
  obtain y s1 where l: "link_dependencies t deps kCreated s = (Inr y, s1)"
    using assms(1) by (auto simp: CreateTask_def assign_or_return_def split: if_splits sum.splits prod.splits)
  have "y \<in> {kCreated, kDependentTaskFailed}" using link_state [OF l] by simp
  moreover have "deps \<noteq> []" using assms(2) by auto
  ultimately show ?thesis
    using assms l
    by (auto simp: CreateTask_def assign_or_return_def Let_def insert_task_def notify_def blocked_def
        split: if_splits)
qed

text \<open>What holds once a task \<open>t\<close> is over and still among the session's tasks: the calls that have begun
  depend on it, and the tasks submitted after those in \<open>old\<close> wait for it or have been failed.\<close>

definition stuck_on ::
  "task_id \<Rightarrow> task_id list \<Rightarrow> ('m, 'c, 'f) session_advanced \<Rightarrow> bool" where
  "stuck_on t old s \<longleftrightarrow>
     em_inv (manager s) \<and> over (st (manager s) t) \<and> t \<in> processing_tasks s \<and>
     (\<forall>(u, deps, b) \<in> set (begun s). t \<in> deps) \<and>
     (\<exists>more. submitted s = old @ more \<and> (\<forall>x \<in> set more. blocked t x (manager s)))"

lemma deliver_sel [simp]:
  "manager (deliver f m s) = m" "begun (deliver f m s) = begun s" "submitted (deliver f m s) = submitted s"
  "decodes (deliver f m s) = decodes s"
  by (simp_all add: deliver_def Let_def)

lemma deliver_keeps:
  assumes "ends_only P (manager s) m" "t \<in> processing_tasks s" "\<not> P t" "\<forall>u. u \<noteq> t \<longrightarrow> f u \<noteq> t"
  shows "t \<in> processing_tasks (deliver f m s)"
proof -
  obtain new where "callbacks m = callbacks (manager s) @ new" "\<forall>u \<in> ended new. P u"
    using assms(1) by (auto simp: ends_only_def)
  moreover have "t \<notin> f ` U" if "\<forall>u \<in> U. P u" for U using assms(3,4) that by (metis imageE)
  ultimately show ?thesis using assms(2) by (simp add: deliver_def Let_def)
qed

lemma stuck_manager_step:
  assumes s: "stuck_on t old s" and step: "em_step iter (manager s) m" and iter: "iter_ok iter"
    and f: "\<forall>u. u \<noteq> t \<longrightarrow> f u \<noteq> t"
  shows "stuck_on t old (deliver f m s)"
proof -
  have inv: "em_inv (manager s)" using s by (simp add: stuck_on_def)
  note k = em_step_keeps [OF step inv iter]
  have "t \<in> processing_tasks (deliver f m s)"
    using deliver_keeps [OF step_spares_over [OF step inv iter]] s f by (simp add: stuck_on_def)
  moreover have t: "over (st (manager s) t)" using s by (simp add: stuck_on_def)
  moreover have "over (st m t)" using over_stays [of _ "st m t"] k t by metis
  moreover have "blocked t x m" if "blocked t x (manager s)" for x
    by (rule blocked_step [OF step inv t that])
  ultimately show ?thesis using s k by (fastforce simp: stuck_on_def)
qed

lemma prepare_prefill_same:
  "prepare_prefill env contents s = (r, s') \<Longrightarrow>
     manager s' = manager s \<and> processing_tasks s' = processing_tasks s \<and> begun s' = begun s \<and>
     submitted s' = submitted s"
  by (auto simp: prepare_prefill_def Let_def split: if_splits prod.splits)

lemma stuck_same:
  "stuck_on t old s \<Longrightarrow> manager s' = manager s \<Longrightarrow> processing_tasks s' = processing_tasks s \<Longrightarrow>
   begun s' = begun s \<Longrightarrow> submitted s' = submitted s \<Longrightarrow> stuck_on t old s'"
  by (simp add: stuck_on_def)

lemma stuck_begin:
  assumes s: "stuck_on t old s" and b: "begin_task s = (Inr (u, deps), s')" and iter: "iter_ok iter"
  shows "stuck_on t old (s'\<lparr>begun := begun s' @ [(u, deps, body)]\<rparr>)"
proof -
  let ?m = "snd (GetNewTaskId (manager s))"
  have s': "s' = s\<lparr>manager := ?m, processing_tasks := insert u (processing_tasks s)\<rparr>" "deps = processing_tasks s"
    using b by (auto simp: begin_task_def GetNewTaskId_def)
  have inv: "em_inv (manager s)" using s by (simp add: stuck_on_def)
  have "em_inv ?m" using em_step_keeps [OF em_step.new_id inv iter] by blast
  moreover have "st ?m = st (manager s)" by (simp add: GetNewTaskId_def)
  moreover have "blocked t x ?m = blocked t x (manager s)" for x by (simp add: GetNewTaskId_def)
  ultimately show ?thesis using s by (auto simp: stuck_on_def s')
qed

lemma add_task_manager:
  assumes "add_task env c (u, deps, body) s = (r, s')"
  shows "\<exists>m. CreateTask c u body (deps_order env deps) (manager s) = (r, m) \<and>
           manager s' = m \<and> processing_tasks s' = processing_tasks (deliver id m s) \<and> begun s' = begun s \<and>
           submitted s' = submitted s @ (if ok r then [u] else [])"
  using assms
  by (auto simp: add_task_def AddPrefillTask_def AddDecodeTask_def split: session_task.splits sum.splits prod.splits)

lemma stuck_add:
  assumes s: "stuck_on t old s" and b: "begun s = xs @ (u, deps, body) # ys"
    and a: "add_task env c (u, deps, body) s = (r, s')" and iter: "iter_ok (deps_order env)"
  shows "stuck_on t old (s'\<lparr>begun := xs @ ys\<rparr>)"
proof -
  obtain m where m: "CreateTask c u body (deps_order env deps) (manager s) = (r, m)" "manager s' = m"
    "processing_tasks s' = processing_tasks (deliver id m s)"
    "submitted s' = submitted s @ (if ok r then [u] else [])"
    using add_task_manager [OF a] by blast
  have "em_step (deps_order env) (manager s) m"
    using em_step.create [of "deps_order env" "manager s" c u body "deps_order env deps"] m(1) by simp
  then have k: "stuck_on t old (deliver id m s)" by (rule stuck_manager_step [OF s _ iter]) simp
  have "t \<in> deps" using s b by (auto simp: stuck_on_def)
  then have "t \<in> set (deps_order env deps)" using iter by (simp add: iter_ok_def)
  then have "blocked t u m" if "ok r"
    using blocked_creation [of c u body "deps_order env deps" "manager s" _ m t] m(1) that by (cases r) auto
  then show ?thesis using k m b by (auto simp: stuck_on_def)
qed

lemma stuck_step:
  assumes "session_step env s s'" "stuck_on t old s" "iter_ok (deps_order env)"
    and "\<forall>u. u \<noteq> t \<longrightarrow> stale_id env u \<noteq> t"
  shows "stuck_on t old s'"
  using assms(1)
proof cases
  case (prefill_rejected contents e)
  then show ?thesis using stuck_same [OF assms(2)] prepare_prefill_same by blast
next
  case (prefill_begun contents pre s1 u deps s2)
  then have "stuck_on t old s1" using stuck_same [OF assms(2)] prepare_prefill_same by blast
  then show ?thesis using stuck_begin [OF _ prefill_begun(3) assms(3)] prefill_begun(1) by simp
next
  case (decode_begun s1 u deps s2 con)
  then have "stuck_on t old s1" using stuck_same [OF assms(2), of s1] by (auto simp: prepare_decode_def)
  then show ?thesis using stuck_begin [OF _ decode_begun(3) assms(3)] decode_begun(1) by simp
next
  case (task_added xs call ys c r s1)
  then show ?thesis using stuck_add [OF assms(2) _ _ assms(3)] by (cases call) simp
next
  case cancelled
  then show ?thesis using stuck_same [OF assms(2)] by (simp add: AdvancedCancelProcess_def)
next
  case (manager_step m)
  moreover have "\<forall>u. u \<noteq> t \<longrightarrow> callback_id env s u \<noteq> t" using assms(4) by (simp add: callback_id_def)
  ultimately show ?thesis using stuck_manager_step [OF assms(2) _ assms(3)] by simp
qed

lemma stuck_run:
  "session_run env s s' \<Longrightarrow> stuck_on t old s \<Longrightarrow> iter_ok (deps_order env) \<Longrightarrow>
   \<forall>u. u \<noteq> t \<longrightarrow> stale_id env u \<noteq> t \<Longrightarrow> stuck_on t old s'"
  by (induction rule: session_run.induct) (auto intro: stuck_step)

lemma stuck_never_accepted:
  assumes "stuck_on t old s" "submitted s = old @ new" "x \<in> set new"
  shows "st (manager s) x \<in> {Some kCreated, Some kDependentTaskFailed} \<and>
         x \<notin> set (accepted (execution_thread_pool (manager s)))"
proof -
  have "blocked t x (manager s)" "em_core (manager s)" using assms by (auto simp: stuck_on_def em_inv_def)
  then show ?thesis using blocked_state [of t x "manager s"] by (auto simp: em_core_def scheduled_def)
qed

text \<open>A task that is over and has been left among the session's tasks.\<close>

lemma left_behind:
  assumes "em_step (deps_order env) (manager s) m" "em_inv (manager s)" "iter_ok (deps_order env)"
    and "over (st m t)" "t \<in> processing_tasks (deliver f m s)" "begun s = []"
    and "\<forall>u. u \<noteq> t \<longrightarrow> stale_id env u \<noteq> t" "session_run env (deliver f m s) s'"
  shows "t \<in> processing_tasks s' \<and>
         (\<exists>more. submitted s' = submitted s @ more \<and>
            (\<forall>x \<in> set more. st (manager s') x \<in> {Some kCreated, Some kDependentTaskFailed} \<and>
               x \<notin> set (accepted (execution_thread_pool (manager s')))))"
proof -
  have "em_inv m" using em_step_keeps [OF assms(1-3)] by blast
  then have "stuck_on t (submitted s) (deliver f m s)" using assms(4-6) by (simp add: stuck_on_def)
  then have stuck: "stuck_on t (submitted s) s'" by (rule stuck_run [OF assms(8) _ assms(3,7)])
  then show ?thesis using stuck_never_accepted [OF stuck] by (auto simp: stuck_on_def)
qed

text \<open>C22. A task of a session that ends with an error, a cancelled decode for example, stops the session
  for good: in every later state, whatever the session, other sessions and the worker do, no task
  that the session submitted since then, although its submission returned Ok, has been given to the
  thread pool. (No callback of another decode reads this task's id by accident.)\<close>
theorem failed_task_stops_session:
  fixes s s' :: "('m, 'c, 'f) session_advanced"
  assumes "em_reachable (deps_order env) (manager s)" "iter_ok (deps_order env)"
    and "\<forall>u. u \<noteq> t \<longrightarrow> stale_id env u \<noteq> t"
    and "t \<in> processing_tasks s" "begun s = []" "pc (manager s) w = Executing t"
    and "FinishTask (deps_order env) c True t (Inl e) (manager s) = Some (Ok, m)"
    and "session_run env (deliver (callback_id env s) (m\<lparr>pc := (pc m)(w := Returning)\<rparr>) s) s'"
  shows "t \<in> processing_tasks s' \<and>
         (\<exists>more. submitted s' = submitted s @ more \<and>
            (\<forall>x \<in> set more. st (manager s') x \<in> {Some kCreated, Some kDependentTaskFailed} \<and>
               x \<notin> set (accepted (execution_thread_pool (manager s')))))"
proof (rule left_behind [OF _ _ assms(2) _ _ assms(5,3,8)])
  let ?m = "m\<lparr>pc := (pc m)(w := Returning)\<rparr>"
  show inv: "em_inv (manager s)" by (rule em_reachable_inv [OF assms(1,2)])
  show "em_step (deps_order env) (manager s) ?m"
    using em_step.finish [OF assms(6) _ assms(7)] by (simp add: legal_result_def)
  show "over (st ?m t)" using failing_finish [OF assms(7)] by simp
  have "ends_only (\<lambda>x. x \<noteq> t) (manager s) m" by (rule failing_finish_spares [OF assms(7) inv assms(2,6)])
  then show "t \<in> processing_tasks (deliver (callback_id env s) ?m s)"
    using deliver_keeps [of _ s ?m t] assms(3,4) by (simp add: callback_id_def)
qed

text \<open>C23. The callback of a decode reads \<^verbatim>\<open>task_id\<close>, a variable of the call of \<^verbatim>\<open>RunDecodeAsync\<close> that has
  returned. When it no longer finds the id there, the decode, although it ended well, stops the
  session in the same way: it stays among the session's tasks, and nothing that the session submits
  from then on is ever given to the thread pool.\<close>
theorem stale_id_stops_session:
  fixes s s' :: "('m, 'c, 'f) session_advanced"
  assumes "em_reachable (deps_order env) (manager s)" "iter_ok (deps_order env)"
    and "t \<in> decodes s" "\<forall>u. stale_id env u \<noteq> t"
    and "t \<in> processing_tasks s" "begun s = []" "pc (manager s) w = Executing t"
    and "FinishTask (deps_order env) c True t (Inr v) (manager s) = Some (Ok, m)"
    and "GetTaskState v = kDone \<or> GetTaskState v = kMaxNumTokensReached"
    and "session_run env (deliver (callback_id env s) (m\<lparr>pc := (pc m)(w := Returning)\<rparr>) s) s'"
  shows "t \<in> processing_tasks s' \<and>
         (\<exists>more. submitted s' = submitted s @ more \<and>
            (\<forall>x \<in> set more. st (manager s') x \<in> {Some kCreated, Some kDependentTaskFailed} \<and>
               x \<notin> set (accepted (execution_thread_pool (manager s')))))"
proof (rule left_behind [OF _ _ assms(2) _ _ assms(6) _ assms(10)])
  let ?m = "m\<lparr>pc := (pc m)(w := Returning)\<rparr>"
  show inv: "em_inv (manager s)" by (rule em_reachable_inv [OF assms(1,2)])
  show "em_step (deps_order env) (manager s) ?m"
    using em_step.finish [OF assms(7) _ assms(8)] assms(9) by (simp add: legal_result_def)
  have "em_core (manager s)" "st (manager s) t = Some kProcessing"
    using inv pc_ok_at [of "manager s" w] assms(7) by (auto simp: em_inv_def job_ok_def)
  then show "over (st ?m t)" using ended_finish [OF assms(8)] assms(9) by auto
  show "t \<in> processing_tasks (deliver (callback_id env s) ?m s)"
    using assms(3-5) by (auto simp: deliver_def Let_def callback_id_def split: if_splits)
qed (use assms(4) in simp)

definition example_env :: "nat session_env" where
  "example_env =
     \<lparr>config_of = example_config, session_tokenizer = example_tokenizer, duplicate_tensor = Inr,
      deps_order = set_order, stale_id = (\<lambda>t. t)\<rparr>"

text \<open>A session whose decode, task 0, runs on the worker.\<close>

definition decoding_manager :: "((nat, unit) session_task, unit) execution_manager" where
  "decoding_manager = the (em_run set_order
     [Create Ok 0 (DecodeTask 1 None) [], Fetch 0, action.Start False 0] (ExecutionManager\<lparr>next_task_id := 1\<rparr>))"

lemma decoding_manager_run:
  "em_run set_order [Create Ok 0 (DecodeTask 1 None) [], Fetch 0, action.Start False 0]
     (ExecutionManager\<lparr>next_task_id := 1\<rparr>) = Some decoding_manager"
  by (simp add: decoding_manager_def em_eval)

lemma decoding_reachable: "em_reachable set_order decoding_manager"
proof -
  have "em_reachable set_order (snd (GetNewTaskId ExecutionManager))"
    by (rule em_reachable.step [OF em_reachable.init em_step.new_id])
  then have "em_reachable set_order (ExecutionManager\<lparr>next_task_id := 1\<rparr>)"
    by (simp add: GetNewTaskId_def ExecutionManager_def)
  then show ?thesis by (rule em_run_reachable [OF decoding_manager_run])
qed

definition decoding_session :: "(nat, unit, unit) session_advanced" where
  "decoding_session = (SessionAdvanced decoding_manager None)\<lparr>processing_tasks := {0}, submitted := [0], decodes := {0}\<rparr>"

definition cancelled_manager :: "((nat, unit) session_task, unit) execution_manager" where
  "cancelled_manager = snd (the (FinishTask set_order Ok True 0 (Inl Cancelled) decoding_manager))"

lemma cancelled_manager_eq:
  "FinishTask set_order Ok True 0 (Inl Cancelled) decoding_manager = Some (Ok, cancelled_manager)"
  by (simp add: cancelled_manager_def decoding_manager_def em_eval)

definition cancelled_session :: "(nat, unit, unit) session_advanced" where
  "cancelled_session =
     deliver (callback_id example_env decoding_session) (cancelled_manager\<lparr>pc := (pc cancelled_manager)(0 := Returning)\<rparr>) decoding_session"

lemma cancelled_session_eval:
  "processing_tasks cancelled_session = {0}" "begun cancelled_session = []"
  "submitted cancelled_session = [0]" "next_task_id (manager cancelled_session) = 1"
  "st (manager cancelled_session) 0 = Some kFailed" "task_lookup (manager cancelled_session) 1 = None"
  by (simp_all add: cancelled_session_def cancelled_manager_def decoding_session_def SessionAdvanced_def
      deliver_def callback_id_def example_env_def decoding_manager_def em_eval st_def)

definition next_session :: "(nat, unit, unit) session_advanced" where
  "next_session = snd (AdvancedRunDecodeAsync example_env Ok None cancelled_session)"

lemma next_session_eval:
  "fst (AdvancedRunDecodeAsync example_env Ok None cancelled_session) = Ok"
  "submitted next_session = [0, 1]" "begun next_session = []"
  by (simp_all add: next_session_def AdvancedRunDecodeAsync_def assign_or_return_def prepare_decode_def begin_task_def
      GetNewTaskId_def add_task_def AddDecodeTask_def decode_body_def example_env_def example_config_def
      cancelled_session_def cancelled_manager_def decoding_session_def SessionAdvanced_def
      deliver_def callback_id_def example_env_def decoding_manager_def em_eval)

text \<open>A call is a run of steps.\<close>

lemma decode_call_run:
  assumes "AdvancedRunDecodeAsync env c con s = (r, s')" "begun s = []"
  shows "session_run env s s'"
proof -
  obtain s1 where s1: "prepare_decode s = (Ok, s1)" "begun s1 = []"
    using assms(2) by (auto simp: prepare_decode_def)
  obtain t deps s2 where s2: "begin_task s1 = (Inr (t, deps), s2)" "begun s2 = []"
    using s1(2) by (auto simp: begin_task_def GetNewTaskId_def)
  let ?call = "(t, deps, decode_body env con)"
  have a: "add_task env c ?call s2 = (r, s')"
    using assms(1) s1(1) s2(1) by (simp add: AdvancedRunDecodeAsync_def assign_or_return_def)
  then have b: "begun s' = []" using add_task_manager [of env c t deps _ s2 r s'] s2(2) by auto
  let ?s = "s2\<lparr>begun := [?call]\<rparr>"
  have "session_step env s ?s" using session_step.decode_begun [OF s1(1) s2(1), of env con] s2(2) by simp
  moreover have "session_step env ?s s'"
  proof -
    have "add_task env c ?call ?s = (r, s'\<lparr>begun := [?call]\<rparr>)"
      using a by (auto simp: add_task_def deliver_def Let_def split: session_task.splits sum.splits prod.splits)
    from session_step.task_added [OF _ this, of "[]" "[]"] have "session_step env ?s (s'\<lparr>begun := []\<rparr>)"
      by simp
    moreover have "s'\<lparr>begun := []\<rparr> = s'" using b by simp
    ultimately show ?thesis by simp
  qed
  ultimately show ?thesis by (meson session_run.go session_run.stay)
qed

theorem failed_task_stops_session_witness:
  "FinishTask set_order Ok True 0 (Inl Cancelled) decoding_manager = Some (Ok, cancelled_manager) \<and>
   fst (AdvancedRunDecodeAsync example_env Ok None cancelled_session) = Ok \<and>
   submitted next_session = [0, 1] \<and> 0 \<in> processing_tasks next_session \<and>
   1 \<notin> set (accepted (execution_thread_pool (manager next_session)))"
proof -
  have run: "session_run example_env cancelled_session next_session"
    using decode_call_run [of example_env Ok None cancelled_session _ next_session] cancelled_session_eval(2)
    by (simp add: next_session_def prod_eq_iff)
  have s: "manager decoding_session = decoding_manager" "processing_tasks decoding_session = {0}"
    "begun decoding_session = []" "submitted decoding_session = [0]" "deps_order example_env = set_order"
    by (simp_all add: decoding_session_def SessionAdvanced_def example_env_def)
  have stale: "stale_id example_env = (\<lambda>t. t)" by (simp add: example_env_def)
  have "pc decoding_manager 0 = Executing 0" by (simp add: decoding_manager_def em_eval)
  then have "0 \<in> processing_tasks next_session \<and>
      (\<exists>more. submitted next_session = submitted decoding_session @ more \<and>
         (\<forall>x \<in> set more. st (manager next_session) x \<in> {Some kCreated, Some kDependentTaskFailed} \<and>
            x \<notin> set (accepted (execution_thread_pool (manager next_session)))))"
    using run decoding_reachable set_order_ok cancelled_manager_eq s stale
    by (intro failed_task_stops_session [where env = example_env and t = 0 and w = 0 and c = Ok and
          e = Cancelled and m = cancelled_manager])
       (simp_all add: cancelled_session_def)
  then show ?thesis using cancelled_manager_eq next_session_eval s by simp
qed


definition stale_env :: "nat session_env" where
  "stale_env = example_env\<lparr>stale_id := (\<lambda>_. 9)\<rparr>"

definition finished_manager :: "((nat, unit) session_task, unit) execution_manager" where
  "finished_manager = snd (the (FinishTask set_order Ok True 0 done_result decoding_manager))"

lemma finished_manager_eq:
  "FinishTask set_order Ok True 0 done_result decoding_manager = Some (Ok, finished_manager)"
  by (simp add: finished_manager_def decoding_manager_def em_eval)

definition finished_session :: "(nat, unit, unit) session_advanced" where
  "finished_session =
     deliver (callback_id stale_env decoding_session)
       (finished_manager\<lparr>pc := (pc finished_manager)(0 := Returning)\<rparr>) decoding_session"

lemma finished_begun: "begun finished_session = []"
  by (simp add: finished_session_def decoding_session_def SessionAdvanced_def)

definition unheard_session :: "(nat, unit, unit) session_advanced" where
  "unheard_session = snd (AdvancedRunDecodeAsync stale_env Ok None finished_session)"

lemma unheard_session_eval:
  "fst (AdvancedRunDecodeAsync stale_env Ok None finished_session) = Ok" "submitted unheard_session = [0, 1]"
  by (simp_all add: unheard_session_def AdvancedRunDecodeAsync_def assign_or_return_def prepare_decode_def
      begin_task_def GetNewTaskId_def add_task_def AddDecodeTask_def decode_body_def stale_env_def
      example_env_def example_config_def finished_session_def finished_manager_def decoding_session_def
      SessionAdvanced_def deliver_def callback_id_def decoding_manager_def em_eval)

theorem stale_id_stops_session_witness:
  "FinishTask set_order Ok True 0 done_result decoding_manager = Some (Ok, finished_manager) \<and>
   fst (AdvancedRunDecodeAsync stale_env Ok None finished_session) = Ok \<and>
   submitted unheard_session = [0, 1] \<and> 0 \<in> processing_tasks unheard_session \<and>
   1 \<notin> set (accepted (execution_thread_pool (manager unheard_session)))"
proof -
  have run: "session_run stale_env finished_session unheard_session"
    using decode_call_run [of stale_env Ok None finished_session _ unheard_session] finished_begun
    by (simp add: unheard_session_def prod_eq_iff)
  have s: "manager decoding_session = decoding_manager" "processing_tasks decoding_session = {0}"
    "begun decoding_session = []" "submitted decoding_session = [0]" "decodes decoding_session = {0}"
    by (simp_all add: decoding_session_def SessionAdvanced_def)
  have env: "deps_order stale_env = set_order" "stale_id stale_env = (\<lambda>_. 9)"
    by (simp_all add: stale_env_def example_env_def)
  have "\<forall>u. stale_id stale_env u \<noteq> 0" using env(2) by simp
  moreover have "pc decoding_manager 0 = Executing 0" by (simp add: decoding_manager_def em_eval)
  ultimately have "0 \<in> processing_tasks unheard_session \<and>
      (\<exists>more. submitted unheard_session = submitted decoding_session @ more \<and>
         (\<forall>x \<in> set more. st (manager unheard_session) x \<in> {Some kCreated, Some kDependentTaskFailed} \<and>
            x \<notin> set (accepted (execution_thread_pool (manager unheard_session)))))"
    using run decoding_reachable set_order_ok finished_manager_eq s env(1)
    by (intro stale_id_stops_session [where env = stale_env and t = 0 and w = 0 and c = Ok and
          v = "StateResponse kDone" and m = finished_manager])
       (simp_all add: finished_session_def)
  then show ?thesis using finished_manager_eq unheard_session_eval s by simp
qed

end
