(* ===== verification/SessionBasic.thy ===== *)
theory SessionBasic
  imports SessionUtils Scoring ThreadPool
begin

text \<open>
  Sessions that run their own jobs on a thread pool: \<^verbatim>\<open>runtime/core/session_basic.{h,cc}\<close> and the
  wrappers of \<^verbatim>\<open>runtime/core/pipeline.cc\<close>. A call prepares its input on the caller's thread and
  schedules a job; a worker of the pool runs the job (\<open>run_session_job\<close>) with the functions of \<^verbatim>\<open>Tasks\<close>.

  A callback, and the local variable that a blocking call waits for, is a number; \<open>outputs\<close> lists
  what they are given, in order. What other threads and the clock do while a job runs is its
  \<open>job_world\<close>: the readings of the clock and of the flag \<^verbatim>\<open>cancelled_\<close>, the result of creating a
  thread, and the fuel of the decode loop. \<^verbatim>\<open>last_prefill_token_id_\<close> has no initial value (\<open>None\<close>);
  reading it then is undefined. The executor's prefill takes the whole inputs (\<open>prefill_inputs\<close>).
\<close>

section \<open>State\<close>

datatype 'c sink = Local nat | Client nat | ThenDecode nat "'c constraint option"

datatype ('m, 'c) session_job =
    PrefillJob "'m input_tensor input_data list" "'c sink"
  | DecodeJob "'c constraint option" "'c sink"
  | ScoreJob "string list" bool nat

datatype 'f given = StatusOut status | ResponsesOut "'f responses status_or"

type_synonym ('m, 'v) mixed_inputs = "('m input_tensor, 'v float_tensor) executor_inputs"

record ('e, 'c, 'f, 's, 'm, 'v) basic_env =
  session_config_of :: session_config
  llm :: "('e, 'c, 'f) llm_executor"
  prefill_inputs :: "('m, 'v) mixed_inputs \<Rightarrow> bool \<Rightarrow> ('e, unit) op"
  text_tokenizer :: tokenizer
  vision_encoder :: "('m, 'v float_tensor vision_data) encoder option"
  audio_encoder :: "('m, 'v float_tensor audio_data) encoder option"
  copy_tensor :: "'m input_tensor \<Rightarrow> 'm input_tensor status_or"
  session_sampler :: "('s, 'f) sampler_fun option"
  session_floats :: "'f float_ops"
  log_likelihood :: "'f likelihood"
  unit_temperature :: 'f

record ('e, 'c, 'f, 's, 'm) session_basic =
  llm_state :: 'e
  sampler_memory :: 's
  last_prefill_token_id :: "int option"
  session_benchmark :: "benchmark_info option"
  session_detector :: stop_detector
  on_first_turn :: bool
  cancel_requested :: bool
  worker_pool :: "('m, 'c) session_job thread_pool"
  outputs :: "(nat \<times> 'f given) list"

record job_world =
  job_clock :: "nat \<Rightarrow> int"
  cancelled_at :: "nat \<Rightarrow> bool"
  cancelled_after_prefill :: bool
  thread_created :: status
  decode_fuel :: nat

text \<open>Creating a session. The factory of samplers is a function of its own; its result is an argument.\<close>

datatype backend = CPU | GPU | NPU | OtherBackend

fun add_stop_sequences :: "int list list \<Rightarrow> (stop_detector, unit) op" where
  "add_stop_sequences [] d = (Ok, d)"
| "add_stop_sequences (q # qs) d = assign_or_return (AddStopTokenSequence q) (\<lambda>_. add_stop_sequences qs) d"

definition CreateSessionBasic ::
  "backend \<Rightarrow> 'sampler status_or \<Rightarrow> session_config \<Rightarrow> int list list \<Rightarrow> 'e \<Rightarrow> 's \<Rightarrow> benchmark_info option \<Rightarrow>
   ('m, 'c) session_job thread_pool \<Rightarrow>
   ('sampler option \<times> ('e, 'c, 'f, 's, 'm) session_basic) status_or option"
where
  "CreateSessionBasic backend created cfg stop_ids e smem b pool =
     (case (if backend = CPU then try_or_return created (\<lambda>x. Inr (Some x))
            else if backend \<noteq> GPU \<and> backend \<noteq> NPU then Inl InvalidArgument
            else Inr None) of
        Inl err \<Rightarrow> Some (Inl err)
      | Inr smp \<Rightarrow>
          map_option
            (\<lambda>d0. case add_stop_sequences stop_ids d0 of
                    (Inl err, _) \<Rightarrow> Inl err
                  | (Inr _, d) \<Rightarrow> Inr (smp,
                      \<lparr>llm_state = e, sampler_memory = smem, last_prefill_token_id = None,
                       session_benchmark = b, session_detector = d, on_first_turn = True,
                       cancel_requested = False, worker_pool = pool, outputs = []\<rparr>))
            (StopTokenDetector (GetNumOutputCandidates cfg)))"

section \<open>The pipeline\<close>

text \<open>The executor of \<^verbatim>\<open>Tasks::Prefill\<close> is given the inputs themselves, not only their text.\<close>

definition mixed_executor ::
  "('e, 'c, 'f) llm_executor \<Rightarrow> (('m, 'v) mixed_inputs \<Rightarrow> bool \<Rightarrow> ('e, unit) op) \<Rightarrow> ('m, 'v) mixed_inputs \<Rightarrow>
   ('e, 'c, 'f) llm_executor"
where
  "mixed_executor x pf inputs = x\<lparr>ExecutorPrefill := (\<lambda>_. pf inputs)\<rparr>"

definition text_tensor :: "('m, 'v) mixed_inputs \<Rightarrow> int_tensor option" where
  "text_tensor inputs =
     (case text_data_of inputs of
        Some d \<Rightarrow> (case token_ids_of d of
                     IdsTensor ids \<Rightarrow> Some ([1, int (length ids)], ids) | MediaTensor _ \<Rightarrow> None)
      | None \<Rightarrow> None)"

text \<open>\<open>None\<close>: \<^verbatim>\<open>back\<close> of an empty span.\<close>

definition PipelinePrefill ::
  "('e, 'c, 'f) llm_executor \<Rightarrow> (('m, 'v) mixed_inputs \<Rightarrow> bool \<Rightarrow> ('e, unit) op) \<Rightarrow> (nat \<Rightarrow> int) \<Rightarrow>
   ('m, 'v) mixed_inputs \<Rightarrow> bool \<Rightarrow> ('e \<times> benchmark_info option \<times> nat, int) uop"
where
  "PipelinePrefill x pf clk inputs blocking st0 =
     (case (Prefill (mixed_executor x pf inputs) clk (text_tensor inputs) blocking st0
              :: 'f responses status_or \<times> _) of
        (Inl err, st1) \<Rightarrow> Some (Inl err, st1)
      | (Inr _, st1) \<Rightarrow>
          (case try_or_return (GetTextDataPtr inputs) (\<lambda>d. ReferIdsAsSpan (GetTokenIds d)) of
             Inl err \<Rightarrow> Some (Inl err, st1)
           | Inr ids \<Rightarrow> if ids = [] then None else Some (Inr (last ids), st1)))"

definition decode_env_of ::
  "('e, 'c, 'f, 's, 'm, 'v) basic_env \<Rightarrow> (nat \<Rightarrow> int) \<Rightarrow> 'c constraint option \<Rightarrow> ('e, 'c, 'f, 's) decode_env"
where
  "decode_env_of env clk con =
     \<lparr>executor = llm env, tokenizer_of = text_tokenizer env,
      num_output_candidates = GetNumOutputCandidates (session_config_of env),
      sampler = session_sampler env, constraint_of = con, float_ops_of = session_floats env, clock = clk\<rparr>"

text \<open>
  \<^verbatim>\<open>Decode\<close>, \<^verbatim>\<open>DecodeCustomSampling\<close> and their streaming forms, which give the final result to the
  callback too: the result and all messages of the callback.
\<close>

definition PipelineDecode ::
  "('e, 'c, 'f, 's) decode_env \<Rightarrow> bool \<Rightarrow> job_world \<Rightarrow> int list option \<Rightarrow> ('e, 'c, 'f, 's, 'm) session_basic \<Rightarrow>
   ('f responses status_or \<times> 'f responses status_or list \<times> ('e, 'c, 'f, 's, 'm) session_basic) outcome"
where
  "PipelineDecode denv is_streaming world ids s =
     (case Decode denv is_streaming (cancelled_at world) (decode_fuel world) (llm_state s) (sampler_memory s)
             (session_detector s) ids (session_benchmark s) of
        Returned (r, l, b) \<Rightarrow>
          Returned (r, if is_streaming then sent l @ [r] else [],
            s\<lparr>llm_state := exec (step l), sampler_memory := sampler_state (step l), session_benchmark := b\<rparr>)
      | Aborted \<Rightarrow> Aborted
      | OutOfFuel \<Rightarrow> OutOfFuel)"

section \<open>Jobs\<close>

definition BasicPrefillInternal ::
  "('e, 'c, 'f, 's, 'm, 'v) basic_env \<Rightarrow> (nat \<Rightarrow> int) \<Rightarrow> 'm input_tensor input_data list \<Rightarrow> bool \<Rightarrow>
   (('e, 'c, 'f, 's, 'm) session_basic, unit) uop"
where
  "BasicPrefillInternal env clk contents blocking s =
     (case ProcessAndCombineContents (vision_encoder env) (audio_encoder env) clk contents
             (session_benchmark s, 0) of
        None \<Rightarrow> None
      | Some (Inl err, (b, now)) \<Rightarrow> Some (Inl err, s\<lparr>session_benchmark := b\<rparr>)
      | Some (Inr inputs, (b, now)) \<Rightarrow>
          map_option
            (\<lambda>(r, (e, b, now)).
               case r of
                 Inl err \<Rightarrow> (Inl err, s\<lparr>llm_state := e, session_benchmark := b\<rparr>)
               | Inr t \<Rightarrow>
                   (Ok, s\<lparr>llm_state := e, session_benchmark := b, last_prefill_token_id := Some t\<rparr>))
            (PipelinePrefill (llm env) (prefill_inputs env) clk inputs blocking (llm_state s, b, now)))"

text \<open>The ids the decode starts with: none, or the last id of the prefill for every candidate.\<close>

definition first_ids ::
  "('e, 'c, 'f, 's, 'm, 'v) basic_env \<Rightarrow> ('e, 'c, 'f, 's, 'm) session_basic \<Rightarrow> int list option option"
where
  "first_ids env s =
     (case session_sampler env of
        None \<Rightarrow> Some None
      | Some _ \<Rightarrow> map_option (\<lambda>t. Some (replicate (GetNumOutputCandidates (session_config_of env)) t))
                    (last_prefill_token_id s))"

definition BasicDecodeInternal ::
  "('e, 'c, 'f, 's, 'm, 'v) basic_env \<Rightarrow> job_world \<Rightarrow> bool \<Rightarrow> 'c constraint option \<Rightarrow> ('e, 'c, 'f, 's, 'm) session_basic \<Rightarrow>
   ('f responses status_or \<times> 'f responses status_or list \<times> ('e, 'c, 'f, 's, 'm) session_basic) outcome"
where
  "BasicDecodeInternal env world is_streaming con s =
     (case first_ids env s of
        None \<Rightarrow> Aborted
      | Some ids \<Rightarrow> PipelineDecode (decode_env_of env (job_clock world) con) is_streaming world ids s)"

definition emit ::
  "nat \<Rightarrow> 'f given list \<Rightarrow> ('e, 'c, 'f, 's, 'm) session_basic \<Rightarrow> ('e, 'c, 'f, 's, 'm) session_basic"
where
  "emit n os s = s\<lparr>outputs := outputs s @ map (Pair n) os\<rparr>"

definition schedule_job ::
  "status \<Rightarrow> ('m, 'c) session_job \<Rightarrow> (('e, 'c, 'f, 's, 'm) session_basic, unit) op"
where
  "schedule_job created j s =
     (case Schedule created j (worker_pool s) of (r, p) \<Rightarrow> (r, s\<lparr>worker_pool := p\<rparr>))"

definition reset_cancelled ::
  "('e, 'c, 'f, 's, 'm) session_basic \<Rightarrow> ('e, 'c, 'f, 's, 'm) session_basic"
where
  "reset_cancelled s = (if cancel_requested s then s\<lparr>cancel_requested := False\<rparr> else s)"

definition BasicRunDecodeAsync ::
  "status \<Rightarrow> 'c constraint option \<Rightarrow> nat \<Rightarrow> (('e, 'c, 'f, 's, 'm) session_basic, unit) op"
where
  "BasicRunDecodeAsync created con n s = schedule_job created (DecodeJob con (Client n)) (reset_cancelled s)"

text \<open>What the lambda of a prefill does with the status, the chained callback of a stream included.\<close>

definition after_prefill ::
  "job_world \<Rightarrow> 'c sink \<Rightarrow> status \<Rightarrow> ('e, 'c, 'f, 's, 'm) session_basic \<Rightarrow> ('e, 'c, 'f, 's, 'm) session_basic"
where
  "after_prefill world dest r s =
     (let resp = try_or_return r (\<lambda>_. Inr (StateResponse kDone)) in
      case dest of
        Local n \<Rightarrow> emit n [StatusOut r] s
      | Client n \<Rightarrow> emit n [ResponsesOut resp] s
      | ThenDecode n con \<Rightarrow>
          (case resp of
             Inl err \<Rightarrow> emit n [ResponsesOut (Inl err)] s
           | Inr _ \<Rightarrow>
               if cancelled_after_prefill world then emit n [ResponsesOut (Inl Cancelled)] s
               else snd (BasicRunDecodeAsync (thread_created world) con n s)))"

definition number_of :: "'c sink \<Rightarrow> nat" where
  "number_of dest = (case dest of Local n \<Rightarrow> n | Client n \<Rightarrow> n | ThenDecode n _ \<Rightarrow> n)"

definition is_local :: "'c sink \<Rightarrow> bool" where
  "is_local dest = (case dest of Local _ \<Rightarrow> True | _ \<Rightarrow> False)"

fun run_session_job ::
  "('e, 'c, 'f, 's, 'm, 'v) basic_env \<Rightarrow> job_world \<Rightarrow> ('m, 'c) session_job \<Rightarrow>
   ('e, 'c, 'f, 's, 'm) session_basic \<Rightarrow> ('e, 'c, 'f, 's, 'm) session_basic outcome"
where
  "run_session_job env world (PrefillJob contents dest) s =
     (case BasicPrefillInternal env (job_clock world) contents (is_local dest) s of
        None \<Rightarrow> Aborted
      | Some (r, s) \<Rightarrow> Returned (after_prefill world dest r s))"
| "run_session_job env world (DecodeJob con dest) s =
     (case BasicDecodeInternal env world (\<not> is_local dest) con s of
        Returned (r, msgs, s) \<Rightarrow>
          Returned (emit (number_of dest) (map ResponsesOut (if is_local dest then [r] else msgs)) s)
      | Aborted \<Rightarrow> Aborted
      | OutOfFuel \<Rightarrow> OutOfFuel)"
| "run_session_job env world (ScoreJob targets store_token_lengths n) s =
     (case last_prefill_token_id s of
        None \<Rightarrow> Aborted
      | Some t \<Rightarrow>
          (case Score (llm env) (text_tokenizer env) (session_floats env) (log_likelihood env) targets
                  (unit_temperature env) (replicate (GetNumOutputCandidates (session_config_of env)) t)
                  store_token_lengths (llm_state s) of
             None \<Rightarrow> Aborted
           | Some (r, e) \<Rightarrow> Returned (emit n [ResponsesOut r] (s\<lparr>llm_state := e\<rparr>))))"

section \<open>The tasks of the execution manager\<close>

text \<open>
  The functions that \<^verbatim>\<open>AddPrefillTask\<close> and \<^verbatim>\<open>AddDecodeTask\<close> of
  \<^verbatim>\<open>runtime/framework/resource_management/execution_manager.cc\<close> hand to the worker. The members they
  use are the executor with its sampler, the detector, the manager's own benchmark and its last token
  id, which starts at 0; the benchmark of the session is a reference to the session's.
\<close>

record ('e, 's) manager_members =
  manager_llm :: 'e
  manager_sampler :: 's
  manager_detector :: stop_detector
  manager_benchmark :: "benchmark_info option"
  manager_last_id :: int

text \<open>The constructor logs a bad stop sequence and goes on.\<close>

fun add_good_sequences :: "int list list \<Rightarrow> stop_detector \<Rightarrow> stop_detector" where
  "add_good_sequences [] d = d"
| "add_good_sequences (q # qs) d = add_good_sequences qs (snd (AddStopTokenSequence q d))"

definition ManagerMembers :: "int list list \<Rightarrow> 'e \<Rightarrow> 's \<Rightarrow> ('e, 's) manager_members option" where
  "ManagerMembers stop_ids e smem =
     map_option
       (\<lambda>d. \<lparr>manager_llm = e, manager_sampler = smem, manager_detector = add_good_sequences stop_ids d,
             manager_benchmark = None, manager_last_id = 0\<rparr>)
       (StopTokenDetector 1)"

definition ManagerPrefillTask ::
  "('e, 'c, 'f, 's, 'm, 'v) basic_env \<Rightarrow> (nat \<Rightarrow> int) \<Rightarrow> 'm input_tensor input_data list \<Rightarrow>
   (('e, 's) manager_members \<times> benchmark_info option, 'f responses) uop"
where
  "ManagerPrefillTask env clk contents st0 =
     (case st0 of (m, b) \<Rightarrow>
        (case ManagerProcessAndCombineContents (vision_encoder env) (audio_encoder env) clk contents
                ((manager_benchmark m, 0), manager_last_id m) of
           None \<Rightarrow> None
         | Some (r, ((mb, now), t)) \<Rightarrow>
             let m = m\<lparr>manager_benchmark := mb, manager_last_id := t\<rparr> in
             (case r of
                Inl err \<Rightarrow> Some (Inl err, (m, b))
              | Inr inputs \<Rightarrow>
                  (case Prefill (mixed_executor (llm env) (prefill_inputs env) inputs) clk (text_tensor inputs) True
                          (manager_llm m, b, now) of
                     (r, (e, b, now)) \<Rightarrow> Some (r, (m\<lparr>manager_llm := e\<rparr>, b))))))"

text \<open>The decode gets the callback, so it streams; the result is given to the callback by \<open>FinishTask\<close>.\<close>

definition ManagerDecodeTask ::
  "('e, 'c, 'f, 's, 'm, 'v) basic_env \<Rightarrow> job_world \<Rightarrow> nat \<Rightarrow> 'c constraint option \<Rightarrow>
   ('e, 's) manager_members \<times> benchmark_info option \<Rightarrow>
   ('f responses status_or \<times> 'f responses status_or list \<times> ('e, 's) manager_members \<times> benchmark_info option) outcome"
where
  "ManagerDecodeTask env world n con st0 =
     (case st0 of (m, b) \<Rightarrow>
        let m = m\<lparr>manager_detector := ResetBatch n (manager_detector m)\<rparr>;
            denv = (decode_env_of env (job_clock world) con)\<lparr>num_output_candidates := n\<rparr>;
            ids = map_option (\<lambda>_. replicate n (manager_last_id m)) (session_sampler env)
        in case Decode denv True (cancelled_at world) (decode_fuel world) (manager_llm m) (manager_sampler m)
                  (manager_detector m) ids b of
             Returned (r, l, b) \<Rightarrow>
               Returned (r, sent l,
                 m\<lparr>manager_llm := exec (step l), manager_sampler := sampler_state (step l)\<rparr>, b)
           | Aborted \<Rightarrow> Aborted
           | OutOfFuel \<Rightarrow> OutOfFuel)"

section \<open>Calls\<close>

definition preprocess_turn ::
  "('e, 'c, 'f, 's, 'm, 'v) basic_env \<Rightarrow> 'm input_tensor input_data list \<Rightarrow>
   (('e, 'c, 'f, 's, 'm) session_basic, 'm input_tensor input_data list) op"
where
  "preprocess_turn env contents s =
     (let preprocess = PreprocessContents (session_config_of env) (text_tokenizer env) (copy_tensor env)
                         (session_benchmark s)
      in if (case session_benchmark s of None \<Rightarrow> False | Some b \<Rightarrow> num_prefill_tokens b > 0) then (preprocess contents, s)
         else case ApplyPromptTemplates (session_config_of env) (text_tokenizer env) (copy_tensor env)
                     contents (on_first_turn s) of
                (r, b) \<Rightarrow> (try_or_return r preprocess, s\<lparr>on_first_turn := b\<rparr>))"

definition schedule_prefill ::
  "('e, 'c, 'f, 's, 'm, 'v) basic_env \<Rightarrow> status \<Rightarrow> 'm input_tensor input_data list \<Rightarrow> 'c sink \<Rightarrow>
   (('e, 'c, 'f, 's, 'm) session_basic, unit) op"
where
  "schedule_prefill env created contents dest s =
     (if contents = [] then (Inl InvalidArgument, s)
      else assign_or_return (preprocess_turn env contents)
             (\<lambda>pre. schedule_job created (PrefillJob pre dest)) (reset_cancelled s))"

definition BasicRunPrefillAsync ::
  "('e, 'c, 'f, 's, 'm, 'v) basic_env \<Rightarrow> status \<Rightarrow> 'm input_tensor input_data list \<Rightarrow> nat \<Rightarrow>
   (('e, 'c, 'f, 's, 'm) session_basic, unit) op"
where
  "BasicRunPrefillAsync env created contents n = schedule_prefill env created contents (Client n)"

definition GenerateContentStream ::
  "('e, 'c, 'f, 's, 'm, 'v) basic_env \<Rightarrow> status \<Rightarrow> 'm input_tensor input_data list \<Rightarrow> nat \<Rightarrow> 'c constraint option \<Rightarrow>
   (('e, 'c, 'f, 's, 'm) session_basic, unit) op"
where
  "GenerateContentStream env created contents n con s =
     schedule_prefill env created contents (ThenDecode n con) (reset_cancelled s)"

text \<open>
  The blocking calls. \<open>until_done\<close> is what happens until the wait ends; the value of the local
  variable \<open>n\<close> is the last one it has been given.
\<close>

definition local_status :: "nat \<Rightarrow> ('e, 'c, 'f, 's, 'm) session_basic \<Rightarrow> status" where
  "local_status n s = fold (\<lambda>(k, out) v. case out of StatusOut r \<Rightarrow> if k = n then r else v | _ \<Rightarrow> v) (outputs s) Ok"

definition local_responses :: "nat \<Rightarrow> ('e, 'c, 'f, 's, 'm) session_basic \<Rightarrow> 'f responses status_or" where
  "local_responses n s =
     fold (\<lambda>(k, out) v. case out of ResponsesOut r \<Rightarrow> if k = n then r else v | _ \<Rightarrow> v) (outputs s) (Inl Unknown)"

definition wait_for ::
  "(('e, 'c, 'f, 's, 'm) session_basic \<Rightarrow> ('e, 'c, 'f, 's, 'm) session_basic) \<Rightarrow>
   (('e, 'c, 'f, 's, 'm) session_basic \<Rightarrow> 'a status_or) \<Rightarrow> unit \<Rightarrow> (('e, 'c, 'f, 's, 'm) session_basic, 'a) op"
where
  "wait_for until_done result u s =
     (let s = until_done s in (try_or_return (WaitUntilDone (worker_pool s)) (\<lambda>_. result s), s))"

definition BasicRunPrefill ::
  "('e, 'c, 'f, 's, 'm, 'v) basic_env \<Rightarrow> status \<Rightarrow>
   (('e, 'c, 'f, 's, 'm) session_basic \<Rightarrow> ('e, 'c, 'f, 's, 'm) session_basic) \<Rightarrow> nat \<Rightarrow>
   'm input_tensor input_data list \<Rightarrow> (('e, 'c, 'f, 's, 'm) session_basic, unit) op"
where
  "BasicRunPrefill env created until_done n contents =
     assign_or_return (schedule_prefill env created contents (Local n)) (wait_for until_done (local_status n))"

definition BasicRunDecode ::
  "status \<Rightarrow> (('e, 'c, 'f, 's, 'm) session_basic \<Rightarrow> ('e, 'c, 'f, 's, 'm) session_basic) \<Rightarrow> nat \<Rightarrow> 'c constraint option \<Rightarrow>
   (('e, 'c, 'f, 's, 'm) session_basic, 'f responses) op"
where
  "BasicRunDecode created until_done n con s =
     assign_or_return (schedule_job created (DecodeJob con (Local n)))
       (wait_for until_done (local_responses n)) (reset_cancelled s)"

definition GenerateContent ::
  "('e, 'c, 'f, 's, 'm, 'v) basic_env \<Rightarrow> status \<Rightarrow>
   (('e, 'c, 'f, 's, 'm) session_basic \<Rightarrow> ('e, 'c, 'f, 's, 'm) session_basic) \<Rightarrow> status \<Rightarrow>
   (('e, 'c, 'f, 's, 'm) session_basic \<Rightarrow> ('e, 'c, 'f, 's, 'm) session_basic) \<Rightarrow> nat \<Rightarrow> nat \<Rightarrow>
   'm input_tensor input_data list \<Rightarrow> (('e, 'c, 'f, 's, 'm) session_basic, 'f responses) op"
where
  "GenerateContent env c1 until1 c2 until2 n1 n2 contents s =
     assign_or_return (BasicRunPrefill env c1 until1 n1 contents)
       (\<lambda>_. BasicRunDecode c2 until2 n2 None) (reset_cancelled s)"

definition BasicRunTextScoring ::
  "status \<Rightarrow> (('e, 'c, 'f, 's, 'm) session_basic \<Rightarrow> ('e, 'c, 'f, 's, 'm) session_basic) \<Rightarrow> nat \<Rightarrow>
   string list \<Rightarrow> bool \<Rightarrow> (('e, 'c, 'f, 's, 'm) session_basic, 'f responses) op"
where
  "BasicRunTextScoring created until_done n targets store_token_lengths s =
     (if length targets \<noteq> 1 then (Inl InvalidArgument, s)
      else assign_or_return (schedule_job created (ScoreJob targets store_token_lengths n))
             (wait_for until_done (local_responses n)) s)"

definition BasicCancelProcess ::
  "('e, 'c, 'f, 's, 'm) session_basic \<Rightarrow> ('e, 'c, 'f, 's, 'm) session_basic"
where
  "BasicCancelProcess s = s\<lparr>cancel_requested := True\<rparr>"

definition BasicGetBenchmarkInfo :: "('e, 'c, 'f, 's, 'm) session_basic \<Rightarrow> benchmark_info status_or" where
  "BasicGetBenchmarkInfo s =
     (case session_benchmark s of Some b \<Rightarrow> Inr b | None \<Rightarrow> Inl Internal)"

section \<open>Workers\<close>

text \<open>A worker takes the oldest job, runs it and returns to its wait.\<close>

inductive worker_turn ::
  "('e, 'c, 'f, 's, 'm, 'v) basic_env \<Rightarrow> ('e, 'c, 'f, 's, 'm) session_basic \<Rightarrow>
   ('e, 'c, 'f, 's, 'm) session_basic \<Rightarrow> bool"
  for env
where
  turn: "worker_dequeue w (worker_pool s) = Some p \<Longrightarrow> worker_job w p = Some j \<Longrightarrow>
   run_session_job env world j (s\<lparr>worker_pool := p\<rparr>) = Returned s1 \<Longrightarrow>
   worker_finish w (worker_pool s1) = Some q \<Longrightarrow> worker_turn env s (s1\<lparr>worker_pool := q\<rparr>)"

text \<open>The workers run until no job is left.\<close>

inductive drained ::
  "('e, 'c, 'f, 's, 'm, 'v) basic_env \<Rightarrow> ('e, 'c, 'f, 's, 'm) session_basic \<Rightarrow>
   ('e, 'c, 'f, 's, 'm) session_basic \<Rightarrow> bool"
  for env
where
  nothing_left: "tasks (worker_pool s) = [] \<Longrightarrow> drained env s s"
| one_more: "worker_turn env s s1 \<Longrightarrow> drained env s1 s2 \<Longrightarrow> drained env s s2"

inductive_simps worker_turn_iff: "worker_turn env s s'"
inductive_cases drainedE: "drained env s s'"

section \<open>The messages of a decode\<close>

definition running_messages :: "'f responses status_or list \<Rightarrow> bool" where
  "running_messages rs \<longleftrightarrow> (\<forall>r \<in> set rs. \<exists>v. r = Inr v \<and> GetTaskState v = kProcessing)"

lemma iteration_messages:
  assumes "decode_iteration env str cancelled cnt mx l = Returned (x, l')" "running_messages (sent l)"
  shows "running_messages (sent l')"
  using assms
  by (auto simp: decode_iteration_def accumulate_def running_messages_def Let_def
      split: if_splits option.splits sum.splits)

lemma loop_messages:
  "decode_loop env str cancelled cnt mx fuel l = Returned (x, l') \<Longrightarrow> running_messages (sent l) \<Longrightarrow>
     running_messages (sent l')"
proof (induction fuel arbitrary: l)
  case (Suc fuel)
  obtain y l1 where it: "decode_iteration env str cancelled cnt mx l = Returned (y, l1)"
    using Suc.prems(1) by (auto split: outcome.splits)
  note m = iteration_messages [OF it Suc.prems(2)]
  show ?case
  proof (cases "y = Continue")
    case True
    then show ?thesis using Suc it m by simp
  next
    case False
    then have "l' = l1" using Suc.prems(1) it by (cases y) auto
    then show ?thesis using m by simp
  qed
qed simp

lemma append_sent: "sent (l\<lparr>step := x\<rparr>) = sent l"
  by simp

lemma Decode_messages:
  assumes "Decode env str cancelled fuel e ss d ids b = Returned (r, l, b')"
  shows "running_messages (sent l) \<and>
         (case r of Inl _ \<Rightarrow> True | Inr v \<Rightarrow> GetTaskState v = kDone \<or> GetTaskState v = kMaxNumTokensReached)"
proof -
  have init: "running_messages (sent (init_loop env (DecodeOneStep env e ss d b k ids)))" for b k
    by (simp add: init_loop_def running_messages_def Let_def)
  have loop: "running_messages (sent l1)"
    if "decode_loop env str cancelled cnt mx fuel (init_loop env (DecodeOneStep env e ss d b k ids)) =
          Returned (x, l1)" for b k cnt mx x l1
    using loop_messages [OF that init] .
  show ?thesis
    using assms
    by (auto simp: Decode_def init Let_def try_or_return_def dest: decode_result_state loop
        split: sum.splits outcome.splits loop_exit.splits option.splits prod.splits)
qed

lemma BasicDecodeInternal_messages:
  assumes "BasicDecodeInternal env world str con s = Returned (r, msgs, s')"
  shows "worker_pool s' = worker_pool s \<and> outputs s' = outputs s \<and>
         (case r of Inl _ \<Rightarrow> True | Inr v \<Rightarrow> GetTaskState v = kDone \<or> GetTaskState v = kMaxNumTokensReached) \<and>
         (str \<longrightarrow> (\<exists>before. msgs = before @ [r] \<and> running_messages before))"
proof -
  let ?denv = "decode_env_of env (job_clock world) con"
  obtain ids l b where d: "Decode ?denv str (cancelled_at world) (decode_fuel world) (llm_state s)
      (sampler_memory s) (session_detector s) ids (session_benchmark s) = Returned (r, l, b)"
    and s': "msgs = (if str then sent l @ [r] else [])"
      "s' = s\<lparr>llm_state := exec (step l), sampler_memory := sampler_state (step l), session_benchmark := b\<rparr>"
    using assms
    by (auto simp: BasicDecodeInternal_def PipelineDecode_def split: option.splits outcome.splits)
  then show ?thesis using Decode_messages [OF d] by auto
qed

lemma BasicPrefillInternal_cases:
  assumes "BasicPrefillInternal env clk contents blocking s = Some (r, s')"
  obtains (combine) err b now where
      "ProcessAndCombineContents (vision_encoder env) (audio_encoder env) clk contents (session_benchmark s, 0) =
         Some (Inl err, (b, now))" "r = Inl err" "s' = s\<lparr>session_benchmark := b\<rparr>"
    | (prefill) inputs b now x e b' now' where
      "ProcessAndCombineContents (vision_encoder env) (audio_encoder env) clk contents (session_benchmark s, 0) =
         Some (Inr inputs, (b, now))"
      "PipelinePrefill (llm env) (prefill_inputs env) clk inputs blocking (llm_state s, b, now) =
         Some (x, (e, b', now'))"
      "(r, s') = (case x of
         Inl err \<Rightarrow> (Inl err, s\<lparr>llm_state := e, session_benchmark := b'\<rparr>)
       | Inr t \<Rightarrow> (Ok, s\<lparr>llm_state := e, session_benchmark := b', last_prefill_token_id := Some t\<rparr>))"
proof -
  obtain y b now where y: "ProcessAndCombineContents (vision_encoder env) (audio_encoder env) clk contents
      (session_benchmark s, 0) = Some (y, (b, now))"
    using assms by (auto simp: BasicPrefillInternal_def split: option.splits)
  show thesis
  proof (cases y)
    case (Inl err)
    then show thesis using combine y assms by (simp add: BasicPrefillInternal_def)
  next
    case (Inr inputs)
    then obtain x e b' now' where
      x: "PipelinePrefill (llm env) (prefill_inputs env) clk inputs blocking (llm_state s, b, now) =
         Some (x, (e, b', now'))"
      using y assms by (auto simp: BasicPrefillInternal_def)
    show thesis by (rule prefill [of inputs b now x e b' now']) (use x y Inr assms in \<open>auto simp: BasicPrefillInternal_def\<close>)
  qed
qed

lemma BasicPrefillInternal_frame:
  assumes "BasicPrefillInternal env clk contents blocking s = Some (r, s')"
  shows "worker_pool s' = worker_pool s \<and> outputs s' = outputs s \<and> cancel_requested s' = cancel_requested s \<and>
     sampler_memory s' = sampler_memory s \<and> session_detector s' = session_detector s"
  using assms by (cases rule: BasicPrefillInternal_cases) (auto split: sum.splits)

section \<open>One callback, one end\<close>

lemma Schedule_Ok:
  "Schedule c j p = (Ok, q) \<Longrightarrow> tasks q = tasks p @ [j] \<and> accepted q = accepted p @ [j] \<and> \<not> stopped q"
  by (auto simp: Schedule_def push_task_def add_worker_def split: if_splits sum.splits)

lemma worker_turn_job:
  assumes "worker_turn env s s'"
  obtains j p q world s1 where
    "tasks (worker_pool s) = j # tasks p"
    "stopped p = stopped (worker_pool s)" "threads p = threads (worker_pool s)"
    "run_session_job env world j (s\<lparr>worker_pool := p\<rparr>) = Returned s1"
    "s' = s1\<lparr>worker_pool := q\<rparr>" "tasks q = tasks (worker_pool s1)"
    "num_active_tasks p = num_active_tasks (worker_pool s) + 1"
    "num_active_tasks q = num_active_tasks (worker_pool s1) - 1"
  using assms
proof cases
  case (turn w p j world s1 q)
  have "tasks (worker_pool s) = j # tasks p" using dequeue_moves [OF turn(2)] turn(3) by auto
  moreover have "stopped p = stopped (worker_pool s)" "threads p = threads (worker_pool s)"
    "num_active_tasks p = num_active_tasks (worker_pool s) + 1"
    using turn(2) by (auto simp: worker_dequeue_def split: if_splits list.splits)
  moreover have "tasks q = tasks (worker_pool s1)" using finish_moves [OF turn(5)] by auto
  moreover have "num_active_tasks q = num_active_tasks (worker_pool s1) - 1"
    using turn(5) by (auto simp: worker_finish_def split: if_splits worker_pc.splits)
  ultimately show ?thesis using that turn(1,4) by blast
qed

lemma no_turn: "tasks (worker_pool s) = [] \<Longrightarrow> \<not> worker_turn env s s'"
  by (auto elim!: worker_turn_job)

lemma drained_empty: "drained env s s' \<Longrightarrow> tasks (worker_pool s) = [] \<Longrightarrow> s' = s"
  by (auto elim: drainedE dest: no_turn)

lemma drained_Cons:
  "drained env s s' \<Longrightarrow> tasks (worker_pool s) \<noteq> [] \<Longrightarrow> \<exists>s1. worker_turn env s s1 \<and> drained env s1 s'"
  by (auto elim: drainedE)

lemma reset_cancelled_sel [simp]:
  "llm_state (reset_cancelled v) = llm_state v" "sampler_memory (reset_cancelled v) = sampler_memory v"
  "session_detector (reset_cancelled v) = session_detector v" "worker_pool (reset_cancelled v) = worker_pool v"
  "outputs (reset_cancelled v) = outputs v" "session_benchmark (reset_cancelled v) = session_benchmark v"
  "last_prefill_token_id (reset_cancelled v) = last_prefill_token_id v"
  "reset_cancelled (reset_cancelled v) = reset_cancelled v"
  by (simp_all add: reset_cancelled_def)

lemma schedule_prefill_Ok:
  assumes "schedule_prefill env c contents dest s = (Ok, s0)"
  obtains pre where "fst (preprocess_turn env contents (reset_cancelled s)) = Inr pre"
    "Schedule c (PrefillJob pre dest) (worker_pool s) = (Ok, worker_pool s0)"
    "outputs s0 = outputs s" "llm_state s0 = llm_state s" "sampler_memory s0 = sampler_memory s"
    "session_detector s0 = session_detector s" "session_benchmark s0 = session_benchmark s"
proof -
  obtain pre sp where pre: "preprocess_turn env contents (reset_cancelled s) = (Inr pre, sp)"
    and job: "schedule_job c (PrefillJob pre dest) sp = (Ok, s0)"
    using assms by (auto simp: schedule_prefill_def assign_or_return_def split: if_splits prod.splits sum.splits)
  have "worker_pool sp = worker_pool s" "outputs sp = outputs s" "llm_state sp = llm_state s"
    "sampler_memory sp = sampler_memory s" "session_detector sp = session_detector s"
    "session_benchmark sp = session_benchmark s"
    using pre by (auto simp: preprocess_turn_def Let_def split: if_splits prod.splits)
  then show thesis using that [of pre] pre job by (auto simp: schedule_job_def split: prod.splits)
qed

lemma Schedule_active: "Schedule c j p = (Ok, q) \<Longrightarrow> num_active_tasks q = num_active_tasks p"
  by (auto simp: Schedule_def push_task_def add_worker_def split: if_splits sum.splits)

text \<open>One job is left: a worker runs it.\<close>

lemma drained_job:
  assumes "drained env s s'" "tasks (worker_pool s) = [j]"
  obtains p q world t sa where
    "run_session_job env world j (s\<lparr>worker_pool := p\<rparr>) = Returned t" "tasks p = []"
    "stopped p = stopped (worker_pool s)" "threads p = threads (worker_pool s)"
    "num_active_tasks p = num_active_tasks (worker_pool s) + 1"
    "sa = t\<lparr>worker_pool := q\<rparr>" "tasks q = tasks (worker_pool t)"
    "num_active_tasks q = num_active_tasks (worker_pool t) - 1" "drained env sa s'"
proof -
  obtain sa where a: "worker_turn env s sa" "drained env sa s'" using drained_Cons [OF assms(1)] assms(2) by auto
  from a(1) show thesis by (rule worker_turn_job) (use that a(2) assms(2) in auto)
qed

text \<open>What a client may expect of the calls of its callback: running messages, then one end.\<close>

definition one_end :: "'f given list \<Rightarrow> bool" where
  "one_end os \<longleftrightarrow>
     (\<exists>before r. os = map ResponsesOut (before @ [r]) \<and> running_messages before \<and>
        (case r of Inl _ \<Rightarrow> True | Inr v \<Rightarrow> IsTaskEndState (GetTaskState v)))"

lemma one_end_error: "one_end [ResponsesOut (Inl e)]"
proof -
  have "[ResponsesOut (Inl e)] = map ResponsesOut ([] @ [Inl e]) \<and> running_messages []"
    by (simp add: running_messages_def)
  then show ?thesis unfolding one_end_def by (metis sum.simps(5))
qed

lemma decode_job_outputs:
  assumes "run_session_job env world (DecodeJob con (Client n)) s = Returned s'"
  shows "worker_pool s' = worker_pool s \<and> (\<exists>os. outputs s' = outputs s @ map (Pair n) os \<and> one_end os)"
proof -
  obtain r msgs s1 where d: "BasicDecodeInternal env world True con s = Returned (r, msgs, s1)"
    and s': "s' = emit n (map ResponsesOut msgs) s1"
    using assms by (auto simp: is_local_def number_of_def split: outcome.splits)
  note m = BasicDecodeInternal_messages [OF d]
  then have "one_end (map ResponsesOut msgs)"
    by (fastforce simp: one_end_def IsTaskEndState_def split: sum.splits)
  moreover have "outputs s' = outputs s @ map (Pair n) (map ResponsesOut msgs)" "worker_pool s' = worker_pool s"
    using m s' by (simp_all add: emit_def)
  ultimately show ?thesis by blast
qed

lemma prefill_job_outputs:
  assumes "run_session_job env world (PrefillJob contents (ThenDecode n con)) s = Returned s'"
    "\<not> stopped (worker_pool s)" "threads (worker_pool s) \<noteq> []"
  shows "(tasks (worker_pool s') = tasks (worker_pool s) \<and>
            (\<exists>e. outputs s' = outputs s @ [(n, ResponsesOut (Inl e))])) \<or>
         (tasks (worker_pool s') = tasks (worker_pool s) @ [DecodeJob con (Client n)] \<and> outputs s' = outputs s)"
proof -
  obtain r s1 where p: "BasicPrefillInternal env (job_clock world) contents False s = Some (r, s1)"
    and s': "s' = after_prefill world (ThenDecode n con) r s1"
    using assms(1) by (auto simp: is_local_def split: option.splits)
  note f = BasicPrefillInternal_frame [OF p]
  show ?thesis
  proof (cases "ok r \<and> \<not> cancelled_after_prefill world")
    case True
    have "tasks x = tasks (worker_pool s) @ [j]" if "Schedule c j (worker_pool s) = (y, x)" for c j x y
      using assms(2,3) that by (auto simp: Schedule_def push_task_def add_worker_def split: sum.splits if_splits)
    then show ?thesis
      using True f s'
      by (cases r) (auto simp: after_prefill_def BasicRunDecodeAsync_def schedule_job_def reset_cancelled_def
          split: prod.splits)
  next
    case False
    then show ?thesis using f s' by (cases r) (auto simp: after_prefill_def emit_def)
  qed
qed

text \<open>C4. Streaming: when \<^verbatim>\<open>GenerateContentStream\<close> returns Ok and the workers have run what is in the pool,
  the callback has been given any number of running messages and then exactly one end, an error or
  responses in an end state, and nothing else has been given to anyone. (Before the call no job waits in the pool; nothing shuts it
  down meanwhile.)\<close>
theorem stream_ends_once:
  assumes "GenerateContentStream env c contents n con s = (Ok, s1)" "drained env s1 s2"
    and "pool_inv (worker_pool s)" "tasks (worker_pool s) = []"
  shows "\<exists>os. outputs s2 = outputs s @ map (Pair n) os \<and> one_end os"
proof -
  obtain pre where s1: "Schedule c (PrefillJob pre (ThenDecode n con)) (worker_pool s) = (Ok, worker_pool s1)"
    "outputs s1 = outputs s"
    using schedule_prefill_Ok [OF assms(1) [unfolded GenerateContentStream_def]] unfolding reset_cancelled_sel by metis
  let ?j = "PrefillJob pre (ThenDecode n con)"
  have inv: "pool_inv (worker_pool s1)" using pool_inv_schedule [OF assms(3), of c ?j] s1(1) by simp
  have q: "tasks (worker_pool s1) = [?j]" "\<not> stopped (worker_pool s1)" "accepted (worker_pool s1) \<noteq> []"
    using Schedule_Ok [OF s1(1)] assms(4) by simp_all
  then have "threads (worker_pool s1) \<noteq> []" using inv by (auto simp: pool_inv_def)
  obtain p q1 world t sa where j: "run_session_job env world ?j (s1\<lparr>worker_pool := p\<rparr>) = Returned t" "tasks p = []"
    "stopped p = stopped (worker_pool s1)" "threads p = threads (worker_pool s1)"
    "sa = t\<lparr>worker_pool := q1\<rparr>" "tasks q1 = tasks (worker_pool t)" "drained env sa s2"
    by (rule drained_job [OF assms(2) q(1)])
  have "(tasks (worker_pool t) = [] \<and> (\<exists>e. outputs t = outputs s @ [(n, ResponsesOut (Inl e))])) \<or>
        (tasks (worker_pool t) = [DecodeJob con (Client n)] \<and> outputs t = outputs s)"
    using prefill_job_outputs [OF j(1)] j(2-4) q(2) s1(2) \<open>threads (worker_pool s1) \<noteq> []\<close> by auto
  then show ?thesis
  proof
    assume t: "tasks (worker_pool t) = [] \<and> (\<exists>e. outputs t = outputs s @ [(n, ResponsesOut (Inl e))])"
    then obtain e where "outputs sa = outputs s @ map (Pair n) [ResponsesOut (Inl e)]" using j(5) by auto
    moreover have "s2 = sa" using drained_empty [OF j(7)] t j(5,6) by simp
    ultimately show ?thesis using one_end_error by metis
  next
    assume t: "tasks (worker_pool t) = [DecodeJob con (Client n)] \<and> outputs t = outputs s"
    then have "tasks (worker_pool sa) = [DecodeJob con (Client n)]" using j(5,6) by simp
    then obtain p' q' w' t' sb where j': "run_session_job env w' (DecodeJob con (Client n)) (sa\<lparr>worker_pool := p'\<rparr>) = Returned t'"
      "tasks p' = []" "sb = t'\<lparr>worker_pool := q'\<rparr>" "tasks q' = tasks (worker_pool t')" "drained env sb s2"
      by (rule drained_job [OF j(7)])
    have d: "worker_pool t' = p'" "\<exists>os. outputs t' = outputs s @ map (Pair n) os \<and> one_end os"
      using decode_job_outputs [OF j'(1)] t j(5) by auto
    moreover have "s2 = sb" using drained_empty [OF j'(5)] j'(2-4) d(1) by simp
    ultimately show ?thesis using j'(3) by simp
  qed
qed

section \<open>A cancellation during a blocking prefill\<close>

lemma reset_cancelled_after [simp]: "reset_cancelled (BasicCancelProcess s) = reset_cancelled s"
  by (simp add: reset_cancelled_def BasicCancelProcess_def)

text \<open>C37. \<^verbatim>\<open>CancelProcess\<close> during the prefill of \<^verbatim>\<open>GenerateContent\<close> is lost: the call goes on to decode
  exactly as if nobody had cancelled, because \<^verbatim>\<open>RunDecode\<close> clears the flag first. In the streaming call
  the same cancellation is heard: the callback gets a Cancelled error, and nothing is decoded.\<close>
theorem cancel_in_blocking_prefill_is_lost:
  assumes "fst (BasicRunPrefill env c1 until1 n1 contents (reset_cancelled s)) = Ok"
  shows "GenerateContent env c1 (BasicCancelProcess \<circ> until1) c2 until2 n1 n2 contents s =
           GenerateContent env c1 until1 c2 until2 n1 n2 contents s \<and>
         (cancelled_after_prefill world \<longrightarrow>
            BasicPrefillInternal env (job_clock world) pre False t = Some (Ok, t') \<longrightarrow>
            run_session_job env world (PrefillJob pre (ThenDecode n con)) t =
              Returned (t'\<lparr>outputs := outputs t @ [(n, ResponsesOut (Inl Cancelled))]\<rparr>))"
proof
  obtain s0 where s0: "schedule_prefill env c1 contents (Local n1) (reset_cancelled s) = (Ok, s0)"
    using assms by (auto simp: BasicRunPrefill_def assign_or_return_def split: prod.splits sum.splits)
  let ?s1 = "until1 s0"
  have w: "WaitUntilDone (worker_pool ?s1) = Ok" "local_status n1 ?s1 = Ok"
    using assms s0
    by (auto simp: BasicRunPrefill_def assign_or_return_def wait_for_def Let_def WaitUntilDone_def
        try_or_return_def split: if_splits sum.splits)
  have "local_status n1 (BasicCancelProcess ?s1) = local_status n1 ?s1"
    "worker_pool (BasicCancelProcess ?s1) = worker_pool ?s1"
    by (simp_all add: local_status_def BasicCancelProcess_def)
  then show "GenerateContent env c1 (BasicCancelProcess \<circ> until1) c2 until2 n1 n2 contents s =
      GenerateContent env c1 until1 c2 until2 n1 n2 contents s"
    using s0 w by (simp add: GenerateContent_def BasicRunPrefill_def BasicRunDecode_def assign_or_return_def
        wait_for_def Let_def)
  show "cancelled_after_prefill world \<longrightarrow> BasicPrefillInternal env (job_clock world) pre False t = Some (Ok, t') \<longrightarrow>
      run_session_job env world (PrefillJob pre (ThenDecode n con)) t =
        Returned (t'\<lparr>outputs := outputs t @ [(n, ResponsesOut (Inl Cancelled))]\<rparr>)"
    using BasicPrefillInternal_frame by (fastforce simp: after_prefill_def is_local_def emit_def)
qed

section \<open>A blocking turn\<close>

lemma combined_ids:
  assumes "ProcessAndCombineContents vis aud clk cs x = Some (Inr inputs, y)"
  shows "\<exists>ids. ids \<noteq> [] \<and> text_data_of inputs = Some (ExecutorTextData (IdsTensor ids))"
  using assms
  by (auto simp: ProcessAndCombineContents_def bind_op_Inr_iff try_or_return_Inr_iff combine_parts_def
      make_inputs_def TokenIdsToTensorBuffer_def ExecutorInputs_def split: prod.splits if_splits)

lemma PipelinePrefill_Ok:
  assumes "PipelinePrefill x pf clk inputs True (e0, b, now) = Some (Inr t, (e, b', now'))"
    and "text_data_of inputs = Some (ExecutorTextData (IdsTensor ids))"
  shows "t = last ids \<and> pf inputs True e0 = (Ok, e)"
  using assms
  by (auto simp: PipelinePrefill_def text_tensor_def ExecutorTextData_def Prefill_def mixed_executor_def
      assign_or_return_def Let_def GetTextDataPtr_def optional_ptr_def ReferIdsAsSpan_def GetTokenIds_def
      prod_eq_iff split: prod.splits sum.splits if_splits option.splits)

lemma prefill_stores_last_id:
  assumes "BasicPrefillInternal env clk pre True s = Some (Ok, s')"
  shows "\<exists>inputs ids x. ProcessAndCombineContents (vision_encoder env) (audio_encoder env) clk pre
             (session_benchmark s, 0) = Some (Inr inputs, x) \<and>
           text_data_of inputs = Some (ExecutorTextData (IdsTensor ids)) \<and> ids \<noteq> [] \<and>
           prefill_inputs env inputs True (llm_state s) = (Ok, llm_state s') \<and>
           last_prefill_token_id s' = Some (last ids)"
  using assms
proof (cases rule: BasicPrefillInternal_cases)
  case (prefill inputs b now x e b' now')
  then obtain ids where ids: "text_data_of inputs = Some (ExecutorTextData (IdsTensor ids))" "ids \<noteq> []"
    using combined_ids by blast
  obtain t where t: "x = Inr t" using prefill(3) by (cases x) auto
  show ?thesis
    using PipelinePrefill_Ok [OF prefill(2) [unfolded t] ids(1)] prefill(1,3) ids t by auto
qed simp

lemma run_local_job:
  assumes "drained env s s'" "tasks (worker_pool s) = [j]" "num_active_tasks (worker_pool s) = 0"
    and "\<And>world t p. run_session_job env world j (s\<lparr>worker_pool := p\<rparr>) = Returned t \<Longrightarrow> worker_pool t = p"
  shows "\<exists>world t p q. run_session_job env world j (s\<lparr>worker_pool := p\<rparr>) = Returned t \<and> s' = t\<lparr>worker_pool := q\<rparr> \<and> is_done q"
proof -
  obtain p q world t sa where j: "run_session_job env world j (s\<lparr>worker_pool := p\<rparr>) = Returned t" "tasks p = []"
    "num_active_tasks p = num_active_tasks (worker_pool s) + 1" "sa = t\<lparr>worker_pool := q\<rparr>"
    "tasks q = tasks (worker_pool t)" "num_active_tasks q = num_active_tasks (worker_pool t) - 1" "drained env sa s'"
    by (rule drained_job [OF assms(1,2)])
  have "is_done q" using j assms(3,4) by (simp add: is_done_def)
  moreover have "s' = sa" using drained_empty [OF j(7)] j(4) \<open>is_done q\<close> by (simp add: is_done_def)
  ultimately show ?thesis using j(1,4) by blast
qed

lemma local_prefill_pool:
  "run_session_job env world (PrefillJob pre (Local n)) (s\<lparr>worker_pool := p\<rparr>) = Returned t \<Longrightarrow> worker_pool t = p"
  using BasicPrefillInternal_frame by (fastforce simp: after_prefill_def emit_def split: option.splits)

lemma local_decode_pool:
  "run_session_job env world (DecodeJob con (Local n)) (s\<lparr>worker_pool := p\<rparr>) = Returned t \<Longrightarrow> worker_pool t = p"
  using BasicDecodeInternal_messages by (fastforce simp: emit_def split: outcome.splits)

text \<open>The two waits of a blocking turn.\<close>

lemma waited_prefill:
  assumes "schedule_prefill env c contents (Local n) s = (Ok, s0)" "drained env s0 s1"
    "local_status n s1 = Ok" "is_done (worker_pool s)"
  shows "\<exists>pre (w :: job_world) inputs ids x. fst (preprocess_turn env contents (reset_cancelled s)) = Inr pre \<and>
      ProcessAndCombineContents (vision_encoder env) (audio_encoder env) (job_clock w) pre
        (session_benchmark s, 0) = Some (Inr inputs, x) \<and>
      text_data_of inputs = Some (ExecutorTextData (IdsTensor ids)) \<and>
      prefill_inputs env inputs True (llm_state s) = (Ok, llm_state s1) \<and>
      last_prefill_token_id s1 = Some (last ids) \<and> sampler_memory s1 = sampler_memory s \<and>
      session_detector s1 = session_detector s \<and> is_done (worker_pool s1)"
proof -
  obtain pre where s0: "fst (preprocess_turn env contents (reset_cancelled s)) = Inr pre"
    "Schedule c (PrefillJob pre (Local n)) (worker_pool s) = (Ok, worker_pool s0)"
    "outputs s0 = outputs s" "llm_state s0 = llm_state s" "sampler_memory s0 = sampler_memory s"
    "session_detector s0 = session_detector s" "session_benchmark s0 = session_benchmark s"
    by (rule schedule_prefill_Ok [OF assms(1)])
  have q0: "tasks (worker_pool s0) = [PrefillJob pre (Local n)]" "num_active_tasks (worker_pool s0) = 0"
    using Schedule_Ok [OF s0(2)] Schedule_active [OF s0(2)] assms(4) by (simp_all add: is_done_def)
  obtain w p t q where t: "run_session_job env w (PrefillJob pre (Local n)) (s0\<lparr>worker_pool := p\<rparr>) = Returned t"
    "s1 = t\<lparr>worker_pool := q\<rparr>" "is_done q"
    using run_local_job [OF assms(2) q0] local_prefill_pool by blast
  obtain r t1 where t1: "BasicPrefillInternal env (job_clock w) pre True (s0\<lparr>worker_pool := p\<rparr>) = Some (r, t1)"
    "t = t1\<lparr>outputs := outputs t1 @ [(n, StatusOut r)]\<rparr>"
    using t(1) by (auto simp: is_local_def after_prefill_def emit_def split: option.splits)
  have "local_status n s1 = r" using t(2) t1(2) by (simp add: local_status_def)
  then have r: "r = Ok" using assms(3) by simp
  obtain inputs ids x where pf: "ProcessAndCombineContents (vision_encoder env) (audio_encoder env)
      (job_clock w) pre (session_benchmark s, 0) = Some (Inr inputs, x)"
    "text_data_of inputs = Some (ExecutorTextData (IdsTensor ids))"
    "prefill_inputs env inputs True (llm_state s) = (Ok, llm_state t1)" "last_prefill_token_id t1 = Some (last ids)"
    using prefill_stores_last_id [OF t1(1) [unfolded r]] s0(4,7) by auto
  have "llm_state s1 = llm_state t1" "last_prefill_token_id s1 = last_prefill_token_id t1"
    "sampler_memory s1 = sampler_memory s" "session_detector s1 = session_detector s" "worker_pool s1 = q"
    using BasicPrefillInternal_frame [OF t1(1)] t(2) t1(2) s0(5,6) by simp_all
  then show ?thesis using s0(1) pf t(3) by metis
qed

lemma waited_decode:
  assumes "schedule_job c (DecodeJob con (Local n)) s = (Ok, t0)" "drained env t0 s2" "is_done (worker_pool s)"
    "last_prefill_token_id s = Some t"
  shows "\<exists>(w :: job_world) b r l b'. Decode (decode_env_of env (job_clock w) con) False (cancelled_at w) (decode_fuel w) (llm_state s)
        (sampler_memory s) (session_detector s)
        (map_option (\<lambda>_. replicate (GetNumOutputCandidates (session_config_of env)) t) (session_sampler env)) b =
        Returned (r, l, b') \<and>
      llm_state s2 = exec (step l) \<and> local_responses n s2 = r \<and> is_done (worker_pool s2)"
proof -
  have t0: "Schedule c (DecodeJob con (Local n)) (worker_pool s) = (Ok, worker_pool t0)"
    "t0 = s\<lparr>worker_pool := worker_pool t0\<rparr>"
    using assms(1) by (auto simp: schedule_job_def split: prod.splits)
  have q: "tasks (worker_pool t0) = [DecodeJob con (Local n)]" "num_active_tasks (worker_pool t0) = 0"
    using Schedule_Ok [OF t0(1)] Schedule_active [OF t0(1)] assms(3) by (simp_all add: is_done_def)
  obtain w p u q2 where u: "run_session_job env w (DecodeJob con (Local n)) (t0\<lparr>worker_pool := p\<rparr>) = Returned u"
    "s2 = u\<lparr>worker_pool := q2\<rparr>" "is_done q2"
    using run_local_job [OF assms(2) q] local_decode_pool by blast
  obtain r m u1 where d: "BasicDecodeInternal env w False con (t0\<lparr>worker_pool := p\<rparr>) = Returned (r, m, u1)"
    and u1: "u = u1\<lparr>outputs := outputs u1 @ [(n, ResponsesOut r)]\<rparr>"
    using u(1) by (auto simp: is_local_def number_of_def emit_def split: outcome.splits)
  have sel: "llm_state t0 = llm_state s" "sampler_memory t0 = sampler_memory s"
    "session_detector t0 = session_detector s" "last_prefill_token_id t0 = Some t"
    using assms(4) by (subst t0(2), simp)+
  have "first_ids env (t0\<lparr>worker_pool := p\<rparr>) =
      Some (map_option (\<lambda>_. replicate (GetNumOutputCandidates (session_config_of env)) t) (session_sampler env))"
    using sel(4) by (simp add: first_ids_def split: option.split)
  then obtain l b' where "Decode (decode_env_of env (job_clock w) con) False (cancelled_at w) (decode_fuel w)
      (llm_state s) (sampler_memory s) (session_detector s)
      (map_option (\<lambda>_. replicate (GetNumOutputCandidates (session_config_of env)) t) (session_sampler env))
      (session_benchmark t0) = Returned (r, l, b')" "llm_state u1 = exec (step l)"
    using d sel by (auto simp: BasicDecodeInternal_def PipelineDecode_def split: outcome.splits prod.splits)
  moreover have "local_responses n s2 = r" using u(2) u1 by (simp add: local_responses_def)
  moreover have "llm_state s2 = exec (step l)" using \<open>llm_state u1 = exec (step l)\<close> u(2) u1 by simp
  moreover have "is_done (worker_pool s2)" using u(2,3) by simp
  ultimately show ?thesis by blast
qed

text \<open>C3. A blocking turn on an idle session: when the prefill succeeds, \<^verbatim>\<open>GenerateContent\<close> gives the
  executor the combined inputs of the templated and tokenized contents, once, and then returns what
  \<^verbatim>\<open>Tasks::Decode\<close> returns on the state of the executor after this prefill, starting, when the session
  samples by itself, from the last token id of the inputs for every candidate.\<close>
theorem blocking_turn_decodes_after_prompt:
  assumes "schedule_prefill env c1 contents (Local n1) (reset_cancelled s) = (Ok, s0)" "drained env s0 s1"
    and "local_status n1 s1 = Ok"
    and "schedule_job c2 (DecodeJob None (Local n2)) (reset_cancelled s1) = (Ok, t0)" "drained env t0 s2"
    and "is_done (worker_pool s)"
  shows "\<exists>pre (w1 :: job_world) inputs ids x e (w2 :: job_world) b r l b'.
           fst (preprocess_turn env contents (reset_cancelled s)) = Inr pre \<and>
           ProcessAndCombineContents (vision_encoder env) (audio_encoder env) (job_clock w1) pre
             (session_benchmark s, 0) = Some (Inr inputs, x) \<and>
           text_data_of inputs = Some (ExecutorTextData (IdsTensor ids)) \<and>
           prefill_inputs env inputs True (llm_state s) = (Ok, e) \<and>
           Decode (decode_env_of env (job_clock w2) None) False (cancelled_at w2) (decode_fuel w2) e
             (sampler_memory s) (session_detector s)
             (map_option (\<lambda>_. replicate (GetNumOutputCandidates (session_config_of env)) (last ids))
                (session_sampler env)) b = Returned (r, l, b') \<and>
           GenerateContent env c1 (\<lambda>_. s1) c2 (\<lambda>_. s2) n1 n2 contents s = (r, s2) \<and>
           llm_state s2 = exec (step l)"
proof -
  obtain pre and w1 :: job_world and inputs ids x where p: "fst (preprocess_turn env contents (reset_cancelled s)) = Inr pre"
    "ProcessAndCombineContents (vision_encoder env) (audio_encoder env) (job_clock w1) pre
       (session_benchmark s, 0) = Some (Inr inputs, x)"
    "text_data_of inputs = Some (ExecutorTextData (IdsTensor ids))"
    "prefill_inputs env inputs True (llm_state s) = (Ok, llm_state s1)"
    "last_prefill_token_id s1 = Some (last ids)" "sampler_memory s1 = sampler_memory s"
    "session_detector s1 = session_detector s" "is_done (worker_pool s1)"
    using waited_prefill [OF assms(1-3)] assms(6) unfolding reset_cancelled_sel by blast
  obtain w2 :: job_world and b r l b' where d: "Decode (decode_env_of env (job_clock w2) None) False (cancelled_at w2) (decode_fuel w2)
      (llm_state s1) (sampler_memory s) (session_detector s)
      (map_option (\<lambda>_. replicate (GetNumOutputCandidates (session_config_of env)) (last ids)) (session_sampler env)) b =
      Returned (r, l, b')"
    "llm_state s2 = exec (step l)" "local_responses n2 s2 = r" "is_done (worker_pool s2)"
    using waited_decode [OF assms(4,5)] p(5,8) unfolding reset_cancelled_sel p(6,7) by blast
  have "BasicRunPrefill env c1 (\<lambda>_. s1) n1 contents (reset_cancelled s) = (Ok, s1)"
    using assms(1,3) p(8) by (simp add: BasicRunPrefill_def assign_or_return_def wait_for_def WaitUntilDone_def)
  moreover have "BasicRunDecode c2 (\<lambda>_. s2) n2 None s1 = (r, s2)"
    using assms(4) d(3,4) by (simp add: BasicRunDecode_def assign_or_return_def wait_for_def WaitUntilDone_def)
  ultimately have "GenerateContent env c1 (\<lambda>_. s1) c2 (\<lambda>_. s2) n1 n2 contents s = (r, s2)"
    by (simp add: GenerateContent_def assign_or_return_def)
  then show ?thesis using p(1-4) d(1,2) by blast
qed

section \<open>Concrete turns\<close>

text \<open>One turn of worker \<open>w\<close> as a function. (Jobs cannot be compared, so neither can workers.)\<close>

lemma worker_dequeue_code [code]:
  "worker_dequeue w p =
     (if w < length (workers p) then
        (case workers p ! w of
           Waiting \<Rightarrow>
             (case tasks p of [] \<Rightarrow> None
              | t # ts \<Rightarrow> Some (p\<lparr>tasks := ts, num_active_tasks := num_active_tasks p + 1,
                                  workers := (workers p)[w := Running t], started := started p @ [t]\<rparr>))
         | _ \<Rightarrow> None)
      else None)"
  by (simp add: worker_dequeue_def split: worker_pc.splits)

definition turn_of ::
  "('e, 'c, 'f, 's, 'm, 'v) basic_env \<Rightarrow> job_world \<Rightarrow> nat \<Rightarrow> ('e, 'c, 'f, 's, 'm) session_basic \<Rightarrow>
   ('e, 'c, 'f, 's, 'm) session_basic option"
where
  "turn_of env world w s =
     (case worker_dequeue w (worker_pool s) of
        None \<Rightarrow> None
      | Some p \<Rightarrow>
          (case worker_job w p of
             None \<Rightarrow> None
           | Some j \<Rightarrow>
               (case run_session_job env world j (s\<lparr>worker_pool := p\<rparr>) of
                  Returned s1 \<Rightarrow> map_option (\<lambda>q. s1\<lparr>worker_pool := q\<rparr>) (worker_finish w (worker_pool s1))
                | _ \<Rightarrow> None)))"

lemma turn_of_turn: "turn_of env world w s = Some s' \<Longrightarrow> worker_turn env s s'"
  by (auto simp: turn_of_def split: option.splits outcome.splits intro: worker_turn.turn)

definition demo_session_env :: "(int list list \<times> int, unit, int, unit, nat, int) basic_env" where
  "demo_session_env =
     \<lparr>session_config_of = example_config, llm = script_executor 100,
      prefill_inputs = (\<lambda>i blocking e. (Ok, (fst e, snd e + 3))), text_tokenizer = example_tokenizer,
      vision_encoder = None, audio_encoder = None, copy_tensor = Inr, session_sampler = None,
      session_floats = int_floats, log_likelihood = (\<lambda>_ _ _. Inl Unimplemented), unit_temperature = 1\<rparr>"

definition demo_session :: "(int list list \<times> int, unit, int, unit, nat) session_basic" where
  "demo_session =
     \<lparr>llm_state = ([[5], [9]], 0), sampler_memory = (), last_prefill_token_id = None,
      session_benchmark = None, session_detector = demo_detector [[9]] 1, on_first_turn = True,
      cancel_requested = False, worker_pool = ThreadPool 1, outputs = []\<rparr>"

definition demo_world :: job_world where
  "demo_world = \<lparr>job_clock = int, cancelled_at = (\<lambda>_. False), cancelled_after_prefill = False,
     thread_created = Ok, decode_fuel = 100\<rparr>"

definition streaming1 :: "(int list list \<times> int, unit, int, unit, nat) session_basic" where
  "streaming1 = snd (GenerateContentStream demo_session_env Ok [InputText (Raw ''hi'')] 7 None demo_session)"

definition streaming2 :: "(int list list \<times> int, unit, int, unit, nat) session_basic" where
  "streaming2 = the (turn_of demo_session_env demo_world 0 streaming1)"

definition streaming3 :: "(int list list \<times> int, unit, int, unit, nat) session_basic" where
  "streaming3 = the (turn_of demo_session_env demo_world 0 streaming2)"

lemma streaming_run:
  "fst (GenerateContentStream demo_session_env Ok [InputText (Raw ''hi'')] 7 None demo_session) = Ok"
  "\<not> Option.is_none (turn_of demo_session_env demo_world 0 streaming1)"
  "\<not> Option.is_none (turn_of demo_session_env demo_world 0 streaming2)"
  "length (tasks (worker_pool streaming3)) = 0"
  "length (outputs streaming3) = 2"
  by code_simp+

lemma is_none_the: "\<not> Option.is_none x \<Longrightarrow> x = Some (the x)"
  by (cases x) simp_all

theorem stream_ends_once_witness:
  "length (outputs streaming3) = 2 \<and> (\<exists>os. outputs streaming3 = map (Pair 7) os \<and> one_end os)"
proof -
  have "worker_turn demo_session_env streaming1 streaming2" "worker_turn demo_session_env streaming2 streaming3"
    using turn_of_turn is_none_the streaming_run(2,3) unfolding streaming2_def streaming3_def by blast+
  moreover have "drained demo_session_env streaming3 streaming3"
    using streaming_run(4) by (intro drained.nothing_left) simp
  ultimately have "drained demo_session_env streaming1 streaming3" using drained.one_more by blast
  moreover have "GenerateContentStream demo_session_env Ok [InputText (Raw ''hi'')] 7 None demo_session =
      (Ok, streaming1)"
    using streaming_run(1) by (simp add: streaming1_def prod_eq_iff)
  moreover have "pool_inv (worker_pool demo_session)" "tasks (worker_pool demo_session) = []"
    "outputs demo_session = []"
    by (simp_all add: demo_session_def pool_inv_init) (simp add: ThreadPool_def)
  ultimately show ?thesis using stream_ends_once [of demo_session_env Ok "[InputText (Raw ''hi'')]" 7 None
      demo_session streaming1 streaming3] streaming_run(5) by simp
qed

definition hear_cancel :: job_world where
  "hear_cancel = demo_world\<lparr>cancelled_after_prefill := True\<rparr>"

abbreviation one_turn ::
  "(int list list \<times> int, unit, int, unit, nat) session_basic \<Rightarrow> (int list list \<times> int, unit, int, unit, nat) session_basic"
where
  "one_turn s \<equiv> the (turn_of demo_session_env demo_world 0 s)"

definition demo_prompt :: "nat input_tensor input_data list" where
  "demo_prompt = [InputText (Tensor (IdsTensor [4]))]"

lemma cancelled_turn:
  "fst (BasicRunPrefill demo_session_env Ok one_turn 1 demo_prompt (reset_cancelled demo_session)) = Ok"
  "ok (fst (GenerateContent demo_session_env Ok (BasicCancelProcess \<circ> one_turn) Ok one_turn 1 2 demo_prompt demo_session))"
  "fst (the (BasicPrefillInternal demo_session_env int demo_prompt False demo_session)) = Ok"
  "\<not> Option.is_none (BasicPrefillInternal demo_session_env int demo_prompt False demo_session)"
  by code_simp+

theorem cancel_in_blocking_prefill_is_lost_witness:
  "GenerateContent demo_session_env Ok (BasicCancelProcess \<circ> one_turn) Ok one_turn 1 2 demo_prompt demo_session =
     GenerateContent demo_session_env Ok one_turn Ok one_turn 1 2 demo_prompt demo_session \<and>
   ok (fst (GenerateContent demo_session_env Ok (BasicCancelProcess \<circ> one_turn) Ok one_turn 1 2 demo_prompt demo_session)) \<and>
   (\<exists>t. run_session_job demo_session_env hear_cancel (PrefillJob demo_prompt (ThenDecode 7 None)) demo_session =
          Returned (t\<lparr>outputs := [(7, ResponsesOut (Inl Cancelled))]\<rparr>))"
proof -
  obtain t where t: "BasicPrefillInternal demo_session_env (job_clock hear_cancel) demo_prompt False demo_session = Some (Ok, t)"
    using is_none_the [OF cancelled_turn(4)] cancelled_turn(3)
    by (simp add: hear_cancel_def demo_world_def) (metis prod.collapse)
  have "cancelled_after_prefill hear_cancel" "outputs demo_session = []"
    by (simp_all add: hear_cancel_def demo_session_def)
  then show ?thesis
    using cancel_in_blocking_prefill_is_lost [OF cancelled_turn(1), of Ok one_turn 2 hear_cancel demo_prompt demo_session t 7 None]
      cancelled_turn(2) t by auto
qed

definition blocking1 :: "(int list list \<times> int, unit, int, unit, nat) session_basic" where
  "blocking1 = snd (schedule_prefill demo_session_env Ok demo_prompt (Local 1) (reset_cancelled demo_session))"

definition blocking2 :: "(int list list \<times> int, unit, int, unit, nat) session_basic" where
  "blocking2 = one_turn blocking1"

definition blocking3 :: "(int list list \<times> int, unit, int, unit, nat) session_basic" where
  "blocking3 = snd (schedule_job Ok (DecodeJob None (Local 2)) (reset_cancelled blocking2))"

definition blocking4 :: "(int list list \<times> int, unit, int, unit, nat) session_basic" where
  "blocking4 = one_turn blocking3"

lemma blocking_run:
  "fst (schedule_prefill demo_session_env Ok demo_prompt (Local 1) (reset_cancelled demo_session)) = Ok"
  "\<not> Option.is_none (turn_of demo_session_env demo_world 0 blocking1)"
  "length (tasks (worker_pool blocking2)) = 0" "local_status 1 blocking2 = Ok"
  "fst (schedule_job Ok (DecodeJob None (Local 2)) (reset_cancelled blocking2)) = Ok"
  "\<not> Option.is_none (turn_of demo_session_env demo_world 0 blocking3)"
  "length (tasks (worker_pool blocking4)) = 0"
  by code_simp+

theorem blocking_turn_decodes_after_prompt_witness:
  "\<exists>ids b l r b' (w :: job_world).
     Decode (decode_env_of demo_session_env (job_clock w) None) False (cancelled_at w) (decode_fuel w)
       ([[5], [9]], 3) () (demo_detector [[9]] 1) ids b = Returned (r, l, b') \<and>
     GenerateContent demo_session_env Ok (\<lambda>_. blocking2) Ok (\<lambda>_. blocking4) 1 2 demo_prompt demo_session =
       (r, blocking4) \<and> llm_state blocking4 = exec (step l)"
proof -
  have turns: "worker_turn demo_session_env blocking1 blocking2" "worker_turn demo_session_env blocking3 blocking4"
    using turn_of_turn is_none_the blocking_run(2,6) unfolding blocking2_def blocking4_def by blast+
  have "drained demo_session_env blocking1 blocking2" "drained demo_session_env blocking3 blocking4"
    using drained.one_more [OF turns(1) drained.nothing_left] drained.one_more [OF turns(2) drained.nothing_left]
      blocking_run(3,7) by simp_all
  moreover have "schedule_prefill demo_session_env Ok demo_prompt (Local 1) (reset_cancelled demo_session) = (Ok, blocking1)"
    "schedule_job Ok (DecodeJob None (Local 2)) (reset_cancelled blocking2) = (Ok, blocking3)"
    using blocking_run(1,5) by (simp_all add: blocking1_def blocking3_def prod_eq_iff)
  moreover have "is_done (worker_pool demo_session)" by (simp add: demo_session_def is_done_def ThreadPool_def)
  ultimately show ?thesis
    using blocking_turn_decodes_after_prompt [of demo_session_env Ok demo_prompt 1 demo_session blocking1 blocking2
        Ok 2 blocking3 blocking4] blocking_run(4)
    by (fastforce simp: demo_session_env_def demo_session_def)
qed

end
