(* ===== verification/MappedFile.thy ===== *)
theory MappedFile
  imports Prelude
begin

text \<open>
  Memory mapped files: \<^verbatim>\<open>runtime/util/memory_mapped_file_posix.cc\<close> and the mapping of ranges that are
  not aligned, \<^verbatim>\<open>runtime/util/lora_util.{h,cc}\<close>. Offsets and lengths are 64-bit words, as in the code.
  The operating system is the record \<open>file_system\<close>: the page size, the size of the file, \<^verbatim>\<open>mmap\<close> (\<open>None\<close>
  where it fails) and \<^verbatim>\<open>madvise\<close>. A mapping is the bytes that can be read through it. The key of a
  mapping is not used on POSIX systems and left out.
\<close>

section \<open>The operating system\<close>

datatype map_mode = MapPrivate | MapShared

record 'b file_system =
  page_size :: "64 word"
  GetSize :: "64 word status_or"
  mmap :: "map_mode \<Rightarrow> 64 word \<Rightarrow> 64 word \<Rightarrow> 'b list option"
  madvise :: bool

text \<open>
  The documented behaviour for a file with the contents \<open>bs\<close>: pages are not empty, the size is the
  number of bytes, and a mapping of a range inside the file holds the bytes of that range.
\<close>

definition holds_file :: "'b file_system \<Rightarrow> 'b list \<Rightarrow> bool" where
  "holds_file fs bs \<longleftrightarrow>
     0 < page_size fs \<and> (case GetSize fs of Inl e \<Rightarrow> False | Inr n \<Rightarrow> unat n = length bs) \<and>
     (\<forall>mode len off xs. mmap fs mode len off = Some xs \<longrightarrow> unat off + unat len \<le> length bs \<longrightarrow>
        xs = take (unat len) (drop (unat off) bs))"

text \<open>\<^verbatim>\<open>mmap\<close> maps every range of the file that starts at a page and is not empty.\<close>

definition maps_ranges :: "'b file_system \<Rightarrow> bool" where
  "maps_ranges fs \<longleftrightarrow> madvise fs \<and>
     (\<forall>mode len off n. GetSize fs = Inr n \<longrightarrow> off mod page_size fs = 0 \<longrightarrow> 0 < len \<longrightarrow>
        unat off + unat len \<le> unat n \<longrightarrow> mmap fs mode len off \<noteq> None)"

section \<open>Mappings\<close>

record 'b mapped_file =
  mapped_length :: "64 word"
  mapped_data :: "'b list"

text \<open>\<^verbatim>\<open>MemoryMappedFile::Create\<close>.\<close>

definition MapFile :: "'b file_system \<Rightarrow> 64 word \<Rightarrow> 64 word \<Rightarrow> 'b mapped_file status_or" where
  "MapFile fs off len =
     (if off mod page_size fs \<noteq> 0 then Inl Internal
      else try_or_return (GetSize fs) (\<lambda>file_size.
        if file_size < len + off then Inl Internal
        else
          let len' = (if len = 0 then file_size - off else len) in
          case mmap fs MapPrivate len' off of
            None \<Rightarrow> Inl Internal
          | Some xs \<Rightarrow>
              if \<not> madvise fs then Inl Internal
              else Inr \<lparr>mapped_length = len', mapped_data = xs\<rparr>))"

text \<open>\<^verbatim>\<open>MemoryMappedFile::CreateMutable\<close>.\<close>

definition MapFileMutable :: "'b file_system \<Rightarrow> 64 word \<Rightarrow> 64 word \<Rightarrow> 'b mapped_file status_or" where
  "MapFileMutable fs off len =
     (if off mod page_size fs \<noteq> 0 then Inl Internal
      else try_or_return (GetSize fs) (\<lambda>file_size.
        if file_size < len + off then Inl Internal
        else
          let len' = (if len = 0 then file_size - off else len) in
          if len' = 0 then Inl InvalidArgument
          else
            case mmap fs MapShared len' off of
              None \<Rightarrow> Inl Internal
            | Some xs \<Rightarrow> Inr \<lparr>mapped_length = len', mapped_data = xs\<rparr>))"

section \<open>Mappings of any range\<close>

definition AlignByN :: "64 word \<Rightarrow> 64 word \<Rightarrow> 64 word" where
  "AlignByN k n = (let q = k div n in (if k mod n = 0 then q else q + 1) * n)"

record 'b aligned_file =
  inner_file :: "'b mapped_file"
  inner_offset :: "64 word"
  outer_size :: "64 word"

definition page_start :: "64 word \<Rightarrow> 64 word \<Rightarrow> 64 word" where
  "page_start p off = (off div p) * p"

definition page_span :: "64 word \<Rightarrow> 64 word \<Rightarrow> 64 word \<Rightarrow> 64 word" where
  "page_span p off len = (if len = 0 then 0 else AlignByN (off - page_start p off + len) p)"

definition MapRange :: "'b file_system \<Rightarrow> 64 word \<Rightarrow> 64 word \<Rightarrow> 'b aligned_file status_or" where
  "MapRange fs off len =
     (let aligned_offset = page_start (page_size fs) off;
          map_size = page_span (page_size fs) off len in
      try_or_return (MapFile fs aligned_offset map_size) (\<lambda>region.
        let internal_offset = off - aligned_offset in
        Inr \<lparr>inner_file = region, inner_offset = internal_offset,
             outer_size = (if len = 0 then mapped_length region - internal_offset else len)\<rparr>))"

text \<open>The \<^verbatim>\<open>length()\<close> bytes that start at \<^verbatim>\<open>data()\<close>; \<open>None\<close> where they are not inside the mapping.\<close>

definition read_range :: "'b list \<Rightarrow> nat \<Rightarrow> nat \<Rightarrow> 'b list option" where
  "read_range xs off n = (if off + n \<le> length xs then Some (take n (drop off xs)) else None)"

definition range_contents :: "'b aligned_file \<Rightarrow> 'b list option" where
  "range_contents f =
     read_range (mapped_data (inner_file f)) (unat (inner_offset f)) (unat (outer_size f))"

section \<open>Arithmetic\<close>

lemma unat_page_start: "unat (page_start p off) = unat off div unat p * unat p"
proof -
  have "unat off div unat p * unat p \<le> unat off" by simp
  then have "unat off div unat p * unat p < 2 ^ LENGTH(64)"
    using unsigned_less [of off] by (rule le_less_trans)
  then show ?thesis
    by (simp only: page_start_def unat_word_ariths(2) unat_div_distrib mod_less)
qed

lemma page_start_le: "page_start p off \<le> off"
  by (simp add: word_le_nat_alt unat_page_start)

lemma unat_page_rest: "unat (off - page_start p off) = unat off mod unat p"
  unfolding unat_sub [OF page_start_le] unat_page_start by (rule minus_div_mult_eq_mod)

lemma page_start_rest: "unat (page_start p off) + unat off mod unat p = unat off"
  by (simp add: unat_page_start)

lemma page_start_aligned: "page_start p off mod p = 0"
  by (rule word_unat_eq_iff [THEN iffD2])
     (simp only: unat_mod_distrib unat_page_start mod_mult_self2_is_0 unsigned_0)

definition round_up :: "nat \<Rightarrow> nat \<Rightarrow> nat" where
  "round_up k n = (if k mod n = 0 then k div n else k div n + 1) * n"

lemma round_up_bounds:
  assumes "0 < n"
  shows "k \<le> round_up k n" "round_up k n < k + n"
proof -
  obtain q r where k: "k = q * n + r" and r: "r < n" "k mod n = r" "k div n = q"
    using assms mod_less_divisor [OF assms, of k] by (metis div_mult_mod_eq)
  show "k \<le> round_up k n" "round_up k n < k + n"
    unfolding round_up_def r(2,3) using k r(1) by (simp_all add: algebra_simps)
qed

lemma round_up_dvd: "n dvd round_up k n"
  by (simp add: round_up_def)

lemma round_up_add: "0 < n \<Longrightarrow> n dvd a \<Longrightarrow> a + round_up k n = round_up (a + k) n"
  by (elim dvdE) (simp add: round_up_def algebra_simps)

lemma unat_AlignByN:
  assumes "0 < n" "unat k + unat n \<le> 2 ^ 64"
  shows "unat (AlignByN k n) = round_up (unat k) (unat n)"
proof -
  have n: "0 < unat n" using assms(1) by (simp add: word_less_nat_alt)
  have m: "k mod n = 0 \<longleftrightarrow> unat k mod unat n = 0"
    by (simp only: word_unat_eq_iff unat_mod_distrib unsigned_0)
  let ?q = "if k mod n = 0 then k div n else k div n + 1"
  let ?r = "if unat k mod unat n = 0 then unat k div unat n else unat k div unat n + 1"
  have r: "?r * unat n < 2 ^ LENGTH(64)"
    using round_up_bounds(2) [OF n, of "unat k"] assms(2) by (simp add: round_up_def)
  have "?r * 1 \<le> ?r * unat n" using n by (intro mult_le_mono2) simp
  then have "?r < 2 ^ LENGTH(64)" using r by linarith
  then have q: "unat ?q = ?r"
    by (cases "unat k mod unat n = 0")
       (simp_all only: m if_True if_False refl unat_div_distrib unat_word_ariths(1) unsigned_1 mod_less)
  have "unat (?q * n) = ?r * unat n"
    by (simp only: unat_word_ariths(2) q mod_less [OF r])
  then show ?thesis unfolding AlignByN_def Let_def round_up_def .
qed

section \<open>Exact ranges\<close>

lemma MapFile_contents:
  assumes f: "holds_file fs bs" and m: "MapFile fs off len = Inr m"
    and no_wrap: "unat off + unat len < 2 ^ 64"
  shows "unat off + unat len \<le> length bs"
    and "unat (mapped_length m) = (if len = 0 then length bs - unat off else unat len)"
    and "mapped_data m = take (unat (mapped_length m)) (drop (unat off) bs)"
proof -
  obtain n where size: "GetSize fs = Inr n" and n: "unat n = length bs"
    using f by (auto simp: holds_file_def split: sum.splits)
  have "unat len + unat off < 2 ^ LENGTH(64)" using no_wrap by simp
  then have sum: "unat (len + off) = unat len + unat off"
    by (simp only: unat_word_ariths(1) mod_less)
  have "\<not> n < len + off"
    using m by (auto simp: MapFile_def size split: if_splits)
  then show le: "unat off + unat len \<le> length bs"
    by (simp add: word_less_nat_alt n sum add.commute)
  have off: "off \<le> n" using le by (simp add: word_le_nat_alt n)
  define l where "l = (if len = 0 then n - off else len)"
  have l: "unat l = (if len = 0 then length bs - unat off else unat len)"
    unfolding l_def by (simp add: unat_sub [OF off] n)
  have a: "off mod page_size fs = 0" using m by (simp add: MapFile_def split: if_splits)
  obtain xs where xs: "mmap fs MapPrivate l off = Some xs"
      and mm: "m = \<lparr>mapped_length = l, mapped_data = xs\<rparr>"
    using m a \<open>\<not> n < len + off\<close>
    by (auto simp: MapFile_def size l_def [symmetric] Let_def split: option.splits if_splits)
  show "unat (mapped_length m) = (if len = 0 then length bs - unat off else unat len)"
    by (simp add: mm l)
  have "unat off + unat l \<le> length bs" using le by (auto simp: l)
  then show "mapped_data m = take (unat (mapped_length m)) (drop (unat off) bs)"
    using f xs by (simp add: holds_file_def mm)
qed

lemma unat_page_span:
  assumes "0 < p" "unat off + unat len + unat p \<le> 2 ^ 64"
  shows "unat (page_span p off len) =
    (if len = 0 then 0 else round_up (unat off mod unat p + unat len) (unat p))"
proof -
  have "0 < unat p" using assms(1) by (simp add: word_less_nat_alt)
  have "unat off mod unat p \<le> unat off" by simp
  then have s: "unat off mod unat p + unat len + unat p \<le> 2 ^ 64" using assms(2) by linarith
  then have "unat (off - page_start p off + len) = unat off mod unat p + unat len"
    using \<open>0 < unat p\<close> by (simp add: unat_word_ariths(1) unat_page_rest)
  with s show ?thesis by (simp add: page_span_def unat_AlignByN [OF assms(1)])
qed

lemma page_start_span:
  assumes "0 < p" "unat off + unat len + unat p \<le> 2 ^ 64" "len \<noteq> 0"
  shows "unat (page_start p off) + unat (page_span p off len) = round_up (unat off + unat len) (unat p)"
proof -
  have p: "0 < unat p" using assms(1) by (simp add: word_less_nat_alt)
  have "unat (page_start p off) + unat (page_span p off len) =
      round_up (unat (page_start p off) + (unat off mod unat p + unat len)) (unat p)"
    unfolding unat_page_span [OF assms(1,2)] using assms(3)
    by (simp add: round_up_add [OF p] unat_page_start)
  then show ?thesis by (simp only: page_start_rest add.assoc [symmetric])
qed

lemma page_span_covers:
  assumes "0 < p" "unat off + unat len + unat p \<le> 2 ^ 64" "len \<noteq> 0"
  shows "unat off mod unat p + unat len \<le> unat (page_span p off len)"
  using round_up_bounds(1) [of "unat p" "unat off mod unat p + unat len"] assms
  by (simp add: unat_page_span [OF assms(1,2)] word_less_nat_alt)

lemma page_span_no_wrap:
  assumes "0 < p" "unat off + unat len + unat p \<le> 2 ^ 64"
  shows "unat (page_start p off) + unat (page_span p off len) < 2 ^ 64"
proof (cases "len = 0")
  case True
  then show ?thesis using unsigned_less [of "page_start p off"] by (simp add: page_span_def)
next
  case False
  then show ?thesis
    using page_start_span [OF assms False] round_up_bounds(2) [of "unat p" "unat off + unat len"] assms
    by (simp add: word_less_nat_alt)
qed

text \<open>
  C16. A mapping of a range of a file that does not start or end at a page holds exactly the bytes of
  the range, and with length zero all bytes from the offset on, whatever the size of a page. The
  offset and the length are assumed small enough for 64 bits, and the offset to lie in the file where
  the length is zero.
\<close>

theorem mapped_range_is_exact:
  assumes "holds_file fs bs" "MapRange fs off len = Inr m"
    "unat off + unat len + unat (page_size fs) \<le> 2 ^ 64" "len = 0 \<Longrightarrow> unat off \<le> length bs"
  shows "range_contents m =
    Some (if len = 0 then drop (unat off) bs else take (unat len) (drop (unat off) bs))"
proof -
  define p where "p = page_size fs"
  have p: "0 < p" "unat off + unat len + unat p \<le> 2 ^ 64"
    using assms(1,3) by (simp_all add: holds_file_def p_def)
  obtain g where g: "MapFile fs (page_start p off) (page_span p off len) = Inr g"
      and m: "m = \<lparr>inner_file = g, inner_offset = off - page_start p off,
        outer_size = (if len = 0 then mapped_length g - (off - page_start p off) else len)\<rparr>"
    using assms(2) by (auto simp: MapRange_def Let_def try_or_return_Inr_iff p_def)
  note c = MapFile_contents [OF assms(1) g page_span_no_wrap [OF p]]
  note off = page_start_rest [of p off]
  show ?thesis
  proof (cases "len = 0")
    case True
    then have l: "unat (mapped_length g) = length bs - unat (page_start p off)"
      using c(2) by (simp add: page_span_def)
    have "off - page_start p off \<le> mapped_length g"
      using assms(4) [OF True] off by (simp add: word_le_nat_alt l unat_page_rest)
    then show ?thesis
      using True c(3) off assms(4) [OF True]
      by (simp add: range_contents_def read_range_def m l unat_page_rest unat_sub add.commute)
  next
    case False
    then have s: "unat off mod unat p + unat len \<le> unat (page_span p off len)"
      by (rule page_span_covers [OF p])
    then have "page_span p off len \<noteq> 0" using False by (auto simp: unat_eq_0)
    then have l: "unat (mapped_length g) = unat (page_span p off len)" using c(2) by simp
    show ?thesis
      using False c(1,3) off s
      by (simp add: range_contents_def read_range_def m l unat_page_rest drop_take add.commute min_absorb1)
  qed
qed

section \<open>The last page\<close>

lemma round_up_le_iff:
  assumes "0 < n"
  shows "round_up k n \<le> m \<longleftrightarrow> k \<le> m div n * n"
proof
  assume "round_up k n \<le> m"
  then have "round_up k n \<le> m div n * n"
    using div_le_mono [of "round_up k n" m n] assms by (simp add: round_up_def)
  then show "k \<le> m div n * n" using round_up_bounds(1) [OF assms, of k] by linarith
next
  assume k: "k \<le> m div n * n"
  have "round_up k n < (m div n + 1) * n"
    using round_up_bounds(2) [OF assms, of k] k by simp
  then have "round_up k n div n < m div n + 1"
    by (simp only: div_less_iff_less_mult [OF assms])
  then have "round_up k n div n * n \<le> m div n * n" by (intro mult_le_mono1) simp
  moreover have "round_up k n div n * n = round_up k n" using assms by (simp add: round_up_def)
  moreover have "m div n * n \<le> m" by simp
  ultimately show "round_up k n \<le> m" by linarith
qed

lemma ok_MapFile_iff:
  assumes "holds_file fs bs" "maps_ranges fs" "off mod page_size fs = 0" "len \<noteq> 0"
    "unat off + unat len < 2 ^ 64"
  shows "ok (MapFile fs off len) \<longleftrightarrow> unat off + unat len \<le> length bs"
proof
  assume "ok (MapFile fs off len)"
  then show "unat off + unat len \<le> length bs"
    using MapFile_contents(1) [OF assms(1) _ assms(5)] by (auto simp: ok_iff)
next
  assume le: "unat off + unat len \<le> length bs"
  obtain n where size: "GetSize fs = Inr n" and n: "unat n = length bs"
    using assms(1) by (auto simp: holds_file_def split: sum.splits)
  have "unat len + unat off < 2 ^ LENGTH(64)" using assms(5) by simp
  then have "unat (len + off) = unat len + unat off" by (simp only: unat_word_ariths(1) mod_less)
  then have "\<not> n < len + off" using le by (simp add: word_less_nat_alt n)
  moreover have "mmap fs MapPrivate len off \<noteq> None"
    using assms(2-4) le size by (simp add: maps_ranges_def n word_neq_0_conv)
  ultimately show "ok (MapFile fs off len)"
    using assms(2-4) by (auto simp: MapFile_def size maps_ranges_def)
qed

text \<open>
  A range that is not empty can be mapped exactly if it ends inside the last full page of the
  file: the length is rounded up to a page before it is compared with the size of the file, so the
  bytes after the last full page are out of reach, although \<^verbatim>\<open>mmap\<close> would map them.
\<close>

theorem range_in_last_page_is_refused:
  assumes "holds_file fs bs" "maps_ranges fs" "len \<noteq> 0"
    "unat off + unat len + unat (page_size fs) \<le> 2 ^ 64"
  shows "ok (MapRange fs off len) \<longleftrightarrow>
    unat off + unat len \<le> length bs div unat (page_size fs) * unat (page_size fs)"
proof -
  define p where "p = page_size fs"
  have p: "0 < p" "unat off + unat len + unat p \<le> 2 ^ 64"
    using assms(1,4) by (simp_all add: holds_file_def p_def)
  have s: "page_span p off len \<noteq> 0"
    using page_span_covers [OF p assms(3)] assms(3) by (auto simp: unat_eq_0)
  have "ok (MapRange fs off len) \<longleftrightarrow> ok (MapFile fs (page_start p off) (page_span p off len))"
    by (auto simp: MapRange_def Let_def p_def try_or_return_def split: sum.splits)
  also have "\<dots> \<longleftrightarrow> unat (page_start p off) + unat (page_span p off len) \<le> length bs"
    by (rule ok_MapFile_iff [OF assms(1,2) _ s page_span_no_wrap [OF p]])
       (simp add: p_def page_start_aligned)
  also have "\<dots> \<longleftrightarrow> unat off + unat len \<le> length bs div unat p * unat p"
    unfolding page_start_span [OF p assms(3)]
    by (rule round_up_le_iff) (use p(1) in \<open>simp add: word_less_nat_alt\<close>)
  finally show ?thesis by (simp add: p_def)
qed

section \<open>A file of ten bytes\<close>

definition small_file :: "nat file_system" where
  "small_file =
     \<lparr>page_size = 4, GetSize = Inr 10,
      mmap = (\<lambda>_ len off. if off mod 4 = 0 \<and> 0 < len
                then Some (take (unat len) (drop (unat off) [0..<10])) else None),
      madvise = True\<rparr>"

lemma holds_small_file: "holds_file small_file [0..<10]"
  by (auto simp: holds_file_def small_file_def)

lemma maps_small_file: "maps_ranges small_file"
  by (simp add: maps_ranges_def small_file_def)

lemma small_range: "MapRange small_file 3 4 =
    Inr \<lparr>inner_file = \<lparr>mapped_length = 8, mapped_data = [0, 1, 2, 3, 4, 5, 6, 7]\<rparr>,
         inner_offset = 3, outer_size = 4\<rparr>"
  by code_simp

theorem mapped_range_is_exact_witness:
  "\<exists>m. MapRange small_file 3 4 = Inr m \<and> range_contents m = Some [3, 4, 5, 6]"
  using mapped_range_is_exact [OF holds_small_file small_range]
  by (simp add: small_range) (simp add: small_file_def upt_rec)

theorem range_in_last_page_is_refused_witness:
  "ok (MapRange small_file 6 2) \<and> \<not> ok (MapRange small_file 8 2)"
  using range_in_last_page_is_refused [OF holds_small_file maps_small_file, of 2 6]
    range_in_last_page_is_refused [OF holds_small_file maps_small_file, of 2 8]
  by (simp add: small_file_def)

text \<open>
  Two ranges that pass although they are not in the file: a length so large that rounding it up
  wraps around to zero, which maps the whole file, and an offset after the end, with length zero.
  The length that is reported then lies outside the mapping.
\<close>

lemmas MapRange_eval = MapRange_def page_span_def page_start_def AlignByN_def MapFile_def
  small_file_def range_contents_def read_range_def Let_def

lemma unat_max: "unat (- 1 :: 64 word) = 18446744073709551615"
  by (simp add: unsigned_minus_1_eq_mask mask_eq_exp_minus_1)

lemma wrapped_length_is_mapped:
  "case MapRange small_file 0 (- 1) of Inl _ \<Rightarrow> False
     | Inr m \<Rightarrow> outer_size m = - 1 \<and> range_contents m = None"
  by (simp add: MapRange_eval unat_max)

lemma offset_after_end_is_mapped:
  "case MapRange small_file 11 0 of Inl _ \<Rightarrow> False
     | Inr m \<Rightarrow> outer_size m = - 1 \<and> range_contents m = None"
  by (simp add: MapRange_eval unat_max)

end
