(* ===== verification/LoraWeights.thy ===== *)
theory LoraWeights
  imports MappedFile "HOL-Library.AList" "HOL-Library.Sublist"
begin

text \<open>
  LoRA weights: the weights of a file, \<^verbatim>\<open>runtime/util/lora_data.{h,cc}\<close>, the names of LoRA inputs,
  \<^verbatim>\<open>runtime/util/lora_util.cc\<close>, the buffers of one adapter, \<^verbatim>\<open>runtime/components/lora.{h,cc}\<close>, and their
  manager, \<^verbatim>\<open>runtime/components/lora_manager.{h,cc}\<close>. FlatBuffers are parsed by their library: a model
  is the record of the fields that the code reads, where a field that a file may leave out is an
  option. The compiled model, the allocation of its buffers and the operating system are parameters.
\<close>

type_synonym byte = "8 word"

section \<open>Models in files\<close>

record fb_buffer =
  buffer_offset :: "64 word"
  buffer_size :: "64 word"

record fb_tensor =
  tensor_name :: "string option"
  tensor_buffer :: nat

record fb_metadata =
  metadata_name :: "string option"
  metadata_buffer :: "32 word"

record fb_model =
  metadata :: "fb_metadata list option"
  buffers :: "fb_buffer list option"
  subgraphs :: "fb_tensor list option list option"

text \<open>\<^verbatim>\<open>GetMetadata\<close> and \<^verbatim>\<open>GetBuffer\<close>: \<open>Some None\<close> is the null pointer, \<open>None\<close> a dereferenced one.\<close>

fun find_metadata :: "string \<Rightarrow> fb_metadata list \<Rightarrow> fb_metadata option option" where
  "find_metadata name [] = Some None"
| "find_metadata name (x # xs) =
     (case metadata_name x of None \<Rightarrow> None
      | Some n \<Rightarrow> if name = n then Some (Some x) else find_metadata name xs)"

definition GetMetadata :: "string \<Rightarrow> fb_model \<Rightarrow> fb_metadata option option" where
  "GetMetadata name m = (case metadata m of None \<Rightarrow> Some None | Some xs \<Rightarrow> find_metadata name xs)"

fun find_tensor :: "string \<Rightarrow> fb_buffer list \<Rightarrow> fb_tensor list \<Rightarrow> fb_buffer option option" where
  "find_tensor name bs [] = Some None"
| "find_tensor name bs (t # ts) =
     (case tensor_name t of None \<Rightarrow> None
      | Some n \<Rightarrow>
          if name \<noteq> n then find_tensor name bs ts
          else if length bs \<le> tensor_buffer t then find_tensor name bs ts
          else Some (Some (bs ! tensor_buffer t)))"

fun find_in_subgraphs ::
  "string \<Rightarrow> fb_buffer list \<Rightarrow> fb_tensor list option list \<Rightarrow> fb_buffer option option"
where
  "find_in_subgraphs name bs [] = Some None"
| "find_in_subgraphs name bs (g # gs) =
     Option.bind g (\<lambda>ts. Option.bind (find_tensor name bs ts) (\<lambda>r.
       case r of Some b \<Rightarrow> Some (Some b) | None \<Rightarrow> find_in_subgraphs name bs gs))"

definition GetBuffer :: "string \<Rightarrow> fb_model \<Rightarrow> fb_buffer option option" where
  "GetBuffer name m =
     Option.bind (buffers m) (\<lambda>bs. Option.bind (subgraphs m) (find_in_subgraphs name bs))"

section \<open>LoRA data\<close>

text \<open>
  A reference to a range of bytes: its size, and its contents, \<open>None\<close> where the range does not lie
  inside the memory it refers to.
\<close>

record buffer_ref =
  ref_size :: "64 word"
  ref_contents :: "byte list option"

datatype lora_data =
    FileLoraData "byte file_system" fb_model
  | BufferLoraData "byte list" fb_model

fun GetFlatBufferModel :: "lora_data \<Rightarrow> fb_model" where
  "GetFlatBufferModel (FileLoraData fs m) = m"
| "GetFlatBufferModel (BufferLoraData bs m) = m"

fun ReadData :: "lora_data \<Rightarrow> 64 word \<Rightarrow> 64 word \<Rightarrow> buffer_ref status_or" where
  "ReadData (FileLoraData fs m) off len =
     try_or_return (MapRange fs off len) (\<lambda>f.
       Inr \<lparr>ref_size = outer_size f, ref_contents = range_contents f\<rparr>)"
| "ReadData (BufferLoraData bs m) off len =
     Inr \<lparr>ref_size = off + len - off, ref_contents = read_range bs (unat off) (unat (off + len - off))\<rparr>"

definition GetLoRARank :: "lora_data \<Rightarrow> int status_or option" where
  "GetLoRARank d =
     map_option (case_option (Inl NotFound) (\<lambda>x. Inr (sint (metadata_buffer x))))
       (GetMetadata ''lora_rank'' (GetFlatBufferModel d))"

definition HasTensor :: "string \<Rightarrow> lora_data \<Rightarrow> bool option" where
  "HasTensor name d = map_option (\<lambda>b. b \<noteq> None) (GetBuffer name (GetFlatBufferModel d))"

definition ReadTensor :: "string \<Rightarrow> lora_data \<Rightarrow> buffer_ref status_or option" where
  "ReadTensor name d =
     map_option (case_option (Inl NotFound) (\<lambda>b. ReadData d (buffer_offset b) (buffer_size b)))
       (GetBuffer name (GetFlatBufferModel d))"

text \<open>The FlatBuffers library: the check of the identifier, and the parser, which may refuse.\<close>

record fb_parser =
  has_identifier :: "byte list \<Rightarrow> bool"
  build_model :: "byte list \<Rightarrow> fb_model option"

definition CreateFlatBufferModelFromBuffer :: "fb_parser \<Rightarrow> byte list \<Rightarrow> fb_model status_or" where
  "CreateFlatBufferModelFromBuffer fb bs =
     (if \<not> has_identifier fb bs then Inl Unimplemented
      else case build_model fb bs of None \<Rightarrow> Inl Internal | Some m \<Rightarrow> Inr m)"

definition kMetadataMaxSize :: "64 word" where
  "kMetadataMaxSize = 1024 * 1024"

definition CreateFromScopedFile :: "fb_parser \<Rightarrow> byte file_system \<Rightarrow> lora_data status_or option" where
  "CreateFromScopedFile fb fs =
     (case MapRange fs 0 kMetadataMaxSize of
        Inl e \<Rightarrow> Some (Inl e)
      | Inr f \<Rightarrow> map_option (\<lambda>bs. try_or_return (CreateFlatBufferModelFromBuffer fb bs) (\<lambda>m.
                   Inr (FileLoraData fs m))) (range_contents f))"

definition CreateFromBuffer :: "fb_parser \<Rightarrow> byte list \<Rightarrow> lora_data status_or" where
  "CreateFromBuffer fb bs =
     try_or_return (CreateFlatBufferModelFromBuffer fb bs) (\<lambda>m. Inr (BufferLoraData bs m))"

section \<open>Names of LoRA inputs\<close>

text \<open>
  The regular expression
  \<^verbatim>\<open>^(?:(?:query|key|value|post)_w_prime_(?:left|right)|lora_atten_(?:q|k|v|o)_(?:a|b)_prime_weight)_\d+$\<close>:
  the alternatives before the number, and the number.
\<close>

definition lora_prefixes :: "string list" where
  "lora_prefixes =
     concat (map (\<lambda>x. map (\<lambda>y. x @ ''_w_prime_'' @ y @ ''_'') [''left'', ''right''])
       [''query'', ''key'', ''value'', ''post'']) @
     concat (map (\<lambda>x. map (\<lambda>y. ''lora_atten_'' @ x @ ''_'' @ y @ ''_prime_weight_'') [''a'', ''b''])
       [''q'', ''k'', ''v'', ''o''])"

definition is_number :: "string \<Rightarrow> bool" where
  "is_number cs \<longleftrightarrow> cs \<noteq> [] \<and> list_all (\<lambda>c. c \<in> set ''0123456789'') cs"

definition IsLoRAInputName :: "string \<Rightarrow> bool" where
  "IsLoRAInputName name \<longleftrightarrow>
     list_ex (\<lambda>p. prefix p name \<and> is_number (drop (length p) name)) lora_prefixes"

section \<open>One adapter\<close>

text \<open>A buffer of the compiled model: the bytes that can be locked for writing, and its packed size.\<close>

record input_buffer =
  lock_buffer :: status
  PackedSize :: "64 word status_or"
  bytes :: "byte list"

record compiled_model =
  GetSignatureInputNames :: "string \<Rightarrow> string list status_or"
  CreateInputBuffer :: "string \<Rightarrow> string \<Rightarrow> input_buffer status_or"
  Duplicate :: "string \<Rightarrow> status"

text \<open>\<^verbatim>\<open>memcpy\<close> and \<^verbatim>\<open>memset\<close> to the start of a buffer; \<open>None\<close> where it is too small.\<close>

definition overwrite :: "byte list \<Rightarrow> byte list \<Rightarrow> byte list option" where
  "overwrite xs bs = (if length xs \<le> length bs then Some (xs @ drop (length xs) bs) else None)"

definition fill_tensor ::
  "lora_data option \<Rightarrow> string \<Rightarrow> 64 word \<Rightarrow> byte list \<Rightarrow> byte list status_or option"
where
  "fill_tensor data name n bs =
     Option.bind data (\<lambda>d. Option.bind (HasTensor name d) (\<lambda>has.
       if has then
         Option.bind (ReadTensor name d) (\<lambda>r.
           case r of
             Inl e \<Rightarrow> Some (Inl e)
           | Inr ref \<Rightarrow>
               if n \<noteq> ref_size ref then Some (Inl Internal)
               else Option.bind (ref_contents ref) (\<lambda>xs. map_option Inr (overwrite xs bs)))
       else map_option Inr (overwrite (replicate (unat n) 0) bs)))"

definition init_input ::
  "compiled_model \<Rightarrow> lora_data option \<Rightarrow> string \<Rightarrow> byte list status_or option"
where
  "init_input cm data name =
     (case CreateInputBuffer cm ''decode'' name of
        Inl e \<Rightarrow> Some (Inl e)
      | Inr b \<Rightarrow>
          (case lock_buffer b of
             Inl e \<Rightarrow> Some (Inl e)
           | Inr _ \<Rightarrow>
               (case PackedSize b of
                  Inl e \<Rightarrow> Some (Inl e)
                | Inr n \<Rightarrow> fill_tensor data name n (bytes b))))"

text \<open>\<^verbatim>\<open>lora_buffers_\<close> is a hash map; the order of its entries is only that of their duplication.\<close>

fun init_inputs ::
  "compiled_model \<Rightarrow> lora_data option \<Rightarrow> string list \<Rightarrow> (string \<times> byte list) list \<Rightarrow>
   (string \<times> byte list) list status_or option"
where
  "init_inputs cm data [] acc = Some (Inr acc)"
| "init_inputs cm data (name # names) acc =
     (if \<not> IsLoRAInputName name then init_inputs cm data names acc
      else
        case init_input cm data name of
          None \<Rightarrow> None
        | Some (Inl e) \<Rightarrow> Some (Inl e)
        | Some (Inr bs) \<Rightarrow> init_inputs cm data names (AList.update name bs acc))"

record lora =
  lora_source :: "lora_data option"
  lora_buffers :: "(string \<times> byte list) list"

definition CreateLoRA :: "compiled_model \<Rightarrow> lora_data option \<Rightarrow> lora status_or option" where
  "CreateLoRA cm data =
     (case GetSignatureInputNames cm ''decode'' of
        Inl e \<Rightarrow> Some (Inl e)
      | Inr names \<Rightarrow> map_option (\<lambda>r. try_or_return r (\<lambda>bs. Inr \<lparr>lora_source = data, lora_buffers = bs\<rparr>))
                      (init_inputs cm data names []))"

definition GetLoRABuffer :: "compiled_model \<Rightarrow> string \<Rightarrow> lora \<Rightarrow> byte list status_or" where
  "GetLoRABuffer cm name l =
     (case map_of (lora_buffers l) name of
        None \<Rightarrow> Inl NotFound
      | Some bs \<Rightarrow> try_or_return (Duplicate cm name) (\<lambda>_. Inr bs))"

fun duplicate_all ::
  "compiled_model \<Rightarrow> (string \<times> byte list) list \<Rightarrow> (string \<times> byte list) list status_or"
where
  "duplicate_all cm [] = Inr []"
| "duplicate_all cm ((name, bs) # xs) =
     try_or_return (Duplicate cm name) (\<lambda>_.
       try_or_return (duplicate_all cm xs) (\<lambda>ys. Inr ((name, bs) # ys)))"

definition GetLoRABuffers :: "compiled_model \<Rightarrow> lora \<Rightarrow> (string \<times> byte list) list status_or" where
  "GetLoRABuffers cm l = duplicate_all cm (lora_buffers l)"

section \<open>The manager\<close>

text \<open>A pointer in \<^verbatim>\<open>lora_data_\<close> is null (\<open>None\<close>) after it has been moved from.\<close>

record lora_manager =
  manager_data :: "32 word \<Rightarrow> lora_data option option"
  manager_loras :: "32 word \<Rightarrow> lora option"
  current_lora_id :: "32 word option"

definition CreateLoraManager :: lora_manager where
  "CreateLoraManager = \<lparr>manager_data = (\<lambda>_. None), manager_loras = (\<lambda>_. None), current_lora_id = None\<rparr>"

definition LoadLoRA ::
  "fb_parser \<Rightarrow> 32 word \<Rightarrow> byte file_system status_or \<Rightarrow> (lora_manager, unit) uop"
where
  "LoadLoRA fb i assets s =
     (if manager_data s i \<noteq> None then Some (Inl AlreadyExists, s)
      else
        case assets of
          Inl e \<Rightarrow> Some (Inl e, s)
        | Inr fs \<Rightarrow>
            Option.bind (CreateFromScopedFile fb fs) (\<lambda>r.
              case r of
                Inl e \<Rightarrow> Some (Inl e, s)
              | Inr d \<Rightarrow> Some (Ok, s\<lparr>manager_data := (manager_data s)(i := Some (Some d))\<rparr>)))"

definition UseLoRA :: "compiled_model \<Rightarrow> 32 word \<Rightarrow> (lora_manager, unit) uop" where
  "UseLoRA cm i s =
     (if manager_data s i = None \<and> manager_loras s i = None then Some (Inl NotFound, s)
      else if manager_loras s i = None then
        (case manager_data s i of
           None \<Rightarrow> None
         | Some data \<Rightarrow>
             Option.bind (CreateLoRA cm data) (\<lambda>r.
               case r of
                 Inl e \<Rightarrow> Some (Inl e, s\<lparr>manager_data := (manager_data s)(i := Some None)\<rparr>)
               | Inr l \<Rightarrow>
                   Some (Ok, \<lparr>manager_data = (manager_data s)(i := None),
                              manager_loras = (manager_loras s)(i := Some l),
                              current_lora_id = Some i\<rparr>)))
      else Some (Ok, s\<lparr>current_lora_id := Some i\<rparr>))"

definition ManagerGetLoRABuffers ::
  "compiled_model \<Rightarrow> lora_manager \<Rightarrow> (string \<times> byte list) list status_or"
where
  "ManagerGetLoRABuffers cm s =
     (case current_lora_id s of
        None \<Rightarrow> Inl FailedPrecondition
      | Some i \<Rightarrow> (case manager_loras s i of None \<Rightarrow> Inl NotFound | Some l \<Rightarrow> GetLoRABuffers cm l))"

section \<open>From the file to the inputs\<close>

lemma init_inputs_map_of:
  assumes "init_inputs cm data names acc = Some (Inr xs)"
  shows "map_of xs name =
    (if name \<in> set names \<and> IsLoRAInputName name
     then case init_input cm data name of Some (Inr bs) \<Rightarrow> Some bs | _ \<Rightarrow> None
     else map_of acc name)"
    and "name \<in> set names \<Longrightarrow> IsLoRAInputName name \<Longrightarrow> \<exists>bs. init_input cm data name = Some (Inr bs)"
  using assms
  by (induction names arbitrary: acc)
     (auto simp: update_conv split: if_splits option.splits sum.splits)

lemma duplicate_all_eq: "duplicate_all cm xs = Inr ys \<Longrightarrow> ys = xs"
  by (induction xs arbitrary: ys) (auto simp: try_or_return_Inr_iff)

lemma used_lora_buffers:
  assumes "UseLoRA cm i s = Some (Ok, s')" "manager_loras s i = None"
    "ManagerGetLoRABuffers cm s' = Inr xs"
  obtains data names where "manager_data s i = Some data"
    "GetSignatureInputNames cm ''decode'' = Inr names" "init_inputs cm data names [] = Some (Inr xs)"
proof -
  obtain data l where d: "manager_data s i = Some data" and l: "CreateLoRA cm data = Some (Inr l)"
      and s': "manager_loras s' i = Some l" "current_lora_id s' = Some i"
    using assms(1,2) by (auto simp: UseLoRA_def split: option.splits sum.splits if_splits bind_splits)
  have "xs = lora_buffers l"
    using assms(3) s' by (auto simp: ManagerGetLoRABuffers_def GetLoRABuffers_def dest: duplicate_all_eq)
  then show thesis
    using l that [OF d] by (auto simp: CreateLoRA_def try_or_return_Inr_iff split: sum.splits)
qed

lemma read_range_length: "read_range xs k n = Some ys \<Longrightarrow> length ys = n"
  by (auto simp: read_range_def split: if_splits)

definition page_fits :: "'b file_system \<Rightarrow> 64 word \<Rightarrow> 64 word \<Rightarrow> bool" where
  "page_fits fs off len \<longleftrightarrow> unat off + unat len + unat (page_size fs) \<le> 2 ^ 64"

lemma init_input_contents:
  assumes "init_input cm (Some (FileLoraData fs m)) name = Some (Inr bs)" "holds_file fs file"
    "\<And>b. GetBuffer name m = Some (Some b) \<Longrightarrow>
       buffer_size b \<noteq> 0 \<and> page_fits fs (buffer_offset b) (buffer_size b)"
    "CreateInputBuffer cm ''decode'' name = Inr ib" "PackedSize ib = Inr n" "length (bytes ib) = unat n"
  shows "bs = (case GetBuffer name m of
      Some (Some b) \<Rightarrow> take (unat (buffer_size b)) (drop (unat (buffer_offset b)) file)
    | _ \<Rightarrow> replicate (unat n) 0)"
proof -
  have f: "fill_tensor (Some (FileLoraData fs m)) name n (bytes ib) = Some (Inr bs)"
    using assms(1,4,5) by (simp add: init_input_def split: sum.splits)
  then obtain r where r: "GetBuffer name m = Some r"
    by (auto simp: fill_tensor_def HasTensor_def split: bind_splits)
  show ?thesis
  proof (cases r)
    case None
    then show ?thesis using f r assms(6)
      by (auto simp: fill_tensor_def HasTensor_def overwrite_def)
  next
    case (Some b)
    then have b: "buffer_size b \<noteq> 0" "page_fits fs (buffer_offset b) (buffer_size b)"
      using assms(3) r by auto
    obtain g where g: "MapRange fs (buffer_offset b) (buffer_size b) = Inr g"
        and n: "n = outer_size g" and o: "Option.bind (range_contents g) (\<lambda>xs. map_option Inr (overwrite xs (bytes ib)))
          = Some (Inr bs :: byte list status_or)"
      using f r Some by (auto simp: fill_tensor_def HasTensor_def ReadTensor_def try_or_return_def
          split: sum.splits if_splits)
    have c: "range_contents g = Some (take (unat (buffer_size b)) (drop (unat (buffer_offset b)) file))"
      using mapped_range_is_exact [OF assms(2) g] b by (simp add: page_fits_def)
    have "outer_size g = buffer_size b"
      using g b(1) by (auto simp: MapRange_def Let_def try_or_return_Inr_iff)
    have "length (take (unat (buffer_size b)) (drop (unat (buffer_offset b)) file)) = unat n"
      using c unfolding range_contents_def n by (rule read_range_length)
    then show ?thesis using o c assms(6) r Some by (auto simp: overwrite_def)
  qed
qed

lemma loaded_data:
  assumes "LoadLoRA fb i (Inr fs) s = Some (Ok, s')" "holds_file fs file"
    "page_fits fs 0 kMetadataMaxSize" "build_model fb (take (1024 * 1024) file) = Some m"
  shows "manager_data s' i = Some (Some (FileLoraData fs m))" "manager_loras s' = manager_loras s"
proof -
  obtain f where f: "MapRange fs 0 kMetadataMaxSize = Inr f"
    using assms(1)
    by (auto simp: LoadLoRA_def CreateFromScopedFile_def split: if_splits bind_splits sum.splits)
  have bs: "range_contents f = Some (take (1024 * 1024) file)"
    using mapped_range_is_exact [OF assms(2) f] assms(3) by (simp add: page_fits_def kMetadataMaxSize_def)
  then show "manager_data s' i = Some (Some (FileLoraData fs m))" "manager_loras s' = manager_loras s"
    using assms(1,4)
    by (auto simp: LoadLoRA_def CreateFromScopedFile_def f CreateFlatBufferModelFromBuffer_def
        split: if_splits)
qed

text \<open>
  C14. When an adapter has been loaded from a file and used, the buffers of the manager are exactly the
  LoRA inputs of the decode signature. Each has the bytes that the file holds for the tensor of its
  name, at the offset and of the size that the model in the file says, and zeros where the file has
  no such tensor.
\<close>

theorem used_adapter_has_weights_of_file:
  assumes load: "LoadLoRA fb i (Inr fs) s = Some (Ok, s1)" and new: "manager_loras s i = None"
    and use_id: "UseLoRA cm i s1 = Some (Ok, s2)" and get: "ManagerGetLoRABuffers cm s2 = Inr xs"
    and stored: "holds_file fs file" "page_fits fs 0 kMetadataMaxSize"
      "build_model fb (take (1024 * 1024) file) = Some m"
    and names: "GetSignatureInputNames cm ''decode'' = Inr names"
    and input: "CreateInputBuffer cm ''decode'' name = Inr ib" "PackedSize ib = Inr n"
      "length (bytes ib) = unat n"
    and ranges: "\<And>b. GetBuffer name m = Some (Some b) \<Longrightarrow>
      buffer_size b \<noteq> 0 \<and> page_fits fs (buffer_offset b) (buffer_size b)"
  shows "map_of xs name =
    (if name \<in> set names \<and> IsLoRAInputName name
     then Some (case GetBuffer name m of
       Some (Some b) \<Rightarrow> take (unat (buffer_size b)) (drop (unat (buffer_offset b)) file)
     | _ \<Rightarrow> replicate (unat n) 0)
     else None)"
proof -
  note d = loaded_data [OF load stored]
  have "manager_loras s1 i = None" using d(2) new by simp
  then obtain data names' where "manager_data s1 i = Some data"
      "GetSignatureInputNames cm ''decode'' = Inr names'" "init_inputs cm data names' [] = Some (Inr xs)"
    using used_lora_buffers [OF use_id _ get] by blast
  then have xs: "init_inputs cm (Some (FileLoraData fs m)) names [] = Some (Inr xs)"
    using d(1) names by simp
  show ?thesis
  proof (cases "name \<in> set names \<and> IsLoRAInputName name")
    case True
    then obtain bs where bs: "init_input cm (Some (FileLoraData fs m)) name = Some (Inr bs)"
      using init_inputs_map_of(2) [OF xs] by blast
    show ?thesis
      using True init_inputs_map_of(1) [OF xs, of name] bs
        init_input_contents [OF bs stored(1) ranges input]
      by simp
  next
    case False
    then show ?thesis using init_inputs_map_of(1) [OF xs, of name] by auto
  qed
qed

section \<open>A failed use\<close>

text \<open>A compiled model whose LoRA buffers can all be created.\<close>

definition serves :: "compiled_model \<Rightarrow> string list \<Rightarrow> bool" where
  "serves cm names \<longleftrightarrow> GetSignatureInputNames cm ''decode'' = Inr names \<and>
     (\<exists>name \<in> set names. IsLoRAInputName name) \<and>
     (\<forall>name \<in> set names. IsLoRAInputName name \<longrightarrow>
        (\<exists>b. CreateInputBuffer cm ''decode'' name = Inr b \<and> lock_buffer b = Ok \<and> ok (PackedSize b)))"

lemma init_inputs_null:
  "\<exists>name \<in> set names. IsLoRAInputName name \<Longrightarrow>
   \<forall>name \<in> set names. IsLoRAInputName name \<longrightarrow>
     (\<exists>b. CreateInputBuffer cm ''decode'' name = Inr b \<and> lock_buffer b = Ok \<and> ok (PackedSize b)) \<Longrightarrow>
   init_inputs cm None names acc = None"
  by (induction names arbitrary: acc) (auto simp: init_input_def fill_tensor_def ok_iff)

text \<open>
  C38. When the use of a loaded adapter fails, its weights have been moved away and a null pointer stays
  under its id: the id cannot be loaded again (\<^verbatim>\<open>AlreadyExists\<close>), and another use of it, however able the
  compiled model has become to serve it, dereferences the null pointer.
\<close>

theorem failed_use_loses_adapter:
  assumes "UseLoRA cm i s = Some (Inl e, s')" "manager_data s i \<noteq> None" "serves cm' names"
  shows "LoadLoRA fb i assets s' = Some (Inl AlreadyExists, s') \<and> UseLoRA cm' i s' = None"
proof -
  have s': "manager_data s' i = Some None" "manager_loras s' i = None"
    using assms(1,2) by (auto simp: UseLoRA_def split: if_splits bind_splits sum.splits option.splits)
  then have "LoadLoRA fb i assets s' = Some (Inl AlreadyExists, s')" by (simp add: LoadLoRA_def)
  moreover have "CreateLoRA cm' None = None"
    using assms(3) init_inputs_null [of names cm' "[]"] by (auto simp: CreateLoRA_def serves_def)
  ultimately show ?thesis using s' by (simp add: UseLoRA_def)
qed

text \<open>An adapter in use can be loaded again with success, and the new weights are never used.\<close>

lemma reloaded_weights_are_ignored:
  assumes "manager_loras s i = Some l" "LoadLoRA fb i assets s = Some (Ok, s1)"
    "UseLoRA cm i s1 = Some (r, s2)"
  shows "r = Ok" "manager_loras s2 i = Some l"
  using assms by (auto simp: LoadLoRA_def UseLoRA_def split: if_splits sum.splits bind_splits)

text \<open>
  The current adapter has its buffers at all times: \<^verbatim>\<open>GetLoRABuffers\<close> of the manager never answers that
  it is missing.
\<close>

definition current_ready :: "lora_manager \<Rightarrow> bool" where
  "current_ready s \<longleftrightarrow> (\<forall>i. current_lora_id s = Some i \<longrightarrow> manager_loras s i \<noteq> None)"

lemma current_ready_Create: "current_ready CreateLoraManager"
  by (simp add: current_ready_def CreateLoraManager_def)

lemma current_ready_Load: "current_ready s \<Longrightarrow> LoadLoRA fb i assets s = Some (r, s') \<Longrightarrow> current_ready s'"
  by (auto simp: LoadLoRA_def current_ready_def split: if_splits sum.splits bind_splits)

lemma current_ready_Use: "current_ready s \<Longrightarrow> UseLoRA cm i s = Some (r, s') \<Longrightarrow> current_ready s'"
  by (auto simp: UseLoRA_def current_ready_def split: if_splits sum.splits option.splits bind_splits)

section \<open>An adapter with one tensor\<close>

definition weights_bytes :: "byte list" where
  "weights_bytes = replicate 1048576 7"

definition weights_file :: "byte file_system" where
  "weights_file =
     \<lparr>page_size = 4096, GetSize = Inr 1048576,
      mmap = (\<lambda>_ len off. if off mod 4096 = 0 \<and> 0 < len
                then Some (take (unat len) (drop (unat off) weights_bytes)) else None),
      madvise = True\<rparr>"

definition weights_model :: fb_model where
  "weights_model =
     \<lparr>metadata = None, buffers = Some [\<lparr>buffer_offset = 16, buffer_size = 2\<rparr>],
      subgraphs = Some [Some [\<lparr>tensor_name = Some ''query_w_prime_left_0'', tensor_buffer = 0\<rparr>]]\<rparr>"

definition weights_parser :: fb_parser where
  "weights_parser = \<lparr>has_identifier = (\<lambda>_. True), build_model = (\<lambda>_. Some weights_model)\<rparr>"

definition two_byte_model :: compiled_model where
  "two_byte_model =
     \<lparr>GetSignatureInputNames = (\<lambda>_. Inr [''tokens'', ''query_w_prime_left_0'', ''query_w_prime_left_1'']),
      CreateInputBuffer = (\<lambda>_ _. Inr \<lparr>lock_buffer = Ok, PackedSize = Inr 2, bytes = [1, 1]\<rparr>),
      Duplicate = (\<lambda>_. Ok)\<rparr>"

definition busy_model :: compiled_model where
  "busy_model = two_byte_model\<lparr>CreateInputBuffer := (\<lambda>_ _. Inl Internal)\<rparr>"

definition loaded_manager :: lora_manager where
  "loaded_manager = CreateLoraManager\<lparr>manager_data := [1 \<mapsto> Some (FileLoraData weights_file weights_model)]\<rparr>"

lemma holds_weights_file: "holds_file weights_file weights_bytes"
  by (auto simp: holds_file_def weights_file_def weights_bytes_def)

lemma map_weights: "MapRange weights_file 0 kMetadataMaxSize =
    Inr \<lparr>inner_file = \<lparr>mapped_length = 1048576, mapped_data = weights_bytes\<rparr>, inner_offset = 0,
         outer_size = 1048576\<rparr>"
  by (simp add: MapRange_eval weights_file_def kMetadataMaxSize_def weights_bytes_def)

lemma load_weights: "LoadLoRA weights_parser 1 (Inr weights_file) CreateLoraManager = Some (Ok, loaded_manager)"
  by (simp add: LoadLoRA_def CreateFromScopedFile_def map_weights range_contents_def read_range_def
      weights_bytes_def CreateFlatBufferModelFromBuffer_def weights_parser_def CreateLoraManager_def
      loaded_manager_def)

definition used_manager :: lora_manager where
  "used_manager =
     \<lparr>manager_data = (\<lambda>_. None),
      manager_loras = [1 \<mapsto> \<lparr>lora_source = Some (FileLoraData weights_file weights_model),
        lora_buffers = [(''query_w_prime_left_0'', [7, 7]), (''query_w_prime_left_1'', [0, 0])]\<rparr>],
      current_lora_id = Some 1\<rparr>"

lemma lora_names [simp]: "IsLoRAInputName ''query_w_prime_left_0''" "IsLoRAInputName ''query_w_prime_left_1''"
    "\<not> IsLoRAInputName ''tokens''"
  by code_simp+

lemma map_weights_tensor: "MapRange weights_file 16 2 =
    Inr \<lparr>inner_file = \<lparr>mapped_length = 4096, mapped_data = replicate 4096 7\<rparr>, inner_offset = 16,
         outer_size = 2\<rparr>"
  by (simp add: MapRange_eval weights_file_def weights_bytes_def)

lemma find_weights_tensor:
  "GetBuffer ''query_w_prime_left_0'' weights_model = Some (Some \<lparr>buffer_offset = 16, buffer_size = 2\<rparr>)"
  "GetBuffer ''query_w_prime_left_1'' weights_model = Some None"
  by (simp_all add: GetBuffer_def weights_model_def)

lemma replicate_2: "replicate 2 x = [x, x]"
  by (simp add: numeral_2_eq_2)

lemma fill_weights_tensors:
  "init_input two_byte_model (Some (FileLoraData weights_file weights_model)) ''query_w_prime_left_0''
     = Some (Inr [7, 7])"
  "init_input two_byte_model (Some (FileLoraData weights_file weights_model)) ''query_w_prime_left_1''
     = Some (Inr [0, 0])"
  by (simp_all add: init_input_def two_byte_model_def fill_tensor_def HasTensor_def ReadTensor_def
      find_weights_tensor map_weights_tensor range_contents_def read_range_def overwrite_def
      replicate_2)

lemma use_weights: "UseLoRA two_byte_model 1 loaded_manager = Some (Ok, used_manager)"
proof -
  have "CreateLoRA two_byte_model (Some (FileLoraData weights_file weights_model)) =
      Some (Inr \<lparr>lora_source = Some (FileLoraData weights_file weights_model),
        lora_buffers = [(''query_w_prime_left_0'', [7, 7]), (''query_w_prime_left_1'', [0, 0])]\<rparr>)"
    using fill_weights_tensors by (simp add: CreateLoRA_def two_byte_model_def)
  then show ?thesis
    by (simp add: UseLoRA_def loaded_manager_def CreateLoraManager_def used_manager_def fun_eq_iff)
qed

theorem used_adapter_has_weights_of_file_witness:
  "map_of [(''query_w_prime_left_0'', [7, 7 :: byte]), (''query_w_prime_left_1'', [0, 0])]
     ''query_w_prime_left_0'' = Some (take 2 (drop 16 weights_bytes))"
proof -
  have "ManagerGetLoRABuffers two_byte_model used_manager =
      Inr [(''query_w_prime_left_0'', [7, 7]), (''query_w_prime_left_1'', [0, 0])]"
    by (simp add: ManagerGetLoRABuffers_def used_manager_def GetLoRABuffers_def two_byte_model_def)
  from used_adapter_has_weights_of_file [OF load_weights _ use_weights this holds_weights_file,
      where m = weights_model and name = "''query_w_prime_left_0''" and n = 2]
  show ?thesis
    by (simp add: CreateLoraManager_def page_fits_def weights_file_def kMetadataMaxSize_def weights_parser_def
        two_byte_model_def find_weights_tensor)
qed

definition failed_manager :: lora_manager where
  "failed_manager = CreateLoraManager\<lparr>manager_data := [1 \<mapsto> None]\<rparr>"

lemma failed_use: "UseLoRA busy_model 1 loaded_manager = Some (Inl Internal, failed_manager)"
proof -
  have "CreateLoRA busy_model (Some (FileLoraData weights_file weights_model)) = Some (Inl Internal)"
    by (simp add: CreateLoRA_def busy_model_def two_byte_model_def init_input_def)
  then show ?thesis
    by (simp add: UseLoRA_def loaded_manager_def CreateLoraManager_def failed_manager_def)
qed

theorem failed_use_loses_adapter_witness:
  "LoadLoRA weights_parser 1 (Inr weights_file) failed_manager = Some (Inl AlreadyExists, failed_manager) \<and>
   UseLoRA two_byte_model 1 failed_manager = None"
proof -
  have "serves two_byte_model [''tokens'', ''query_w_prime_left_0'', ''query_w_prime_left_1'']"
    by (simp add: serves_def two_byte_model_def)
  from failed_use_loses_adapter [OF failed_use _ this] show ?thesis
    by (simp add: loaded_manager_def)
qed

end
