(* ===== verification/MagicNumbers.thy ===== *)
theory MagicNumbers
  imports Prelude "HOL-Library.Sublist"
begin

text \<open>
  Magic numbers, \<^verbatim>\<open>runtime/executor/magic_number_configs_helper.{h,cc}\<close>. A model that is to be resized
  has prime numbers in the shapes of its tensors, which stand for the length of the context, the
  lengths of prefills and the number of output candidates. The helper finds them and chooses the
  numbers that LiteRT puts in their place. LiteRT models are a parameter: a list of signatures, with the
  names and the dimensions of their tensors, each of which may fail to be read. Dimensions are 32-bit
  numbers. A dimension of a tensor of rank zero is read outside its shape, the value \<open>None\<close>.
\<close>

section \<open>Models\<close>

record model_signature =
  Key :: string
  InputNames :: "string list"
  OutputNames :: "string list"
  InputShape :: "string \<Rightarrow> int list status_or"
  OutputShape :: "string \<Rightarrow> int list status_or"

definition bind_or :: "'a status_or option \<Rightarrow> ('a \<Rightarrow> 'b status_or option) \<Rightarrow> 'b status_or option" where
  "bind_or r k = (case r of None \<Rightarrow> None | Some (Inl e) \<Rightarrow> Some (Inl e) | Some (Inr v) \<Rightarrow> k v)"

lemma bind_or_simps [simp]:
  "bind_or None k = None" "bind_or (Some (Inl e)) k = Some (Inl e)" "bind_or (Some (Inr v)) k = k v"
  by (simp_all add: bind_or_def)

lemma bind_or_Inr_iff: "bind_or r k = Some (Inr w) \<longleftrightarrow> (\<exists>v. r = Some (Inr v) \<and> k v = Some (Inr w))"
  by (auto simp: bind_or_def split: option.splits sum.splits)

definition GetLastDimensionOfInput :: "model_signature \<Rightarrow> string \<Rightarrow> int status_or option" where
  "GetLastDimensionOfInput g name =
     (case InputShape g name of Inl e \<Rightarrow> Some (Inl e)
      | Inr ds \<Rightarrow> (if ds = [] then None else Some (Inr (last ds))))"

definition GetFirstDimensionOfOutput :: "model_signature \<Rightarrow> string \<Rightarrow> int status_or option" where
  "GetFirstDimensionOfOutput g name =
     (case OutputShape g name of Inl e \<Rightarrow> Some (Inl e)
      | Inr ds \<Rightarrow> (if ds = [] then None else Some (Inr (hd ds))))"

section \<open>Finding the magic numbers\<close>

text \<open>The loop over odd numbers; its variable is an \<^verbatim>\<open>int\<close>, which holds half of a 32-bit number.\<close>

function no_divisor_from :: "int \<Rightarrow> int \<Rightarrow> bool" where
  "no_divisor_from n i =
     (if i \<le> n div 2 then (if n mod i = 0 then False else no_divisor_from n (i + 2)) else True)"
  by pat_completeness auto
termination by (relation "measure (\<lambda>(n, i). nat (n div 2 + 1 - i))") auto

declare no_divisor_from.simps [simp del]

definition IsMagicNumber :: "int \<Rightarrow> bool" where
  "IsMagicNumber n = (if n < 11 then False else if n mod 2 = 0 then False else no_divisor_from n 3)"

definition SetMagicNumberIfPrime :: "model_signature \<Rightarrow> string \<Rightarrow> bool \<Rightarrow> int \<Rightarrow> int status_or option" where
  "SetMagicNumberIfPrime g name is_input magic =
     bind_or (if is_input then GetLastDimensionOfInput g name else GetFirstDimensionOfOutput g name)
       (\<lambda>dim. Some (if IsMagicNumber dim
                     then if magic = 0 then Inr dim else if magic = dim then Inr magic else Inl Unknown
                     else Inr magic))"

record magic_numbers =
  context_length :: int
  prefill_lengths :: "int list"
  num_output_candidates :: int

fun prefill_inputs :: "model_signature \<Rightarrow> string list \<Rightarrow> magic_numbers \<Rightarrow> magic_numbers status_or option" where
  "prefill_inputs g [] mn = Some (Inr mn)"
| "prefill_inputs g (name # names) mn =
     (if sublist ''mask'' name then
        bind_or (SetMagicNumberIfPrime g name True (context_length mn)) (\<lambda>c.
          prefill_inputs g names (mn\<lparr>context_length := c\<rparr>))
      else if sublist ''pos'' name then
        bind_or (SetMagicNumberIfPrime g name True 0) (\<lambda>p.
          prefill_inputs g names
            (if 0 < p then mn\<lparr>prefill_lengths := prefill_lengths mn @ [p]\<rparr> else mn))
      else prefill_inputs g names mn)"

fun decode_inputs :: "model_signature \<Rightarrow> string list \<Rightarrow> magic_numbers \<Rightarrow> magic_numbers status_or option" where
  "decode_inputs g [] mn = Some (Inr mn)"
| "decode_inputs g (name # names) mn =
     (if sublist ''mask'' name then
        bind_or (SetMagicNumberIfPrime g name True (context_length mn)) (\<lambda>c.
          bind_or (SetMagicNumberIfPrime g name True c) (\<lambda>c'.
            decode_inputs g names (mn\<lparr>context_length := c'\<rparr>)))
      else decode_inputs g names mn)"

fun decode_outputs :: "model_signature \<Rightarrow> string list \<Rightarrow> magic_numbers \<Rightarrow> magic_numbers status_or option" where
  "decode_outputs g [] mn = Some (Inr mn)"
| "decode_outputs g (name # names) mn =
     (if sublist ''logits'' name then
        bind_or (SetMagicNumberIfPrime g name False (num_output_candidates mn)) (\<lambda>n.
          decode_outputs g names (mn\<lparr>num_output_candidates := n\<rparr>))
      else decode_outputs g names mn)"

fun scan_signatures :: "model_signature status_or list \<Rightarrow> magic_numbers \<Rightarrow> magic_numbers status_or option" where
  "scan_signatures [] mn = Some (Inr mn)"
| "scan_signatures (Inl e # gs) mn = Some (Inl e)"
| "scan_signatures (Inr g # gs) mn =
     (if prefix ''prefill'' (Key g) then
        bind_or (prefill_inputs g (InputNames g) mn) (scan_signatures gs)
      else if prefix ''decode'' (Key g) then
        bind_or (decode_inputs g (InputNames g) mn) (\<lambda>mn'.
          bind_or (decode_outputs g (OutputNames g) mn') (scan_signatures gs))
      else scan_signatures gs mn)"

definition GetMagicNumbersFromModel :: "model_signature status_or list \<Rightarrow> magic_numbers status_or option" where
  "GetMagicNumbersFromModel model =
     bind_or (scan_signatures model (magic_numbers.make 0 [] 0)) (\<lambda>mn.
       Some (Inr (mn\<lparr>prefill_lengths := sort (prefill_lengths mn)\<rparr>)))"

section \<open>Choosing the target numbers\<close>

text \<open>The halving loop, which does not end for a negative number.\<close>

partial_function (option) halve_until :: "int \<Rightarrow> int \<Rightarrow> int option" where
  "halve_until magic target = (if magic < target then halve_until magic (target div 2) else Some target)"

declare halve_until.simps [code]

definition GetDefaultTargetNumber :: "int \<Rightarrow> int option" where
  "GetDefaultTargetNumber magic =
     (if 256 < magic then Some (magic div 256 * 256) else halve_until magic 256)"

definition GetTargetNumber :: "int \<Rightarrow> int \<Rightarrow> int option" where
  "GetTargetNumber magic hint =
     (if 0 < hint \<and> hint < magic then Some hint else GetDefaultTargetNumber magic)"

text \<open>
  The loop over the prefill lengths: the target numbers, and the batch sizes that are left.
\<close>

definition cap_target :: "int \<Rightarrow> int \<Rightarrow> int" where
  "cap_target ctx target = (if 0 < ctx \<and> ctx < target then ctx else target)"

fun match_prefill_lengths :: "int \<Rightarrow> int list \<Rightarrow> int list \<Rightarrow> (int list \<times> int list) option" where
  "match_prefill_lengths ctx bs [] = Some ([], bs)"
| "match_prefill_lengths ctx [] (m # ms) =
     Option.bind (GetDefaultTargetNumber m) (\<lambda>t.
       map_option (\<lambda>(ts, left). (cap_target ctx t # ts, left)) (match_prefill_lengths ctx [] ms))"
| "match_prefill_lengths ctx (b # bs) (m # ms) =
     (if m < b then
        Option.bind (GetDefaultTargetNumber m) (\<lambda>t.
          map_option (\<lambda>(ts, left). (cap_target ctx t # ts, left)) (match_prefill_lengths ctx (b # bs) ms))
      else map_option (\<lambda>(ts, left). (cap_target ctx b # ts, left)) (match_prefill_lengths ctx bs ms))"

section \<open>Signatures to verify\<close>

text \<open>\<open>matches\<close> is \<^verbatim>\<open>std::find\<close> and the comparison with the target at the same index.\<close>

definition target_of_prefill :: "magic_numbers \<Rightarrow> magic_numbers \<Rightarrow> int \<Rightarrow> int \<Rightarrow> bool option" where
  "target_of_prefill magic target dim test_dim =
     (let diff = length (takeWhile (\<lambda>p. p \<noteq> dim) (prefill_lengths magic)) in
      if diff < length (prefill_lengths magic) then
        if diff < length (prefill_lengths target) then Some (test_dim = prefill_lengths target ! diff)
        else None
      else Some False)"

fun same_inputs ::
  "magic_numbers \<Rightarrow> magic_numbers \<Rightarrow> model_signature \<Rightarrow> model_signature \<Rightarrow> string list \<Rightarrow> bool status_or option"
where
  "same_inputs magic target g test [] = Some (Inr True)"
| "same_inputs magic target g test (name # names) =
     (if sublist ''mask'' name \<or> sublist ''pos'' name then
        bind_or (GetLastDimensionOfInput g name) (\<lambda>dim.
          bind_or (GetLastDimensionOfInput test name) (\<lambda>test_dim.
            if dim = test_dim \<or> dim = context_length magic \<and> test_dim = context_length target
            then same_inputs magic target g test names
            else Option.bind (target_of_prefill magic target dim test_dim) (\<lambda>same.
                   if same then same_inputs magic target g test names else Some (Inr False))))
      else same_inputs magic target g test names)"

fun same_outputs ::
  "magic_numbers \<Rightarrow> magic_numbers \<Rightarrow> model_signature \<Rightarrow> model_signature \<Rightarrow> string list \<Rightarrow> bool status_or option"
where
  "same_outputs magic target g test [] = Some (Inr True)"
| "same_outputs magic target g test (name # names) =
     (if sublist ''logits'' name then
        bind_or (GetFirstDimensionOfOutput g name) (\<lambda>dim.
          bind_or (GetFirstDimensionOfOutput test name) (\<lambda>test_dim.
            if dim = test_dim \<or>
               dim = num_output_candidates magic \<and> test_dim = num_output_candidates target
            then same_outputs magic target g test names else Some (Inr False)))
      else same_outputs magic target g test names)"

definition same_shape ::
  "magic_numbers \<Rightarrow> magic_numbers \<Rightarrow> model_signature \<Rightarrow> model_signature \<Rightarrow> bool status_or option"
where
  "same_shape magic target g test =
     bind_or (same_inputs magic target g test (InputNames g)) (\<lambda>same.
       if same \<and> prefix ''test_decode'' (Key test)
       then same_outputs magic target g test (OutputNames g) else Some (Inr same))"

fun test_signatures ::
  "magic_numbers \<Rightarrow> magic_numbers \<Rightarrow> model_signature \<Rightarrow> model_signature status_or list \<Rightarrow>
   (string \<times> string) list status_or option"
where
  "test_signatures magic target g [] = Some (Inr [])"
| "test_signatures magic target g (Inl e # tests) = Some (Inl e)"
| "test_signatures magic target g (Inr test # tests) =
     (if \<not> prefix ''test_prefill'' (Key test) \<and> \<not> prefix ''test_decode'' (Key test)
      then test_signatures magic target g tests
      else bind_or (same_shape magic target g test) (\<lambda>same.
             bind_or (test_signatures magic target g tests) (\<lambda>ps.
               Some (Inr (if same then (Key g, Key test) # ps else ps)))))"

fun pairs_from ::
  "model_signature status_or list \<Rightarrow> magic_numbers \<Rightarrow> magic_numbers \<Rightarrow> model_signature status_or list \<Rightarrow>
   (string \<times> string) list status_or option"
where
  "pairs_from model magic target [] = Some (Inr [])"
| "pairs_from model magic target (Inl e # gs) = Some (Inl e)"
| "pairs_from model magic target (Inr g # gs) =
     (if \<not> prefix ''prefill'' (Key g) \<and> \<not> prefix ''decode'' (Key g)
      then pairs_from model magic target gs
      else bind_or (test_signatures magic target g model) (\<lambda>ps.
             bind_or (pairs_from model magic target gs) (\<lambda>qs. Some (Inr (ps @ qs)))))"

definition GetVerificationPairs ::
  "model_signature status_or list \<Rightarrow> magic_numbers \<Rightarrow> magic_numbers \<Rightarrow> (string \<times> string) list status_or option"
where
  "GetVerificationPairs model magic target = pairs_from model magic target model"

section \<open>The options of the environment\<close>

record magic_config =
  magic_number :: int
  target_number :: int
  signature_prefix :: "string option"

text \<open>The advanced settings; the batch sizes are a set, here in its order.\<close>

record advanced_settings =
  prefill_batch_sizes :: "int list"
  settings_num_output_candidates :: int
  verify_magic_numbers :: bool

definition default_advanced_settings :: advanced_settings where
  "default_advanced_settings =
     \<lparr>prefill_batch_sizes = [], settings_num_output_candidates = 1, verify_magic_numbers = False\<rparr>"

record magic_env =
  magic_model :: "model_signature status_or list status_or"
  max_num_tokens :: "32 word"
  advanced :: "advanced_settings option"
  configs_can_be_created :: bool
  verifications_can_be_created :: bool

text \<open>
  The members of the helper: an array of configurations, where \<open>None\<close> is an entry that has not been
  written, and the verifications, \<open>(signature, test_signature)\<close>.
\<close>

record magic_helper =
  magic_number_configs :: "magic_config option list option"
  magic_number_verifications :: "(string \<times> string) list option"

datatype env_option = MagicNumberConfigs | MagicNumberVerifications

definition write_config ::
  "nat \<Rightarrow> magic_config \<Rightarrow> magic_config option list \<Rightarrow> magic_config option list option"
where
  "write_config i c cs = (if i < length cs then Some (cs[i := Some c]) else None)"

text \<open>A configuration for a magic number that the model has, at an index.\<close>

definition configure ::
  "nat \<Rightarrow> int \<Rightarrow> int \<Rightarrow> string option \<Rightarrow> magic_config option list \<Rightarrow>
   (int \<times> magic_config option list) option"
where
  "configure i magic hint pre cs =
     (if 0 < magic then
        Option.bind (GetTargetNumber magic hint) (\<lambda>t.
          map_option (Pair t) (write_config i \<lparr>magic_number = magic, target_number = t, signature_prefix = pre\<rparr> cs))
      else Some (0, cs))"

fun write_prefill_configs ::
  "nat \<Rightarrow> (int \<times> int) list \<Rightarrow> magic_config option list \<Rightarrow> magic_config option list option"
where
  "write_prefill_configs i [] cs = Some cs"
| "write_prefill_configs i ((m, t) # mts) cs =
     Option.bind
       (write_config i \<lparr>magic_number = m, target_number = t, signature_prefix = Some ''prefill''\<rparr> cs)
       (write_prefill_configs (i + 1) mts)"

text \<open>Everything but the verification: the target numbers and the configurations.\<close>

definition magic_configs ::
  "magic_numbers \<Rightarrow> 32 word \<Rightarrow> advanced_settings \<Rightarrow> (magic_numbers \<times> magic_config option list) option"
where
  "magic_configs mn max_tokens adv =
     (let has = (\<lambda>n. if 0 < n then 1 else 0 :: nat);
          base = has (context_length mn) + has (num_output_candidates mn);
          num_configs = base + length (prefill_lengths mn);
          skipped = length (prefill_batch_sizes adv) - length (prefill_lengths mn) in
      Option.bind (configure 0 (context_length mn) (uint max_tokens) None (replicate num_configs None))
        (\<lambda>(ctx, cs1).
      Option.bind (configure (has (context_length mn)) (num_output_candidates mn)
                     (settings_num_output_candidates adv) (Some ''decode'') cs1) (\<lambda>(cands, cs2).
      Option.bind (match_prefill_lengths ctx (drop skipped (prefill_batch_sizes adv)) (prefill_lengths mn))
        (\<lambda>(ts, left).
      map_option (\<lambda>cs. (magic_numbers.make ctx ts cands, cs))
        (write_prefill_configs base (zip (prefill_lengths mn) ts) cs2)))))"

definition option_list :: "magic_helper \<Rightarrow> env_option list" where
  "option_list h = MagicNumberConfigs #
     (if magic_number_verifications h = None then [] else [MagicNumberVerifications])"

definition verify_step ::
  "magic_env \<Rightarrow> model_signature status_or list \<Rightarrow> magic_numbers \<Rightarrow> magic_numbers \<Rightarrow> magic_helper \<Rightarrow>
   (env_option list \<times> magic_helper) option"
where
  "verify_step env model mn target h =
     (case GetVerificationPairs model mn target of
        None \<Rightarrow> None
      | Some (Inl _) \<Rightarrow> Some (option_list h, h)
      | Some (Inr ps) \<Rightarrow>
          if ps = [] then Some (option_list h, h)
          else if \<not> verifications_can_be_created env then Some ([], h)
          else let h' = h\<lparr>magic_number_verifications := Some ps\<rparr> in Some (option_list h', h'))"

definition GetLiteRtEnvOptions ::
  "magic_env \<Rightarrow> magic_helper \<Rightarrow> (env_option list \<times> magic_helper) option"
where
  "GetLiteRtEnvOptions env h =
     (case magic_model env of
        Inl _ \<Rightarrow> Some ([], h)
      | Inr model \<Rightarrow>
          (case GetMagicNumbersFromModel model of
             None \<Rightarrow> None
           | Some (Inl _) \<Rightarrow> Some ([], h)
           | Some (Inr mn) \<Rightarrow>
               if context_length mn = 0 \<and> prefill_lengths mn = [] \<and> num_output_candidates mn = 0
               then Some ([], h)
               else if \<not> configs_can_be_created env then Some ([], h)
               else
                 let adv = (case advanced env of None \<Rightarrow> default_advanced_settings | Some a \<Rightarrow> a) in
                 Option.bind (magic_configs mn (max_num_tokens env) adv) (\<lambda>(target, cs).
                   let h' = h\<lparr>magic_number_configs := Some cs\<rparr> in
                   if verify_magic_numbers adv then verify_step env model mn target h'
                   else Some (option_list h', h'))))"

section \<open>Magic numbers are primes\<close>

definition is_prime :: "int \<Rightarrow> bool" where
  "is_prime n \<longleftrightarrow> 1 < n \<and> (\<forall>d. 1 < d \<longrightarrow> d < n \<longrightarrow> \<not> d dvd n)"

lemma no_divisor_from_iff:
  "no_divisor_from n i \<longleftrightarrow> (\<forall>k. i + 2 * int k \<le> n div 2 \<longrightarrow> \<not> i + 2 * int k dvd n)"
proof (induction n i rule: no_divisor_from.induct)
  case (1 n i)
  show ?case
  proof (cases "i \<le> n div 2 \<and> n mod i \<noteq> 0")
    case True
    have "(\<forall>k. i + 2 * int k \<le> n div 2 \<longrightarrow> \<not> i + 2 * int k dvd n) \<longleftrightarrow>
        (\<forall>k. i + 2 + 2 * int k \<le> n div 2 \<longrightarrow> \<not> i + 2 + 2 * int k dvd n)" (is "?l \<longleftrightarrow> ?r")
    proof
      assume ?l
      then show ?r by (auto dest: spec [of _ "Suc k" for k] simp: algebra_simps)
    next
      assume r: ?r
      show ?l
      proof
        fix k
        show "i + 2 * int k \<le> n div 2 \<longrightarrow> \<not> i + 2 * int k dvd n"
          using True r [THEN spec, of "k - 1"]
          by (cases k) (simp_all add: dvd_eq_mod_eq_0 algebra_simps)
      qed
    qed
    then show ?thesis using 1 True by (simp add: no_divisor_from.simps [of n i])
  next
    case False
    then show ?thesis
      by (subst no_divisor_from.simps) (auto simp: dvd_eq_mod_eq_0 intro: exI [of _ "0 :: nat"])
  qed
qed

lemma IsMagicNumber_iff: "IsMagicNumber n \<longleftrightarrow> 10 < n \<and> is_prime n"
proof (cases "10 < n \<and> n mod 2 \<noteq> 0")
  case True
  have "no_divisor_from n 3 \<longleftrightarrow> is_prime n"
  proof
    assume d: "no_divisor_from n 3"
    have "\<not> d dvd n" if "1 < d" "d < n" for d
    proof
      assume "d dvd n"
      then obtain c where c: "n = d * c" by (elim dvdE)
      have "0 < d * c" "d * 1 < d * c" using c that by simp_all
      then have "1 < c" using that(1) by (simp only: mult_less_cancel_left_pos)
      then have "d * 2 \<le> n" unfolding c using that(1) by (intro mult_left_mono) simp_all
      then have le: "d \<le> n div 2" by presburger
      have "odd d" using True c by (auto simp: dvd_eq_mod_eq_0 [symmetric])
      then obtain k where "d = 2 * k + 1" by (elim oddE)
      then have "d = 3 + 2 * (k - 1)" "0 \<le> k - 1" using that(1) by simp_all
      then obtain j where "d = 3 + 2 * int j" using nonneg_int_cases by metis
      then show False using d le \<open>d dvd n\<close> by (auto simp: no_divisor_from_iff)
    qed
    then show "is_prime n" using True by (simp add: is_prime_def)
  next
    assume p: "is_prime n"
    show "no_divisor_from n 3"
      unfolding no_divisor_from_iff
    proof (intro allI impI)
      fix k
      assume "3 + 2 * int k \<le> n div 2"
      then have "3 + 2 * int k < n" using True by linarith
      then show "\<not> 3 + 2 * int k dvd n" using p by (simp add: is_prime_def)
    qed
  qed
  then show ?thesis using True by (simp add: IsMagicNumber_def)
next
  case False
  have "\<not> is_prime n" if "10 < n" "n mod 2 = 0"
    using that by (auto simp: is_prime_def dvd_eq_mod_eq_0 intro!: exI [of _ 2])
  then show ?thesis using False by (auto simp: IsMagicNumber_def)
qed

text \<open>What has been found so far: zero, or primes greater than ten.\<close>

definition magic_ok :: "magic_numbers \<Rightarrow> bool" where
  "magic_ok mn \<longleftrightarrow>
     (context_length mn = 0 \<or> IsMagicNumber (context_length mn)) \<and>
     (\<forall>p \<in> set (prefill_lengths mn). IsMagicNumber p) \<and>
     (num_output_candidates mn = 0 \<or> IsMagicNumber (num_output_candidates mn))"

lemma SetMagicNumberIfPrime_Inr:
  "SetMagicNumberIfPrime g name b n = Some (Inr r) \<Longrightarrow> r = n \<or> IsMagicNumber r"
  by (auto simp: SetMagicNumberIfPrime_def bind_or_Inr_iff split: if_splits)

lemma magic_ok_context:
  "SetMagicNumberIfPrime g name b (context_length mn) = Some (Inr c) \<Longrightarrow> magic_ok mn \<Longrightarrow>
   magic_ok (mn\<lparr>context_length := c\<rparr>)"
  by (drule SetMagicNumberIfPrime_Inr) (auto simp: magic_ok_def)

lemma magic_ok_candidates:
  "SetMagicNumberIfPrime g name b (num_output_candidates mn) = Some (Inr c) \<Longrightarrow> magic_ok mn \<Longrightarrow>
   magic_ok (mn\<lparr>num_output_candidates := c\<rparr>)"
  by (drule SetMagicNumberIfPrime_Inr) (auto simp: magic_ok_def)

lemma magic_ok_prefill:
  "SetMagicNumberIfPrime g name b 0 = Some (Inr p) \<Longrightarrow> magic_ok mn \<Longrightarrow>
   magic_ok (if 0 < p then mn\<lparr>prefill_lengths := prefill_lengths mn @ [p]\<rparr> else mn)"
  by (drule SetMagicNumberIfPrime_Inr) (auto simp: magic_ok_def)

lemma prefill_inputs_ok: "magic_ok mn \<Longrightarrow> prefill_inputs g names mn = Some (Inr mn') \<Longrightarrow> magic_ok mn'"
proof (induction names arbitrary: mn)
  case (Cons name names)
  show ?case
  proof (cases "sublist ''mask'' name")
    case True
    then show ?thesis using Cons magic_ok_context by (simp add: bind_or_Inr_iff) blast
  next
    case False
    then show ?thesis using Cons magic_ok_prefill
      by (cases "sublist ''pos'' name") (simp_all only: prefill_inputs.simps if_False if_True bind_or_Inr_iff, blast+)
  qed
qed simp

lemma decode_inputs_ok: "magic_ok mn \<Longrightarrow> decode_inputs g names mn = Some (Inr mn') \<Longrightarrow> magic_ok mn'"
proof (induction names arbitrary: mn)
  case (Cons name names)
  show ?case
  proof (cases "sublist ''mask'' name")
    case True
    then obtain c c' where c: "SetMagicNumberIfPrime g name True (context_length mn) = Some (Inr c)"
        and c': "SetMagicNumberIfPrime g name True c = Some (Inr c')"
        and rest: "decode_inputs g names (mn\<lparr>context_length := c'\<rparr>) = Some (Inr mn')"
      using Cons.prems(2) by (auto simp: bind_or_Inr_iff)
    have "magic_ok (mn\<lparr>context_length := c, context_length := c'\<rparr>)"
      using magic_ok_context [OF _ magic_ok_context [OF c Cons.prems(1)], of g name True c'] c' by simp
    then show ?thesis using Cons.IH [OF _ rest] by simp
  next
    case False
    then show ?thesis using Cons by simp
  qed
qed simp

lemma decode_outputs_ok: "magic_ok mn \<Longrightarrow> decode_outputs g names mn = Some (Inr mn') \<Longrightarrow> magic_ok mn'"
proof (induction names arbitrary: mn)
  case (Cons name names)
  then show ?case using magic_ok_candidates
    by (cases "sublist ''logits'' name") (simp_all add: bind_or_Inr_iff, blast)
qed simp

lemma scan_signatures_ok: "magic_ok mn \<Longrightarrow> scan_signatures gs mn = Some (Inr mn') \<Longrightarrow> magic_ok mn'"
proof (induction gs mn rule: scan_signatures.induct)
  case (3 g gs mn)
  then show ?case
    by (auto simp: bind_or_Inr_iff split: if_splits)
       (metis prefill_inputs_ok decode_inputs_ok decode_outputs_ok)+
qed simp_all

lemma GetMagicNumbersFromModel_ok:
  assumes "GetMagicNumbersFromModel model = Some (Inr mn)"
  shows "magic_ok mn"
proof -
  obtain mn' where scan: "scan_signatures model (magic_numbers.make 0 [] 0) = Some (Inr mn')"
      and mn: "mn = mn'\<lparr>prefill_lengths := sort (prefill_lengths mn')\<rparr>"
    using assms by (auto simp: GetMagicNumbersFromModel_def bind_or_Inr_iff)
  have "magic_ok (magic_numbers.make 0 [] 0)" by (simp add: magic_ok_def magic_numbers.defs)
  from scan_signatures_ok [OF this scan] show ?thesis by (simp add: mn magic_ok_def)
qed

lemma IsMagicNumber_pos: "IsMagicNumber n \<Longrightarrow> 10 < n"
  by (simp add: IsMagicNumber_iff)

section \<open>Target numbers\<close>

lemma halve_until_power:
  "0 < m \<Longrightarrow> \<exists>j \<le> k. halve_until m (2 ^ k) = Some (2 ^ j) \<and> 2 ^ j \<le> m \<and> (j = k \<or> m < 2 ^ Suc j)"
proof (induction k)
  case 0
  then show ?case by (subst halve_until.simps) simp
next
  case (Suc k)
  show ?case
  proof (cases "m < 2 ^ Suc k")
    case True
    then have "halve_until m (2 ^ Suc k) = halve_until m (2 ^ k)"
      by (subst halve_until.simps) simp
    moreover obtain j where "j \<le> k" "halve_until m (2 ^ k) = Some (2 ^ j)" "2 ^ j \<le> m"
        "j = k \<or> m < 2 ^ Suc j"
      using Suc by blast
    ultimately show ?thesis using True by (intro exI [of _ j]) auto
  next
    case False
    then show ?thesis by (subst halve_until.simps) (intro exI [of _ "Suc k"], simp)
  qed
qed

text \<open>For a negative number the loop stays at zero.\<close>

lemma halve_until_negative:
  assumes "m < 0"
  shows "halve_until m 0 = None"
proof (cases "halve_until m 0")
  case (Some r)
  have "0 = (0 :: int) \<longrightarrow> m < 0 \<longrightarrow> False"
    by (rule halve_until.raw_induct [OF _ Some]) (auto split: if_splits)
  then show ?thesis using assms by simp
qed

lemma GetDefaultTargetNumber_bounds:
  assumes "0 < m"
  obtains t where "GetDefaultTargetNumber m = Some t" "0 < t" "t \<le> m" "m < 2 * t \<or> m \<le> t + 255"
proof (cases "256 < m")
  case True
  then have "0 < m div 256 * 256" "m div 256 * 256 \<le> m" "m \<le> m div 256 * 256 + 255"
    by presburger+
  then show ?thesis using True that [of "m div 256 * 256"] by (simp add: GetDefaultTargetNumber_def)
next
  case False
  then show ?thesis
    using halve_until_power [OF assms, of 8] that by (auto simp: GetDefaultTargetNumber_def)
qed

lemma GetTargetNumber_bounds:
  assumes "0 < m"
  obtains t where "GetTargetNumber m hint = Some t" "0 < t" "t \<le> m"
proof (cases "0 < hint \<and> hint < m")
  case True
  then show ?thesis using that by (simp add: GetTargetNumber_def)
next
  case False
  then show ?thesis
    using GetDefaultTargetNumber_bounds [OF assms] that unfolding GetTargetNumber_def by metis
qed

definition target_ok :: "int \<Rightarrow> int \<Rightarrow> int \<Rightarrow> bool" where
  "target_ok ctx m t \<longleftrightarrow> 0 < t \<and> t \<le> m \<and> (0 < ctx \<longrightarrow> t \<le> ctx)"

lemma target_ok_cap: "0 < t \<Longrightarrow> t \<le> m \<Longrightarrow> target_ok ctx m (cap_target ctx t)"
  by (auto simp: target_ok_def cap_target_def)

lemma match_prefill_lengths_ok:
  assumes "\<forall>m \<in> set ms. 0 < m" "\<forall>b \<in> set bs. 0 < b"
  shows "\<exists>ts left. match_prefill_lengths ctx bs ms = Some (ts, left) \<and> list_all2 (target_ok ctx) ms ts"
  using assms
proof (induction ctx bs ms rule: match_prefill_lengths.induct)
  case (1 ctx bs)
  then show ?case by simp
next
  case (2 ctx m ms)
  obtain t where "GetDefaultTargetNumber m = Some t" "0 < t" "t \<le> m"
    by (rule GetDefaultTargetNumber_bounds [of m]) (use 2(2) in simp_all)
  then show ?case using 2 by (force simp: target_ok_cap)
next
  case (3 ctx b bs m ms)
  obtain t where t: "GetDefaultTargetNumber m = Some t" "0 < t" "t \<le> m"
    by (rule GetDefaultTargetNumber_bounds [of m]) (use 3(3) in simp_all)
  show ?case
  proof (cases "m < b")
    case True
    then show ?thesis using 3 t by (force simp: target_ok_cap)
  next
    case False
    then show ?thesis using 3 by (force simp: target_ok_cap)
  qed
qed

section \<open>Batch sizes\<close>



text \<open>
  When there are more sizes than magic numbers, the smallest sizes are skipped before the matching,
  even where a larger size cannot be placed: of the sizes 20 and 64 none is used for the magic number
  31, although 20 fits.
\<close>

lemma skipped_size_would_fit:
  "match_prefill_lengths 0 (drop (length [20, 64 :: int] - length [31 :: int]) [20, 64]) [31] = Some ([16], [64])"
  "match_prefill_lengths 0 [20] [31] = Some ([20], [])"
  by code_simp+

section \<open>The configurations\<close>

lemma write_config_next:
  "write_config (length done) c (map Some done @ replicate (Suc k) None) =
   Some (map Some (done @ [c]) @ replicate k None)"
  by (simp add: write_config_def list_update_append)

lemma write_prefill_configs_eq:
  "write_prefill_configs (length done) mts (map Some done @ replicate (length mts) None) =
   Some (map Some (done @ map (\<lambda>(m, t). \<lparr>magic_number = m, target_number = t,
     signature_prefix = Some ''prefill''\<rparr>) mts))"
proof (induction mts arbitrary: "done")
  case (Cons mt mts)
  show ?case
    using Cons [of "done @ [\<lparr>magic_number = fst mt, target_number = snd mt,
      signature_prefix = Some ''prefill''\<rparr>]"]
    by (cases mt) (simp add: write_config_next [simplified])
qed simp

definition config_for :: "int \<Rightarrow> int \<Rightarrow> string option \<Rightarrow> magic_config list" where
  "config_for magic target pre =
     (if 0 < magic then [\<lparr>magic_number = magic, target_number = target, signature_prefix = pre\<rparr>] else [])"

definition bounded_by :: "int \<Rightarrow> int \<Rightarrow> bool" where
  "bounded_by magic target \<longleftrightarrow> (if 0 < magic then 0 < target \<and> target \<le> magic else target = 0)"

lemma configure_next:
  assumes "k = length (config_for magic 0 pre)"
  obtains t where "configure (length done) magic hint pre (map Some done @ replicate (k + n) None) =
      Some (t, map Some (done @ config_for magic t pre) @ replicate n None)"
    "bounded_by magic t"
proof (cases "0 < magic")
  case True
  obtain t where t: "GetTargetNumber magic hint = Some t" "0 < t" "t \<le> magic"
    by (rule GetTargetNumber_bounds [OF True])
  show ?thesis
    by (rule that [of t]) (use True t assms in
      \<open>simp_all add: bounded_by_def configure_def config_for_def write_config_next [simplified]\<close>)
next
  case False
  then show ?thesis using that [of 0] assms by (simp add: configure_def config_for_def bounded_by_def)
qed

definition config_list :: "magic_numbers \<Rightarrow> int \<Rightarrow> int \<Rightarrow> int list \<Rightarrow> magic_config list" where
  "config_list mn ctx cands ts =
     config_for (context_length mn) ctx None @
     config_for (num_output_candidates mn) cands (Some ''decode'') @
     map (\<lambda>(m, t). \<lparr>magic_number = m, target_number = t, signature_prefix = Some ''prefill''\<rparr>)
       (zip (prefill_lengths mn) ts)"

lemma magic_configs_eq:
  assumes "magic_ok mn" "\<forall>b \<in> set (prefill_batch_sizes adv). 0 < b"
  obtains ctx cands ts where
    "magic_configs mn max_tokens adv = Some (magic_numbers.make ctx ts cands,
       map Some (config_list mn ctx cands ts))"
    "bounded_by (context_length mn) ctx" "bounded_by (num_output_candidates mn) cands"
    "list_all2 (target_ok ctx) (prefill_lengths mn) ts"
proof -
  let ?c = "config_for (context_length mn)" and ?d = "config_for (num_output_candidates mn)"
  let ?l = "length (prefill_lengths mn)"
  obtain ctx where ctx: "configure 0 (context_length mn) (uint max_tokens) None
        (replicate (length (?c 0 None) + (length (?d 0 (Some ''decode'')) + ?l)) None) =
      Some (ctx, map Some (?c ctx None) @ replicate (length (?d 0 (Some ''decode'')) + ?l) None)"
    and ctx_ok: "bounded_by (context_length mn) ctx"
    by (rule configure_next [OF refl, where ?done = "[]", simplified])
  obtain cands where cands: "configure (length (?c ctx None)) (num_output_candidates mn)
        (settings_num_output_candidates adv) (Some ''decode'')
        (map Some (?c ctx None) @ replicate (length (?d 0 (Some ''decode'')) + ?l) None) =
      Some (cands, map Some (?c ctx None @ ?d cands (Some ''decode'')) @ replicate ?l None)"
    and cands_ok: "bounded_by (num_output_candidates mn) cands"
    by (rule configure_next [OF refl])
  let ?bs = "drop (length (prefill_batch_sizes adv) - ?l) (prefill_batch_sizes adv)"
  have "\<forall>m \<in> set (prefill_lengths mn). 0 < m" using assms(1) IsMagicNumber_pos by (force simp: magic_ok_def)
  moreover have "\<forall>b \<in> set ?bs. 0 < b" using assms(2) by (meson in_set_dropD)
  ultimately obtain ts left where ts: "match_prefill_lengths ctx ?bs (prefill_lengths mn) = Some (ts, left)"
      "list_all2 (target_ok ctx) (prefill_lengths mn) ts"
    using match_prefill_lengths_ok by blast
  have l: "length (zip (prefill_lengths mn) ts) = ?l" using ts(2) by (simp add: list_all2_lengthD)
  note w = write_prefill_configs_eq [of "?c ctx None @ ?d cands (Some ''decode'')"
      "zip (prefill_lengths mn) ts", unfolded l]
  have lens: "length (?c t pre) = (if 0 < context_length mn then 1 else 0)"
      "length (?d t pre) = (if 0 < num_output_candidates mn then 1 else 0)" for t pre
    by (simp_all add: config_for_def)
  show thesis
    by (rule that [OF _ ctx_ok cands_ok ts(2)])
       (use ctx cands ts(1) w in \<open>simp add: magic_configs_def config_list_def Let_def lens add.assoc\<close>)
qed

lemma config_list_ok:
  assumes "magic_ok mn" "bounded_by (context_length mn) ctx" "bounded_by (num_output_candidates mn) cands"
    "list_all2 (target_ok ctx) (prefill_lengths mn) ts"
  shows "map magic_number (config_list mn ctx cands ts) =
      filter (\<lambda>n. n \<noteq> 0) [context_length mn, num_output_candidates mn] @ prefill_lengths mn"
    and "c \<in> set (config_list mn ctx cands ts) \<Longrightarrow>
      IsMagicNumber (magic_number c) \<and> 0 < target_number c \<and> target_number c \<le> magic_number c"
    and "c \<in> set (config_list mn ctx cands ts) \<Longrightarrow> signature_prefix c = None \<Longrightarrow>
      0 < ctx \<and> target_number c = ctx"
    and "c \<in> set (config_list mn ctx cands ts) \<Longrightarrow> signature_prefix c = Some ''prefill'' \<Longrightarrow>
      0 < ctx \<longrightarrow> target_number c \<le> ctx"
proof -
  have pos: "context_length mn = 0 \<or> 0 < context_length mn"
      "num_output_candidates mn = 0 \<or> 0 < num_output_candidates mn"
    using assms(1) IsMagicNumber_pos by (force simp: magic_ok_def)+
  have z: "map fst (zip (prefill_lengths mn) ts) = prefill_lengths mn"
    using assms(4) by (simp add: list_all2_lengthD)
  have t: "m \<in> set (prefill_lengths mn) \<and> target_ok ctx m t"
    if "(m, t) \<in> set (zip (prefill_lengths mn) ts)" for m t
    using that assms(4) by (auto simp: list_all2_iff dest: set_zip_leftD)
  show "map magic_number (config_list mn ctx cands ts) =
      filter (\<lambda>n. n \<noteq> 0) [context_length mn, num_output_candidates mn] @ prefill_lengths mn"
    using pos z by (auto simp: config_list_def config_for_def comp_def case_prod_beta)
  show "IsMagicNumber (magic_number c) \<and> 0 < target_number c \<and> target_number c \<le> magic_number c"
    if "c \<in> set (config_list mn ctx cands ts)"
    using that assms(1-3)
    by (auto simp: config_list_def config_for_def bounded_by_def magic_ok_def target_ok_def split: if_splits
        dest!: t)
  show "0 < ctx \<and> target_number c = ctx"
    if "c \<in> set (config_list mn ctx cands ts)" "signature_prefix c = None"
    using that assms(2) by (auto simp: config_list_def config_for_def bounded_by_def split: if_splits)
  show "0 < ctx \<longrightarrow> target_number c \<le> ctx"
    if "c \<in> set (config_list mn ctx cands ts)" "signature_prefix c = Some ''prefill''"
    using that by (auto simp: config_list_def config_for_def target_ok_def split: if_splits dest!: t)
qed

section \<open>The whole operation\<close>

text \<open>Every tensor of the model has a dimension.\<close>

definition has_dimensions :: "model_signature status_or list \<Rightarrow> bool" where
  "has_dimensions model \<longleftrightarrow>
     (\<forall>g. Inr g \<in> set model \<longrightarrow> (\<forall>name. InputShape g name \<noteq> Inr [] \<and> OutputShape g name \<noteq> Inr []))"

lemma bind_or_None_iff: "bind_or r k = None \<longleftrightarrow> r = None \<or> (\<exists>v. r = Some (Inr v) \<and> k v = None)"
  by (auto simp: bind_or_def split: option.splits sum.splits)

definition readable :: "model_signature \<Rightarrow> bool" where
  "readable g \<longleftrightarrow> (\<forall>name. InputShape g name \<noteq> Inr [] \<and> OutputShape g name \<noteq> Inr [])"

lemma readable_dims:
  assumes "readable g"
  shows "GetLastDimensionOfInput g name \<noteq> None" "GetFirstDimensionOfOutput g name \<noteq> None"
  using assms
  by (auto simp: readable_def GetLastDimensionOfInput_def GetFirstDimensionOfOutput_def split: sum.splits)

lemma same_inputs_defined:
  "readable g \<Longrightarrow> readable test \<Longrightarrow> length (prefill_lengths target) = length (prefill_lengths magic) \<Longrightarrow>
   same_inputs magic target g test names \<noteq> None"
  by (induction names)
     (auto simp: bind_or_None_iff readable_dims target_of_prefill_def Let_def bind_eq_None_conv
       simp del: not_None_eq)

lemma same_outputs_defined:
  "readable g \<Longrightarrow> readable test \<Longrightarrow> same_outputs magic target g test names \<noteq> None"
  by (induction names) (auto simp: bind_or_None_iff readable_dims simp del: not_None_eq)

lemma same_shape_defined:
  "readable g \<Longrightarrow> readable test \<Longrightarrow> length (prefill_lengths target) = length (prefill_lengths magic) \<Longrightarrow>
   same_shape magic target g test \<noteq> None"
  by (auto simp: same_shape_def bind_or_None_iff same_inputs_defined same_outputs_defined
      simp del: not_None_eq split: if_splits)

lemma test_signatures_defined:
  assumes "readable g" "length (prefill_lengths target) = length (prefill_lengths magic)"
    "\<forall>t. Inr t \<in> set tests \<longrightarrow> readable t"
  shows "test_signatures magic target g tests \<noteq> None"
  using assms(3)
proof (induction tests)
  case (Cons t tests)
  then show ?case
    using same_shape_defined [OF assms(1) _ assms(2)]
    by (cases t) (auto simp: bind_or_None_iff simp del: not_None_eq)
qed simp

lemma GetVerificationPairs_defined:
  assumes "has_dimensions model" "length (prefill_lengths target) = length (prefill_lengths magic)"
  shows "GetVerificationPairs model magic target \<noteq> None"
proof -
  have r: "\<forall>t. Inr t \<in> set model \<longrightarrow> readable t" using assms(1) by (simp add: has_dimensions_def readable_def)
  have "\<forall>t. Inr t \<in> set gs \<longrightarrow> readable t \<Longrightarrow> pairs_from model magic target gs \<noteq> None" for gs
  proof (induction gs)
    case (Cons t gs)
    then show ?case
      using test_signatures_defined [OF _ assms(2) r]
      by (cases t) (auto simp: bind_or_None_iff simp del: not_None_eq)
  qed simp
  then show ?thesis using r unfolding GetVerificationPairs_def by blast
qed

text \<open>
  C31. For a model with magic numbers whose tensors all have a dimension, and positive batch sizes, the
  helper always returns. Each entry of the array of configurations has been written, and the entries
  are one for the length of the context and one for the number of candidates, where the model has
  them, and one for each prefill length. Each magic number is a prime greater than ten, its target is
  positive and not greater than it, and no prefill is longer than the new length of the context.
\<close>

theorem magic_configurations_complete:
  assumes "magic_model env = Inr model" "has_dimensions model" "configs_can_be_created env"
    and found: "GetMagicNumbersFromModel model = Some (Inr mn)"
    and some: "context_length mn \<noteq> 0 \<or> prefill_lengths mn \<noteq> [] \<or> num_output_candidates mn \<noteq> 0"
    and sizes: "\<And>adv. advanced env = Some adv \<Longrightarrow> \<forall>b \<in> set (prefill_batch_sizes adv). 0 < b"
  shows "\<exists>opts h' cs. GetLiteRtEnvOptions env h = Some (opts, h') \<and>
      magic_number_configs h' = Some (map Some cs) \<and>
      map magic_number cs = filter (\<lambda>n. n \<noteq> 0) [context_length mn, num_output_candidates mn] @
        prefill_lengths mn \<and>
      (\<forall>c \<in> set cs. 10 < magic_number c \<and> is_prime (magic_number c) \<and>
         0 < target_number c \<and> target_number c \<le> magic_number c) \<and>
      (\<forall>c \<in> set cs. \<forall>c' \<in> set cs. signature_prefix c = None \<longrightarrow>
         signature_prefix c' = Some ''prefill'' \<longrightarrow> target_number c' \<le> target_number c)"
proof -
  have mn: "magic_ok mn" by (rule GetMagicNumbersFromModel_ok [OF found])
  define adv where "adv = (case advanced env of None \<Rightarrow> default_advanced_settings | Some a \<Rightarrow> a)"
  have "\<forall>b \<in> set (prefill_batch_sizes adv). 0 < b"
    using sizes by (auto simp: adv_def default_advanced_settings_def split: option.splits)
  from magic_configs_eq [OF mn this, of "max_num_tokens env"]
  obtain ctx cands ts where c: "magic_configs mn (max_num_tokens env) adv =
      Some (magic_numbers.make ctx ts cands, map Some (config_list mn ctx cands ts))"
    and b: "bounded_by (context_length mn) ctx" "bounded_by (num_output_candidates mn) cands"
    and t: "list_all2 (target_ok ctx) (prefill_lengths mn) ts" .
  note configs = config_list_ok [OF mn b t]
  have "GetVerificationPairs model mn (magic_numbers.make ctx ts cands) \<noteq> None"
    by (rule GetVerificationPairs_defined [OF assms(2)])
       (use t in \<open>simp add: magic_numbers.defs list_all2_lengthD\<close>)
  then have "\<exists>opts h'. GetLiteRtEnvOptions env h = Some (opts, h') \<and>
      magic_number_configs h' = Some (map Some (config_list mn ctx cands ts))"
    using assms(1,3) found some c
    by (auto simp: GetLiteRtEnvOptions_def adv_def [symmetric] verify_step_def Let_def
        split: option.splits sum.splits)
  then show ?thesis
    using configs by (fastforce simp: IsMagicNumber_iff)
qed

section \<open>A model with magic numbers\<close>

definition magic_prefill :: model_signature where
  "magic_prefill =
     \<lparr>Key = ''prefill_71'', InputNames = [''input_pos'', ''mask''], OutputNames = [],
      InputShape = (\<lambda>name. Inr (if name = ''mask'' then [1, 1, 71, 1031] else [71])),
      OutputShape = (\<lambda>_. Inl NotFound)\<rparr>"

definition magic_decode :: model_signature where
  "magic_decode =
     \<lparr>Key = ''decode'', InputNames = [''input_pos'', ''mask''], OutputNames = [''logits''],
      InputShape = (\<lambda>name. Inr (if name = ''mask'' then [1, 1, 1, 1031] else [1])),
      OutputShape = (\<lambda>_. Inr [13, 1, 262144])\<rparr>"

definition magic_example :: magic_env where
  "magic_example =
     \<lparr>magic_model = Inr [Inr magic_prefill, Inr magic_decode], max_num_tokens = 512,
      advanced = Some \<lparr>prefill_batch_sizes = [32], settings_num_output_candidates = 4,
        verify_magic_numbers = True\<rparr>,
      configs_can_be_created = True, verifications_can_be_created = True\<rparr>"

lemma magic_example_primes: "IsMagicNumber 1031" "IsMagicNumber 71" "IsMagicNumber 13" "\<not> IsMagicNumber 1"
  by code_simp+

lemma magic_example_names:
  "sublist ''mask'' ''mask''" "\<not> sublist ''mask'' ''input_pos''" "sublist ''pos'' ''input_pos''"
  "sublist ''logits'' ''logits''" "prefix ''prefill'' ''prefill_71''" "\<not> prefix ''prefill'' ''decode''"
  "prefix ''decode'' ''decode''"
  by code_simp+

lemma magic_example_found:
  "GetMagicNumbersFromModel [Inr magic_prefill, Inr magic_decode] =
     Some (Inr \<lparr>context_length = 1031, prefill_lengths = [71], num_output_candidates = 13\<rparr>)"
  by (simp add: GetMagicNumbersFromModel_def magic_prefill_def magic_decode_def SetMagicNumberIfPrime_def
      GetLastDimensionOfInput_def GetFirstDimensionOfOutput_def magic_example_primes magic_example_names
      magic_numbers.defs)

theorem magic_configurations_complete_witness:
  "\<exists>opts h' cs. GetLiteRtEnvOptions magic_example
       \<lparr>magic_number_configs = None, magic_number_verifications = None\<rparr> = Some (opts, h') \<and>
     magic_number_configs h' = Some (map Some cs) \<and> map magic_number cs = [1031, 13, 71]"
proof -
  have dims: "has_dimensions [Inr magic_prefill, Inr magic_decode]"
    by (auto simp: has_dimensions_def magic_prefill_def magic_decode_def)
  from magic_configurations_complete [OF _ dims _ magic_example_found, of magic_example
      "\<lparr>magic_number_configs = None, magic_number_verifications = None\<rparr>"]
  show ?thesis
    by (simp add: magic_example_def) (elim exE conjE, intro exI conjI, assumption+)
qed

end
