(* ===== verification/AudioEncoder.thy ===== *)
theory AudioEncoder
  imports Prelude
begin

text \<open>
  The audio executor, \<^verbatim>\<open>runtime/executor/audio_litert_compiled_model_executor.{h,cc}\<close>: the spectrogram is
  cut into chunks of the length of the encoder model; each chunk is encoded, adapted and read into the
  vector of embeddings at the place of its position. The models run by LiteRT are parameters: the
  encoder maps the contents of its two input buffers and its internal state to features, the mask of
  valid tokens and the next state, and the adapter maps features and mask to embeddings. Only a
  streaming encoder has internal state. Buffers are locked without failure. Lengths fit into \<^verbatim>\<open>int\<close>.
  A span outside a vector and a division by zero are the value \<open>None\<close>.
\<close>

section \<open>Data\<close>

record ('v, 'f, 's) audio_executor =
  sequence_length :: nat
  spectrogram_feature_dimensions :: nat
  audio_embedding_dimensions :: nat
  encoder_shrinking_factor :: nat
  is_streaming :: bool
  run_encoder :: "'v list \<Rightarrow> nat list \<Rightarrow> 's \<Rightarrow> ('f \<times> nat list \<times> 's) status_or"
  run_adapter :: "nat list \<Rightarrow> 'f \<Rightarrow> 'v list status_or"

definition CeilIntDiv :: "nat \<Rightarrow> nat \<Rightarrow> nat option" where
  "CeilIntDiv a b = (if b = 0 then None else Some ((a + b - 1) div b))"

text \<open>The position after the last token that the mask marks.\<close>

fun valid_count_from :: "nat list \<Rightarrow> nat \<Rightarrow> nat" where
  "valid_count_from amask 0 = 0"
| "valid_count_from amask (Suc i) = (if amask ! i \<noteq> 0 then Suc i else valid_count_from amask i)"

definition GetValidCount :: "nat list \<Rightarrow> nat" where
  "GetValidCount amask = valid_count_from amask (length amask)"

text \<open>
  \<^verbatim>\<open>TensorBuffer::Write\<close> after the buffer has been cleared, \<^verbatim>\<open>TensorBuffer::Read\<close> of the first numbers,
  and \<^verbatim>\<open>absl::Span::subspan\<close>, which cuts the length and checks the position.
\<close>

definition write_cleared :: "'v \<Rightarrow> nat \<Rightarrow> 'v list \<Rightarrow> 'v list status_or" where
  "write_cleared z n xs =
     (if n < length xs then Inl Internal else Inr (xs @ replicate (n - length xs) z))"

definition read_first :: "nat \<Rightarrow> 'v list \<Rightarrow> 'v list status_or" where
  "read_first n xs = (if length xs < n then Inl Internal else Inr (take n xs))"

definition subspan :: "'v list \<Rightarrow> nat \<Rightarrow> nat \<Rightarrow> 'v list option" where
  "subspan xs pos n = (if length xs < pos then None else Some (take n (drop pos xs)))"

section \<open>Encoding\<close>

text \<open>
  \<^verbatim>\<open>EncodeInternal\<close>, up to the vector it reads into: the number of valid tokens and their embeddings.
  \<^verbatim>\<open>SwapInternalStateBuffers\<close> makes the outputs of the state its inputs; a static encoder has none.
\<close>

definition run_models ::
  "('v, 'f, 's) audio_executor \<Rightarrow> 'v \<Rightarrow> 'v list \<Rightarrow> nat list \<Rightarrow> ('s, nat \<times> 'v list) op"
where
  "run_models ex z spectrogram amask s =
     (let r = try_or_return
            (write_cleared z (sequence_length ex * spectrogram_feature_dimensions ex) spectrogram) (\<lambda>xs.
          try_or_return (write_cleared 0 (sequence_length ex) amask) (\<lambda>ms.
          try_or_return (run_encoder ex xs ms s) (\<lambda>(features, out_mask, s').
          let chunk_valid_tokens = GetValidCount out_mask in
          try_or_return (run_adapter ex out_mask features) (\<lambda>out.
          try_or_return (read_first (chunk_valid_tokens * audio_embedding_dimensions ex) out) (\<lambda>rows.
          Inr ((chunk_valid_tokens, rows), s'))))))
      in case r of Inl e \<Rightarrow> (Inl e, s)
         | Inr (v, s') \<Rightarrow> (Inr v, if is_streaming ex then s' else s))"

text \<open>Writing into \<^verbatim>\<open>audio_embeddings\<close> at a position, without regard to the length of the slice.\<close>

definition write_at :: "nat \<Rightarrow> 'v list \<Rightarrow> 'v list \<Rightarrow> 'v list option" where
  "write_at off xs ys =
     (if off + length xs \<le> length ys then Some (take off ys @ xs @ drop (off + length xs) ys) else None)"

definition chunk_inputs ::
  "('v, 'f, 's) audio_executor \<Rightarrow> 'v list \<Rightarrow> nat list \<Rightarrow> nat \<Rightarrow> nat \<Rightarrow> ('v list \<times> nat list) option"
where
  "chunk_inputs ex spectrogram amask pos end =
     Option.bind (subspan spectrogram (pos * spectrogram_feature_dimensions ex)
         ((end - pos) * spectrogram_feature_dimensions ex)) (\<lambda>xs.
       Option.bind (subspan amask pos (end - pos)) (\<lambda>ms. Some (xs, ms)))"

definition EncodeChunk ::
  "('v, 'f, 's) audio_executor \<Rightarrow> 'v \<Rightarrow> 'v list \<Rightarrow> nat list \<Rightarrow> nat \<Rightarrow> nat \<Rightarrow> 'v list \<Rightarrow>
   ('s, nat \<times> 'v list) uop"
where
  "EncodeChunk ex z spectrogram amask pos end emb s =
     Option.bind (chunk_inputs ex spectrogram amask pos end) (\<lambda>(xs, ms).
     Option.bind (CeilIntDiv pos (encoder_shrinking_factor ex)) (\<lambda>row.
     if length emb < row * audio_embedding_dimensions ex then None
     else
       case run_models ex z xs ms s of
         (Inl e, s') \<Rightarrow> Some (Inl e, s')
       | (Inr (v, rows), s') \<Rightarrow>
           map_option (\<lambda>emb'. (Inr (v, emb'), s')) (write_at (row * audio_embedding_dimensions ex) rows emb)))"

partial_function (option) encode_chunks ::
  "('v, 'f, 's) audio_executor \<Rightarrow> 'v \<Rightarrow> 'v list \<Rightarrow> nat list \<Rightarrow> nat \<Rightarrow> nat \<Rightarrow> nat \<Rightarrow> 'v list \<Rightarrow> 's \<Rightarrow>
   ((nat \<times> 'v list) status_or \<times> 's) option"
where
  "encode_chunks ex z spectrogram amask n pos total_valid emb s =
     (if pos < n then
        let end = min (pos + sequence_length ex) n in
        Option.bind (EncodeChunk ex z spectrogram amask pos end emb s) (\<lambda>(r, s').
          case r of
            Inl e \<Rightarrow> Some (Inl e, s')
          | Inr (v, emb') \<Rightarrow> encode_chunks ex z spectrogram amask n end (total_valid + v) emb' s')
      else Some (Inr (total_valid, emb), s))"

declare encode_chunks.simps [code]

text \<open>The embeddings, \<^verbatim>\<open>1 x total_valid_tokens x audio_embedding_dimensions\<close>, and the number of tokens.\<close>

definition Encode ::
  "('v, 'f, 's) audio_executor \<Rightarrow> 'v \<Rightarrow> 'v list \<Rightarrow> nat list \<Rightarrow> ('s, 'v list \<times> nat) uop"
where
  "Encode ex z spectrogram amask s =
     (let n = GetValidCount amask in
      map_option (\<lambda>(r, s'). (case r of Inl e \<Rightarrow> Inl e
          | Inr (valid, emb) \<Rightarrow> Inr (take (valid * audio_embedding_dimensions ex) emb, valid), s'))
        (encode_chunks ex z spectrogram amask n 0 0
          (replicate (n * audio_embedding_dimensions ex) z) s))"

text \<open>\<^verbatim>\<open>Encode\<close> without a mask: all timestamps are valid.\<close>

definition EncodeAll ::
  "('v, 'f, 's) audio_executor \<Rightarrow> 'v \<Rightarrow> nat list \<Rightarrow> 'v list \<Rightarrow> ('s, 'v list \<times> nat) uop"
where
  "EncodeAll ex z dims spectrogram s =
     (if length dims < 2 then Some (Inl InvalidArgument, s)
      else Encode ex z spectrogram (replicate (dims ! (length dims - 2)) 1) s)"

section \<open>Creation\<close>

text \<open>
  The sizes that \<^verbatim>\<open>Create\<close> reads from the models: the number of elements of the mask, the dimensions
  of the spectrogram and of the output of the adapter, the numbers of buffers and the overlap.
\<close>

record audio_shapes =
  mask_elements :: nat
  spectrogram_dims :: "nat list"
  adapter_output_dims :: "nat list"
  encoder_outputs :: nat
  adapter_inputs :: nat
  overlap_size :: nat

definition shrinking_factor :: "audio_shapes \<Rightarrow> bool \<Rightarrow> nat status_or option" where
  "shrinking_factor sh streaming =
     (let dims = adapter_output_dims sh; out_length = dims ! (length dims - 2) in
      if length dims < 2 \<or> out_length = 0 then None
      else if mask_elements sh mod out_length \<noteq> 0 then Some (Inl InvalidArgument)
      else if \<not> streaming then
        if encoder_outputs sh \<noteq> adapter_inputs sh then Some (Inl InvalidArgument)
        else Some (Inr (mask_elements sh div out_length))
      else if mask_elements sh < overlap_size sh then None
      else Some (Inr ((mask_elements sh - overlap_size sh) div out_length)))"

definition CreateAudioExecutor ::
  "('v list \<Rightarrow> nat list \<Rightarrow> 's \<Rightarrow> ('f \<times> nat list \<times> 's) status_or) \<Rightarrow>
   (nat list \<Rightarrow> 'f \<Rightarrow> 'v list status_or) \<Rightarrow> bool \<Rightarrow> audio_shapes \<Rightarrow>
   ('v, 'f, 's) audio_executor status_or option"
where
  "CreateAudioExecutor encoder adapter streaming sh =
     (if spectrogram_dims sh = [] then None
      else map_option (\<lambda>r. try_or_return r (\<lambda>k.
        Inr \<lparr>sequence_length = mask_elements sh,
             spectrogram_feature_dimensions = last (spectrogram_dims sh),
             audio_embedding_dimensions = last (adapter_output_dims sh),
             encoder_shrinking_factor = k, is_streaming = streaming,
             run_encoder = encoder, run_adapter = adapter\<rparr>)) (shrinking_factor sh streaming))"

text \<open>
  The factor of a static encoder fits its lengths exactly. For a streaming encoder the length is checked
  without the overlap that is then taken away, so a rest may be lost, or the factor be zero.
\<close>

lemma static_factor_exact:
  "shrinking_factor sh False = Some (Inr k) \<Longrightarrow>
   k * (adapter_output_dims sh ! (length (adapter_output_dims sh) - 2)) = mask_elements sh"
  by (auto simp: shrinking_factor_def Let_def split: if_splits)

lemma streaming_factor_inexact:
  "shrinking_factor \<lparr>mask_elements = 8, spectrogram_dims = [8, 1], adapter_output_dims = [1, 2, 1],
     encoder_outputs = 2, adapter_inputs = 2, overlap_size = 3\<rparr> True = Some (Inr 2)"
  "shrinking_factor \<lparr>mask_elements = 4, spectrogram_dims = [4, 1], adapter_output_dims = [1, 2, 1],
     encoder_outputs = 2, adapter_inputs = 2, overlap_size = 3\<rparr> True = Some (Inr 0)"
  by code_simp+

section \<open>Chunks next to each other\<close>

text \<open>One chunk on its own: its tokens and their embeddings.\<close>

definition run_chunk ::
  "('v, 'f, 's) audio_executor \<Rightarrow> 'v \<Rightarrow> 'v list \<Rightarrow> nat list \<Rightarrow> nat \<Rightarrow> nat \<Rightarrow> ('s, nat \<times> 'v list) uop"
where
  "run_chunk ex z spectrogram amask n pos s =
     map_option (\<lambda>(xs, ms). run_models ex z xs ms s)
       (chunk_inputs ex spectrogram amask pos (min (pos + sequence_length ex) n))"

text \<open>The reference: the embeddings of all chunks, one after the other.\<close>

fun all_chunks ::
  "('v, 'f, 's) audio_executor \<Rightarrow> 'v \<Rightarrow> 'v list \<Rightarrow> nat list \<Rightarrow> nat \<Rightarrow> nat list \<Rightarrow> ('s, 'v list \<times> nat) uop"
where
  "all_chunks ex z spectrogram amask n [] s = Some (Inr ([], 0), s)"
| "all_chunks ex z spectrogram amask n (pos # ps) s =
     bind_op (run_chunk ex z spectrogram amask n pos) (\<lambda>(v, rows).
       bind_op (all_chunks ex z spectrogram amask n ps) (\<lambda>(rest, k).
         defined (\<lambda>s. (Inr (rows @ rest, v + k), s)))) s"

function chunk_positions :: "nat \<Rightarrow> nat \<Rightarrow> nat \<Rightarrow> nat list" where
  "chunk_positions m n pos = (if pos < n \<and> 0 < m then pos # chunk_positions m n (pos + m) else [])"
  by pat_completeness auto
termination by (relation "measure (\<lambda>(m, n, pos). n - pos)") auto

declare chunk_positions.simps [simp del]

text \<open>Every chunk but the last fills its place, and the last one does not go beyond the vector.\<close>

definition fills_chunks ::
  "('v, 'f, 's) audio_executor \<Rightarrow> 'v \<Rightarrow> 'v list \<Rightarrow> nat list \<Rightarrow> bool"
where
  "fills_chunks ex z spectrogram amask \<longleftrightarrow>
     (\<forall>pos s v rows s'. pos < GetValidCount amask \<longrightarrow>
        run_chunk ex z spectrogram amask (GetValidCount amask) pos s = Some (Inr (v, rows), s') \<longrightarrow>
        (if pos + sequence_length ex < GetValidCount amask
         then v * encoder_shrinking_factor ex = sequence_length ex
         else pos + v \<le> GetValidCount amask))"

lemma run_models_length:
  "run_models ex z xs ms s = (Inr (v, rows), s') \<Longrightarrow> length rows = v * audio_embedding_dimensions ex"
  by (auto simp: run_models_def read_first_def Let_def try_or_return_Inr_iff split: sum.splits if_splits)

lemma EncodeChunk_run_chunk:
  assumes "pos mod k = 0" "encoder_shrinking_factor ex = k" "0 < k" "length emb \<ge> pos div k * audio_embedding_dimensions ex"
  shows "EncodeChunk ex z spectrogram amask pos (min (pos + sequence_length ex) n) emb s =
    (case run_chunk ex z spectrogram amask n pos s of
       None \<Rightarrow> None
     | Some (Inl e, s') \<Rightarrow> Some (Inl e, s')
     | Some (Inr (v, rows), s') \<Rightarrow>
         map_option (\<lambda>emb'. (Inr (v, emb'), s')) (write_at (pos div k * audio_embedding_dimensions ex) rows emb))"
proof -
  have "k dvd pos" using assms(1) by (simp add: dvd_eq_mod_eq_0)
  then obtain q where q: "pos = k * q" by (elim dvdE)
  have "pos + k - 1 = k - 1 + k * q" using assms(3) q by simp
  then have "(pos + k - 1) div k = (k - 1 + k * q) div k" by (simp only:)
  also have "\<dots> = (k - 1) div k + q" using assms(3) div_mult_self2 [of k "k - 1" q] by simp
  also have "\<dots> = pos div k" using assms(3) q by simp
  finally have "(pos + k - 1) div k = pos div k" .
  then have "CeilIntDiv pos (encoder_shrinking_factor ex) = Some (pos div k)"
    using assms(2,3) by (simp add: CeilIntDiv_def)
  then show ?thesis
    using assms(4)
    by (auto simp: EncodeChunk_def run_chunk_def split: option.splits sum.splits prod.splits)
qed

lemma run_chunk_length:
  "run_chunk ex z spectrogram amask n pos s = Some (Inr (v, rows), s') \<Longrightarrow>
   length rows = v * audio_embedding_dimensions ex"
  by (auto simp: run_chunk_def dest: run_models_length)

lemma all_chunks_length:
  "all_chunks ex z spectrogram amask n ps s = Some (Inr (rows, v), s') \<Longrightarrow>
   length rows = v * audio_embedding_dimensions ex"
  by (induction ps arbitrary: s rows v)
     (auto simp: bind_op_Inr_iff defined_def add_mult_distrib dest!: run_chunk_length)

lemma write_after:
  assumes "length acc + length rows \<le> n"
  shows "write_at (length acc) rows (acc @ replicate (n - length acc) z) =
    Some (acc @ rows @ replicate (n - (length acc + length rows)) z)"
  using assms by (simp add: write_at_def)

lemma chunk_positions_next:
  assumes "pos < n" "0 < m"
  shows "chunk_positions m n pos = pos # chunk_positions m n (min (pos + m) n)"
proof -
  have e: "chunk_positions m n q = []" if "n \<le> q" for q
    using that by (subst chunk_positions.simps) simp
  have "chunk_positions m n (pos + m) = chunk_positions m n (min (pos + m) n)"
  proof (cases "pos + m \<le> n")
    case False
    then show ?thesis using e [of "pos + m"] e [of n] by (simp add: min_def)
  qed (simp add: min_def)
  then show ?thesis using assms by (subst chunk_positions.simps) simp
qed

lemma write_later:
  assumes "length xs \<le> k" "k + length ys \<le> n"
  shows "write_at k ys (xs @ replicate (n - length xs) z) =
    Some (xs @ replicate (k - length xs) z @ ys @ replicate (n - (k + length ys)) z)"
proof -
  have "min (k - length xs) (n - length xs) = k - length xs"
      "n - length xs - (k + length ys - length xs) = n - (k + length ys)"
      "k + length ys \<le> length (xs @ replicate (n - length xs) z)"
    using assms by simp_all
  then show ?thesis using assms by (simp add: write_at_def)
qed

lemma encode_chunks_eq:
  fixes ex :: "('v, 'f, 's) audio_executor"
  defines "m \<equiv> sequence_length ex" and "k \<equiv> encoder_shrinking_factor ex"
    and "d \<equiv> audio_embedding_dimensions ex"
  assumes k: "0 < m" "0 < k" and full: "fills_chunks ex z spectrogram amask"
    and n: "n = GetValidCount amask"
    and pos: "pos < n \<Longrightarrow> t * k = pos" "t * d \<le> n * d" and acc: "length acc = t * d"
  shows "encode_chunks ex z spectrogram amask n pos t (acc @ replicate (n * d - t * d) z) s =
    (case all_chunks ex z spectrogram amask n (chunk_positions m n pos) s of
       None \<Rightarrow> None
     | Some (Inl e, s') \<Rightarrow> Some (Inl e, s')
     | Some (Inr (rows, v), s') \<Rightarrow>
         Some (Inr (t + v, acc @ rows @ replicate (n * d - (t + v) * d) z), s'))"
  using pos acc
proof (induction "n - pos" arbitrary: pos t acc s rule: less_induct)
  case less
  show ?case
  proof (cases "pos < n")
    case False
    then show ?thesis using less.prems
      by (simp add: encode_chunks.simps chunk_positions.simps [of m n pos])
  next
    case True
    then have t: "t * k = pos" using less.prems by simp
    then have row: "pos div k = t" "pos mod k = 0" using k(2) by auto
    have len: "t * d \<le> length (acc @ replicate (n * d - t * d) z)" using less.prems by simp
    have chunk: "EncodeChunk ex z spectrogram amask pos (min (pos + m) n)
        (acc @ replicate (n * d - t * d) z) s =
      (case run_chunk ex z spectrogram amask n pos s of
         None \<Rightarrow> None
       | Some (Inl e, s') \<Rightarrow> Some (Inl e, s')
       | Some (Inr (v, rows), s') \<Rightarrow>
           map_option (\<lambda>emb'. (Inr (v, emb'), s'))
             (write_at (t * d) rows (acc @ replicate (n * d - t * d) z)))"
      using EncodeChunk_run_chunk [of pos k ex "acc @ replicate (n * d - t * d) z" z spectrogram amask n s]
        row len k(2) unfolding k_def [symmetric] d_def [symmetric] m_def [symmetric] row(1) by simp
    note next_pos = chunk_positions_next [OF True k(1)]
    show ?thesis
    proof (cases "run_chunk ex z spectrogram amask n pos s")
      case None
      then show ?thesis using True chunk
        by (simp add: encode_chunks.simps [of ex z spectrogram amask n pos] next_pos bind_op_def Let_def m_def [symmetric])
    next
      case (Some p)
      obtain r s' where p: "p = (r, s')" by (cases p)
      show ?thesis
      proof (cases r)
        case (Inl e)
        then show ?thesis using True chunk Some p
          by (simp add: encode_chunks.simps [of ex z spectrogram amask n pos] next_pos bind_op_def Let_def m_def [symmetric])
      next
        case (Inr w)
        obtain v rows where w: "w = (v, rows)" by (cases w)
        have run: "run_chunk ex z spectrogram amask n pos s = Some (Inr (v, rows), s')"
          using Some p Inr w by simp
        have rows: "length rows = v * d" unfolding d_def by (rule run_chunk_length [OF run])
        have v: "if pos + m < n then v * k = m else pos + v \<le> n"
          using full run True unfolding fills_chunks_def n m_def k_def by blast
        have "t \<le> pos" using mult_le_mono2 [of 1 k t] t k(2) by simp
        have fits: "t + v \<le> n"
        proof (cases "pos + m < n")
          case True
          then have "(t + v) * k = pos + m" using v t by (simp add: add_mult_distrib)
          moreover have "(t + v) * 1 \<le> (t + v) * k" using k(2) by (intro mult_le_mono2) simp
          ultimately have "t + v \<le> pos + m" by (simp only: mult_1_right)
          then show ?thesis using True by simp
        next
          case False
          then show ?thesis using v \<open>t \<le> pos\<close> by simp
        qed
        then have bound: "(t + v) * d \<le> n * d" by (rule mult_le_mono1)
        have wr: "write_at (t * d) rows (acc @ replicate (n * d - t * d) z) =
            Some ((acc @ rows) @ replicate (n * d - (t + v) * d) z)"
          using write_after [of acc rows "n * d" z] less.prems(3) rows bound
          by (simp add: add_mult_distrib)
        have step: "encode_chunks ex z spectrogram amask n pos t (acc @ replicate (n * d - t * d) z) s =
            encode_chunks ex z spectrogram amask n (min (pos + m) n) (t + v)
              ((acc @ rows) @ replicate (n * d - (t + v) * d) z) s'"
          using True chunk Some p Inr w wr
          by (simp add: encode_chunks.simps [of ex z spectrogram amask n pos] Let_def m_def [symmetric])
        have "n - min (pos + m) n < n - pos" using True k(1) by simp
        moreover have "(t + v) * k = min (pos + m) n" if "min (pos + m) n < n"
          using that v t by (simp add: add_mult_distrib min_def split: if_splits)
        moreover have "length (acc @ rows) = (t + v) * d" using less.prems(3) rows by (simp add: add_mult_distrib)
        ultimately have IH: "encode_chunks ex z spectrogram amask n (min (pos + m) n) (t + v)
              ((acc @ rows) @ replicate (n * d - (t + v) * d) z) s' =
            (case all_chunks ex z spectrogram amask n (chunk_positions m n (min (pos + m) n)) s' of
               None \<Rightarrow> None
             | Some (Inl e, s') \<Rightarrow> Some (Inl e, s')
             | Some (Inr (rows', v'), s') \<Rightarrow>
                 Some (Inr (t + v + v', (acc @ rows) @ rows' @ replicate (n * d - (t + v + v') * d) z), s'))"
          by (intro less.hyps) (use bound in auto)
        show ?thesis
          unfolding step IH next_pos
          using Some p Inr w
          by (auto simp: bind_op_def defined_def add.assoc split: option.splits sum.splits prod.splits)
      qed
    qed
  qed
qed

text \<open>
  C17. When the length of the encoder is a multiple of its shrinking factor, every chunk but the last
  yields a token for each group of timestamps, and the last one does not yield more tokens than it has
  timestamps, then encoding a spectrogram gives the embeddings of its chunks one after the other, with
  their number, and never writes outside the vector or loops for ever; when a model fails, it gives
  that error.
\<close>

theorem encode_concatenates_chunks:
  assumes "0 < sequence_length ex" "0 < encoder_shrinking_factor ex" "fills_chunks ex z spectrogram amask"
  shows "Encode ex z spectrogram amask s =
    all_chunks ex z spectrogram amask (GetValidCount amask)
      (chunk_positions (sequence_length ex) (GetValidCount amask) 0) s"
proof -
  let ?n = "GetValidCount amask" and ?d = "audio_embedding_dimensions ex"
  have "encode_chunks ex z spectrogram amask ?n 0 0 (replicate (?n * ?d) z) s =
    (case all_chunks ex z spectrogram amask ?n (chunk_positions (sequence_length ex) ?n 0) s of
       None \<Rightarrow> None
     | Some (Inl e, s') \<Rightarrow> Some (Inl e, s')
     | Some (Inr (rows, v), s') \<Rightarrow> Some (Inr (v, rows @ replicate (?n * ?d - v * ?d) z), s'))"
    using encode_chunks_eq [OF assms refl, of 0 0 "[]" s, unfolded add_0_left append_Nil] by simp
  then show ?thesis
    by (auto simp: Encode_def Let_def dest: all_chunks_length
        split: option.splits sum.splits prod.splits)
qed

section \<open>A chunk that is too short\<close>

lemma chunk_run_models:
  "run_chunk ex z spectrogram amask n pos s = Some p \<Longrightarrow>
   \<exists>xs ms. chunk_inputs ex spectrogram amask pos (min (pos + sequence_length ex) n) = Some (xs, ms) \<and>
     run_models ex z xs ms s = p"
  by (auto simp: run_chunk_def)

text \<open>
  When the first of two chunks yields fewer tokens than it has places, the places that are left
  stay zero and become tokens of the result, and as many tokens of the second chunk are lost: the
  second chunk is placed by its position, but the result is cut by the number of tokens.
\<close>

theorem short_chunk_leaves_hole:
  fixes ex :: "('v, 'f, 's) audio_executor"
  defines "m \<equiv> sequence_length ex" and "d \<equiv> audio_embedding_dimensions ex"
  assumes n: "n = GetValidCount amask" "m < n" "n \<le> 2 * m" "0 < m"
    and c: "CeilIntDiv m (encoder_shrinking_factor ex) = Some c" "v1 < c" "c + v2 \<le> n"
    and first: "run_chunk ex z spectrogram amask n 0 s = Some (Inr (v1, rows1), s1)"
    and second: "run_chunk ex z spectrogram amask n m s1 = Some (Inr (v2, rows2), s2)"
  shows "Encode ex z spectrogram amask s =
    Some (Inr (take ((v1 + v2) * d) (rows1 @ replicate ((c - v1) * d) z @ rows2), v1 + v2), s2)"
proof -
  have k: "0 < encoder_shrinking_factor ex" using c(1) by (simp add: CeilIntDiv_def split: if_splits)
  have rows: "length rows1 = v1 * d" "length rows2 = v2 * d"
    using run_chunk_length [OF first] run_chunk_length [OF second] by (simp_all add: d_def)
  have le: "v1 * d \<le> c * d" "c * d + v2 * d \<le> n * d"
    using c(2,3) by (simp_all flip: add_mult_distrib)
  define emb1 where "emb1 = rows1 @ replicate (n * d - v1 * d) z"
  define emb2 where "emb2 = rows1 @ replicate ((c - v1) * d) z @ rows2 @ replicate (n * d - (c + v2) * d) z"
  have z0: "CeilIntDiv 0 (encoder_shrinking_factor ex) = Some 0" using k by (simp add: CeilIntDiv_def)
  have e1: "EncodeChunk ex z spectrogram amask 0 m (replicate (n * d) z) s = Some (Inr (v1, emb1), s1)"
    using chunk_run_models [OF first] n(2) z0 rows le c(2,3)
    by (auto simp: EncodeChunk_def m_def write_at_def emb1_def min_def)
  have w: "write_at (c * d) rows2 emb1 = Some emb2"
    using write_later [of rows1 "c * d" rows2 "n * d" z] rows le
    by (simp add: emb1_def emb2_def diff_mult_distrib add_mult_distrib)
  have "min (m + m) n = n" using n(3) by simp
  then obtain xs ms where i2: "chunk_inputs ex spectrogram amask m n = Some (xs, ms)"
      "run_models ex z xs ms s1 = (Inr (v2, rows2), s2)"
    using chunk_run_models [OF second] \<open>min (m + m) n = n\<close> by (auto simp: m_def [symmetric])
  have "\<not> length emb1 < c * d" using rows le by (simp add: emb1_def)
  then have e2: "EncodeChunk ex z spectrogram amask m n emb1 s1 = Some (Inr (v2, emb2), s2)"
    using c(1) w by (simp add: EncodeChunk_def i2 d_def [symmetric])
  have "encode_chunks ex z spectrogram amask n 0 0 (replicate (n * d) z) s =
      Some (Inr (v1 + v2, emb2), s2)"
    using n(2,4) e1 e2 \<open>min (m + m) n = n\<close>
    by (simp add: encode_chunks.simps [of ex z spectrogram amask n 0]
        encode_chunks.simps [of ex z spectrogram amask n m]
        encode_chunks.simps [of ex z spectrogram amask n n] m_def [symmetric] Let_def)
  then show ?thesis
    using rows c(2) by (simp add: Encode_def n(1) [symmetric] d_def [symmetric] emb2_def Let_def
        add_mult_distrib diff_mult_distrib)
qed

section \<open>Small encoders\<close>

text \<open>
  An encoder of four timestamps that adds them up in pairs, one that yields one token for three
  timestamps, and one that streams: it adds the sum of what it has seen before.
\<close>

definition pair_encoder :: "(int, int list, unit) audio_executor" where
  "pair_encoder =
     \<lparr>sequence_length = 4, spectrogram_feature_dimensions = 1, audio_embedding_dimensions = 1,
      encoder_shrinking_factor = 2, is_streaming = False,
      run_encoder = (\<lambda>xs ms s. Inr ([xs ! 0 + xs ! 1, xs ! 2 + xs ! 3], [ms ! 0, ms ! 2], s)),
      run_adapter = (\<lambda>ms fs. Inr fs)\<rparr>"

definition triple_encoder :: "(int, int list, unit) audio_executor" where
  "triple_encoder = pair_encoder\<lparr>sequence_length := 3,
     run_encoder := (\<lambda>xs ms s. Inr ([xs ! 0 + xs ! 1 + xs ! 2], [ms ! 0], s))\<rparr>"

definition summing_encoder :: "(int, int list, int) audio_executor" where
  "summing_encoder =
     \<lparr>sequence_length = 2, spectrogram_feature_dimensions = 1, audio_embedding_dimensions = 1,
      encoder_shrinking_factor = 2, is_streaming = True,
      run_encoder = (\<lambda>xs ms s. Inr ([s + xs ! 0 + xs ! 1], [1], s + xs ! 0 + xs ! 1)),
      run_adapter = (\<lambda>ms fs. Inr fs)\<rparr>"

lemma pair_chunk:
  "run_chunk pair_encoder 0 [1, 2, 3, 4, 5, 6, 7, 8] [1, 1, 1, 1, 1, 1, 0, 0] 6 0 () = Some (Inr (2, [3, 7]), ())"
  by code_simp

lemma pair_fills: "fills_chunks pair_encoder 0 [1, 2, 3, 4, 5, 6, 7, 8] [1, 1, 1, 1, 1, 1, 0, 0]"
proof -
  have n: "GetValidCount [1, 1, 1, 1, 1, 1, 0, 0 :: nat] = 6" by code_simp
  have "pos = 0 \<or> pos = 1 \<or> pos = 2 \<or> pos = 3 \<or> pos = 4 \<or> pos = 5" if "pos < 6" for pos :: nat
    using that by auto
  then show ?thesis
    unfolding fills_chunks_def n
    by (fastforce simp: run_chunk_def chunk_inputs_def subspan_def run_models_def pair_encoder_def
        write_cleared_def read_first_def GetValidCount_def Let_def numeral_eq_Suc)
qed

theorem encode_concatenates_chunks_witness:
  "Encode pair_encoder 0 [1, 2, 3, 4, 5, 6, 7, 8] [1, 1, 1, 1, 1, 1, 0, 0] () =
     Some (Inr ([3, 7, 11], 3), ())"
proof -
  have "all_chunks pair_encoder 0 [1, 2, 3, 4, 5, 6, 7, 8] [1, 1, 1, 1, 1, 1, 0, 0] 6
      (chunk_positions 4 6 0) () = Some (Inr ([3, 7, 11], 3), ())"
    by code_simp
  moreover have "GetValidCount [1, 1, 1, 1, 1, 1, 0, 0 :: nat] = 6" by code_simp
  ultimately show ?thesis
    using encode_concatenates_chunks [OF _ _ pair_fills] by (simp add: pair_encoder_def)
qed

theorem short_chunk_leaves_hole_witness:
  "Encode triple_encoder 0 [1, 2, 3, 4, 5, 6] [1, 1, 1, 1, 1, 1] () = Some (Inr ([6, 0], 2), ())"
proof -
  have first: "run_chunk triple_encoder 0 [1, 2, 3, 4, 5, 6] [1, 1, 1, 1, 1, 1] 6 0 () =
      Some (Inr (1, [6]), ())"
    by code_simp
  have second: "run_chunk triple_encoder 0 [1, 2, 3, 4, 5, 6] [1, 1, 1, 1, 1, 1] 6
      (sequence_length triple_encoder) () = Some (Inr (1, [15]), ())"
    by code_simp
  have n: "6 = GetValidCount [1, 1, 1, 1, 1, 1 :: nat]" by code_simp
  have dims: "sequence_length triple_encoder = 3" "audio_embedding_dimensions triple_encoder = 1"
      "CeilIntDiv 3 (encoder_shrinking_factor triple_encoder) = Some 2"
    by code_simp+
  from short_chunk_leaves_hole [OF n _ _ _ _ _ _ first second, of 2] show ?thesis
    by (simp add: dims)
qed

text \<open>
  \<^verbatim>\<open>Encode\<close> does not reset the state of a streaming encoder, and nothing else does (\<^verbatim>\<open>Reset\<close> has no
  caller), so the same audio has other embeddings the second time.
\<close>

lemma audio_depends_on_earlier_audio:
  "Encode summing_encoder 0 [1, 2] [1, 1] 0 = Some (Inr ([3], 1), 3)"
  "Encode summing_encoder 0 [1, 2] [1, 1] 3 = Some (Inr ([6], 1), 6)"
  by code_simp+

end
