(* ===== verification/Settings.thy ===== *)
theory Settings
  imports Complex_Main Tasks MagicNumbers
begin

text \<open>
  Settings of the engine and of sessions, \<^verbatim>\<open>runtime/engine/engine_settings.{h,cc}\<close>, with the inference
  of the type of the model, \<^verbatim>\<open>runtime/util/model_type_utils.cc\<close>, and the backends,
  \<^verbatim>\<open>runtime/executor/executor_settings_base.cc\<close>. Protobuf messages are records of the fields that the
  code uses; a field with presence is an option, and the oneof \<^verbatim>\<open>TokenUnion\<close> a datatype. Floats in
  messages are rational numbers. The tokenizer is a parameter.
\<close>

section \<open>Messages\<close>

datatype token_union = TokenNotSet | TokenIds "int list" | TokenStr string

record affixes =
  affix_prefix :: string
  affix_suffix :: string

record prompt_templates =
  templates_user :: "affixes option"
  templates_model :: "affixes option"
  templates_system :: "affixes option"

datatype sampling_type = TYPE_UNSPECIFIED | TOP_K | TOP_P | GREEDY

record sampling_params =
  s_type :: sampling_type
  s_k :: int
  s_p :: rat
  s_temperature :: rat
  s_seed :: "int option"

record gemma3n =
  start_of_image_token :: token_union
  end_of_image_token :: token_union
  image_tensor_height :: int
  image_tensor_width :: int
  start_of_audio_token :: token_union
  end_of_audio_token :: token_union

text \<open>The fields of the other models are not used here.\<close>

datatype llm_model_type = MODEL_TYPE_NOT_SET | GenericModel | Gemma3N gemma3n | Gemma3 | Qwen3 | Qwen2p5

record llm_metadata =
  start_token :: "token_union option"
  stop_tokens :: "token_union list"
  m_prompt_templates :: "prompt_templates option"
  m_sampler_params :: "sampling_params option"
  m_max_num_tokens :: int
  m_model_type :: "llm_model_type option"
  m_jinja_prompt_template :: "string option"

definition no_templates :: prompt_templates where
  "no_templates = \<lparr>templates_user = None, templates_model = None, templates_system = None\<rparr>"

definition no_sampler :: sampling_params where
  "no_sampler = \<lparr>s_type = TYPE_UNSPECIFIED, s_k = 0, s_p = 0, s_temperature = 0, s_seed = None\<rparr>"

definition empty_metadata :: llm_metadata where
  "empty_metadata =
     \<lparr>start_token = None, stop_tokens = [], m_prompt_templates = None, m_sampler_params = None,
      m_max_num_tokens = 0, m_model_type = None, m_jinja_prompt_template = None\<rparr>"

section \<open>Backends\<close>

datatype settings_backend =
    UNSPECIFIED | CPU_ARTISAN | GPU_ARTISAN | CpuBackend | GpuBackend | GOOGLE_TENSOR_ARTISAN | NpuBackend

fun GetBackendString :: "settings_backend \<Rightarrow> string" where
  "GetBackendString CPU_ARTISAN = ''CPU_ARTISAN''"
| "GetBackendString GPU_ARTISAN = ''GPU_ARTISAN''"
| "GetBackendString GpuBackend = ''GPU''"
| "GetBackendString CpuBackend = ''CPU''"
| "GetBackendString GOOGLE_TENSOR_ARTISAN = ''GOOGLE_TENSOR_ARTISAN''"
| "GetBackendString NpuBackend = ''NPU''"
| "GetBackendString UNSPECIFIED = ''UNSPECIFIED''"

definition ascii_lower :: "char \<Rightarrow> char" where
  "ascii_lower c = (let n = of_char c :: nat in if 65 \<le> n \<and> n \<le> 90 then char_of (n + 32) else c)"

definition EqualsIgnoreCase :: "string \<Rightarrow> string \<Rightarrow> bool" where
  "EqualsIgnoreCase a b \<longleftrightarrow> map ascii_lower a = map ascii_lower b"

definition GetBackendFromString :: "string \<Rightarrow> settings_backend status_or" where
  "GetBackendFromString s =
     (if EqualsIgnoreCase s ''cpu'' then Inr CpuBackend
      else if EqualsIgnoreCase s ''gpu'' then Inr GpuBackend
      else if EqualsIgnoreCase s ''npu'' then Inr NpuBackend
      else if EqualsIgnoreCase s ''gpu_artisan'' then Inr GPU_ARTISAN
      else if EqualsIgnoreCase s ''cpu_artisan'' then Inr CPU_ARTISAN
      else if EqualsIgnoreCase s ''google_tensor_artisan'' then Inr GOOGLE_TENSOR_ARTISAN
      else Inl InvalidArgument)"

lemma backend_roundtrip:
  "b \<noteq> UNSPECIFIED \<Longrightarrow> GetBackendFromString (GetBackendString b) = Inr b"
  by (cases b) (simp_all, code_simp+)

text \<open>\<^verbatim>\<open>absl::StrSplit\<close> at a comma: at least one part.\<close>

fun split_comma :: "string \<Rightarrow> string list" where
  "split_comma [] = [[]]"
| "split_comma (c # cs) =
     (if c = CHR '','' then [] # split_comma cs
      else case split_comma cs of [] \<Rightarrow> [[c]] | p # ps \<Rightarrow> (c # p) # ps)"

definition ValidateBackendConstraint :: "settings_backend \<Rightarrow> string option \<Rightarrow> status" where
  "ValidateBackendConstraint b constraint =
     (case constraint of
        None \<Rightarrow> Ok
      | Some s \<Rightarrow>
          if list_ex (\<lambda>p. EqualsIgnoreCase p (GetBackendString b)) (split_comma s) then Ok
          else Inl InvalidArgument)"

section \<open>The type of the model\<close>

record settings_tokenizer = tokenizer +
  TokenToId :: "string \<Rightarrow> int status_or"

definition IsGemma3nModel :: "string \<Rightarrow> int list \<Rightarrow> bool" where
  "IsGemma3nModel start ids \<longleftrightarrow> length ids = 1 \<and> ids ! 0 = 256000 \<and> start = ''<start_of_turn>''"

definition IsGemma3Model :: "string \<Rightarrow> int list \<Rightarrow> bool" where
  "IsGemma3Model start ids \<longleftrightarrow> (length ids \<noteq> 1 \<or> ids ! 0 \<noteq> 256000) \<and> start = ''<start_of_turn>''"

definition default_gemma3n :: gemma3n where
  "default_gemma3n =
     \<lparr>start_of_image_token = TokenStr ''<start_of_image>'', end_of_image_token = TokenStr ''<end_of_image>'',
      image_tensor_height = 768, image_tensor_width = 768,
      start_of_audio_token = TokenStr ''<start_of_audio>'', end_of_audio_token = TokenStr ''<end_of_audio>''\<rparr>"

definition CreateModelType :: "string \<Rightarrow> settings_tokenizer \<Rightarrow> llm_model_type status_or" where
  "CreateModelType start tk =
     try_or_return (TextToTokenIds tk ''<start_of_audio>'') (\<lambda>ids.
       if IsGemma3nModel start ids then Inr (Gemma3N default_gemma3n)
       else if IsGemma3Model start ids then Inr Gemma3
       else Inr GenericModel)"

text \<open>The loop over \<^verbatim>\<open>kStartTurnTokenIdsToCheck\<close>.\<close>

fun infer_from :: "settings_tokenizer \<Rightarrow> int list \<Rightarrow> llm_model_type \<Rightarrow> llm_model_type status_or" where
  "infer_from tk [] m = Inr m"
| "infer_from tk (i # ids) m =
     (case TokenIdsToText tk [i] of
        Inl DataLoss \<Rightarrow> infer_from tk ids m
      | Inl e \<Rightarrow> Inl e
      | Inr start \<Rightarrow>
          try_or_return (CreateModelType start tk) (\<lambda>m'.
            if m' \<noteq> GenericModel then Inr m' else infer_from tk ids m'))"

definition InferLlmModelType :: "settings_tokenizer \<Rightarrow> llm_model_type status_or" where
  "InferLlmModelType tk = infer_from tk [105] GenericModel"

text \<open>The accessors of affixes that are not set give empty strings.\<close>

definition affix_of :: "affixes option \<Rightarrow> affixes" where
  "affix_of a = (case a of None \<Rightarrow> \<lparr>affix_prefix = '''', affix_suffix = ''''\<rparr> | Some a \<Rightarrow> a)"

definition jinja_template :: "affixes \<Rightarrow> affixes \<Rightarrow> affixes \<Rightarrow> string" where
  "jinja_template u m s =
     ''{%- for message in messages -%}{%- if message.content is string -%}'' @
     ''{%- if message.role == 'user' %}'' @ affix_prefix u @ ''{{ message.content }}'' @ affix_suffix u @
     ''{% endif -%}{%- if message.role == 'model' %}'' @ affix_prefix m @ ''{{ message.content }}'' @
     affix_suffix m @ ''{% endif -%}{%- if message.role == 'system' %}'' @ affix_prefix s @
     ''{{ message.content }}'' @ affix_suffix s @ ''{% endif -%}{%- else -%}'' @
     ''{%- if message.role == 'user' %}'' @ affix_prefix u @
     ''{% elif message.role == 'model' %}'' @ affix_prefix m @
     ''{% elif message.role == 'system' %}'' @ affix_prefix s @
     ''{% endif -%}{%- for item in message.content %}{%- if item.type == 'text' %}{{ item.text }}'' @
     ''{% elif item.type == 'image' -%}{{ '<start_of_image>' }}{%- elif item.type == 'audio' -%}'' @
     ''{{ '<start_of_audio>' }}{%- endif -%}{%- endfor -%}{%- if message.role == 'user' %}'' @
     affix_suffix u @ ''{% elif message.role == 'model' %}'' @ affix_suffix m @
     ''{% elif message.role == 'system' %}'' @ affix_suffix s @
     ''{% endif -%}{%- endif -%}{%- endfor -%}{%- if add_generation_prompt %}'' @ affix_prefix m @
     ''{% endif -%}''"

definition GetDefaultJinjaPromptTemplate :: "prompt_templates \<Rightarrow> llm_model_type \<Rightarrow> string status_or" where
  "GetDefaultJinjaPromptTemplate ts m =
     (if m = MODEL_TYPE_NOT_SET then Inl InvalidArgument
      else Inr (jinja_template (affix_of (templates_user ts)) (affix_of (templates_model ts))
                  (affix_of (templates_system ts))))"

section \<open>Settings of the engine\<close>

record engine_settings =
  main_backend :: settings_backend
  main_max_num_tokens :: "32 word"
  main_advanced :: "advanced_settings option"
  vision_backend :: "settings_backend option"
  audio_backend :: "settings_backend option"
  settings_metadata :: "llm_metadata option"

text \<open>
  A start or stop token given as a text becomes ids; setting the ids clears the text. A text that the
  tokenizer does not take stays.
\<close>

fun resolve_token :: "settings_tokenizer \<Rightarrow> token_union \<Rightarrow> token_union" where
  "resolve_token tk (TokenStr s) =
     (case TokenToId tk s of
        Inr i \<Rightarrow> TokenIds [i]
      | Inl _ \<Rightarrow> (case TextToTokenIds tk s of Inr ids \<Rightarrow> TokenIds ids | Inl _ \<Rightarrow> TokenStr s))"
| "resolve_token tk t = t"

definition resolve_metadata :: "settings_tokenizer \<Rightarrow> llm_metadata \<Rightarrow> llm_metadata" where
  "resolve_metadata tk m =
     m\<lparr>stop_tokens := map (resolve_token tk) (stop_tokens m),
       start_token := map_option (resolve_token tk) (start_token m)\<rparr>"

definition prompt_tokens :: "settings_tokenizer \<Rightarrow> string \<Rightarrow> nat" where
  "prompt_tokens tk hint =
     (if hint = '''' then 0 else case TextToTokenIds tk hint of Inl _ \<Rightarrow> 0 | Inr ids \<Rightarrow> length ids)"

definition default_max_num_tokens :: "nat \<Rightarrow> int \<Rightarrow> int" where
  "default_max_num_tokens n from_metadata =
     (if 0 < from_metadata then from_metadata else ((int n + 1023) div 4096 + 1) * 4096)"

definition update_max_num_tokens :: "nat \<Rightarrow> int \<Rightarrow> engine_settings \<Rightarrow> engine_settings" where
  "update_max_num_tokens n from_metadata s =
     (if main_max_num_tokens s = 0
      then s\<lparr>main_max_num_tokens := word_of_int (default_max_num_tokens n from_metadata)\<rparr> else s)"

definition update_batch_sizes :: "nat \<Rightarrow> engine_settings \<Rightarrow> engine_settings" where
  "update_batch_sizes n s =
     (let adv = (case main_advanced s of None \<Rightarrow> default_advanced_settings | Some a \<Rightarrow> a) in
      if 0 < n \<and> prefill_batch_sizes adv = []
      then s\<lparr>main_advanced := Some (adv\<lparr>prefill_batch_sizes := [int n + 2]\<rparr>)\<rparr> else s)"

definition default_sampler :: "settings_backend \<Rightarrow> sampling_params status_or" where
  "default_sampler b =
     (if b = NpuBackend \<or> b = GPU_ARTISAN then Inr no_sampler
      else if b = CpuBackend \<or> b = GpuBackend
      then Inr \<lparr>s_type = TOP_P, s_k = 1, s_p = 95 / 100, s_temperature = 1, s_seed = Some 0\<rparr>
      else Inl InvalidArgument)"

text \<open>The metadata is changed in place, so it is part of the state at an early return.\<close>

definition update_sampler :: "(engine_settings \<times> llm_metadata, unit) op" where
  "update_sampler = (\<lambda>(s, m).
     if m_sampler_params m = None then
       (case default_sampler (main_backend s) of
          Inl e \<Rightarrow> (Inl e, s, m\<lparr>m_sampler_params := Some no_sampler\<rparr>)
        | Inr p \<Rightarrow> (Ok, s, m\<lparr>m_sampler_params := Some p\<rparr>))
     else (Ok, s, m))"

definition update_model_type :: "settings_tokenizer \<Rightarrow> (engine_settings \<times> llm_metadata, unit) op" where
  "update_model_type tk = (\<lambda>(s, m).
     if m_model_type m = None then
       (case InferLlmModelType tk of
          Inl e \<Rightarrow> (Inl e, s, m)
        | Inr t \<Rightarrow> (Ok, s, m\<lparr>m_model_type := Some t\<rparr>))
     else (Ok, s, m))"

definition model_type_of :: "llm_metadata \<Rightarrow> llm_model_type" where
  "model_type_of m = (case m_model_type m of None \<Rightarrow> MODEL_TYPE_NOT_SET | Some t \<Rightarrow> t)"

definition templates_of :: "llm_metadata \<Rightarrow> prompt_templates" where
  "templates_of m = (case m_prompt_templates m of None \<Rightarrow> no_templates | Some t \<Rightarrow> t)"

definition update_jinja :: "(engine_settings \<times> llm_metadata, unit) op" where
  "update_jinja = (\<lambda>(s, m).
     if m_jinja_prompt_template m = None then
       (case GetDefaultJinjaPromptTemplate (templates_of m) (model_type_of m) of
          Inl e \<Rightarrow> (Inl e, s, m)
        | Inr t \<Rightarrow> (Ok, s, m\<lparr>m_jinja_prompt_template := Some t\<rparr>))
     else (Ok, s, m))"

definition validate_constraints ::
  "string option \<Rightarrow> string option \<Rightarrow> string option \<Rightarrow> engine_settings \<Rightarrow> status"
where
  "validate_constraints text_c vision_c audio_c s =
     try_or_return (ValidateBackendConstraint (main_backend s) text_c) (\<lambda>_.
     try_or_return (case vision_backend s of None \<Rightarrow> Ok | Some b \<Rightarrow> ValidateBackendConstraint b vision_c) (\<lambda>_.
     case audio_backend s of None \<Rightarrow> Ok | Some b \<Rightarrow> ValidateBackendConstraint b audio_c))"

definition EngineMaybeUpdateAndValidate ::
  "settings_tokenizer \<Rightarrow> llm_metadata option \<Rightarrow> string \<Rightarrow> string option \<Rightarrow> string option \<Rightarrow> string option \<Rightarrow>
   (engine_settings, unit) op"
where
  "EngineMaybeUpdateAndValidate tk metadata_from_file hint text_c vision_c audio_c s =
     (let m0 = (case metadata_from_file of Some m \<Rightarrow> m
                | None \<Rightarrow> (case settings_metadata s of Some m \<Rightarrow> m | None \<Rightarrow> empty_metadata));
          m1 = resolve_metadata tk m0;
          n = prompt_tokens tk hint;
          s1 = update_batch_sizes n (update_max_num_tokens n (m_max_num_tokens m1) s);
          (r, s2, m2) = assign_or_return update_sampler (\<lambda>_.
            assign_or_return (update_model_type tk) (\<lambda>_.
            assign_or_return update_jinja (\<lambda>_ (s, m).
              (validate_constraints text_c vision_c audio_c s, s, m)))) (s1, m1)
      in (r, s2\<lparr>settings_metadata := Some m2\<rparr>))"

section \<open>Settings of a session\<close>

record session_settings =
  c_sampler_params :: sampling_params
  c_stop_token_ids :: "int list list"
  c_start_token_id :: int
  c_prompt_templates :: prompt_templates
  c_model_type :: llm_model_type
  c_jinja_prompt_template :: string
  c_num_output_candidates :: int
  c_sampler_backend :: settings_backend
  c_apply_prompt_template :: bool


text \<open>The first id of the start token; a token without ids is read outside its list.\<close>

definition first_start_id :: "token_union \<Rightarrow> int option" where
  "first_start_id t = (case t of TokenIds (i # ids) \<Rightarrow> Some i | _ \<Rightarrow> None)"

definition stop_ids :: "token_union list \<Rightarrow> int list list" where
  "stop_ids ts = concat (map (\<lambda>t. case t of TokenIds (i # ids) \<Rightarrow> [i # ids] | _ \<Rightarrow> []) ts)"

definition start_id_from :: "llm_metadata \<Rightarrow> int \<Rightarrow> int option" where
  "start_id_from m start =
     (if start = - 1 then (case start_token m of None \<Rightarrow> Some start | Some t \<Rightarrow> first_start_id t)
      else Some start)"

definition session_sampler :: "llm_metadata \<Rightarrow> sampling_params \<Rightarrow> sampling_params" where
  "session_sampler m p =
     (if s_type p = TYPE_UNSPECIFIED then case m_sampler_params m of None \<Rightarrow> p | Some q \<Rightarrow> q else p)"

definition session_stop_ids :: "llm_metadata \<Rightarrow> int list list \<Rightarrow> int list list" where
  "session_stop_ids m q = (if q = [] then stop_ids (stop_tokens m) else q)"

definition session_templates :: "llm_metadata \<Rightarrow> prompt_templates \<Rightarrow> prompt_templates" where
  "session_templates m t =
     (if templates_user t = None then case m_prompt_templates m of None \<Rightarrow> t | Some t' \<Rightarrow> t' else t)"

definition session_model_type :: "llm_metadata \<Rightarrow> llm_model_type \<Rightarrow> llm_model_type" where
  "session_model_type m t = (if t = MODEL_TYPE_NOT_SET then model_type_of m else t)"

definition session_jinja :: "llm_metadata \<Rightarrow> string \<Rightarrow> string" where
  "session_jinja m t =
     (if t = '''' then case m_jinja_prompt_template m of None \<Rightarrow> '''' | Some t' \<Rightarrow> t' else t)"

definition from_metadata :: "llm_metadata \<Rightarrow> session_settings \<Rightarrow> session_settings option" where
  "from_metadata m c =
     map_option (\<lambda>start.
       c\<lparr>c_sampler_params := session_sampler m (c_sampler_params c),
         c_start_token_id := start,
         c_stop_token_ids := session_stop_ids m (c_stop_token_ids c),
         c_prompt_templates := session_templates m (c_prompt_templates c),
         c_model_type := session_model_type m (c_model_type c),
         c_jinja_prompt_template := session_jinja m (c_jinja_prompt_template c)\<rparr>)
     (start_id_from m (c_start_token_id c))"

definition SessionMaybeUpdateAndValidate :: "engine_settings \<Rightarrow> (session_settings, unit) uop" where
  "SessionMaybeUpdateAndValidate e c =
     (if c_stop_token_ids c = [] \<and> settings_metadata e = None then Some (Inl InvalidArgument, c)
      else
        map_option (\<lambda>c.
          if c_stop_token_ids c = [] then (Inl InvalidArgument, c)
          else if c_num_output_candidates c < 1 then (Inl InvalidArgument, c)
          else (Ok, if c_sampler_backend c = UNSPECIFIED
                    then c\<lparr>c_sampler_backend :=
                      (if main_backend e = GpuBackend then GpuBackend else CpuBackend)\<rparr>
                    else c))
        (case settings_metadata e of None \<Rightarrow> Some c | Some m \<Rightarrow> from_metadata m c))"

section \<open>Validated settings\<close>

lemma resolve_token_idem: "resolve_token tk (resolve_token tk t) = resolve_token tk t"
  by (cases t) (auto split: sum.splits)

lemma resolve_metadata_idem: "resolve_metadata tk (resolve_metadata tk m) = resolve_metadata tk m"
  by (cases "start_token m") (simp_all add: resolve_metadata_def resolve_token_idem comp_def)

lemma session_choices_idem [simp]:
  "session_sampler m (session_sampler m p) = session_sampler m p"
  "session_stop_ids m (session_stop_ids m q) = session_stop_ids m q"
  "session_templates m (session_templates m t) = session_templates m t"
  "session_model_type m (session_model_type m ty) = session_model_type m ty"
  "session_jinja m (session_jinja m j) = session_jinja m j"
  by (auto simp: session_sampler_def session_stop_ids_def session_templates_def session_model_type_def
      session_jinja_def split: option.splits)





text \<open>What the steps of the validation leave in the metadata, and that they change nothing when it is there.\<close>

definition complete_metadata :: "llm_metadata \<Rightarrow> bool" where
  "complete_metadata m \<longleftrightarrow>
     m_sampler_params m \<noteq> None \<and> m_model_type m \<noteq> None \<and> m_jinja_prompt_template m \<noteq> None"

definition validate_metadata ::
  "settings_tokenizer \<Rightarrow> string option \<Rightarrow> string option \<Rightarrow> string option \<Rightarrow>
   (engine_settings \<times> llm_metadata, unit) op"
where
  "validate_metadata tk text_c vision_c audio_c =
     assign_or_return update_sampler (\<lambda>_.
       assign_or_return (update_model_type tk) (\<lambda>_.
       assign_or_return update_jinja (\<lambda>_ (s, m). (validate_constraints text_c vision_c audio_c s, s, m))))"

lemma validate_metadata_Ok:
  assumes "validate_metadata tk text_c vision_c audio_c (s, m) = (Ok, s', m')"
  shows "s' = s" "complete_metadata m'" "validate_constraints text_c vision_c audio_c s = Ok"
    "stop_tokens m' = stop_tokens m" "start_token m' = start_token m" "m_max_num_tokens m' = m_max_num_tokens m"
  using assms
  by (auto simp: validate_metadata_def assign_or_return_def update_sampler_def update_model_type_def
      update_jinja_def complete_metadata_def split: if_splits sum.splits)

lemma validate_metadata_complete:
  "complete_metadata m \<Longrightarrow> validate_constraints text_c vision_c audio_c s = Ok \<Longrightarrow>
   validate_metadata tk text_c vision_c audio_c (s, m) = (Ok, s, m)"
  by (auto simp: validate_metadata_def assign_or_return_def update_sampler_def update_model_type_def
      update_jinja_def complete_metadata_def)

lemma update_max_idem:
  "update_max_num_tokens n k (update_batch_sizes n (update_max_num_tokens n k s)) =
   update_batch_sizes n (update_max_num_tokens n k s)"
  by (auto simp: update_max_num_tokens_def update_batch_sizes_def Let_def)

lemma update_batch_idem: "update_batch_sizes n (update_batch_sizes n s) = update_batch_sizes n s"
  by (auto simp: update_batch_sizes_def Let_def)

lemma validate_constraints_metadata:
  "validate_constraints a b c (s\<lparr>settings_metadata := m\<rparr>) = validate_constraints a b c s"
  by (simp add: validate_constraints_def)

lemma update_settings_metadata:
  "update_batch_sizes n (update_max_num_tokens n k (s\<lparr>settings_metadata := m\<rparr>)) =
   (update_batch_sizes n (update_max_num_tokens n k s))\<lparr>settings_metadata := m\<rparr>"
  by (auto simp: update_max_num_tokens_def update_batch_sizes_def Let_def)

text \<open>
  C36. Validating the settings of an engine a second time, with the metadata they have now, changes
  nothing: the tokens are not resolved twice, and no default is chosen anew.
\<close>

theorem engine_settings_are_stable:
  assumes "EngineMaybeUpdateAndValidate tk metadata_from_file hint text_c vision_c audio_c s = (Ok, s')"
  shows "EngineMaybeUpdateAndValidate tk None hint text_c vision_c audio_c s' = (Ok, s')"
proof -
  define m0 where "m0 = (case metadata_from_file of Some m \<Rightarrow> m
    | None \<Rightarrow> (case settings_metadata s of Some m \<Rightarrow> m | None \<Rightarrow> empty_metadata))"
  define m1 where "m1 = resolve_metadata tk m0"
  define n where "n = prompt_tokens tk hint"
  define s1 where "s1 = update_batch_sizes n (update_max_num_tokens n (m_max_num_tokens m1) s)"
  obtain s2 m2 where v: "validate_metadata tk text_c vision_c audio_c (s1, m1) = (Ok, s2, m2)"
      and s': "s' = s2\<lparr>settings_metadata := Some m2\<rparr>"
    using assms by (auto simp: EngineMaybeUpdateAndValidate_def validate_metadata_def [symmetric] Let_def
        m0_def m1_def n_def s1_def split: prod.splits)
  note ok = validate_metadata_Ok [OF v]
  have "resolve_metadata tk m1 = m1" unfolding m1_def by (rule resolve_metadata_idem)
  then have r: "resolve_metadata tk m2 = m2" using ok(4,5)
    by (cases m1; cases m2) (simp add: resolve_metadata_def)
  have u: "update_batch_sizes n (update_max_num_tokens n (m_max_num_tokens m2) s') = s'"
    unfolding s' ok(1,6) update_settings_metadata s1_def update_max_idem update_batch_idem ..
  have "validate_metadata tk text_c vision_c audio_c (s', m2) = (Ok, s', m2)"
    by (rule validate_metadata_complete [OF ok(2)]) (simp add: s' ok(1,3) validate_constraints_metadata)
  moreover have "settings_metadata s' = Some m2" "s'\<lparr>settings_metadata := Some m2\<rparr> = s'"
    by (simp_all add: s')
  ultimately show ?thesis
    by (simp add: EngineMaybeUpdateAndValidate_def validate_metadata_def [symmetric] Let_def r
        n_def [symmetric] u)
qed

text \<open>
  Where neither the settings nor the metadata say how many tokens a context has, it has the smallest
  multiple of 4096 that holds the prompt and 1024 more tokens, which need not be greater than that.
\<close>

lemma default_context_holds_prompt:
  assumes "m \<le> 0"
  shows "4096 dvd default_max_num_tokens n m" "int n + 1024 \<le> default_max_num_tokens n m"
    "default_max_num_tokens n m < int n + 1024 + 4096"
proof -
  have d: "default_max_num_tokens n m = ((int n + 1023) div 4096 + 1) * 4096"
    using assms by (simp add: default_max_num_tokens_def)
  show "4096 dvd default_max_num_tokens n m" unfolding d by simp
  show "int n + 1024 \<le> default_max_num_tokens n m" "default_max_num_tokens n m < int n + 1024 + 4096"
    unfolding d using div_mult_mod_eq [of "int n + 1023" 4096] pos_mod_bound [of 4096 "int n + 1023"]
      pos_mod_sign [of 4096 "int n + 1023"] by (simp_all add: algebra_simps)
qed

lemma default_context_may_be_full: "default_max_num_tokens 3072 0 = 3072 + 1024"
  by code_simp

text \<open>A start token whose text the tokenizer does not take is read outside its list of ids.\<close>

lemma unknown_start_token_is_undefined:
  assumes "settings_metadata e = Some m" "start_token m = Some (TokenStr t)" "c_start_token_id c = - 1"
  shows "SessionMaybeUpdateAndValidate e c = None"
  using assms by (simp add: SessionMaybeUpdateAndValidate_def from_metadata_def start_id_from_def first_start_id_def)

section \<open>An example\<close>

definition word_tokenizer :: settings_tokenizer where
  "word_tokenizer =
     \<lparr>TokenIdsToText = (\<lambda>_. Inr ''<start_of_turn>''), TextToTokenIds = (\<lambda>t. Inr (map of_char t)),
      TokenToId = (\<lambda>t. if t = ''<eos>'' then Inr 1 else Inl NotFound)\<rparr>"

definition file_metadata :: llm_metadata where
  "file_metadata = empty_metadata\<lparr>start_token := Some (TokenIds [2]),
     stop_tokens := [TokenStr ''<eos>'', TokenStr ''ab'']\<rparr>"

definition cpu_settings :: engine_settings where
  "cpu_settings =
     \<lparr>main_backend = CpuBackend, main_max_num_tokens = 0, main_advanced = None, vision_backend = None,
      audio_backend = None, settings_metadata = None\<rparr>"

definition validated_settings :: engine_settings where
  "validated_settings = snd (EngineMaybeUpdateAndValidate word_tokenizer (Some file_metadata) ''hi''
     (Some ''gpu,cpu'') None None cpu_settings)"

lemma validated_settings_Ok: "EngineMaybeUpdateAndValidate word_tokenizer (Some file_metadata) ''hi''
     (Some ''gpu,cpu'') None None cpu_settings = (Ok, validated_settings)"
proof -
  have "fst (EngineMaybeUpdateAndValidate word_tokenizer (Some file_metadata) ''hi''
     (Some ''gpu,cpu'') None None cpu_settings) = Ok"
    by code_simp
  then show ?thesis by (simp add: validated_settings_def prod_eq_iff)
qed

theorem engine_settings_are_stable_witness:
  "EngineMaybeUpdateAndValidate word_tokenizer None ''hi'' (Some ''gpu,cpu'') None None validated_settings =
     (Ok, validated_settings)"
  by (rule engine_settings_are_stable [OF validated_settings_Ok])




end
