(* ===== verification/ModelFile.thy ===== *)
theory ModelFile
  imports MappedFile
begin

text \<open>
  Model files: writing them, \<^verbatim>\<open>schema/py/litertlm_builder.py\<close>, reading their header,
  \<^verbatim>\<open>schema/core/litertlm_read.cc\<close>, and finding and mapping their sections,
  \<^verbatim>\<open>runtime/util/litert_lm_loader.{h,cc}\<close>. A file is a block of 16 KB with the header, which is a
  FlatBuffers message, and the sections, each padded to blocks. The FlatBuffers library is a parameter:
  the bytes it writes for the places of the sections and the section objects it reads from bytes,
  \<open>None\<close> where the bytes are no message and reading them is undefined.
\<close>

section \<open>Bytes\<close>

fun le_nat :: "8 word list \<Rightarrow> nat" where
  "le_nat [] = 0"
| "le_nat (b # bs) = unat b + 256 * le_nat bs"

fun le_bytes :: "nat \<Rightarrow> nat \<Rightarrow> 8 word list" where
  "le_bytes 0 n = []"
| "le_bytes (Suc k) n = of_nat (n mod 256) # le_bytes k (n div 256)"

lemma length_le_bytes [simp]: "length (le_bytes k n) = k"
  by (induction k arbitrary: n) simp_all

lemma le_nat_bytes: "n < 256 ^ k \<Longrightarrow> le_nat (le_bytes k n) = n"
proof (induction k arbitrary: n)
  case (Suc k)
  have "n div 256 < 256 ^ k" using Suc.prems by (simp add: div_less_iff_less_mult mult.commute)
  then have "le_nat (le_bytes k (n div 256)) = n div 256" by (rule Suc.IH)
  moreover have "unat (of_nat (n mod 256) :: 8 word) = n mod 256"
    by (simp add: unsigned_of_nat take_bit_eq_mod)
  ultimately show ?case by simp
qed simp

definition magic_bytes :: "8 word list" where
  "magic_bytes = map (\<lambda>c. of_nat (of_char c)) ''LITERTLM''"

lemma length_magic [simp]: "length magic_bytes = 8"
  by (simp add: magic_bytes_def)

section \<open>Writing a file\<close>

definition BLOCK_SIZE :: nat where
  "BLOCK_SIZE = 16 * 1024"

text \<open>\<^verbatim>\<open>_write_padding\<close>: zeros up to a multiple of the block size.\<close>

definition padding :: "nat \<Rightarrow> nat \<Rightarrow> 8 word list" where
  "padding n pos = replicate ((n - pos mod n) mod n) 0"

fun write_sections :: "nat \<Rightarrow> 8 word list list \<Rightarrow> 8 word list \<times> (nat \<times> nat) list" where
  "write_sections pos [] = ([], [])"
| "write_sections pos (d # ds) =
     (let end = pos + length d;
          pad = padding BLOCK_SIZE end;
          (body, offsets) = write_sections (end + length pad) ds
      in (d @ pad @ body, (pos, end) # offsets))"

definition write_header :: "8 word list \<Rightarrow> 8 word list option" where
  "write_header h =
     (if BLOCK_SIZE < 32 + length h then None
      else Some (magic_bytes @ le_bytes 4 1 @ le_bytes 4 5 @ le_bytes 4 0 @ replicate 4 0 @
                 le_bytes 8 (32 + length h) @ h @ replicate (BLOCK_SIZE - (32 + length h)) 0))"

definition build_file :: "((nat \<times> nat) list \<Rightarrow> 8 word list) \<Rightarrow> 8 word list list \<Rightarrow> 8 word list option" where
  "build_file header_data sections =
     (let (body, offsets) = write_sections BLOCK_SIZE sections in
      map_option (\<lambda>h. h @ body) (write_header (header_data offsets)))"

section \<open>Reading the header\<close>

record file_header =
  major_version :: nat
  minor_version :: nat
  patch_version :: nat
  header_bytes :: "8 word list"

text \<open>
  The stream of a buffer, read from its start. Memory for a header of any size that the file asks for
  may not be there; then the process ends, \<open>None\<close>.
\<close>

definition ReadHeaderFromLiteRTLM :: "(nat \<Rightarrow> bool) \<Rightarrow> 8 word list \<Rightarrow> file_header status_or option" where
  "ReadHeaderFromLiteRTLM has_memory data =
     (if length data < 8 \<or> take 8 data \<noteq> magic_bytes then Some (Inl InvalidArgument)
      else if length data < 20 then Some (Inl Internal)
      else if le_nat (take 4 (drop 8 data)) \<noteq> 1 then Some (Inl Unimplemented)
      else if length data < 32 then Some (Inl Internal)
      else
        let header_end_offset = le_nat (take 8 (drop 24 data)); header_size = header_end_offset - 32 in
        if header_end_offset < 32 then Some (Inl InvalidArgument)
        else if \<not> has_memory header_size then None
        else if length data < header_end_offset then Some (Inl Internal)
        else Some (Inr
          \<lparr>major_version = le_nat (take 4 (drop 8 data)), minor_version = le_nat (take 4 (drop 12 data)),
           patch_version = le_nat (take 4 (drop 16 data)), header_bytes = take header_size (drop 32 data)\<rparr>))"

text \<open>The header of a written file reads as what was written, at the current version.\<close>

lemma written_header_is_read:
  assumes "write_header h = Some bs" "has_memory (length h)" "32 + length h \<le> k"
  shows "ReadHeaderFromLiteRTLM has_memory (take k (bs @ rest)) =
    Some (Inr \<lparr>major_version = 1, minor_version = 5, patch_version = 0, header_bytes = h\<rparr>)"
proof -
  have small: "32 + length h < 256 ^ 8"
    using assms(1) by (simp add: write_header_def BLOCK_SIZE_def split: if_splits)
  define tail where "tail = take (k - (32 + length h)) (replicate (BLOCK_SIZE - (32 + length h)) 0 @ rest)"
  have bs: "bs = magic_bytes @ le_bytes 4 1 @ le_bytes 4 5 @ le_bytes 4 0 @ replicate 4 0 @
      le_bytes 8 (32 + length h) @ h @ replicate (BLOCK_SIZE - (32 + length h)) 0"
    using assms(1) by (auto simp add: write_header_def split: if_splits)
  have "take k (bs @ rest) = magic_bytes @ le_bytes 4 1 @ le_bytes 4 5 @ le_bytes 4 0 @ replicate 4 0 @
      le_bytes 8 (32 + length h) @ h @ tail"
    unfolding bs append_assoc take_append tail_def using assms(3) by (simp del: le_bytes.simps)
  then show ?thesis
    using assms(2) le_nat_bytes [OF small] le_nat_bytes [of 1 4] le_nat_bytes [of 5 4] le_nat_bytes [of 0 4]
    by (simp add: ReadHeaderFromLiteRTLM_def Let_def del: le_bytes.simps)
qed

section \<open>The loader\<close>

datatype data_type =
    NoData | GenericBinaryData | Deprecated | TFLiteModel | SP_Tokenizer | LlmMetadataProto
  | HF_Tokenizer_Zlib | TFLiteWeights

datatype model_type =
    kUnknown | kTfLitePrefillDecode | kTfLiteEmbedder | kTfLitePerLayerEmbedder | kTfLiteAux | kTfLiteAudioFrontend
  | kTfLiteAudioEncoderHw | kTfLiteAudioAdapter | kTfLiteEndOfAudio | kTfLiteVisionAdapter
  | kTfLiteVisionEncoder | kArtisanTextDecoder

definition lower :: "string \<Rightarrow> string" where
  "lower s = map (\<lambda>c. let n = of_char c :: nat in if 65 \<le> n \<and> n \<le> 90 then char_of (n + 32) else c) s"

definition model_type_names :: "(string \<times> model_type) list" where
  "model_type_names =
     [(''tf_lite_prefill_decode'', kTfLitePrefillDecode), (''tf_lite_embedder'', kTfLiteEmbedder),
      (''tf_lite_per_layer_embedder'', kTfLitePerLayerEmbedder), (''tf_lite_aux'', kTfLiteAux),
      (''tf_lite_audio_frontend'', kTfLiteAudioFrontend), (''tf_lite_audio_encoder_hw'', kTfLiteAudioEncoderHw),
      (''tf_lite_audio_adapter'', kTfLiteAudioAdapter), (''tf_lite_end_of_audio'', kTfLiteEndOfAudio),
      (''tf_lite_vision_adapter'', kTfLiteVisionAdapter), (''tf_lite_vision_encoder'', kTfLiteVisionEncoder),
      (''tf_lite_artisan_text_decoder'', kArtisanTextDecoder)]"

definition StringToModelType :: "string \<Rightarrow> model_type status_or" where
  "StringToModelType s =
     (case map_of model_type_names (lower s) of None \<Rightarrow> Inl InvalidArgument | Some t \<Rightarrow> Inr t)"

definition ModelTypeToString :: "model_type \<Rightarrow> string" where
  "ModelTypeToString t =
     (case t of
        kTfLitePrefillDecode \<Rightarrow> ''TF_LITE_PREFILL_DECODE'' | kTfLiteEmbedder \<Rightarrow> ''TF_LITE_EMBEDDER''
      | kTfLitePerLayerEmbedder \<Rightarrow> ''TF_LITE_PER_LAYER_EMBEDDER'' | kTfLiteAux \<Rightarrow> ''TF_LITE_AUX''
      | kTfLiteAudioFrontend \<Rightarrow> ''TF_LITE_AUDIO_FRONTEND'' | kTfLiteAudioEncoderHw \<Rightarrow> ''TF_LITE_AUDIO_ENCODER_HW''
      | kTfLiteAudioAdapter \<Rightarrow> ''TF_LITE_AUDIO_ADAPTER'' | kTfLiteEndOfAudio \<Rightarrow> ''TF_LITE_END_OF_AUDIO''
      | kTfLiteVisionAdapter \<Rightarrow> ''TF_LITE_VISION_ADAPTER'' | kTfLiteVisionEncoder \<Rightarrow> ''TF_LITE_VISION_ENCODER''
      | kArtisanTextDecoder \<Rightarrow> ''TF_LITE_ARTISAN_TEXT_DECODER'' | kUnknown \<Rightarrow> ''UNKNOWN'')"

lemma model_type_roundtrip: "t \<noteq> kUnknown \<Longrightarrow> StringToModelType (ModelTypeToString t) = Inr t"
  by (cases t) (simp_all, code_simp+)

text \<open>
  The value of an item: a string, which may be absent, or a value of another type; as a string the latter
  is a null pointer.
\<close>

datatype item_value = StringValue "string option" | OtherValue

record section_item =
  item_key :: "string option"
  item_value :: "item_value option"

record section_object =
  section_type :: data_type
  section_items :: "section_item list option"
  begin_offset :: "64 word"
  end_offset :: "64 word"

type_synonym buffer_key = "data_type \<times> model_type option"

text \<open>The last value of an item with a key; \<open>None\<close> for a null pointer.\<close>

definition item_string :: "item_value \<Rightarrow> string option" where
  "item_string v = (case v of StringValue s \<Rightarrow> s | OtherValue \<Rightarrow> None)"

fun find_item :: "string \<Rightarrow> section_item list \<Rightarrow> string option \<Rightarrow> string option option" where
  "find_item key [] acc = Some acc"
| "find_item key (x # xs) acc =
     (case (item_key x, item_value x) of
        (Some k, Some v) \<Rightarrow>
          if lower k = key then Option.bind (item_string v) (\<lambda>s. find_item key xs (Some s))
          else find_item key xs acc
      | _ \<Rightarrow> find_item key xs acc)"

definition section_key :: "section_object \<Rightarrow> (buffer_key \<times> string) option" where
  "section_key x =
     (if section_type x = TFLiteModel \<or> section_type x = TFLiteWeights then
        Option.bind (section_items x) (\<lambda>items.
        Option.bind (find_item ''model_type'' items None) (\<lambda>found.
        Option.bind (find_item ''backend_constraint'' items None) (\<lambda>constraint.
        Option.bind (case found of None \<Rightarrow> Some kTfLitePrefillDecode
            | Some s \<Rightarrow> (case StringToModelType s of Inl _ \<Rightarrow> None | Inr t \<Rightarrow> Some t)) (\<lambda>t.
        Some ((section_type x, Some t), case constraint of None \<Rightarrow> '''' | Some c \<Rightarrow> c)))))
      else Some ((section_type x, None), ''''))"

text \<open>A reference to the bytes of a section; \<open>None\<close> where they are not inside the mapped memory.\<close>

record section_buffer =
  buffer_length :: "64 word"
  buffer_bytes :: "8 word list option"

datatype model_source = ScopedSource "8 word file_system" bool | MappedSource "8 word mapped_file"

record loader =
  model_source :: model_source
  section_locations :: "buffer_key \<Rightarrow> (64 word \<times> 64 word) option"
  section_buffers :: "buffer_key \<Rightarrow> section_buffer option"
  section_backend_constraint :: "buffer_key \<Rightarrow> string option"

definition new_loader :: "model_source \<Rightarrow> loader" where
  "new_loader src = \<lparr>model_source = src, section_locations = (\<lambda>_. None), section_buffers = (\<lambda>_. None),
     section_backend_constraint = (\<lambda>_. None)\<rparr>"

definition CreateMemoryMapFromScopedFile ::
  "8 word file_system \<Rightarrow> bool \<Rightarrow> 64 word \<Rightarrow> 64 word \<Rightarrow> 8 word mapped_file status_or"
where
  "CreateMemoryMapFromScopedFile fs valid off len =
     (if \<not> valid then Inl InvalidArgument else MapFile fs off len)"

definition MapSection :: "buffer_key \<Rightarrow> 64 word \<Rightarrow> 64 word \<Rightarrow> (loader, unit) op" where
  "MapSection k b e l =
     (let size = e - b; store = (\<lambda>xs. l\<lparr>section_buffers := (section_buffers l)(k \<mapsto>
            \<lparr>buffer_length = size, buffer_bytes = xs\<rparr>)\<rparr>) in
      case model_source l of
        MappedSource f \<Rightarrow> (Ok, store (read_range (mapped_data f) (unat b) (unat size)))
      | ScopedSource fs valid \<Rightarrow>
          let gap = b mod page_size fs; aligned = b - gap in
          (case CreateMemoryMapFromScopedFile fs valid aligned (e - aligned) of
             Inl err \<Rightarrow> (Inl err, l)
           | Inr f \<Rightarrow> (Ok, store (read_range (mapped_data f) (unat gap) (unat size)))))"

definition GetSectionBuffer :: "buffer_key \<Rightarrow> loader \<Rightarrow> section_buffer option \<times> loader" where
  "GetSectionBuffer k l =
     (case section_locations l k of
        None \<Rightarrow> (None, l)
      | Some (b, e) \<Rightarrow>
          (case section_buffers l k of
             Some x \<Rightarrow> (Some x, l)
           | None \<Rightarrow> (case MapSection k b e l of
                 (Inl _, l') \<Rightarrow> (None, l')
               | (Inr _, l') \<Rightarrow> (section_buffers l' k, l'))))"

definition GetSectionLocation :: "buffer_key \<Rightarrow> loader \<Rightarrow> (64 word \<times> 64 word) status_or" where
  "GetSectionLocation k l =
     (case section_locations l k of None \<Rightarrow> Inl NotFound | Some p \<Rightarrow> Inr p)"

definition GetTFLiteModelBackendConstraint :: "model_type \<Rightarrow> loader \<Rightarrow> string option" where
  "GetTFLiteModelBackendConstraint t l = section_backend_constraint l (TFLiteModel, Some t)"

text \<open>The loop of \<^verbatim>\<open>Initialize\<close> over the sections.\<close>

fun record_sections :: "section_object list \<Rightarrow> loader \<Rightarrow> loader option" where
  "record_sections [] l = Some l"
| "record_sections (x # xs) l =
     Option.bind (section_key x) (\<lambda>(k, c).
       record_sections xs
         (l\<lparr>section_locations := (section_locations l)(k \<mapsto> (begin_offset x, end_offset x)),
            section_backend_constraint := (if c = '''' then section_backend_constraint l
              else (section_backend_constraint l)(k \<mapsto> c))\<rparr>))"

definition header_source :: "model_source \<Rightarrow> 8 word list status_or" where
  "header_source src =
     (case src of
        MappedSource f \<Rightarrow> Inr (take (unat (min (16 * 1024) (mapped_length f))) (mapped_data f))
      | ScopedSource fs valid \<Rightarrow>
          try_or_return (GetSize fs) (\<lambda>n. try_or_return
            (CreateMemoryMapFromScopedFile fs valid 0 (min (16 * 1024) n)) (\<lambda>f.
              Inr (take (unat (min (16 * 1024) n)) (mapped_data f)))))"

definition Initialize ::
  "(nat \<Rightarrow> bool) \<Rightarrow> (8 word list \<Rightarrow> section_object list option) \<Rightarrow> (loader, unit) uop"
where
  "Initialize has_memory parse l =
     (case header_source (model_source l) of
        Inl e \<Rightarrow> Some (Inl e, l)
      | Inr data \<Rightarrow>
          (case ReadHeaderFromLiteRTLM has_memory data of
             None \<Rightarrow> None
           | Some (Inl e) \<Rightarrow> Some (Inl e, l)
           | Some (Inr h) \<Rightarrow>
               Option.bind (parse (header_bytes h)) (\<lambda>xs. map_option (Pair Ok) (record_sections xs l))))"

section \<open>Reading sections\<close>

text \<open>
  \<^verbatim>\<open>DecompressData\<close>. The function \<^verbatim>\<open>uncompress\<close> of zlib is a parameter: the bytes it has written to a buffer
  of the given size, or an error. The vector keeps its size where it has written fewer.
\<close>

definition DecompressData ::
  "(nat \<Rightarrow> bool) \<Rightarrow> (nat \<Rightarrow> 8 word list \<Rightarrow> 8 word list status_or) \<Rightarrow> 8 word list \<Rightarrow>
   8 word list status_or option"
where
  "DecompressData has_memory uncompress xs =
     (if length xs < 8 then Some (Inl Internal)
      else
        let n = le_nat (take 8 xs) in
        if \<not> has_memory n then None
        else case uncompress n (drop 8 xs) of
            Inl _ \<Rightarrow> Some (Inl Internal)
          | Inr ys \<Rightarrow> Some (Inr (ys @ replicate (n - length ys) 0)))"

text \<open>The bytes between two offsets of a file, as \<^verbatim>\<open>ReadSectionIntoBinaryData\<close> reads them.\<close>

definition ReadSectionIntoBinaryData ::
  "(nat \<Rightarrow> bool) \<Rightarrow> 8 word list option \<Rightarrow> 64 word \<Rightarrow> 64 word \<Rightarrow> 8 word list status_or option"
where
  "ReadSectionIntoBinaryData has_memory content b e =
     (case content of
        None \<Rightarrow> Some (Inl Internal)
      | Some bs \<Rightarrow>
          let n = unat (e - b) in
          if \<not> has_memory n then None
          else if length bs < unat b + n then Some (Inl Internal)
          else Some (Inr (take n (drop (unat b) bs))))"

definition ReadSectionIntoHfTokenizerJsonData ::
  "(nat \<Rightarrow> bool) \<Rightarrow> (nat \<Rightarrow> 8 word list \<Rightarrow> 8 word list status_or) \<Rightarrow> 8 word list option \<Rightarrow>
   64 word \<Rightarrow> 64 word \<Rightarrow> 8 word list status_or option"
where
  "ReadSectionIntoHfTokenizerJsonData has_memory uncompress content b e =
     Option.bind (ReadSectionIntoBinaryData has_memory content b e) (\<lambda>r. case r of
        Inl err \<Rightarrow> Some (Inl err)
      | Inr xs \<Rightarrow> DecompressData has_memory uncompress xs)"

text \<open>The header of a file, or no file; then the list of its sections.\<close>

definition ReadSections ::
  "(nat \<Rightarrow> bool) \<Rightarrow> (8 word list \<Rightarrow> section_object list option) \<Rightarrow> 8 word list option \<Rightarrow>
   section_object list status_or option"
where
  "ReadSections has_memory parse content =
     (case content of
        None \<Rightarrow> Some (Inl Internal)
      | Some bs \<Rightarrow>
          Option.bind (ReadHeaderFromLiteRTLM has_memory bs) (\<lambda>r. case r of
            Inl err \<Rightarrow> Some (Inl err)
          | Inr h \<Rightarrow> map_option Inr (parse (header_bytes h))))"

definition ReadValueTFromSection ::
  "(nat \<Rightarrow> bool) \<Rightarrow> (8 word list \<Rightarrow> section_object list option) \<Rightarrow> data_type \<Rightarrow>
   (8 word list option \<Rightarrow> 64 word \<Rightarrow> 64 word \<Rightarrow> 'a status_or option) \<Rightarrow> 8 word list option \<Rightarrow> int \<Rightarrow>
   'a status_or option"
where
  "ReadValueTFromSection has_memory parse ty read_section content i =
     Option.bind (ReadSections has_memory parse content) (\<lambda>r. case r of
        Inl err \<Rightarrow> Some (Inl err)
      | Inr xs \<Rightarrow>
          if i < 0 \<or> int (length xs) \<le> i then Some (Inl InvalidArgument)
          else
            let x = xs ! nat i in
            if section_type x \<noteq> ty then Some (Inl InvalidArgument)
            else if end_offset x - begin_offset x = 0 then Some (Inl InvalidArgument)
            else read_section content (begin_offset x) (end_offset x))"

definition ReadBinaryDataFromSection ::
  "(nat \<Rightarrow> bool) \<Rightarrow> (8 word list \<Rightarrow> section_object list option) \<Rightarrow> 8 word list option \<Rightarrow> int \<Rightarrow>
   8 word list status_or option"
where
  "ReadBinaryDataFromSection has_memory parse =
     ReadValueTFromSection has_memory parse GenericBinaryData (ReadSectionIntoBinaryData has_memory)"

definition ReadHfTokenizerJsonFromSection ::
  "(nat \<Rightarrow> bool) \<Rightarrow> (nat \<Rightarrow> 8 word list \<Rightarrow> 8 word list status_or) \<Rightarrow>
   (8 word list \<Rightarrow> section_object list option) \<Rightarrow> 8 word list option \<Rightarrow> int \<Rightarrow> 8 word list status_or option"
where
  "ReadHfTokenizerJsonFromSection has_memory uncompress parse =
     ReadValueTFromSection has_memory parse HF_Tokenizer_Zlib
       (ReadSectionIntoHfTokenizerJsonData has_memory uncompress)"

fun first_of_type :: "data_type \<Rightarrow> section_object list \<Rightarrow> int \<Rightarrow> int option" where
  "first_of_type ty [] i = None"
| "first_of_type ty (x # xs) i = (if section_type x = ty then Some i else first_of_type ty xs (i + 1))"

definition ReadAnyT ::
  "(nat \<Rightarrow> bool) \<Rightarrow> (8 word list \<Rightarrow> section_object list option) \<Rightarrow> data_type \<Rightarrow>
   (8 word list option \<Rightarrow> int \<Rightarrow> 'a status_or option) \<Rightarrow> 8 word list option \<Rightarrow> 'a status_or option"
where
  "ReadAnyT has_memory parse ty read_data content =
     Option.bind (ReadSections has_memory parse content) (\<lambda>r. case r of
        Inl err \<Rightarrow> Some (Inl err)
      | Inr xs \<Rightarrow>
          (case first_of_type ty xs 0 of
             None \<Rightarrow> Some (Inl NotFound)
           | Some i \<Rightarrow> read_data content i))"

section \<open>Sections by name\<close>

definition no_buffer :: section_buffer where
  "no_buffer = \<lparr>buffer_length = 0, buffer_bytes = Some []\<rparr>"

definition GetSentencePieceTokenizer :: "loader \<Rightarrow> section_buffer option \<times> loader" where
  "GetSentencePieceTokenizer = GetSectionBuffer (SP_Tokenizer, None)"

definition GetTFLiteModel :: "model_type \<Rightarrow> loader \<Rightarrow> section_buffer \<times> loader" where
  "GetTFLiteModel t l =
     (let (r, l') = GetSectionBuffer (TFLiteModel, Some t) l in
      (case r of None \<Rightarrow> no_buffer | Some x \<Rightarrow> x, l'))"

definition GetTFLiteWeights :: "model_type \<Rightarrow> loader \<Rightarrow> section_buffer \<times> loader" where
  "GetTFLiteWeights t l =
     (let (r, l') = GetSectionBuffer (TFLiteWeights, Some t) l in
      (case r of None \<Rightarrow> no_buffer | Some x \<Rightarrow> x, l'))"

definition GetLlmMetadata :: "loader \<Rightarrow> (section_buffer \<times> loader) option" where
  "GetLlmMetadata l =
     (let (r, l') = GetSectionBuffer (LlmMetadataProto, None) l in map_option (\<lambda>x. (x, l')) r)"

definition GetHuggingFaceTokenizer ::
  "(nat \<Rightarrow> bool) \<Rightarrow> (nat \<Rightarrow> 8 word list \<Rightarrow> 8 word list status_or) \<Rightarrow> loader \<Rightarrow>
   (8 word list option \<times> loader) option"
where
  "GetHuggingFaceTokenizer has_memory uncompress l =
     (let (r, l') = GetSectionBuffer (HF_Tokenizer_Zlib, None) l in
      case r of
        None \<Rightarrow> Some (None, l')
      | Some x \<Rightarrow>
          if buffer_length x < 8 then Some (None, l')
          else Option.bind (buffer_bytes x) (\<lambda>xs.
            map_option (\<lambda>r. (case r of Inl _ \<Rightarrow> None | Inr ys \<Rightarrow> Some ys, l'))
              (DecompressData has_memory uncompress xs)))"

text \<open>A buffer is kept: asking for it again gives the same and changes nothing.\<close>

lemma MapSection_Ok:
  "MapSection k b e l = (Inr u, l') \<Longrightarrow>
   section_buffers l' k \<noteq> None \<and> section_locations l' = section_locations l"
  by (auto simp: MapSection_def Let_def split: model_source.splits sum.splits)

lemma section_buffer_kept:
  assumes "GetSectionBuffer k l = (Some x, l')"
  shows "GetSectionBuffer k l' = (Some x, l')"
proof -
  obtain b e where loc: "section_locations l k = Some (b, e)"
    using assms by (auto simp: GetSectionBuffer_def split: option.splits)
  show ?thesis
  proof (cases "section_buffers l k")
    case (Some y)
    then show ?thesis using assms loc by (simp add: GetSectionBuffer_def)
  next
    case None
    then obtain u where m: "MapSection k b e l = (Inr u, l')" "section_buffers l' k = Some x"
      using assms loc by (auto simp: GetSectionBuffer_def split: prod.splits sum.splits)
    then show ?thesis using MapSection_Ok [OF m(1)] loc by (simp add: GetSectionBuffer_def)
  qed
qed

section \<open>From the writer to the loader\<close>

lemma length_write_header: "write_header h = Some hb \<Longrightarrow> length hb = BLOCK_SIZE"
  by (auto simp: write_header_def BLOCK_SIZE_def split: if_splits)

text \<open>Each section stands in the file at its place.\<close>

definition placed :: "8 word list \<Rightarrow> nat \<times> nat \<Rightarrow> 8 word list \<Rightarrow> bool" where
  "placed bs r d \<longleftrightarrow> snd r \<le> length bs \<and> snd r = fst r + length d \<and> take (length d) (drop (fst r) bs) = d"

lemma sections_placed:
  "write_sections (length hb) ds = (body, offsets) \<Longrightarrow> list_all2 (placed (hb @ body)) offsets ds"
proof (induction ds arbitrary: hb body offsets)
  case (Cons d ds)
  define pad where "pad = padding BLOCK_SIZE (length hb + length d)"
  obtain body' offsets' where rest: "write_sections (length (hb @ d @ pad)) ds = (body', offsets')"
    by fastforce
  then have r: "body = d @ pad @ body'" "offsets = (length hb, length hb + length d) # offsets'"
    using Cons.prems by (simp_all add: Let_def pad_def add.assoc)
  show ?case
    using Cons.IH [OF rest] by (simp add: r placed_def)
qed simp

text \<open>The loop over the sections keeps all places, where no key occurs twice.\<close>

lemma record_sections_locations:
  assumes "map section_key xs = map Some ks" "distinct (map fst ks)"
  shows "\<exists>l'. record_sections xs l = Some l' \<and> model_source l' = model_source l \<and>
      section_buffers l' = section_buffers l \<and>
      (\<forall>k. k \<notin> fst ` set ks \<longrightarrow> section_locations l' k = section_locations l k) \<and>
      list_all2 (\<lambda>x k. section_locations l' (fst k) = Some (begin_offset x, end_offset x)) xs ks"
  using assms
proof (induction xs arbitrary: ks l)
  case (Cons x xs)
  then obtain k c ks' where ks: "ks = (k, c) # ks'" "section_key x = Some (k, c)"
      and rest: "map section_key xs = map Some ks'" "distinct (map fst ks')" and new: "k \<notin> fst ` set ks'"
    by (cases ks) auto
  define l1 where "l1 = l\<lparr>section_locations := (section_locations l)(k \<mapsto> (begin_offset x, end_offset x)),
      section_backend_constraint := (if c = '''' then section_backend_constraint l
        else (section_backend_constraint l)(k \<mapsto> c))\<rparr>"
  have l1: "model_source l1 = model_source l" "section_buffers l1 = section_buffers l"
      "section_locations l1 = (section_locations l)(k \<mapsto> (begin_offset x, end_offset x))"
    by (simp_all add: l1_def)
  obtain l' where l': "record_sections xs l1 = Some l'" "model_source l' = model_source l1"
      "section_buffers l' = section_buffers l1"
      "\<forall>k. k \<notin> fst ` set ks' \<longrightarrow> section_locations l' k = section_locations l1 k"
      "list_all2 (\<lambda>x k. section_locations l' (fst k) = Some (begin_offset x, end_offset x)) xs ks'"
    using Cons.IH [OF rest, of l1] by blast
  have "record_sections (x # xs) l = Some l'"
    using l'(1) by (simp add: ks(2) l1_def)
  moreover have "section_locations l' k = Some (begin_offset x, end_offset x)"
    using l'(4) [rule_format, OF new] l1(3) by simp
  moreover have "section_locations l' k' = section_locations l k'" if "k' \<notin> fst ` set ks" for k'
  proof -
    have "k' \<noteq> k" "k' \<notin> fst ` set ks'" using that by (auto simp: ks(1))
    then show ?thesis using l'(4) [rule_format, of k'] l1(3) by simp
  qed
  ultimately show ?case using l'(2,3,5) l1(1,2) by (intro exI [of _ l']) (simp add: ks(1))
qed simp

text \<open>A source that holds the bytes of a file, as a mapping of it or as the open file.\<close>

definition holds_model :: "model_source \<Rightarrow> 8 word list \<Rightarrow> bool" where
  "holds_model src bs \<longleftrightarrow>
     (case src of
        MappedSource f \<Rightarrow> mapped_data f = bs \<and> unat (mapped_length f) = length bs
      | ScopedSource fs valid \<Rightarrow> valid \<and> holds_file fs bs \<and> maps_ranges fs)"

lemma holds_model_length: "holds_model src bs \<Longrightarrow> length bs < 2 ^ 64"
proof -
  assume "holds_model src bs"
  then obtain n :: "64 word" where n: "unat n = length bs"
    by (auto simp: holds_model_def holds_file_def split: model_source.splits sum.splits)
  moreover have "unat n < 2 ^ LENGTH(64)" by (rule unsigned_less)
  ultimately show "length bs < 2 ^ 64" by simp
qed

lemma word_minus_mod: "b - b mod p = page_start p b" for b :: "64 word"
  by (simp add: page_start_def minus_mod_eq_div_mult)

lemma map_scoped_file:
  assumes "holds_file fs bs" "maps_ranges fs" "off mod page_size fs = 0" "len \<noteq> 0"
    "unat off + unat len \<le> length bs" "length bs < 2 ^ 64"
  shows "CreateMemoryMapFromScopedFile fs True off len =
    Inr \<lparr>mapped_length = len, mapped_data = take (unat len) (drop (unat off) bs)\<rparr>"
proof -
  have w: "unat off + unat len < 2 ^ 64" using assms(5,6) by simp
  then obtain m where m: "MapFile fs off len = Inr m"
    using ok_MapFile_iff [OF assms(1-4) w] assms(5) by (auto simp: ok_iff)
  have "mapped_length m = len"
    using MapFile_contents(2) [OF assms(1) m w] assms(4) by (simp add: word_unat_eq_iff)
  then show ?thesis
    using MapFile_contents(3) [OF assms(1) m w] m by (cases m) (simp add: CreateMemoryMapFromScopedFile_def)
qed

lemma header_source_bytes:
  assumes "holds_model src bs" "BLOCK_SIZE \<le> length bs"
  shows "header_source src = Inr (take BLOCK_SIZE bs)"
proof (cases src)
  case (MappedSource f)
  then have "16384 \<le> mapped_length f" using assms by (simp add: holds_model_def BLOCK_SIZE_def word_le_nat_alt)
  then show ?thesis using MappedSource assms(1) by (simp add: holds_model_def header_source_def BLOCK_SIZE_def min_def)
next
  case (ScopedSource fs valid)
  then obtain n where f: "valid" "holds_file fs bs" "maps_ranges fs" "GetSize fs = Inr n" "unat n = length bs"
    using assms(1) by (auto simp: holds_model_def holds_file_def split: sum.splits)
  have n: "16384 \<le> n" using assms(2) f(5) by (simp add: BLOCK_SIZE_def word_le_nat_alt)
  have "CreateMemoryMapFromScopedFile fs True 0 16384 =
      Inr \<lparr>mapped_length = 16384, mapped_data = take 16384 bs\<rparr>"
    using map_scoped_file [OF f(2,3), of 0 16384] holds_model_length [OF assms(1)] assms(2)
    by (simp add: BLOCK_SIZE_def)
  then show ?thesis using ScopedSource f n by (simp add: header_source_def BLOCK_SIZE_def min_def)
qed

text \<open>A section that is not empty and lies in the file is exactly its bytes.\<close>

lemma section_buffer_exact:
  assumes "holds_model (model_source l) bs" "section_locations l k = Some (b, e)" "section_buffers l k = None"
    "b < e" "unat e \<le> length bs"
  shows "fst (GetSectionBuffer k l) = Some
    \<lparr>buffer_length = e - b, buffer_bytes = Some (take (unat (e - b)) (drop (unat b) bs))\<rparr>"
proof (cases "model_source l")
  case (MappedSource f)
  have "unat b + unat (e - b) \<le> length bs" using assms(4,5) by (simp add: word_less_nat_alt unat_sub order_less_imp_le)
  then show ?thesis
    using assms(1-3) MappedSource
    by (simp add: GetSectionBuffer_def MapSection_def Let_def holds_model_def read_range_def)
next
  case (ScopedSource fs valid)
  then have f: "valid" "holds_file fs bs" "maps_ranges fs" using assms(1) by (simp_all add: holds_model_def)
  define p where "p = page_size fs"
  have be: "unat b < unat e" using assms(4) by (simp add: word_less_nat_alt)
  have a: "page_start p b \<le> e" "unat (page_start p b) \<le> unat b"
    using page_start_le [of p b] assms(4) by (simp_all add: word_le_nat_alt word_less_nat_alt)
  have len: "unat (e - page_start p b) = unat e - unat (page_start p b)" "unat (e - b) = unat e - unat b"
    using a(1) assms(4) by (simp_all add: unat_sub order_less_imp_le)
  have gap: "unat (b mod p) = unat b mod unat p" by (simp add: unat_mod_distrib)
  have "e - page_start p b \<noteq> 0" using len(1) a(2) be by (auto simp: unat_eq_0)
  then have "CreateMemoryMapFromScopedFile fs True (page_start p b) (e - page_start p b) =
      Inr \<lparr>mapped_length = e - page_start p b,
           mapped_data = take (unat (e - page_start p b)) (drop (unat (page_start p b)) bs)\<rparr>"
    using holds_model_length [OF assms(1)] assms(5) a be
    by (intro map_scoped_file [OF f(2,3)]) (simp_all add: p_def [symmetric] page_start_aligned len)
  then show ?thesis
    using assms(2,3) ScopedSource f(1) page_start_rest [of p b] be assms(5) a
    by (simp add: GetSectionBuffer_def MapSection_def Let_def p_def [symmetric] word_minus_mod read_range_def
        gap len drop_take add.commute min_absorb1)
qed

text \<open>
  C15. What the builder writes, the loader gives back: for every section of a built file that is not empty,
  the buffer that the loader returns for its key holds exactly the bytes of the section. The file is open or
  mapped as a whole, with pages of any size. Assumed are that the header reads as it was written, that
  each section has a readable key of its own, and that there is memory for the header.
\<close>

theorem built_sections_are_loaded:
  assumes "write_sections BLOCK_SIZE ds = (body, offsets)" "build_file header_data ds = Some bs"
    "holds_model src bs" "has_memory (length (header_data offsets))"
    "parse (header_data offsets) = Some xs"
    "map (\<lambda>x. (unat (begin_offset x), unat (end_offset x))) xs = offsets"
    "map section_key xs = map Some ks" "distinct (map fst ks)" "i < length ds" "ds ! i \<noteq> []"
  shows "\<exists>l. Initialize has_memory parse (new_loader src) = Some (Ok, l) \<and>
    fst (GetSectionBuffer (fst (ks ! i)) l) =
      Some \<lparr>buffer_length = of_nat (length (ds ! i)), buffer_bytes = Some (ds ! i)\<rparr>"
proof -
  obtain hb where hb: "write_header (header_data offsets) = Some hb" "bs = hb @ body"
    using assms(1,2) by (auto simp: build_file_def)
  note len = length_write_header [OF hb(1)]
  have fits: "32 + length (header_data offsets) \<le> BLOCK_SIZE"
    using hb(1) by (simp add: write_header_def split: if_splits)
  have data: "header_source src = Inr (take BLOCK_SIZE (hb @ body))"
    using header_source_bytes [OF assms(3)] len by (simp add: hb(2))
  obtain l where l: "record_sections xs (new_loader src) = Some l" "model_source l = src"
      "section_buffers l = (\<lambda>_. None)"
      "list_all2 (\<lambda>x k. section_locations l (fst k) = Some (begin_offset x, end_offset x)) xs ks"
    using record_sections_locations [OF assms(7,8), of "new_loader src"] by (auto simp: new_loader_def)
  have init: "Initialize has_memory parse (new_loader src) = Some (Ok, l)"
    using written_header_is_read [where has_memory = has_memory and rest = body, OF hb(1) assms(4) fits]
    by (simp add: Initialize_def new_loader_def data assms(5) l(1) [unfolded new_loader_def])
  have placed: "list_all2 (placed bs) offsets ds"
    using sections_placed [of hb ds body offsets] assms(1) len by (simp add: hb(2))
  then have n: "length offsets = length ds" by (rule list_all2_lengthD)
  then have i: "i < length xs" using assms(6,9) by auto
  define b where "b = begin_offset (xs ! i)"
  define e where "e = end_offset (xs ! i)"
  have off: "offsets ! i = (unat b, unat e)" using assms(6) i by (auto simp: b_def e_def)
  have p: "placed bs (unat b, unat e) (ds ! i)" using list_all2_nthD2 [OF placed assms(9)] by (simp add: off)
  have be: "b < e" "unat e \<le> length bs" using p assms(10) by (auto simp: placed_def word_less_nat_alt)
  have size: "unat (e - b) = length (ds ! i)" using p be(1) by (simp add: placed_def unat_sub order_less_imp_le)
  have "section_locations l (fst (ks ! i)) = Some (b, e)"
    using list_all2_nthD [OF l(4) i] by (simp add: b_def e_def)
  then have "fst (GetSectionBuffer (fst (ks ! i)) l) = Some
      \<lparr>buffer_length = e - b, buffer_bytes = Some (take (unat (e - b)) (drop (unat b) bs))\<rparr>"
    using section_buffer_exact [of l bs] assms(3) l(2,3) be by simp
  moreover have "e - b = of_nat (length (ds ! i))" by (simp add: size [symmetric])
  ultimately show ?thesis using init p size by (auto simp: placed_def)
qed

text \<open>The same sections, read from the file by their number.\<close>

lemma built_section_is_read:
  assumes "write_sections BLOCK_SIZE ds = (body, offsets)" "build_file header_data ds = Some bs"
    "has_memory (length (header_data offsets))" "parse (header_data offsets) = Some xs"
    "map (\<lambda>x. (unat (begin_offset x), unat (end_offset x))) xs = offsets"
    "i < length ds" "ds ! i \<noteq> []" "has_memory (length (ds ! i))" "section_type (xs ! i) = GenericBinaryData"
  shows "ReadBinaryDataFromSection has_memory parse (Some bs) (int i) = Some (Inr (ds ! i))"
proof -
  obtain hb where hb: "write_header (header_data offsets) = Some hb" "bs = hb @ body"
    using assms(1,2) by (auto simp: build_file_def)
  note len = length_write_header [OF hb(1)]
  have "32 + length (header_data offsets) \<le> length (hb @ body)"
    using hb(1) len by (simp add: write_header_def split: if_splits)
  from written_header_is_read [where has_memory = has_memory and rest = body, OF hb(1) assms(3) this]
  have sections: "ReadSections has_memory parse (Some bs) = Some (Inr xs)"
    by (simp add: ReadSections_def hb(2) assms(4))
  have placed: "list_all2 (placed bs) offsets ds"
    using sections_placed [of hb ds body offsets] assms(1) len by (simp add: hb(2))
  then have i: "i < length xs" using list_all2_lengthD [OF placed] assms(5,6) by auto
  define b where "b = begin_offset (xs ! i)"
  define e where "e = end_offset (xs ! i)"
  have "offsets ! i = (unat b, unat e)" using assms(5) i by (auto simp: b_def e_def)
  then have p: "placed bs (unat b, unat e) (ds ! i)" using list_all2_nthD2 [OF placed assms(6)] by simp
  then have be: "b \<le> e" "unat e = unat b + length (ds ! i)" by (simp_all add: placed_def word_le_nat_alt)
  then have size: "unat (e - b) = length (ds ! i)" by (simp add: unat_sub)
  then have "e - b \<noteq> 0" using assms(7) by auto
  then show ?thesis
    using sections i p be size assms(8,9)
    by (simp add: ReadBinaryDataFromSection_def ReadValueTFromSection_def ReadSectionIntoBinaryData_def
        b_def [symmetric] e_def [symmetric] placed_def)
qed

section \<open>A file of two sections\<close>

definition two_sections :: "8 word list list" where
  "two_sections = [[7], [8, 9]]"

definition two_objects :: "section_object list" where
  "two_objects =
     [\<lparr>section_type = SP_Tokenizer, section_items = None, begin_offset = 16384, end_offset = 16385\<rparr>,
      \<lparr>section_type = TFLiteModel, section_items = Some [\<lparr>item_key = Some ''Model_Type'',
         item_value = Some (StringValue (Some ''TF_LITE_EMBEDDER''))\<rparr>],
       begin_offset = 32768, end_offset = 32770\<rparr>]"

definition two_file :: "8 word list" where
  "two_file = (case build_file (\<lambda>_. [1]) two_sections of None \<Rightarrow> [] | Some bs \<Rightarrow> bs)"

lemma two_offsets:
  "write_sections BLOCK_SIZE two_sections =
     ([7] @ replicate 16383 0 @ [8, 9] @ replicate 16382 0, [(16384, 16385), (32768, 32770)])"
  by (simp add: two_sections_def padding_def BLOCK_SIZE_def Let_def)

lemma two_file_built: "build_file (\<lambda>_. [1]) two_sections = Some two_file"
  unfolding two_file_def build_file_def two_offsets
  by (simp add: write_header_def BLOCK_SIZE_def)

lemma length_two_file: "length two_file = 49152"
proof -
  obtain hb where h: "write_header [1] = Some hb"
      and f: "two_file = hb @ [7] @ replicate 16383 0 @ [8, 9] @ replicate 16382 0"
    using two_file_built by (auto simp: build_file_def two_offsets)
  have hb: "length hb = 16384" using length_write_header [OF h] by (simp add: BLOCK_SIZE_def)
  show ?thesis unfolding f length_append length_replicate hb by simp
qed

lemma holds_two_file: "holds_model (MappedSource \<lparr>mapped_length = 49152, mapped_data = two_file\<rparr>) two_file"
  by (simp add: holds_model_def length_two_file)

lemma two_keys:
  "map section_key two_objects =
     map Some [((SP_Tokenizer, None), ''''), ((TFLiteModel, Some kTfLiteEmbedder), '''')]"
  by code_simp

theorem built_sections_are_loaded_witness:
  "\<exists>l. Initialize (\<lambda>_. True) (\<lambda>h. if h = [1] then Some two_objects else None)
      (new_loader (MappedSource \<lparr>mapped_length = 49152, mapped_data = two_file\<rparr>)) = Some (Ok, l) \<and>
    fst (GetSectionBuffer (TFLiteModel, Some kTfLiteEmbedder) l) =
      Some \<lparr>buffer_length = 2, buffer_bytes = Some [8, 9]\<rparr>"
  using built_sections_are_loaded [where has_memory = "\<lambda>_. True" and i = 1 and
      parse = "\<lambda>h. if h = [1] then Some two_objects else None",
      OF two_offsets two_file_built holds_two_file _ _ _ two_keys]
  by (simp add: two_sections_def two_objects_def)

text \<open>
  Places are not compared with the size of the file: a section of a mapped file that lies outside it
  is given out as if it were there.
\<close>

lemma section_outside_is_given:
  assumes "model_source l = MappedSource f" "section_locations l k = Some (b, e)" "section_buffers l k = None"
    "length (mapped_data f) < unat b + unat (e - b)"
  shows "fst (GetSectionBuffer k l) = Some \<lparr>buffer_length = e - b, buffer_bytes = None\<rparr>"
  using assms by (simp add: GetSectionBuffer_def MapSection_def Let_def read_range_def)

text \<open>Data that is shorter than it says is filled up with zeros.\<close>

lemma short_data_is_padded:
  "DecompressData (\<lambda>_. True) (\<lambda>n xs. Inr xs) [3, 0, 0, 0, 0, 0, 0, 0, 5] = Some (Inr [5, 0, 0])"
  by code_simp

end
