(* ===== verification/Spec2Isabelle.thy ===== *)
theory Spec2Isabelle
  imports IoTypes ProcessedTokens StopTokens ThreadPool ExecutionManager Benchmark ConstrainedDecoding
    Tasks Scoring FakeExecutor DecodeEnds ExecutorIO ExecutorUtils CompiledExecutor DynamicExecutor ContextHandler
    ResourceManager MediaExecutors StreamCallback Conversation Sampling EmbeddingLookup SessionUtils
    SessionAdvanced SessionBasic MappedFile LoraWeights MagicNumbers AudioEncoder Settings ModelFile
begin

text \<open>
  \<^bold>\<open>LiteRT-LM: a verification of the runtime\<close>

  LiteRT-LM runs language models on devices. A client opens a conversation, which renders its messages
  with a template and gives the text to a session. A session prepares the inputs (templates, tokens,
  embeddings of images and audio) and hands prefill and decode tasks to the execution manager, which runs
  them on a pool of threads, or in its basic form puts jobs on a pool itself; a task drives an executor (a compiled
  model with its KV cache) step by step, samples tokens, looks for stop sequences and streams text.
  The sessions of one engine share one executor: the resource manager keeps the context of each session
  and loads it when the session runs. This development models that core, \<^verbatim>\<open>src/runtime\<close>, operation by
  operation, and proves what makes it correct. All paths below are relative to \<^verbatim>\<open>src/runtime\<close>.

  \<^bold>\<open>Conventions.\<close> Objects are records and methods are functions on them (\<open>op\<close> of \<open>Prelude\<close> where a
  method may return early with an error, which is then a value next to the state reached). Undefined
  behaviour of C++ is the value \<open>None\<close> around a result (\<open>uop\<close>), so that its absence is a theorem. Code
  that is not in the repository (LiteRT buffers and models, tokenizers, the executor with contexts) is a
  parameter: a record of methods or an argument, with its documented behaviour as hypothesis or as the
  assumptions of a locale. A locale is interpreted on the implementations of the repository; where it has
  none, as for the methods on contexts, on an instance that is assumed and says so. Floats are opaque
  values, or a linear order, with their arithmetic as arguments.

  \<^bold>\<open>Data and executors.\<close>
  \<^item> \<open>Prelude\<close>: status values, operations with errors, the locale of invariants kept by every run.
  \<^item> \<open>IoTypes\<close> (\<^verbatim>\<open>engine/io_types.{h,cc}\<close>): inputs and their copies, task states, responses.
  \<^item> \<open>ExecutorIO\<close> (\<^verbatim>\<open>executor/llm_executor_io_types.{h,cc}\<close>): inputs and parameters of an executor call.
  \<^item> \<open>ProcessedTokens\<close> (\<^verbatim>\<open>executor/llm_executor_processed_tokens.{h,cc}\<close>): the tokens an executor has
    consumed and the one that is pending. The state of a candidate is abstracted to its context; every
    operation is characterised on contexts, none is undefined as long as no null token is added, rolling
    back truncates. The locale
    \<open>token_log\<close> is the interface the executors use.
  \<^item> \<open>ExecutorUtils\<close> (\<^verbatim>\<open>executor/litert_compiled_model_executor_utils.cc\<close>, cache utilities): the split of
    a prompt into runs of the compiled prefill signatures, the attention mask, dropping tokens from a cache.
  \<^item> \<open>CompiledExecutor\<close> (\<^verbatim>\<open>executor/llm_litert_compiled_model_executor.cc\<close>, the NPU executor): prefill
    and decode of the executors. The KV cache is a map from positions to the tokens written there; the
    invariant is that the cache agrees with the processed tokens, which the token sequence prefill, then
    decode keeps. The locale \<open>prefill_run\<close> holds what the three ways of feeding a prompt share.
  \<^item> \<open>DynamicExecutor\<close>: the length of the growing cache bounds every write, also when creating or
    resizing some of its buffers fails.
  \<^item> \<open>EmbeddingLookup\<close> (\<^verbatim>\<open>components/embedding_lookup\<close>): the lookups of text and of multi modal embeddings and
    their manager; a prefill writes the row of each token, and feeding it in pieces gives the same rows.
  \<^item> \<open>FakeExecutor\<close> (\<^verbatim>\<open>executor/fake_llm_executor.{h,cc}\<close>): the scripted executor, which obeys constraints.

  \<^item> \<open>MagicNumbers\<close> (\<^verbatim>\<open>executor/magic_number_configs_helper.cc\<close>): the primes in the shapes of a model and the numbers
    that replace them; every one is configured, within bounds, and batch sizes are placed as well as possible.
  \<^item> \<open>MappedFile\<close> and \<open>LoraWeights\<close> (\<^verbatim>\<open>util/memory_mapped_file_posix.cc\<close>, \<^verbatim>\<open>util/lora_util.cc\<close>, \<^verbatim>\<open>util/lora_data.cc\<close>,
    \<^verbatim>\<open>components/lora.cc\<close>, \<^verbatim>\<open>components/lora_manager.cc\<close>): ranges of files on 64-bit words, and the weights of an adapter
    from the bytes of its file to the buffers of the model.
  \<^item> \<open>ModelFile\<close> (\<^verbatim>\<open>util/litert_lm_loader.{h,cc}\<close>, \<^verbatim>\<open>schema/core/litertlm_read.cc\<close> and \<^verbatim>\<open>schema/py/litertlm_builder.py\<close>
    beside \<^verbatim>\<open>src/runtime\<close>): the layout of model files; what the builder writes, the loader gives back.
  \<^item> \<open>AudioEncoder\<close> (\<^verbatim>\<open>executor/audio_litert_compiled_model_executor.{h,cc}\<close>): the embeddings of an audio are those of
    its chunks, one after the other, for models that fill their chunks.

  \<^bold>\<open>Decoding.\<close>
  \<^item> \<open>StopTokens\<close> (\<^verbatim>\<open>components/stop_token_detector.{h,cc}\<close>): the detector is sound, and equals the plain
    question whether a stop sequence has occurred, for stop sequences without self overlap.
  \<^item> \<open>ConstrainedDecoding\<close> (\<^verbatim>\<open>components/constrained_decoding\<close>): masking of logits, constraint states.
  \<^item> \<open>Tasks\<close> and \<open>Scoring\<close> (\<^verbatim>\<open>core/tasks.cc\<close>): the prefill task, the decode loop and the decode step over
    any executor, sampler and tokenizer; the streamed text is the text of the accepted tokens, where a
    tokenizer may leave a character unfinished, and decoding stops before a stop sequence; scores.
  \<^item> \<open>DecodeEnds\<close>: the executors of \<open>CompiledExecutor\<close> and \<open>FakeExecutor\<close> as executors of the tasks
    (locale \<open>advancing_executor\<close>), and the end of the decode loop on them.
  \<^item> \<open>Sampling\<close> (\<^verbatim>\<open>components/sampling_cpu_util.cc\<close>, \<^verbatim>\<open>components/top_p_cpu_sampler.cc\<close>): top-k and top-p; the sampled
    token is among the k largest logits and in the nucleus.
  \<^item> \<open>Benchmark\<close> (\<^verbatim>\<open>engine/io_types.cc\<close>): the clock of turns, phases and marks.

  \<^bold>\<open>Scheduling and sharing.\<close>
  \<^item> \<open>ThreadPool\<close> (\<^verbatim>\<open>framework/threadpool.{h,cc}\<close>): a step for each critical section; no task is lost or
    run twice, a pool that has work makes progress, and a stopped pool can be joined.
  \<^item> \<open>ExecutionManager\<close> (\<^verbatim>\<open>framework/resource_management/execution_manager.{h,cc}\<close>): the life cycle of
    tasks and their dependencies, as reachability over the operations of the manager and the steps of the
    workers.
  \<^item> \<open>ContextHandler\<close> (\<^verbatim>\<open>framework/resource_management/context_handler\<close>): handlers and the contexts they
    share, in a store, stay linked. A destroyed handler is freed at once, a context when no handler refers
    to it; addresses are not used again, so that a use of a freed object is \<open>None\<close>, and none occurs.
  \<^item> \<open>ResourceManager\<close> (\<^verbatim>\<open>framework/resource_management/resource_manager.cc\<close>): the manager, which has one
    executor and copies contexts only when a write makes them differ, refines the specification in which
    every handler has a context of its own, for prompts that do not repeat what other handlers left behind;
    a theorem shows what other prompts lose. The executor is the locale \<open>context_executor\<close>, interpreted on
    prefill and decode of the NPU executor with assumed methods on contexts.
  \<^item> \<open>MediaExecutors\<close>: loading of the vision and audio executors.

  \<^bold>\<open>Sessions and conversations.\<close>
  \<^item> \<open>SessionUtils\<close> (\<^verbatim>\<open>core/session_utils.cc\<close>, \<^verbatim>\<open>util/executor_data_util.cc\<close>): from the contents of a turn to the
    inputs of a prefill. The templates add what they should and nothing else; the placeholders of images
    and audios match the rows that \<open>EmbeddingLookup\<close> takes for them.
  \<^item> \<open>SessionAdvanced\<close> (\<^verbatim>\<open>core/session_advanced.{h,cc}\<close>): a session over the operations of
    \<open>ExecutionManager\<close>, as a step relation; each task waits for the earlier tasks of its session, and a task that fails stops
    the session for good.
  \<^item> \<open>SessionBasic\<close> (\<^verbatim>\<open>core/session_basic.{h,cc}\<close>, \<^verbatim>\<open>core/pipeline.cc\<close>): a session over a pool with one worker; its jobs
    run the tasks of \<open>Tasks\<close> and \<open>Scoring\<close>. A stream ends once, and a blocking turn decodes what its prompt has
    prefilled.
  \<^item> \<open>Settings\<close> (\<^verbatim>\<open>engine/engine_settings.{h,cc}\<close>, \<^verbatim>\<open>util/model_type_utils.cc\<close>): the validation of settings of engines and
    sessions completes them, and validating again changes nothing.
  \<^item> \<open>StreamCallback\<close> (\<^verbatim>\<open>conversation/internal_callback_util.cc\<close>): the splitting of streamed text into text and tool calls
    does not depend on how the text is cut into pieces.
  \<^item> \<open>Conversation\<close> (\<^verbatim>\<open>conversation/conversation.cc\<close>): the text the model has read and the
    rendering of the history agree turn by turn, but for the way the template shows the answers.

  \<^bold>\<open>Bounds and fuel.\<close> Loops are structural recursion or \<open>function\<close>s with a measure, with six
  exceptions. \<open>FollowingWaitingTasks\<close> follows the dependents of a failed task with fuel one more than the
  number of tasks created: dependencies point to older tasks, so no chain is longer. \<open>decode_loop\<close> has
  fuel, and the tokens left to the maximal number of tokens of the executor, and one, are enough
  (\<open>decode_terminates\<close>); the jobs of \<open>SessionBasic\<close> take it,
  with the times at which a cancellation is heard, from the world they run in (\<open>job_world\<close>).
  \<open>full_groups\<close>, the loop over prefill signatures, may not end for a signature of length zero and is a
  \<open>partial_function (option)\<close>; \<open>work_groups_cover_input\<close> shows that it ends otherwise. \<open>process_text\<close>, the loop over streamed
  text, is one too and is shown to end for every text; so are \<open>halve_until\<close>, which ends for positive numbers,
  and \<open>encode_chunks\<close>, which ends for encoders of positive length. Task ids are 32-bit words, and the theorem on
  their uniqueness states the bound.

  \<^bold>\<open>Not modelled.\<close> Executor settings, which are accessors of records; engines, which create executors and
  sessions from files and settings; the engines of prompt templates, tool parsers and model data processors, which work over
  third-party JSON, template and grammar libraries; tokenizers; task bundles and zip files, and the models built from the sections of a model file; image and signal processing, and the vision executor; the running of models by LiteRT;
  command line programs, the C, Kotlin and Python bindings, and the vendored converter and generated
  schemas under \<^verbatim>\<open>src/cmake\<close>, which are most of the lines of the repository.
\<close>

end
